(* ===== verification/FEX_Prelude.thy ===== *)
theory FEX_Prelude
  imports Main "HOL-Library.Word" "HOL-Library.Signed_Division" "HOL-Library.State_Monad"
begin

text \<open>
  Shared vocabulary of the development: the machine integers of the C++ sources, byte-wise
  partial writes (\<^verbatim>\<open>memcpy\<close> into a 16-byte SSA slot), the standard bit utilities
  (\<^verbatim>\<open>std::countr_zero\<close>, \<^verbatim>\<open>std::countl_zero\<close>, \<^verbatim>\<open>std::popcount\<close>), the result type of fallible
  operations, and the theorem collections that the component theories fill.
\<close>

unbundle bit_operations_syntax

named_theorems emit_frame \<open>emitters keep every node and value that existed before them\<close>
named_theorems slot_simps \<open>reading back partially written SSA slots\<close>
named_theorems emit_val \<open>the value and size of a freshly emitted node\<close>
named_theorems flag_effect \<open>effect of the flag emitters on the guest context\<close>

type_synonym u8 = "8 word"
type_synonym u16 = "16 word"
type_synonym u32 = "32 word"
type_synonym u64 = "64 word"
type_synonym u128 = "128 word"

text \<open>An SSA value of the interpreter lives in a \<^verbatim>\<open>__uint128_t\<close> cell of \<^verbatim>\<open>SSAData\<close>.\<close>

type_synonym slot = u128
type_synonym node_id = nat

section \<open>Partial writes into a slot\<close>

definition put_bytes :: "nat \<Rightarrow> slot \<Rightarrow> slot \<Rightarrow> slot" where
  "put_bytes n old v = (old AND NOT (mask (8 * n))) OR (v AND mask (8 * n))"

lemma bit_put_bytes [bit_simps]:
  "bit (put_bytes n old v) i \<longleftrightarrow> (if i < 8 * n then bit v i else bit old i)"
  using bit_imp_le_length [of old i] bit_imp_le_length [of v i]
  by (auto simp: put_bytes_def bit_simps)

lemma put_bytes_all [slot_simps]: "put_bytes 16 old v = v"
  by (rule bit_word_eqI) (simp add: bit_simps)

lemma put_bytes_zero_mask [slot_simps]: "put_bytes n 0 v = v AND mask (8 * n)"
  by (rule bit_word_eqI) (auto simp: bit_simps)

lemma ucast_put_bytes_8 [slot_simps]: "(ucast (put_bytes 8 old (ucast v)) :: u64) = v"
  by (rule bit_word_eqI) (simp add: bit_simps)

lemma ucast_put_bytes_4 [slot_simps]: "(ucast (put_bytes 4 old (ucast v)) :: u32) = v"
  by (rule bit_word_eqI) (simp add: bit_simps)

lemma put_bytes_fresh_8 [slot_simps]: "put_bytes 8 0 (ucast (v :: u64)) = ucast v"
  by (rule bit_word_eqI) (auto simp: bit_simps dest: bit_imp_le_length)

lemma put_bytes_fresh_4 [slot_simps]: "put_bytes 4 0 (ucast (v :: u32)) = ucast v"
  by (rule bit_word_eqI) (auto simp: bit_simps dest: bit_imp_le_length)

lemma put_bytes_fresh_2 [slot_simps]: "put_bytes 2 0 (ucast (v :: u16)) = ucast v"
  by (rule bit_word_eqI) (auto simp: bit_simps dest: bit_imp_le_length)

lemma put_bytes_fresh_1 [slot_simps]: "put_bytes 1 0 (ucast (v :: u8)) = ucast v"
  by (rule bit_word_eqI) (auto simp: bit_simps dest: bit_imp_le_length)

section \<open>Bit counting\<close>

definition countr_zero :: "'a::len word \<Rightarrow> nat" where
  "countr_zero w = length (takeWhile (\<lambda>i. \<not> bit w i) [0..<LENGTH('a)])"

definition countl_zero :: "'a::len word \<Rightarrow> nat" where
  "countl_zero w = length (takeWhile (\<lambda>i. \<not> bit w i) (rev [0..<LENGTH('a)]))"

definition popcount :: "'a::len word \<Rightarrow> nat" where
  "popcount w = length (filter (bit w) [0..<LENGTH('a)])"

text \<open>The number of set bits of a word strictly below a position.\<close>

definition bits_below :: "'a::len word \<Rightarrow> nat \<Rightarrow> nat" where
  "bits_below w n = length (filter (bit w) [0..<n])"

lemma bits_below_0 [simp]: "bits_below w 0 = 0"
  by (simp add: bits_below_def)

lemma bits_below_Suc [simp]:
  "bits_below w (Suc n) = bits_below w n + (if bit w n then 1 else 0)"
  by (simp add: bits_below_def)

lemma popcount_bits_below: "popcount (w :: 'a::len word) = bits_below w LENGTH('a)"
  by (simp add: popcount_def bits_below_def)

lemma countr_zero_le: "countr_zero (w :: 'a::len word) \<le> LENGTH('a)"
  unfolding countr_zero_def by (metis diff_zero length_takeWhile_le length_upt)

lemma countl_zero_le: "countl_zero (w :: 'a::len word) \<le> LENGTH('a)"
  unfolding countl_zero_def by (metis diff_zero length_takeWhile_le length_rev length_upt)

lemma takeWhile_not_length:
  assumes "x \<in> set xs" "P x"
  shows "length (takeWhile (\<lambda>y. \<not> P y) xs) < length xs
    \<and> P (xs ! length (takeWhile (\<lambda>y. \<not> P y) xs))"
  using assms by (induction xs) auto

lemma countr_zero_bit:
  assumes "w \<noteq> (0 :: 'a::len word)"
  shows "countr_zero w < LENGTH('a)" and "bit w (countr_zero w)"
proof -
  from assms obtain i where i: "i < LENGTH('a)" "bit w i"
    by (metis bit_word_eqI bit_0_eq bot_apply bot_bool_def)
  have "length (takeWhile (\<lambda>y. \<not> bit w y) [0..<LENGTH('a)]) < length [0..<LENGTH('a)]
      \<and> bit w ([0..<LENGTH('a)] ! length (takeWhile (\<lambda>y. \<not> bit w y) [0..<LENGTH('a)]))"
    by (rule takeWhile_not_length [of i]) (use i in auto)
  then show "countr_zero w < LENGTH('a)" and "bit w (countr_zero w)"
    by (auto simp: countr_zero_def)
qed

lemma countr_zero_below:
  assumes "j < countr_zero (w :: 'a::len word)"
  shows "\<not> bit w j"
proof -
  let ?xs = "[0..<LENGTH('a)]"
  have len: "j < length (takeWhile (\<lambda>i. \<not> bit w i) ?xs)"
    using assms by (simp add: countr_zero_def)
  then have "j < LENGTH('a)"
    using length_takeWhile_le [of "\<lambda>i. \<not> bit w i" ?xs] by simp
  moreover have "\<not> bit w (?xs ! j)"
    using nth_mem [OF len] by (auto simp: takeWhile_nth [OF len] dest: set_takeWhileD)
  ultimately show ?thesis by simp
qed

section \<open>Results of fallible operations\<close>

text \<open>
  The handlers of the interpreter assert on operand sizes and comparison kinds they do not
  handle (\<^verbatim>\<open>LOGMAN_MSG_A_FMT\<close>), and C++ leaves an integer division with a zero divisor or an
  unrepresentable quotient undefined. Both are values of the error type here.
\<close>

datatype ir_error =
    UnhandledSize nat
  | UndefinedDivision
  | UnsupportedCompare
  | UnhandledOp

type_synonym 'a result = "ir_error + 'a"

end
