(* ===== verification/Interp_ALU.thy ===== *)
theory Interp_ALU
  imports FEX_Prelude
begin

text \<open>
  The integer handlers of the IR interpreter
  (\<^verbatim>\<open>External/FEXCore/Source/Interface/Core/Interpreter/ALUOps.cpp\<close>), one definition per
  \<^verbatim>\<open>DEF_OP\<close>. A handler gets the operation size \<^verbatim>\<open>IROp->Size\<close>, the previous contents \<open>d\<close> of the
  destination cell and the source cells, and returns the new destination cell: \<^verbatim>\<open>GD = x\<close> writes
  eight bytes (\<open>GD\<close>), \<^verbatim>\<open>DO_OP(n, type, f)\<close> writes \<open>n\<close> bytes, \<^verbatim>\<open>memcpy(GDP, ...)\<close> the bytes it copies;
  the remaining bytes of the cell keep their contents. Signed arithmetic wraps around, as the build option
  \<^verbatim>\<open>-fwrapv\<close> (\<^verbatim>\<open>External/FEXCore/Source/CMakeLists.txt\<close>) defines it; a rotation by zero, for which the source shifts
  by the full width, is the identity, as the shift instructions of the hosts make it.
\<close>

section \<open>Destination and source access\<close>

definition GD :: "slot \<Rightarrow> u64 \<Rightarrow> slot" where
  "GD d v = put_bytes 8 d (ucast v)"

definition do_op8 :: "(u8 \<Rightarrow> u8 \<Rightarrow> u8) \<Rightarrow> slot \<Rightarrow> slot \<Rightarrow> slot \<Rightarrow> slot" where
  "do_op8 f d a b = put_bytes 1 d (ucast (f (ucast a) (ucast b)))"

definition do_op16 :: "(u16 \<Rightarrow> u16 \<Rightarrow> u16) \<Rightarrow> slot \<Rightarrow> slot \<Rightarrow> slot \<Rightarrow> slot" where
  "do_op16 f d a b = put_bytes 2 d (ucast (f (ucast a) (ucast b)))"

definition do_op32 :: "(u32 \<Rightarrow> u32 \<Rightarrow> u32) \<Rightarrow> slot \<Rightarrow> slot \<Rightarrow> slot \<Rightarrow> slot" where
  "do_op32 f d a b = put_bytes 4 d (ucast (f (ucast a) (ucast b)))"

definition do_op64 :: "(u64 \<Rightarrow> u64 \<Rightarrow> u64) \<Rightarrow> slot \<Rightarrow> slot \<Rightarrow> slot \<Rightarrow> slot" where
  "do_op64 f d a b = put_bytes 8 d (ucast (f (ucast a) (ucast b)))"

definition do_op128 :: "(u128 \<Rightarrow> u128 \<Rightarrow> u128) \<Rightarrow> slot \<Rightarrow> slot \<Rightarrow> slot \<Rightarrow> slot" where
  "do_op128 f d a b = put_bytes 16 d (f a b)"

text \<open>Sign-extended reads, \<^verbatim>\<open>static_cast<int64_t>(static_cast<intN_t>(Src))\<close>.\<close>

definition sread :: "nat \<Rightarrow> slot \<Rightarrow> int" where
  "sread OpSize a =
     (if OpSize = 1 then sint (ucast a :: u8) else if OpSize = 2 then sint (ucast a :: u16)
      else if OpSize = 4 then sint (ucast a :: u32) else if OpSize = 8 then sint (ucast a :: u64)
      else sint a)"

definition uread :: "nat \<Rightarrow> slot \<Rightarrow> int" where
  "uread OpSize a =
     (if OpSize = 1 then uint (ucast a :: u8) else if OpSize = 2 then uint (ucast a :: u16)
      else if OpSize = 4 then uint (ucast a :: u32) else if OpSize = 8 then uint (ucast a :: u64)
      else uint a)"

section \<open>Constants and moves between pairs\<close>

definition Op_TruncElementPair :: "nat \<Rightarrow> slot \<Rightarrow> slot \<Rightarrow> slot result" where
  "Op_TruncElementPair OpSize d Src =
     (if OpSize = 4
      then Inr (GD d ((ucast (ucast Src :: u32)) OR push_bit 32 (ucast (drop_bit 64 Src))))
      else Inl (UnhandledSize OpSize))"

definition Op_Constant :: "slot \<Rightarrow> u64 \<Rightarrow> slot result" where
  "Op_Constant d Constant = Inr (GD d Constant)"

definition Op_EntrypointOffset :: "nat \<Rightarrow> u64 \<Rightarrow> slot \<Rightarrow> u64 \<Rightarrow> slot result" where
  "Op_EntrypointOffset OpSize CurrentEntry d Offset =
     (let Mask = (if OpSize = 4 then 0xFFFFFFFF else NOT 0) in
      Inr (GD d ((CurrentEntry + Offset) AND Mask)))"

section \<open>Addition, multiplication, division\<close>

definition Op_Add :: "nat \<Rightarrow> slot \<Rightarrow> slot \<Rightarrow> slot \<Rightarrow> slot result" where
  "Op_Add OpSize d a b =
     (if OpSize = 4 then Inr (do_op32 (+) d a b)
      else if OpSize = 8 then Inr (do_op64 (+) d a b)
      else Inl (UnhandledSize OpSize))"

definition Op_Sub :: "nat \<Rightarrow> slot \<Rightarrow> slot \<Rightarrow> slot \<Rightarrow> slot result" where
  "Op_Sub OpSize d a b =
     (if OpSize = 4 then Inr (do_op32 (-) d a b)
      else if OpSize = 8 then Inr (do_op64 (-) d a b)
      else Inl (UnhandledSize OpSize))"

definition Op_Neg :: "nat \<Rightarrow> slot \<Rightarrow> slot \<Rightarrow> slot result" where
  "Op_Neg OpSize d a =
     (if OpSize = 4 then Inr (GD d (scast (- (ucast a :: u32))))
      else if OpSize = 8 then Inr (GD d (- (ucast a)))
      else Inl (UnhandledSize OpSize))"

definition Op_Mul :: "nat \<Rightarrow> slot \<Rightarrow> slot \<Rightarrow> slot \<Rightarrow> slot result" where
  "Op_Mul OpSize d a b =
     (if OpSize = 4 then Inr (GD d (word_of_int (sread 4 a * sread 4 b)))
      else if OpSize = 8 then Inr (GD d (word_of_int (sread 8 a * sread 8 b)))
      else if OpSize = 16 then Inr (put_bytes 16 d (word_of_int (sread 8 a * sread 8 b)))
      else Inl (UnhandledSize OpSize))"

definition Op_UMul :: "nat \<Rightarrow> slot \<Rightarrow> slot \<Rightarrow> slot \<Rightarrow> slot result" where
  "Op_UMul OpSize d a b =
     (if OpSize = 4 then Inr (GD d (ucast ((ucast a :: u32) * ucast b)))
      else if OpSize = 8 then Inr (GD d (ucast a * ucast b))
      else if OpSize = 16 then Inr (put_bytes 16 d (word_of_int (uread 8 a * uread 8 b)))
      else Inl (UnhandledSize OpSize))"

text \<open>
  C++ division truncates towards zero; a zero divisor and a quotient that the type of the
  division cannot represent are undefined. Sizes 1, 2 and 4 divide at 64 bits.
\<close>

definition div_defined :: "nat \<Rightarrow> int \<Rightarrow> int \<Rightarrow> bool" where
  "div_defined bits a b \<longleftrightarrow> b \<noteq> 0 \<and> \<not> (a = - (2 ^ (bits - 1)) \<and> b = -1)"

definition Op_Div :: "nat \<Rightarrow> slot \<Rightarrow> slot \<Rightarrow> slot \<Rightarrow> slot result" where
  "Op_Div OpSize d a b =
     (if OpSize \<in> {1, 2, 4, 8} then
        (if div_defined 64 (sread OpSize a) (sread OpSize b)
         then Inr (GD d (word_of_int (sread OpSize a sdiv sread OpSize b)))
         else Inl UndefinedDivision)
      else if OpSize = 16 then
        (if div_defined 128 (sint a) (sint b)
         then Inr (put_bytes 16 d (word_of_int (sint a sdiv sint b)))
         else Inl UndefinedDivision)
      else Inl (UnhandledSize OpSize))"

definition Op_UDiv :: "nat \<Rightarrow> slot \<Rightarrow> slot \<Rightarrow> slot \<Rightarrow> slot result" where
  "Op_UDiv OpSize d a b =
     (if OpSize \<in> {1, 2, 4, 8} then
        (if uread OpSize b \<noteq> 0
         then Inr (GD d (word_of_int (uread OpSize a div uread OpSize b)))
         else Inl UndefinedDivision)
      else if OpSize = 16 then
        (if b \<noteq> 0 then Inr (put_bytes 16 d (a div b)) else Inl UndefinedDivision)
      else Inl (UnhandledSize OpSize))"

definition Op_Rem :: "nat \<Rightarrow> slot \<Rightarrow> slot \<Rightarrow> slot \<Rightarrow> slot result" where
  "Op_Rem OpSize d a b =
     (if OpSize \<in> {1, 2, 4, 8} then
        (if div_defined 64 (sread OpSize a) (sread OpSize b)
         then Inr (GD d (word_of_int (sread OpSize a smod sread OpSize b)))
         else Inl UndefinedDivision)
      else if OpSize = 16 then
        (if div_defined 128 (sint a) (sint b)
         then Inr (put_bytes 16 d (word_of_int (sint a smod sint b)))
         else Inl UndefinedDivision)
      else Inl (UnhandledSize OpSize))"

definition Op_URem :: "nat \<Rightarrow> slot \<Rightarrow> slot \<Rightarrow> slot \<Rightarrow> slot result" where
  "Op_URem OpSize d a b =
     (if OpSize \<in> {1, 2, 4, 8} then
        (if uread OpSize b \<noteq> 0
         then Inr (GD d (word_of_int (uread OpSize a mod uread OpSize b)))
         else Inl UndefinedDivision)
      else if OpSize = 16 then
        (if b \<noteq> 0 then Inr (put_bytes 16 d (a mod b)) else Inl UndefinedDivision)
      else Inl (UnhandledSize OpSize))"

definition Op_MulH :: "nat \<Rightarrow> slot \<Rightarrow> slot \<Rightarrow> slot \<Rightarrow> slot result" where
  "Op_MulH OpSize d a b =
     (if OpSize = 4 then
        Inr (GD d (signed_drop_bit 32 (word_of_int (sread 4 a * sread 4 b))))
      else if OpSize = 8 then
        Inr (GD d (ucast (signed_drop_bit 64 (word_of_int (sread 8 a * sread 8 b) :: u128))))
      else Inl (UnhandledSize OpSize))"

definition Op_UMulH :: "nat \<Rightarrow> slot \<Rightarrow> slot \<Rightarrow> slot \<Rightarrow> slot result" where
  "Op_UMulH OpSize d a b =
     (if OpSize = 4 then Inr (GD d (drop_bit 32 ((ucast a :: u64) * ucast b)))
      else if OpSize = 8 \<or> OpSize = 16 then
        Inr (GD d (ucast (drop_bit 64 ((ucast (ucast a :: u64) :: u128) * ucast (ucast b :: u64)))))
      else Inl (UnhandledSize OpSize))"

section \<open>Logic and shifts\<close>

definition Op_Or :: "nat \<Rightarrow> slot \<Rightarrow> slot \<Rightarrow> slot \<Rightarrow> slot result" where
  "Op_Or OpSize d a b =
     (if OpSize = 1 then Inr (do_op8 (OR) d a b)
      else if OpSize = 2 then Inr (do_op16 (OR) d a b)
      else if OpSize = 4 then Inr (do_op32 (OR) d a b)
      else if OpSize = 8 then Inr (do_op64 (OR) d a b)
      else if OpSize = 16 then Inr (do_op128 (OR) d a b)
      else Inl (UnhandledSize OpSize))"

definition Op_And :: "nat \<Rightarrow> slot \<Rightarrow> slot \<Rightarrow> slot \<Rightarrow> slot result" where
  "Op_And OpSize d a b =
     (if OpSize = 1 then Inr (do_op8 (AND) d a b)
      else if OpSize = 2 then Inr (do_op16 (AND) d a b)
      else if OpSize = 4 then Inr (do_op32 (AND) d a b)
      else if OpSize = 8 then Inr (do_op64 (AND) d a b)
      else Inl (UnhandledSize OpSize))"

definition Op_Andn :: "nat \<Rightarrow> slot \<Rightarrow> slot \<Rightarrow> slot \<Rightarrow> slot result" where
  "Op_Andn OpSize d a b =
     (if OpSize = 1 then Inr (do_op8 (\<lambda>x y. x AND NOT y) d a b)
      else if OpSize = 2 then Inr (do_op16 (\<lambda>x y. x AND NOT y) d a b)
      else if OpSize = 4 then Inr (do_op32 (\<lambda>x y. x AND NOT y) d a b)
      else if OpSize = 8 then Inr (do_op64 (\<lambda>x y. x AND NOT y) d a b)
      else Inl (UnhandledSize OpSize))"

definition Op_Xor :: "nat \<Rightarrow> slot \<Rightarrow> slot \<Rightarrow> slot \<Rightarrow> slot result" where
  "Op_Xor OpSize d a b =
     (if OpSize = 1 then Inr (do_op8 (XOR) d a b)
      else if OpSize = 2 then Inr (do_op16 (XOR) d a b)
      else if OpSize = 4 then Inr (do_op32 (XOR) d a b)
      else if OpSize = 8 then Inr (do_op64 (XOR) d a b)
      else Inl (UnhandledSize OpSize))"

text \<open>The shift amount, \<^verbatim>\<open>Src2 & Mask\<close> with \<^verbatim>\<open>Mask = OpSize * 8 - 1\<close>.\<close>

definition shift_amount :: "nat \<Rightarrow> slot \<Rightarrow> nat" where
  "shift_amount OpSize b = unat ((ucast b :: u64) AND word_of_nat (OpSize * 8 - 1))"

definition Op_Lshl :: "nat \<Rightarrow> slot \<Rightarrow> slot \<Rightarrow> slot \<Rightarrow> slot result" where
  "Op_Lshl OpSize d a b =
     (if OpSize = 4 then Inr (GD d (ucast (push_bit (shift_amount 4 b) (ucast a :: u32))))
      else if OpSize = 8 then Inr (GD d (push_bit (shift_amount 8 b) (ucast a)))
      else Inl (UnhandledSize OpSize))"

definition Op_Lshr :: "nat \<Rightarrow> slot \<Rightarrow> slot \<Rightarrow> slot \<Rightarrow> slot result" where
  "Op_Lshr OpSize d a b =
     (if OpSize = 4 then Inr (GD d (ucast (drop_bit (shift_amount 4 b) (ucast a :: u32))))
      else if OpSize = 8 then Inr (GD d (drop_bit (shift_amount 8 b) (ucast a)))
      else Inl (UnhandledSize OpSize))"

definition Op_Ashr :: "nat \<Rightarrow> slot \<Rightarrow> slot \<Rightarrow> slot \<Rightarrow> slot result" where
  "Op_Ashr OpSize d a b =
     (if OpSize = 4 then Inr (GD d (ucast (signed_drop_bit (shift_amount 4 b) (ucast a :: u32))))
      else if OpSize = 8 then Inr (GD d (signed_drop_bit (shift_amount 8 b) (ucast a)))
      else Inl (UnhandledSize OpSize))"

text \<open>The local lambda \<^verbatim>\<open>Ror\<close>, at an arbitrary width.\<close>

definition ror_lambda :: "'a::len word \<Rightarrow> 'a word \<Rightarrow> 'a word" where
  "ror_lambda In R0 =
     (let R = unat (R0 AND word_of_nat (LENGTH('a) - 1)) in
      drop_bit R In OR push_bit (LENGTH('a) - R) In)"

definition Op_Ror :: "nat \<Rightarrow> slot \<Rightarrow> slot \<Rightarrow> slot \<Rightarrow> slot result" where
  "Op_Ror OpSize d a b =
     (if OpSize = 4 then Inr (GD d (ucast (ror_lambda (ucast a :: u32) (ucast b))))
      else if OpSize = 8 then Inr (GD d (ror_lambda (ucast a) (ucast b)))
      else Inl (UnhandledSize OpSize))"

definition Op_Extr :: "nat \<Rightarrow> slot \<Rightarrow> slot \<Rightarrow> slot \<Rightarrow> nat \<Rightarrow> slot result" where
  "Op_Extr OpSize d Upper Lower LSB =
     (if OpSize = 4 then
        Inr (GD d (ucast (ucast (drop_bit LSB
          (push_bit 32 (ucast (ucast Upper :: u32)) OR (ucast (ucast Lower :: u32)) :: u128)) :: u32)))
      else if OpSize = 8 then
        Inr (GD d (ucast (drop_bit LSB
          (push_bit 64 (ucast (ucast Upper :: u64)) OR (ucast (ucast Lower :: u64)) :: u128))))
      else Inl (UnhandledSize OpSize))"


section \<open>Parallel bit deposit and extract\<close>

lemma clear_lowest_less:
  assumes "w \<noteq> (0 :: 'a::len word)"
  shows "unat (w AND (w - 1)) < unat w"
proof -
  have "unat (w AND (w - 1)) \<le> unat (w - 1)"
    using word_and_le1 [of w "w - 1"] by (simp add: word_le_nat_alt)
  also have "\<dots> < unat w" using assms by (rule measure_unat)
  finally show ?thesis .
qed

text \<open>
  The loop of \<^verbatim>\<open>PDep\<close>: each round consumes the lowest set bit of the mask
  (\<^verbatim>\<open>Mask &= Mask - 1\<close>) and moves input bit \<open>Index\<close> there. The mask decreases, so the loop ends.
\<close>

function pdep_loop :: "u64 \<Rightarrow> u64 \<Rightarrow> nat \<Rightarrow> u64 \<Rightarrow> u64" where
  "pdep_loop Input Mask Index Result =
     (if Mask > 0
      then pdep_loop Input (Mask AND (Mask - 1)) (Suc Index)
             (Result OR push_bit (countr_zero Mask) (drop_bit Index Input AND 1))
      else Result)"
  by pat_completeness auto
termination
  by (relation "measure (\<lambda>(_, Mask, _, _). unat Mask)")
     (auto simp: clear_lowest_less word_neq_0_conv)

function pext_loop :: "u64 \<Rightarrow> u64 \<Rightarrow> nat \<Rightarrow> u64 \<Rightarrow> u64" where
  "pext_loop Input Mask Offset Result =
     (if Mask > 0
      then pext_loop Input (Mask AND (Mask - 1)) (Suc Offset)
             (Result OR push_bit Offset (drop_bit (countr_zero Mask) Input AND 1))
      else Result)"
  by pat_completeness auto
termination
  by (relation "measure (\<lambda>(_, Mask, _, _). unat Mask)")
     (auto simp: clear_lowest_less word_neq_0_conv)

declare pdep_loop.simps [simp del] pext_loop.simps [simp del]

definition read32or64 :: "nat \<Rightarrow> slot \<Rightarrow> u64" where
  "read32or64 OpSize a = (if OpSize = 4 then ucast (ucast a :: u32) else ucast a)"

definition Op_PDep :: "nat \<Rightarrow> slot \<Rightarrow> slot \<Rightarrow> slot \<Rightarrow> slot result" where
  "Op_PDep OpSize d Input Mask =
     (if OpSize \<noteq> 4 \<and> OpSize \<noteq> 8 then Inl (UnhandledSize OpSize)
      else Inr (GD d (pdep_loop (read32or64 OpSize Input) (read32or64 OpSize Mask) 0 0)))"

definition Op_PExt :: "nat \<Rightarrow> slot \<Rightarrow> slot \<Rightarrow> slot \<Rightarrow> slot result" where
  "Op_PExt OpSize d Input Mask =
     (if OpSize \<noteq> 4 \<and> OpSize \<noteq> 8 then Inl (UnhandledSize OpSize)
      else Inr (GD d (pext_loop (read32or64 OpSize Input) (read32or64 OpSize Mask) 0 0)))"

section \<open>Long division\<close>

text \<open>
  \<^verbatim>\<open>LDiv\<close> and its relatives divide the double-width value \<^verbatim>\<open>Upper:Lower\<close>. The division is made
  at twice the operation size; only the low half of the quotient or remainder is stored, and for
  sizes 2 and 4 it is stored sign-extended by the signed forms.
\<close>

definition ldiv_source :: "nat \<Rightarrow> slot \<Rightarrow> slot \<Rightarrow> int" where
  "ldiv_source OpSize Upper Lower =
     signed_take_bit (16 * OpSize - 1) (uread OpSize Upper * 2 ^ (8 * OpSize) + uread OpSize Lower)"

definition ludiv_source :: "nat \<Rightarrow> slot \<Rightarrow> slot \<Rightarrow> int" where
  "ludiv_source OpSize Upper Lower = uread OpSize Upper * 2 ^ (8 * OpSize) + uread OpSize Lower"

definition ldiv_store :: "nat \<Rightarrow> slot \<Rightarrow> int \<Rightarrow> slot" where
  "ldiv_store OpSize d r =
     (if OpSize = 2 then GD d (scast (word_of_int r :: u16))
      else if OpSize = 4 then GD d (scast (word_of_int r :: u32))
      else put_bytes 8 d (word_of_int r))"

definition ludiv_store :: "nat \<Rightarrow> slot \<Rightarrow> int \<Rightarrow> slot" where
  "ludiv_store OpSize d r =
     (if OpSize = 2 then GD d (ucast (word_of_int r :: u16))
      else if OpSize = 4 then GD d (ucast (word_of_int r :: u32))
      else put_bytes 8 d (word_of_int r))"

definition Op_LDiv :: "nat \<Rightarrow> slot \<Rightarrow> slot \<Rightarrow> slot \<Rightarrow> slot \<Rightarrow> slot result" where
  "Op_LDiv OpSize d Lower Upper Divisor =
     (if OpSize \<in> {2, 4, 8} then
        (if div_defined (16 * OpSize) (ldiv_source OpSize Upper Lower) (sread OpSize Divisor)
         then Inr (ldiv_store OpSize d (ldiv_source OpSize Upper Lower sdiv sread OpSize Divisor))
         else Inl UndefinedDivision)
      else Inl (UnhandledSize OpSize))"

definition Op_LUDiv :: "nat \<Rightarrow> slot \<Rightarrow> slot \<Rightarrow> slot \<Rightarrow> slot \<Rightarrow> slot result" where
  "Op_LUDiv OpSize d Lower Upper Divisor =
     (if OpSize \<in> {2, 4, 8} then
        (if uread OpSize Divisor \<noteq> 0
         then Inr (ludiv_store OpSize d (ludiv_source OpSize Upper Lower div uread OpSize Divisor))
         else Inl UndefinedDivision)
      else Inl (UnhandledSize OpSize))"

definition Op_LRem :: "nat \<Rightarrow> slot \<Rightarrow> slot \<Rightarrow> slot \<Rightarrow> slot \<Rightarrow> slot result" where
  "Op_LRem OpSize d Lower Upper Divisor =
     (if OpSize \<in> {2, 4, 8} then
        (if div_defined (16 * OpSize) (ldiv_source OpSize Upper Lower) (sread OpSize Divisor)
         then Inr (ldiv_store OpSize d (ldiv_source OpSize Upper Lower smod sread OpSize Divisor))
         else Inl UndefinedDivision)
      else Inl (UnhandledSize OpSize))"

definition Op_LURem :: "nat \<Rightarrow> slot \<Rightarrow> slot \<Rightarrow> slot \<Rightarrow> slot \<Rightarrow> slot result" where
  "Op_LURem OpSize d Lower Upper Divisor =
     (if OpSize \<in> {2, 4, 8} then
        (if uread OpSize Divisor \<noteq> 0
         then Inr (ludiv_store OpSize d (ludiv_source OpSize Upper Lower mod uread OpSize Divisor))
         else Inl UndefinedDivision)
      else Inl (UnhandledSize OpSize))"

section \<open>Bit utilities\<close>

definition Op_Not :: "nat \<Rightarrow> slot \<Rightarrow> slot \<Rightarrow> slot result" where
  "Op_Not OpSize d a =
     (if OpSize < 9 then
        (let Mask = [0, 0xFF, 0xFFFF, 0, 0xFFFFFFFF, 0, 0, 0, 0xFFFFFFFFFFFFFFFF] ! OpSize in
         Inr (GD d (NOT (ucast a) AND Mask)))
      else Inl (UnhandledSize OpSize))"

definition Op_Popcount :: "slot \<Rightarrow> slot \<Rightarrow> slot result" where
  "Op_Popcount d a = Inr (GD d (word_of_nat (popcount (ucast a :: u64))))"

definition FindFirstSetBit :: "u64 \<Rightarrow> int" where
  "FindFirstSetBit value = (if value = 0 then 0 else int (countr_zero value) + 1)"

definition Op_FindLSB :: "slot \<Rightarrow> slot \<Rightarrow> slot result" where
  "Op_FindLSB d a = Inr (GD d (word_of_int (FindFirstSetBit (ucast a)) - 1))"

definition Op_FindMSB :: "nat \<Rightarrow> slot \<Rightarrow> slot \<Rightarrow> slot result" where
  "Op_FindMSB OpSize d a =
     (if OpSize = 1 then Inr (GD d (word_of_int (8 - int (countl_zero (ucast a :: u8)) - 1)))
      else if OpSize = 2 then Inr (GD d (word_of_int (16 - int (countl_zero (ucast a :: u16)) - 1)))
      else if OpSize = 4 then Inr (GD d (word_of_int (32 - int (countl_zero (ucast a :: u32)) - 1)))
      else if OpSize = 8 then Inr (GD d (word_of_int (64 - int (countl_zero (ucast a :: u64)) - 1)))
      else Inl (UnhandledSize OpSize))"

definition Op_FindTrailingZeros :: "nat \<Rightarrow> slot \<Rightarrow> slot \<Rightarrow> slot result" where
  "Op_FindTrailingZeros OpSize d a =
     (if OpSize = 1 then Inr (GD d (word_of_nat (countr_zero (ucast a :: u8))))
      else if OpSize = 2 then Inr (GD d (word_of_nat (countr_zero (ucast a :: u16))))
      else if OpSize = 4 then Inr (GD d (word_of_nat (countr_zero (ucast a :: u32))))
      else if OpSize = 8 then Inr (GD d (word_of_nat (countr_zero (ucast a :: u64))))
      else Inl (UnhandledSize OpSize))"

definition Op_CountLeadingZeroes :: "nat \<Rightarrow> slot \<Rightarrow> slot \<Rightarrow> slot result" where
  "Op_CountLeadingZeroes OpSize d a =
     (if OpSize = 1 then Inr (GD d (word_of_nat (countl_zero (ucast a :: u8))))
      else if OpSize = 2 then Inr (GD d (word_of_nat (countl_zero (ucast a :: u16))))
      else if OpSize = 4 then Inr (GD d (word_of_nat (countl_zero (ucast a :: u32))))
      else if OpSize = 8 then Inr (GD d (word_of_nat (countl_zero (ucast a :: u64))))
      else Inl (UnhandledSize OpSize))"

definition BSwap16 :: "u16 \<Rightarrow> u16" where
  "BSwap16 v = drop_bit 8 v OR push_bit 8 v"

definition BSwap32 :: "u32 \<Rightarrow> u32" where
  "BSwap32 v =
     drop_bit 24 (v AND 0xFF000000) OR drop_bit 8 (v AND 0x00FF0000) OR
     push_bit 8 (v AND 0x0000FF00) OR push_bit 24 (v AND 0x000000FF)"

definition BSwap64 :: "u64 \<Rightarrow> u64" where
  "BSwap64 v =
     drop_bit 56 (v AND 0xFF00000000000000) OR drop_bit 40 (v AND 0x00FF000000000000) OR
     drop_bit 24 (v AND 0x0000FF0000000000) OR drop_bit 8 (v AND 0x000000FF00000000) OR
     push_bit 8 (v AND 0x00000000FF000000) OR push_bit 24 (v AND 0x0000000000FF0000) OR
     push_bit 40 (v AND 0x000000000000FF00) OR push_bit 56 (v AND 0x00000000000000FF)"

definition Op_Rev :: "nat \<Rightarrow> slot \<Rightarrow> slot \<Rightarrow> slot result" where
  "Op_Rev OpSize d a =
     (if OpSize = 2 then Inr (GD d (ucast (BSwap16 (ucast a))))
      else if OpSize = 4 then Inr (GD d (ucast (BSwap32 (ucast a))))
      else if OpSize = 8 then Inr (GD d (BSwap64 (ucast a)))
      else Inl (UnhandledSize OpSize))"

section \<open>Bit fields\<close>

definition source_mask :: "nat \<Rightarrow> u64" where
  "source_mask Width = (if Width = 64 then NOT 0 else push_bit Width 1 - 1)"

definition Op_Bfi :: "slot \<Rightarrow> nat \<Rightarrow> nat \<Rightarrow> slot \<Rightarrow> slot \<Rightarrow> slot result" where
  "Op_Bfi d Width lsb Dest Src =
     (let SourceMask = source_mask Width;
          DestMask = NOT (push_bit lsb SourceMask)
      in Inr (GD d ((ucast Dest AND DestMask) OR push_bit lsb (ucast Src AND SourceMask))))"

definition Op_Bfe :: "nat \<Rightarrow> slot \<Rightarrow> nat \<Rightarrow> nat \<Rightarrow> slot \<Rightarrow> slot result" where
  "Op_Bfe OpSize d Width lsb Src =
     (if OpSize \<le> 8
      then Inr (GD d (drop_bit lsb (ucast Src AND push_bit lsb (source_mask Width))))
      else Inl (UnhandledSize OpSize))"

definition Op_Sbfe :: "nat \<Rightarrow> slot \<Rightarrow> nat \<Rightarrow> nat \<Rightarrow> slot \<Rightarrow> slot result" where
  "Op_Sbfe OpSize d Width lsb Src =
     (if OpSize \<le> 8 then
        (let ShiftLeftAmount = 64 - (Width + lsb);
             ShiftRightAmount = ShiftLeftAmount + lsb
         in Inr (GD d (signed_drop_bit ShiftRightAmount (push_bit ShiftLeftAmount (ucast Src)))))
      else Inl (UnhandledSize OpSize))"


section \<open>Conditions\<close>

datatype CondClass =
    COND_EQ | COND_NEQ | COND_UGE | COND_ULT | COND_MI | COND_PL | COND_VS | COND_VC
  | COND_UGT | COND_ULE | COND_SGE | COND_SLT | COND_SGT | COND_SLE
  | COND_FLU | COND_FGE | COND_FLEU | COND_FGT | COND_FU | COND_FNU

text \<open>
  IEEE 754 comparisons on bit patterns: a NaN has a full exponent and a non-zero fraction, and
  two numbers compare as their sign-magnitude readings, so that both zeros are equal.
\<close>

definition f32_isnan :: "u32 \<Rightarrow> bool" where
  "f32_isnan x \<longleftrightarrow> x AND 0x7F800000 = 0x7F800000 \<and> x AND 0x007FFFFF \<noteq> 0"

definition f64_isnan :: "u64 \<Rightarrow> bool" where
  "f64_isnan x \<longleftrightarrow> x AND 0x7FF0000000000000 = 0x7FF0000000000000 \<and> x AND 0x000FFFFFFFFFFFFF \<noteq> 0"

definition f32_key :: "u32 \<Rightarrow> int" where
  "f32_key x = (let m = uint (x AND 0x7FFFFFFF) in if bit x 31 then - m else m)"

definition f64_key :: "u64 \<Rightarrow> int" where
  "f64_key x = (let m = uint (x AND 0x7FFFFFFFFFFFFFFF) in if bit x 63 then - m else m)"

definition f32_unordered :: "u32 \<Rightarrow> u32 \<Rightarrow> bool" where
  "f32_unordered a b \<longleftrightarrow> f32_isnan a \<or> f32_isnan b"

definition f64_unordered :: "u64 \<Rightarrow> u64 \<Rightarrow> bool" where
  "f64_unordered a b \<longleftrightarrow> f64_isnan a \<or> f64_isnan b"

definition f32_lt :: "u32 \<Rightarrow> u32 \<Rightarrow> bool" where
  "f32_lt a b \<longleftrightarrow> \<not> f32_unordered a b \<and> f32_key a < f32_key b"

definition f64_lt :: "u64 \<Rightarrow> u64 \<Rightarrow> bool" where
  "f64_lt a b \<longleftrightarrow> \<not> f64_unordered a b \<and> f64_key a < f64_key b"

definition f32_eq :: "u32 \<Rightarrow> u32 \<Rightarrow> bool" where
  "f32_eq a b \<longleftrightarrow> \<not> f32_unordered a b \<and> f32_key a = f32_key b"

definition f64_eq :: "u64 \<Rightarrow> u64 \<Rightarrow> bool" where
  "f64_eq a b \<longleftrightarrow> \<not> f64_unordered a b \<and> f64_key a = f64_key b"

text \<open>\<^verbatim>\<open>IsConditionTrue<uint32_t, int32_t, float>\<close>.\<close>

fun IsConditionTrue32 :: "CondClass \<Rightarrow> u64 \<Rightarrow> u64 \<Rightarrow> bool result" where
  "IsConditionTrue32 COND_EQ a b = Inr ((ucast a :: u32) = ucast b)"
| "IsConditionTrue32 COND_NEQ a b = Inr ((ucast a :: u32) \<noteq> ucast b)"
| "IsConditionTrue32 COND_SGE a b = Inr (sint (ucast a :: u32) \<ge> sint (ucast b :: u32))"
| "IsConditionTrue32 COND_SLT a b = Inr (sint (ucast a :: u32) < sint (ucast b :: u32))"
| "IsConditionTrue32 COND_SGT a b = Inr (sint (ucast a :: u32) > sint (ucast b :: u32))"
| "IsConditionTrue32 COND_SLE a b = Inr (sint (ucast a :: u32) \<le> sint (ucast b :: u32))"
| "IsConditionTrue32 COND_UGE a b = Inr ((ucast a :: u32) \<ge> ucast b)"
| "IsConditionTrue32 COND_ULT a b = Inr ((ucast a :: u32) < ucast b)"
| "IsConditionTrue32 COND_UGT a b = Inr ((ucast a :: u32) > ucast b)"
| "IsConditionTrue32 COND_ULE a b = Inr ((ucast a :: u32) \<le> ucast b)"
| "IsConditionTrue32 COND_FLU a b =
     Inr (f32_lt (ucast a) (ucast b) \<or> f32_unordered (ucast a) (ucast b))"
| "IsConditionTrue32 COND_FGE a b =
     Inr ((f32_lt (ucast b) (ucast a) \<or> f32_eq (ucast a) (ucast b))
          \<and> \<not> f32_unordered (ucast a) (ucast b))"
| "IsConditionTrue32 COND_FLEU a b =
     Inr ((f32_lt (ucast a) (ucast b) \<or> f32_eq (ucast a) (ucast b))
          \<or> f32_unordered (ucast a) (ucast b))"
| "IsConditionTrue32 COND_FGT a b =
     Inr (f32_lt (ucast b) (ucast a) \<and> \<not> f32_unordered (ucast a) (ucast b))"
| "IsConditionTrue32 COND_FU a b = Inr (f32_unordered (ucast a) (ucast b))"
| "IsConditionTrue32 COND_FNU a b = Inr (\<not> f32_unordered (ucast a) (ucast b))"
| "IsConditionTrue32 _ a b = Inl UnsupportedCompare"

text \<open>\<^verbatim>\<open>IsConditionTrue<uint64_t, int64_t, double>\<close>.\<close>

fun IsConditionTrue64 :: "CondClass \<Rightarrow> u64 \<Rightarrow> u64 \<Rightarrow> bool result" where
  "IsConditionTrue64 COND_EQ a b = Inr (a = b)"
| "IsConditionTrue64 COND_NEQ a b = Inr (a \<noteq> b)"
| "IsConditionTrue64 COND_SGE a b = Inr (sint a \<ge> sint b)"
| "IsConditionTrue64 COND_SLT a b = Inr (sint a < sint b)"
| "IsConditionTrue64 COND_SGT a b = Inr (sint a > sint b)"
| "IsConditionTrue64 COND_SLE a b = Inr (sint a \<le> sint b)"
| "IsConditionTrue64 COND_UGE a b = Inr (a \<ge> b)"
| "IsConditionTrue64 COND_ULT a b = Inr (a < b)"
| "IsConditionTrue64 COND_UGT a b = Inr (a > b)"
| "IsConditionTrue64 COND_ULE a b = Inr (a \<le> b)"
| "IsConditionTrue64 COND_FLU a b = Inr (f64_lt a b \<or> f64_unordered a b)"
| "IsConditionTrue64 COND_FGE a b = Inr ((f64_lt b a \<or> f64_eq a b) \<and> \<not> f64_unordered a b)"
| "IsConditionTrue64 COND_FLEU a b = Inr ((f64_lt a b \<or> f64_eq a b) \<or> f64_unordered a b)"
| "IsConditionTrue64 COND_FGT a b = Inr (f64_lt b a \<and> \<not> f64_unordered a b)"
| "IsConditionTrue64 COND_FU a b = Inr (f64_unordered a b)"
| "IsConditionTrue64 COND_FNU a b = Inr (\<not> f64_unordered a b)"
| "IsConditionTrue64 _ a b = Inl UnsupportedCompare"

definition IsConditionTrue :: "nat \<Rightarrow> CondClass \<Rightarrow> u64 \<Rightarrow> u64 \<Rightarrow> bool result" where
  "IsConditionTrue CompareSize Cond a b =
     (if CompareSize = 4 then IsConditionTrue32 Cond a b else IsConditionTrue64 Cond a b)"

definition Op_Select ::
  "nat \<Rightarrow> slot \<Rightarrow> nat \<Rightarrow> CondClass \<Rightarrow> slot \<Rightarrow> slot \<Rightarrow> slot \<Rightarrow> slot \<Rightarrow> slot result" where
  "Op_Select OpSize d CompareSize Cond Cmp1 Cmp2 TrueVal FalseVal =
     (let ArgTrue = (if OpSize = 4 then ucast (ucast TrueVal :: u32) else ucast TrueVal);
          ArgFalse = (if OpSize = 4 then ucast (ucast FalseVal :: u32) else ucast FalseVal)
      in case IsConditionTrue CompareSize Cond (ucast Cmp1) (ucast Cmp2) of
           Inl e \<Rightarrow> Inl e
         | Inr CompResult \<Rightarrow> Inr (GD d (if CompResult then ArgTrue else ArgFalse)))"

definition Op_VExtractToGPR :: "nat \<Rightarrow> nat \<Rightarrow> nat \<Rightarrow> slot \<Rightarrow> nat \<Rightarrow> slot \<Rightarrow> slot result" where
  "Op_VExtractToGPR OpSize ElementSize SourceSize d Index Vector =
     (if OpSize \<le> 16 then
        (let SourceMask = (if ElementSize = 8 then NOT 0 else push_bit (ElementSize * 8) 1 - 1 :: u64);
             Shift = ElementSize * Index * 8
         in if SourceSize = 16
            then Inr (put_bytes ElementSize d (drop_bit Shift Vector AND ucast SourceMask))
            else Inr (GD d (drop_bit Shift (ucast Vector) AND SourceMask)))
      else Inl (UnhandledSize OpSize))"

text \<open>\<^verbatim>\<open>FCMP_FLAG_EQ\<close>, \<^verbatim>\<open>FCMP_FLAG_LT\<close>, \<^verbatim>\<open>FCMP_FLAG_UNORDERED\<close> are bits 0, 1 and 2.\<close>

definition FCMP_FLAG_EQ :: nat where "FCMP_FLAG_EQ = 0"
definition FCMP_FLAG_LT :: nat where "FCMP_FLAG_LT = 1"
definition FCMP_FLAG_UNORDERED :: nat where "FCMP_FLAG_UNORDERED = 2"

definition fcmp_result :: "u32 \<Rightarrow> bool \<Rightarrow> bool \<Rightarrow> bool \<Rightarrow> u32" where
  "fcmp_result Flags Unordered Less Equal =
     (if bit Flags FCMP_FLAG_LT \<and> (Unordered \<or> Less) then push_bit FCMP_FLAG_LT 1 else 0) OR
     (if bit Flags FCMP_FLAG_UNORDERED \<and> Unordered then push_bit FCMP_FLAG_UNORDERED 1 else 0) OR
     (if bit Flags FCMP_FLAG_EQ \<and> (Unordered \<or> Equal) then push_bit FCMP_FLAG_EQ 1 else 0)"

definition Op_FCmp :: "slot \<Rightarrow> nat \<Rightarrow> u32 \<Rightarrow> slot \<Rightarrow> slot \<Rightarrow> slot result" where
  "Op_FCmp d ElementSize Flags Scalar1 Scalar2 =
     Inr (GD d (ucast
       (if ElementSize = 4
        then fcmp_result Flags (f32_unordered (ucast Scalar1) (ucast Scalar2))
               (f32_lt (ucast Scalar1) (ucast Scalar2)) (f32_eq (ucast Scalar1) (ucast Scalar2))
        else fcmp_result Flags (f64_unordered (ucast Scalar1) (ucast Scalar2))
               (f64_lt (ucast Scalar1) (ucast Scalar2)) (f64_eq (ucast Scalar1) (ucast Scalar2)))))"

text \<open>\<^verbatim>\<open>FlagOps.cpp\<close> and \<^verbatim>\<open>MoveOps.cpp\<close>.\<close>

definition Op_GetHostFlag :: "slot \<Rightarrow> slot \<Rightarrow> nat \<Rightarrow> slot result" where
  "Op_GetHostFlag d Value Flag = Inr (GD d (drop_bit Flag (ucast Value) AND 1))"

definition Op_ExtractElementPair :: "nat \<Rightarrow> slot \<Rightarrow> slot \<Rightarrow> nat \<Rightarrow> slot result" where
  "Op_ExtractElementPair OpSize d Src Element =
     Inr (put_bytes OpSize d (drop_bit (8 * (OpSize * Element)) Src))"

definition Op_CreateElementPair :: "nat \<Rightarrow> slot \<Rightarrow> slot \<Rightarrow> slot \<Rightarrow> slot result" where
  "Op_CreateElementPair ElementSize d Lower Upper =
     (let d1 = put_bytes ElementSize d Lower in
      Inr (put_bytes (2 * ElementSize) d
        (put_bytes ElementSize (push_bit (8 * ElementSize) Upper) d1)))"

definition Op_Mov :: "nat \<Rightarrow> slot \<Rightarrow> slot \<Rightarrow> slot result" where
  "Op_Mov OpSize d Value = Inr (put_bytes OpSize d Value)"

end
