(* ===== verification/Interp_ALU_Props.thy ===== *)
theory Interp_ALU_Props
  imports Interp_ALU
begin

text \<open>
  Correctness of the integer handlers against bit-level and arithmetic specifications: parallel
  deposit and extract, byte reversal, bit fields, rotation, long division.
\<close>

section \<open>Parallel bit deposit and extract\<close>

text \<open>Clearing the lowest set bit, as the loops do in every round.\<close>

lemma bit_and_minus_one:
  fixes w :: "'a::len word"
  assumes "w \<noteq> 0"
  shows "bit (w AND (w - 1)) i \<longleftrightarrow> bit w i \<and> i \<noteq> countr_zero w"
proof -
  define c where "c = countr_zero w"
  have c: "c < LENGTH('a)" "bit w c" and low: "\<And>j. j < c \<Longrightarrow> \<not> bit w j"
    using countr_zero_bit [OF assms] countr_zero_below by (auto simp: c_def)
  define h where "h = (w AND NOT (mask (Suc c)))"
  have w: "w = h OR push_bit c 1"
    using c low by (intro bit_word_eqI) (auto simp: h_def bit_simps not_less_eq nat_neq_iff)
  have disj1: "h AND push_bit c 1 = 0"
    by (intro bit_word_eqI) (auto simp: h_def bit_simps)
  have disj2: "h AND mask c = 0"
    by (intro bit_word_eqI) (auto simp: h_def bit_simps)
  have "w = h + push_bit c 1" using w disj1 by (metis disjunctive_add_eq_or)
  then have "w - 1 = h + (push_bit c 1 - 1)" by simp
  also have "push_bit c 1 - 1 = (mask c :: 'a word)" by (simp add: mask_eq_exp_minus_1 push_bit_of_1)
  also have "h + mask c = h OR mask c" using disj2 by (rule disjunctive_add_eq_or)
  finally show ?thesis
    using low c
    by (auto simp: c_def [symmetric] h_def bit_simps not_less_eq nat_neq_iff dest: bit_imp_le_length)
qed

lemma bits_below_clear_lowest:
  fixes w :: "'a::len word"
  assumes "w \<noteq> 0"
  shows "bits_below w i = bits_below (w AND (w - 1)) i + (if countr_zero w < i then 1 else 0)"
  using countr_zero_bit(2) [OF assms]
  by (induction i)
     (auto simp del: bit_and_iff simp: bit_and_minus_one [OF assms] less_Suc_eq)

lemma bits_below_countr_zero: "bits_below w (countr_zero w) = 0"
  by (auto simp: bits_below_def filter_empty_conv dest: countr_zero_below)

lemma bit_countr_zero_le: "bit w i \<Longrightarrow> countr_zero w \<le> i"
  using countr_zero_below [of i w] by fastforce

lemma pdep_loop_bit:
  "bit (pdep_loop x m k r) i \<longleftrightarrow> bit r i \<or> (bit m i \<and> bit x (k + bits_below m i))"
proof (induction x m k r rule: pdep_loop.induct)
  case (1 x m k r)
  show ?case
  proof (cases "m = 0")
    case True
    then show ?thesis by (simp add: pdep_loop.simps)
  next
    case False
    note z = countr_zero_bit [OF False]
    have "bit (pdep_loop x m k r) i \<longleftrightarrow>
        bit (r OR push_bit (countr_zero m) (drop_bit k x AND 1)) i
        \<or> (bit m i \<and> i \<noteq> countr_zero m \<and> bit x (Suc k + bits_below (m AND (m - 1)) i))"
      using 1 False
      by (subst pdep_loop.simps) (simp add: word_neq_0_conv bit_and_minus_one del: bit_and_iff)
    also have "\<dots> \<longleftrightarrow> bit r i \<or> (bit m i \<and> bit x (k + bits_below m i))"
      using z bits_below_clear_lowest [OF False, of i] bits_below_countr_zero [of m]
        bit_countr_zero_le [of m i]
      by (auto simp: bit_simps bit_1_iff)
    finally show ?thesis .
  qed
qed

lemma pext_loop_bit:
  "bit (pext_loop x m k r) j
     \<longleftrightarrow> bit r j \<or> (j < 64 \<and> (\<exists>i. bit m i \<and> j = k + bits_below m i \<and> bit x i))"
proof (induction x m k r rule: pext_loop.induct)
  case (1 x m k r)
  show ?case
  proof (cases "m = 0")
    case True
    then show ?thesis by (simp add: pext_loop.simps)
  next
    case False
    note z = countr_zero_bit [OF False]
    have "bit (pext_loop x m k r) j \<longleftrightarrow>
        bit (r OR push_bit k (drop_bit (countr_zero m) x AND 1)) j
        \<or> (j < 64 \<and> (\<exists>i. (bit m i \<and> i \<noteq> countr_zero m)
              \<and> j = Suc k + bits_below (m AND (m - 1)) i \<and> bit x i))"
      using 1 False
      by (subst pext_loop.simps) (simp add: word_neq_0_conv bit_and_minus_one del: bit_and_iff)
    also have "bit (r OR push_bit k (drop_bit (countr_zero m) x AND 1)) j
        \<longleftrightarrow> bit r j \<or> (j < 64 \<and> j = k \<and> bit x (countr_zero m))"
      by (auto simp: bit_simps bit_1_iff)
    also have "(\<exists>i. (bit m i \<and> i \<noteq> countr_zero m)
              \<and> j = Suc k + bits_below (m AND (m - 1)) i \<and> bit x i)
        \<longleftrightarrow> (\<exists>i. bit m i \<and> i \<noteq> countr_zero m \<and> j = k + bits_below m i \<and> bit x i)"
    proof -
      have "Suc k + bits_below (m AND (m - 1)) i = k + bits_below m i"
        if "bit m i" "i \<noteq> countr_zero m" for i
        using bits_below_clear_lowest [OF False, of i] bit_countr_zero_le [OF that(1)] that by simp
      then show ?thesis by auto
    qed
    finally show ?thesis
      using z bits_below_countr_zero [of m] by (auto intro: exI [of _ "countr_zero m"])
  qed
qed

text \<open>\<^const>\<open>bits_below\<close> numbers the set bits of a mask from zero on without gaps.\<close>

lemma bits_below_mono: "i \<le> j \<Longrightarrow> bits_below w i \<le> bits_below w j"
  by (induction j) (auto simp: le_Suc_eq)

lemma bits_below_le: "bits_below w i \<le> i"
  by (induction i) auto

lemma bits_below_inj:
  assumes "bit w i" "bit w j" "bits_below w i = bits_below w j"
  shows "i = j"
proof -
  have less: False if "a < b" "bit w a" "bits_below w a = bits_below w b" for a b
    using bits_below_mono [of "Suc a" b w] that by simp
  then show ?thesis using assms by (metis linorder_neqE_nat)
qed

lemma bits_below_surj: "k < bits_below w n \<Longrightarrow> \<exists>i < n. bit w i \<and> bits_below w i = k"
  by (induction n) (auto simp: less_Suc_eq split: if_splits)

lemma bits_below_less_popcount:
  fixes w :: "'a::len word"
  assumes "bit w i"
  shows "bits_below w i < popcount w"
  using assms bits_below_mono [of "Suc i" "LENGTH('a)" w] bit_imp_le_length [OF assms]
  by (simp add: popcount_bits_below)

lemma popcount_le: "popcount (w :: 'a::len word) \<le> LENGTH('a)"
  by (simp add: popcount_bits_below bits_below_le)

lemma pext_pdep: "pext_loop (pdep_loop x m 0 0) m 0 0 = x AND mask (popcount m)"
proof (rule bit_word_eqI)
  fix k assume "k < LENGTH(64)"
  moreover have "(\<exists>i. bit m i \<and> k = bits_below m i \<and> bit x (bits_below m i))
      \<longleftrightarrow> k < popcount m \<and> bit x k"
    using bits_below_less_popcount [of m] bits_below_surj [of k m 64]
    by (auto simp: popcount_bits_below)
  ultimately show "bit (pext_loop (pdep_loop x m 0 0) m 0 0) k \<longleftrightarrow> bit (x AND mask (popcount m)) k"
    by (auto simp: pext_loop_bit pdep_loop_bit bit_simps)
qed

lemma pdep_pext: "pdep_loop (pext_loop x m 0 0) m 0 0 = x AND m"
proof (rule bit_word_eqI)
  fix i assume "i < LENGTH(64)"
  moreover from this have "bits_below m i < 64" using bits_below_le [of m i] by simp
  ultimately show "bit (pdep_loop (pext_loop x m 0 0) m 0 0) i \<longleftrightarrow> bit (x AND m) i"
    by (auto simp: pext_loop_bit pdep_loop_bit bit_simps dest: bits_below_inj)
qed

lemma bits_below_cong: "(\<And>j. j < i \<Longrightarrow> bit v j = bit w j) \<Longrightarrow> bits_below v i = bits_below w i"
  by (induction i) auto

lemma bit_read32or64 [bit_simps]:
  "bit (read32or64 OpSize a) i \<longleftrightarrow> i < (if OpSize = 4 then 32 else 64) \<and> bit a i"
  by (auto simp: read32or64_def bit_simps)

lemma bit_GD [bit_simps]: "bit (GD d v) i \<longleftrightarrow> (if i < 64 then bit v i else bit d i)"
  by (simp add: GD_def bit_simps)

lemma read_GD [slot_simps]: "(ucast (GD d v) :: u64) = v"
  by (rule bit_word_eqI) (simp add: bit_simps)

lemma pdep_loop_32:
  assumes "m = read32or64 4 a"
  shows "read32or64 4 (GD d (pdep_loop x m 0 0)) = pdep_loop x m 0 0"
  by (rule bit_word_eqI) (auto simp: assms bit_simps pdep_loop_bit)

lemma pext_loop_32:
  assumes "m = read32or64 4 a"
  shows "read32or64 4 (GD d (pext_loop x m 0 0)) = pext_loop x m 0 0"
  by (rule bit_word_eqI)
     (auto simp: assms bit_simps pext_loop_bit intro: le_less_trans [OF bits_below_le])

lemma read32or64_8: "read32or64 8 a = ucast a"
  by (simp add: read32or64_def)

text \<open>
  The 32-bit and 64-bit deposit handlers succeed; bit \<open>i\<close> of the result is set iff the mask
  has bit \<open>i\<close> and the source bit whose index is the number of mask bits below \<open>i\<close> is set; the
  upper half of the destination cell is kept.
\<close>

lemma Op_PDep_spec:
  assumes "OpSize = 4 \<or> OpSize = 8"
  shows "\<exists>r. Op_PDep OpSize d x m = Inr r
    \<and> (\<forall>i. bit r i \<longleftrightarrow> (if i < 64 then i < 8 * OpSize \<and> bit m i \<and> bit x (bits_below m i)
                      else bit d i))"
proof -
  have "bits_below (read32or64 OpSize m) i = bits_below m i" if "i < 8 * OpSize" for i
    using assms that by (intro bits_below_cong) (auto simp: bit_simps)
  moreover have "bits_below m i < 8 * OpSize" if "i < 8 * OpSize" for i
    using that bits_below_le [of m i] by simp
  ultimately show ?thesis
    using assms by (auto simp: Op_PDep_def bit_simps pdep_loop_bit)
qed

text \<open>
  The 32-bit and 64-bit extract handlers succeed; bit \<open>k\<close> of the result is the source bit at
  the \<open>k\<close>-th set bit of the mask, and is clear when the mask has no such bit.
\<close>

lemma Op_PExt_spec:
  assumes "OpSize = 4 \<or> OpSize = 8"
  shows "\<exists>r. Op_PExt OpSize d x m = Inr r
    \<and> (\<forall>k. bit r k \<longleftrightarrow> (if k < 64 then \<exists>i < 8 * OpSize. bit m i \<and> bits_below m i = k \<and> bit x i
                      else bit d k))"
proof -
  have "bits_below (read32or64 OpSize m) i = bits_below m i" if "i < 8 * OpSize" for i
    using assms that by (intro bits_below_cong) (auto simp: bit_simps)
  then show ?thesis
    using assms by (auto simp: Op_PExt_def bit_simps pext_loop_bit)
qed

text \<open>
  the 32-bit and 64-bit deposit and extract handlers succeed. Bit \<open>i\<close> of a deposit is set iff the
  mask has bit \<open>i\<close> and the source bit whose index is the number of mask bits below \<open>i\<close> is set; bit
  \<open>k\<close> of an extract is the source bit at the \<open>k\<close>-th set bit of the mask, and is clear when the mask
  has no such bit. The upper half of the destination cell is kept.
\<close>

theorem PDep_PExt_spec:
  assumes "OpSize = 4 \<or> OpSize = 8"
  shows "\<exists>r q. Op_PDep OpSize d x m = Inr r \<and> Op_PExt OpSize d x m = Inr q
    \<and> (\<forall>i. bit r i \<longleftrightarrow> (if i < 64 then i < 8 * OpSize \<and> bit m i \<and> bit x (bits_below m i) else bit d i))
    \<and> (\<forall>k. bit q k \<longleftrightarrow> (if k < 64 then \<exists>i < 8 * OpSize. bit m i \<and> bits_below m i = k \<and> bit x i
                      else bit d k))"
  using Op_PDep_spec [OF assms] Op_PExt_spec [OF assms] by blast

theorem PDep_PExt_spec_witness:
  "\<exists>r. Op_PDep 8 0 5 0xF0 = Inr r \<and> bit r 4 \<and> \<not> bit r 5 \<and> bit r 6 \<and> \<not> bit r 7"
  using PDep_PExt_spec [of 8 0 5 "0xF0"]
  by (auto simp: bits_below_def upt_rec bit_numeral_rec)

text \<open>
  extracting what was deposited under the same mask gives back the low source bits, as many as
  the mask has, and depositing what was extracted gives back the masked source.
\<close>

theorem PDep_PExt_round_trip:
  assumes "Op_PDep OpSize d x m = Inr r" and "Op_PExt OpSize e y m = Inr q"
  shows "Op_PExt OpSize e r m =
        Inr (GD e (read32or64 OpSize x AND mask (popcount (read32or64 OpSize m))))
    \<and> Op_PDep OpSize d q m = Inr (GD d (read32or64 OpSize y AND read32or64 OpSize m))"
proof -
  define M where "M = read32or64 OpSize m"
  have sz: "OpSize = 4 \<or> OpSize = 8"
    using assms(1) by (auto simp: Op_PDep_def split: if_splits)
  have "read32or64 OpSize (GD f (pdep_loop z M 0 0)) = pdep_loop z M 0 0"
    and "read32or64 OpSize (GD f (pext_loop z M 0 0)) = pext_loop z M 0 0" for f z
    using sz pdep_loop_32 pext_loop_32 by (auto simp: read32or64_8 slot_simps M_def)
  then show ?thesis
    using sz assms pext_pdep pdep_pext
    by (auto simp: Op_PDep_def Op_PExt_def M_def split: if_splits)
qed

theorem PDep_PExt_round_trip_witness:
  "Op_PExt 8 0 (GD 0 0x50) 0xF0 = Inr (GD 0 (0x5 AND mask (popcount (0xF0 :: u64))))
   \<and> Op_PDep 8 0 (GD 0 0x5) 0xF0 = Inr (GD 0 (0x51 AND 0xF0))"
proof -
  have "Op_PDep 8 0 0x5 0xF0 = Inr (GD 0 0x50)" "Op_PExt 8 0 0x51 0xF0 = Inr (GD 0 0x5)"
    by code_simp+
  from PDep_PExt_round_trip [OF this] show ?thesis by (simp add: read32or64_8)
qed

section \<open>Byte reversal\<close>

definition rev_index :: "nat \<Rightarrow> nat \<Rightarrow> nat" where
  "rev_index n i = 8 * (n - 1 - i div 8) + i mod 8"

lemma BSwap16_bit: "i < 16 \<Longrightarrow> bit (BSwap16 v) i \<longleftrightarrow> bit v (rev_index 2 i)"
proof -
  have "list_all (\<lambda>i. bit (BSwap16 v) i \<longleftrightarrow> bit v (rev_index 2 i)) [0..<16]"
    by (simp add: upt_rec BSwap16_def rev_index_def bit_simps)
       (auto simp: numeral_eq_Suc dest: bit_imp_le_length)
  then show "i < 16 \<Longrightarrow> bit (BSwap16 v) i \<longleftrightarrow> bit v (rev_index 2 i)"
    by (auto simp: list_all_iff)
qed

lemma BSwap32_bit: "i < 32 \<Longrightarrow> bit (BSwap32 v) i \<longleftrightarrow> bit v (rev_index 4 i)"
proof -
  have "list_all (\<lambda>i. bit (BSwap32 v) i \<longleftrightarrow> bit v (rev_index 4 i)) [0..<32]"
    by (simp add: upt_rec BSwap32_def rev_index_def bit_simps) (simp add: numeral_eq_Suc)
  then show "i < 32 \<Longrightarrow> bit (BSwap32 v) i \<longleftrightarrow> bit v (rev_index 4 i)"
    by (auto simp: list_all_iff)
qed

lemma BSwap64_bit: "i < 64 \<Longrightarrow> bit (BSwap64 v) i \<longleftrightarrow> bit v (rev_index 8 i)"
proof -
  have "list_all (\<lambda>i. bit (BSwap64 v) i \<longleftrightarrow> bit v (rev_index 8 i)) [0..<64]"
    by (simp add: upt_rec BSwap64_def rev_index_def bit_simps) (simp add: numeral_eq_Suc)
  then show "i < 64 \<Longrightarrow> bit (BSwap64 v) i \<longleftrightarrow> bit v (rev_index 8 i)"
    by (auto simp: list_all_iff)
qed

lemma ror_lambda_rotr:
  assumes "LENGTH('a::len) = 2 ^ k"
  shows "ror_lambda (x :: 'a word) r = word_rotr (unat r) x"
proof -
  have len: "(word_of_nat (LENGTH('a) - 1) :: 'a word) = mask k"
    unfolding assms by (simp add: mask_eq_exp_minus_1 of_nat_diff)
  have R: "unat (r AND word_of_nat (LENGTH('a) - 1)) = unat r mod LENGTH('a)"
    by (simp only: len take_bit_eq_mask [symmetric] unsigned_take_bit_eq) (simp add: assms take_bit_eq_mod)
  have "bit (ror_lambda x r) i \<longleftrightarrow> bit (word_rotr (unat r) x) i" if i: "i < LENGTH('a)" for i
  proof -
    define n where "n = unat r mod LENGTH('a)"
    have n: "n < LENGTH('a)" by (simp add: n_def)
    have "(i + unat r) mod LENGTH('a) = (i + n) mod LENGTH('a)" by (simp add: n_def mod_add_right_eq)
    also have "\<dots> = (if i + n < LENGTH('a) then i + n else i + n - LENGTH('a))"
      using i n by (auto simp: mod_if)
    finally show ?thesis
      using i n bit_imp_le_length [of x "i + n"]
      unfolding ror_lambda_def Let_def R n_def [symmetric]
      by (auto simp: bit_simps add.commute)
  qed
  then show ?thesis by (intro bit_word_eqI)
qed


lemma uint_ucast_take_bit: "uint (ucast (v :: 'a::len word) :: 'b::len word) = take_bit LENGTH('b) (uint v)"
  by (simp add: unsigned_ucast_eq unsigned_take_bit_eq)

lemma uread_take_bit: "OpSize \<in> {1, 2, 4, 8, 16} \<Longrightarrow> uread OpSize a = take_bit (8 * OpSize) (uint a)"
  using unsigned_take_bit_eq [of 128 a, where ?'a = int] take_bit_word_eq_self [of 128 a]
  by (auto simp: uread_def uint_ucast_take_bit)

lemma sread_take_bit:
  "OpSize \<in> {1, 2, 4, 8, 16} \<Longrightarrow> sread OpSize a = signed_take_bit (8 * OpSize - 1) (uint a)"
  by (auto simp: sread_def sint_uint uint_ucast_take_bit signed_take_bit_take_bit)

lemma uread_bounds:
  assumes "OpSize \<in> {1, 2, 4, 8, 16}"
  shows "0 \<le> uread OpSize a" and "uread OpSize a < 2 ^ (8 * OpSize)"
  unfolding uread_take_bit [OF assms] by (simp_all only: take_bit_nonnegative take_bit_int_less_exp)

lemma sread_bounds:
  assumes "OpSize \<in> {1, 2, 4, 8, 16}"
  shows "- (2 ^ (8 * OpSize - 1)) \<le> sread OpSize a" and "sread OpSize a < 2 ^ (8 * OpSize - 1)"
  unfolding sread_take_bit [OF assms]
  by (simp_all only: signed_take_bit_int_greater_eq_minus_exp signed_take_bit_int_less_exp)

lemma take_bit_uint_store:
  "n \<le> 64 \<Longrightarrow> take_bit n (uint (put_bytes 8 d v)) = take_bit n (uint v)"
  by (rule bit_eqI) (auto simp: bit_simps)

lemma signed_take_bit_uint_store:
  "n < 64 \<Longrightarrow> signed_take_bit n (uint (put_bytes 8 d v)) = signed_take_bit n (uint v)"
  by (rule bit_eqI) (auto simp: bit_simps min_def)

lemma uread_ludiv_store:
  "OpSize \<in> {2, 4, 8} \<Longrightarrow> uread OpSize (ludiv_store OpSize d r) = take_bit (8 * OpSize) r"
  by (auto simp: uread_take_bit ludiv_store_def GD_def take_bit_uint_store uint_ucast_take_bit
      uint_word_of_int_eq)

lemma sread_ldiv_store:
  "OpSize \<in> {2, 4, 8} \<Longrightarrow> sread OpSize (ldiv_store OpSize d r) = signed_take_bit (8 * OpSize - 1) r"
  by (auto simp: sread_take_bit ldiv_store_def GD_def signed_take_bit_uint_store)
     (rule bit_eqI, auto simp: bit_simps min_def)+


text \<open>
  The unsigned long division of \<^verbatim>\<open>Upper:Lower\<close> and its remainder, at 16, 32 and 64 bits, satisfy the
  division identity with a remainder below the divisor whenever the quotient fits the
  operation size (x86 raises \<^verbatim>\<open>#DE\<close> otherwise).
\<close>

lemma LUDiv_LURem_identity:
  assumes "Op_LUDiv OpSize d Lower Upper Divisor = Inr q"
    and "Op_LURem OpSize e Lower Upper Divisor = Inr r"
    and "ludiv_source OpSize Upper Lower div uread OpSize Divisor < 2 ^ (8 * OpSize)"
  shows "uread OpSize q * uread OpSize Divisor + uread OpSize r = ludiv_source OpSize Upper Lower
    \<and> 0 \<le> uread OpSize r \<and> uread OpSize r < uread OpSize Divisor"
proof -
  define D where "D = uread OpSize Divisor"
  define S where "S = ludiv_source OpSize Upper Lower"
  from assms(1,2) have sz: "OpSize \<in> {2, 4, 8}" and nz: "D \<noteq> 0"
    and q: "q = ludiv_store OpSize d (S div D)" and r: "r = ludiv_store OpSize e (S mod D)"
    by (auto simp: Op_LUDiv_def Op_LURem_def D_def S_def split: if_splits)
  have D: "0 < D" "D < 2 ^ (8 * OpSize)"
    using sz nz uread_bounds [of OpSize Divisor] unfolding D_def by auto
  have S: "0 \<le> S" using sz by (auto simp: S_def ludiv_source_def uread_take_bit)
  have "uread OpSize q = S div D"
    using assms(3) D S unfolding q uread_ludiv_store [OF sz] D_def [symmetric] S_def [symmetric]
    by (intro take_bit_int_eq_self) (auto simp: pos_imp_zdiv_nonneg_iff)
  moreover have m: "S mod D < D" "0 \<le> S mod D" using D by simp_all
  have "uread OpSize r = S mod D"
    using D(2) m unfolding r uread_ludiv_store [OF sz] by (intro take_bit_int_eq_self) linarith+
  ultimately show ?thesis
    using m by (simp add: D_def [symmetric] S_def [symmetric])
qed

text \<open>
  The signed long division truncates towards zero and satisfies the division identity, with a
  remainder smaller than the divisor in magnitude that has the sign of the dividend, whenever
  the quotient is representable at the operation size.
\<close>

lemma LDiv_LRem_identity:
  assumes "Op_LDiv OpSize d Lower Upper Divisor = Inr q"
    and "Op_LRem OpSize e Lower Upper Divisor = Inr r"
    and "- (2 ^ (8 * OpSize - 1)) \<le> ldiv_source OpSize Upper Lower sdiv sread OpSize Divisor"
    and "ldiv_source OpSize Upper Lower sdiv sread OpSize Divisor < 2 ^ (8 * OpSize - 1)"
  shows "sread OpSize q * sread OpSize Divisor + sread OpSize r = ldiv_source OpSize Upper Lower
    \<and> \<bar>sread OpSize r\<bar> < \<bar>sread OpSize Divisor\<bar>
    \<and> 0 \<le> sread OpSize r * ldiv_source OpSize Upper Lower"
proof -
  define D where "D = sread OpSize Divisor"
  define S where "S = ldiv_source OpSize Upper Lower"
  from assms(1,2) have sz: "OpSize \<in> {2, 4, 8}" and nz: "D \<noteq> 0"
    and q: "q = ldiv_store OpSize d (S sdiv D)" and r: "r = ldiv_store OpSize e (S smod D)"
    by (auto simp: Op_LDiv_def Op_LRem_def D_def S_def div_defined_def split: if_splits)
  have D: "- (2 ^ (8 * OpSize - 1)) \<le> D" "D < 2 ^ (8 * OpSize - 1)"
    using sz sread_bounds [of OpSize Divisor] unfolding D_def by auto
  have rem: "\<bar>S smod D\<bar> < \<bar>D\<bar>" "0 \<le> (S smod D) * S"
    using nz pos_mod_sign [of "\<bar>D\<bar>" "\<bar>S\<bar>"] pos_mod_bound [of "\<bar>D\<bar>" "\<bar>S\<bar>"]
    by (auto simp: signed_modulo_int_def sgn_if zero_le_mult_iff mult_le_0_iff)
  have q': "sread OpSize q = S sdiv D"
    using assms(3,4) unfolding q sread_ldiv_store [OF sz] D_def [symmetric] S_def [symmetric]
    by (intro signed_take_bit_int_eq_self) auto
  have r': "sread OpSize r = S smod D"
    using D rem(1) unfolding r sread_ldiv_store [OF sz]
    by (intro signed_take_bit_int_eq_self) auto
  show ?thesis
    using rem q' r' signed_division_class.sdiv_mult_smod_eq
    by (simp add: D_def [symmetric] S_def [symmetric])
qed


text \<open>
  the unsigned long division of \<^verbatim>\<open>Upper:Lower\<close> and its remainder, at 16, 32 and 64 bits, satisfy the
  division identity with a remainder below the divisor, and the signed one truncates towards zero with a
  remainder of the sign of the dividend, whenever the quotient is representable at the operation size
  (x86 raises \<^verbatim>\<open>#DE\<close> otherwise).
\<close>

theorem long_division_identity:
  "(Op_LUDiv OpSize d Lower Upper Divisor = Inr q \<longrightarrow> Op_LURem OpSize e Lower Upper Divisor = Inr r \<longrightarrow>
      ludiv_source OpSize Upper Lower div uread OpSize Divisor < 2 ^ (8 * OpSize) \<longrightarrow>
      uread OpSize q * uread OpSize Divisor + uread OpSize r = ludiv_source OpSize Upper Lower
      \<and> 0 \<le> uread OpSize r \<and> uread OpSize r < uread OpSize Divisor)
   \<and> (Op_LDiv OpSize d Lower Upper Divisor = Inr q \<longrightarrow> Op_LRem OpSize e Lower Upper Divisor = Inr r \<longrightarrow>
      - (2 ^ (8 * OpSize - 1)) \<le> ldiv_source OpSize Upper Lower sdiv sread OpSize Divisor \<longrightarrow>
      ldiv_source OpSize Upper Lower sdiv sread OpSize Divisor < 2 ^ (8 * OpSize - 1) \<longrightarrow>
      sread OpSize q * sread OpSize Divisor + sread OpSize r = ldiv_source OpSize Upper Lower
      \<and> \<bar>sread OpSize r\<bar> < \<bar>sread OpSize Divisor\<bar> \<and> 0 \<le> sread OpSize r * ldiv_source OpSize Upper Lower)"
  using LUDiv_LURem_identity LDiv_LRem_identity by blast

theorem long_division_identity_witness:
  "\<exists>q r. Op_LUDiv 2 0 0x1234 0x0001 0x0100 = Inr q \<and> Op_LURem 2 0 0x1234 0x0001 0x0100 = Inr r
     \<and> uread 2 q * uread 2 0x0100 + uread 2 r = 0x11234"
proof -
  obtain q r where qr: "Op_LUDiv 2 0 0x1234 0x0001 0x0100 = Inr q" "Op_LURem 2 0 0x1234 0x0001 0x0100 = Inr r"
    by (simp add: Op_LUDiv_def Op_LURem_def uread_def)
  moreover have "ludiv_source 2 0x0001 0x1234 div uread 2 0x0100 < 2 ^ (8 * 2)"
    by (simp add: ludiv_source_def uread_def)
  ultimately have "uread 2 q * uread 2 0x0100 + uread 2 r = ludiv_source 2 0x0001 0x1234"
    using conjunct1 [OF long_division_identity] by blast
  then show ?thesis using qr by (auto simp: ludiv_source_def uread_def)
qed

section \<open>Rotation, byte reversal, bit fields\<close>

text \<open>
  The rotate handler is the mathematical rotation to the right by the amount modulo the
  operation width, at 32 and 64 bits.
\<close>

lemma Op_Ror_rotates:
  "Op_Ror 4 d a b = Inr (GD d (ucast (word_rotr (unat (ucast b :: u32)) (ucast a :: u32))))
   \<and> Op_Ror 8 d a b = Inr (GD d (word_rotr (unat (ucast b :: u64)) (ucast a)))"
  using ror_lambda_rotr [of 5, where ?'a = 32] ror_lambda_rotr [of 6, where ?'a = 64]
  by (simp add: Op_Ror_def)

lemma rev_index_involution: "i < 8 * n \<Longrightarrow> rev_index n i < 8 * n \<and> rev_index n (rev_index n i) = i"
proof -
  assume i: "i < 8 * n"
  then have n: "i div 8 < n" by auto
  have "(8 * (n - 1 - i div 8) + i mod 8) div 8 = n - 1 - i div 8" by simp
  then show ?thesis using n i by (auto simp: rev_index_def)
qed

text \<open>
  Reversing the bytes twice gives back the value truncated to the operation size, and byte
  \<open>j\<close> of the reversed value is byte \<open>n - 1 - j\<close> of the source.
\<close>

lemma Op_Rev_involution:
  assumes "Op_Rev OpSize d a = Inr r"
  shows "Op_Rev OpSize e r = Inr (GD e (ucast a AND mask (8 * OpSize)))
    \<and> (\<forall>i < 8 * OpSize. bit r i \<longleftrightarrow> bit a (8 * (OpSize - 1 - i div 8) + i mod 8))"
proof -
  have "OpSize = 2 \<and> r = GD d (ucast (BSwap16 (ucast a)))
      \<or> OpSize = 4 \<and> r = GD d (ucast (BSwap32 (ucast a)))
      \<or> OpSize = 8 \<and> r = GD d (BSwap64 (ucast a))"
    using assms by (auto simp: Op_Rev_def split: if_splits)
  moreover have "BSwap16 (BSwap16 v) = v" for v
    by (rule bit_word_eqI) (use rev_index_involution [of _ 2] in \<open>simp add: BSwap16_bit\<close>)
  moreover have "BSwap32 (BSwap32 v) = v" for v
    by (rule bit_word_eqI) (use rev_index_involution [of _ 4] in \<open>simp add: BSwap32_bit\<close>)
  moreover have "BSwap64 (BSwap64 v) = v" for v
    by (rule bit_word_eqI) (use rev_index_involution [of _ 8] in \<open>simp add: BSwap64_bit\<close>)
  moreover have "(ucast (GD d (ucast v)) :: u16) = v" "(ucast (GD d (ucast w)) :: u32) = w" for v w
    by (rule bit_word_eqI; simp add: bit_simps)+
  moreover have "ucast (ucast a :: u16) = (ucast a :: u64) AND mask 16"
    "ucast (ucast a :: u32) = (ucast a :: u64) AND mask 32"
    "(ucast a :: u64) = ucast a AND mask 64"
    by (rule bit_word_eqI; auto simp: bit_simps)+
  ultimately show ?thesis
    using BSwap16_bit [of _ "ucast a"] BSwap32_bit [of _ "ucast a"] BSwap64_bit [of _ "ucast a"]
    by (auto simp: Op_Rev_def slot_simps bit_GD bit_ucast_iff rev_index_def)
qed

lemma bit_source_mask [bit_simps]: "w \<le> 64 \<Longrightarrow> bit (source_mask w) i \<longleftrightarrow> i < w \<and> i < 64"
proof -
  assume "w \<le> 64"
  moreover have "push_bit w 1 - 1 = (mask w :: u64)"
    by (simp add: mask_eq_exp_minus_1 push_bit_of_1)
  ultimately show ?thesis by (auto simp: source_mask_def bit_simps)
qed

text \<open>
  inserting a field and extracting it again gives the inserted bits, zero-extended by \<^verbatim>\<open>Bfe\<close>
  and sign-extended by \<^verbatim>\<open>Sbfe\<close>, and the bits outside the field keep the destination's value.
\<close>

theorem Bfi_Bfe_round_trip:
  assumes "Op_Bfi d w lsb Dest Src = Inr r" and "0 < w" and "lsb + w \<le> 64" and "OpSize \<le> 8"
  shows "Op_Bfe OpSize e w lsb r = Inr (GD e (take_bit w (ucast Src)))
    \<and> Op_Sbfe OpSize e w lsb r = Inr (GD e (signed_take_bit (w - 1) (ucast Src)))
    \<and> (\<forall>i < 64. i < lsb \<or> lsb + w \<le> i \<longrightarrow> bit r i = bit Dest i)"
proof -
  have r: "bit r i \<longleftrightarrow> (if i < 64 then if lsb \<le> i \<and> i < lsb + w then bit Src (i - lsb) else bit Dest i
      else bit d i)" for i
    using assms by (auto simp: Op_Bfi_def bit_simps Let_def)
  have "drop_bit lsb (ucast r AND push_bit lsb (source_mask w)) = take_bit w (ucast Src :: u64)"
    by (rule bit_word_eqI) (use assms r in \<open>auto simp: bit_simps\<close>)
  moreover
  have "signed_drop_bit (64 - (w + lsb) + lsb) (push_bit (64 - (w + lsb)) (ucast r))
      = signed_take_bit (w - 1) (ucast Src :: u64)"
  proof (rule bit_word_eqI)
    fix i assume "i < LENGTH(64)"
    then consider "i < w - 1" | "i = w - 1" | "w \<le> i" "i < 64" using assms(2) by fastforce
    then show "bit (signed_drop_bit (64 - (w + lsb) + lsb) (push_bit (64 - (w + lsb)) (ucast r :: u64))) i
       \<longleftrightarrow> bit (signed_take_bit (w - 1) (ucast Src :: u64)) i"
      by cases (use assms(2,3) r in \<open>auto simp: bit_simps min_def\<close>)
  qed
  ultimately show ?thesis
    using assms(4) r by (auto simp: Op_Bfe_def Op_Sbfe_def Let_def)
qed

theorem Bfi_Bfe_round_trip_witness:
  "Op_Bfe 8 0 8 4 (GD 0 0xFEEF) = Inr (GD 0 (take_bit 8 0xEE))
   \<and> Op_Sbfe 8 0 8 4 (GD 0 0xFEEF) = Inr (GD 0 (signed_take_bit 7 0xEE))"
proof -
  have "Op_Bfi 0 8 4 0xFFFF 0xEE = Inr (GD 0 0xFEEF)" by code_simp
  from Bfi_Bfe_round_trip [OF this, of 8 0] show ?thesis by simp
qed

lemma sint_of_int_small:
  "- (2 ^ (LENGTH('a) - 1)) \<le> k \<Longrightarrow> k < 2 ^ (LENGTH('a) - 1) \<Longrightarrow> sint (word_of_int k :: 'a::len word) = k"
  by (simp add: sint_uint uint_word_of_int_eq signed_take_bit_take_bit signed_take_bit_int_eq_self)

lemma sint_ucast_small:
  fixes v :: "128 word"
  assumes "- (2 ^ 63) \<le> k" "k < 2 ^ 63" "sint v = k"
  shows "sint (ucast v :: u64) = k"
proof -
  have "(ucast v :: u64) = word_of_int (sint v)" by (rule bit_word_eqI) (auto simp: bit_simps)
  then show ?thesis using assms sint_of_int_small [of k, where ?'a = 64] by simp
qed

text \<open>
  at 64 bits the low and high multiply handlers together give the full 128-bit product, unsigned
  and signed.
\<close>

theorem Mul_MulH_full_product:
  assumes "Op_UMul 8 d a b = Inr lo" and "Op_UMulH 8 d a b = Inr hi"
    and "Op_Mul 8 d a b = Inr slo" and "Op_MulH 8 d a b = Inr shi"
  shows "uread 8 hi * 2 ^ 64 + uread 8 lo = uread 8 a * uread 8 b
    \<and> sread 8 shi * 2 ^ 64 + uread 8 slo = sread 8 a * sread 8 b"
proof -
  have GD: "uread 8 (GD d v) = uint v" "sread 8 (GD d v) = sint v" for v
    by (simp_all add: uread_def sread_def slot_simps)
  have r: "uread 8 x = uint (ucast x :: u64)" "sread 8 x = sint (ucast x :: u64)" for x
    by (simp_all add: uread_def sread_def)
  define A where "A = (ucast a :: u64)"
  define B where "B = (ucast b :: u64)"
  have lo: "uread 8 lo = (uint A * uint B) mod 2 ^ 64"
    using assms(1) by (auto simp: Op_UMul_def GD A_def B_def uint_word_arith_bintrs take_bit_eq_mod)
  have b: "uint A < 2 ^ 64" "uint B < 2 ^ 64" using uint_lt2p [of A] uint_lt2p [of B] by auto
  then have "uint A * uint B < 2 ^ 64 * 2 ^ 64" by (intro mult_strict_mono) auto
  then have P: "uint A * uint B < 2 ^ 128" by simp
  have "take_bit 128 (uint A) = uint A" "take_bit 128 (uint B) = uint B"
    using b by (auto intro!: take_bit_int_eq_self)
  then have "uint ((ucast A :: u128) * ucast B) = uint A * uint B"
    using P by (simp add: uint_word_arith_bintrs uint_ucast_take_bit take_bit_int_eq_self)
  then have "uint (drop_bit 64 ((ucast A :: u128) * ucast B)) = (uint A * uint B) div 2 ^ 64"
    using P by (subst unsigned_drop_bit_eq) (simp add: drop_bit_eq_div take_bit_int_eq_self)
  moreover have "take_bit 64 ((uint A * uint B) div 2 ^ 64) = (uint A * uint B) div 2 ^ 64"
    using P by (intro take_bit_int_eq_self) (auto simp: pos_imp_zdiv_nonneg_iff)
  ultimately have hi: "uread 8 hi = (uint A * uint B) div 2 ^ 64"
    using assms(2)
    by (simp only: Op_UMulH_def A_def [symmetric] B_def [symmetric]) (auto simp: GD uint_ucast_take_bit)
  have "slo = GD d (word_of_int (sint A * sint B))"
    using assms(3) by (simp add: Op_Mul_def r A_def B_def)
  then have slo: "uread 8 slo = (sint A * sint B) mod 2 ^ 64"
    by (simp only: GD uint_word_of_int_eq) (simp add: take_bit_eq_mod)
  have sb: "\<bar>sint A\<bar> \<le> 2 ^ 63" "\<bar>sint B\<bar> \<le> 2 ^ 63"
    using sint_lt [of A] sint_ge [of A] sint_lt [of B] sint_ge [of B] by auto
  then have "\<bar>sint A\<bar> * \<bar>sint B\<bar> \<le> 2 ^ 63 * 2 ^ 63" by (intro mult_mono) auto
  then have SP: "- (2 ^ 126) \<le> sint A * sint B" "sint A * sint B \<le> 2 ^ 126"
    by (auto simp: abs_mult [symmetric])
  define Q where "Q = sint A * sint B"
  have "sint (word_of_int Q :: u128) = Q"
    using SP by (intro sint_of_int_small) (auto simp: Q_def)
  then have sd: "sint (signed_drop_bit 64 (word_of_int Q :: u128)) = Q div 2 ^ 64"
    by (simp add: sint_signed_drop_bit_eq drop_bit_eq_div)
  have "shi = GD d (ucast (signed_drop_bit 64 (word_of_int Q :: u128)))"
    using assms(4) by (simp add: Op_MulH_def r A_def B_def Q_def)
  moreover have "sint (ucast (signed_drop_bit 64 (word_of_int Q :: u128)) :: u64) = Q div 2 ^ 64"
    by (rule sint_ucast_small [OF _ _ sd]) (use SP in \<open>auto simp: Q_def\<close>)
  ultimately have shi: "sread 8 shi = (sint A * sint B) div 2 ^ 64"
    by (simp add: GD Q_def)
  show ?thesis
    using lo hi slo shi div_mult_mod_eq [of "uint A * uint B" "2 ^ 64"]
      div_mult_mod_eq [of "sint A * sint B" "2 ^ 64"]
    by (simp add: r A_def [symmetric] B_def [symmetric])
qed

theorem Mul_MulH_full_product_witness:
  "\<exists>hi lo. Op_UMulH 8 0 (mask 64) 2 = Inr hi \<and> Op_UMul 8 0 (mask 64) 2 = Inr lo
     \<and> uread 8 hi * 2 ^ 64 + uread 8 lo = 2 ^ 65 - 2"
proof -
  obtain lo hi slo shi where r: "Op_UMul 8 0 (mask 64) 2 = Inr lo" "Op_UMulH 8 0 (mask 64) 2 = Inr hi"
    "Op_Mul 8 0 (mask 64) 2 = Inr slo" "Op_MulH 8 0 (mask 64) 2 = Inr shi"
    by (simp add: Op_UMul_def Op_UMulH_def Op_Mul_def Op_MulH_def)
  have "uread 8 (mask 64) * uread 8 2 = 2 ^ 65 - 2" by code_simp
  with Mul_MulH_full_product [OF r] r show ?thesis by auto
qed

end
