(* ===== verification/Interp_Machine.thy ===== *)
theory Interp_Machine
  imports Interp_ALU
begin

text \<open>
  The IR and the machine that interprets it: the guest context (\<^verbatim>\<open>CPUState\<close>,
  \<^verbatim>\<open>include/FEXCore/Core/CoreState.h\<close>) as an array of bytes, guest memory, the SSA cells, the memory
  handlers (\<^verbatim>\<open>MemoryOps.cpp\<close>), the atomic handlers (\<^verbatim>\<open>AtomicOps.cpp\<close>), the branch handlers
  (\<^verbatim>\<open>BranchOps.cpp\<close>) and the interpreter loop \<^verbatim>\<open>InterpreterOps::InterpretIR\<close>.
\<close>

section \<open>Bytes\<close>

fun gather :: "(nat \<Rightarrow> u8) \<Rightarrow> nat \<Rightarrow> slot" where
  "gather g 0 = 0"
| "gather g (Suc n) = gather g n OR push_bit (8 * n) (ucast (g n))"

definition byte_at :: "slot \<Rightarrow> nat \<Rightarrow> u8" where
  "byte_at v i = ucast (drop_bit (8 * i) v)"

lemma bit_gather [bit_simps]:
  "n \<le> 16 \<Longrightarrow> bit (gather g n) k \<longleftrightarrow> k < 8 * n \<and> bit (g (k div 8)) (k mod 8)"
proof (induction n)
  case 0
  then show ?case by simp
next
  case (Suc n)
  have "bit (push_bit (8 * n) (ucast (g n)) :: slot) k
      \<longleftrightarrow> k div 8 = n \<and> bit (g n) (k mod 8)"
  proof (cases "k div 8 = n")
    case True
    then have "k = 8 * n + k mod 8" by (metis mult_div_mod_eq)
    moreover have "k mod 8 < 8" by simp
    ultimately show ?thesis using Suc.prems True
      by (auto simp: bit_simps minus_mult_div_eq_mod)
  next
    case False
    then show ?thesis
      by (auto simp: bit_simps dest!: bit_imp_le_length)
  qed
  moreover have "k < 8 * Suc n \<longleftrightarrow> k < 8 * n \<or> k div 8 = n" by auto
  ultimately show ?case using Suc by (auto simp: bit_simps)
qed

lemma bit_byte_at [bit_simps]: "bit (byte_at v i) k \<longleftrightarrow> k < 8 \<and> bit v (8 * i + k)"
  by (auto simp: byte_at_def bit_simps)

lemma gather_byte_at: "n \<le> 16 \<Longrightarrow> gather (byte_at v) n = v AND mask (8 * n)"
  by (rule bit_word_eqI) (auto simp: bit_simps)

lemma gather_cong: "(\<And>i. i < n \<Longrightarrow> g i = h i) \<Longrightarrow> gather g n = gather h n"
  by (induction n) auto

lemma byte_at_gather: "n \<le> 16 \<Longrightarrow> i < n \<Longrightarrow> byte_at (gather g n) i = g i"
  by (rule bit_word_eqI) (auto simp: bit_simps)

section \<open>The guest context\<close>

type_synonym context_bytes = "nat \<Rightarrow> u8"
type_synonym memory = "u64 \<Rightarrow> u8"

definition off_rip :: nat where "off_rip = 0"
definition off_gregs :: "nat \<Rightarrow> nat" where "off_gregs r = 8 + 8 * r"
definition off_es :: nat where "off_es = 136"
definition off_cs :: nat where "off_cs = 138"
definition off_ss :: nat where "off_ss = 140"
definition off_ds :: nat where "off_ds = 142"
definition off_gs :: nat where "off_gs = 144"
definition off_fs :: nat where "off_fs = 152"
definition off_xmm_avx :: "nat \<Rightarrow> nat \<Rightarrow> nat" where "off_xmm_avx r h = 160 + 32 * r + 8 * h"
definition off_xmm_sse :: "nat \<Rightarrow> nat \<Rightarrow> nat" where "off_xmm_sse r h = 160 + 16 * r + 8 * h"
definition off_flags :: nat where "off_flags = 672"
definition off_mm :: "nat \<Rightarrow> nat" where "off_mm r = 720 + 16 * r"
definition off_gdt :: nat where "off_gdt = 848"

definition ctx_load :: "context_bytes \<Rightarrow> nat \<Rightarrow> nat \<Rightarrow> slot" where
  "ctx_load c off n = gather (\<lambda>i. c (off + i)) n"

definition ctx_store :: "context_bytes \<Rightarrow> nat \<Rightarrow> nat \<Rightarrow> slot \<Rightarrow> context_bytes" where
  "ctx_store c off n v = (\<lambda>i. if off \<le> i \<and> i < off + n then byte_at v (i - off) else c i)"

lemma ctx_load_store_same:
  "n \<le> 16 \<Longrightarrow> ctx_load (ctx_store c off n v) off n = v AND mask (8 * n)"
  unfolding ctx_load_def ctx_store_def
  by (subst gather_byte_at [symmetric]) (auto intro!: gather_cong)

lemma ctx_load_store_disjoint:
  "off + n \<le> off' \<or> off' + m \<le> off \<Longrightarrow> ctx_load (ctx_store c off' m v) off n = ctx_load c off n"
  unfolding ctx_load_def ctx_store_def by (auto intro!: gather_cong)

definition mem_load :: "memory \<Rightarrow> u64 \<Rightarrow> nat \<Rightarrow> slot" where
  "mem_load m a n = gather (\<lambda>i. m (a + word_of_nat i)) n"

definition mem_store :: "memory \<Rightarrow> u64 \<Rightarrow> nat \<Rightarrow> slot \<Rightarrow> memory" where
  "mem_store m a n v = (\<lambda>x. if unat (x - a) < n then byte_at v (unat (x - a)) else m x)"

lemma mem_load_store_same:
  assumes "n \<le> 16"
  shows "mem_load (mem_store m a n v) a n = v AND mask (8 * n)"
proof -
  have "unat (word_of_nat i :: u64) = i" if "i < n" for i
    using that assms by (simp add: unat_of_nat)
  then show ?thesis
    unfolding mem_load_def mem_store_def gather_byte_at [OF assms, symmetric]
    by (intro gather_cong) simp
qed

section \<open>Memory handlers\<close>

datatype MemOffsetType = MEM_OFFSET_SXTX | MEM_OFFSET_UXTW | MEM_OFFSET_SXTW

fun mem_address :: "MemOffsetType \<Rightarrow> nat \<Rightarrow> u64 \<Rightarrow> slot option \<Rightarrow> u64" where
  "mem_address _ _ Addr None = Addr"
| "mem_address MEM_OFFSET_SXTX OffsetScale Addr (Some off) =
     Addr + (ucast off * word_of_nat OffsetScale)"
| "mem_address MEM_OFFSET_UXTW OffsetScale Addr (Some off) =
     Addr + ucast (ucast ((ucast off :: u64) * word_of_nat OffsetScale) :: u32)"
| "mem_address MEM_OFFSET_SXTW OffsetScale Addr (Some off) =
     Addr + scast (ucast ((ucast off :: u64) * word_of_nat OffsetScale) :: u32)"

text \<open>A load clears the whole destination cell first; at most one cell is written.\<close>

definition Op_LoadMem :: "nat \<Rightarrow> memory \<Rightarrow> u64 \<Rightarrow> slot result" where
  "Op_LoadMem OpSize m a =
     (if OpSize \<in> {1, 2, 4, 8} then Inr (GD 0 (ucast (mem_load m a OpSize)))
      else if OpSize \<le> 16 then Inr (put_bytes OpSize 0 (mem_load m a OpSize))
      else Inl (UnhandledSize OpSize))"

definition Op_StoreMem :: "nat \<Rightarrow> memory \<Rightarrow> u64 \<Rightarrow> slot \<Rightarrow> memory result" where
  "Op_StoreMem OpSize m a Value =
     (if OpSize \<le> 16 then Inr (mem_store m a OpSize Value) else Inl (UnhandledSize OpSize))"

definition Op_LoadContext :: "nat \<Rightarrow> context_bytes \<Rightarrow> slot \<Rightarrow> nat \<Rightarrow> slot result" where
  "Op_LoadContext OpSize c d Offset =
     (if OpSize \<in> {1, 2, 4, 8} then Inr (GD d (ucast (ctx_load c Offset OpSize)))
      else if OpSize = 16 then Inr (put_bytes 16 d (ctx_load c Offset 16))
      else Inl (UnhandledSize OpSize))"

definition Op_StoreContext :: "nat \<Rightarrow> context_bytes \<Rightarrow> slot \<Rightarrow> nat \<Rightarrow> context_bytes result" where
  "Op_StoreContext OpSize c Value Offset =
     (if OpSize \<le> 16 then Inr (ctx_store c Offset OpSize Value) else Inl (UnhandledSize OpSize))"

definition indexed_offset :: "slot \<Rightarrow> nat \<Rightarrow> nat \<Rightarrow> nat" where
  "indexed_offset Index BaseOffset Stride =
     unat (word_of_nat BaseOffset + (ucast Index :: u64) * word_of_nat Stride)"

definition Op_LoadFlag :: "context_bytes \<Rightarrow> slot \<Rightarrow> nat \<Rightarrow> slot result" where
  "Op_LoadFlag c d Flag = Inr (GD d (ucast (c (off_flags + Flag))))"

definition Op_StoreFlag :: "context_bytes \<Rightarrow> slot \<Rightarrow> nat \<Rightarrow> context_bytes" where
  "Op_StoreFlag c Value Flag = c(off_flags + Flag := ucast Value)"

definition CACHELINE_SIZE :: nat where "CACHELINE_SIZE = 64"

definition Op_CacheLineZero :: "memory \<Rightarrow> slot \<Rightarrow> memory" where
  "Op_CacheLineZero m Addr =
     (let MemData = (ucast Addr :: u64) AND NOT (word_of_nat (CACHELINE_SIZE - 1)) in
      fold (\<lambda>i m'. mem_store m' (MemData + word_of_nat (8 * i)) 8 0) [0..<CACHELINE_SIZE div 8] m)"

section \<open>Atomic handlers\<close>

text \<open>
  A read-modify-write on a cell of \<open>n\<close> bytes; between the load and the store of
  \<^verbatim>\<open>std::atomic\<close> nothing interferes, so it is one step.
\<close>

definition trunc_slot :: "nat \<Rightarrow> slot \<Rightarrow> slot" where
  "trunc_slot n v = v AND mask (8 * n)"

definition atomic_rmw ::
  "(slot \<Rightarrow> slot \<Rightarrow> slot) \<Rightarrow> nat \<Rightarrow> memory \<Rightarrow> slot \<Rightarrow> slot \<Rightarrow> (slot \<times> memory) result" where
  "atomic_rmw f OpSize m Value Addr =
     (if OpSize \<in> {1, 2, 4, 8} then
        (let a = ucast Addr; prev = mem_load m a OpSize in
         Inr (prev, mem_store m a OpSize (f prev (trunc_slot OpSize Value))))
      else Inl (UnhandledSize OpSize))"

definition rmw_memory :: "(slot \<times> memory) result \<Rightarrow> memory result" where
  "rmw_memory r = (case r of Inl e \<Rightarrow> Inl e | Inr (_, m) \<Rightarrow> Inr m)"

definition Op_AtomicAdd :: "nat \<Rightarrow> memory \<Rightarrow> slot \<Rightarrow> slot \<Rightarrow> memory result" where
  "Op_AtomicAdd OpSize m Value Addr = rmw_memory (atomic_rmw (+) OpSize m Value Addr)"

definition Op_AtomicSub :: "nat \<Rightarrow> memory \<Rightarrow> slot \<Rightarrow> slot \<Rightarrow> memory result" where
  "Op_AtomicSub OpSize m Value Addr = rmw_memory (atomic_rmw (-) OpSize m Value Addr)"

definition Op_AtomicAnd :: "nat \<Rightarrow> memory \<Rightarrow> slot \<Rightarrow> slot \<Rightarrow> memory result" where
  "Op_AtomicAnd OpSize m Value Addr = rmw_memory (atomic_rmw (AND) OpSize m Value Addr)"

definition Op_AtomicOr :: "nat \<Rightarrow> memory \<Rightarrow> slot \<Rightarrow> slot \<Rightarrow> memory result" where
  "Op_AtomicOr OpSize m Value Addr = rmw_memory (atomic_rmw (OR) OpSize m Value Addr)"

definition Op_AtomicXor :: "nat \<Rightarrow> memory \<Rightarrow> slot \<Rightarrow> slot \<Rightarrow> memory result" where
  "Op_AtomicXor OpSize m Value Addr = rmw_memory (atomic_rmw (XOR) OpSize m Value Addr)"

definition Op_AtomicSwap :: "nat \<Rightarrow> memory \<Rightarrow> slot \<Rightarrow> slot \<Rightarrow> (slot \<times> memory) result" where
  "Op_AtomicSwap OpSize m Value Addr = atomic_rmw (\<lambda>_ v. v) OpSize m Value Addr"

definition Op_AtomicFetchAdd :: "nat \<Rightarrow> memory \<Rightarrow> slot \<Rightarrow> slot \<Rightarrow> (slot \<times> memory) result" where
  "Op_AtomicFetchAdd OpSize m Value Addr = atomic_rmw (+) OpSize m Value Addr"

definition Op_AtomicFetchSub :: "nat \<Rightarrow> memory \<Rightarrow> slot \<Rightarrow> slot \<Rightarrow> (slot \<times> memory) result" where
  "Op_AtomicFetchSub OpSize m Value Addr = atomic_rmw (-) OpSize m Value Addr"

definition Op_AtomicFetchAnd :: "nat \<Rightarrow> memory \<Rightarrow> slot \<Rightarrow> slot \<Rightarrow> (slot \<times> memory) result" where
  "Op_AtomicFetchAnd OpSize m Value Addr = atomic_rmw (AND) OpSize m Value Addr"

definition Op_AtomicFetchOr :: "nat \<Rightarrow> memory \<Rightarrow> slot \<Rightarrow> slot \<Rightarrow> (slot \<times> memory) result" where
  "Op_AtomicFetchOr OpSize m Value Addr = atomic_rmw (OR) OpSize m Value Addr"

definition Op_AtomicFetchXor :: "nat \<Rightarrow> memory \<Rightarrow> slot \<Rightarrow> slot \<Rightarrow> (slot \<times> memory) result" where
  "Op_AtomicFetchXor OpSize m Value Addr = atomic_rmw (XOR) OpSize m Value Addr"

definition Op_AtomicFetchNeg :: "nat \<Rightarrow> memory \<Rightarrow> slot \<Rightarrow> (slot \<times> memory) result" where
  "Op_AtomicFetchNeg OpSize m Addr = atomic_rmw (\<lambda>p _. - p) OpSize m 0 Addr"

text \<open>\<^verbatim>\<open>AtomicCompareAndSwap\<close>: the value found, which is the expected one when the store was made.\<close>

definition AtomicCompareAndSwap ::
  "nat \<Rightarrow> slot \<Rightarrow> slot \<Rightarrow> memory \<Rightarrow> u64 \<Rightarrow> slot \<times> memory" where
  "AtomicCompareAndSwap n Expected Desired m a =
     (if mem_load m a n = trunc_slot n Expected
      then (trunc_slot n Expected, mem_store m a n Desired)
      else (mem_load m a n, m))"

definition Op_CAS :: "nat \<Rightarrow> memory \<Rightarrow> slot \<Rightarrow> slot \<Rightarrow> slot \<Rightarrow> (slot \<times> memory) result" where
  "Op_CAS OpSize m Expected Desired Addr =
     (if OpSize \<in> {1, 2, 4, 8}
      then Inr (AtomicCompareAndSwap OpSize Expected Desired m (ucast Addr))
      else Inl (UnhandledSize OpSize))"

definition Op_CASPair :: "nat \<Rightarrow> memory \<Rightarrow> slot \<Rightarrow> slot \<Rightarrow> slot \<Rightarrow> (slot \<times> memory) result" where
  "Op_CASPair ElementSize m Expected Desired Addr =
     (if ElementSize = 4 then Inr (AtomicCompareAndSwap 8 Expected Desired m (ucast Addr))
      else if ElementSize = 8 then Inr (AtomicCompareAndSwap 16 Expected Desired m (ucast Addr))
      else Inl (UnhandledSize ElementSize))"


section \<open>The IR\<close>

text \<open>
  The operations of \<^verbatim>\<open>IR.json\<close> that the development covers, in the groups of that file. Every
  node has an \<^verbatim>\<open>IROp_Header\<close> with its operation, \<^verbatim>\<open>Size\<close> and \<^verbatim>\<open>ElementSize\<close>; arguments are node ids
  (\<^verbatim>\<open>OrderedNodeWrapper\<close>).
\<close>

datatype ir_unop =
    OP_NEG | OP_NOT | OP_POPCOUNT | OP_FINDLSB | OP_FINDMSB | OP_FINDTRAILINGZEROS
  | OP_COUNTLEADINGZEROES | OP_REV | OP_MOV | OP_TRUNCELEMENTPAIR

datatype ir_binop =
    OP_ADD | OP_SUB | OP_OR | OP_XOR | OP_AND | OP_ANDN | OP_LSHL | OP_LSHR | OP_ASHR | OP_ROR
  | OP_MUL | OP_UMUL | OP_DIV | OP_UDIV | OP_REM | OP_UREM | OP_MULH | OP_UMULH | OP_PDEP | OP_PEXT
  | OP_CREATEELEMENTPAIR

datatype ir_longop = OP_LDIV | OP_LUDIV | OP_LREM | OP_LUREM

datatype ir_atomic = OP_ATOMICADD | OP_ATOMICSUB | OP_ATOMICAND | OP_ATOMICOR | OP_ATOMICXOR

datatype ir_fetch =
    OP_ATOMICSWAP | OP_ATOMICFETCHADD | OP_ATOMICFETCHSUB | OP_ATOMICFETCHAND
  | OP_ATOMICFETCHOR | OP_ATOMICFETCHXOR

datatype ir_op =
    IR_NoOp
  | IR_InvalidateFlags u64
  | IR_Constant u64
  | IR_EntrypointOffset u64
  | IR_Un ir_unop node_id
  | IR_Bin ir_binop node_id node_id
  | IR_Long ir_longop node_id node_id node_id
  | IR_Bfi nat nat node_id node_id
  | IR_Bfe nat nat node_id
  | IR_Sbfe nat nat node_id
  | IR_Select CondClass node_id node_id node_id node_id nat
  | IR_Extr node_id node_id nat
  | IR_VExtractToGPR node_id nat
  | IR_FCmp nat node_id node_id u32
  | IR_GetHostFlag node_id nat
  | IR_ExtractElementPair node_id nat
  | IR_LoadContext nat
  | IR_StoreContext node_id nat
  | IR_LoadContextIndexed node_id nat nat
  | IR_StoreContextIndexed node_id node_id nat nat
  | IR_LoadFlag nat
  | IR_StoreFlag node_id nat
  | IR_LoadMem node_id "node_id option" MemOffsetType nat
  | IR_StoreMem node_id node_id "node_id option" MemOffsetType nat
  | IR_CacheLineZero node_id
  | IR_Atomic ir_atomic node_id node_id
  | IR_Fetch ir_fetch node_id node_id
  | IR_AtomicFetchNeg node_id
  | IR_CAS node_id node_id node_id
  | IR_CASPair node_id node_id node_id
  | IR_Jump node_id
  | IR_CondJump CondClass node_id node_id node_id node_id nat
  | IR_ExitFunction node_id

record ir_node =
  Op :: ir_op
  Size :: nat
  ElementSize :: nat

section \<open>Machine state and one step\<close>

record istate =
  SSAData :: "node_id \<Rightarrow> slot"
  Context :: context_bytes
  Mem :: memory
  CurrentEntry :: u64
  Quit :: bool
  Redo :: "node_id option"
  Fault :: "ir_error option"

fun exec_unop :: "ir_unop \<Rightarrow> nat \<Rightarrow> slot \<Rightarrow> slot \<Rightarrow> slot result" where
  "exec_unop OP_NEG sz d a = Op_Neg sz d a"
| "exec_unop OP_NOT sz d a = Op_Not sz d a"
| "exec_unop OP_POPCOUNT sz d a = Op_Popcount d a"
| "exec_unop OP_FINDLSB sz d a = Op_FindLSB d a"
| "exec_unop OP_FINDMSB sz d a = Op_FindMSB sz d a"
| "exec_unop OP_FINDTRAILINGZEROS sz d a = Op_FindTrailingZeros sz d a"
| "exec_unop OP_COUNTLEADINGZEROES sz d a = Op_CountLeadingZeroes sz d a"
| "exec_unop OP_REV sz d a = Op_Rev sz d a"
| "exec_unop OP_MOV sz d a = Op_Mov sz d a"
| "exec_unop OP_TRUNCELEMENTPAIR sz d a = Op_TruncElementPair sz d a"

fun exec_binop :: "ir_binop \<Rightarrow> nat \<Rightarrow> nat \<Rightarrow> slot \<Rightarrow> slot \<Rightarrow> slot \<Rightarrow> slot result" where
  "exec_binop OP_ADD sz el d a b = Op_Add sz d a b"
| "exec_binop OP_SUB sz el d a b = Op_Sub sz d a b"
| "exec_binop OP_OR sz el d a b = Op_Or sz d a b"
| "exec_binop OP_XOR sz el d a b = Op_Xor sz d a b"
| "exec_binop OP_AND sz el d a b = Op_And sz d a b"
| "exec_binop OP_ANDN sz el d a b = Op_Andn sz d a b"
| "exec_binop OP_LSHL sz el d a b = Op_Lshl sz d a b"
| "exec_binop OP_LSHR sz el d a b = Op_Lshr sz d a b"
| "exec_binop OP_ASHR sz el d a b = Op_Ashr sz d a b"
| "exec_binop OP_ROR sz el d a b = Op_Ror sz d a b"
| "exec_binop OP_MUL sz el d a b = Op_Mul sz d a b"
| "exec_binop OP_UMUL sz el d a b = Op_UMul sz d a b"
| "exec_binop OP_DIV sz el d a b = Op_Div sz d a b"
| "exec_binop OP_UDIV sz el d a b = Op_UDiv sz d a b"
| "exec_binop OP_REM sz el d a b = Op_Rem sz d a b"
| "exec_binop OP_UREM sz el d a b = Op_URem sz d a b"
| "exec_binop OP_MULH sz el d a b = Op_MulH sz d a b"
| "exec_binop OP_UMULH sz el d a b = Op_UMulH sz d a b"
| "exec_binop OP_PDEP sz el d a b = Op_PDep sz d a b"
| "exec_binop OP_PEXT sz el d a b = Op_PExt sz d a b"
| "exec_binop OP_CREATEELEMENTPAIR sz el d a b = Op_CreateElementPair el d a b"

fun exec_longop :: "ir_longop \<Rightarrow> nat \<Rightarrow> slot \<Rightarrow> slot \<Rightarrow> slot \<Rightarrow> slot \<Rightarrow> slot result" where
  "exec_longop OP_LDIV sz d l u v = Op_LDiv sz d l u v"
| "exec_longop OP_LUDIV sz d l u v = Op_LUDiv sz d l u v"
| "exec_longop OP_LREM sz d l u v = Op_LRem sz d l u v"
| "exec_longop OP_LUREM sz d l u v = Op_LURem sz d l u v"

fun exec_atomic :: "ir_atomic \<Rightarrow> nat \<Rightarrow> memory \<Rightarrow> slot \<Rightarrow> slot \<Rightarrow> memory result" where
  "exec_atomic OP_ATOMICADD = Op_AtomicAdd"
| "exec_atomic OP_ATOMICSUB = Op_AtomicSub"
| "exec_atomic OP_ATOMICAND = Op_AtomicAnd"
| "exec_atomic OP_ATOMICOR = Op_AtomicOr"
| "exec_atomic OP_ATOMICXOR = Op_AtomicXor"

fun exec_fetch :: "ir_fetch \<Rightarrow> nat \<Rightarrow> memory \<Rightarrow> slot \<Rightarrow> slot \<Rightarrow> (slot \<times> memory) result" where
  "exec_fetch OP_ATOMICSWAP = Op_AtomicSwap"
| "exec_fetch OP_ATOMICFETCHADD = Op_AtomicFetchAdd"
| "exec_fetch OP_ATOMICFETCHSUB = Op_AtomicFetchSub"
| "exec_fetch OP_ATOMICFETCHAND = Op_AtomicFetchAnd"
| "exec_fetch OP_ATOMICFETCHOR = Op_AtomicFetchOr"
| "exec_fetch OP_ATOMICFETCHXOR = Op_AtomicFetchXor"

text \<open>
  The value-producing handlers: the destination cell after the handler ran. \<open>sizes\<close> gives
  \<^verbatim>\<open>GetOpSize\<close> of a node, which \<^verbatim>\<open>VExtractToGPR\<close> reads.
\<close>

fun exec_value ::
  "(node_id \<Rightarrow> nat) \<Rightarrow> istate \<Rightarrow> nat \<Rightarrow> nat \<Rightarrow> slot \<Rightarrow> ir_op \<Rightarrow> slot result option" where
  "exec_value szs s sz el d (IR_Constant c) = Some (Op_Constant d c)"
| "exec_value szs s sz el d (IR_EntrypointOffset off) =
     Some (Op_EntrypointOffset sz (CurrentEntry s) d off)"
| "exec_value szs s sz el d (IR_Un u a) = Some (exec_unop u sz d (SSAData s a))"
| "exec_value szs s sz el d (IR_Bin b x y) =
     Some (exec_binop b sz el d (SSAData s x) (SSAData s y))"
| "exec_value szs s sz el d (IR_Long b l u v) =
     Some (exec_longop b sz d (SSAData s l) (SSAData s u) (SSAData s v))"
| "exec_value szs s sz el d (IR_Bfi w lsb a b) =
     Some (Op_Bfi d w lsb (SSAData s a) (SSAData s b))"
| "exec_value szs s sz el d (IR_Bfe w lsb a) = Some (Op_Bfe sz d w lsb (SSAData s a))"
| "exec_value szs s sz el d (IR_Sbfe w lsb a) = Some (Op_Sbfe sz d w lsb (SSAData s a))"
| "exec_value szs s sz el d (IR_Select c a b t f cs) =
     Some (Op_Select sz d cs c (SSAData s a) (SSAData s b) (SSAData s t) (SSAData s f))"
| "exec_value szs s sz el d (IR_Extr u l lsb) =
     Some (Op_Extr sz d (SSAData s u) (SSAData s l) lsb)"
| "exec_value szs s sz el d (IR_VExtractToGPR v i) =
     Some (Op_VExtractToGPR sz el (szs v) d i (SSAData s v))"
| "exec_value szs s sz el d (IR_FCmp es a b fl) =
     Some (Op_FCmp d es fl (SSAData s a) (SSAData s b))"
| "exec_value szs s sz el d (IR_GetHostFlag a f) = Some (Op_GetHostFlag d (SSAData s a) f)"
| "exec_value szs s sz el d (IR_ExtractElementPair a i) =
     Some (Op_ExtractElementPair sz d (SSAData s a) i)"
| "exec_value szs s sz el d (IR_LoadContext off) = Some (Op_LoadContext sz (Context s) d off)"
| "exec_value szs s sz el d (IR_LoadContextIndexed i base stride) =
     Some (Op_LoadContext sz (Context s) d (indexed_offset (SSAData s i) base stride))"
| "exec_value szs s sz el d (IR_LoadFlag f) = Some (Op_LoadFlag (Context s) d f)"
| "exec_value szs s sz el d (IR_LoadMem a off ty scale) =
     Some (Op_LoadMem sz (Mem s)
       (mem_address ty scale (ucast (SSAData s a)) (map_option (SSAData s) off)))"
| "exec_value szs s sz el d _ = None"

definition set_fault :: "ir_error \<Rightarrow> istate \<Rightarrow> istate" where
  "set_fault e s = s\<lparr>Fault := Some e\<rparr>"

definition set_slot :: "node_id \<Rightarrow> slot \<Rightarrow> istate \<Rightarrow> istate" where
  "set_slot n v s = s\<lparr>SSAData := (SSAData s)(n := v)\<rparr>"

definition set_mem_result :: "memory result \<Rightarrow> istate \<Rightarrow> istate" where
  "set_mem_result r s = (case r of Inl e \<Rightarrow> set_fault e s | Inr m \<Rightarrow> s\<lparr>Mem := m\<rparr>)"

definition set_ctx_result :: "context_bytes result \<Rightarrow> istate \<Rightarrow> istate" where
  "set_ctx_result r s = (case r of Inl e \<Rightarrow> set_fault e s | Inr c \<Rightarrow> s\<lparr>Context := c\<rparr>)"

text \<open>A fetching handler writes the previous value into eight bytes of its cell, a 16-byte CAS into all.\<close>

definition set_fetch_result ::
  "node_id \<Rightarrow> nat \<Rightarrow> (slot \<times> memory) result \<Rightarrow> istate \<Rightarrow> istate" where
  "set_fetch_result n bytes r s =
     (case r of Inl e \<Rightarrow> set_fault e s
      | Inr (prev, m) \<Rightarrow> set_slot n (put_bytes bytes (SSAData s n) prev) (s\<lparr>Mem := m\<rparr>))"

fun exec_effect :: "istate \<Rightarrow> node_id \<Rightarrow> nat \<Rightarrow> nat \<Rightarrow> ir_op \<Rightarrow> istate" where
  "exec_effect s n sz el IR_NoOp = s"
| "exec_effect s n sz el (IR_InvalidateFlags _) = s"
| "exec_effect s n sz el (IR_StoreContext v off) =
     set_ctx_result (Op_StoreContext sz (Context s) (SSAData s v) off) s"
| "exec_effect s n sz el (IR_StoreContextIndexed v i base stride) =
     set_ctx_result (Op_StoreContext sz (Context s) (SSAData s v)
       (indexed_offset (SSAData s i) base stride)) s"
| "exec_effect s n sz el (IR_StoreFlag v f) =
     s\<lparr>Context := Op_StoreFlag (Context s) (SSAData s v) f\<rparr>"
| "exec_effect s n sz el (IR_StoreMem v a off ty scale) =
     set_mem_result (Op_StoreMem sz (Mem s)
       (mem_address ty scale (ucast (SSAData s a)) (map_option (SSAData s) off)) (SSAData s v)) s"
| "exec_effect s n sz el (IR_CacheLineZero a) = s\<lparr>Mem := Op_CacheLineZero (Mem s) (SSAData s a)\<rparr>"
| "exec_effect s n sz el (IR_Atomic o' v a) =
     set_mem_result (exec_atomic o' sz (Mem s) (SSAData s v) (SSAData s a)) s"
| "exec_effect s n sz el (IR_Fetch o' v a) =
     set_fetch_result n 8 (exec_fetch o' sz (Mem s) (SSAData s v) (SSAData s a)) s"
| "exec_effect s n sz el (IR_AtomicFetchNeg a) =
     set_fetch_result n 8 (Op_AtomicFetchNeg sz (Mem s) (SSAData s a)) s"
| "exec_effect s n sz el (IR_CAS e d a) =
     set_fetch_result n 8 (Op_CAS sz (Mem s) (SSAData s e) (SSAData s d) (SSAData s a)) s"
| "exec_effect s n sz el (IR_CASPair e d a) =
     set_fetch_result n (2 * el) (Op_CASPair el (Mem s) (SSAData s e) (SSAData s d) (SSAData s a)) s"
| "exec_effect s n sz el (IR_Jump target) = s\<lparr>Redo := Some target\<rparr>"
| "exec_effect s n sz el (IR_CondJump c a b t f cs) =
     (case IsConditionTrue cs c (ucast (SSAData s a)) (ucast (SSAData s b)) of
        Inl e \<Rightarrow> set_fault e s
      | Inr True \<Rightarrow> s\<lparr>Redo := Some t\<rparr>
      | Inr False \<Rightarrow> s\<lparr>Redo := Some f\<rparr>)"
| "exec_effect s n sz el (IR_ExitFunction rip) =
     s\<lparr>Context := ctx_store (Context s) off_rip sz (SSAData s rip), Quit := True\<rparr>"
| "exec_effect s n sz el _ = set_fault UnhandledOp s"

definition exec_node :: "(node_id \<Rightarrow> nat) \<Rightarrow> node_id \<Rightarrow> ir_node \<Rightarrow> istate \<Rightarrow> istate" where
  "exec_node szs n nd s =
     (if Fault s \<noteq> None then s else
      case exec_value szs s (Size nd) (ElementSize nd) (SSAData s n) (Op nd) of
        Some (Inr v) \<Rightarrow> set_slot n v s
      | Some (Inl e) \<Rightarrow> set_fault e s
      | None \<Rightarrow> exec_effect s n (Size nd) (ElementSize nd) (Op nd))"

end
