(* ===== verification/Interp_Loop.thy ===== *)
theory Interp_Loop
  imports Interp_Machine
begin

text \<open>
  \<^verbatim>\<open>InterpreterOps::InterpretIR\<close> (\<^verbatim>\<open>InterpreterOps.cpp\<close>): the SSA cells are cleared, the blocks of
  the function run from the first one, a branch sets the next block (\<^verbatim>\<open>BlockResults.Redo\<close>), an
  \<^verbatim>\<open>ExitFunction\<close> leaves (\<^verbatim>\<open>BlockResults.Quit\<close>), and running off the end of a block goes to the block
  after it. The guest program may loop for ever, so the loop is a partial function; for forward
  control flow it is proved to return.
\<close>

type_synonym ir_block = "node_id \<times> (node_id \<times> ir_node) list"
type_synonym ir_function = "ir_block list"

definition GetOpSize :: "ir_function \<Rightarrow> node_id \<Rightarrow> nat" where
  "GetOpSize F n = (case map_of (concat (map snd F)) n of None \<Rightarrow> 0 | Some nd \<Rightarrow> Size nd)"

fun run_block :: "(node_id \<Rightarrow> nat) \<Rightarrow> (node_id \<times> ir_node) list \<Rightarrow> istate \<Rightarrow> istate" where
  "run_block szs [] s = s"
| "run_block szs ((n, nd) # rest) s =
     (let s' = exec_node szs n nd s in
      if Quit s' \<or> Redo s' \<noteq> None \<or> Fault s' \<noteq> None then s' else run_block szs rest s')"

fun find_block :: "ir_function \<Rightarrow> node_id \<Rightarrow> nat option" where
  "find_block [] t = None"
| "find_block (b # bs) t = (if fst b = t then Some 0 else map_option Suc (find_block bs t))"

definition block_start :: "istate \<Rightarrow> istate" where
  "block_start s = s\<lparr>Quit := False, Redo := None\<rparr>"

partial_function (option) interp_loop :: "ir_function \<Rightarrow> nat \<Rightarrow> istate \<Rightarrow> istate option" where
  "interp_loop F i s =
     (if i < length F then
        (let s1 = run_block (GetOpSize F) (snd (F ! i)) (block_start s) in
         if Fault s1 \<noteq> None then Some s1
         else case Redo s1 of
                Some t \<Rightarrow> (case find_block F t of
                            None \<Rightarrow> Some (set_fault UnhandledOp s1)
                          | Some j \<Rightarrow> interp_loop F j s1)
              | None \<Rightarrow> (if Quit s1 \<or> Suc i = length F then Some s1 else interp_loop F (Suc i) s1))
      else Some (set_fault UnhandledOp s))"

text \<open>\<^verbatim>\<open>CurrentEntry\<close> is the context's \<^verbatim>\<open>rip\<close>; \<^verbatim>\<open>memset(SSAData, 0, ...)\<close> clears the cells.\<close>

definition boot :: "context_bytes \<Rightarrow> memory \<Rightarrow> istate" where
  "boot c m = \<lparr>SSAData = (\<lambda>_. 0), Context = c, Mem = m,
     CurrentEntry = ucast (ctx_load c off_rip 8), Quit = False, Redo = None, Fault = None\<rparr>"

definition InterpretIR :: "ir_function \<Rightarrow> context_bytes \<Rightarrow> memory \<Rightarrow> istate option" where
  "InterpretIR F c m = interp_loop F 0 (boot c m)"

section \<open>Forward control flow returns\<close>

text \<open>The block a step may branch to is one of the targets written in the node.\<close>

fun op_targets :: "ir_op \<Rightarrow> node_id set" where
  "op_targets (IR_Jump t) = {t}"
| "op_targets (IR_CondJump _ _ _ t f _) = {t, f}"
| "op_targets _ = {}"

definition block_targets :: "ir_block \<Rightarrow> node_id set" where
  "block_targets b = (\<Union>(n, nd) \<in> set (snd b). op_targets (Op nd))"

lemma set_result_Redo [simp]:
  "Redo (set_fault e s) = Redo s" "Redo (set_slot n v s) = Redo s"
  "Redo (set_mem_result mr s) = Redo s" "Redo (set_ctx_result cr s) = Redo s"
  "Redo (set_fetch_result n k fr s) = Redo s"
  by (auto simp: set_fault_def set_slot_def set_mem_result_def set_ctx_result_def
      set_fetch_result_def split: sum.splits)

lemma exec_effect_Redo:
  "Redo (exec_effect s n sz el ir) = Redo s \<or> (\<exists>t \<in> op_targets ir. Redo (exec_effect s n sz el ir) = Some t)"
  by (cases ir) (auto split: sum.splits bool.splits)

lemma exec_node_Redo:
  "Redo (exec_node szs n nd s) = Redo s
   \<or> (\<exists>t \<in> op_targets (Op nd). Redo (exec_node szs n nd s) = Some t)"
  using exec_effect_Redo [of s n "Size nd" "ElementSize nd" "Op nd"]
  by (auto simp: exec_node_def split: option.splits sum.splits)

lemma run_block_Redo:
  assumes "Redo (run_block szs ns s) = Some t" and "Redo s = None"
  shows "t \<in> (\<Union>(n, nd) \<in> set ns. op_targets (Op nd))"
  using assms
proof (induction szs ns s rule: run_block.induct)
  case (1 szs s)
  then show ?case by simp
next
  case (2 szs n nd rest s)
  show ?case
  proof (cases "Redo (exec_node szs n nd s) = None")
    case True
    then show ?thesis using 2 by (auto simp: Let_def split: if_splits)
  next
    case False
    then show ?thesis using 2 exec_node_Redo [of szs n nd s] by (auto simp: Let_def)
  qed
qed

definition forward :: "ir_function \<Rightarrow> bool" where
  "forward F \<longleftrightarrow> (\<forall>i < length F. \<forall>t \<in> block_targets (F ! i). \<exists>j. find_block F t = Some j \<and> i < j)"

lemma find_block_less: "find_block F t = Some j \<Longrightarrow> j < length F"
  by (induction F arbitrary: j) (auto split: if_splits)

lemma interp_loop_forward:
  assumes "forward F" and "i < length F"
  shows "\<exists>s'. interp_loop F i s = Some s'"
  using assms(2)
proof (induction "length F - i" arbitrary: i s rule: less_induct)
  case less
  define s1 where "s1 = run_block (GetOpSize F) (snd (F ! i)) (block_start s)"
  have step: "interp_loop F i s =
      (if Fault s1 \<noteq> None then Some s1
       else case Redo s1 of
              Some t \<Rightarrow> (case find_block F t of
                          None \<Rightarrow> Some (set_fault UnhandledOp s1)
                        | Some j \<Rightarrow> interp_loop F j s1)
            | None \<Rightarrow> (if Quit s1 \<or> Suc i = length F then Some s1 else interp_loop F (Suc i) s1))"
    by (subst interp_loop.simps) (simp only: less.prems if_True Let_def s1_def [symmetric])
  have later: "\<exists>s'. interp_loop F j s1 = Some s'" if "i < j" "j < length F" for j
    using less.hyps [of j s1] that less.prems by auto
  show ?case
  proof (cases "Redo s1")
    case None
    then show ?thesis using step later [of "Suc i"] less.prems by (cases "Suc i = length F") auto
  next
    case (Some t)
    have "t \<in> block_targets (F ! i)"
      using run_block_Redo [OF Some [unfolded s1_def]]
      by (simp add: block_start_def block_targets_def)
    then obtain j where j: "find_block F t = Some j" "i < j"
      using assms(1) less.prems by (auto simp: forward_def)
    then show ?thesis using step Some later [of j] find_block_less [OF j(1)] by simp
  qed
qed

text \<open>
  C32: interpreting an IR function whose branches only go to later blocks of the function returns a
  final state, from every guest context and memory, whether or not a handler faults on the way.
\<close>

theorem InterpretIR_forward_returns:
  assumes "forward F" and "F \<noteq> []"
  shows "\<exists>s'. InterpretIR F c m = Some s'"
  using interp_loop_forward [OF assms(1), of 0] assms(2) by (simp add: InterpretIR_def)

definition branch_function :: ir_function where
  "branch_function =
     [(0, [(1, \<lparr>Op = IR_Constant 5, Size = 8, ElementSize = 8\<rparr>),
           (2, \<lparr>Op = IR_CondJump COND_NEQ 1 1 10 20 8, Size = 0, ElementSize = 0\<rparr>)]),
      (10, [(11, \<lparr>Op = IR_Jump 20, Size = 0, ElementSize = 0\<rparr>)]),
      (20, [])]"

theorem InterpretIR_forward_returns_witness:
  "\<exists>s'. InterpretIR branch_function (\<lambda>_. 0) (\<lambda>_. 0) = Some s'"
proof (rule InterpretIR_forward_returns)
  show "forward branch_function"
    by (simp add: forward_def branch_function_def block_targets_def less_Suc_eq all_conj_distrib
        numeral_3_eq_3 imp_conjL)
qed (simp add: branch_function_def)

end
