(* ===== verification/IR_Graph.thy ===== *)
theory IR_Graph
  imports Interp_Loop
begin

text \<open>
  The intermediate code as the optimisation passes see it (\<^verbatim>\<open>IR/IREmitter.cpp\<close>, \<^verbatim>\<open>IREmitter.h\<close>): the blocks of a
  function with their nodes and, for every node, the number of arguments that refer to it
  (\<^verbatim>\<open>OrderedNode::NumUses\<close>); the operations that remove and rewire nodes; and the contract of a pass, which
  is stated against the interpreter. Nodes are identified by their ids; \<open>NextNode\<close> is the id that the list
  allocator gives out next.
\<close>

type_synonym code = "(node_id \<times> ir_node) list"
type_synonym uses = "node_id \<Rightarrow> nat"

record ir_list =
  Blocks :: ir_function
  NumUses :: uses
  NextNode :: node_id

section \<open>Arguments\<close>

text \<open>
  \<^verbatim>\<open>IROp_Header::Args\<close>, in the order of \<^verbatim>\<open>IR.json\<close>; the targets of branches are arguments too: the
  emitter counts a use of every SSA argument it stores. \<^verbatim>\<open>IR::GetArgs\<close>, which the passes iterate, leaves
  the targets out; that list is \<open>value_args\<close>. A missing offset of a memory operation is the invalid node, which is
  no argument here.
\<close>

fun op_args :: "ir_op \<Rightarrow> node_id list" where
  "op_args (IR_Un u a) = [a]"
| "op_args (IR_Bin b x y) = [x, y]"
| "op_args (IR_Long b l u v) = [l, u, v]"
| "op_args (IR_Bfi w lsb a b) = [a, b]"
| "op_args (IR_Bfe w lsb a) = [a]"
| "op_args (IR_Sbfe w lsb a) = [a]"
| "op_args (IR_Select c a b t f cs) = [a, b, t, f]"
| "op_args (IR_Extr u l lsb) = [u, l]"
| "op_args (IR_VExtractToGPR v i) = [v]"
| "op_args (IR_FCmp es a b fl) = [a, b]"
| "op_args (IR_GetHostFlag a f) = [a]"
| "op_args (IR_ExtractElementPair a i) = [a]"
| "op_args (IR_StoreContext v off) = [v]"
| "op_args (IR_LoadContextIndexed i base stride) = [i]"
| "op_args (IR_StoreContextIndexed v i base stride) = [v, i]"
| "op_args (IR_StoreFlag v f) = [v]"
| "op_args (IR_LoadMem a off ty scale) = a # (case off of None \<Rightarrow> [] | Some x \<Rightarrow> [x])"
| "op_args (IR_StoreMem v a off ty scale) = v # a # (case off of None \<Rightarrow> [] | Some x \<Rightarrow> [x])"
| "op_args (IR_CacheLineZero a) = [a]"
| "op_args (IR_Atomic o' v a) = [v, a]"
| "op_args (IR_Fetch o' v a) = [v, a]"
| "op_args (IR_AtomicFetchNeg a) = [a]"
| "op_args (IR_CAS e d a) = [e, d, a]"
| "op_args (IR_CASPair e d a) = [e, d, a]"
| "op_args (IR_Jump t) = [t]"
| "op_args (IR_CondJump c a b t f cs) = [a, b, t, f]"
| "op_args (IR_ExitFunction rip) = [rip]"
| "op_args _ = []"

text \<open>\<^verbatim>\<open>IR::HasSideEffects\<close>, from the attribute of the same name in \<^verbatim>\<open>IR.json\<close>.\<close>

fun HasSideEffects :: "ir_op \<Rightarrow> bool" where
  "HasSideEffects IR_NoOp = True"
| "HasSideEffects (IR_InvalidateFlags fl) = True"
| "HasSideEffects (IR_StoreContext v off) = True"
| "HasSideEffects (IR_StoreContextIndexed v i base stride) = True"
| "HasSideEffects (IR_StoreFlag v f) = True"
| "HasSideEffects (IR_StoreMem v a off ty scale) = True"
| "HasSideEffects (IR_CacheLineZero a) = True"
| "HasSideEffects (IR_Atomic o' v a) = True"
| "HasSideEffects (IR_Fetch o' v a) = True"
| "HasSideEffects (IR_AtomicFetchNeg a) = True"
| "HasSideEffects (IR_CAS e d a) = True"
| "HasSideEffects (IR_CASPair e d a) = True"
| "HasSideEffects (IR_Jump t) = True"
| "HasSideEffects (IR_CondJump c a b t f cs) = True"
| "HasSideEffects (IR_ExitFunction rip) = True"
| "HasSideEffects _ = False"

lemma side_effect_free_value:
  "\<not> HasSideEffects ir \<Longrightarrow> exec_value szs s sz el d ir \<noteq> None"
  by (cases ir) auto

lemma value_side_effect_free:
  "HasSideEffects ir \<Longrightarrow> exec_value szs s sz el d ir = None"
  by (cases ir) auto

section \<open>Use counts\<close>

definition refs :: "code \<Rightarrow> node_id \<Rightarrow> nat" where
  "refs xs n = sum_list (map (\<lambda>(_, nd). count_list (op_args (Op nd)) n) xs)"

definition all_code :: "ir_function \<Rightarrow> code" where
  "all_code F = concat (map snd F)"

definition RemoveUse :: "node_id \<Rightarrow> uses \<Rightarrow> uses" where
  "RemoveUse n U = U(n := U n - 1)"

definition RemoveArgUses :: "ir_node \<Rightarrow> uses \<Rightarrow> uses" where
  "RemoveArgUses nd U = fold RemoveUse (op_args (Op nd)) U"

text \<open>A well-formed list: ids are unique and every use is counted.\<close>

definition uses_ok :: "ir_list \<Rightarrow> bool" where
  "uses_ok G \<longleftrightarrow> (\<forall>n. NumUses G n = refs (all_code (Blocks G)) n)"

definition unique_ids :: "ir_function \<Rightarrow> bool" where
  "unique_ids F \<longleftrightarrow> distinct (map fst (all_code F))"

lemma refs_simps [simp]:
  "refs [] n = 0" "refs ((k, nd) # xs) n = count_list (op_args (Op nd)) n + refs xs n"
  "refs (xs @ ys) n = refs xs n + refs ys n"
  by (simp_all add: refs_def)

lemma refs_0: "refs xs n = 0 \<longleftrightarrow> (\<forall>(k, nd) \<in> set xs. n \<notin> set (op_args (Op nd)))"
  by (auto simp: refs_def count_list_0_iff)

lemma all_code_simps [simp]: "all_code [] = []" "all_code (b # F) = snd b @ all_code F"
  by (simp_all add: all_code_def)

lemma block_code: "i < length F \<Longrightarrow> set (snd (F ! i)) \<subseteq> set (all_code F)"
  using nth_mem [of i F] by (auto simp: all_code_def simp del: nth_mem)

lemma RemoveUses: "fold RemoveUse as U n = U n - count_list as n"
  by (induction as arbitrary: U) (auto simp: RemoveUse_def)

lemma RemoveArgUses_count: "RemoveArgUses nd U n = U n - count_list (op_args (Op nd)) n"
  by (simp add: RemoveArgUses_def RemoveUses)

section \<open>Agreement of runs\<close>

text \<open>States that differ at most in the cells of some nodes.\<close>

definition agree :: "node_id set \<Rightarrow> istate \<Rightarrow> istate \<Rightarrow> bool" where
  "agree R s t \<longleftrightarrow> t = s\<lparr>SSAData := SSAData t\<rparr> \<and> (\<forall>n. n \<notin> R \<longrightarrow> SSAData t n = SSAData s n)"

lemma agree_refl [simp]: "agree R s s"
  by (simp add: agree_def)

lemma agreeD:
  assumes "agree R s t"
  shows "Context t = Context s" "Mem t = Mem s" "CurrentEntry t = CurrentEntry s" "Quit t = Quit s"
    "Redo t = Redo s" "Fault t = Fault s" "n \<notin> R \<Longrightarrow> SSAData t n = SSAData s n"
  using assms unfolding agree_def by (metis istate.select_convs istate.update_convs istate.surjective)+

lemma agreeI:
  assumes "Context t = Context s" "Mem t = Mem s" "CurrentEntry t = CurrentEntry s" "Quit t = Quit s"
    "Redo t = Redo s" "Fault t = Fault s" "\<And>n. n \<notin> R \<Longrightarrow> SSAData t n = SSAData s n"
  shows "agree R s t"
  using assms by (simp add: agree_def)

lemma agree_updates:
  assumes "agree R s t"
  shows "agree R (set_fault e s) (set_fault e t)" "agree R (set_slot n v s) (set_slot n v t)"
    "agree R (s\<lparr>Context := c\<rparr>) (t\<lparr>Context := c\<rparr>)" "agree R (s\<lparr>Mem := m\<rparr>) (t\<lparr>Mem := m\<rparr>)"
    "agree R (s\<lparr>Redo := r\<rparr>) (t\<lparr>Redo := r\<rparr>)" "agree R (s\<lparr>Quit := q\<rparr>) (t\<lparr>Quit := q\<rparr>)"
    "agree R (block_start s) (block_start t)"
  using agreeD [OF assms] by (auto intro!: agreeI simp: set_fault_def set_slot_def block_start_def)

lemma agree_results:
  assumes "agree R s t"
  shows "agree R (set_mem_result mr s) (set_mem_result mr t)" "agree R (set_ctx_result cr s) (set_ctx_result cr t)"
    "n \<notin> R \<Longrightarrow> agree R (set_fetch_result n k fr s) (set_fetch_result n k fr t)"
  using agree_updates [OF assms] agree_updates(2) [OF agree_updates(4) [OF assms]] agreeD(7) [OF assms]
  by (auto simp: set_mem_result_def set_ctx_result_def set_fetch_result_def split: sum.splits)

lemma exec_value_agree:
  assumes "agree R s t" "set (op_args ir) \<inter> R = {}" "\<And>n. n \<in> set (op_args ir) \<Longrightarrow> szs' n = szs n"
  shows "exec_value szs' t sz el d ir = exec_value szs s sz el d ir"
proof (cases ir)
  case (IR_LoadMem a off ty scale)
  then show ?thesis using agreeD [OF assms(1)] assms(2,3) by (cases off) auto
qed (use agreeD [OF assms(1)] assms(2,3) in auto)

lemma exec_effect_agree:
  assumes "agree R s t" "set (op_args ir) \<inter> R = {}" "n \<notin> R"
  shows "agree R (exec_effect s n sz el ir) (exec_effect t n sz el ir)"
proof -
  note a = agreeD [OF assms(1)]
  have "agree R (s\<lparr>Context := c, Quit := q\<rparr>) (t\<lparr>Context := c, Quit := q\<rparr>)" for c q
    using agree_updates(6) [OF agree_updates(3) [OF assms(1)]] by simp
  moreover note u = agree_updates [OF assms(1)] agree_results [OF assms(1)]
  ultimately show ?thesis
  proof (cases ir)
    case (IR_StoreMem v a' off ty scale)
    then show ?thesis using assms u a by (cases off) auto
  qed (use assms u a in \<open>auto split: sum.splits bool.splits\<close>)
qed

lemma exec_node_agree:
  assumes "agree R s t" "set (op_args (Op nd)) \<inter> R = {}" "n \<notin> R"
    "\<And>n. n \<in> set (op_args (Op nd)) \<Longrightarrow> szs' n = szs n"
  shows "agree R (exec_node szs n nd s) (exec_node szs' n nd t)"
  using exec_value_agree [OF assms(1,2,4)] exec_effect_agree [OF assms(1-3)] agreeD(6,7) [OF assms(1)] assms(1,3)
    agree_updates [OF assms(1)]
  by (auto simp: exec_node_def split: option.splits sum.splits)

lemma exec_node_dead:
  assumes "\<not> HasSideEffects (Op nd)" "n \<in> R" "Fault (exec_node szs n nd s) = None" "agree R s t"
  shows "agree R (exec_node szs n nd s) t" "Quit (exec_node szs n nd s) = Quit s" "Redo (exec_node szs n nd s) = Redo s"
  using side_effect_free_value [OF assms(1), of szs s "Size nd" "ElementSize nd" "SSAData s n"] assms(2,3) agreeD [OF assms(4)]
  by (auto simp: exec_node_def set_fault_def set_slot_def intro!: agreeI split: option.splits sum.splits)

section \<open>The contract of a pass\<close>

text \<open>
  A function \<open>F'\<close> may stand for \<open>F\<close>: a run of \<open>F\<close> that ends without a fault ends in \<open>F'\<close> with the same guest
  state, and \<open>F'\<close> ends only if \<open>F\<close> does. A faulting run is left open: the pass may drop a node that faults.
\<close>

definition preserves :: "ir_function \<Rightarrow> ir_function \<Rightarrow> bool" where
  "preserves F F' \<longleftrightarrow>
     (\<forall>c m s. InterpretIR F c m = Some s \<longrightarrow> Fault s = None
        \<longrightarrow> (\<exists>t. InterpretIR F' c m = Some t \<and> agree UNIV s t))
     \<and> (\<forall>c m t. InterpretIR F' c m = Some t
        \<longrightarrow> (\<exists>s. InterpretIR F c m = Some s \<and> (Fault s = None \<longrightarrow> agree UNIV s t)))"

lemma agree_trans:
  assumes "agree R s t" "agree R t u"
  shows "agree R s u"
  using agreeD [OF assms(1)] agreeD [OF assms(2)] by (intro agreeI) auto

lemma preservesD:
  assumes "preserves F F'"
  shows "InterpretIR F c m = Some s \<Longrightarrow> Fault s = None \<Longrightarrow> \<exists>t. InterpretIR F' c m = Some t \<and> agree UNIV s t"
    "InterpretIR F' c m = Some t \<Longrightarrow> \<exists>s. InterpretIR F c m = Some s \<and> (Fault s = None \<longrightarrow> agree UNIV s t)"
  using assms by (simp_all add: preserves_def)

lemma preserves_trans:
  assumes "preserves F F'" "preserves F' F''"
  shows "preserves F F''"
  unfolding preserves_def
proof (intro conjI allI impI)
  fix c m s assume s: "InterpretIR F c m = Some s" "Fault s = None"
  then obtain t where t: "InterpretIR F' c m = Some t" "agree UNIV s t"
    using preservesD(1) [OF assms(1)] by blast
  have "Fault t = None" using agreeD(6) [OF t(2)] s(2) by simp
  then obtain u where "InterpretIR F'' c m = Some u" "agree UNIV t u"
    using preservesD(1) [OF assms(2) t(1)] by blast
  then show "\<exists>u. InterpretIR F'' c m = Some u \<and> agree UNIV s u" using agree_trans [OF t(2)] by blast
next
  fix c m u assume u: "InterpretIR F'' c m = Some u"
  obtain t where t: "InterpretIR F' c m = Some t" "Fault t = None \<longrightarrow> agree UNIV t u"
    using preservesD(2) [OF assms(2) u] by (elim exE conjE)
  obtain s where s: "InterpretIR F c m = Some s" "Fault s = None \<longrightarrow> agree UNIV s t"
    using preservesD(2) [OF assms(1) t(1)] by (elim exE conjE)
  have "agree UNIV s u" if "Fault s = None"
    using t(2) s(2) that agreeD(6) [of UNIV s t] agree_trans [of UNIV s t u] by auto
  then show "\<exists>s. InterpretIR F c m = Some s \<and> (Fault s = None \<longrightarrow> agree UNIV s u)"
    using s(1) by (intro exI [of _ s]) simp
qed

text \<open>
  A pass maps well-formed functions to well-formed ones with the same blocks and comes with a relation on
  machine states that every block keeps, as long as the original block does not fault.
\<close>

abbreviation block_run :: "ir_function \<Rightarrow> nat \<Rightarrow> istate \<Rightarrow> istate" where
  "block_run F i s \<equiv> run_block (GetOpSize F) (snd (F ! i)) (block_start s)"

locale ir_pass =
  fixes wf :: "ir_list \<Rightarrow> bool" and run :: "ir_list \<Rightarrow> ir_list"
    and related :: "ir_list \<Rightarrow> istate \<Rightarrow> istate \<Rightarrow> bool"
  assumes wf_run: "wf G \<Longrightarrow> wf (run G)"
    and block_ids: "wf G \<Longrightarrow> map fst (Blocks (run G)) = map fst (Blocks G)"
    and related_boot: "wf G \<Longrightarrow> related G (boot c m) (boot c m)"
    and related_visible: "related G s t \<Longrightarrow> agree UNIV s t"
    and related_block: "wf G \<Longrightarrow> i < length (Blocks G) \<Longrightarrow> related G s t
      \<Longrightarrow> Fault (block_run (Blocks G) i s) = None
      \<Longrightarrow> related G (block_run (Blocks G) i s) (block_run (Blocks (run G)) i t)"
begin

lemma find_block_ids: "map fst F = map fst F' \<Longrightarrow> find_block F t = find_block F' t"
proof (induction F arbitrary: F')
  case (Cons b F)
  then show ?case by (cases F') auto
qed simp

lemma loop_preserves:
  assumes "wf G" "interp_loop (Blocks G) i s = Some s'" "Fault s' = None" "related G s t"
  shows "\<exists>t'. interp_loop (Blocks (run G)) i t = Some t' \<and> related G s' t'"
proof -
  have len: "length (Blocks (run G)) = length (Blocks G)" using block_ids [OF assms(1)] by (metis length_map)
  note fb = find_block_ids [OF block_ids [OF assms(1)]]
  have "F = Blocks G \<longrightarrow> Fault s' = None \<longrightarrow> (\<forall>t. related G s t
      \<longrightarrow> (\<exists>t'. interp_loop (Blocks (run G)) i t = Some t' \<and> related G s' t'))"
    if "interp_loop F i s = Some s'" for F i s s'
    using that
  proof (induction rule: interp_loop.raw_induct [rotated, consumes 1, case_names step])
    case (step loop F i s s')
    show ?case
    proof (intro impI allI)
      fix t assume F: "F = Blocks G" and ok: "Fault s' = None" and rel: "related G s t"
      have i: "i < length F" using step(2) ok by (auto simp: set_fault_def split: if_splits)
      let ?s = "block_run F i s" and ?t = "block_run (Blocks (run G)) i t"
      have fine: "Fault ?s = None"
        using step(2) ok i by (auto simp: Let_def split: if_splits)
      then have r: "related G ?s ?t" using related_block [OF assms(1) _ rel] i F by simp
      note vis = agreeD [OF related_visible [OF r]]
      have body: "interp_loop (Blocks (run G)) i t =
          (case Redo ?s of
             Some x \<Rightarrow> (case find_block F x of None \<Rightarrow> Some (set_fault UnhandledOp ?t)
                        | Some j \<Rightarrow> interp_loop (Blocks (run G)) j ?t)
           | None \<Rightarrow> (if Quit ?s \<or> Suc i = length F then Some ?t else interp_loop (Blocks (run G)) (Suc i) ?t))"
        using i F fine vis fb len by (subst interp_loop.simps) (auto simp: Let_def split: option.splits)
      show "\<exists>t'. interp_loop (Blocks (run G)) i t = Some t' \<and> related G s' t'"
        using step(2) i fine r ok step(1) F unfolding body
        by (auto simp: Let_def set_fault_def split: option.splits if_splits)
    qed
  qed
  then show ?thesis using assms by blast
qed

lemma loop_reflects:
  assumes "wf G" "interp_loop (Blocks (run G)) i t = Some t'" "related G s t" "i < length (Blocks G)"
  shows "\<exists>s'. interp_loop (Blocks G) i s = Some s' \<and> (Fault s' = None \<longrightarrow> related G s' t')"
proof -
  have len: "length (Blocks (run G)) = length (Blocks G)" using block_ids [OF assms(1)] by (metis length_map)
  note fb = find_block_ids [OF block_ids [OF assms(1)]]
  have "F = Blocks (run G) \<longrightarrow> i < length F \<longrightarrow> (\<forall>s. related G s t
      \<longrightarrow> (\<exists>s'. interp_loop (Blocks G) i s = Some s' \<and> (Fault s' = None \<longrightarrow> related G s' t')))"
    if "interp_loop F i t = Some t'" for F i t t'
    using that
  proof (induction rule: interp_loop.raw_induct [rotated, consumes 1, case_names step])
    case (step loop F i t t')
    show ?case
    proof (intro impI allI)
      fix s assume F: "F = Blocks (run G)" and i: "i < length F" and rel: "related G s t"
      let ?s = "block_run (Blocks G) i s" and ?t = "block_run F i t"
      have iG: "i < length (Blocks G)" using i F len by simp
      show "\<exists>s'. interp_loop (Blocks G) i s = Some s' \<and> (Fault s' = None \<longrightarrow> related G s' t')"
      proof (cases "Fault ?s = None")
        case False
        then show ?thesis using iG by (subst interp_loop.simps) (auto simp: Let_def)
      next
        case True
        then have r: "related G ?s ?t" using related_block [OF assms(1) iG rel] F by simp
        note vis = agreeD [OF related_visible [OF r]]
        have body: "interp_loop (Blocks G) i s =
            (case Redo ?t of
               Some x \<Rightarrow> (case find_block F x of None \<Rightarrow> Some (set_fault UnhandledOp ?s)
                          | Some j \<Rightarrow> interp_loop (Blocks G) j ?s)
             | None \<Rightarrow> (if Quit ?t \<or> Suc i = length F then Some ?s else interp_loop (Blocks G) (Suc i) ?s))"
          using iG F True vis fb len by (subst interp_loop.simps) (auto simp: Let_def split: option.splits)
        show ?thesis
          using step(2) i True r vis(6) step(1) F find_block_less [of F] unfolding body
          by (auto simp: Let_def set_fault_def split: option.splits if_splits)
      qed
    qed
  qed
  then show ?thesis using assms len by auto
qed

lemma pass_preserves:
  assumes "wf G" "Blocks G \<noteq> []"
  shows "preserves (Blocks G) (Blocks (run G))"
  unfolding preserves_def InterpretIR_def
proof (intro conjI allI impI)
  fix c m s assume "interp_loop (Blocks G) 0 (boot c m) = Some s" "Fault s = None"
  then show "\<exists>t. interp_loop (Blocks (run G)) 0 (boot c m) = Some t \<and> agree UNIV s t"
    using loop_preserves [OF assms(1) _ _ related_boot [OF assms(1)]] related_visible by blast
next
  fix c m t assume t: "interp_loop (Blocks (run G)) 0 (boot c m) = Some t"
  have "0 < length (Blocks G)" using assms(2) by simp
  from loop_reflects [OF assms(1) t related_boot [OF assms(1)] this]
  show "\<exists>s. interp_loop (Blocks G) 0 (boot c m) = Some s \<and> (Fault s = None \<longrightarrow> agree UNIV s t)"
    using related_visible by metis
qed

end

end
