(* ===== verification/IR_Values.thy ===== *)
theory IR_Values
  imports IR_Graph
begin

text \<open>
  How much of its cell a node writes. A handler overwrites the low bytes of the 16-byte cell and leaves the
  rest, which is zero from the start because no other node writes there. So the value of a node depends on
  its operation, its arguments and the guest state only.
\<close>

fun bin_bytes :: "ir_binop \<Rightarrow> nat \<Rightarrow> nat \<Rightarrow> nat" where
  "bin_bytes OP_ADD sz el = sz"
| "bin_bytes OP_SUB sz el = sz"
| "bin_bytes OP_OR sz el = sz"
| "bin_bytes OP_AND sz el = sz"
| "bin_bytes OP_ANDN sz el = sz"
| "bin_bytes OP_XOR sz el = sz"
| "bin_bytes OP_MUL sz el = (if sz = 16 then 16 else 8)"
| "bin_bytes OP_UMUL sz el = (if sz = 16 then 16 else 8)"
| "bin_bytes OP_DIV sz el = (if sz = 16 then 16 else 8)"
| "bin_bytes OP_UDIV sz el = (if sz = 16 then 16 else 8)"
| "bin_bytes OP_REM sz el = (if sz = 16 then 16 else 8)"
| "bin_bytes OP_UREM sz el = (if sz = 16 then 16 else 8)"
| "bin_bytes OP_CREATEELEMENTPAIR sz el = 2 * el"
| "bin_bytes b sz el = 8"

fun cell_bytes :: "(node_id \<Rightarrow> nat) \<Rightarrow> nat \<Rightarrow> nat \<Rightarrow> ir_op \<Rightarrow> nat" where
  "cell_bytes szs sz el (IR_Un OP_MOV a) = sz"
| "cell_bytes szs sz el (IR_Bin b x y) = bin_bytes b sz el"
| "cell_bytes szs sz el (IR_VExtractToGPR v i) = (if szs v = 16 then el else 8)"
| "cell_bytes szs sz el (IR_ExtractElementPair a i) = sz"
| "cell_bytes szs sz el (IR_LoadContext off) = (if sz = 16 then 16 else 8)"
| "cell_bytes szs sz el (IR_LoadContextIndexed i base stride) = (if sz = 16 then 16 else 8)"
| "cell_bytes szs sz el (IR_LoadMem a off ty scale) = 16"
| "cell_bytes szs sz el ir = 8"

lemma put_bytes_again: "put_bytes k d (put_bytes k e v) = put_bytes k d v"
  by (rule bit_word_eqI) (simp add: bit_simps)

lemma put_bytes_GD: "put_bytes 8 d (GD e v) = GD d v"
  by (simp add: GD_def put_bytes_again)

lemma put_bytes_do_op:
  "put_bytes 1 d (do_op8 f8 e a b) = do_op8 f8 d a b" "put_bytes 2 d (do_op16 f16 e a b) = do_op16 f16 d a b"
  "put_bytes 4 d (do_op32 f32 e a b) = do_op32 f32 d a b" "put_bytes 8 d (do_op64 f64 e a b) = do_op64 f64 d a b"
  "put_bytes 16 d (do_op128 f128 e a b) = do_op128 f128 d a b"
  by (simp_all add: do_op8_def do_op16_def do_op32_def do_op64_def do_op128_def put_bytes_again)

lemmas put_cell = put_bytes_again put_bytes_GD put_bytes_do_op put_bytes_do_op(1) [unfolded One_nat_def] put_bytes_all
  do_op128_def

lemma exec_unop_cell:
  "exec_unop u sz d a = map_sum id (put_bytes (if u = OP_MOV then sz else 8) d) (exec_unop u sz 0 a)"
  by (cases u) (simp_all add: put_cell Op_Neg_def Op_Not_def Op_Popcount_def Op_FindLSB_def Op_FindMSB_def
      Op_FindTrailingZeros_def Op_CountLeadingZeroes_def Op_Rev_def Op_Mov_def Op_TruncElementPair_def Let_def)

lemma exec_binop_cell: "exec_binop b sz el d x y = map_sum id (put_bytes (bin_bytes b sz el) d) (exec_binop b sz el 0 x y)"
proof (cases b)
  case OP_CREATEELEMENTPAIR
  have "put_bytes (2 * el) d (put_bytes el (push_bit (8 * el) y) (put_bytes el d x))
      = put_bytes (2 * el) d (put_bytes el (push_bit (8 * el) y) (put_bytes el 0 x))"
    by (rule bit_word_eqI) (auto simp: bit_simps)
  then show ?thesis using OP_CREATEELEMENTPAIR by (simp add: Op_CreateElementPair_def Let_def put_bytes_again)
qed (simp_all add: put_cell Op_Add_def Op_Sub_def Op_Or_def Op_Xor_def Op_And_def Op_Andn_def Op_Lshl_def Op_Lshr_def
    Op_Ashr_def Op_Ror_def Op_Mul_def Op_UMul_def Op_Div_def Op_UDiv_def Op_Rem_def Op_URem_def Op_MulH_def
    Op_UMulH_def Op_PDep_def Op_PExt_def)

lemma exec_longop_cell: "exec_longop b sz d l u v = map_sum id (put_bytes 8 d) (exec_longop b sz 0 l u v)"
  by (cases b) (simp_all add: put_cell Op_LDiv_def Op_LUDiv_def Op_LRem_def Op_LURem_def ldiv_store_def ludiv_store_def)

lemma exec_value_cell:
  "exec_value szs s sz el d ir
   = map_option (map_sum id (put_bytes (cell_bytes szs sz el ir) d)) (exec_value szs s sz el 0 ir)"
proof (cases ir)
  case (IR_Un u a)
  then show ?thesis using exec_unop_cell [of u sz d] by (cases u) auto
next
  case (IR_Bin b x y)
  then show ?thesis using exec_binop_cell [of b sz el d] by simp
next
  case (IR_Long b l u v)
  then show ?thesis using exec_longop_cell [of b sz d] by simp
qed (simp_all add: put_cell Op_Constant_def Op_EntrypointOffset_def Op_Bfi_def Op_Bfe_def Op_Sbfe_def Op_Select_def
    Op_Extr_def Op_VExtractToGPR_def Op_FCmp_def Op_GetHostFlag_def Op_ExtractElementPair_def Op_LoadContext_def
    Op_LoadFlag_def Op_LoadMem_def Let_def split: sum.splits)

section \<open>Clean cells\<close>

text \<open>The bytes of a cell that the node's handler writes; an operation without a result writes none.\<close>

fun written_bytes :: "(node_id \<Rightarrow> nat) \<Rightarrow> nat \<Rightarrow> nat \<Rightarrow> ir_op \<Rightarrow> nat" where
  "written_bytes szs sz el (IR_Fetch o' v a) = 8"
| "written_bytes szs sz el (IR_AtomicFetchNeg a) = 8"
| "written_bytes szs sz el (IR_CAS e d a) = 8"
| "written_bytes szs sz el (IR_CASPair e d a) = 2 * el"
| "written_bytes szs sz el ir = (if HasSideEffects ir then 0 else cell_bytes szs sz el ir)"

definition cell_ok :: "(node_id \<Rightarrow> nat) \<Rightarrow> ir_node \<Rightarrow> slot \<Rightarrow> bool" where
  "cell_ok szs nd d \<longleftrightarrow> put_bytes (written_bytes szs (Size nd) (ElementSize nd) (Op nd)) 0 d = d"

definition clean :: "(node_id \<Rightarrow> nat) \<Rightarrow> code \<Rightarrow> istate \<Rightarrow> bool" where
  "clean szs xs s \<longleftrightarrow> (\<forall>(n, nd) \<in> set xs. cell_ok szs nd (SSAData s n))"

definition value_of :: "(node_id \<Rightarrow> nat) \<Rightarrow> istate \<Rightarrow> ir_node \<Rightarrow> slot result option" where
  "value_of szs s nd = exec_value szs s (Size nd) (ElementSize nd) 0 (Op nd)"

lemma cell_ok_0 [simp]: "cell_ok szs nd 0"
  by (simp add: cell_ok_def put_bytes_def)

lemma put_bytes_twice: "put_bytes k (put_bytes k 0 d) v = put_bytes k 0 v"
  by (rule bit_word_eqI) (simp add: bit_simps)

lemma written_bytes_value: "\<not> HasSideEffects ir \<Longrightarrow> written_bytes szs sz el ir = cell_bytes szs sz el ir"
  by (cases ir) simp_all

lemma exec_value_clean:
  assumes "cell_ok szs nd d"
  shows "exec_value szs s (Size nd) (ElementSize nd) d (Op nd) = value_of szs s nd"
proof (cases "HasSideEffects (Op nd)")
  case True
  then show ?thesis by (simp add: value_of_def value_side_effect_free)
next
  case False
  let ?k = "cell_bytes szs (Size nd) (ElementSize nd) (Op nd)"
  have d: "put_bytes ?k 0 d = d" using assms False by (simp add: cell_ok_def written_bytes_value)
  have "put_bytes ?k d w = put_bytes ?k 0 w" for w by (subst d [symmetric]) (rule put_bytes_twice)
  then have "put_bytes ?k d = put_bytes ?k 0" by (rule ext)
  then show ?thesis unfolding value_of_def by (metis exec_value_cell)
qed

lemma value_of_clean:
  assumes "value_of szs s nd = Some (Inr v)"
  shows "cell_ok szs nd v"
proof -
  have "\<not> HasSideEffects (Op nd)" using assms value_side_effect_free by (fastforce simp: value_of_def)
  moreover have "v = put_bytes (cell_bytes szs (Size nd) (ElementSize nd) (Op nd)) 0 v"
    using assms exec_value_cell [of szs s "Size nd" "ElementSize nd" 0 "Op nd"] by (auto simp: value_of_def)
  ultimately show ?thesis by (simp add: cell_ok_def written_bytes_value)
qed

lemma exec_node_value:
  assumes "Fault s = None" "cell_ok szs nd (SSAData s n)"
  shows "exec_node szs n nd s = (case value_of szs s nd of
      Some (Inr v) \<Rightarrow> set_slot n v s
    | Some (Inl e) \<Rightarrow> set_fault e s
    | None \<Rightarrow> exec_effect s n (Size nd) (ElementSize nd) (Op nd))"
  using assms by (simp add: exec_node_def exec_value_clean)

lemma put_bytes_keep: "put_bytes k 0 d = d \<Longrightarrow> put_bytes k 0 (put_bytes k d v) = put_bytes k d v"
  by (metis put_bytes_again put_bytes_twice)

lemma exec_effect_clean:
  assumes "cell_ok szs nd (SSAData s n)"
  shows "cell_ok szs nd (SSAData (exec_effect s n (Size nd) (ElementSize nd) (Op nd)) n)"
  using assms
  by (cases "Op nd") (auto simp: cell_ok_def set_ctx_result_def set_mem_result_def set_fetch_result_def set_fault_def
      set_slot_def put_bytes_keep split: sum.splits bool.splits)

lemma effect_cell_frame: "i \<noteq> n \<Longrightarrow> SSAData (exec_effect s n sz el ir) i = SSAData s i"
  by (cases ir) (auto simp: set_ctx_result_def set_mem_result_def set_fetch_result_def set_fault_def set_slot_def
      split: sum.splits bool.splits)

lemma node_cell_frame: "i \<noteq> n \<Longrightarrow> SSAData (exec_node szs n nd s) i = SSAData s i"
  by (auto simp: exec_node_def effect_cell_frame set_fault_def set_slot_def split: option.splits sum.splits)

lemma exec_node_clean:
  assumes "cell_ok szs nd (SSAData s n)"
  shows "cell_ok szs nd (SSAData (exec_node szs n nd s) n)"
proof (cases "Fault s = None")
  case True
  then show ?thesis
    using exec_node_value [OF True assms] exec_effect_clean [OF assms] value_of_clean assms
    by (auto simp: set_slot_def set_fault_def split: option.splits sum.splits)
qed (use assms in \<open>simp add: exec_node_def\<close>)

lemma run_block_frame: "i \<notin> fst ` set xs \<Longrightarrow> SSAData (run_block szs xs s) i = SSAData s i"
  by (induction szs xs s rule: run_block.induct) (auto simp: Let_def node_cell_frame)

lemma run_block_clean:
  assumes "distinct (map fst xs)" "set xs \<subseteq> set zs" "clean szs zs s" "distinct (map fst zs)"
  shows "clean szs zs (run_block szs xs s)"
  using assms(1-3)
proof (induction szs xs s rule: run_block.induct)
  case (1 szs s)
  then show ?case by simp
next
  case (2 szs n nd rest s)
  have "cell_ok szs md (SSAData (exec_node szs n nd s) k)" if "(k, md) \<in> set zs" for k md
  proof (cases "k = n")
    case True
    then have "md = nd" using that 2(3) assms(4) by (auto simp: distinct_map inj_on_def) fastforce
    then show ?thesis using True that 2(4) exec_node_clean [of szs nd s n] by (auto simp: clean_def)
  next
    case False
    then show ?thesis using that 2(4) by (auto simp: clean_def node_cell_frame)
  qed
  then have "clean szs zs (exec_node szs n nd s)" by (auto simp: clean_def)
  then show ?case using 2(1,2,3) by (auto simp: Let_def)
qed

section \<open>The width of a value\<close>

text \<open>The number of bytes that the value of a node can occupy; loads zero-extend.\<close>

definition op_width :: "ir_node \<Rightarrow> nat" where
  "op_width nd =
     (case Op nd of
        IR_LoadContext off \<Rightarrow> Size nd
      | IR_LoadContextIndexed i base stride \<Rightarrow> Size nd
      | IR_LoadMem a off ty scale \<Rightarrow> Size nd
      | IR_VExtractToGPR v i \<Rightarrow> max 8 (ElementSize nd)
      | ir \<Rightarrow> cell_bytes (\<lambda>_. 0) (Size nd) (ElementSize nd) ir)"

definition fits :: "nat \<Rightarrow> slot \<Rightarrow> bool" where
  "fits n v \<longleftrightarrow> put_bytes n 0 v = v"

lemma fits_put: "k \<le> n \<Longrightarrow> fits n (put_bytes k 0 v)"
  unfolding fits_def by (rule bit_word_eqI) (auto simp: bit_simps)

lemma fits_mono: "fits k v \<Longrightarrow> k \<le> n \<Longrightarrow> fits n v"
  by (metis fits_def fits_put)

lemma fits_load: "n \<le> 16 \<Longrightarrow> fits n (GD 0 (ucast (gather g n)))" "n \<le> 16 \<Longrightarrow> fits n (put_bytes k 0 (gather g n))"
  unfolding fits_def GD_def by (rule bit_word_eqI; auto simp: bit_simps)+

lemma fits_loads:
  "n \<le> 16 \<Longrightarrow> fits n (GD 0 (ucast (mem_load m a n)))" "n \<le> 16 \<Longrightarrow> fits n (put_bytes k 0 (mem_load m a n))"
  "n \<le> 16 \<Longrightarrow> fits n (GD 0 (ucast (ctx_load c off n)))" "n \<le> 16 \<Longrightarrow> fits n (put_bytes k 0 (ctx_load c off n))"
  by (simp_all only: mem_load_def ctx_load_def fits_load)

lemma value_fits:
  assumes "value_of szs s nd = Some (Inr v)"
  shows "fits (op_width nd) v"
proof -
  let ?k = "cell_bytes szs (Size nd) (ElementSize nd) (Op nd)"
  have cell: "fits ?k v"
    using assms exec_value_cell [of szs s "Size nd" "ElementSize nd" 0 "Op nd"]
    by (auto simp: value_of_def fits_def)
  show ?thesis
  proof (cases "Op nd")
    case (IR_VExtractToGPR w i)
    then show ?thesis using cell fits_mono [OF cell, of "op_width nd"] by (auto simp: op_width_def split: if_splits)
  next
    case (IR_Un u a)
    then show ?thesis using cell by (cases u) (simp_all add: op_width_def)
  next
    case (IR_LoadMem a off ty scale)
    then show ?thesis using assms fits_loads(1,2)
      by (auto simp: value_of_def op_width_def Op_LoadMem_def split: if_splits)
  next
    case (IR_LoadContext off)
    then show ?thesis using assms fits_loads(3,4)
      by (auto simp: value_of_def op_width_def Op_LoadContext_def split: if_splits)
  next
    case (IR_LoadContextIndexed i base stride)
    then show ?thesis using assms fits_loads(3,4)
      by (auto simp: value_of_def op_width_def Op_LoadContext_def split: if_splits)
  qed (use cell in \<open>simp_all add: op_width_def\<close>)
qed

end
