(* ===== verification/IR_Local.thy ===== *)
theory IR_Local
  imports IR_Values
begin

text \<open>
  Rewriting inside a block. In code whose arguments are defined earlier in the same block, a node may be
  replaced by others when the value that its users see stays the same; the proof runs the old and the new
  block side by side. The facts a rewrite may use are what the nodes before it computed.
\<close>

section \<open>Renaming arguments\<close>

fun map_args :: "(node_id \<Rightarrow> node_id) \<Rightarrow> ir_op \<Rightarrow> ir_op" where
  "map_args f (IR_Un u a) = IR_Un u (f a)"
| "map_args f (IR_Bin b x y) = IR_Bin b (f x) (f y)"
| "map_args f (IR_Long b l u v) = IR_Long b (f l) (f u) (f v)"
| "map_args f (IR_Bfi w lsb a b) = IR_Bfi w lsb (f a) (f b)"
| "map_args f (IR_Bfe w lsb a) = IR_Bfe w lsb (f a)"
| "map_args f (IR_Sbfe w lsb a) = IR_Sbfe w lsb (f a)"
| "map_args f (IR_Select c a b x y cs) = IR_Select c (f a) (f b) (f x) (f y) cs"
| "map_args f (IR_Extr u l lsb) = IR_Extr (f u) (f l) lsb"
| "map_args f (IR_VExtractToGPR v i) = IR_VExtractToGPR (f v) i"
| "map_args f (IR_FCmp es a b fl) = IR_FCmp es (f a) (f b) fl"
| "map_args f (IR_GetHostFlag a fl) = IR_GetHostFlag (f a) fl"
| "map_args f (IR_ExtractElementPair a i) = IR_ExtractElementPair (f a) i"
| "map_args f (IR_StoreContext v off) = IR_StoreContext (f v) off"
| "map_args f (IR_LoadContextIndexed i base stride) = IR_LoadContextIndexed (f i) base stride"
| "map_args f (IR_StoreContextIndexed v i base stride) = IR_StoreContextIndexed (f v) (f i) base stride"
| "map_args f (IR_StoreFlag v fl) = IR_StoreFlag (f v) fl"
| "map_args f (IR_LoadMem a off ty scale) = IR_LoadMem (f a) (map_option f off) ty scale"
| "map_args f (IR_StoreMem v a off ty scale) = IR_StoreMem (f v) (f a) (map_option f off) ty scale"
| "map_args f (IR_CacheLineZero a) = IR_CacheLineZero (f a)"
| "map_args f (IR_Atomic o' v a) = IR_Atomic o' (f v) (f a)"
| "map_args f (IR_Fetch o' v a) = IR_Fetch o' (f v) (f a)"
| "map_args f (IR_AtomicFetchNeg a) = IR_AtomicFetchNeg (f a)"
| "map_args f (IR_CAS e d a) = IR_CAS (f e) (f d) (f a)"
| "map_args f (IR_CASPair e d a) = IR_CASPair (f e) (f d) (f a)"
| "map_args f (IR_CondJump c a b x y cs) = IR_CondJump c (f a) (f b) x y cs"
| "map_args f (IR_ExitFunction rip) = IR_ExitFunction (f rip)"
| "map_args f ir = ir"

text \<open>The arguments that are values, without the target blocks of a branch.\<close>

fun value_args :: "ir_op \<Rightarrow> node_id list" where
  "value_args (IR_Jump t) = []"
| "value_args (IR_CondJump c a b t f cs) = [a, b]"
| "value_args ir = op_args ir"

definition map_node :: "(node_id \<Rightarrow> node_id) \<Rightarrow> ir_node \<Rightarrow> ir_node" where
  "map_node f nd = nd\<lparr>Op := map_args f (Op nd)\<rparr>"

definition map_code :: "(node_id \<Rightarrow> node_id) \<Rightarrow> code \<Rightarrow> code" where
  "map_code f xs = map (map_prod id (map_node f)) xs"

lemma map_node_sel [simp]:
  "Size (map_node f nd) = Size nd" "ElementSize (map_node f nd) = ElementSize nd"
  "Op (map_node f nd) = map_args f (Op nd)"
  by (simp_all add: map_node_def)

lemma map_code_simps [simp]:
  "map_code f [] = []" "map_code f ((n, nd) # xs) = (n, map_node f nd) # map_code f xs"
  "map_code f (xs @ ys) = map_code f xs @ map_code f ys"
  by (simp_all add: map_code_def)

lemma length_map_code [simp]: "length (map_code f xs) = length xs"
  by (simp add: map_code_def)

lemma map_code_ids [simp]: "map fst (map_code f xs) = map fst xs" "fst ` set (map_code f xs) = fst ` set xs"
  by (simp_all add: map_code_def image_image)

lemma map_args_effects [simp]: "HasSideEffects (map_args f ir) = HasSideEffects ir"
  by (cases ir) simp_all

lemma value_args_map [simp]: "value_args (map_args f ir) = map f (value_args ir)"
  by (cases ir) (simp_all split: option.splits)

lemma map_args_cong: "(\<And>a. a \<in> set (value_args ir) \<Longrightarrow> f a = g a) \<Longrightarrow> map_args f ir = map_args g ir"
  by (cases ir) (auto split: option.splits intro!: option.map_cong)

lemma map_args_id: "(\<And>a. a \<in> set (value_args ir) \<Longrightarrow> f a = a) \<Longrightarrow> map_args f ir = ir"
  by (cases ir) (auto split: option.splits intro!: option.map_ident_strong)

text \<open>The node whose size matters to a user: \<^verbatim>\<open>VExtractToGPR\<close> reads the size of its vector.\<close>

fun sized_arg :: "ir_op \<Rightarrow> node_id option" where
  "sized_arg (IR_VExtractToGPR v i) = Some v"
| "sized_arg ir = None"

definition same_values :: "(node_id \<Rightarrow> node_id) \<Rightarrow> node_id set \<Rightarrow> istate \<Rightarrow> istate \<Rightarrow> bool" where
  "same_values f D s t \<longleftrightarrow> agree UNIV s t \<and> (\<forall>n \<in> D. SSAData t (f n) = SSAData s n)"

lemma same_valuesD:
  assumes "same_values f D s t"
  shows "Context t = Context s" "Mem t = Mem s" "CurrentEntry t = CurrentEntry s" "Quit t = Quit s"
    "Redo t = Redo s" "Fault t = Fault s" "n \<in> D \<Longrightarrow> SSAData t (f n) = SSAData s n" "agree UNIV s t"
  using assms agreeD [of UNIV s t] by (auto simp: same_values_def)

lemma exec_value_map:
  assumes "same_values f D s t" "set (value_args ir) \<subseteq> D" "\<And>v. sized_arg ir = Some v \<Longrightarrow> szs' (f v) = szs v"
  shows "exec_value szs' t sz el d (map_args f ir) = exec_value szs s sz el d ir"
proof (cases ir)
  case (IR_LoadMem a off ty scale)
  then show ?thesis using same_valuesD [OF assms(1)] assms(2) by (cases off) auto
qed (use same_valuesD [OF assms(1)] assms(2,3) in auto)

lemma exec_effect_map:
  assumes "same_values f D s t" "set (value_args ir) \<subseteq> D" "SSAData t n = SSAData s n"
  shows "agree UNIV (exec_effect s n sz el ir) (exec_effect t n sz el (map_args f ir))"
    "SSAData (exec_effect t n sz el (map_args f ir)) n = SSAData (exec_effect s n sz el ir) n"
proof -
  note v = same_valuesD [OF assms(1)]
  note u = agree_updates [OF v(8)] agree_results(1,2) [OF v(8)]
  have "agree UNIV (s\<lparr>Context := c, Quit := q\<rparr>) (t\<lparr>Context := c, Quit := q\<rparr>)" for c q
    using agree_updates(6) [OF agree_updates(3) [OF v(8)]] by simp
  moreover have fetch: "agree UNIV (set_fetch_result n k r s) (set_fetch_result n k r t)" for k r
    using v assms(3) agree_updates(1) [OF v(8)] agree_updates(2) [OF agree_updates(4) [OF v(8)]]
    by (auto simp: set_fetch_result_def split: sum.splits)
  ultimately show "agree UNIV (exec_effect s n sz el ir) (exec_effect t n sz el (map_args f ir))"
  proof (cases ir)
    case (IR_StoreMem v' a off ty scale)
    then show ?thesis using u v assms(2) by (cases off) auto
  qed (use u v assms(2) in \<open>auto split: sum.splits bool.splits\<close>)
  show "SSAData (exec_effect t n sz el (map_args f ir)) n = SSAData (exec_effect s n sz el ir) n"
    using v assms(2,3)
    by (cases ir) (auto simp: set_ctx_result_def set_mem_result_def set_fetch_result_def set_fault_def set_slot_def
        split: sum.splits bool.splits)
qed

section \<open>Running renamed code\<close>

fun local_code :: "node_id set \<Rightarrow> code \<Rightarrow> bool" where
  "local_code D [] = True"
| "local_code D ((n, nd) # xs) \<longleftrightarrow> set (value_args (Op nd)) \<subseteq> D \<and> n \<notin> D \<and> local_code (insert n D) xs"

definition stopped :: "istate \<Rightarrow> bool" where
  "stopped s \<longleftrightarrow> Quit s \<or> Redo s \<noteq> None \<or> Fault s \<noteq> None"

lemma run_block_append:
  "\<not> stopped s \<Longrightarrow> run_block szs (xs @ ys) s
   = (if stopped (run_block szs xs s) then run_block szs xs s else run_block szs ys (run_block szs xs s))"
  by (induction szs xs s rule: run_block.induct) (auto simp: Let_def stopped_def)

lemma local_code_append: "local_code D (xs @ ys) \<longleftrightarrow> local_code D xs \<and> local_code (fst ` set xs \<union> D) ys"
  by (induction D xs rule: local_code.induct) auto

lemma local_code_ids: "local_code D xs \<Longrightarrow> distinct (map fst xs) \<and> fst ` set xs \<inter> D = {}"
  by (induction D xs rule: local_code.induct) auto

text \<open>Sizes agree where they are read.\<close>

definition sizes_agree ::
  "(node_id \<Rightarrow> node_id) \<Rightarrow> (node_id \<Rightarrow> nat) \<Rightarrow> (node_id \<Rightarrow> nat) \<Rightarrow> code \<Rightarrow> bool" where
  "sizes_agree f szs szs' xs \<longleftrightarrow> (\<forall>(n, nd) \<in> set xs. \<forall>v. sized_arg (Op nd) = Some v \<longrightarrow> szs' (f v) = szs v)"

lemma put_bytes_none: "put_bytes 0 d v = d"
  by (rule bit_word_eqI) (simp add: bit_simps)

lemma exec_effect_zero:
  assumes "cell_ok szs nd (SSAData s n)" "HasSideEffects (Op nd)" "n \<notin> set (value_args (Op nd))"
    "Fault (exec_effect s n (Size nd) (ElementSize nd) (Op nd)) = None
     \<or> Fault (exec_effect (set_slot n 0 s) n (Size nd) (ElementSize nd) (Op nd)) = None" "Fault s = None"
  shows "exec_effect (set_slot n 0 s) n (Size nd) (ElementSize nd) (Op nd) = exec_effect s n (Size nd) (ElementSize nd) (Op nd)"
proof -
  let ?k = "written_bytes (\<lambda>_. 0) (Size nd) (ElementSize nd) (Op nd)"
  have d: "put_bytes ?k 0 (SSAData s n) = SSAData s n"
    using assms(1,2) by (cases "Op nd") (simp_all add: cell_ok_def)
  have same: "put_bytes ?k (SSAData s n) v = put_bytes ?k 0 v" for v
    by (subst d [symmetric]) (rule put_bytes_twice)
  have z: "set_slot n 0 s = s" if "?k = 0"
  proof -
    have "(SSAData s)(n := 0) = SSAData s" using d that by (simp add: put_bytes_none fun_upd_idem_iff)
    then show ?thesis by (simp add: set_slot_def)
  qed
  show ?thesis
    using assms(2-5) same z
    by (cases "Op nd") (auto simp: set_fetch_result_def set_fault_def set_slot_def split: sum.splits)
qed

lemma same_values_zero:
  assumes "same_values f D s t" "n \<notin> D" "n \<notin> f ` D"
  shows "same_values f D (set_slot n 0 s) (set_slot n 0 t)"
  using assms agree_updates(2) [of UNIV s t n 0] by (auto simp: same_values_def set_slot_def)

lemma exec_node_renamed:
  assumes "same_values f D s t" "set (value_args (Op nd)) \<subseteq> D" "\<And>v. sized_arg (Op nd) = Some v \<Longrightarrow> szs' (f v) = szs v"
    "cell_ok szs nd (SSAData s n)" "cell_ok szs' (map_node f nd) (SSAData t n)" "Fault s = None"
    "f n = n" "n \<notin> D" "n \<notin> f ` D" "Fault (exec_node szs n nd s) = None"
  shows "same_values f (insert n D) (exec_node szs n nd s) (exec_node szs' n (map_node f nd) t)"
proof -
  note v = same_valuesD [OF assms(1)]
  have ft: "Fault t = None" using v(6) assms(6) by simp
  note ns = exec_node_value [OF assms(6,4)] and nt = exec_node_value [OF ft assms(5)]
  have val: "value_of szs' t (map_node f nd) = value_of szs s nd"
    using exec_value_map [where szs = szs and szs' = szs', OF assms(1-3)] by (simp add: value_of_def)
  have frame: "SSAData (exec_node szs n nd s) a = SSAData s a"
    "SSAData (exec_node szs' n (map_node f nd) t) (f a) = SSAData t (f a)" if "a \<in> D" for a
    using that assms(8,9) by (auto intro!: node_cell_frame)
  have "agree UNIV (exec_node szs n nd s) (exec_node szs' n (map_node f nd) t)
    \<and> SSAData (exec_node szs' n (map_node f nd) t) n = SSAData (exec_node szs n nd s) n"
  proof (cases "HasSideEffects (Op nd)")
    case False
    then obtain x where "value_of szs s nd = Some (Inr x)"
      using side_effect_free_value [OF False, of szs s "Size nd" "ElementSize nd" 0] assms(10) ns
      by (auto simp: value_of_def set_fault_def split: sum.splits option.splits)
    then show ?thesis using ns nt val agree_updates(2) [OF v(8)] by (simp add: set_slot_def)
  next
    case True
    then have none: "value_of szs s nd = None" by (simp add: value_of_def value_side_effect_free)
    let ?e = "\<lambda>s ir. exec_effect s n (Size nd) (ElementSize nd) ir"
    have zs: "?e (set_slot n 0 s) (Op nd) = ?e s (Op nd)"
      by (rule exec_effect_zero [OF assms(4) True]) (use assms(2,6,8,10) ns none in auto)
    note m = exec_effect_map [OF same_values_zero [OF assms(1,8,9)] assms(2), of n "Size nd" "ElementSize nd"]
    have mm: "agree UNIV (?e s (Op nd)) (?e (set_slot n 0 t) (map_args f (Op nd)))"
      "SSAData (?e (set_slot n 0 t) (map_args f (Op nd))) n = SSAData (?e s (Op nd)) n"
      using m zs by (simp_all add: set_slot_def)
    have "?e (set_slot n 0 t) (map_args f (Op nd)) = ?e t (map_args f (Op nd))"
      by (rule exec_effect_zero [OF assms(5), simplified])
        (use True assms(2,6,8,9,10) ns none ft agreeD(6) [OF mm(1)] in auto)
    then show ?thesis using ns nt val none mm by simp
  qed
  then show ?thesis using frame v(7) assms(7) by (auto simp: same_values_def)
qed

lemma clean_Cons: "clean szs ((n, nd) # xs) s \<longleftrightarrow> cell_ok szs nd (SSAData s n) \<and> clean szs xs s"
  by (simp add: clean_def)

lemma clean_append: "clean szs (xs @ ys) s \<longleftrightarrow> clean szs xs s \<and> clean szs ys s"
  by (auto simp: clean_def)

lemma clean_frame:
  "(\<And>n. n \<in> fst ` set xs \<Longrightarrow> SSAData t n = SSAData s n) \<Longrightarrow> clean szs xs t = clean szs xs s"
  by (force simp: clean_def)

lemma clean_other: "n \<notin> fst ` set xs \<Longrightarrow> clean szs xs s \<Longrightarrow> clean szs xs (exec_node szs' n nd s)"
  by (subst clean_frame [of xs _ s]) (auto intro!: node_cell_frame)

lemma sizes_agree_simps [simp]:
  "sizes_agree f szs szs' []"
  "sizes_agree f szs szs' ((n, nd) # xs)
   \<longleftrightarrow> (\<forall>v. sized_arg (Op nd) = Some v \<longrightarrow> szs' (f v) = szs v) \<and> sizes_agree f szs szs' xs"
  "sizes_agree f szs szs' (xs @ ys) \<longleftrightarrow> sizes_agree f szs szs' xs \<and> sizes_agree f szs szs' ys"
  by (auto simp: sizes_agree_def)

lemma run_block_renamed:
  assumes "same_values f D s t" "local_code D xs" "sizes_agree f szs szs' xs"
    "clean szs xs s" "clean szs' (map_code f xs) t" "\<And>n. n \<in> fst ` set xs \<Longrightarrow> f n = n \<and> n \<notin> f ` D"
    "\<not> stopped s" "Fault (run_block szs xs s) = None"
  shows "agree UNIV (run_block szs xs s) (run_block szs' (map_code f xs) t)
    \<and> (\<not> stopped (run_block szs xs s)
       \<longrightarrow> same_values f (fst ` set xs \<union> D) (run_block szs xs s) (run_block szs' (map_code f xs) t))"
  using assms
proof (induction xs arbitrary: D s t)
  case Nil
  then show ?case by (simp add: same_values_def)
next
  case (Cons x xs)
  obtain n nd where x: "x = (n, nd)" by fastforce
  let ?s = "exec_node szs n nd s" and ?t = "exec_node szs' n (map_node f nd) t"
  have fs: "Fault s = None" "Fault ?s = None"
    using Cons.prems(7,8) x by (auto simp: stopped_def Let_def split: if_splits)
  have n: "f n = n" "n \<notin> f ` D" "n \<notin> D" "n \<notin> fst ` set xs"
    using Cons.prems(2,6) x local_code_ids [of D "x # xs"] by auto
  have cl: "cell_ok szs nd (SSAData s n)" "cell_ok szs' (map_node f nd) (SSAData t n)" "clean szs xs s"
    "clean szs' (map_code f xs) t"
    using Cons.prems(4,5) x by (simp_all add: clean_Cons)
  have sv: "same_values f (insert n D) ?s ?t"
    by (rule exec_node_renamed [OF Cons.prems(1) _ _ cl(1,2) fs(1) n(1,3,2) fs(2)]) (use Cons.prems(2,3) x in auto)
  note vis = same_valuesD [OF sv]
  show ?case
  proof (cases "stopped ?s")
    case True
    then show ?thesis using vis x by (auto simp: Let_def stopped_def)
  next
    case False
    have cl': "clean szs xs ?s" "clean szs' (map_code f xs) ?t"
      using clean_other [OF n(4) cl(3)] clean_other [of n "map_code f xs", OF _ cl(4)] n(4) by simp_all
    have ids: "f k = k \<and> k \<notin> f ` insert n D" if "k \<in> fst ` set xs" for k
      using that Cons.prems(6) [of k] x n(1,4) by auto
    have go: "run_block szs (x # xs) s = run_block szs xs ?s"
      "run_block szs' (map_code f (x # xs)) t = run_block szs' (map_code f xs) ?t"
      using False vis x by (auto simp: Let_def stopped_def)
    show ?thesis
      unfolding go using Cons.IH [OF sv _ _ cl' ids False] Cons.prems(2,3,8) x go(1) by auto
  qed
qed

section \<open>What the nodes before a rewrite computed\<close>

fun pure_op :: "ir_op \<Rightarrow> bool" where
  "pure_op (IR_LoadContext off) = False"
| "pure_op (IR_LoadContextIndexed i base stride) = False"
| "pure_op (IR_LoadFlag fl) = False"
| "pure_op (IR_LoadMem a off ty scale) = False"
| "pure_op ir = (\<not> HasSideEffects ir)"

definition known :: "(node_id \<Rightarrow> nat) \<Rightarrow> code \<Rightarrow> istate \<Rightarrow> bool" where
  "known szs xs s \<longleftrightarrow> (\<forall>(n, nd) \<in> set xs.
     (pure_op (Op nd) \<longrightarrow> value_of szs s nd = Some (Inr (SSAData s n)))
     \<and> (\<not> HasSideEffects (Op nd) \<longrightarrow> fits (op_width nd) (SSAData s n)))"

lemma pure_op_free: "pure_op ir \<Longrightarrow> \<not> HasSideEffects ir"
  by (cases ir) simp_all

lemma value_of_pure:
  assumes "pure_op (Op nd)" "\<And>a. a \<in> set (value_args (Op nd)) \<Longrightarrow> SSAData t a = SSAData s a" "CurrentEntry t = CurrentEntry s"
  shows "value_of szs t nd = value_of szs s nd"
  using assms by (cases "Op nd") (auto simp: value_of_def)

lemma effect_CurrentEntry [simp]: "CurrentEntry (exec_effect s n sz el ir) = CurrentEntry s"
  by (cases ir) (auto simp: set_ctx_result_def set_mem_result_def set_fetch_result_def set_fault_def set_slot_def
      split: sum.splits bool.splits)

lemma node_CurrentEntry [simp]: "CurrentEntry (exec_node szs n nd s) = CurrentEntry s"
  by (auto simp: exec_node_def set_fault_def set_slot_def split: option.splits sum.splits)

lemma known_step:
  assumes "known szs ys s" "\<And>k md. (k, md) \<in> set ys \<Longrightarrow> n \<noteq> k \<and> n \<notin> set (value_args (Op md))"
    "n \<notin> set (value_args (Op nd))" "cell_ok szs nd (SSAData s n)" "Fault s = None" "Fault (exec_node szs n nd s) = None"
  shows "known szs (ys @ [(n, nd)]) (exec_node szs n nd s)"
proof -
  let ?s = "exec_node szs n nd s"
  have old: "value_of szs ?s md = Some (Inr (SSAData ?s k))" if "(k, md) \<in> set ys" "pure_op (Op md)" for k md
  proof -
    have "SSAData ?s a = SSAData s a" if "a = k \<or> a \<in> set (value_args (Op md))" for a
      using that assms(2) [OF \<open>(k, md) \<in> set ys\<close>] by (intro node_cell_frame) auto
    then show ?thesis using that assms(1) value_of_pure [OF that(2), of ?s s szs] by (auto simp: known_def)
  qed
  have "value_of szs ?s nd = Some (Inr (SSAData ?s n))" if p: "pure_op (Op nd)"
  proof -
    obtain v where v: "value_of szs s nd = Some (Inr v)"
      using side_effect_free_value [OF pure_op_free [OF p], of szs s "Size nd" "ElementSize nd" 0] assms(6)
        exec_node_value [OF assms(5,4)]
      by (auto simp: value_of_def set_fault_def split: sum.splits option.splits)
    then have "?s = set_slot n v s" using exec_node_value [OF assms(5,4)] by simp
    moreover have "value_of szs ?s nd = value_of szs s nd"
      by (rule value_of_pure [OF p]) (use assms(3) in \<open>auto intro!: node_cell_frame\<close>)
    ultimately show ?thesis using v by (simp add: set_slot_def)
  qed
  moreover have "fits (op_width md) (SSAData ?s k)" if "(k, md) \<in> set ys" "\<not> HasSideEffects (Op md)" for k md
    using that assms(1,2) node_cell_frame [of k n szs nd s] by (fastforce simp: known_def)
  moreover have "fits (op_width nd) (SSAData ?s n)" if p: "\<not> HasSideEffects (Op nd)"
  proof -
    obtain v where "value_of szs s nd = Some (Inr v)"
      using side_effect_free_value [OF p, of szs s "Size nd" "ElementSize nd" 0] assms(6) exec_node_value [OF assms(5,4)]
      by (auto simp: value_of_def set_fault_def split: sum.splits option.splits)
    then show ?thesis using exec_node_value [OF assms(5,4)] value_fits by (simp add: set_slot_def)
  qed
  ultimately show ?thesis using old by (auto simp: known_def)
qed

lemma local_args: "local_code D xs \<Longrightarrow> (n, nd) \<in> set xs \<Longrightarrow> set (value_args (Op nd)) \<subseteq> fst ` set xs \<union> D"
  by (induction D xs rule: local_code.induct) auto

lemma known_run:
  assumes "known szs ys s" "local_code D ys" "local_code (fst ` set ys \<union> D) xs" "clean szs xs s"
    "\<not> stopped s" "\<not> stopped (run_block szs xs s)"
  shows "known szs (ys @ xs) (run_block szs xs s)"
  using assms
proof (induction xs arbitrary: ys s)
  case Nil
  then show ?case by simp
next
  case (Cons x xs)
  obtain n nd where x: "x = (n, nd)" by fastforce
  let ?s = "exec_node szs n nd s"
  have go: "\<not> stopped ?s" "run_block szs (x # xs) s = run_block szs xs ?s"
    using Cons.prems(6) x by (auto simp: Let_def stopped_def split: if_splits)
  have n: "n \<notin> fst ` set ys \<union> D" "set (value_args (Op nd)) \<subseteq> fst ` set ys \<union> D"
    "local_code (insert n (fst ` set ys \<union> D)) xs"
    using Cons.prems(3) x by simp_all
  have "known szs (ys @ [(n, nd)]) ?s"
  proof (rule known_step [OF Cons.prems(1)])
    show "n \<noteq> k \<and> n \<notin> set (value_args (Op md))" if "(k, md) \<in> set ys" for k md
      using that n(1) local_args [OF Cons.prems(2) that] by (force)
  qed (use n go Cons.prems(4,5) x in \<open>auto simp: clean_Cons stopped_def\<close>)
  moreover have "local_code D (ys @ [(n, nd)])" using Cons.prems(2) n by (simp add: local_code_append)
  moreover have "clean szs xs ?s"
    using Cons.prems(4) x local_code_ids [OF n(3)] by (auto simp: clean_Cons intro!: clean_other)
  ultimately show ?case
    using Cons.IH [of "ys @ [(n, nd)]" ?s] n(3) go Cons.prems(6) x by simp
qed

section \<open>Rewriting a block\<close>

definition block_sim :: "(node_id \<Rightarrow> nat) \<Rightarrow> (node_id \<Rightarrow> nat) \<Rightarrow> code \<Rightarrow> code \<Rightarrow> bool" where
  "block_sim szs szs' xs ys \<longleftrightarrow> (\<forall>s t. agree UNIV s t \<longrightarrow> clean szs xs s \<longrightarrow> clean szs' ys t \<longrightarrow> \<not> stopped s
     \<longrightarrow> Fault (run_block szs xs s) = None \<longrightarrow> agree UNIV (run_block szs xs s) (run_block szs' ys t))"

lemma block_simI:
  assumes "\<And>s t. agree UNIV s t \<Longrightarrow> clean szs xs s \<Longrightarrow> clean szs' ys t \<Longrightarrow> \<not> stopped s \<Longrightarrow> \<not> stopped t
      \<Longrightarrow> Fault (run_block szs xs s) = None \<Longrightarrow> agree UNIV (run_block szs xs s) (run_block szs' ys t)"
  shows "block_sim szs szs' xs ys"
  unfolding block_sim_def
proof (intro allI impI)
  fix s t assume *: "agree UNIV s t" "clean szs xs s" "clean szs' ys t" "\<not> stopped s" "Fault (run_block szs xs s) = None"
  then have "\<not> stopped t" using agreeD(4-6) [OF *(1)] by (simp add: stopped_def)
  then show "agree UNIV (run_block szs xs s) (run_block szs' ys t)" using assms * by simp
qed

lemma block_simD:
  "block_sim szs szs' xs ys \<Longrightarrow> agree UNIV s t \<Longrightarrow> clean szs xs s \<Longrightarrow> clean szs' ys t \<Longrightarrow> \<not> stopped s
   \<Longrightarrow> Fault (run_block szs xs s) = None \<Longrightarrow> agree UNIV (run_block szs xs s) (run_block szs' ys t)"
  by (simp add: block_sim_def)

lemma block_sim_trans:
  assumes "block_sim szs szs' xs ys" "block_sim szs' szs'' ys zs"
  shows "block_sim szs szs'' xs zs"
proof (rule block_simI)
  fix s u assume *: "agree UNIV s u" "clean szs xs s" "clean szs'' zs u" "\<not> stopped s" "\<not> stopped u"
    "Fault (run_block szs xs s) = None"
  let ?t = "s\<lparr>SSAData := \<lambda>_. 0\<rparr>"
  have t: "agree UNIV s ?t" "clean szs' ys ?t" "\<not> stopped ?t"
    using *(4) by (auto intro!: agreeI simp: clean_def stopped_def)
  have "agree UNIV ?t u" using agreeD(1-6) [OF *(1)] by (intro agreeI) auto
  have 1: "agree UNIV (run_block szs xs s) (run_block szs' ys ?t)"
    by (rule block_simD [OF assms(1) t(1) *(2) t(2) *(4,6)])
  then have "Fault (run_block szs' ys ?t) = None" using agreeD(6) [OF 1] *(6) by simp
  then have "agree UNIV (run_block szs' ys ?t) (run_block szs'' zs u)"
    using block_simD [OF assms(2) \<open>agree UNIV ?t u\<close> t(2) *(3) t(3)] by simp
  with 1 show "agree UNIV (run_block szs xs s) (run_block szs'' zs u)" by (rule agree_trans)
qed

lemma map_code_id: "(\<And>n nd a. (n, nd) \<in> set xs \<Longrightarrow> a \<in> set (value_args (Op nd)) \<Longrightarrow> f a = a) \<Longrightarrow> map_code f xs = xs"
proof (induction xs)
  case (Cons x xs)
  obtain n nd where x: "x = (n, nd)" by fastforce
  have "map_args f (Op nd) = Op nd" using Cons.prems [of n nd] x by (intro map_args_id) simp
  then have "map_node f nd = nd" by (simp add: map_node_def)
  moreover have "map_code f xs = xs" by (rule Cons.IH) (use Cons.prems x in auto)
  ultimately show ?case using x by simp
qed simp

lemma clean_run: "fst ` set ys \<inter> fst ` set xs = {} \<Longrightarrow> clean szs xs s \<Longrightarrow> clean szs xs (run_block szs' ys s)"
  by (subst clean_frame [of xs _ s]) (auto intro!: run_block_frame)

lemma block_sim_refl:
  assumes "local_code {} xs" "sizes_agree id szs szs' xs"
  shows "block_sim szs szs' xs xs"
proof (rule block_simI)
  fix s t assume *: "agree UNIV s t" "clean szs xs s" "clean szs' xs t" "\<not> stopped s" "\<not> stopped t"
    "Fault (run_block szs xs s) = None"
  have "map_code id xs = xs" by (rule map_code_id) simp
  then show "agree UNIV (run_block szs xs s) (run_block szs' xs t)"
    using run_block_renamed [of id "{}" s t xs szs szs'] * assms by (simp add: same_values_def)
qed

text \<open>
  Replacing the result of a node \<open>n\<close> by that of \<open>k\<close>, which is computed before or by new nodes in the place of
  \<open>n\<close>; \<open>k\<close> may be \<open>n\<close> itself, with a new operation.
\<close>

lemma replace_node:
  fixes n k :: node_id and pre post news :: code
  defines "f \<equiv> (id :: node_id \<Rightarrow> node_id)(n := k)"
  assumes "local_code {} (pre @ (n, nd) # post)" "\<not> HasSideEffects (Op nd)"
    "local_code (fst ` set pre) news" "fst ` set news \<inter> fst ` set post = {}" "k \<in> fst ` set pre \<union> fst ` set news"
    "sizes_agree id szs szs' (pre @ [(n, nd)])" "sizes_agree f szs szs' post"
    "\<And>t v. known szs' pre t \<Longrightarrow> clean szs' news t \<Longrightarrow> \<not> stopped t \<Longrightarrow> value_of szs' t nd = Some (Inr v)
      \<Longrightarrow> agree (fst ` set news) t (run_block szs' news t) \<and> SSAData (run_block szs' news t) k = v"
  shows "block_sim szs szs' (pre @ (n, nd) # post) (pre @ news @ map_code f post)"
proof (rule block_simI)
  fix s t assume *: "agree UNIV s t" "clean szs (pre @ (n, nd) # post) s"
    "clean szs' (pre @ news @ map_code f post) t" "\<not> stopped s" "\<not> stopped t"
    "Fault (run_block szs (pre @ (n, nd) # post) s) = None"
  let ?s1 = "run_block szs pre s" and ?t1 = "run_block szs' pre t"
  have loc: "local_code {} pre" "set (value_args (Op nd)) \<subseteq> fst ` set pre" "n \<notin> fst ` set pre"
    "local_code (insert n (fst ` set pre)) post"
    using assms(2) by (simp_all add: local_code_append)
  have ids: "n \<notin> fst ` set post" "fst ` set pre \<inter> fst ` set post = {}" "fst ` set pre \<inter> fst ` set news = {}"
    using local_code_ids [OF loc(4)] local_code_ids [OF assms(4)] by auto
  have cs: "clean szs pre s" "cell_ok szs nd (SSAData s n)" "clean szs post s"
    using *(2) by (simp_all add: clean_append clean_Cons)
  have ct: "clean szs' pre t" "clean szs' news t" "clean szs' (map_code f post) t"
    using *(3) by (simp_all add: clean_append)
  have f1: "Fault ?s1 = None"
    using *(6) unfolding run_block_append [OF *(4)] by (auto simp: stopped_def split: if_splits)
  have mid: "map_code id pre = pre" by (rule map_code_id) simp
  have 1: "agree UNIV ?s1 ?t1" "\<not> stopped ?s1 \<Longrightarrow> same_values id (fst ` set pre) ?s1 ?t1"
    using run_block_renamed [of id "{}" s t pre szs szs'] *(1,4) f1 cs(1) ct(1) loc(1) assms(7)
    by (simp_all add: same_values_def mid)
  show "agree UNIV (run_block szs (pre @ (n, nd) # post) s) (run_block szs' (pre @ news @ map_code f post) t)"
  proof (cases "stopped ?s1")
    case True
    then show ?thesis
      using 1(1) agreeD(4-6) [OF 1(1)] run_block_append [OF *(4)] run_block_append [OF *(5)] by (simp add: stopped_def)
  next
    case False
    have st: "\<not> stopped ?t1" using False agreeD(4-6) [OF 1(1)] by (simp add: stopped_def)
    note sv = 1(2) [OF False]
    have c1: "cell_ok szs nd (SSAData ?s1 n)" "clean szs post ?s1" "clean szs' news ?t1" "clean szs' (map_code f post) ?t1"
      using cs(2,3) ct(2,3) ids loc(3) by (simp_all add: clean_run run_block_frame)
    have old: "run_block szs (pre @ (n, nd) # post) s = run_block szs ((n, nd) # post) ?s1"
      using run_block_append [OF *(4)] False by simp
    have fn: "Fault (exec_node szs n nd ?s1) = None" "Fault ?s1 = None"
      using *(6) False unfolding old by (auto simp: Let_def stopped_def split: if_splits)
    obtain v where v: "value_of szs ?s1 nd = Some (Inr v)"
      using side_effect_free_value [OF assms(3), of szs ?s1 "Size nd" "ElementSize nd" 0] fn exec_node_value [OF fn(2) c1(1)]
      by (auto simp: value_of_def set_fault_def split: sum.splits option.splits)
    have "map_args id (Op nd) = Op nd" by (rule map_args_id) simp
    then have vt: "value_of szs' ?t1 nd = Some (Inr v)"
      using exec_value_map [where szs = szs and szs' = szs' and ir = "Op nd", OF sv] loc(2) assms(7) v
      by (auto simp: value_of_def)
    have kn: "known szs' pre ?t1"
      using known_run [of szs' "[]" t "{}" pre] loc(1) ct(1) *(5) st by (simp add: known_def)
    let ?s2 = "set_slot n v ?s1" and ?t2 = "run_block szs' news ?t1"
    have 2: "agree (fst ` set news) ?t1 ?t2" "SSAData ?t2 k = v" using assms(9) [OF kn c1(3) st vt] by simp_all
    have s2: "exec_node szs n nd ?s1 = ?s2" using exec_node_value [OF fn(2) c1(1)] v by simp
    have ns: "\<not> stopped ?s2" "\<not> stopped ?t2"
      using False st agreeD(4-6) [OF 2(1)] by (simp_all add: stopped_def set_slot_def)
    have sv2: "same_values f (insert n (fst ` set pre)) ?s2 ?t2"
    proof -
      have "SSAData ?t2 (f a) = SSAData ?s2 a" if a: "a \<in> fst ` set pre" for a
      proof -
        have "a \<notin> fst ` set news" "a \<noteq> n" using a ids(3) loc(3) by blast+
        then show ?thesis
          using agreeD(7) [OF 2(1), of a] same_valuesD(7) [OF sv a] by (simp add: f_def set_slot_def)
      qed
      moreover have "agree UNIV ?s2 ?t2"
        using agreeD(1-6) [OF 2(1)] same_valuesD(1-6) [OF sv] by (intro agreeI) (simp_all add: set_slot_def)
      ultimately show ?thesis using 2(2) by (auto simp: same_values_def f_def set_slot_def)
    qed
    have c2: "clean szs post ?s2" "clean szs' (map_code f post) ?t2"
      using clean_other [OF ids(1) c1(2), of szs nd] s2 c1(4) assms(5) by (simp_all add: clean_run)
    have fresh: "f m = m \<and> m \<notin> f ` insert n (fst ` set pre)" if "m \<in> fst ` set post" for m
      using that ids loc(3) assms(5,6) by (auto simp: f_def)
    have old2: "run_block szs ((n, nd) # post) ?s1 = run_block szs post ?s2"
      using ns(1) s2 by (simp add: Let_def stopped_def)
    have "agree UNIV (run_block szs post ?s2) (run_block szs' (map_code f post) ?t2)"
      using run_block_renamed [OF sv2 loc(4) assms(8) c2 fresh ns(1)] *(6) old old2 by simp
    moreover have "run_block szs' (pre @ news @ map_code f post) t = run_block szs' (map_code f post) ?t2"
      using run_block_append [OF *(5)] run_block_append [OF st] st ns(2) by simp
    ultimately show ?thesis using old old2 by simp
  qed
qed

text \<open>A node with effects may be given another operation that does the same.\<close>

lemma run_block_same:
  assumes "\<And>t. known szs pre t \<Longrightarrow> \<not> stopped t \<Longrightarrow> exec_node szs n nd' t = exec_node szs n nd t"
    "local_code {} pre" "clean szs pre t" "\<not> stopped t"
  shows "run_block szs (pre @ (n, nd') # post) t = run_block szs (pre @ (n, nd) # post) t"
proof (cases "stopped (run_block szs pre t)")
  case True
  then show ?thesis by (simp add: run_block_append [OF assms(4)])
next
  case False
  have "known szs pre (run_block szs pre t)"
    using known_run [of szs "[]" t "{}" pre] assms(2-4) False by (simp add: known_def)
  then have "exec_node szs n nd' (run_block szs pre t) = exec_node szs n nd (run_block szs pre t)"
    using assms(1) False by blast
  then show ?thesis by (simp add: run_block_append [OF assms(4)])
qed

lemma replace_effect:
  assumes "local_code {} (pre @ (n, nd) # post)" "sizes_agree id szs szs' (pre @ (n, nd) # post)"
    "\<And>d. cell_ok szs' nd' d = cell_ok szs' nd d"
    "\<And>t. known szs' pre t \<Longrightarrow> \<not> stopped t \<Longrightarrow> exec_node szs' n nd' t = exec_node szs' n nd t"
  shows "block_sim szs szs' (pre @ (n, nd) # post) (pre @ (n, nd') # post)"
proof (rule block_simI)
  fix s t assume *: "agree UNIV s t" "clean szs (pre @ (n, nd) # post) s" "clean szs' (pre @ (n, nd') # post) t"
    "\<not> stopped s" "\<not> stopped t" "Fault (run_block szs (pre @ (n, nd) # post) s) = None"
  have c: "clean szs' (pre @ (n, nd) # post) t" "clean szs' pre t"
    using *(3) assms(3) by (simp_all add: clean_append clean_Cons)
  have "agree UNIV (run_block szs (pre @ (n, nd) # post) s) (run_block szs' (pre @ (n, nd) # post) t)"
    by (rule block_simD [OF block_sim_refl [OF assms(1,2)] *(1,2) c(1) *(4,6)])
  then show "agree UNIV (run_block szs (pre @ (n, nd) # post) s) (run_block szs' (pre @ (n, nd') # post) t)"
    using run_block_same [of szs' pre n nd' nd t post] assms(1,4) c(2) *(5) by (simp add: local_code_append)
qed

section \<open>Passes that rewrite block by block\<close>

locale local_pass =
  fixes wf :: "ir_list \<Rightarrow> bool" and run :: "ir_list \<Rightarrow> ir_list"
  assumes wf_run: "wf G \<Longrightarrow> wf (run G)"
    and wf_ids: "wf G \<Longrightarrow> unique_ids (Blocks G)"
    and block_ids: "wf G \<Longrightarrow> map fst (Blocks (run G)) = map fst (Blocks G)"
    and blocks_sim: "wf G \<Longrightarrow> i < length (Blocks G)
      \<Longrightarrow> block_sim (GetOpSize (Blocks G)) (GetOpSize (Blocks (run G))) (snd (Blocks G ! i)) (snd (Blocks (run G) ! i))"

lemma fault_start: "Fault (run_block szs xs s) = None \<Longrightarrow> Fault s = None"
  by (cases xs) (auto simp: Let_def exec_node_def split: if_splits)

lemma clean_sub: "clean szs ys s \<Longrightarrow> set xs \<subseteq> set ys \<Longrightarrow> clean szs xs s"
  by (auto simp: clean_def)

lemma clean_start [simp]: "clean szs xs (block_start s) = clean szs xs s"
  by (simp add: clean_def block_start_def)

lemma nth_distinct: "unique_ids F \<Longrightarrow> i < length F \<Longrightarrow> distinct (map fst (snd (F ! i)))"
proof (induction F arbitrary: i)
  case (Cons b F)
  then show ?case by (cases i) (auto simp: unique_ids_def)
qed simp

sublocale local_pass \<subseteq> pass: ir_pass wf run "\<lambda>G s t. agree UNIV s t \<and> clean (GetOpSize (Blocks G)) (all_code (Blocks G)) s
  \<and> clean (GetOpSize (Blocks (run G))) (all_code (Blocks (run G))) t"
proof
  fix G s t i
  let ?F = "Blocks G" and ?H = "Blocks (run G)"
  assume G: "wf G" and i: "i < length ?F"
    and r: "agree UNIV s t \<and> clean (GetOpSize ?F) (all_code ?F) s \<and> clean (GetOpSize ?H) (all_code ?H) t"
    and ok: "Fault (block_run ?F i s) = None"
  have j: "i < length ?H" using i block_ids [OF G] by (metis length_map)
  have ids: "unique_ids ?F" "unique_ids ?H" using wf_ids [OF G] wf_ids [OF wf_run [OF G]] by simp_all
  have ns: "\<not> stopped (block_start s)" using fault_start [OF ok] by (simp add: stopped_def block_start_def)
  have "agree UNIV (block_run ?F i s) (block_run ?H i t)"
    by (rule block_simD [OF blocks_sim [OF G i] _ _ _ ns ok])
      (use r agree_updates(7) [of UNIV s t] clean_sub [OF _ block_code [OF i]] clean_sub [OF _ block_code [OF j]] in auto)
  moreover have "clean (GetOpSize ?F) (all_code ?F) (block_run ?F i s)" "clean (GetOpSize ?H) (all_code ?H) (block_run ?H i t)"
    using r ids run_block_clean [OF nth_distinct [OF ids(1) i] block_code [OF i]]
      run_block_clean [OF nth_distinct [OF ids(2) j] block_code [OF j]] by (simp_all add: unique_ids_def)
  ultimately show "agree UNIV (block_run ?F i s) (block_run ?H i t)
      \<and> clean (GetOpSize ?F) (all_code ?F) (block_run ?F i s) \<and> clean (GetOpSize ?H) (all_code ?H) (block_run ?H i t)"
    by blast
qed (auto simp: wf_run block_ids clean_def boot_def)

end
