(* ===== verification/IR_Rewrite.thy ===== *)
theory IR_Rewrite
  imports IR_Local
begin

text \<open>
  The walk that the rewriting passes share: every node of every block is visited in order; the pass looks at
  the headers of its arguments in the current list and keeps the node, overwrites its operation, or emits new
  nodes after it and replaces all its uses (\<^verbatim>\<open>IREmitter::ReplaceAllUsesWith\<close>, \<^verbatim>\<open>ReplaceWithConstant\<close>,
  \<^verbatim>\<open>ReplaceNodeArgument\<close>). What a pass decides is a parameter; the locale states when its decisions are sound
  and derives that the walk keeps the meaning of the function.
\<close>

section \<open>The walk\<close>

datatype action =
    Keep
  | Overwrite ir_op
  | Replace code node_id

type_synonym headers = "node_id \<Rightarrow> ir_node option"
type_synonym decision = "code \<Rightarrow> headers \<Rightarrow> node_id \<Rightarrow> ir_node \<Rightarrow> action"

definition GetOpHeader :: "ir_function \<Rightarrow> headers" where
  "GetOpHeader F = map_of (all_code F)"

definition AddUse :: "node_id \<Rightarrow> uses \<Rightarrow> uses" where
  "AddUse n U = U(n := U n + 1)"

definition AddArgUses :: "ir_op \<Rightarrow> uses \<Rightarrow> uses" where
  "AddArgUses ir U = fold AddUse (op_args ir) U"

definition emit_uses :: "code \<Rightarrow> uses \<Rightarrow> uses" where
  "emit_uses news U = fold (\<lambda>(_, nd). AddArgUses (Op nd)) news U"

definition map_blocks :: "(node_id \<Rightarrow> node_id) \<Rightarrow> ir_function \<Rightarrow> ir_function" where
  "map_blocks f F = map (map_prod id (map_code f)) F"

text \<open>\<^verbatim>\<open>ReplaceAllUsesWith\<close>: all uses of \<open>n\<close> behind it move to \<open>m\<close>, then \<open>n\<close> is removed.\<close>

definition move_uses :: "node_id \<Rightarrow> node_id \<Rightarrow> nat \<Rightarrow> uses \<Rightarrow> uses" where
  "move_uses n m c U = (U(n := U n - c))(m := (U(n := U n - c)) m + c)"

function rewrite_code ::
  "decision \<Rightarrow> ir_function \<Rightarrow> node_id \<Rightarrow> code \<Rightarrow> code \<Rightarrow> ir_function \<Rightarrow> uses \<Rightarrow> node_id
   \<Rightarrow> code \<times> ir_function \<times> uses \<times> node_id \<times> bool" where
  "rewrite_code dc dn b pre [] rest U k = (pre, rest, U, k, False)"
| "rewrite_code dc dn b pre ((n, nd) # post) rest U k =
     (case dc pre (GetOpHeader (dn @ (b, pre @ (n, nd) # post) # rest)) k nd of
        Keep \<Rightarrow> rewrite_code dc dn b (pre @ [(n, nd)]) post rest U k
      | Overwrite ir \<Rightarrow>
          (case rewrite_code dc dn b (pre @ [(n, nd\<lparr>Op := ir\<rparr>)]) post rest (AddArgUses ir (RemoveArgUses nd U)) k of
             (ys, rest, U, k, Changed) \<Rightarrow> (ys, rest, U, k, True))
      | Replace news m \<Rightarrow>
          (let f = id(n := m); c = refs post n + refs (all_code rest) n;
               U = RemoveArgUses nd (move_uses n m c (emit_uses news U))
           in case rewrite_code dc dn b (pre @ news) (map_code f post) (map_blocks f rest) U (k + length news) of
                (ys, rest, U, k, Changed) \<Rightarrow> (ys, rest, U, k, True)))"
  by pat_completeness auto
termination
  by (relation "measure (\<lambda>(_, _, _, _, post, _, _, _). length post)") auto

lemma rewrite_code_rest: "rewrite_code dc dn b pre post rest U k = (ys, rest', r) \<Longrightarrow> length rest' = length rest"
  by (induction dc dn b pre post rest U k arbitrary: ys rest' r rule: rewrite_code.induct)
    (auto simp: Let_def map_blocks_def split: action.splits prod.splits)

function rewrite_blocks ::
  "decision \<Rightarrow> ir_function \<Rightarrow> ir_function \<Rightarrow> uses \<Rightarrow> node_id \<Rightarrow> ir_function \<times> uses \<times> node_id \<times> bool" where
  "rewrite_blocks dc dn [] U k = (dn, U, k, False)"
| "rewrite_blocks dc dn ((b, xs) # rest) U k =
     (case rewrite_code dc dn b [] xs rest U k of
        (ys, rest, U, k, Changed) \<Rightarrow>
          (case rewrite_blocks dc (dn @ [(b, ys)]) rest U k of
             (F, U, k, Changed') \<Rightarrow> (F, U, k, Changed \<or> Changed')))"
  by pat_completeness auto
termination
proof (relation "measure (\<lambda>(_, _, rest, _, _). length rest)", goal_cases)
  case (2 dc dn b xs rest U k ys y rest' ya U' yb k' Changed)
  then have "rewrite_code dc dn b [] xs rest U k = (ys, rest', ya)" by metis
  then show ?case by (simp add: rewrite_code_rest)
qed simp

definition rewrite_list :: "decision \<Rightarrow> ir_list \<Rightarrow> bool \<times> ir_list" where
  "rewrite_list dc G =
     (case rewrite_blocks dc [] (Blocks G) (NumUses G) (NextNode G) of
        (F, U, k, Changed) \<Rightarrow> (Changed, G\<lparr>Blocks := F, NumUses := U, NextNode := k\<rparr>))"

text \<open>A pass that only makes the decisions a guard admits.\<close>

definition guarded :: "(headers \<Rightarrow> ir_node \<Rightarrow> bool) \<Rightarrow> decision \<Rightarrow> decision" where
  "guarded p dc pre hdr k nd = (if p hdr nd then dc pre hdr k nd else Keep)"

section \<open>Well-formed lists\<close>

fun is_load :: "ir_op \<Rightarrow> bool" where
  "is_load (IR_LoadContext off) = True"
| "is_load (IR_LoadContextIndexed i base stride) = True"
| "is_load (IR_LoadMem a off ty scale) = True"
| "is_load ir = False"

definition vectors_ok :: "ir_function \<Rightarrow> bool" where
  "vectors_ok F \<longleftrightarrow> (\<forall>(n, nd) \<in> set (all_code F). \<forall>v. sized_arg (Op nd) = Some v
     \<longrightarrow> (\<exists>ld. map_of (all_code F) v = Some ld \<and> is_load (Op ld)))"

definition targets_ok :: "ir_function \<Rightarrow> node_id \<Rightarrow> bool" where
  "targets_ok F k \<longleftrightarrow> (\<forall>(n, nd) \<in> set (all_code F). \<forall>t \<in> op_targets (Op nd). t < k \<and> t \<notin> fst ` set (all_code F))"

definition function_ok :: "ir_function \<Rightarrow> node_id \<Rightarrow> bool" where
  "function_ok F k \<longleftrightarrow> unique_ids F \<and> (\<forall>b \<in> set F. local_code {} (snd b))
     \<and> (\<forall>n \<in> fst ` set (all_code F). n < k) \<and> vectors_ok F \<and> targets_ok F k"

text \<open>
  A function in which every value is used in the block that computes it, vectors come from loads, ids are
  unique and below \<open>NextNode\<close>, branch to blocks only, and uses are counted.
\<close>

definition ir_list_ok :: "ir_list \<Rightarrow> bool" where
  "ir_list_ok G \<longleftrightarrow> function_ok (Blocks G) (NextNode G) \<and> uses_ok G"

section \<open>Counting uses\<close>

lemma AddArgUses_count: "AddArgUses ir U n = U n + count_list (op_args ir) n"
proof -
  have "fold AddUse as U n = U n + count_list as n" for as
    by (induction as arbitrary: U) (auto simp: AddUse_def)
  then show ?thesis by (simp add: AddArgUses_def)
qed

lemma emit_uses_count: "emit_uses news U n = U n + refs news n"
  unfolding emit_uses_def by (induction news arbitrary: U) (auto simp: AddArgUses_count)

lemma op_args_map: "(\<And>t. t \<in> op_targets ir \<Longrightarrow> f t = t) \<Longrightarrow> op_args (map_args f ir) = map f (op_args ir)"
  by (cases ir) (simp_all split: option.splits)

lemma count_rename:
  assumes "n \<noteq> m"
  shows "count_list (map (id(n := m)) as) x
    = (if x = n then 0 else if x = m then count_list as m + count_list as n else count_list as x)"
  using assms by (induction as) auto

lemma refs_map_code:
  assumes f: "f = id(n := m)" and "n \<noteq> m" and "\<And>k nd. (k, nd) \<in> set xs \<Longrightarrow> n \<notin> op_targets (Op nd)"
  shows "refs (map_code f xs) x = (if x = n then 0 else if x = m then refs xs m + refs xs n else refs xs x)"
  using assms(3)
proof (induction xs)
  case (Cons y xs)
  obtain k nd where y: "y = (k, nd)" by fastforce
  have "n \<notin> op_targets (Op nd)" using Cons.prems y by auto
  then have args: "op_args (map_args f (Op nd)) = map f (op_args (Op nd))" by (intro op_args_map) (auto simp: f)
  have "refs (map_code f xs) x = (if x = n then 0 else if x = m then refs xs m + refs xs n else refs xs x)"
    by (rule Cons.IH) (use Cons.prems in auto)
  then show ?case
    using count_rename [OF assms(2), of "op_args (Op nd)" x, folded f] by (simp add: y args)
qed simp

lemma args_targets: "set (op_args ir) = set (value_args ir) \<union> op_targets ir"
  by (cases ir) (auto split: option.splits)

lemma refs_unused:
  assumes "\<And>k nd. (k, nd) \<in> set xs \<Longrightarrow> n \<notin> op_targets (Op nd) \<and> n \<notin> set (value_args (Op nd))"
  shows "refs xs n = 0"
  using assms by (fastforce simp: refs_0 args_targets)

section \<open>What a decision may rely on\<close>

text \<open>
  A set of nodes with known headers that contains the arguments of its members, and a state in which the
  computations among them have been made.
\<close>

definition closed :: "headers \<Rightarrow> node_id set \<Rightarrow> bool" where
  "closed hdr D \<longleftrightarrow> (\<forall>a \<in> D. \<exists>nd. hdr a = Some nd \<and> set (value_args (Op nd)) \<subseteq> D)"

definition computed :: "(node_id \<Rightarrow> nat) \<Rightarrow> headers \<Rightarrow> node_id set \<Rightarrow> istate \<Rightarrow> bool" where
  "computed szs hdr D t \<longleftrightarrow> (\<forall>a \<in> D. \<forall>nd. hdr a = Some nd \<longrightarrow>
     (pure_op (Op nd) \<longrightarrow> value_of szs t nd = Some (Inr (SSAData t a)))
     \<and> (\<not> HasSideEffects (Op nd) \<longrightarrow> fits (op_width nd) (SSAData t a)))"

definition visible :: "headers \<Rightarrow> code \<Rightarrow> node_id set \<Rightarrow> bool" where
  "visible hdr pre D \<longleftrightarrow> (\<forall>(a, md) \<in> set pre. hdr a = Some md \<and> a \<in> D)"

text \<open>Functions that correspond block by block.\<close>

definition sims :: "ir_function \<Rightarrow> ir_function \<Rightarrow> bool" where
  "sims F H \<longleftrightarrow> map fst F = map fst H
     \<and> (\<forall>i < length F. block_sim (GetOpSize F) (GetOpSize H) (snd (F ! i)) (snd (H ! i)))"

lemma sims_trans: "sims F G \<Longrightarrow> sims G H \<Longrightarrow> sims F H"
  using block_sim_trans map_eq_imp_length_eq [of fst F fst G] by (fastforce simp: sims_def)

lemma GetOpSize_header: "GetOpSize F n = (case GetOpHeader F n of None \<Rightarrow> 0 | Some nd \<Rightarrow> Size nd)"
  by (simp add: GetOpSize_def GetOpHeader_def all_code_def split: option.splits)

lemma sims_refl:
  assumes "function_ok F k"
  shows "sims F F"
proof -
  have "local_code {} (snd (F ! i))" if "i < length F" for i
    using assms that by (simp add: function_ok_def)
  then show ?thesis by (auto simp: sims_def sizes_agree_def intro!: block_sim_refl)
qed

definition walked :: "ir_function \<Rightarrow> ir_function \<Rightarrow> uses \<Rightarrow> node_id \<Rightarrow> bool" where
  "walked F H U k \<longleftrightarrow> sims F H \<and> function_ok H k \<and> (\<forall>x. U x = refs (all_code H) x)"

lemma walked_trans: "sims F G \<Longrightarrow> walked G H U k \<Longrightarrow> walked F H U k"
  by (auto simp: walked_def intro: sims_trans)

section \<open>One step of the walk\<close>

lemma local_code_rename:
  "local_code D xs \<Longrightarrow> (\<And>a. a \<in> D \<Longrightarrow> f a \<in> E) \<Longrightarrow> (\<And>a. a \<in> fst ` set xs \<Longrightarrow> f a = a \<and> a \<notin> E)
   \<Longrightarrow> local_code E (map_code f xs)"
proof (induction D xs arbitrary: E rule: local_code.induct)
  case (2 D n nd xs)
  have "local_code (insert n E) (map_code f xs)"
    by (rule 2(1)) (use 2(2-4) local_code_ids [OF 2(2)] in auto)
  then show ?case using 2(2-4) by auto
qed simp

lemma map_args_load [simp]: "is_load (map_args f ir) = is_load ir" "op_targets (map_args f ir) = op_targets ir"
  "sized_arg (map_args f ir) = map_option f (sized_arg ir)"
  by (cases ir; simp)+

lemma map_of_map_code: "map_of (map_code f xs) v = map_option (map_node f) (map_of xs v)"
  by (induction xs) auto

lemma no_targets: "\<not> HasSideEffects ir \<Longrightarrow> op_targets ir = {}"
  by (cases ir) simp_all

lemma function_okD:
  assumes "function_ok F k"
  shows "distinct (map fst (all_code F))" "\<And>b xs. (b, xs) \<in> set F \<Longrightarrow> local_code {} xs"
    "\<And>n nd. (n, nd) \<in> set (all_code F) \<Longrightarrow> n < k"
    "\<And>n nd v. (n, nd) \<in> set (all_code F) \<Longrightarrow> sized_arg (Op nd) = Some v
      \<Longrightarrow> \<exists>ld. map_of (all_code F) v = Some ld \<and> is_load (Op ld)"
    "\<And>n nd t. (n, nd) \<in> set (all_code F) \<Longrightarrow> t \<in> op_targets (Op nd) \<Longrightarrow> t < k \<and> t \<notin> fst ` set (all_code F)"
proof -
  note ok = assms [unfolded function_ok_def unique_ids_def vectors_ok_def targets_ok_def]
  show "distinct (map fst (all_code F))" using ok by blast
  show "local_code {} xs" if "(b, xs) \<in> set F" for b xs using ok that by fastforce
  show "n < k" if "(n, nd) \<in> set (all_code F)" for n nd using ok that by force
  show "\<exists>ld. map_of (all_code F) v = Some ld \<and> is_load (Op ld)"
    if "(n, nd) \<in> set (all_code F)" "sized_arg (Op nd) = Some v" for n nd v using ok that by fast
  show "t < k \<and> t \<notin> fst ` set (all_code F)"
    if "(n, nd) \<in> set (all_code F)" "t \<in> op_targets (Op nd)" for n nd t using ok that by fast
qed

text \<open>
  In a list of blocks a node \<open>n\<close> is replaced by nodes \<open>news\<close>, and its users behind it use \<open>m\<close>. Headers of other
  nodes change in their arguments only.
\<close>

lemma all_code_parts: "all_code (dn @ (b, xs) # rest) = all_code dn @ xs @ all_code rest"
  by (simp add: all_code_def)

lemma step_header:
  assumes "distinct (map fst (all_code (dn @ (b, pre @ (n, nd) # post) # rest)))" "v \<noteq> n" "v \<notin> fst ` set news"
  shows "\<exists>g \<in> {id, map_node f}. map_of (all_code (dn @ (b, pre @ news @ map_code f post) # rest)) v
    = map_option g (map_of (all_code (dn @ (b, pre @ (n, nd) # post) # rest)) v)"
proof (cases "v \<in> fst ` set post")
  case True
  have v: "v \<notin> fst ` set (all_code rest)" "v \<notin> fst ` set pre" "v \<notin> fst ` set (all_code dn)"
    using assms(1) True by (auto simp: all_code_parts)
  then have "map_of (all_code rest) v = None" "map_of pre v = None" "map_of (all_code dn) v = None" "map_of news v = None"
    using assms(3) by (auto simp: map_of_eq_None_iff)
  then show ?thesis using assms(2)
    by (intro bexI [of _ "map_node f"]) (simp_all add: all_code_parts map_add_def map_of_map_code split: option.splits)
next
  case False
  then have "map_of post v = None" "map_of news v = None" using assms(3) by (auto simp: map_of_eq_None_iff)
  then show ?thesis using assms(2)
    by (intro bexI [of _ id]) (simp_all add: all_code_parts map_add_def map_of_map_code option.map_id split: option.splits)
qed

lemma later_blocks:
  assumes "function_ok (dn @ (b, pre @ (n, nd) # post) # rest) k" "(b', xs) \<in> set dn \<union> set rest" "(x, md) \<in> set xs"
  shows "n \<notin> set (op_args (Op md))"
proof -
  note F = function_okD [OF assms(1)]
  have all: "(x, md) \<in> set (all_code (dn @ (b, pre @ (n, nd) # post) # rest))" and sub: "fst ` set xs \<subseteq> fst ` set (all_code (dn @ rest))"
    using assms(2,3) by (force simp: all_code_def)+
  have "n \<notin> fst ` set (all_code (dn @ rest))" using F(1) by (auto simp: all_code_def)
  moreover have "set (value_args (Op md)) \<subseteq> fst ` set xs" using local_args [OF F(2) assms(3)] assms(2) by auto
  moreover have "n \<notin> op_targets (Op md)" using F(5) [OF all] by (auto simp: all_code_parts)
  ultimately show ?thesis using sub args_targets [of "Op md"] by blast
qed

lemma map_blocks_other:
  assumes "\<And>b xs x md. (b, xs) \<in> set F \<Longrightarrow> (x, md) \<in> set xs \<Longrightarrow> n \<notin> set (op_args (Op md))"
  shows "map_blocks (id(n := m)) F = F" "refs (all_code F) n = 0"
proof -
  have "map_code (id(n := m)) xs = xs" if "(b, xs) \<in> set F" for b xs
    by (rule map_code_id) (use assms [OF that] in \<open>auto simp: args_targets\<close>)
  then show "map_blocks (id(n := m)) F = F" unfolding map_blocks_def by (intro map_idI) auto
  show "refs (all_code F) n = 0" using assms by (fastforce simp: refs_0 all_code_def)
qed

lemma step_function_ok:
  fixes dn rest :: ir_function and pre post news :: code and n m k k' b :: node_id and nd :: ir_node
  defines "f \<equiv> (id :: node_id \<Rightarrow> node_id)(n := m)"
  defines "F \<equiv> dn @ (b, pre @ (n, nd) # post) # rest" and "H \<equiv> dn @ (b, pre @ news @ map_code f post) # rest"
  assumes F: "function_ok F k" and k: "k \<le> k'"
    and ids: "distinct (map fst news)" "fst ` set news \<subseteq> insert n {k..<k'}"
    and loc: "local_code (fst ` set pre) news" "m \<in> fst ` set pre \<union> fst ` set news"
    and ops: "\<forall>(x, md) \<in> set news. sized_arg (Op md) = None \<and> op_targets (Op md) \<subseteq> op_targets (Op nd)"
    and loads: "is_load (Op nd) \<Longrightarrow> m = n \<and> (\<exists>md. map_of news n = Some md \<and> is_load (Op md) \<and> Size md = Size nd)"
  shows "function_ok H k'"
    "\<And>x md v. (x, md) \<in> set (all_code F) \<Longrightarrow> sized_arg (Op md) = Some v \<Longrightarrow> GetOpSize H (f v) = GetOpSize F v \<and> f v = v"
proof -
  note ok = function_okD [OF F]
  have new: "x = n \<or> k \<le> x \<and> x < k'" if "x \<in> fst ` set news" for x using ids(2) that by auto
  have old: "x < k" if "x \<in> fst ` set (all_code F)" for x using ok(3) that by auto
  have dist: "distinct (map fst (all_code F))" by (rule ok(1))
  have inF: "fst ` set (all_code F) = fst ` set (all_code dn) \<union> fst ` set pre \<union> insert n (fst ` set post) \<union> fst ` set (all_code rest)"
    and inH: "fst ` set (all_code H) = fst ` set (all_code dn) \<union> fst ` set pre \<union> fst ` set news \<union> fst ` set post \<union> fst ` set (all_code rest)"
    by (auto simp: F_def H_def all_code_parts image_Un)
  have apart: "fst ` set news \<inter> (fst ` set (all_code F) - {n}) = {}"
  proof -
    have False if "x \<in> fst ` set news" "x \<in> fst ` set (all_code F)" "x \<noteq> n" for x
      using new [OF that(1)] old [OF that(2)] that(3) by simp
    then show ?thesis by blast
  qed
  have parts: "n \<notin> fst ` set (all_code dn)" "n \<notin> fst ` set pre" "n \<notin> fst ` set post" "n \<notin> fst ` set (all_code rest)"
    using dist by (auto simp: F_def all_code_parts)
  have uniq: "distinct (map fst (all_code H))"
  proof -
    have "fst ` set news \<inter> fst ` set (all_code dn) = {}" "fst ` set news \<inter> fst ` set pre = {}"
      "fst ` set news \<inter> fst ` set post = {}" "fst ` set news \<inter> fst ` set (all_code rest) = {}"
      using apart parts unfolding inF by blast+
    then show ?thesis using dist ids(1) by (auto simp: F_def H_def all_code_parts)
  qed
  have block: "local_code {} (pre @ (n, nd) # post)" by (rule ok(2) [of b]) (simp add: F_def)
  then have post: "local_code (insert n (fst ` set pre)) post" by (simp add: local_code_append)
  have "local_code (fst ` set news \<union> fst ` set pre) (map_code f post)"
  proof (rule local_code_rename [OF post])
    show "f a \<in> fst ` set news \<union> fst ` set pre" if "a \<in> insert n (fst ` set pre)" for a
      using that loc(2) by (auto simp: f_def)
    show "f a = a \<and> a \<notin> fst ` set news \<union> fst ` set pre" if "a \<in> fst ` set post" for a
      using that parts apart local_code_ids [OF post] unfolding inF f_def by auto
  qed
  then have block': "local_code {} (pre @ news @ map_code f post)"
    using block loc(1) by (simp add: local_code_append Un_commute)
  have head: "\<exists>ld'. map_of (all_code H) v = Some ld' \<and> is_load (Op ld') \<and> Size ld' = Size ld \<and> f v = v"
    if v: "map_of (all_code F) v = Some ld" "is_load (Op ld)" for v ld
  proof (cases "v = n")
    case True
    have "map_of (all_code F) n = Some nd" using dist by (intro map_of_is_SomeI) (auto simp: F_def all_code_parts)
    then have "ld = nd" using v(1) True by simp
    moreover from this obtain md where md: "map_of news n = Some md" "is_load (Op md)" "Size md = Size nd" "m = n"
      using loads v(2) by auto
    have "(n, md) \<in> set (all_code H)" using map_of_SomeD [OF md(1)] by (simp add: H_def all_code_parts)
    ultimately show ?thesis using uniq md True by (intro exI [of _ md]) (simp add: f_def)
  next
    case False
    have "v \<in> fst ` set (all_code F)" using map_of_SomeD [OF v(1)] by force
    then have "v \<notin> fst ` set news" using apart False by blast
    then obtain g where "g \<in> {id, map_node f}" "map_of (all_code H) v = map_option g (map_of (all_code F) v)"
      using step_header [OF dist [unfolded F_def] False, of news f] unfolding F_def H_def by blast
    then show ?thesis using v False by (auto simp: f_def)
  qed
  show sized: "GetOpSize H (f v) = GetOpSize F v \<and> f v = v" if sz: "(x, md) \<in> set (all_code F)" "sized_arg (Op md) = Some v" for x md v
  proof -
    obtain ld where ld: "map_of (all_code F) v = Some ld" "is_load (Op ld)" using ok(4) [OF sz] by blast
    show ?thesis using head [OF ld] ld(1) by (auto simp: GetOpSize_header GetOpHeader_def)
  qed
  have node: "(x, md) \<in> set news \<or> (\<exists>od. (x, od) \<in> set (all_code F) \<and> (md = od \<or> md = map_node f od))"
    if "(x, md) \<in> set (all_code H)" for x md
  proof -
    have "\<exists>od. (x, od) \<in> set post \<and> md = map_node f od" if "(x, md) \<in> set (map_code f post)"
      using that by (auto simp: map_code_def)
    then show ?thesis using that by (auto simp: F_def H_def all_code_parts)
  qed
  have vec: "\<exists>ld. map_of (all_code H) v = Some ld \<and> is_load (Op ld)"
    if x: "(x, md) \<in> set (all_code H)" "sized_arg (Op md) = Some v" for x md v
  proof -
    obtain od where od: "(x, od) \<in> set (all_code F)" "md = od \<or> md = map_node f od"
      using node [OF x(1)] ops x(2) by auto
    then obtain w where w: "sized_arg (Op od) = Some w" "v = w \<or> v = f w" using x(2) by auto
    obtain ld where "map_of (all_code F) w = Some ld" "is_load (Op ld)" using ok(4) [OF od(1) w(1)] by blast
    then show ?thesis using head [of w ld] w(2) by auto
  qed
  have tgt: "t < k' \<and> t \<notin> fst ` set (all_code H)" if x: "(x, md) \<in> set (all_code H)" "t \<in> op_targets (Op md)" for x md t
  proof -
    have "\<exists>y od. (y, od) \<in> set (all_code F) \<and> t \<in> op_targets (Op od)"
    proof (cases "(x, md) \<in> set news")
      case True
      moreover have "(n, nd) \<in> set (all_code F)" by (simp add: F_def all_code_parts)
      ultimately show ?thesis using ops x(2) by blast
    next
      case False
      then obtain od where "(x, od) \<in> set (all_code F)" "md = od \<or> md = map_node f od" using node [OF x(1)] by blast
      then show ?thesis using x(2) by (intro exI [of _ x] exI [of _ od]) auto
    qed
    then have "t < k \<and> t \<notin> fst ` set (all_code F)" using ok(5) by blast
    moreover have "fst ` set (all_code H) \<subseteq> fst ` set (all_code F) \<union> {k..<k'}"
      using new unfolding inF inH by force
    ultimately show ?thesis using k by auto
  qed
  have bound: "x < k'" if "x \<in> fst ` set (all_code H)" for x
  proof -
    have "x \<in> fst ` set (all_code F) \<or> x \<in> fst ` set news" using that unfolding inF inH by blast
    then show ?thesis
    proof
      assume "x \<in> fst ` set (all_code F)"
      then show ?thesis using old k by fastforce
    next
      assume "x \<in> fst ` set news"
      then have "x = n \<or> x < k'" using new by blast
      then show ?thesis using old [of n] k unfolding inF by auto
    qed
  qed
  have "local_code {} (snd c)" if "c \<in> set H" for c
    using that block' ok(2) [of "fst c" "snd c"] by (auto simp: H_def F_def)
  then show "function_ok H k'"
    using uniq bound vec tgt unfolding function_ok_def unique_ids_def vectors_ok_def targets_ok_def by fast
qed

text \<open>The other blocks and the rewritten block behave as before.\<close>

lemma sims_block:
  assumes "\<And>c xs. (c, xs) \<in> set dn \<union> set rest \<Longrightarrow> local_code {} xs
      \<and> sizes_agree id (GetOpSize (dn @ (b, xs0) # rest)) (GetOpSize (dn @ (b, ys0) # rest)) xs"
    "block_sim (GetOpSize (dn @ (b, xs0) # rest)) (GetOpSize (dn @ (b, ys0) # rest)) xs0 ys0"
  shows "sims (dn @ (b, xs0) # rest) (dn @ (b, ys0) # rest)"
  unfolding sims_def
proof (intro conjI allI impI)
  fix i assume i: "i < length (dn @ (b, xs0) # rest)"
  have other: "block_sim (GetOpSize (dn @ (b, xs0) # rest)) (GetOpSize (dn @ (b, ys0) # rest)) (snd c) (snd c)"
    if "c \<in> set dn \<union> set rest" for c
    using assms(1) [of "fst c" "snd c"] that by (intro block_sim_refl) auto
  consider "i < length dn" | "i = length dn" | j where "i = length dn + Suc j" "j < length rest"
  proof -
    assume a: "i < length dn \<Longrightarrow> thesis" "i = length dn \<Longrightarrow> thesis" "\<And>j. i = length dn + Suc j \<Longrightarrow> j < length rest \<Longrightarrow> thesis"
    show thesis
    proof (cases "i \<le> length dn")
      case False
      then obtain j where "i = length dn + Suc j" by (metis less_iff_Suc_add linorder_not_le add_Suc_right)
      then show ?thesis using a(3) i by simp
    qed (use a(1,2) in linarith)
  qed
  then show "block_sim (GetOpSize (dn @ (b, xs0) # rest)) (GetOpSize (dn @ (b, ys0) # rest))
      (snd ((dn @ (b, xs0) # rest) ! i)) (snd ((dn @ (b, ys0) # rest) ! i))"
  proof cases
    case 1
    then show ?thesis using other [of "dn ! i"] by (simp add: nth_append)
  next
    case 2
    then show ?thesis using assms(2) by simp
  next
    case 3
    then show ?thesis using other [of "rest ! j"] by (simp add: nth_append)
  qed
qed simp

lemma in_block: "(c, xs) \<in> set F \<Longrightarrow> (x, md) \<in> set xs \<Longrightarrow> (x, md) \<in> set (all_code F)"
  by (force simp: all_code_def)

lemma step_replace:
  fixes dn rest :: ir_function and pre post news :: code and n m k k' b :: node_id and nd :: ir_node
  defines "f \<equiv> (id :: node_id \<Rightarrow> node_id)(n := m)"
  defines "F \<equiv> dn @ (b, pre @ (n, nd) # post) # rest" and "H \<equiv> dn @ (b, pre @ news @ map_code f post) # rest"
  assumes F: "function_ok F k" and k: "k \<le> k'" and pure: "\<not> HasSideEffects (Op nd)"
    and ids: "distinct (map fst news)" "fst ` set news \<subseteq> insert n {k..<k'}"
    and loc: "local_code (fst ` set pre) news" "m \<in> fst ` set pre \<union> fst ` set news"
    and ops: "\<forall>(x, md) \<in> set news. sized_arg (Op md) = None \<and> op_targets (Op md) \<subseteq> op_targets (Op nd)"
    and loads: "is_load (Op nd) \<Longrightarrow> m = n \<and> (\<exists>md. map_of news n = Some md \<and> is_load (Op md) \<and> Size md = Size nd)"
    and val: "\<And>t v. known (GetOpSize H) pre t \<Longrightarrow> clean (GetOpSize H) news t \<Longrightarrow> \<not> stopped t
      \<Longrightarrow> value_of (GetOpSize H) t nd = Some (Inr v)
      \<Longrightarrow> agree (fst ` set news) t (run_block (GetOpSize H) news t) \<and> SSAData (run_block (GetOpSize H) news t) m = v"
  shows "sims F H" "function_ok H k'"
proof -
  note st = step_function_ok [OF F [unfolded F_def] k ids loc ops loads, folded f_def, folded F_def H_def]
  show "function_ok H k'" using st(1) by simp
  have sz: "sizes_agree g (GetOpSize F) (GetOpSize H) xs" if "(c, ys) \<in> set F" "set xs \<subseteq> set ys" "g \<in> {id, f}" for c xs ys g
    unfolding sizes_agree_def
  proof (clarify)
    fix x md v assume x: "(x, md) \<in> set xs" "sized_arg (Op md) = Some v"
    have "(x, md) \<in> set (all_code F)" using in_block [OF that(1)] that(2) x(1) by blast
    then have "GetOpSize H (f v) = GetOpSize F v \<and> f v = v" using st(2) x(2) by blast
    then show "GetOpSize H (g v) = GetOpSize F v" using that(3) by auto
  qed
  have mem: "(b, pre @ (n, nd) # post) \<in> set F" by (simp add: F_def)
  have block: "local_code {} (pre @ (n, nd) # post)" by (rule function_okD(2) [OF F mem])
  have fresh: "fst ` set news \<inter> fst ` set post = {}"
  proof -
    have "x < k \<and> x \<noteq> n" if x: "x \<in> fst ` set post" for x
    proof -
      obtain md where "(x, md) \<in> set post" using x by auto
      then have "(x, md) \<in> set (all_code F)" by (simp add: F_def all_code_parts)
      moreover have "x \<noteq> n" using that function_okD(1) [OF F] by (auto simp: F_def all_code_parts)
      ultimately show ?thesis using function_okD(3) [OF F] by blast
    qed
    then show ?thesis using ids(2) by fastforce
  qed
  have "block_sim (GetOpSize F) (GetOpSize H) (pre @ (n, nd) # post) (pre @ news @ map_code f post)"
    unfolding f_def
  proof (rule replace_node [OF block pure loc(1) fresh loc(2) _ _ val])
    show "sizes_agree id (GetOpSize F) (GetOpSize H) (pre @ [(n, nd)])" by (rule sz [OF mem]) auto
    show "sizes_agree (id(n := m)) (GetOpSize F) (GetOpSize H) post" by (rule sz [OF mem]) (auto simp: f_def)
  qed
  moreover have "local_code {} xs \<and> sizes_agree id (GetOpSize F) (GetOpSize H) xs" if "(c, xs) \<in> set dn \<union> set rest" for c xs
    using that function_okD(2) [OF F, of c xs] sz [of c xs xs id] by (auto simp: F_def)
  ultimately show "sims F H" unfolding F_def H_def by (intro sims_block) auto
qed

lemma load_free: "is_load ir \<Longrightarrow> \<not> HasSideEffects ir"
  by (cases ir) simp_all

lemma exec_node_effect:
  "HasSideEffects (Op nd) \<Longrightarrow> exec_node szs n nd t
   = (if Fault t \<noteq> None then t else exec_effect t n (Size nd) (ElementSize nd) (Op nd))"
  by (simp add: exec_node_def value_side_effect_free)

lemma step_effect:
  fixes dn rest :: ir_function and pre post :: code and n k b :: node_id and nd :: ir_node and ir :: ir_op
  defines "F \<equiv> dn @ (b, pre @ (n, nd) # post) # rest" and "H \<equiv> dn @ (b, pre @ (n, nd\<lparr>Op := ir\<rparr>) # post) # rest"
  assumes F: "function_ok F k" and eff: "HasSideEffects (Op nd)" "HasSideEffects ir"
    and args: "set (value_args ir) \<subseteq> fst ` set pre" and ops: "sized_arg ir = None" "op_targets ir \<subseteq> op_targets (Op nd)"
    and bytes: "\<And>szs. written_bytes szs (Size nd) (ElementSize nd) ir = written_bytes szs (Size nd) (ElementSize nd) (Op nd)"
    and same: "\<And>t. known (GetOpSize H) pre t \<Longrightarrow> \<not> stopped t
      \<Longrightarrow> exec_effect t n (Size nd) (ElementSize nd) ir = exec_effect t n (Size nd) (ElementSize nd) (Op nd)"
  shows "sims F H" "function_ok H k"
proof -
  let ?nd = "nd\<lparr>Op := ir\<rparr>"
  have id: "(id :: node_id \<Rightarrow> node_id)(n := n) = id" by auto
  have mid: "map_code id post = post" by (rule map_code_id) simp
  have mem: "(b, pre @ (n, nd) # post) \<in> set F" by (simp add: F_def)
  have block: "local_code {} (pre @ (n, nd) # post)" by (rule function_okD(2) [OF F mem])
  have "local_code (fst ` set pre) [(n, ?nd)]" using args block by (simp add: local_code_append)
  then have st: "function_ok H k"
    "\<And>x md v. (x, md) \<in> set (all_code F) \<Longrightarrow> sized_arg (Op md) = Some v \<Longrightarrow> GetOpSize H v = GetOpSize F v"
    using step_function_ok [OF F [unfolded F_def], of k "[(n, ?nd)]" n] ops eff(1) load_free [of "Op nd"]
    unfolding id by (auto simp: mid F_def H_def)
  show "function_ok H k" by (rule st(1))
  have sz: "sizes_agree id (GetOpSize F) (GetOpSize H) xs" if "(c, xs) \<in> set F" for c xs
    unfolding sizes_agree_def using st(2) in_block [OF that] by fastforce
  have node: "exec_node (GetOpSize H) n ?nd t = exec_node (GetOpSize H) n nd t" if "known (GetOpSize H) pre t" "\<not> stopped t" for t
    using same [OF that] eff by (simp add: exec_node_effect)
  have "block_sim (GetOpSize F) (GetOpSize H) (pre @ (n, nd) # post) (pre @ (n, ?nd) # post)"
    by (rule replace_effect [OF block sz [OF mem] _ node]) (simp_all add: cell_ok_def bytes)
  moreover have "local_code {} xs \<and> sizes_agree id (GetOpSize F) (GetOpSize H) xs" if "(c, xs) \<in> set dn \<union> set rest" for c xs
    using that function_okD(2) [OF F, of c xs] sz [of c xs] by (auto simp: F_def)
  ultimately show "sims F H" unfolding F_def H_def by (intro sims_block) auto
qed

section \<open>Single nodes\<close>

lemma run_one:
  assumes "clean szs [(k, md)] t" "\<not> stopped t" "value_of szs t md = Some (Inr v)"
  shows "agree {k} t (run_block szs [(k, md)] t) \<and> SSAData (run_block szs [(k, md)] t) k = v"
proof -
  have "exec_node szs k md t = set_slot k v t"
    using exec_node_value [of t szs md k] assms by (simp add: clean_def stopped_def)
  then show ?thesis by (auto simp: Let_def set_slot_def intro!: agreeI split: if_splits)
qed

lemma computedD:
  assumes "computed szs hdr D t" "hdr a = Some nd" "a \<in> D"
  shows "pure_op (Op nd) \<Longrightarrow> value_of szs t nd = Some (Inr (SSAData t a))"
    "\<not> HasSideEffects (Op nd) \<Longrightarrow> fits (op_width nd) (SSAData t a)"
  using assms by (simp_all add: computed_def)

lemma ucast_GD: "(ucast (GD 0 w) :: u64) = w"
  unfolding GD_def by (rule bit_word_eqI) (simp add: bit_simps)

section \<open>Sound decisions\<close>

text \<open>
  What a pass has to show of its decisions: the new nodes are pure and use what is there, and the result, or
  the effect of an overwritten node, is the one the node had, in every state in which the nodes before it
  have been computed.
\<close>

locale rewriter =
  fixes dc :: decision
  assumes replace_shape: "dc pre hdr k nd = Replace news m \<Longrightarrow> \<not> HasSideEffects (Op nd) \<and> \<not> is_load (Op nd)
      \<and> map fst news = [k..<k + length news]
      \<and> (\<forall>(x, md) \<in> set news. \<not> HasSideEffects (Op md) \<and> sized_arg (Op md) = None)"
    and replace_local: "dc pre hdr k nd = Replace news m \<Longrightarrow> visible hdr pre D \<Longrightarrow> closed hdr D \<Longrightarrow> set (value_args (Op nd)) \<subseteq> D
      \<Longrightarrow> (\<And>a. a \<in> D \<Longrightarrow> a < k) \<Longrightarrow> local_code D news \<and> m \<in> D \<union> fst ` set news"
    and replace_value: "dc pre hdr k nd = Replace news m \<Longrightarrow> visible hdr pre D \<Longrightarrow> closed hdr D \<Longrightarrow> set (value_args (Op nd)) \<subseteq> D
      \<Longrightarrow> (\<And>a. a \<in> D \<Longrightarrow> a < k) \<Longrightarrow> computed szs hdr D t
      \<Longrightarrow> clean szs news t \<Longrightarrow> \<not> stopped t \<Longrightarrow> value_of szs t nd = Some (Inr v)
      \<Longrightarrow> agree (fst ` set news) t (run_block szs news t) \<and> SSAData (run_block szs news t) m = v"
    and overwrite_shape: "dc pre hdr k nd = Overwrite ir \<Longrightarrow> HasSideEffects ir = HasSideEffects (Op nd)
      \<and> is_load ir = is_load (Op nd) \<and> sized_arg ir = None \<and> sized_arg (Op nd) = None \<and> op_targets ir = op_targets (Op nd)"
    and overwrite_local: "dc pre hdr k nd = Overwrite ir \<Longrightarrow> closed hdr D \<Longrightarrow> set (value_args (Op nd)) \<subseteq> D
      \<Longrightarrow> set (value_args ir) \<subseteq> D"
    and overwrite_value: "dc pre hdr k nd = Overwrite ir \<Longrightarrow> \<not> HasSideEffects ir \<Longrightarrow> closed hdr D
      \<Longrightarrow> set (value_args (Op nd)) \<subseteq> D \<Longrightarrow> computed szs hdr D t \<Longrightarrow> value_of szs t nd = Some (Inr v)
      \<Longrightarrow> value_of szs t (nd\<lparr>Op := ir\<rparr>) = Some (Inr v)"
    and overwrite_bytes: "dc pre hdr k nd = Overwrite ir \<Longrightarrow> HasSideEffects ir
      \<Longrightarrow> written_bytes szs (Size nd) (ElementSize nd) ir = written_bytes szs (Size nd) (ElementSize nd) (Op nd)"
    and overwrite_effect: "dc pre hdr k nd = Overwrite ir \<Longrightarrow> HasSideEffects ir \<Longrightarrow> closed hdr D
      \<Longrightarrow> set (value_args (Op nd)) \<subseteq> D \<Longrightarrow> computed szs hdr D t
      \<Longrightarrow> exec_effect t n (Size nd) (ElementSize nd) ir = exec_effect t n (Size nd) (ElementSize nd) (Op nd)"
begin

lemma pre_closed:
  assumes "function_ok F k" "F = dn @ (b, pre @ (n, nd) # post) # rest"
  shows "closed (GetOpHeader F) (fst ` set pre)" "set (value_args (Op nd)) \<subseteq> fst ` set pre" "\<And>a. a \<in> fst ` set pre \<Longrightarrow> a < k"
    "known szs pre t \<Longrightarrow> computed szs (GetOpHeader F) (fst ` set pre) t" "visible (GetOpHeader F) pre (fst ` set pre)"
proof -
  note ok = function_okD [OF assms(1)]
  have loc: "local_code {} (pre @ (n, nd) # post)" by (rule ok(2) [of b]) (simp add: assms(2))
  have hdr: "GetOpHeader F a = Some md" if "(a, md) \<in> set pre" for a md
    unfolding GetOpHeader_def using ok(1) that by (intro map_of_is_SomeI) (auto simp: assms(2) all_code_parts)
  show "closed (GetOpHeader F) (fst ` set pre)"
    using hdr local_args [of "{}" pre] loc by (fastforce simp: closed_def local_code_append)
  show "set (value_args (Op nd)) \<subseteq> fst ` set pre" using loc by (simp add: local_code_append)
  show "a < k" if "a \<in> fst ` set pre" for a
  proof -
    have "a \<in> fst ` set (all_code F)" using that by (simp add: assms(2) all_code_parts image_Un)
    then show ?thesis using ok(3) by auto
  qed
  show "computed szs (GetOpHeader F) (fst ` set pre) t" if "known szs pre t"
    using that hdr by (fastforce simp: computed_def known_def)
  show "visible (GetOpHeader F) pre (fst ` set pre)" using hdr by (force simp: visible_def)
qed

lemma overwrite_step:
  assumes "function_ok F k" "F = dn @ (b, pre @ (n, nd) # post) # rest" "dc pre (GetOpHeader F) k nd = Overwrite ir"
  defines "H \<equiv> dn @ (b, pre @ (n, nd\<lparr>Op := ir\<rparr>) # post) # rest"
  shows "sims F H" "function_ok H k"
proof -
  note pre = pre_closed [OF assms(1,2)] and sh = overwrite_shape [OF assms(3)]
  note args = overwrite_local [OF assms(3) pre(1,2)]
  have id: "(id :: node_id \<Rightarrow> node_id)(n := n) = id" by auto
  have mid: "map_code id post = post" by (rule map_code_id) simp
  have ok: "function_ok (dn @ (b, pre @ (n, nd) # post) # rest) k" using assms(1,2) by simp
  have "sims F H \<and> function_ok H k"
  proof (cases "HasSideEffects ir")
    case True
    have bytes: "written_bytes szs (Size nd) (ElementSize nd) ir = written_bytes szs (Size nd) (ElementSize nd) (Op nd)" for szs
      by (rule overwrite_bytes [OF assms(3) True])
    show ?thesis
      using step_effect [OF ok, of ir] args sh True bytes overwrite_effect [OF assms(3) True pre(1,2) pre(4)]
      unfolding assms(2) H_def by simp
  next
    case False
    let ?nd = "nd\<lparr>Op := ir\<rparr>"
    have n: "n \<notin> fst ` set pre" using function_okD(1) [OF ok] by (auto simp: all_code_parts)
    have val: "agree (fst ` set [(n, ?nd)]) t (run_block szs [(n, ?nd)] t) \<and> SSAData (run_block szs [(n, ?nd)] t) n = v"
      if "known szs pre t" "clean szs [(n, ?nd)] t" "\<not> stopped t" "value_of szs t nd = Some (Inr v)" for szs t v
    proof -
      have "value_of szs t ?nd = Some (Inr v)"
        by (rule overwrite_value [OF assms(3) False pre(1,2) pre(4) [OF that(1)] that(4)])
      then show ?thesis using run_one [OF that(2,3)] by simp
    qed
    show ?thesis
      using step_replace [OF ok, of k "[(n, ?nd)]" n] sh False args n val
      unfolding assms(2) H_def id by (simp add: mid)
  qed
  then show "sims F H" "function_ok H k" by simp_all
qed

lemma replace_step:
  assumes "function_ok F k" "F = dn @ (b, pre @ (n, nd) # post) # rest" "dc pre (GetOpHeader F) k nd = Replace news m"
  defines "H \<equiv> dn @ (b, pre @ news @ map_code (id(n := m)) post) # map_blocks (id(n := m)) rest"
  shows "sims F H" "function_ok H (k + length news)" "map_blocks (id(n := m)) rest = rest" "refs (all_code rest) n = 0" "n \<noteq> m"
proof -
  note pre = pre_closed [OF assms(1,2)] and sh = replace_shape [OF assms(3)]
  note loc = replace_local [OF assms(3) pre(5) pre(1-3)]
  have ok: "function_ok (dn @ (b, pre @ (n, nd) # post) # rest) k" using assms(1,2) by simp
  show rest: "map_blocks (id(n := m)) rest = rest" "refs (all_code rest) n = 0"
    by (rule map_blocks_other, use later_blocks [OF ok] in blast)+
  have ids: "fst ` set news = {k..<k + length news}" "distinct (map fst news)"
  proof -
    have upt: "map fst news = [k..<k + length news]" using sh by blast
    then have "set (map fst news) = set [k..<k + length news]" by (simp only: upt)
    then show "fst ` set news = {k..<k + length news}" by simp
    show "distinct (map fst news)" unfolding upt by simp
  qed
  have "n < k" using function_okD(3) [OF ok, of n nd] by (simp add: all_code_parts)
  moreover have "n \<notin> fst ` set pre" using function_okD(1) [OF ok] by (auto simp: all_code_parts)
  ultimately show "n \<noteq> m" using loc ids(1) by auto
  have ops: "\<forall>(x, md) \<in> set news. sized_arg (Op md) = None \<and> op_targets (Op md) \<subseteq> op_targets (Op nd)"
    using sh no_targets by fastforce
  have val: "agree (fst ` set news) t (run_block szs news t) \<and> SSAData (run_block szs news t) m = v"
    if "known szs pre t" "clean szs news t" "\<not> stopped t" "value_of szs t nd = Some (Inr v)" for szs t v
    by (rule replace_value [OF assms(3) pre(5) pre(1-3) pre(4) [OF that(1)] that(2-4)])
  show "sims F H" "function_ok H (k + length news)"
    unfolding H_def rest unfolding assms(2)
    by (rule step_replace [OF ok _ _ ids(2)]; use sh loc ids(1) ops val in auto)+
qed

text \<open>The walk keeps the list well formed, and every block does what it did.\<close>

lemma replaced_uses:
  assumes "function_ok F k" "F = dn @ (b, pre @ (n, nd) # post) # rest" "dc pre (GetOpHeader F) k nd = Replace news m"
    "\<And>x. U x = refs (all_code F) x"
  shows "RemoveArgUses nd (move_uses n m (refs post n + refs (all_code rest) n) (emit_uses news U)) x
    = refs (all_code (dn @ (b, pre @ news @ map_code (id(n := m)) post) # rest)) x"
proof -
  note st = replace_step [OF assms(1-3)]
  have tgt: "n \<notin> op_targets (Op md)" if "(y, md) \<in> set post" for y md
    using function_okD(5) [OF assms(1), of y md n] that by (auto simp: assms(2) all_code_parts)
  have "refs (map_code (id(n := m)) post) x
    = (if x = n then 0 else if x = m then refs post m + refs post n else refs post x)"
    using refs_map_code [OF refl st(5)] tgt by blast
  then show ?thesis
    using st(4,5) assms(4) by (simp add: RemoveArgUses_count move_uses_def emit_uses_count assms(2) all_code_parts)
qed

lemma rewrite_code_ok:
  assumes "rewrite_code dc dn b pre post rest U k = (ys, rest', U', k', Changed)"
    "function_ok (dn @ (b, pre @ post) # rest) k" "\<And>x. U x = refs (all_code (dn @ (b, pre @ post) # rest)) x"
  shows "walked (dn @ (b, pre @ post) # rest) (dn @ (b, ys) # rest') U' k'"
  using assms
proof (induction "length post" arbitrary: pre post rest U k ys rest' U' k' Changed)
  case 0
  then show ?case using sims_refl [of "dn @ (b, pre) # rest" k] by (auto simp: walked_def)
next
  case (Suc l)
  obtain n nd ps where post: "post = (n, nd) # ps" "length ps = l" using Suc.hyps(2) by (cases post) auto
  let ?F = "dn @ (b, pre @ (n, nd) # ps) # rest"
  have F: "function_ok ?F k" "\<And>x. U x = refs (all_code ?F) x" using Suc.prems(2,3) post by simp_all
  show ?case
  proof (cases "dc pre (GetOpHeader ?F) k nd")
    case Keep
    then show ?thesis using Suc.hyps(1) [of ps "pre @ [(n, nd)]"] Suc.prems post by simp
  next
    case (Overwrite ir)
    let ?H = "dn @ (b, (pre @ [(n, nd\<lparr>Op := ir\<rparr>)]) @ ps) # rest" and ?U = "AddArgUses ir (RemoveArgUses nd U)"
    have st: "sims ?F ?H" "function_ok ?H k" using overwrite_step [OF F(1) refl Overwrite] by simp_all
    have U: "?U x = refs (all_code ?H) x" for x using F(2) by (simp add: AddArgUses_count RemoveArgUses_count all_code_parts)
    obtain Ch where "rewrite_code dc dn b (pre @ [(n, nd\<lparr>Op := ir\<rparr>)]) ps rest ?U k = (ys, rest', U', k', Ch)"
      using Suc.prems(1) Overwrite post(1) by (auto split: prod.splits)
    then have "walked ?H (dn @ (b, ys) # rest') U' k'" using Suc.hyps(1) post(2) st(2) U by blast
    then show ?thesis using walked_trans [OF st(1)] post(1) by simp
  next
    case (Replace news m)
    let ?f = "id(n := m)"
    let ?H = "dn @ (b, (pre @ news) @ map_code ?f ps) # map_blocks ?f rest"
    let ?U = "RemoveArgUses nd (move_uses n m (refs ps n + refs (all_code rest) n) (emit_uses news U))"
    note st = replace_step [OF F(1) refl Replace]
    have H: "sims ?F ?H" "function_ok ?H (k + length news)" using st(1,2) by simp_all
    have U: "?U x = refs (all_code ?H) x" for x using replaced_uses [OF F(1) refl Replace F(2)] st(3) by simp
    obtain Ch where c: "rewrite_code dc dn b (pre @ news) (map_code ?f ps) (map_blocks ?f rest) ?U (k + length news)
        = (ys, rest', U', k', Ch)"
      using Suc.prems(1) Replace post(1) by (auto simp: Let_def simp del: fun_upd_apply split: prod.splits)
    have "walked ?H (dn @ (b, ys) # rest') U' k'"
      by (rule Suc.hyps(1) [OF _ c H(2) U]) (simp add: post(2))
    then show ?thesis using walked_trans [OF H(1)] post(1) by simp
  qed
qed

lemma rewrite_blocks_ok:
  assumes "rewrite_blocks dc dn xs U k = (H, U', k', Changed)" "function_ok (dn @ xs) k" "\<And>x. U x = refs (all_code (dn @ xs)) x"
  shows "walked (dn @ xs) H U' k'"
  using assms
proof (induction "length xs" arbitrary: dn xs U k H U' k' Changed)
  case 0
  then show ?case using sims_refl [of dn k] by (auto simp: walked_def)
next
  case (Suc l)
  obtain b ps rest where xs: "xs = (b, ps) # rest" "length rest = l" using Suc.hyps(2) by (cases xs) auto
  obtain ys rest' U1 k1 Ch where c: "rewrite_code dc dn b [] ps rest U k = (ys, rest', U1, k1, Ch)" by (metis prod_cases5)
  have w: "walked (dn @ xs) (dn @ (b, ys) # rest') U1 k1"
    using rewrite_code_ok [OF c] Suc.prems(2,3) xs(1) by simp
  obtain Ch' where d: "rewrite_blocks dc (dn @ [(b, ys)]) rest' U1 k1 = (H, U', k', Ch')"
    using Suc.prems(1) xs(1) c by (auto split: prod.splits)
  have "walked ((dn @ [(b, ys)]) @ rest') H U' k'"
    by (rule Suc.hyps(1) [OF _ d]) (use w rewrite_code_rest [OF c] xs(2) in \<open>auto simp: walked_def\<close>)
  then show ?case using w walked_trans by (auto simp: walked_def intro: sims_trans)
qed

lemma rewrite_list_ok:
  assumes "ir_list_ok G"
  shows "ir_list_ok (snd (rewrite_list dc G))" "sims (Blocks G) (Blocks (snd (rewrite_list dc G)))"
proof -
  obtain H U k Ch where r: "rewrite_blocks dc [] (Blocks G) (NumUses G) (NextNode G) = (H, U, k, Ch)" by (metis prod_cases4)
  have "walked (Blocks G) H U k"
    using rewrite_blocks_ok [OF r] assms by (simp add: ir_list_ok_def uses_ok_def)
  then show "ir_list_ok (snd (rewrite_list dc G))" "sims (Blocks G) (Blocks (snd (rewrite_list dc G)))"
    by (simp_all add: rewrite_list_def r walked_def ir_list_ok_def uses_ok_def)
qed

end

sublocale rewriter \<subseteq> local_pass ir_list_ok "\<lambda>G. snd (rewrite_list dc G)"
proof
  fix G assume G: "ir_list_ok G"
  note r = rewrite_list_ok [OF G]
  show "ir_list_ok (snd (rewrite_list dc G))" by (rule r(1))
  show "unique_ids (Blocks G)" using G by (simp add: ir_list_ok_def function_ok_def)
  show "map fst (Blocks (snd (rewrite_list dc G))) = map fst (Blocks G)" using r(2) by (simp add: sims_def)
  show "block_sim (GetOpSize (Blocks G)) (GetOpSize (Blocks (snd (rewrite_list dc G)))) (snd (Blocks G ! i))
      (snd (Blocks (snd (rewrite_list dc G)) ! i))" if "i < length (Blocks G)" for i
    using r(2) that by (simp add: sims_def)
qed

end
