(* ===== verification/IR_Emitter.thy ===== *)
theory IR_Emitter
  imports Interp_Loop
begin

text \<open>
  The IR emitter (\<^verbatim>\<open>include/FEXCore/IR/IREmitter.h\<close> and the allocation helpers that
  \<^verbatim>\<open>Scripts/json_ir_generator.py\<close> generates from \<^verbatim>\<open>IR.json\<close>) and the state of
  \<^verbatim>\<open>OpDispatchBuilder\<close> that the flag code reads and writes. Emitters are computations in the
  state monad over the builder; each appends nodes to the current code block and returns the id of
  the last one. The second half gives emitted code its meaning: the straight-line execution of
  the nodes by the interpreter, and a small program logic for emitters.
\<close>

section \<open>Builder state\<close>

datatype SelectionFlag = SF_Nothing | SF_CMP | SF_AND | SF_FCMP

text \<open>\<^verbatim>\<open>DeferredFlagData\<close>: the generation type with the members of the union it uses.\<close>

datatype DeferredFlagData =
    TYPE_NONE
  | TYPE_ADC nat node_id node_id node_id node_id
  | TYPE_SBB nat node_id node_id node_id node_id
  | TYPE_SUB nat node_id node_id node_id bool
  | TYPE_ADD nat node_id node_id node_id bool
  | TYPE_MUL nat node_id node_id
  | TYPE_UMUL node_id
  | TYPE_LOGICAL nat node_id node_id node_id
  | TYPE_LSHL nat node_id node_id node_id
  | TYPE_LSHLI nat node_id node_id nat
  | TYPE_LSHR nat node_id node_id node_id
  | TYPE_LSHRI nat node_id node_id nat
  | TYPE_ASHR nat node_id node_id node_id
  | TYPE_ASHRI nat node_id node_id nat
  | TYPE_ROR nat node_id node_id node_id
  | TYPE_RORI nat node_id node_id nat
  | TYPE_ROL nat node_id node_id node_id
  | TYPE_ROLI nat node_id node_id nat
  | TYPE_FCMP nat node_id node_id node_id
  | TYPE_BEXTR node_id
  | TYPE_BLSI nat node_id
  | TYPE_BLSMSK node_id
  | TYPE_BLSR nat node_id node_id
  | TYPE_POPCOUNT node_id
  | TYPE_BZHI nat node_id node_id
  | TYPE_TZCNT node_id
  | TYPE_LZCNT nat node_id
  | TYPE_BITSELECT node_id
  | TYPE_RDRAND node_id

record builder =
  code :: "ir_node list"
  CurrentDeferredFlags :: DeferredFlagData
  flagsOp :: SelectionFlag
  flagsOpSize :: nat
  flagsOpDest :: node_id
  flagsOpSrc :: node_id
  flagsOpDestSigned :: node_id
  flagsOpSrcSigned :: node_id
  ABINoPF :: bool
  Is64BitMode :: bool

type_synonym 'a emitter = "(builder, 'a) state"

section \<open>Allocation helpers\<close>

definition node_size :: "ir_node list \<Rightarrow> node_id \<Rightarrow> nat" where
  "node_size nds n = (if n < length nds then Size (nds ! n) else 0)"

definition emit :: "ir_op \<Rightarrow> nat \<Rightarrow> nat \<Rightarrow> node_id emitter" where
  "emit ir sz el = State (\<lambda>B. (length (code B),
     B\<lparr>code := code B @ [\<lparr>Op = ir, Size = sz, ElementSize = el\<rparr>]\<rparr>))"

definition op_size :: "node_id \<Rightarrow> nat emitter" where
  "op_size n = State (\<lambda>B. (node_size (code B) n, B))"

definition get_builder :: "builder emitter" where
  "get_builder = State (\<lambda>B. (B, B))"

definition modify_builder :: "(builder \<Rightarrow> builder) \<Rightarrow> unit emitter" where
  "modify_builder f = State (\<lambda>B. ((), f B))"

text \<open>\<^verbatim>\<open>_Constant(Constant)\<close>, and \<^verbatim>\<open>_Constant(Size, Constant)\<close> with a size in bits.\<close>

definition e_Constant :: "u64 \<Rightarrow> node_id emitter" where
  "e_Constant c = emit (IR_Constant c) 8 8"

definition e_ConstantSize :: "nat \<Rightarrow> u64 \<Rightarrow> node_id emitter" where
  "e_ConstantSize bits c = emit (IR_Constant (c AND drop_bit (64 - bits) (NOT 0))) (bits div 8) (bits div 8)"

text \<open>\<^verbatim>\<open>DestSize\<close> of \<^verbatim>\<open>IR.json\<close> for the two-source operations, the maximum of the source sizes by default.\<close>

fun binop_size :: "ir_binop \<Rightarrow> nat \<Rightarrow> nat \<Rightarrow> nat" where
  "binop_size OP_ADD a b = max 4 (max a b)"
| "binop_size OP_SUB a b = max 4 (max a b)"
| "binop_size OP_MUL a b = max 4 (max a b)"
| "binop_size OP_UMUL a b = max 4 (max a b)"
| "binop_size OP_ANDN a b = max 4 a"
| "binop_size OP_LSHL a b = max 4 a"
| "binop_size OP_LSHR a b = max 4 a"
| "binop_size OP_ASHR a b = max 4 a"
| "binop_size OP_ROR a b = max 4 a"
| "binop_size OP_CREATEELEMENTPAIR a b = a * 2"
| "binop_size _ a b = max a b"

definition e_Bin :: "ir_binop \<Rightarrow> node_id \<Rightarrow> node_id \<Rightarrow> node_id emitter" where
  "e_Bin op a b = do {
     sa \<leftarrow> op_size a;
     sb \<leftarrow> op_size b;
     emit (IR_Bin op a b) (binop_size op sa sb)
       (if op = OP_CREATEELEMENTPAIR then sa else binop_size op sa sb) }"

fun unop_size :: "ir_unop \<Rightarrow> nat \<Rightarrow> nat" where
  "unop_size OP_NEG a = max 4 a"
| "unop_size _ a = a"

text \<open>\<^verbatim>\<open>TruncElementPair\<close>, which has a size argument of its own, is not emitted through \<open>e_Un\<close>.\<close>

definition e_Un :: "ir_unop \<Rightarrow> node_id \<Rightarrow> node_id emitter" where
  "e_Un op a = do { sa \<leftarrow> op_size a; emit (IR_Un op a) (unop_size op sa) (unop_size op sa) }"

text \<open>\<^verbatim>\<open>_Bfe(DstSize, Width, lsb, Src)\<close>; a destination size of zero stands for the source's size.\<close>

definition e_BfeSize :: "nat \<Rightarrow> nat \<Rightarrow> nat \<Rightarrow> node_id \<Rightarrow> node_id emitter" where
  "e_BfeSize DstSize Width lsb a = do {
     sa \<leftarrow> op_size a;
     (let sz = if DstSize = 0 then sa else DstSize in emit (IR_Bfe Width lsb a) sz sz) }"

definition e_Bfe :: "nat \<Rightarrow> nat \<Rightarrow> node_id \<Rightarrow> node_id emitter" where
  "e_Bfe Width lsb a = e_BfeSize 0 Width lsb a"

definition e_Sbfe :: "nat \<Rightarrow> nat \<Rightarrow> node_id \<Rightarrow> node_id emitter" where
  "e_Sbfe Width lsb a = emit (IR_Sbfe Width lsb a) 8 8"

definition e_Sext :: "nat \<Rightarrow> node_id \<Rightarrow> node_id emitter" where
  "e_Sext SrcSize a = e_Sbfe SrcSize 0 a"

definition e_Bfi :: "nat \<Rightarrow> nat \<Rightarrow> nat \<Rightarrow> node_id \<Rightarrow> node_id \<Rightarrow> node_id emitter" where
  "e_Bfi DestSize Width lsb Dest Src = emit (IR_Bfi Width lsb Dest Src) DestSize DestSize"

definition e_SelectSize ::
  "CondClass \<Rightarrow> node_id \<Rightarrow> node_id \<Rightarrow> node_id \<Rightarrow> node_id \<Rightarrow> nat \<Rightarrow> node_id emitter" where
  "e_SelectSize Cond a b t f CompareSize = do {
     sa \<leftarrow> op_size a;
     sb \<leftarrow> op_size b;
     st \<leftarrow> op_size t;
     sf \<leftarrow> op_size f;
     (let cs = if CompareSize = 0 then max 4 (max sa sb) else CompareSize; sz = max 4 (max st sf)
      in emit (IR_Select Cond a b t f cs) sz sz) }"

definition e_Select ::
  "CondClass \<Rightarrow> node_id \<Rightarrow> node_id \<Rightarrow> node_id \<Rightarrow> node_id \<Rightarrow> node_id emitter" where
  "e_Select Cond a b t f = e_SelectSize Cond a b t f 0"

definition e_GetHostFlag :: "node_id \<Rightarrow> nat \<Rightarrow> node_id emitter" where
  "e_GetHostFlag a Flag = do { sa \<leftarrow> op_size a; emit (IR_GetHostFlag a Flag) sa sa }"

definition e_LoadFlag :: "nat \<Rightarrow> node_id emitter" where
  "e_LoadFlag Flag = emit (IR_LoadFlag Flag) 1 1"

definition e_StoreFlag :: "node_id \<Rightarrow> nat \<Rightarrow> unit emitter" where
  "e_StoreFlag v Flag = do { emit (IR_StoreFlag v Flag) 1 1; State_Monad.return () }"

definition e_LoadContext :: "nat \<Rightarrow> nat \<Rightarrow> node_id emitter" where
  "e_LoadContext ByteSize Offset = emit (IR_LoadContext Offset) ByteSize ByteSize"

definition e_StoreContext :: "nat \<Rightarrow> node_id \<Rightarrow> nat \<Rightarrow> unit emitter" where
  "e_StoreContext ByteSize v Offset = do {
     emit (IR_StoreContext v Offset) ByteSize ByteSize; State_Monad.return () }"

definition e_InvalidateFlags :: "u64 \<Rightarrow> unit emitter" where
  "e_InvalidateFlags Flags = do { emit (IR_InvalidateFlags Flags) 0 0; State_Monad.return () }"

section \<open>Meaning of emitted code\<close>

text \<open>The nodes of a block executed in order; the sizes a node can ask for are those of earlier nodes.\<close>

fun exec_from :: "ir_node list \<Rightarrow> ir_node list \<Rightarrow> istate \<Rightarrow> istate" where
  "exec_from pre [] s = s"
| "exec_from pre (nd # nds) s =
     exec_from (pre @ [nd]) nds (exec_node (node_size pre) (length pre) nd s)"

definition run_code :: "context_bytes \<Rightarrow> memory \<Rightarrow> builder \<Rightarrow> istate" where
  "run_code c m B = exec_from [] (code B) (boot c m)"

lemma exec_from_append: "exec_from pre (xs @ ys) s = exec_from (pre @ xs) ys (exec_from pre xs s)"
  by (induction xs arbitrary: pre s) auto

lemma run_code_append:
  "run_code c m (B\<lparr>code := code B @ nds\<rparr>) = exec_from (code B) nds (run_code c m B)"
  by (simp add: run_code_def exec_from_append)

end
