(* ===== verification/Pass_LongDivide.thy ===== *)
theory Pass_LongDivide
  imports IR_Rewrite IR_Emitter
begin

text \<open>
  Long divide elimination (\<^verbatim>\<open>IR/Passes/LongDivideRemovalPass.cpp\<close>): a 128-bit by 64-bit division whose upper
  half is known to be the extension of the lower one becomes a 64-bit division.
\<close>

section \<open>The pass\<close>

definition IsValueConstant :: "headers \<Rightarrow> node_id \<Rightarrow> u64 option" where
  "IsValueConstant hdr Arg =
     (case hdr Arg of Some nd \<Rightarrow> (case Op nd of IR_Constant c \<Rightarrow> Some c | _ \<Rightarrow> None) | None \<Rightarrow> None)"

definition IsZeroOp :: "headers \<Rightarrow> node_id \<Rightarrow> bool" where
  "IsZeroOp hdr Arg =
     (case hdr Arg of
        None \<Rightarrow> False
      | Some nd \<Rightarrow>
          (case Op nd of
             IR_Bin OP_XOR x y \<Rightarrow> x = y
           | _ \<Rightarrow> (case IsValueConstant hdr Arg of Some Value \<Rightarrow> Value = 0 | None \<Rightarrow> False)))"

definition IsSextOp :: "headers \<Rightarrow> node_id \<Rightarrow> node_id \<Rightarrow> bool" where
  "IsSextOp hdr Lower Upper =
     (case hdr Upper of
        None \<Rightarrow> False
      | Some nd \<Rightarrow>
          (case Op nd of IR_Sbfe Width lsb Src \<Rightarrow> if Width = 1 \<and> lsb = 63 then Src = Lower else False | _ \<Rightarrow> False))"

definition header_size :: "headers \<Rightarrow> node_id \<Rightarrow> nat" where
  "header_size hdr n = (case hdr n of None \<Rightarrow> 0 | Some nd \<Rightarrow> Size nd)"

text \<open>The node that \<^verbatim>\<open>_Div\<close>, \<^verbatim>\<open>_Rem\<close>, \<^verbatim>\<open>_UDiv\<close> and \<^verbatim>\<open>_URem\<close> emit: its size is the larger of its arguments'.\<close>

definition new_bin :: "headers \<Rightarrow> ir_binop \<Rightarrow> node_id \<Rightarrow> node_id \<Rightarrow> ir_node" where
  "new_bin hdr op x y =
     (let sz = binop_size op (header_size hdr x) (header_size hdr y)
      in \<lparr>Op = IR_Bin op x y, Size = sz, ElementSize = sz\<rparr>)"

definition long_divide :: decision where
  "long_divide pre hdr k nd =
     (if Size nd = 8 then
        (case Op nd of
           IR_Long op Lower Upper Divisor \<Rightarrow>
             (if op = OP_LDIV \<or> op = OP_LREM then
                (if IsSextOp hdr Lower Upper
                 then Replace [(k, new_bin hdr (if op = OP_LDIV then OP_DIV else OP_REM) Lower Divisor)] k
                 else Keep)
              else if IsZeroOp hdr Upper
              then Replace [(k, new_bin hdr (if op = OP_LUDIV then OP_UDIV else OP_UREM) Lower Divisor)] k
              else Keep)
         | _ \<Rightarrow> Keep)
      else Keep)"

definition LongDivideElimination :: "ir_list \<Rightarrow> bool \<times> ir_list" where
  "LongDivideElimination G = rewrite_list long_divide G"

section \<open>The values\<close>

lemma store_low: "put_bytes 8 d (word_of_int r) = GD d (word_of_int r)"
  unfolding GD_def by (rule bit_word_eqI) (auto simp: bit_simps bit_word_of_int_iff)

lemma zero_upper: "ucast u = (0 :: u64) \<Longrightarrow> ludiv_source 8 u l = uread 8 l"
  by (simp add: ludiv_source_def uread_def)

lemma LUDiv_zero_upper:
  assumes "ucast u = (0 :: u64)"
  shows "Op_LUDiv 8 d l u v = Op_UDiv 8 d l v" "Op_LURem 8 d l u v = Op_URem 8 d l v"
  by (simp_all add: Op_LUDiv_def Op_LURem_def Op_UDiv_def Op_URem_def zero_upper [OF assms] ludiv_store_def store_low)

lemma sext_upper:
  assumes "ucast u = signed_drop_bit 63 (ucast l :: u64)"
  shows "ldiv_source 8 u l = sread 8 l"
proof -
  let ?w = "ucast l :: u64"
  let ?u = "signed_drop_bit 63 ?w"
  have "push_bit 64 (uint ?u) AND uint ?w = 0" by (rule bit_eqI) (auto simp: bit_simps)
  then have sum: "uint ?u * 2 ^ 64 + uint ?w = push_bit 64 (uint ?u) OR uint ?w"
    by (simp add: push_bit_eq_mult disjunctive_add_eq_or)
  have "signed_take_bit 127 (push_bit 64 (uint ?u) OR uint ?w) = sint ?w"
  proof (rule bit_eqI)
    fix k :: nat
    consider "k < 63" | "k = 63 \<or> k = 64" | "64 < k" by linarith
    then show "bit (signed_take_bit 127 (push_bit 64 (uint ?u) OR uint ?w)) k \<longleftrightarrow> bit (sint ?w) k"
    proof cases
      case 3
      then have "1 \<le> min 127 k - 64" by linarith
      then show ?thesis using 3 by (auto simp: bit_simps min_def)
    qed (auto simp: bit_simps min_def)
  qed
  then show ?thesis using assms sum by (simp add: ldiv_source_def uread_def sread_def)
qed

lemma LDiv_sext_upper:
  assumes "ucast u = signed_drop_bit 63 (ucast l :: u64)" "div_defined 64 (sread 8 l) (sread 8 v)"
  shows "Op_LDiv 8 d l u v = Op_Div 8 d l v" "Op_LRem 8 d l u v = Op_Rem 8 d l v"
proof -
  have "div_defined 128 (sread 8 l) (sread 8 v)"
    using assms(2) sint_greater_eq [of "ucast l :: u64"] by (auto simp: div_defined_def sread_def)
  then show "Op_LDiv 8 d l u v = Op_Div 8 d l v" "Op_LRem 8 d l u v = Op_Rem 8 d l v"
    using assms(2) by (simp_all add: Op_LDiv_def Op_LRem_def Op_Div_def Op_Rem_def sext_upper [OF assms(1)] ldiv_store_def store_low)
qed

lemma xor_self: "Op_Xor sz 0 a a = Inr v \<Longrightarrow> v = 0"
  by (auto simp: Op_Xor_def do_op8_def do_op16_def do_op32_def do_op64_def put_bytes_def split: if_splits)

lemma constant_value:
  "computed szs hdr D t \<Longrightarrow> IsValueConstant hdr a = Some c \<Longrightarrow> a \<in> D \<Longrightarrow> SSAData t a = GD 0 c"
  using computedD(1) [of szs hdr D t a]
  by (auto simp: IsValueConstant_def value_of_def Op_Constant_def split: option.splits ir_op.splits)

lemma zero_op_value:
  assumes "computed szs hdr D t" "IsZeroOp hdr u" "u \<in> D"
  shows "ucast (SSAData t u) = (0 :: u64)"
proof -
  obtain nd where nd: "hdr u = Some nd" using assms(2) by (auto simp: IsZeroOp_def split: option.splits)
  show ?thesis
  proof (cases "\<exists>x. Op nd = IR_Bin OP_XOR x x")
    case True
    then obtain x where x: "Op nd = IR_Bin OP_XOR x x" by blast
    then have "Op_Xor (Size nd) 0 (SSAData t x) (SSAData t x) = Inr (SSAData t u)"
      using computedD(1) [OF assms(1) nd assms(3)] by (simp add: value_of_def)
    then show ?thesis using xor_self by fastforce
  next
    case False
    then have "IsValueConstant hdr u = Some 0"
      using assms(2) nd by (auto simp: IsZeroOp_def split: ir_op.splits ir_binop.splits option.splits)
    then show ?thesis using constant_value [OF assms(1) _ assms(3)] by (simp add: ucast_GD)
  qed
qed

lemma sext_op_value:
  assumes "computed szs hdr D t" "IsSextOp hdr l u" "u \<in> D"
  shows "ucast (SSAData t u) = signed_drop_bit 63 (ucast (SSAData t l) :: u64)"
proof -
  obtain nd where nd: "hdr u = Some nd" "Op nd = IR_Sbfe 1 63 l"
    using assms(2) by (auto simp: IsSextOp_def split: option.splits ir_op.splits if_splits)
  then have "Op_Sbfe (Size nd) 0 1 63 (SSAData t l) = Inr (SSAData t u)"
    using computedD(1) [OF assms(1) nd(1) assms(3)] by (simp add: value_of_def)
  then have "GD 0 (signed_drop_bit 63 (ucast (SSAData t l))) = SSAData t u"
    by (cases "Size nd \<le> 8") (simp_all add: Op_Sbfe_def Let_def)
  then show ?thesis by (metis ucast_GD)
qed

section \<open>The pass keeps the meaning of the function\<close>

fun narrow :: "ir_longop \<Rightarrow> ir_binop" where
  "narrow OP_LDIV = OP_DIV"
| "narrow OP_LREM = OP_REM"
| "narrow OP_LUDIV = OP_UDIV"
| "narrow OP_LUREM = OP_UREM"

lemma long_divide_only:
  assumes "long_divide pre hdr k nd = Replace news m"
  shows "\<exists>op l u v. Op nd = IR_Long op l u v"
  using assms by (cases "Op nd") (simp_all add: long_divide_def split: if_splits)

lemma long_divideD:
  assumes "long_divide pre hdr k nd = Replace news m" "Op nd = IR_Long op l u v"
  shows "Size nd = 8" "news = [(k, new_bin hdr (narrow op) l v)]" "m = k"
    "op \<in> {OP_LDIV, OP_LREM} \<and> IsSextOp hdr l u \<or> op \<in> {OP_LUDIV, OP_LUREM} \<and> IsZeroOp hdr u"
  using assms by (cases op; simp add: long_divide_def split: if_splits)+

lemma narrow_value:
  assumes "long_divide pre hdr k nd = Replace news m" "Op nd = IR_Long op l u v" "max (header_size hdr l) (header_size hdr v) = 8"
    "computed szs hdr D t" "u \<in> D"
    "op \<in> {OP_LDIV, OP_LREM} \<Longrightarrow> \<not> (ucast (SSAData t l) = (2 ^ 63 :: u64) \<and> ucast (SSAData t v) = (- 1 :: u64))"
  shows "news = [(k, snd (hd news))] \<and> m = k \<and> value_of szs t (snd (hd news)) = value_of szs t nd"
proof -
  note d = long_divideD [OF assms(1,2)]
  have sz: "binop_size (narrow op) (header_size hdr l) (header_size hdr v) = 8" using assms(3) by (cases op) simp_all
  have "exec_binop (narrow op) 8 8 0 (SSAData t l) (SSAData t v) = exec_longop op 8 0 (SSAData t l) (SSAData t u) (SSAData t v)"
  proof (cases "op \<in> {OP_LUDIV, OP_LUREM}")
    case True
    then have "ucast (SSAData t u) = (0 :: u64)" using zero_op_value assms(4,5) d(4) by auto
    then show ?thesis using True LUDiv_zero_upper by auto
  next
    case False
    then have op: "op \<in> {OP_LDIV, OP_LREM}" "IsSextOp hdr l u" using d(4) by auto
    note ext = sext_op_value [OF assms(4) op(2) assms(5)]
    show ?thesis
    proof (cases "div_defined 64 (sread 8 (SSAData t l)) (sread 8 (SSAData t v))")
      case True
      then show ?thesis using LDiv_sext_upper [OF ext True] op(1) by auto
    next
      case undef: False
      have "sread 8 (SSAData t v) = 0"
      proof (rule ccontr)
        assume "sread 8 (SSAData t v) \<noteq> 0"
        then have "sint (ucast (SSAData t l) :: u64) = sint (2 ^ 63 :: u64)" "sint (ucast (SSAData t v) :: u64) = sint (- 1 :: u64)"
          using undef by (simp_all add: div_defined_def sread_def)
        then have "ucast (SSAData t l) = (2 ^ 63 :: u64) \<and> ucast (SSAData t v) = (- 1 :: u64)"
          by (blast intro: signed_word_eqI)
        then show False using assms(6) [OF op(1)] by blast
      qed
      then show ?thesis using op(1)
        by (auto simp: Op_LDiv_def Op_LRem_def Op_Div_def Op_Rem_def div_defined_def)
    qed
  qed
  then show ?thesis using d assms(2) sz by (simp add: value_of_def new_bin_def Let_def)
qed

text \<open>
  C26: Whatever long division the pass rewrites, the new node computes its result: in a state in which the
  nodes before it have been computed, and with operands of the full size, the narrow division gives the value, or
  the fault, of the long one, except where the lower half is the most negative number and the divisor is minus
  one: there only the long division is defined.
\<close>

theorem long_divide_value:
  assumes "long_divide pre hdr k nd = Replace news m" "Op nd = IR_Long op l u v" "max (header_size hdr l) (header_size hdr v) = 8"
    "computed szs hdr D t" "u \<in> D"
  shows "news = [(k, snd (hd news))] \<and> m = k \<and> value_of szs t (snd (hd news))
    = (if op \<in> {OP_LDIV, OP_LREM} \<and> ucast (SSAData t l) = (2 ^ 63 :: u64) \<and> ucast (SSAData t v) = (- 1 :: u64)
       then Some (Inl UndefinedDivision) else value_of szs t nd)"
proof (cases "op \<in> {OP_LDIV, OP_LREM} \<and> ucast (SSAData t l) = (2 ^ 63 :: u64) \<and> ucast (SSAData t v) = (- 1 :: u64)")
  case True
  note d = long_divideD [OF assms(1,2)]
  have "binop_size (narrow op) (header_size hdr l) (header_size hdr v) = 8" using assms(3) by (cases op) simp_all
  moreover have "\<not> div_defined 64 (sread 8 (SSAData t l)) (sread 8 (SSAData t v))"
    using True by (simp add: div_defined_def sread_def)
  ultimately show ?thesis
    using True d(2,3) by (auto simp: value_of_def new_bin_def Let_def Op_Div_def Op_Rem_def)
next
  case False
  then show ?thesis using narrow_value [OF assms] by auto
qed

text \<open>
  Without knowledge of the dividend, a signed division is rewritten safely when its divisor is a constant other
  than minus one.
\<close>

definition long_divide_safe :: "headers \<Rightarrow> ir_node \<Rightarrow> bool" where
  "long_divide_safe hdr nd =
     (case Op nd of
        IR_Long op l u v \<Rightarrow>
          max (header_size hdr l) (header_size hdr v) = 8
          \<and> (op \<in> {OP_LUDIV, OP_LUREM} \<or> (case IsValueConstant hdr v of Some c \<Rightarrow> c \<noteq> - 1 | None \<Rightarrow> False))
      | _ \<Rightarrow> False)"

lemma guardedD:
  assumes "guarded long_divide_safe long_divide pre hdr k nd = Replace news m"
  obtains op l u v where "long_divide pre hdr k nd = Replace news m" "Op nd = IR_Long op l u v"
    "max (header_size hdr l) (header_size hdr v) = 8"
    "op \<in> {OP_LUDIV, OP_LUREM} \<or> (\<exists>c. IsValueConstant hdr v = Some c \<and> c \<noteq> - 1)"
    "news = [(k, new_bin hdr (narrow op) l v)]" "m = k"
proof -
  have d: "long_divide pre hdr k nd = Replace news m" "long_divide_safe hdr nd"
    using assms by (simp_all add: guarded_def split: if_splits)
  obtain op l u v where op: "Op nd = IR_Long op l u v" using long_divide_only [OF d(1)] by blast
  have "max (header_size hdr l) (header_size hdr v) = 8"
    "op \<in> {OP_LUDIV, OP_LUREM} \<or> (\<exists>c. IsValueConstant hdr v = Some c \<and> c \<noteq> - 1)"
    using d(2) op by (auto simp: long_divide_safe_def split: option.splits)
  then show thesis using that [OF d(1) op] long_divideD(2,3) [OF d(1) op] by blast
qed

lemma never_overwrites: "guarded p long_divide pre hdr k nd \<noteq> Overwrite ir"
  by (cases "Op nd") (simp_all add: guarded_def long_divide_def)

interpretation ld: rewriter "guarded long_divide_safe long_divide"
proof
  fix pre hdr k nd news m D szs t x
  assume r: "guarded long_divide_safe long_divide pre hdr k nd = Replace news m"
  then obtain op l u v where d: "long_divide pre hdr k nd = Replace news m" "Op nd = IR_Long op l u v"
    "max (header_size hdr l) (header_size hdr v) = 8"
    "op \<in> {OP_LUDIV, OP_LUREM} \<or> (\<exists>c. IsValueConstant hdr v = Some c \<and> c \<noteq> - 1)"
    "news = [(k, new_bin hdr (narrow op) l v)]" "m = k" by (rule guardedD)
  have [simp]: "Op (new_bin hdr (narrow op) l v) = IR_Bin (narrow op) l v" by (simp add: new_bin_def Let_def)
  show "\<not> HasSideEffects (Op nd) \<and> \<not> is_load (Op nd) \<and> map fst news = [k..<k + length news]
      \<and> (\<forall>(x, md) \<in> set news. \<not> HasSideEffects (Op md) \<and> sized_arg (Op md) = None)"
    using d(2,5) by simp
  assume "visible hdr pre D"
  assume D: "closed hdr D" "set (value_args (Op nd)) \<subseteq> D" "\<And>a. a \<in> D \<Longrightarrow> a < k"
  then have args: "l \<in> D" "u \<in> D" "v \<in> D" using d(2) by simp_all
  show "local_code D news \<and> m \<in> D \<union> fst ` set news" using d(5,6) args D(3) by auto
  assume t: "computed szs hdr D t" "clean szs news t" "\<not> stopped t" "value_of szs t nd = Some (Inr x)"
  have "\<not> (ucast (SSAData t l) = (2 ^ 63 :: u64) \<and> ucast (SSAData t v) = (- 1 :: u64))" if sg: "op \<in> {OP_LDIV, OP_LREM}"
  proof -
    obtain c where "IsValueConstant hdr v = Some c" "c \<noteq> - 1" using d(4) sg by auto
    then show ?thesis using constant_value [OF t(1) _ args(3)] ucast_GD by metis
  qed
  then have "value_of szs t (new_bin hdr (narrow op) l v) = Some (Inr x)"
    using narrow_value [OF d(1-3) t(1) args(2)] d(5) t(4) by simp
  then show "agree (fst ` set news) t (run_block szs news t) \<and> SSAData (run_block szs news t) m = x"
    using run_one t(2,3) d(5,6) by simp
qed (simp_all add: never_overwrites)

text \<open>
  Long divide elimination keeps the meaning of a well-formed function in which it rewrites only
  divisions with full-size operands that are unsigned or have a constant divisor other than minus one: every
  run that ends without a fault ends with the same guest state, no new run ends, and the list stays well formed.
\<close>

theorem LongDivideElimination_correct:
  assumes "ir_list_ok G" "Blocks G \<noteq> []"
    "LongDivideElimination G = rewrite_list (guarded long_divide_safe long_divide) G"
  shows "preserves (Blocks G) (Blocks (snd (LongDivideElimination G))) \<and> ir_list_ok (snd (LongDivideElimination G))"
  using ld.pass.pass_preserves [OF assms(1,2)] ld.wf_run [OF assms(1)] assms(3) by simp

text \<open>A function that divides with a zeroed upper half, as the guest's \<^verbatim>\<open>xor edx, edx; div\<close> does.\<close>

definition divide_sample :: ir_list where
  "divide_sample = \<lparr>Blocks = [(0, [(1, \<lparr>Op = IR_Constant 7, Size = 8, ElementSize = 8\<rparr>),
       (2, \<lparr>Op = IR_Bin OP_XOR 1 1, Size = 8, ElementSize = 8\<rparr>),
       (3, \<lparr>Op = IR_Constant 3, Size = 8, ElementSize = 8\<rparr>),
       (4, \<lparr>Op = IR_Long OP_LUDIV 1 2 3, Size = 8, ElementSize = 8\<rparr>),
       (5, \<lparr>Op = IR_ExitFunction 4, Size = 8, ElementSize = 8\<rparr>)])],
     NumUses = (\<lambda>n. if n = 1 then 3 else if n \<in> {2, 3, 4} then 1 else 0), NextNode = 6\<rparr>"

lemma divide_sample_ok: "ir_list_ok divide_sample"
  by (auto simp: ir_list_ok_def function_ok_def unique_ids_def vectors_ok_def targets_ok_def uses_ok_def divide_sample_def)

lemma divide_sample_run:
  "LongDivideElimination divide_sample = rewrite_list (guarded long_divide_safe long_divide) divide_sample"
  "map snd (all_code (Blocks (snd (LongDivideElimination divide_sample)))) ! 3 =
     \<lparr>Op = IR_Bin OP_UDIV 1 3, Size = 8, ElementSize = 8\<rparr>"
  by (simp_all add: LongDivideElimination_def rewrite_list_def divide_sample_def guarded_def long_divide_def
      long_divide_safe_def GetOpHeader_def IsZeroOp_def header_size_def new_bin_def map_blocks_def map_node_def Let_def)

theorem LongDivideElimination_correct_witness:
  "preserves (Blocks divide_sample) (Blocks (snd (LongDivideElimination divide_sample)))
   \<and> map snd (all_code (Blocks (snd (LongDivideElimination divide_sample)))) ! 3
     = \<lparr>Op = IR_Bin OP_UDIV 1 3, Size = 8, ElementSize = 8\<rparr>"
proof -
  have "Blocks divide_sample \<noteq> []" by (simp add: divide_sample_def)
  then show ?thesis
    using LongDivideElimination_correct [OF divide_sample_ok _ divide_sample_run(1)] divide_sample_run(2) by simp
qed

theorem long_divide_value_witness:
  "value_of (\<lambda>_. 8) (boot (\<lambda>_. 0) (\<lambda>_. 0)) (new_bin (GetOpHeader (Blocks divide_sample)) OP_UDIV 1 3)
   = value_of (\<lambda>_. 8) (boot (\<lambda>_. 0) (\<lambda>_. 0)) \<lparr>Op = IR_Long OP_LUDIV 1 2 3, Size = 8, ElementSize = 8\<rparr>"
proof -
  let ?h = "GetOpHeader (Blocks divide_sample)" and ?s = "boot (\<lambda>_. 0) (\<lambda>_. 0)"
    and ?nd = "\<lparr>Op = IR_Long OP_LUDIV 1 2 3, Size = 8, ElementSize = 8\<rparr>"
  have "long_divide [] ?h 6 ?nd = Replace [(6, new_bin ?h OP_UDIV 1 3)] 6" "max (header_size ?h 1) (header_size ?h 3) = 8"
    by (simp_all add: long_divide_def GetOpHeader_def divide_sample_def IsZeroOp_def header_size_def)
  moreover have "computed (\<lambda>_. 8) ?h {2} ?s"
    by (auto simp: computed_def GetOpHeader_def divide_sample_def value_of_def boot_def fits_def Op_Xor_def do_op64_def put_bytes_def)
  ultimately show ?thesis using long_divide_value [of "[]" ?h 6 ?nd _ _ OP_LUDIV 1 2 3 "\<lambda>_. 8" "{2}" ?s] by simp
qed

end
