(* ===== verification/Emit_Logic.thy ===== *)
theory Emit_Logic
  imports IR_Emitter Interp_ALU_Props
begin

text \<open>
  A program logic for emitters. \<open>extends\<close> relates a builder to one with more code that still computes
  every earlier value; \<open>emits\<close> is a Hoare-style judgement for one emitter, with a rule per emitted
  operation; \<open>effect\<close> says what a flag emitter does to the guest context, and composes.
\<close>

section \<open>Values of handlers on a fresh cell\<close>

definition valid_size :: "nat \<Rightarrow> bool" where
  "valid_size n \<longleftrightarrow> n \<in> {1, 2, 4, 8}"

definition word_size :: "nat \<Rightarrow> bool" where
  "word_size n \<longleftrightarrow> n = 4 \<or> n = 8"

lemma valid_size_max [simp]: "valid_size a \<Longrightarrow> valid_size b \<Longrightarrow> valid_size (max a b)"
  by (auto simp: valid_size_def max_def)

lemma word_size_max [simp]: "valid_size a \<Longrightarrow> word_size (max 4 a)"
  by (auto simp: valid_size_def word_size_def)

lemma valid_size_simps [simp]:
  "valid_size 8" "valid_size 4" "valid_size 2" "valid_size (Suc 0)" "word_size 4" "word_size 8"
  by (simp_all add: valid_size_def word_size_def)

lemma word_size_valid: "word_size n \<Longrightarrow> valid_size n"
  by (auto simp: valid_size_def word_size_def)

lemma valid_size_le: "valid_size n \<Longrightarrow> n \<le> 8"
  by (auto simp: valid_size_def)

lemma bit_trunc_slot [bit_simps]: "bit (trunc_slot n a) i \<longleftrightarrow> bit a i \<and> i < 8 * n"
  using bit_imp_le_length [of a i] by (auto simp: trunc_slot_def bit_simps)

lemma trunc_slot_trunc [simp]: "trunc_slot n (trunc_slot k a) = trunc_slot (min n k) a"
  by (rule bit_word_eqI) (auto simp: bit_simps)

lemma trunc_slot_0 [simp]: "trunc_slot n 0 = 0"
  by (simp add: trunc_slot_def)

text \<open>A truth value in a cell.\<close>

definition bool_slot :: "bool \<Rightarrow> slot" where
  "bool_slot P = of_bool P"

lemma bit_bool_slot [simp]: "bit (bool_slot P) i \<longleftrightarrow> i = 0 \<and> P"
  by (auto simp: bool_slot_def bit_simps)

lemma trunc_bool_slot [simp]: "0 < n \<Longrightarrow> trunc_slot n (bool_slot P) = bool_slot P"
  by (rule bit_word_eqI) (auto simp: bit_trunc_slot)

lemma bool_slot_eq_0 [simp]: "bool_slot P = 0 \<longleftrightarrow> \<not> P" "0 = bool_slot P \<longleftrightarrow> \<not> P"
  by (auto simp: bool_slot_def)

lemma do_op_fresh:
  "do_op8 f 0 a b = ucast (f (ucast a) (ucast b))" "do_op16 g 0 a b = ucast (g (ucast a) (ucast b))"
  "do_op32 h 0 a b = ucast (h (ucast a) (ucast b))" "do_op64 k 0 a b = ucast (k (ucast a) (ucast b))"
  using put_bytes_fresh_1 [of "f (ucast a) (ucast b)"]
  by (simp_all add: do_op8_def do_op16_def do_op32_def do_op64_def put_bytes_fresh_2
      put_bytes_fresh_4 put_bytes_fresh_8 del: One_nat_def)

lemma GD_fresh: "GD 0 v = ucast v"
  by (simp only: GD_def put_bytes_fresh_8)

lemma Op_Constant_fresh: "Op_Constant 0 k = Inr (ucast k)"
  by (simp add: Op_Constant_def GD_fresh)

lemma Op_Xor_fresh: "valid_size sz \<Longrightarrow> Op_Xor sz 0 a b = Inr (trunc_slot sz (a XOR b))"
  by (auto simp: Op_Xor_def valid_size_def do_op_fresh intro!: bit_word_eqI) (auto simp: bit_simps)

lemma Op_And_fresh: "valid_size sz \<Longrightarrow> Op_And sz 0 a b = Inr (trunc_slot sz (a AND b))"
  by (auto simp: Op_And_def valid_size_def do_op_fresh intro!: bit_word_eqI) (auto simp: bit_simps)

lemma Op_Or_fresh: "valid_size sz \<Longrightarrow> Op_Or sz 0 a b = Inr (trunc_slot sz (a OR b))"
  by (auto simp: Op_Or_def valid_size_def do_op_fresh intro!: bit_word_eqI) (auto simp: bit_simps)

lemma Op_Andn_fresh: "valid_size sz \<Longrightarrow> Op_Andn sz 0 a b = Inr (trunc_slot sz (a AND NOT b))"
  by (auto simp: Op_Andn_def valid_size_def do_op_fresh intro!: bit_word_eqI) (auto simp: bit_simps)

lemma ucast_add_trunc:
  "(ucast ((ucast a :: u32) + ucast b) :: slot) = trunc_slot 4 (a + b)"
  "(ucast ((ucast a :: u64) + ucast b) :: slot) = trunc_slot 8 (a + b)"
  by (rule word_uint_eqI; simp add: trunc_slot_def uint_word_arith_bintrs uint_ucast_take_bit
      take_bit_eq_mask [symmetric] unsigned_take_bit_eq take_bit_add)+

lemma ucast_sub_trunc:
  "(ucast ((ucast a :: u32) - ucast b) :: slot) = trunc_slot 4 (a - b)"
  "(ucast ((ucast a :: u64) - ucast b) :: slot) = trunc_slot 8 (a - b)"
  by (rule word_uint_eqI; simp add: trunc_slot_def uint_word_arith_bintrs uint_ucast_take_bit
      take_bit_eq_mask [symmetric] unsigned_take_bit_eq take_bit_diff)+

lemma Op_Add_fresh: "word_size sz \<Longrightarrow> Op_Add sz 0 a b = Inr (trunc_slot sz (a + b))"
  by (auto simp: Op_Add_def word_size_def do_op_fresh ucast_add_trunc)

lemma Op_Sub_fresh: "word_size sz \<Longrightarrow> Op_Sub sz 0 a b = Inr (trunc_slot sz (a - b))"
  by (auto simp: Op_Sub_def word_size_def do_op_fresh ucast_sub_trunc)

lemma Op_Lshr_fresh:
  "word_size sz \<Longrightarrow> Op_Lshr sz 0 a b = Inr (drop_bit (shift_amount sz b) (trunc_slot sz a))"
  by (auto simp: Op_Lshr_def word_size_def GD_fresh intro!: bit_word_eqI) (auto simp: bit_simps)

lemma Op_Lshl_fresh:
  "word_size sz \<Longrightarrow> Op_Lshl sz 0 a b = Inr (trunc_slot sz (push_bit (shift_amount sz b) a))"
  by (auto simp: Op_Lshl_def word_size_def GD_fresh intro!: bit_word_eqI) (auto simp: bit_simps)

lemma Op_Bfe_fresh:
  "sz \<le> 8 \<Longrightarrow> lsb + w \<le> 64 \<Longrightarrow> Op_Bfe sz 0 w lsb a = Inr (take_bit w (drop_bit lsb a))"
  by (auto simp: Op_Bfe_def GD_fresh intro!: bit_word_eqI) (auto simp: bit_simps)

lemma Op_Bfe_bit: "sz \<le> 8 \<Longrightarrow> lsb < 64 \<Longrightarrow> Op_Bfe sz 0 1 lsb a = Inr (bool_slot (bit a lsb))"
  by (subst Op_Bfe_fresh) (auto intro!: bit_word_eqI simp del: take_bit_Suc_0 simp: bit_simps)

lemma Op_Popcount_fresh: "Op_Popcount 0 a = Inr (ucast (word_of_nat (popcount (ucast a :: u64)) :: u64))"
  by (simp add: Op_Popcount_def GD_fresh)

lemma Op_GetHostFlag_fresh: "f < 64 \<Longrightarrow> Op_GetHostFlag 0 a f = Inr (bool_slot (bit a f))"
  by (auto simp: Op_GetHostFlag_def GD_fresh intro!: bit_word_eqI) (auto simp: bit_simps bit_1_iff)

lemma Op_LoadFlag_fresh: "Op_LoadFlag c 0 f = Inr (ucast (c (off_flags + f)))"
  by (auto simp: Op_LoadFlag_def GD_fresh intro!: bit_word_eqI)
     (auto simp: bit_simps dest: bit_imp_le_length)

text \<open>Unsigned comparisons look at the low \<open>CompareSize\<close> bytes.\<close>

fun ucond :: "CondClass \<Rightarrow> slot \<Rightarrow> slot \<Rightarrow> bool" where
  "ucond COND_EQ a b \<longleftrightarrow> a = b"
| "ucond COND_NEQ a b \<longleftrightarrow> a \<noteq> b"
| "ucond COND_ULT a b \<longleftrightarrow> a < b"
| "ucond COND_ULE a b \<longleftrightarrow> a \<le> b"
| "ucond COND_UGT a b \<longleftrightarrow> a > b"
| "ucond COND_UGE a b \<longleftrightarrow> a \<ge> b"
| "ucond _ a b \<longleftrightarrow> False"

definition unsigned_cond :: "CondClass \<Rightarrow> bool" where
  "unsigned_cond cc \<longleftrightarrow> cc \<in> {COND_EQ, COND_NEQ, COND_ULT, COND_ULE, COND_UGT, COND_UGE}"

lemma unsigned_cond_simps [simp]:
  "unsigned_cond COND_EQ" "unsigned_cond COND_NEQ" "unsigned_cond COND_ULT"
  "unsigned_cond COND_ULE" "unsigned_cond COND_UGT" "unsigned_cond COND_UGE"
  by (simp_all add: unsigned_cond_def)

lemma uint_trunc: "uint (trunc_slot n a) = take_bit (8 * n) (uint a)"
  by (simp add: trunc_slot_def take_bit_eq_mask [symmetric] unsigned_take_bit_eq)

lemma IsConditionTrue_unsigned:
  assumes "word_size cs" and "unsigned_cond cc"
  shows "IsConditionTrue cs cc (ucast a) (ucast b) = Inr (ucond cc (trunc_slot cs a) (trunc_slot cs b))"
  using assms
  by (auto simp: word_size_def unsigned_cond_def IsConditionTrue_def word_uint_eq_iff word_less_def
      word_le_def uint_trunc uint_ucast_take_bit)

lemma Op_Select_fresh:
  assumes "word_size sz" "word_size cs" "unsigned_cond cc"
  shows "Op_Select sz 0 cs cc a b t f
     = Inr (trunc_slot sz (if ucond cc (trunc_slot cs a) (trunc_slot cs b) then t else f))"
proof -
  have "(ucast (if sz = 4 then ucast (ucast x :: u32) else ucast x :: u64) :: slot) = trunc_slot sz x" for x
    using assms(1) by (auto simp: word_size_def intro!: bit_word_eqI) (auto simp: bit_simps)
  then show ?thesis
    using assms(2,3) by (simp add: Op_Select_def IsConditionTrue_unsigned GD_fresh)
qed

lemma Op_Sbfe_sign:
  assumes "lsb < 64"
  shows "Op_Sbfe 8 0 1 lsb a = Inr (if bit a lsb then mask 64 else 0)"
proof -
  have "signed_drop_bit 63 (push_bit (63 - lsb) (ucast a)) = (if bit a lsb then - 1 else 0 :: u64)"
  proof (rule bit_word_eqI)
    fix n assume "n < LENGTH(64)"
    then show "bit (signed_drop_bit 63 (push_bit (63 - lsb) (ucast a :: u64))) n
        \<longleftrightarrow> bit (if bit a lsb then - 1 else 0 :: u64) n"
      using assms by (cases n) (auto simp: bit_simps)
  qed
  moreover have "ucast (- 1 :: u64) = (mask 64 :: slot)" by (rule bit_word_eqI) (simp add: bit_simps)
  ultimately show ?thesis
    using assms by (simp add: Op_Sbfe_def GD_fresh Let_def)
qed

section \<open>Extensions of a builder\<close>

lemma SSAData_set [simp]:
  "SSAData (set_fault e s) = SSAData s" "SSAData (set_slot n v s) = (SSAData s)(n := v)"
  "SSAData (set_mem_result mr s) = SSAData s" "SSAData (set_ctx_result cr s) = SSAData s"
  by (auto simp: set_fault_def set_slot_def set_mem_result_def set_ctx_result_def split: sum.splits)

lemma SSAData_set_fetch: "i \<noteq> n \<Longrightarrow> SSAData (set_fetch_result n k r s) i = SSAData s i"
  by (auto simp: set_fetch_result_def split: sum.splits)

lemma exec_effect_frame: "i \<noteq> n \<Longrightarrow> SSAData (exec_effect s n sz el ir) i = SSAData s i"
  by (cases ir) (auto simp: SSAData_set_fetch split: sum.splits bool.splits)

lemma exec_node_frame: "i \<noteq> n \<Longrightarrow> SSAData (exec_node szs n nd s) i = SSAData s i"
  by (auto simp: exec_node_def exec_effect_frame split: option.splits sum.splits)

lemma exec_from_frame:
  "i < length pre \<or> length pre + length nds \<le> i \<Longrightarrow> SSAData (exec_from pre nds s) i = SSAData s i"
  by (induction pre nds s rule: exec_from.induct) (auto simp: exec_node_frame)

lemma run_code_fresh: "length (code B) \<le> i \<Longrightarrow> SSAData (run_code c m B) i = 0"
  unfolding run_code_def by (subst exec_from_frame) (auto simp: boot_def)

text \<open>
  \<open>extends c m B B'\<close>: \<open>B'\<close> has the code of \<open>B\<close> followed by more nodes, which run without a fault and
  keep memory and control state; so every value of \<open>B\<close> is still there. The configuration is the same.
\<close>

definition extends :: "context_bytes \<Rightarrow> memory \<Rightarrow> builder \<Rightarrow> builder \<Rightarrow> bool" where
  "extends c m B B' \<longleftrightarrow>
     (\<exists>nds. code B' = code B @ nds) \<and> Fault (run_code c m B') = None
     \<and> Mem (run_code c m B') = Mem (run_code c m B)
     \<and> CurrentEntry (run_code c m B') = CurrentEntry (run_code c m B)
     \<and> Quit (run_code c m B') = Quit (run_code c m B) \<and> Redo (run_code c m B') = Redo (run_code c m B)
     \<and> ABINoPF B' = ABINoPF B \<and> Is64BitMode B' = Is64BitMode B"

abbreviation ok :: "context_bytes \<Rightarrow> memory \<Rightarrow> builder \<Rightarrow> bool" where
  "ok c m B \<equiv> Fault (run_code c m B) = None"

abbreviation ctx_of :: "context_bytes \<Rightarrow> memory \<Rightarrow> builder \<Rightarrow> context_bytes" where
  "ctx_of c m B \<equiv> Context (run_code c m B)"

abbreviation val_of :: "context_bytes \<Rightarrow> memory \<Rightarrow> builder \<Rightarrow> node_id \<Rightarrow> slot" where
  "val_of c m B \<equiv> SSAData (run_code c m B)"

lemma extends_refl: "ok c m B \<Longrightarrow> extends c m B B"
  by (simp add: extends_def)

lemma extends_trans: "extends c m A B \<Longrightarrow> extends c m B C \<Longrightarrow> extends c m A C"
  by (auto simp: extends_def)

lemma extends_ok: "extends c m A B \<Longrightarrow> ok c m B"
  by (simp add: extends_def)

lemma extends_value: "extends c m A B \<Longrightarrow> n < length (code A) \<Longrightarrow> val_of c m B n = val_of c m A n"
  by (auto simp: extends_def run_code_def exec_from_append exec_from_frame)

lemma extends_size:
  "extends c m A B \<Longrightarrow> n < length (code A) \<Longrightarrow> node_size (code B) n = node_size (code A) n"
  by (auto simp: extends_def node_size_def nth_append)

lemma extends_length: "extends c m A B \<Longrightarrow> length (code A) \<le> length (code B)"
  by (auto simp: extends_def)

text \<open>A node with its size and value.\<close>

definition has_node :: "context_bytes \<Rightarrow> memory \<Rightarrow> builder \<Rightarrow> node_id \<Rightarrow> nat \<Rightarrow> slot \<Rightarrow> bool" where
  "has_node c m B n sz v \<longleftrightarrow>
     n < length (code B) \<and> node_size (code B) n = sz \<and> val_of c m B n = v"

lemma has_node_extends: "has_node c m A n sz v \<Longrightarrow> extends c m A B \<Longrightarrow> has_node c m B n sz v"
  using extends_value extends_size extends_length by (fastforce simp: has_node_def)

section \<open>Judgement for emitters\<close>

definition emits ::
  "context_bytes \<Rightarrow> memory \<Rightarrow> builder \<Rightarrow> 'a emitter \<Rightarrow> ('a \<Rightarrow> builder \<Rightarrow> bool) \<Rightarrow> bool" where
  "emits c m B f Q \<longleftrightarrow>
     (case run_state f B of (r, B') \<Rightarrow> extends c m B B' \<and> Q r B')"

lemma emits_return: "ok c m B \<Longrightarrow> Q r B \<Longrightarrow> emits c m B (State_Monad.return r) Q"
  by (simp add: emits_def extends_refl State_Monad.return_def)

lemma emits_bind:
  assumes "emits c m B f P"
    and "\<And>r B'. extends c m B B' \<Longrightarrow> P r B' \<Longrightarrow> emits c m B' (g r) Q"
  shows "emits c m B (f \<bind> g) Q"
proof -
  obtain r B' where f: "run_state f B = (r, B')" by fastforce
  obtain r' B'' where g: "run_state (g r) B' = (r', B'')" by fastforce
  have "extends c m B B'" "P r B'" using assms(1) f by (auto simp: emits_def)
  moreover from this have "emits c m B' (g r) Q" using assms(2) by blast
  then have "extends c m B' B''" "Q r' B''" using g by (auto simp: emits_def)
  ultimately show ?thesis
    using f g extends_trans by (simp add: emits_def State_Monad.bind_def)
qed

lemma emits_weaken:
  "emits c m B f P \<Longrightarrow> (\<And>r B'. extends c m B B' \<Longrightarrow> P r B' \<Longrightarrow> Q r B') \<Longrightarrow> emits c m B f Q"
  by (auto simp: emits_def)

lemma emits_run: "emits c m B g Q \<Longrightarrow> run_state f B = run_state g B \<Longrightarrow> emits c m B f Q"
  by (simp add: emits_def)

lemma run_state_bind [simp]:
  "run_state (f \<bind> g) B = (case run_state f B of (r, B') \<Rightarrow> run_state (g r) B')"
  by (simp add: State_Monad.bind_def)

lemma run_state_return [simp]: "run_state (State_Monad.return r) B = (r, B)"
  by (simp add: State_Monad.return_def)

lemma op_size_run [simp]: "run_state (op_size n) B = (node_size (code B) n, B)"
  by (simp add: op_size_def)

lemma get_builder_run [simp]: "run_state get_builder B = (B, B)"
  by (simp add: get_builder_def)

lemma modify_builder_run [simp]: "run_state (modify_builder f) B = ((), f B)"
  by (simp add: modify_builder_def)

lemma run_code_emit:
  "run_code c m (B\<lparr>code := code B @ [nd]\<rparr>)
     = exec_node (node_size (code B)) (length (code B)) nd (run_code c m B)"
  by (simp add: run_code_append)

text \<open>One appended value: it sits at the old length and nothing else changes.\<close>

definition appended :: "context_bytes \<Rightarrow> memory \<Rightarrow> builder \<Rightarrow> nat \<Rightarrow> slot \<Rightarrow> builder \<Rightarrow> bool" where
  "appended c m B sz v B' \<longleftrightarrow>
     length (code B') = Suc (length (code B))
     \<and> node_size (code B') = (node_size (code B))(length (code B) := sz)
     \<and> val_of c m B' = (val_of c m B)(length (code B) := v)
     \<and> ctx_of c m B' = ctx_of c m B \<and> ok c m B'
     \<and> ABINoPF B' = ABINoPF B \<and> Is64BitMode B' = Is64BitMode B"

lemma emit_value:
  assumes "ok c m B"
    and "exec_value (node_size (code B)) (run_code c m B) sz el 0 ir = Some (Inr v)"
  shows "emits c m B (emit ir sz el) (\<lambda>r B'. r = length (code B) \<and> appended c m B sz v B')"
proof -
  have "run_code c m (B\<lparr>code := code B @ [\<lparr>Op = ir, Size = sz, ElementSize = el\<rparr>]\<rparr>)
      = set_slot (length (code B)) v (run_code c m B)"
    using assms by (simp add: run_code_emit exec_node_def run_code_fresh)
  then show ?thesis
    using assms(1)
    by (auto simp: emits_def emit_def extends_def appended_def node_size_def set_slot_def nth_append)
qed

section \<open>Symbolic execution of emitters\<close>

text \<open>
  The view of a builder: number of nodes, their sizes and values, the guest context and the
  configuration. \<open>runs\<close> is the judgement for all builders with a given view; its rules
  follow the emitted operations one by one, with the view as explicit symbolic state. Each rule
  has one side condition.
\<close>

abbreviation siz_of :: "builder \<Rightarrow> node_id \<Rightarrow> nat" where
  "siz_of B \<equiv> node_size (code B)"

definition view ::
  "context_bytes \<Rightarrow> memory \<Rightarrow> builder \<Rightarrow> nat \<Rightarrow> (node_id \<Rightarrow> nat) \<Rightarrow> (node_id \<Rightarrow> slot) \<Rightarrow> context_bytes
   \<Rightarrow> bool \<Rightarrow> bool" where
  "view c m B L S V X p \<longleftrightarrow>
     length (code B) = L \<and> siz_of B = S \<and> val_of c m B = V \<and> ctx_of c m B = X \<and> ABINoPF B = p
     \<and> ok c m B"

definition runs ::
  "context_bytes \<Rightarrow> memory \<Rightarrow> nat \<Rightarrow> (node_id \<Rightarrow> nat) \<Rightarrow> (node_id \<Rightarrow> slot) \<Rightarrow> context_bytes
   \<Rightarrow> bool \<Rightarrow> 'a emitter \<Rightarrow> ('a \<Rightarrow> builder \<Rightarrow> bool) \<Rightarrow> bool" where
  "runs c m L S V X p f Q \<longleftrightarrow> (\<forall>B. view c m B L S V X p \<longrightarrow> emits c m B f Q)"

lemma runsD: "runs c m L S V X p f Q \<Longrightarrow> view c m B L S V X p \<Longrightarrow> emits c m B f Q"
  by (simp add: runs_def)

lemma runs_value:
  assumes "\<And>B. view c m B L S V X p \<Longrightarrow> run_state f B = run_state (emit ir sz el) B"
    and "\<And>B. view c m B L S V X p \<Longrightarrow> exec_value S (run_code c m B) sz el 0 ir = Some (Inr v)"
    and "runs c m (Suc L) (S(L := sz)) (V(L := v)) X p (g L) Q"
  shows "runs c m L S V X p (f \<bind> g) Q"
  unfolding runs_def
proof (intro allI impI)
  fix B assume B: "view c m B L S V X p"
  then have ok: "ok c m B" and L: "length (code B) = L" and S: "siz_of B = S" by (auto simp: view_def)
  show "emits c m B (f \<bind> g) Q"
  proof (rule emits_bind)
    show "emits c m B f (\<lambda>r B'. r = length (code B) \<and> appended c m B sz v B')"
      by (rule emits_run [OF emit_value [OF ok] assms(1) [OF B]]) (simp add: S assms(2) [OF B])
    fix r B' assume "r = length (code B) \<and> appended c m B sz v B'"
    then have "view c m B' (Suc L) (S(L := sz)) (V(L := v)) X p" and "r = L"
      using B by (auto simp: view_def appended_def)
    then show "emits c m B' (g r) Q" using runsD [OF assms(3)] by simp
  qed
qed

lemma runs_Constant:
  "True \<Longrightarrow> runs c m (Suc L) (S(L := 8)) (V(L := ucast k)) X p (g L) Q
   \<Longrightarrow> runs c m L S V X p (e_Constant k \<bind> g) Q"
  by (rule runs_value [where ir = "IR_Constant k" and g = g])
     (auto simp: e_Constant_def Op_Constant_fresh)

lemma runs_Xor:
  assumes "valid_size (max (S a) (S b))"
    and "runs c m (Suc L) (S(L := max (S a) (S b)))
      (V(L := trunc_slot (max (S a) (S b)) (V a XOR V b))) X p (g L) Q"
  shows "runs c m L S V X p (e_Bin OP_XOR a b \<bind> g) Q"
  by (rule runs_value [where g = g, OF _ _ assms(2)])
     (use assms(1) in \<open>auto simp: e_Bin_def Op_Xor_fresh view_def\<close>)

lemma runs_And:
  assumes "valid_size (max (S a) (S b))"
    and "runs c m (Suc L) (S(L := max (S a) (S b)))
      (V(L := trunc_slot (max (S a) (S b)) (V a AND V b))) X p (g L) Q"
  shows "runs c m L S V X p (e_Bin OP_AND a b \<bind> g) Q"
  by (rule runs_value [where g = g, OF _ _ assms(2)])
     (use assms(1) in \<open>auto simp: e_Bin_def Op_And_fresh view_def\<close>)

lemma runs_Or:
  assumes "valid_size (max (S a) (S b))"
    and "runs c m (Suc L) (S(L := max (S a) (S b)))
      (V(L := trunc_slot (max (S a) (S b)) (V a OR V b))) X p (g L) Q"
  shows "runs c m L S V X p (e_Bin OP_OR a b \<bind> g) Q"
  by (rule runs_value [where g = g, OF _ _ assms(2)])
     (use assms(1) in \<open>auto simp: e_Bin_def Op_Or_fresh view_def\<close>)

lemma runs_Add:
  assumes "valid_size (max (S a) (S b))"
    and "runs c m (Suc L) (S(L := max 4 (max (S a) (S b))))
      (V(L := trunc_slot (max 4 (max (S a) (S b))) (V a + V b))) X p (g L) Q"
  shows "runs c m L S V X p (e_Bin OP_ADD a b \<bind> g) Q"
  by (rule runs_value [where g = g, OF _ _ assms(2)])
     (use assms(1) in \<open>auto simp: e_Bin_def Op_Add_fresh view_def\<close>)

lemma runs_Sub:
  assumes "valid_size (max (S a) (S b))"
    and "runs c m (Suc L) (S(L := max 4 (max (S a) (S b))))
      (V(L := trunc_slot (max 4 (max (S a) (S b))) (V a - V b))) X p (g L) Q"
  shows "runs c m L S V X p (e_Bin OP_SUB a b \<bind> g) Q"
  by (rule runs_value [where g = g, OF _ _ assms(2)])
     (use assms(1) in \<open>auto simp: e_Bin_def Op_Sub_fresh view_def\<close>)

lemma runs_Lshr:
  assumes "valid_size (S a)"
    and "runs c m (Suc L) (S(L := max 4 (S a)))
      (V(L := drop_bit (shift_amount (max 4 (S a)) (V b)) (trunc_slot (max 4 (S a)) (V a)))) X p (g L) Q"
  shows "runs c m L S V X p (e_Bin OP_LSHR a b \<bind> g) Q"
  by (rule runs_value [where g = g, OF _ _ assms(2)])
     (use assms(1) in \<open>auto simp: e_Bin_def Op_Lshr_fresh view_def\<close>)

lemma runs_Lshl:
  assumes "valid_size (S a)"
    and "runs c m (Suc L) (S(L := max 4 (S a)))
      (V(L := trunc_slot (max 4 (S a)) (push_bit (shift_amount (max 4 (S a)) (V b)) (V a)))) X p (g L) Q"
  shows "runs c m L S V X p (e_Bin OP_LSHL a b \<bind> g) Q"
  by (rule runs_value [where g = g, OF _ _ assms(2)])
     (use assms(1) in \<open>auto simp: e_Bin_def Op_Lshl_fresh view_def\<close>)

lemma runs_Bfe1:
  assumes "S a \<le> 8 \<and> lsb < 64"
    and "runs c m (Suc L) (S(L := S a)) (V(L := bool_slot (bit (V a) lsb))) X p (g L) Q"
  shows "runs c m L S V X p (e_Bfe (Suc 0) lsb a \<bind> g) Q"
  by (rule runs_value [where g = g, OF _ _ assms(2)])
     (use assms(1) in \<open>auto simp: e_Bfe_def e_BfeSize_def Op_Bfe_bit [simplified] view_def\<close>)

lemma runs_Bfe:
  assumes "S a \<le> 8 \<and> lsb + w \<le> 64"
    and "runs c m (Suc L) (S(L := S a)) (V(L := take_bit w (drop_bit lsb (V a)))) X p (g L) Q"
  shows "runs c m L S V X p (e_Bfe w lsb a \<bind> g) Q"
  by (rule runs_value [where g = g, OF _ _ assms(2)])
     (use assms(1) in \<open>auto simp: e_Bfe_def e_BfeSize_def Op_Bfe_fresh view_def\<close>)

lemma runs_BfeSize:
  assumes "0 < sz \<and> sz \<le> 8 \<and> lsb + w \<le> 64"
    and "runs c m (Suc L) (S(L := sz)) (V(L := take_bit w (drop_bit lsb (V a)))) X p (g L) Q"
  shows "runs c m L S V X p (e_BfeSize sz w lsb a \<bind> g) Q"
  by (rule runs_value [where g = g, OF _ _ assms(2)])
     (use assms(1) in \<open>auto simp: e_BfeSize_def Op_Bfe_fresh view_def\<close>)

lemma runs_Popcount:
  assumes True
    and "runs c m (Suc L) (S(L := S a))
      (V(L := ucast (word_of_nat (popcount (ucast (V a) :: u64)) :: u64))) X p (g L) Q"
  shows "runs c m L S V X p (e_Un OP_POPCOUNT a \<bind> g) Q"
  by (rule runs_value [where g = g, OF _ _ assms(2)]) (auto simp: e_Un_def Op_Popcount_fresh view_def)

lemma runs_Select:
  assumes "valid_size (max (S a) (S b)) \<and> valid_size (max (S t) (S f)) \<and> unsigned_cond cc"
    and "runs c m (Suc L) (S(L := max 4 (max (S t) (S f))))
      (V(L := trunc_slot (max 4 (max (S t) (S f)))
         (if ucond cc (trunc_slot (max 4 (max (S a) (S b))) (V a))
               (trunc_slot (max 4 (max (S a) (S b))) (V b)) then V t else V f))) X p (g L) Q"
  shows "runs c m L S V X p (e_Select cc a b t f \<bind> g) Q"
  by (rule runs_value [where g = g, OF _ _ assms(2)])
     (use assms(1) in \<open>auto simp: e_Select_def e_SelectSize_def Op_Select_fresh Let_def view_def\<close>)

lemma runs_SbfeSign:
  assumes "lsb < 64"
    and "runs c m (Suc L) (S(L := 8)) (V(L := if bit (V a) lsb then mask 64 else 0)) X p (g L) Q"
  shows "runs c m L S V X p (e_Sbfe (Suc 0) lsb a \<bind> g) Q"
  by (rule runs_value [where g = g, OF _ _ assms(2)])
     (use assms(1) in \<open>auto simp: e_Sbfe_def Op_Sbfe_sign [simplified] view_def\<close>)

lemma runs_GetHostFlag:
  assumes "f < 64"
    and "runs c m (Suc L) (S(L := S a)) (V(L := bool_slot (bit (V a) f))) X p (g L) Q"
  shows "runs c m L S V X p (e_GetHostFlag a f \<bind> g) Q"
  by (rule runs_value [where g = g, OF _ _ assms(2)])
     (use assms(1) in \<open>auto simp: e_GetHostFlag_def Op_GetHostFlag_fresh view_def\<close>)

lemma runs_LoadFlag:
  assumes True
    and "runs c m (Suc L) (S(L := 1)) (V(L := ucast (X (off_flags + f)))) X p (g L) Q"
  shows "runs c m L S V X p (e_LoadFlag f \<bind> g) Q"
  by (rule runs_value [where g = g, OF _ _ assms(2)])
     (auto simp: e_LoadFlag_def Op_LoadFlag_fresh view_def)

lemma runs_get_builder:
  assumes True and "\<And>B. ABINoPF B = p \<Longrightarrow> runs c m L S V X p (g B) Q"
  shows "runs c m L S V X p (get_builder \<bind> g) Q"
  using assms(2) by (auto simp: runs_def emits_def view_def)

lemma runs_InvalidateFlags:
  assumes True and "\<And>B. ctx_of c m B = X \<Longrightarrow> Q () B"
  shows "runs c m L S V X p (e_InvalidateFlags k) Q"
  using assms(2)
  by (auto simp: runs_def view_def emits_def e_InvalidateFlags_def emit_def run_code_emit exec_node_def
      extends_def)

lemma runs_InvalidateFlags_bind:
  assumes True and "runs c m (Suc L) (S(L := 0)) V X p (g ()) Q"
  shows "runs c m L S V X p (e_InvalidateFlags k \<bind> g) Q"
  unfolding runs_def
proof (intro allI impI)
  fix B assume B: "view c m B L S V X p"
  let ?B = "B\<lparr>code := code B @ [\<lparr>Op = IR_InvalidateFlags k, Size = 0, ElementSize = 0\<rparr>]\<rparr>"
  have run: "run_code c m ?B = run_code c m B"
    using B by (simp add: run_code_emit exec_node_def view_def)
  then have "view c m ?B (Suc L) (S(L := 0)) V X p" and "extends c m B ?B"
    using B by (auto simp: view_def extends_def node_size_def nth_append)
  then show "emits c m B (e_InvalidateFlags k \<bind> g) Q"
    using runsD [OF assms(2)] extends_trans
    by (fastforce simp: emits_def e_InvalidateFlags_def emit_def)
qed

lemma runs_return:
  assumes True and "\<And>B. view c m B L S V X p \<Longrightarrow> Q r B"
  shows "runs c m L S V X p (State_Monad.return r) Q"
  using assms(2) by (auto simp: runs_def view_def intro!: emits_return)

lemmas runs_rules =
  runs_Constant runs_Xor runs_And runs_Or runs_Add runs_Sub runs_Lshr runs_Lshl runs_Bfe1
  runs_Bfe1 [folded One_nat_def] runs_SbfeSign [folded One_nat_def] runs_BfeSize runs_Popcount runs_Select runs_SbfeSign runs_GetHostFlag runs_LoadFlag
  runs_get_builder runs_InvalidateFlags runs_InvalidateFlags_bind runs_return

section \<open>Effects on the guest context\<close>

text \<open>
  \<open>effect c m B f g\<close>: run from any extension of \<open>B\<close>, the emitter \<open>f\<close> appends code that changes the
  guest context by \<open>g\<close> and computes every earlier value as before.
\<close>

definition effect ::
  "context_bytes \<Rightarrow> memory \<Rightarrow> builder \<Rightarrow> unit emitter \<Rightarrow> (context_bytes \<Rightarrow> context_bytes) \<Rightarrow> bool" where
  "effect c m B f g \<longleftrightarrow>
     (\<forall>B1. extends c m B B1 \<longrightarrow> emits c m B1 f (\<lambda>_ B2. ctx_of c m B2 = g (ctx_of c m B1)))"

lemma effectI:
  "(\<And>B1. extends c m B B1 \<Longrightarrow> emits c m B1 f (\<lambda>_ B2. ctx_of c m B2 = g (ctx_of c m B1)))
   \<Longrightarrow> effect c m B f g"
  by (simp add: effect_def)

lemma effectD:
  "effect c m B f g \<Longrightarrow> ok c m B \<Longrightarrow> run_state f B = (u, B') \<Longrightarrow>
   extends c m B B' \<and> ctx_of c m B' = g (ctx_of c m B)"
  using extends_refl [of c m B] by (auto simp: effect_def emits_def)

lemma effect_bind:
  assumes "effect c m B f g" and "effect c m B f' g'"
  shows "effect c m B (f \<bind> (\<lambda>_. f')) (\<lambda>x. g' (g x))"
proof (rule effectI)
  fix B1 assume B1: "extends c m B B1"
  show "emits c m B1 (f \<bind> (\<lambda>_. f')) (\<lambda>_ B2. ctx_of c m B2 = g' (g (ctx_of c m B1)))"
  proof (rule emits_bind)
    show "emits c m B1 f (\<lambda>_ B2. ctx_of c m B2 = g (ctx_of c m B1))"
      using assms(1) B1 by (simp add: effect_def)
    fix r B2 assume "extends c m B1 B2" and x: "ctx_of c m B2 = g (ctx_of c m B1)"
    then have "extends c m B B2" using B1 extends_trans by blast
    then show "emits c m B2 f' (\<lambda>_ B3. ctx_of c m B3 = g' (g (ctx_of c m B1)))"
      using assms(2) unfolding effect_def x [symmetric] by blast
  qed
qed

lemma effect_return: "effect c m B (State_Monad.return ()) (\<lambda>x. x)"
  by (auto simp: effect_def intro!: emits_return extends_ok)

lemma effect_if:
  "(P \<Longrightarrow> effect c m B f g) \<Longrightarrow> (\<not> P \<Longrightarrow> effect c m B f' g') \<Longrightarrow>
   effect c m B (if P then f else f') (if P then g else g')"
  by simp

lemma effect_cong: "effect c m B f g \<Longrightarrow> (\<And>x. g x = h x) \<Longrightarrow> effect c m B f h"
  by (simp add: effect_def)

lemma effect_extends: "effect c m B f g \<Longrightarrow> extends c m B B' \<Longrightarrow> effect c m B' f g"
  using extends_trans by (auto simp: effect_def)

end
