(* ===== verification/Pass_ConstProp.thy ===== *)
theory Pass_ConstProp
  imports Pass_LongDivide Emit_Logic
begin

text \<open>
  Constant propagation (\<^verbatim>\<open>IR/Passes/ConstProp.cpp\<close>), as the interpreter's pipeline runs it: without inlined
  constants, on an x86-64 host. \<^verbatim>\<open>HandleConstantPools\<close> is one walk; \<^verbatim>\<open>ZextAndMaskingElimination\<close> and
  \<^verbatim>\<open>ConstantPropagation\<close> are the decisions of another. \<^verbatim>\<open>RemoveUselessMasking\<close> returns its argument, so that the
  cases that only call it change nothing. \<open>overwrites\<close> stands for the generated table \<^verbatim>\<open>IRSizes\<close>: whether an
  operation is large enough to be overwritten by a constant.
\<close>

section \<open>Constant pools\<close>

text \<open>\<^verbatim>\<open>ConstPool\<close> holds the constants of the block that have been kept so far.\<close>

definition ConstPool :: "code \<Rightarrow> u64 \<Rightarrow> node_id option" where
  "ConstPool pre c = map_option fst (find (\<lambda>(a, md). Op md = IR_Constant c) pre)"

definition pool_constant :: decision where
  "pool_constant pre hdr k nd =
     (case Op nd of
        IR_Constant c \<Rightarrow> (case ConstPool pre c of Some a \<Rightarrow> Replace [] a | None \<Rightarrow> Keep)
      | _ \<Rightarrow> Keep)"

definition HandleConstantPools :: "ir_list \<Rightarrow> bool \<times> ir_list" where
  "HandleConstantPools G = rewrite_list pool_constant G"

section \<open>Extensions that are already done\<close>

definition IsBfeAlreadyDone :: "headers \<Rightarrow> node_id \<Rightarrow> nat \<Rightarrow> bool" where
  "IsBfeAlreadyDone hdr src Width =
     (case hdr src of
        Some nd \<Rightarrow> (case Op nd of IR_Bfe W lsb s \<Rightarrow> Width \<ge> W | _ \<Rightarrow> False)
      | None \<Rightarrow> False)"

definition zext_load :: "headers \<Rightarrow> node_id \<Rightarrow> nat \<Rightarrow> bool" where
  "zext_load hdr source Width =
     (case hdr source of
        Some nd \<Rightarrow> Width \<ge> Size nd * 8
          \<and> (case Op nd of IR_LoadMem a off ty scale \<Rightarrow> True | IR_LoadContext off \<Rightarrow> True | _ \<Rightarrow> False)
      | None \<Rightarrow> False)"

definition ZextAndMaskingElimination :: decision where
  "ZextAndMaskingElimination pre hdr k nd =
     (case Op nd of
        IR_Bfe Width lsb Src \<Rightarrow>
          (if IsBfeAlreadyDone hdr Src Width then Replace [] Src
           else if lsb = 0 \<and> zext_load hdr Src Width then Replace [] Src
           else Keep)
      | _ \<Rightarrow> Keep)"

section \<open>Folding\<close>

definition getMask :: "nat \<Rightarrow> u64" where
  "getMask sz = drop_bit (64 - sz * 8) (NOT 0)"

definition constant_node :: "u64 \<Rightarrow> ir_node" where
  "constant_node c = \<lparr>Op = IR_Constant c, Size = 8, ElementSize = 8\<rparr>"

definition ReplaceWithConstant :: "(ir_op \<Rightarrow> bool) \<Rightarrow> node_id \<Rightarrow> ir_node \<Rightarrow> u64 \<Rightarrow> action" where
  "ReplaceWithConstant overwrites k nd Value =
     (if overwrites (Op nd) then Overwrite (IR_Constant Value) else Replace [(k, constant_node Value)] k)"

definition IsMemoryScale :: "u64 \<Rightarrow> bool" where
  "IsMemoryScale Scale \<longleftrightarrow> Scale = 1 \<or> Scale = 2 \<or> Scale = 4 \<or> Scale = 8"

text \<open>
  \<^verbatim>\<open>1 << Constant2\<close> is a shift of an \<^verbatim>\<open>int\<close>: the host reduces the count modulo 32 and the result is sign-extended.
\<close>

definition shift_scale :: "u64 \<Rightarrow> u64" where
  "shift_scale c = scast (push_bit (unat c mod 32) 1 :: u32)"

text \<open>\<^verbatim>\<open>MemExtendedAddressing\<close> on the arguments of the addition: offset type, scale, address and offset.\<close>

definition MemExtendedAddressing ::
  "headers \<Rightarrow> node_id \<Rightarrow> node_id \<Rightarrow> MemOffsetType \<times> nat \<times> node_id \<times> node_id" where
  "MemExtendedAddressing hdr x y =
     (let add = (MEM_OFFSET_SXTX, 1, x, y) in
      case hdr x of
        None \<Rightarrow> add
      | Some Src0 \<Rightarrow>
          if Size Src0 = 8 then
            (case Op Src0 of
               IR_Bin OP_MUL a b \<Rightarrow>
                 (case IsValueConstant hdr b of
                    Some Scale \<Rightarrow> if IsMemoryScale Scale then (MEM_OFFSET_SXTX, unat Scale, y, a) else add
                  | None \<Rightarrow> add)
             | IR_Bin OP_LSHL a b \<Rightarrow>
                 (case IsValueConstant hdr b of
                    Some Constant2 \<Rightarrow>
                      if IsMemoryScale (shift_scale Constant2)
                      then (MEM_OFFSET_SXTX, unat (shift_scale Constant2), y, a) else add
                  | None \<Rightarrow> add)
             | _ \<Rightarrow> add)
          else add)"

definition fold_address :: "headers \<Rightarrow> node_id \<Rightarrow> (MemOffsetType \<times> nat \<times> node_id \<times> node_id) option" where
  "fold_address hdr Addr =
     (case hdr Addr of
        None \<Rightarrow> None
      | Some AddressHeader \<Rightarrow>
          (case Op AddressHeader of
             IR_Bin OP_ADD x y \<Rightarrow>
               if Size AddressHeader = 8 then Some (MemExtendedAddressing hdr x y) else None
           | _ \<Rightarrow> None))"

text \<open>A select between the constants one and zero, with its comparison.\<close>

definition bool_select :: "headers \<Rightarrow> node_id \<Rightarrow> (CondClass \<times> node_id \<times> node_id \<times> nat) option" where
  "bool_select hdr n =
     (case hdr n of
        None \<Rightarrow> None
      | Some nd \<Rightarrow>
          (case Op nd of
             IR_Select c a b t f cs \<Rightarrow>
               if IsValueConstant hdr t = Some 1 \<and> IsValueConstant hdr f = Some 0 then Some (c, a, b, cs) else None
           | _ \<Rightarrow> None))"

definition fold_constants :: "headers \<Rightarrow> node_id \<Rightarrow> node_id \<Rightarrow> (u64 \<times> u64) option" where
  "fold_constants hdr x y =
     (case IsValueConstant hdr x of
        None \<Rightarrow> None
      | Some Constant1 \<Rightarrow> map_option (Pair Constant1) (IsValueConstant hdr y))"

text \<open>
  The two-source operations. In \<^verbatim>\<open>OP_AND\<close> the branch for \<^verbatim>\<open>Constant2 == 1\<close> is never taken: \<^verbatim>\<open>Constant2\<close> is still
  zero there, because it is read only after the first source turned out to be constant. A multiplication
  by a power of two becomes a shift by a new constant; the walk goes on with these two nodes and drops a
  shift by zero.
\<close>

fun fold_bin :: "(ir_op \<Rightarrow> bool) \<Rightarrow> headers \<Rightarrow> node_id \<Rightarrow> ir_node \<Rightarrow> ir_binop \<Rightarrow> node_id \<Rightarrow> node_id \<Rightarrow> action" where
  "fold_bin ow hdr k nd OP_ADD x y =
     (case fold_constants hdr x y of
        Some (c1, c2) \<Rightarrow> ReplaceWithConstant ow k nd ((c1 + c2) AND getMask (Size nd))
      | None \<Rightarrow> Keep)"
| "fold_bin ow hdr k nd OP_SUB x y =
     (case fold_constants hdr x y of
        Some (c1, c2) \<Rightarrow> ReplaceWithConstant ow k nd ((c1 - c2) AND getMask (Size nd))
      | None \<Rightarrow> Keep)"
| "fold_bin ow hdr k nd OP_AND x y =
     (case fold_constants hdr x y of
        Some (c1, c2) \<Rightarrow> ReplaceWithConstant ow k nd (c1 AND c2 AND getMask (Size nd))
      | None \<Rightarrow> if x = y then Replace [] x else Keep)"
| "fold_bin ow hdr k nd OP_OR x y =
     (case fold_constants hdr x y of
        Some (c1, c2) \<Rightarrow> ReplaceWithConstant ow k nd (c1 OR c2)
      | None \<Rightarrow> if x = y then Replace [] x else Keep)"
| "fold_bin ow hdr k nd OP_XOR x y =
     (case fold_constants hdr x y of
        Some (c1, c2) \<Rightarrow> ReplaceWithConstant ow k nd (c1 XOR c2)
      | None \<Rightarrow> if x = y then Replace [(k, constant_node 0)] k else Keep)"
| "fold_bin ow hdr k nd OP_LSHL x y =
     (case fold_constants hdr x y of
        Some (c1, c2) \<Rightarrow> ReplaceWithConstant ow k nd (push_bit (unat c2 mod 64) c1 AND getMask (Size nd))
      | None \<Rightarrow> if IsValueConstant hdr y = Some 0 then Replace [] x else Keep)"
| "fold_bin ow hdr k nd OP_LSHR x y =
     (case fold_constants hdr x y of
        Some (c1, c2) \<Rightarrow> ReplaceWithConstant ow k nd (drop_bit (unat c2 mod 64) c1 AND getMask (Size nd))
      | None \<Rightarrow> if IsValueConstant hdr y = Some 0 then Replace [] x else Keep)"
| "fold_bin ow hdr k nd OP_MUL x y =
     (case fold_constants hdr x y of
        Some (c1, c2) \<Rightarrow> ReplaceWithConstant ow k nd ((c1 * c2) AND getMask (Size nd))
      | None \<Rightarrow>
          (case IsValueConstant hdr y of
             Some c2 \<Rightarrow>
               if popcount c2 = 1 \<and> (Size nd = 4 \<or> Size nd = 8) then
                 let amt = countr_zero c2 in
                 if amt = 0 then Replace [(k, constant_node 0)] x
                 else Replace [(k, constant_node (word_of_nat amt)),
                        (k + 1, \<lparr>Op = IR_Bin OP_LSHL x k, Size = Size nd, ElementSize = max 4 (header_size hdr x)\<rparr>)] (k + 1)
               else Keep
           | None \<Rightarrow> Keep))"
| "fold_bin ow hdr k nd op x y = Keep"

definition ConstantPropagation :: "(ir_op \<Rightarrow> bool) \<Rightarrow> decision" where
  "ConstantPropagation ow pre hdr k nd =
     (case Op nd of
        IR_LoadMem Addr off ty scale \<Rightarrow>
          (case fold_address hdr Addr of
             Some (OffsetType, OffsetScale, Arg0, Arg1) \<Rightarrow> Overwrite (IR_LoadMem Arg0 (Some Arg1) OffsetType OffsetScale)
           | None \<Rightarrow> Keep)
      | IR_StoreMem Value Addr off ty scale \<Rightarrow>
          (case fold_address hdr Addr of
             Some (OffsetType, OffsetScale, Arg0, Arg1) \<Rightarrow> Overwrite (IR_StoreMem Value Arg0 (Some Arg1) OffsetType OffsetScale)
           | None \<Rightarrow> Keep)
      | IR_Bin op x y \<Rightarrow> fold_bin ow hdr k nd op x y
      | IR_Bfe Width lsb Src \<Rightarrow>
          (case (if Size nd \<le> 8 then IsValueConstant hdr Src else None) of
             Some c \<Rightarrow> ReplaceWithConstant ow k nd (drop_bit lsb (c AND push_bit lsb (source_mask Width)))
           | None \<Rightarrow>
               if Size nd = header_size hdr Src \<and> Width = Size nd * 8 \<and> lsb = 0 then Keep
               else if Width = 1 \<and> lsb = 0 \<and> bool_select hdr Src \<noteq> None then Replace [] Src
               else Keep)
      | IR_CondJump Cond Cmp1 Cmp2 t f cs \<Rightarrow>
          (if Cond = COND_NEQ \<and> IsValueConstant hdr Cmp2 = Some 0 then
             (case bool_select hdr Cmp1 of
                Some (c, a, b, CompareSize) \<Rightarrow> Overwrite (IR_CondJump c a b t f CompareSize)
              | None \<Rightarrow> Keep)
           else Keep)
      | _ \<Rightarrow> Keep)"

text \<open>
  The loop of \<^verbatim>\<open>ConstProp::Run\<close> calls both on every node. A node that the first removed is still looked at by the
  second, which does nothing then: the source of the removed extraction is no constant and no select.
\<close>

definition const_prop :: "(ir_op \<Rightarrow> bool) \<Rightarrow> decision" where
  "const_prop ow pre hdr k nd =
     (case ZextAndMaskingElimination pre hdr k nd of
        Keep \<Rightarrow> ConstantPropagation ow pre hdr k nd
      | a \<Rightarrow> a)"

definition ConstProp_loop :: "(ir_op \<Rightarrow> bool) \<Rightarrow> ir_list \<Rightarrow> ir_list" where
  "ConstProp_loop ow G = snd (rewrite_list (const_prop ow) G)"

section \<open>When folding is sound\<close>

text \<open>
  Copying a node is sound when its value fits the size of the operation; folding disjunctions, shifts and
  products needs constants that fit it.
\<close>

definition copy_ok :: "headers \<Rightarrow> node_id \<Rightarrow> nat \<Rightarrow> bool" where
  "copy_ok hdr a n = (case hdr a of Some nd \<Rightarrow> \<not> HasSideEffects (Op nd) \<and> op_width nd \<le> n | None \<Rightarrow> False)"

definition address_ok :: "headers \<Rightarrow> node_id \<Rightarrow> bool" where
  "address_ok hdr Addr =
     (case hdr Addr of
        Some nd \<Rightarrow>
          (case Op nd of
             IR_Bin OP_ADD x y \<Rightarrow>
               (case hdr x of
                  Some Src0 \<Rightarrow>
                    (case Op Src0 of
                       IR_Bin OP_LSHL a b \<Rightarrow> (case IsValueConstant hdr b of Some c \<Rightarrow> c < 32 | None \<Rightarrow> True)
                     | _ \<Rightarrow> True)
                | None \<Rightarrow> False)
           | _ \<Rightarrow> True)
      | None \<Rightarrow> False)"

fun bin_safe :: "headers \<Rightarrow> nat \<Rightarrow> ir_binop \<Rightarrow> node_id \<Rightarrow> node_id \<Rightarrow> bool" where
  "bin_safe hdr sz OP_AND x y = (fold_constants hdr x y = None \<longrightarrow> copy_ok hdr x sz)"
| "bin_safe hdr sz OP_OR x y =
     (case fold_constants hdr x y of
        Some (c1, c2) \<Rightarrow> (c1 OR c2) AND getMask sz = c1 OR c2
      | None \<Rightarrow> copy_ok hdr x sz)"
| "bin_safe hdr sz OP_XOR x y =
     (case fold_constants hdr x y of Some (c1, c2) \<Rightarrow> (c1 XOR c2) AND getMask sz = c1 XOR c2 | None \<Rightarrow> True)"
| "bin_safe hdr sz OP_LSHL x y =
     (case fold_constants hdr x y of Some (c1, c2) \<Rightarrow> unat c2 < 8 * sz | None \<Rightarrow> copy_ok hdr x sz)"
| "bin_safe hdr sz OP_LSHR x y =
     (case fold_constants hdr x y of
        Some (c1, c2) \<Rightarrow> unat c2 < 8 * sz \<and> c1 AND getMask sz = c1
      | None \<Rightarrow> copy_ok hdr x sz)"
| "bin_safe hdr sz OP_MUL x y = (sz = 8 \<and> (IsValueConstant hdr y = Some 1 \<longrightarrow> copy_ok hdr x 8))"
| "bin_safe hdr sz op x y = True"

definition bfe_safe :: "headers \<Rightarrow> nat \<Rightarrow> node_id \<Rightarrow> bool" where
  "bfe_safe hdr lsb Src \<longleftrightarrow>
     (case hdr Src of Some nd \<Rightarrow> (case Op nd of IR_Bfe W l s \<Rightarrow> lsb = 0 \<and> l + W \<le> 64 | _ \<Rightarrow> True) | None \<Rightarrow> True)"

definition const_prop_safe :: "headers \<Rightarrow> ir_node \<Rightarrow> bool" where
  "const_prop_safe hdr nd =
     (case Op nd of
        IR_LoadMem Addr off ty scale \<Rightarrow> off = None \<and> address_ok hdr Addr
      | IR_StoreMem Value Addr off ty scale \<Rightarrow> off = None \<and> address_ok hdr Addr
      | IR_Bin op x y \<Rightarrow> bin_safe hdr (Size nd) op x y
      | IR_Bfe Width lsb Src \<Rightarrow> lsb + Width \<le> 64 \<and> bfe_safe hdr lsb Src
      | _ \<Rightarrow> True)"

section \<open>Values\<close>

lemma bit_getMask: "sz \<le> 8 \<Longrightarrow> bit (getMask sz) i \<longleftrightarrow> i < 8 * sz"
  by (auto simp: getMask_def bit_simps)

lemma trunc_mask: "sz \<le> 8 \<Longrightarrow> trunc_slot sz a = ucast ((ucast a :: u64) AND getMask sz)"
  by (rule bit_word_eqI) (auto simp: bit_simps bit_getMask)

lemma ucast_down:
  "(ucast (ucast c1 + ucast c2 :: slot) :: u64) = c1 + c2" "(ucast (ucast c1 - ucast c2 :: slot) :: u64) = c1 - c2"
  "(ucast (ucast c1 AND ucast c2 :: slot) :: u64) = c1 AND c2" "(ucast (ucast c1 OR ucast c2 :: slot) :: u64) = c1 OR c2"
  "(ucast (ucast c1 XOR ucast c2 :: slot) :: u64) = c1 XOR c2" "(ucast (ucast c :: slot) :: u64) = c"
  "(ucast (push_bit n (ucast c) :: slot) :: u64) = push_bit n c"
proof -
  show "(ucast (ucast c1 + ucast c2 :: slot) :: u64) = c1 + c2"
    by (rule word_uint_eqI) (simp add: uint_word_arith_bintrs uint_ucast_take_bit take_bit_add)
  show "(ucast (ucast c1 - ucast c2 :: slot) :: u64) = c1 - c2"
    by (rule word_uint_eqI) (simp add: uint_word_arith_bintrs uint_ucast_take_bit take_bit_diff)
qed (rule bit_word_eqI; auto simp: bit_simps)+

lemma fold_values:
  "Op_Add sz 0 (ucast c1) (ucast c2) = Inr v \<Longrightarrow> v = ucast ((c1 + c2) AND getMask sz)"
  "Op_Sub sz 0 (ucast c1) (ucast c2) = Inr v \<Longrightarrow> v = ucast ((c1 - c2) AND getMask sz)"
  "Op_And sz 0 (ucast c1) (ucast c2) = Inr v \<Longrightarrow> v = ucast (c1 AND c2 AND getMask sz)"
  "Op_Or sz 0 (ucast c1) (ucast c2) = Inr v \<Longrightarrow> (c1 OR c2) AND getMask sz = c1 OR c2 \<Longrightarrow> v = ucast (c1 OR c2)"
  "Op_Xor sz 0 (ucast c1) (ucast c2) = Inr v \<Longrightarrow> (c1 XOR c2) AND getMask sz = c1 XOR c2 \<Longrightarrow> v = ucast (c1 XOR c2)"
proof -
  show "v = ucast ((c1 + c2) AND getMask sz)" if "Op_Add sz 0 (ucast c1) (ucast c2) = Inr v"
    using that Op_Add_fresh [of sz "ucast c1" "ucast c2"]
    by (auto simp: Op_Add_def word_size_def trunc_mask ucast_down split: if_splits)
  show "v = ucast ((c1 - c2) AND getMask sz)" if "Op_Sub sz 0 (ucast c1) (ucast c2) = Inr v"
    using that Op_Sub_fresh [of sz "ucast c1" "ucast c2"]
    by (auto simp: Op_Sub_def word_size_def trunc_mask ucast_down split: if_splits)
  show "v = ucast (c1 AND c2 AND getMask sz)" if "Op_And sz 0 (ucast c1) (ucast c2) = Inr v"
  proof -
    have "valid_size sz" using that by (auto simp: Op_And_def valid_size_def split: if_splits)
    then show ?thesis using that by (auto simp: Op_And_fresh trunc_mask ucast_down and.assoc valid_size_def)
  qed
  show "v = ucast (c1 OR c2)" if "Op_Or sz 0 (ucast c1) (ucast c2) = Inr v" "(c1 OR c2) AND getMask sz = c1 OR c2"
  proof (cases "sz = 16")
    case True
    then show ?thesis using that(1) by (auto simp: Op_Or_def do_op128_def put_bytes_all intro!: bit_word_eqI) (auto simp: bit_simps)
  next
    case False
    then have "valid_size sz" using that(1) by (auto simp: Op_Or_def valid_size_def split: if_splits)
    then show ?thesis using that by (auto simp: Op_Or_fresh trunc_mask ucast_down valid_size_def)
  qed
  show "v = ucast (c1 XOR c2)" if "Op_Xor sz 0 (ucast c1) (ucast c2) = Inr v" "(c1 XOR c2) AND getMask sz = c1 XOR c2"
  proof -
    have "valid_size sz" using that by (auto simp: Op_Xor_def valid_size_def split: if_splits)
    then show ?thesis using that by (auto simp: Op_Xor_fresh trunc_mask ucast_down valid_size_def)
  qed
qed

lemma shift_count:
  fixes c :: u64
  assumes "word_size sz" "unat c < 8 * sz"
  shows "shift_amount sz (ucast c) = unat c"
proof -
  have "unat (c AND mask n) = unat c" if "unat c < 2 ^ n" for n
    using that by (simp add: take_bit_eq_mask [symmetric] unsigned_take_bit_eq take_bit_nat_eq_self)
  from this [of 5] this [of 6] show ?thesis
    using assms by (auto simp: shift_amount_def word_size_def ucast_down mask_eq_exp_minus_1)
qed

lemma shift_values:
  fixes c1 c2 :: u64
  assumes "unat c2 < 8 * sz"
  shows "Op_Lshl sz 0 (ucast c1) (ucast c2) = Inr v \<Longrightarrow> v = ucast (push_bit (unat c2 mod 64) c1 AND getMask sz)"
    "Op_Lshr sz 0 (ucast c1) (ucast c2) = Inr v \<Longrightarrow> c1 AND getMask sz = c1
      \<Longrightarrow> v = ucast (drop_bit (unat c2 mod 64) c1 AND getMask sz)"
proof -
  have sz: "word_size sz" if "Op_Lshl sz 0 (ucast c1) (ucast c2) = Inr v \<or> Op_Lshr sz 0 (ucast c1) (ucast c2) = Inr v"
    using that by (auto simp: Op_Lshl_def Op_Lshr_def word_size_def split: if_splits)
  then have c: "unat c2 mod 64 = unat c2" "sz \<le> 8" if "word_size sz" using assms that by (auto simp: word_size_def)
  show "v = ucast (push_bit (unat c2 mod 64) c1 AND getMask sz)" if "Op_Lshl sz 0 (ucast c1) (ucast c2) = Inr v"
    using that sz c assms by (simp add: Op_Lshl_fresh shift_count trunc_mask ucast_down)
  show "v = ucast (drop_bit (unat c2 mod 64) c1 AND getMask sz)"
    if a: "Op_Lshr sz 0 (ucast c1) (ucast c2) = Inr v" "c1 AND getMask sz = c1"
  proof -
    have "drop_bit n c1 AND getMask sz = drop_bit n c1" for n
    proof (rule bit_word_eqI)
      fix i
      have "bit c1 j \<Longrightarrow> j < 8 * sz" for j
        using arg_cong [OF a(2), of "\<lambda>w. bit w j"] c(2) sz a(1) by (simp add: bit_simps bit_getMask)
      then show "bit (drop_bit n c1 AND getMask sz) i = bit (drop_bit n c1) i"
        using c(2) sz a(1) by (force simp: bit_simps bit_getMask)
    qed
    moreover have "trunc_slot sz (ucast c1) = ucast c1" using trunc_mask [of sz "ucast c1"] c(2) sz a by (simp add: ucast_down)
    moreover have "drop_bit n (ucast c1 :: slot) = ucast (drop_bit n c1)" for n
      by (rule bit_word_eqI) (auto simp: bit_simps dest: bit_imp_le_length)
    ultimately show ?thesis using a(1) sz c assms by (simp add: Op_Lshr_fresh shift_count)
  qed
qed

lemma mul_value: "Op_Mul 8 0 a b = Inr (ucast ((ucast a :: u64) * ucast b))"
  by (simp add: Op_Mul_def sread_def GD_fresh wi_hom_mult)

lemma fits_bit: "fits k a \<Longrightarrow> bit a i \<Longrightarrow> i < 8 * k"
  by (cases "i < 8 * k") (auto simp: fits_def bit_simps dest: arg_cong [where f = "\<lambda>w. bit w i"])

lemma fits_trunc: "fits k a \<Longrightarrow> k \<le> n \<Longrightarrow> trunc_slot n a = a"
proof (rule bit_word_eqI)
  fix i assume a: "fits k a" "k \<le> n"
  then show "bit (trunc_slot n a) i = bit a i" using fits_bit [OF a(1)] by (fastforce simp: bit_simps)
qed

lemma copy_values:
  assumes "fits k a" "k \<le> sz"
  shows "Op_And sz 0 a a = Inr v \<Longrightarrow> v = a" "Op_Or sz 0 a a = Inr v \<Longrightarrow> v = a"
    "Op_Lshl sz 0 a 0 = Inr v \<Longrightarrow> v = a" "Op_Lshr sz 0 a 0 = Inr v \<Longrightarrow> v = a"
proof -
  note t = fits_trunc [OF assms]
  show "v = a" if "Op_And sz 0 a a = Inr v"
  proof -
    have "valid_size sz" using that by (auto simp: Op_And_def valid_size_def split: if_splits)
    then show ?thesis using that t by (simp add: Op_And_fresh)
  qed
  show "v = a" if "Op_Or sz 0 a a = Inr v"
  proof (cases "sz = 16")
    case False
    then have "valid_size sz" using that by (auto simp: Op_Or_def valid_size_def split: if_splits)
    then show ?thesis using that t by (simp add: Op_Or_fresh)
  qed (use that in \<open>simp add: Op_Or_def do_op128_def put_bytes_all\<close>)
  have z: "shift_amount sz 0 = 0" by (simp add: shift_amount_def)
  show "v = a" if "Op_Lshl sz 0 a 0 = Inr v"
  proof -
    have "word_size sz" using that by (auto simp: Op_Lshl_def word_size_def split: if_splits)
    then show ?thesis using that t z by (simp add: Op_Lshl_fresh)
  qed
  show "v = a" if "Op_Lshr sz 0 a 0 = Inr v"
  proof -
    have "word_size sz" using that by (auto simp: Op_Lshr_def word_size_def split: if_splits)
    then show ?thesis using that t z by (simp add: Op_Lshr_fresh)
  qed
qed

lemma bfe_const: "Op_Bfe sz 0 w lsb (ucast c) = Inr v \<Longrightarrow> v = ucast (drop_bit lsb (c AND push_bit lsb (source_mask w)))"
  by (auto simp: Op_Bfe_def GD_fresh ucast_down split: if_splits)

lemma bfe_again:
  assumes "Op_Bfe sz' 0 W l a = Inr b" "l + W \<le> 64" "Op_Bfe sz 0 w 0 b = Inr v" "W \<le> w" "w \<le> 64"
  shows "v = b"
proof -
  have "sz' \<le> 8" "sz \<le> 8" using assms(1,3) by (auto simp: Op_Bfe_def split: if_splits)
  then have "b = take_bit W (drop_bit l a)" "v = take_bit w b"
    using assms Op_Bfe_fresh [of sz' l W a] Op_Bfe_fresh [of sz 0 w b] by simp_all
  then show ?thesis using assms(4) by (simp add: min_def)
qed

lemma bfe_fits:
  assumes "fits k a" "8 * k \<le> w" "Op_Bfe sz 0 w 0 a = Inr v" "w \<le> 64"
  shows "v = a"
proof -
  have "sz \<le> 8" using assms(3) by (auto simp: Op_Bfe_def split: if_splits)
  then have v: "v = take_bit w a" using assms Op_Bfe_fresh [of sz 0 w a] by simp
  have "take_bit w a = a"
  proof (rule bit_word_eqI)
    fix i
    show "bit (take_bit w a) i = bit a i" using fits_bit [OF assms(1)] assms(2) by (fastforce simp: bit_simps)
  qed
  then show ?thesis using v by simp
qed

section \<open>Sound decisions\<close>

lemma const_data: "computed szs hdr D t \<Longrightarrow> IsValueConstant hdr a = Some c \<Longrightarrow> a \<in> D \<Longrightarrow> SSAData t a = ucast c"
  using constant_value by (simp add: GD_fresh)

lemma copy_okD:
  "computed szs hdr D t \<Longrightarrow> copy_ok hdr a n \<Longrightarrow> a \<in> D \<Longrightarrow> fits n (SSAData t a)"
  using computedD(2) [of szs hdr D t a] fits_mono by (fastforce simp: copy_ok_def split: option.splits)

text \<open>The node has the value of a constant, or of another node, whenever it has one.\<close>

definition folded :: "headers \<Rightarrow> ir_node \<Rightarrow> u64 \<Rightarrow> bool" where
  "folded hdr nd c \<longleftrightarrow> (\<forall>szs D t v. computed szs hdr D t \<longrightarrow> set (value_args (Op nd)) \<subseteq> D
     \<longrightarrow> value_of szs t nd = Some (Inr v) \<longrightarrow> v = ucast c)"

definition copied :: "headers \<Rightarrow> ir_node \<Rightarrow> node_id \<Rightarrow> bool" where
  "copied hdr nd a \<longleftrightarrow> a \<in> set (value_args (Op nd)) \<and> (\<forall>szs D t v. computed szs hdr D t
     \<longrightarrow> set (value_args (Op nd)) \<subseteq> D \<longrightarrow> closed hdr D \<longrightarrow> value_of szs t nd = Some (Inr v) \<longrightarrow> v = SSAData t a)"

definition bin_result :: "headers \<Rightarrow> node_id \<Rightarrow> ir_node \<Rightarrow> node_id \<Rightarrow> node_id \<Rightarrow> code \<Rightarrow> node_id \<Rightarrow> bool" where
  "bin_result hdr k nd x y news m \<longleftrightarrow>
     (\<exists>c. news = [(k, constant_node c)] \<and> m = k \<and> folded hdr nd c)
     \<or> (\<exists>a. (news = [] \<or> news = [(k, constant_node 0)]) \<and> m = a \<and> copied hdr nd a)
     \<or> (\<exists>c el. Op nd = IR_Bin OP_MUL x y \<and> Size nd = 8 \<and> IsValueConstant hdr y = Some c \<and> popcount c = 1 \<and> m = k + 1
         \<and> news = [(k, constant_node (word_of_nat (countr_zero c))), (k + 1, \<lparr>Op = IR_Bin OP_LSHL x k, Size = 8, ElementSize = el\<rparr>)])"

lemma fold_constantsD: "fold_constants hdr x y = Some (c1, c2) \<longleftrightarrow> IsValueConstant hdr x = Some c1 \<and> IsValueConstant hdr y = Some c2"
  by (auto simp: fold_constants_def split: option.splits)

lemma foldedI:
  assumes "Op nd = IR_Bin op x y" "fold_constants hdr x y = Some (c1, c2)"
    "\<And>v. exec_binop op (Size nd) (ElementSize nd) 0 (ucast c1) (ucast c2) = Inr v \<Longrightarrow> v = ucast c"
  shows "folded hdr nd c"
  unfolding folded_def
proof (intro allI impI)
  fix szs D t v assume *: "computed szs hdr D t" "set (value_args (Op nd)) \<subseteq> D" "value_of szs t nd = Some (Inr v)"
  have "SSAData t x = ucast c1" "SSAData t y = ucast c2"
    using const_data [OF *(1)] assms(1,2) *(2) by (auto simp: fold_constantsD)
  then show "v = ucast c" using assms(1,3) *(3) by (simp add: value_of_def)
qed

lemma copiedI:
  assumes "Op nd = IR_Bin op x y" "copy_ok hdr x (Size nd)" "y = x \<or> IsValueConstant hdr y = Some 0"
    "\<And>a v. fits (Size nd) a \<Longrightarrow> exec_binop op (Size nd) (ElementSize nd) 0 a (if y = x then a else 0) = Inr v \<Longrightarrow> v = a"
  shows "copied hdr nd x"
  unfolding copied_def
proof (intro conjI allI impI)
  fix szs D t v assume *: "computed szs hdr D t" "set (value_args (Op nd)) \<subseteq> D" "value_of szs t nd = Some (Inr v)"
  have "x \<in> D" "y \<in> D" using *(2) assms(1) by simp_all
  then have "fits (Size nd) (SSAData t x)" "y \<noteq> x \<Longrightarrow> SSAData t y = 0"
    using copy_okD [OF *(1) assms(2)] const_data [OF *(1)] assms(3) by auto
  moreover from this have "SSAData t y = (if y = x then SSAData t x else 0)" by simp
  ultimately show "v = SSAData t x" using assms(4) [of "SSAData t x" v] assms(1) *(3) by (simp add: value_of_def)
qed (simp add: assms(1))

definition action_ok :: "headers \<Rightarrow> node_id \<Rightarrow> ir_node \<Rightarrow> node_id \<Rightarrow> node_id \<Rightarrow> action \<Rightarrow> bool" where
  "action_ok hdr k nd x y a \<longleftrightarrow>
     (case a of
        Keep \<Rightarrow> True
      | Overwrite ir \<Rightarrow> (\<exists>c. ir = IR_Constant c \<and> folded hdr nd c)
      | Replace news m \<Rightarrow> bin_result hdr k nd x y news m)"

lemma action_ok_simps [simp]:
  "action_ok hdr k nd x y Keep"
  "folded hdr nd c \<Longrightarrow> action_ok hdr k nd x y (ReplaceWithConstant ow k nd c)"
  "folded hdr nd c \<Longrightarrow> action_ok hdr k nd x y (Replace [(k, constant_node c)] k)"
  "copied hdr nd a \<Longrightarrow> action_ok hdr k nd x y (Replace [] a)"
  "copied hdr nd a \<Longrightarrow> action_ok hdr k nd x y (Replace [(k, constant_node 0)] a)"
  by (auto simp: action_ok_def ReplaceWithConstant_def bin_result_def)

lemma xor_zero:
  assumes "Op nd = IR_Bin OP_XOR x x"
  shows "folded hdr nd 0"
  using assms xor_self by (fastforce simp: folded_def value_of_def)

lemma power_of_two:
  assumes "popcount c = 1"
  shows "c = push_bit (countr_zero c) (1 :: u64)" "countr_zero c < 64"
proof -
  have "{i. i < 64 \<and> bit c ([0..<64] ! i)} = {i. i < 64 \<and> bit c i}" by auto
  then have "card {i. i < 64 \<and> bit c i} = 1"
    using assms by (simp add: popcount_def length_filter_conv_card)
  then obtain j where j: "{i. i < 64 \<and> bit c i} = {j}" by (auto simp: card_1_singleton_iff)
  have bits: "bit c i \<longleftrightarrow> i = j" for i
  proof
    assume "bit c i"
    then have "i \<in> {i. i < 64 \<and> bit c i}" using bit_imp_le_length by fastforce
    then show "i = j" using j by simp
  qed (use j in blast)
  have "c \<noteq> 0" using bits [of j] by auto
  then have cz: "countr_zero c < 64" "countr_zero c = j" using countr_zero_bit [of c] bits by auto
  then show "countr_zero c < 64" by simp
  show "c = push_bit (countr_zero c) 1"
    using bits cz by (intro bit_word_eqI) (auto simp: bit_simps bit_1_iff)
qed

lemma fold_bin_ok:
  assumes "Op nd = IR_Bin op x y" "bin_safe hdr (Size nd) op x y"
  shows "action_ok hdr k nd x y (fold_bin ow hdr k nd op x y)"
proof (cases "fold_constants hdr x y")
  case (Some p)
  then obtain c1 c2 where c: "fold_constants hdr x y = Some (c1, c2)" by (cases p) simp
  note f = foldedI [OF assms(1) c]
  have mul: "v = ucast ((c1 * c2) AND getMask 8)" if "Op_Mul 8 0 (ucast c1) (ucast c2) = Inr v" for v
    using that by (simp add: mul_value ucast_down getMask_def)
  show ?thesis
    using assms(2) c
    by (cases op) (auto intro!: action_ok_simps(2) f dest: fold_values shift_values mul)
next
  case None
  have copy: "copied hdr nd x" if "copy_ok hdr x (Size nd)" "y = x \<and> op \<in> {OP_AND, OP_OR} \<or> IsValueConstant hdr y = Some 0 \<and> x \<noteq> y \<and> op \<in> {OP_LSHL, OP_LSHR}"
    by (rule copiedI [OF assms(1) that(1)]) (use that(2) copy_values [OF _ order_refl] in auto)
  have neq: "x \<noteq> y" if "IsValueConstant hdr y = Some c" for c
    using that None by (auto simp: fold_constants_def)
  show ?thesis
  proof (cases op)
    case OP_MUL
    have sz: "Size nd = 8" "IsValueConstant hdr y = Some 1 \<Longrightarrow> copy_ok hdr x 8" using assms(2) OP_MUL by simp_all
    have one: "copied hdr nd x" if "IsValueConstant hdr y = Some 1"
      unfolding copied_def
    proof (intro conjI allI impI)
      fix szs D t v assume *: "computed szs hdr D t" "set (value_args (Op nd)) \<subseteq> D" "value_of szs t nd = Some (Inr v)"
      have "fits 8 (SSAData t x)" "SSAData t y = ucast (1 :: u64)"
        using copy_okD [OF *(1) sz(2) [OF that]] const_data [OF *(1) that] *(2) assms(1) by auto
      then show "v = SSAData t x"
        using *(3) assms(1) OP_MUL sz(1) trunc_mask [of 8 "SSAData t x"] fits_trunc [of 8 "SSAData t x" 8]
        by (auto simp: value_of_def mul_value ucast_down getMask_def)
    qed (simp add: assms(1))
    have "action_ok hdr k nd x y (fold_bin ow hdr k nd OP_MUL x y)" if c: "IsValueConstant hdr y = Some c" "popcount c = 1" for c
    proof (cases "countr_zero c = 0")
      case True
      then have "c = 1" using power_of_two(1) [OF c(2)] by simp
      then show ?thesis using None c sz(1) one True by simp
    next
      case False
      then show ?thesis using None c sz(1) assms(1) OP_MUL by (auto simp: action_ok_def bin_result_def Let_def)
    qed
    then show ?thesis using None OP_MUL by (cases "IsValueConstant hdr y") (auto simp: sz(1))
  next
    case OP_XOR
    then show ?thesis using None assms(1) xor_zero [of nd x hdr] by auto
  qed (use None assms(2) copy neq in auto)
qed

text \<open>Bit field extraction.\<close>

lemma select_value:
  assumes "bool_select hdr n = Some (c, a, b, cs)" "computed szs hdr D t" "closed hdr D" "n \<in> D"
  shows "\<exists>r. IsConditionTrue cs c (ucast (SSAData t a)) (ucast (SSAData t b)) = Inr r \<and> SSAData t n = of_bool r" "a \<in> D" "b \<in> D"
proof -
  obtain nd x y where nd: "hdr n = Some nd" "Op nd = IR_Select c a b x y cs" "IsValueConstant hdr x = Some 1" "IsValueConstant hdr y = Some 0"
    using assms(1) by (auto simp: bool_select_def split: option.splits ir_op.splits if_splits)
  have args: "a \<in> D" "b \<in> D" "x \<in> D" "y \<in> D" using assms(3,4) nd(1,2) by (auto simp: closed_def)
  then show "a \<in> D" "b \<in> D" by simp_all
  have "SSAData t x = 1" "SSAData t y = 0" using const_data [OF assms(2)] nd(3,4) args by auto
  moreover have "value_of szs t nd = Some (Inr (SSAData t n))" using computedD(1) [OF assms(2) nd(1) assms(4)] nd(2) by simp
  ultimately show "\<exists>r. IsConditionTrue cs c (ucast (SSAData t a)) (ucast (SSAData t b)) = Inr r \<and> SSAData t n = of_bool r"
    using nd(2) by (auto simp: value_of_def Op_Select_def GD_fresh Let_def split: sum.splits if_splits)
qed

lemma bfe_already_copied:
  assumes "Op nd = IR_Bfe w lsb a" "IsBfeAlreadyDone hdr a w" "const_prop_safe hdr nd"
  shows "copied hdr nd a"
  unfolding copied_def
proof (intro conjI allI impI)
  fix szs D t v assume *: "computed szs hdr D t" "set (value_args (Op nd)) \<subseteq> D" "value_of szs t nd = Some (Inr v)"
  obtain od W l s where od: "hdr a = Some od" "Op od = IR_Bfe W l s" "W \<le> w"
    using assms(2) by (auto simp: IsBfeAlreadyDone_def split: option.splits ir_op.splits)
  then have ok: "lsb = 0" "l + W \<le> 64" "w \<le> 64" using assms(1,3) by (auto simp: const_prop_safe_def bfe_safe_def)
  have "value_of szs t od = Some (Inr (SSAData t a))" using computedD(1) [OF *(1) od(1)] *(2) assms(1) od(2) by simp
  then show "v = SSAData t a" using bfe_again *(3) assms(1) od(2,3) ok by (simp add: value_of_def)
qed (simp add: assms(1))

lemma bfe_load_copied:
  assumes "Op nd = IR_Bfe w 0 a" "zext_load hdr a w" "const_prop_safe hdr nd"
  shows "copied hdr nd a"
  unfolding copied_def
proof (intro conjI allI impI)
  fix szs D t v assume *: "computed szs hdr D t" "set (value_args (Op nd)) \<subseteq> D" "value_of szs t nd = Some (Inr v)"
  obtain od where od: "hdr a = Some od" "8 * Size od \<le> w" "op_width od = Size od" "\<not> HasSideEffects (Op od)"
    using assms(2) by (auto simp: zext_load_def op_width_def split: option.splits ir_op.splits)
  have "w \<le> 64" using assms(1,3) by (simp add: const_prop_safe_def)
  moreover have "fits (Size od) (SSAData t a)" using computedD(2) [OF *(1) od(1)] *(2) assms(1) od(3,4) by simp
  ultimately show "v = SSAData t a" using bfe_fits [OF _ od(2)] *(3) assms(1) by (simp add: value_of_def)
qed (simp add: assms(1))

lemma bfe_select_copied:
  assumes "Op nd = IR_Bfe 1 0 a" "bool_select hdr a \<noteq> None"
  shows "copied hdr nd a"
  unfolding copied_def
proof (intro conjI allI impI)
  fix szs D t v assume *: "computed szs hdr D t" "set (value_args (Op nd)) \<subseteq> D" "closed hdr D" "value_of szs t nd = Some (Inr v)"
  obtain c x y cs where "bool_select hdr a = Some (c, x, y, cs)" using assms(2) by (metis option.exhaust prod_cases4)
  then obtain r where "SSAData t a = of_bool r" using select_value(1) [OF _ *(1,3)] *(2) assms(1) by fastforce
  then have "take_bit 1 (SSAData t a) = SSAData t a" by (cases r) simp_all
  moreover have "Size nd \<le> 8" using *(4) assms(1) by (auto simp: value_of_def Op_Bfe_def split: if_splits)
  ultimately show "v = SSAData t a" using *(4) assms(1) Op_Bfe_fresh [of "Size nd" 0 1 "SSAData t a"] by (simp add: value_of_def)
qed (simp add: assms(1))

lemma bfe_folded:
  assumes "Op nd = IR_Bfe w lsb a" "IsValueConstant hdr a = Some c"
  shows "folded hdr nd (drop_bit lsb (c AND push_bit lsb (source_mask w)))"
  using assms const_data bfe_const by (fastforce simp: folded_def value_of_def)

text \<open>Addresses.\<close>

lemma add_value: "computed szs hdr D t \<Longrightarrow> hdr n = Some nd \<Longrightarrow> n \<in> D \<Longrightarrow> Op nd = IR_Bin OP_ADD x y \<Longrightarrow> Size nd = 8
   \<Longrightarrow> (ucast (SSAData t n) :: u64) = ucast (SSAData t x) + ucast (SSAData t y)"
  using computedD(1) [of szs hdr D t n nd] by (auto simp: value_of_def Op_Add_def do_op_fresh ucast_down dest: sym)

lemma mul_node_value: "computed szs hdr D t \<Longrightarrow> hdr n = Some nd \<Longrightarrow> n \<in> D \<Longrightarrow> Op nd = IR_Bin OP_MUL x y \<Longrightarrow> Size nd = 8
   \<Longrightarrow> (ucast (SSAData t n) :: u64) = ucast (SSAData t x) * ucast (SSAData t y)"
  using computedD(1) [of szs hdr D t n nd] by (auto simp: value_of_def mul_value ucast_down dest: sym)

lemma lshl_node_value: "computed szs hdr D t \<Longrightarrow> hdr n = Some nd \<Longrightarrow> n \<in> D \<Longrightarrow> Op nd = IR_Bin OP_LSHL x y \<Longrightarrow> Size nd = 8
   \<Longrightarrow> SSAData t y = ucast c \<Longrightarrow> unat c < 64 \<Longrightarrow> (ucast (SSAData t n) :: u64) = push_bit (unat c) (ucast (SSAData t x))" for c :: u64
  using computedD(1) [of szs hdr D t n nd] shift_count [of 8 c]
  by (auto simp: value_of_def Op_Lshl_def GD_fresh ucast_down word_size_def dest: sym)

lemma shift_scale_small: "IsMemoryScale (shift_scale c) \<Longrightarrow> c < 32 \<Longrightarrow> shift_scale c = push_bit (unat c) 1 \<and> unat c < 32" for c :: u64
proof
  assume s: "IsMemoryScale (shift_scale c)" and c: "c < 32"
  then show lt: "unat c < 32" by (simp add: word_less_nat_alt)
  have "\<not> bit (shift_scale c) 31" using s by (auto simp: IsMemoryScale_def)
  then have "unat c \<noteq> 31" using lt by (auto simp: shift_scale_def bit_simps)
  then have "unat c < 31" using lt by simp
  then show "shift_scale c = push_bit (unat c) 1"
    by (intro bit_word_eqI) (auto simp: shift_scale_def bit_simps)
qed

lemma MemExtendedAddressing_value:
  assumes "MemExtendedAddressing hdr x y = (ty, sc, A, O')" "computed szs hdr D t" "closed hdr D" "x \<in> D" "y \<in> D"
    "\<And>s a b c. hdr x = Some s \<Longrightarrow> Op s = IR_Bin OP_LSHL a b \<Longrightarrow> IsValueConstant hdr b = Some c \<Longrightarrow> c < 32"
  shows "mem_address ty sc (ucast (SSAData t A)) (Some (SSAData t O')) = ucast (SSAData t x) + ucast (SSAData t y)
    \<and> A \<in> D \<and> O' \<in> D"
proof (cases "(ty, sc, A, O') = (MEM_OFFSET_SXTX, 1, x, y)")
  case True
  then show ?thesis using assms(4,5) by simp
next
  case False
  then obtain s op a b c where s: "hdr x = Some s" "Size s = 8" "Op s = IR_Bin op a b" "IsValueConstant hdr b = Some c"
    "op = OP_MUL \<and> IsMemoryScale c \<and> sc = unat c \<or> op = OP_LSHL \<and> IsMemoryScale (shift_scale c) \<and> sc = unat (shift_scale c)"
    and r: "ty = MEM_OFFSET_SXTX" "A = y" "O' = a"
    using assms(1) by (auto simp: MemExtendedAddressing_def Let_def split: option.splits if_splits ir_op.splits ir_binop.splits)
  have ab: "a \<in> D" "b \<in> D" using assms(3,4) s(1,3) by (auto simp: closed_def)
  have b: "SSAData t b = ucast c" using const_data [OF assms(2) s(4) ab(2)] .
  have "(ucast (SSAData t x) :: u64) = ucast (SSAData t a) * word_of_nat sc"
  proof (cases "op = OP_MUL")
    case True
    then show ?thesis using mul_node_value [OF assms(2) s(1) assms(4) _ s(2)] s(3,5) b by (auto simp: ucast_down)
  next
    case False
    then have l: "op = OP_LSHL" "IsMemoryScale (shift_scale c)" "sc = unat (shift_scale c)" "c < 32"
      using s(5) assms(6) [OF s(1) _ s(4)] s(3) by auto
    have sc: "shift_scale c = push_bit (unat c) 1" "unat c < 32" using shift_scale_small l by blast+
    then show ?thesis
      using lshl_node_value [OF assms(2) s(1) assms(4) _ s(2) b] s(3) l(1,3) by (simp add: push_bit_eq_mult)
  qed
  then show ?thesis using r assms(5) ab by (simp add: add.commute)
qed

lemma fold_address_value:
  assumes "fold_address hdr n = Some (ty, sc, A, O')" "address_ok hdr n" "computed szs hdr D t" "closed hdr D" "n \<in> D"
  shows "mem_address ty sc (ucast (SSAData t A)) (Some (SSAData t O')) = ucast (SSAData t n) \<and> A \<in> D \<and> O' \<in> D"
proof -
  obtain nd x y where nd: "hdr n = Some nd" "Op nd = IR_Bin OP_ADD x y" "Size nd = 8" "MemExtendedAddressing hdr x y = (ty, sc, A, O')"
    using assms(1) by (auto simp: fold_address_def split: option.splits ir_op.splits ir_binop.splits if_splits)
  have xy: "x \<in> D" "y \<in> D" using assms(4,5) nd(1,2) by (auto simp: closed_def)
  have ok: "c < 32" if "hdr x = Some s" "Op s = IR_Bin OP_LSHL a b" "IsValueConstant hdr b = Some c" for s a b c
    using assms(2) nd(1,2) that by (simp add: address_ok_def)
  show ?thesis
    using MemExtendedAddressing_value [OF nd(4) assms(3,4) xy ok] add_value [OF assms(3) nd(1) assms(5) nd(2,3)] by simp
qed

lemma fold_address_local:
  assumes "fold_address hdr n = Some (ty, sc, A, O')" "closed hdr D" "n \<in> D"
  shows "A \<in> D \<and> O' \<in> D"
proof -
  obtain nd x y where nd: "hdr n = Some nd" "Op nd = IR_Bin OP_ADD x y" "MemExtendedAddressing hdr x y = (ty, sc, A, O')"
    using assms(1) by (auto simp: fold_address_def split: option.splits ir_op.splits ir_binop.splits if_splits)
  have xy: "x \<in> D" "y \<in> D" using assms(2,3) nd(1,2) by (auto simp: closed_def)
  have "\<And>s op a b. hdr x = Some s \<Longrightarrow> Op s = IR_Bin op a b \<Longrightarrow> a \<in> D" using assms(2) xy(1) by (force simp: closed_def)
  then show ?thesis
    using nd(3) xy by (auto simp: MemExtendedAddressing_def Let_def split: option.splits if_splits ir_op.splits ir_binop.splits)
qed

lemma select_local:
  assumes "bool_select hdr n = Some (c, a, b, cs)" "closed hdr D" "n \<in> D"
  shows "a \<in> D \<and> b \<in> D"
proof -
  obtain nd x y where "hdr n = Some nd" "Op nd = IR_Select c a b x y cs"
    using assms(1) by (auto simp: bool_select_def split: option.splits ir_op.splits if_splits)
  then show ?thesis using assms(2,3) by (auto simp: closed_def)
qed

lemma jump_on_select:
  assumes "bool_select hdr n = Some (c, a, b, cs')" "IsValueConstant hdr z = Some 0" "computed szs hdr D t" "closed hdr D"
    "n \<in> D" "z \<in> D"
  shows "IsConditionTrue cs COND_NEQ (ucast (SSAData t n)) (ucast (SSAData t z))
    = IsConditionTrue cs' c (ucast (SSAData t a)) (ucast (SSAData t b))"
proof -
  obtain r where "IsConditionTrue cs' c (ucast (SSAData t a)) (ucast (SSAData t b)) = Inr r" "SSAData t n = of_bool r"
    using select_value(1) [OF assms(1,3-5)] by blast
  moreover have "SSAData t z = 0" using const_data [OF assms(3,2,6)] by simp
  ultimately show ?thesis by (cases r) (simp_all add: IsConditionTrue_def)
qed

text \<open>What the decisions of the loop can be.\<close>

lemma const_prop_cases:
  assumes "const_prop_safe hdr nd"
  shows "case const_prop ow pre hdr k nd of
      Keep \<Rightarrow> True
    | Replace news m \<Rightarrow> (\<exists>x y. bin_result hdr k nd x y news m) \<and> \<not> HasSideEffects (Op nd) \<and> \<not> is_load (Op nd)
    | Overwrite ir \<Rightarrow>
        (\<exists>c. ir = IR_Constant c \<and> folded hdr nd c \<and> \<not> HasSideEffects (Op nd) \<and> \<not> is_load (Op nd) \<and> sized_arg (Op nd) = None)
        \<or> (\<exists>a ty sc A O' ty' sc'. Op nd = IR_LoadMem a None ty sc \<and> fold_address hdr a = Some (ty', sc', A, O') \<and> address_ok hdr a
             \<and> ir = IR_LoadMem A (Some O') ty' sc')
        \<or> (\<exists>v a ty sc A O' ty' sc'. Op nd = IR_StoreMem v a None ty sc \<and> fold_address hdr a = Some (ty', sc', A, O') \<and> address_ok hdr a
             \<and> ir = IR_StoreMem v A (Some O') ty' sc')
        \<or> (\<exists>n z t f cs c a b cs'. Op nd = IR_CondJump COND_NEQ n z t f cs \<and> IsValueConstant hdr z = Some 0
             \<and> bool_select hdr n = Some (c, a, b, cs') \<and> ir = IR_CondJump c a b t f cs')"
proof (cases "Op nd")
  case (IR_Bin op x y)
  have "action_ok hdr k nd x y (fold_bin ow hdr k nd op x y)"
    using fold_bin_ok [OF IR_Bin] assms IR_Bin by (simp add: const_prop_safe_def)
  then show ?thesis
    using IR_Bin by (auto simp: const_prop_def ZextAndMaskingElimination_def ConstantPropagation_def action_ok_def split: action.splits)
next
  case (IR_Bfe w lsb a)
  have copy: "\<exists>x y. bin_result hdr k nd x y [] a" if "copied hdr nd a" using that by (auto simp: bin_result_def)
  have fold: "folded hdr nd c \<Longrightarrow> \<exists>x y. bin_result hdr k nd x y [(k, constant_node c)] k" for c
    by (auto simp: bin_result_def)
  show ?thesis
    using IR_Bfe assms bfe_already_copied [OF IR_Bfe] bfe_load_copied [of nd w a hdr] bfe_select_copied [of nd a hdr]
      bfe_folded [OF IR_Bfe] copy fold
    by (auto simp: const_prop_def ZextAndMaskingElimination_def ConstantPropagation_def ReplaceWithConstant_def
        split: option.splits if_splits)
next
  case (IR_LoadMem a off ty sc)
  then show ?thesis using assms
    by (auto simp: const_prop_def ZextAndMaskingElimination_def ConstantPropagation_def const_prop_safe_def split: option.splits)
next
  case (IR_StoreMem v a off ty sc)
  then show ?thesis using assms
    by (auto simp: const_prop_def ZextAndMaskingElimination_def ConstantPropagation_def const_prop_safe_def split: option.splits)
next
  case (IR_CondJump c a b t f cs)
  then show ?thesis
    by (auto simp: const_prop_def ZextAndMaskingElimination_def ConstantPropagation_def split: option.splits)
qed (simp_all add: const_prop_def ZextAndMaskingElimination_def ConstantPropagation_def)

section \<open>The loop keeps the meaning of the function\<close>

lemma constant_node_value [simp]: "value_of szs t (constant_node c) = Some (Inr (ucast c))" "Op (constant_node c) = IR_Constant c"
  by (simp_all add: value_of_def constant_node_def Op_Constant_fresh)

lemma run_shift:
  fixes c :: u64
  assumes "clean szs [(k, constant_node (word_of_nat n)), (k + 1, \<lparr>Op = IR_Bin OP_LSHL x k, Size = 8, ElementSize = el\<rparr>)] t"
    "\<not> stopped t" "n < 64" "x < k"
  defines "news \<equiv> [(k, constant_node (word_of_nat n)), (k + 1, \<lparr>Op = IR_Bin OP_LSHL x k, Size = 8, ElementSize = el\<rparr>)]"
  shows "agree (fst ` set news) t (run_block szs news t)
    \<and> SSAData (run_block szs news t) (k + 1) = ucast (push_bit n (ucast (SSAData t x) :: u64))"
proof -
  let ?sh = "\<lparr>Op = IR_Bin OP_LSHL x k, Size = 8, ElementSize = el\<rparr>"
  let ?t = "run_block szs [(k, constant_node (word_of_nat n))] t"
  have c: "clean szs [(k, constant_node (word_of_nat n))] t" using assms(1) by (simp add: clean_Cons)
  note one = run_one [OF c assms(2) constant_node_value(1)]
  have ns: "\<not> stopped ?t" using assms(2) agreeD(4-6) [OF conjunct1 [OF one]] by (simp add: stopped_def)
  have x: "SSAData ?t x = SSAData t x" "SSAData ?t (k + 1) = SSAData t (k + 1)"
    using agreeD(7) [OF conjunct1 [OF one]] assms(4) by simp_all
  have amt: "unat (word_of_nat n :: u64) = n" using assms(3) by (simp add: unat_of_nat)
  have "value_of szs ?t ?sh = Some (Inr (ucast (push_bit n (ucast (SSAData t x) :: u64))))"
    using shift_count [of 8 "word_of_nat n :: u64"] amt assms(3) x one
    by (simp add: value_of_def Op_Lshl_def GD_fresh word_size_def)
  moreover have "clean szs [(k + 1, ?sh)] ?t" using assms(1) x(2) by (simp add: clean_def)
  ultimately have two: "agree {k + 1} ?t (run_block szs [(k + 1, ?sh)] ?t)
      \<and> SSAData (run_block szs [(k + 1, ?sh)] ?t) (k + 1) = ucast (push_bit n (ucast (SSAData t x) :: u64))"
    using run_one ns by blast
  have r: "run_block szs news t = run_block szs [(k + 1, ?sh)] ?t"
    unfolding news_def
    using run_block_append [OF assms(2), of szs "[(k, constant_node (word_of_nat n))]" "[(k + 1, ?sh)]"] ns by simp
  have "agree (fst ` set news) t (run_block szs news t)"
    unfolding r using agreeD [OF conjunct1 [OF one]] agreeD [OF conjunct1 [OF two]] by (intro agreeI) (auto simp: news_def)
  then show ?thesis using two r by simp
qed

lemma guarded_cases:
  assumes "guarded const_prop_safe (const_prop ow) pre hdr k nd = a" "a \<noteq> Keep"
  shows "const_prop ow pre hdr k nd = a" "const_prop_safe hdr nd"
  using assms by (auto simp: guarded_def split: if_splits)

lemma bin_result_run:
  assumes "bin_result hdr k nd x y news m" "closed hdr D" "set (value_args (Op nd)) \<subseteq> D" "\<And>a. a \<in> D \<Longrightarrow> a < k"
    "computed szs hdr D t" "clean szs news t" "\<not> stopped t" "value_of szs t nd = Some (Inr v)"
  shows "agree (fst ` set news) t (run_block szs news t) \<and> SSAData (run_block szs news t) m = v"
  using assms(1) unfolding bin_result_def
proof (elim disjE exE conjE)
  fix c assume *: "news = [(k, constant_node c)]" "m = k" "folded hdr nd c"
  then have "v = ucast c" using assms(3,5,8) unfolding folded_def by blast
  then show ?thesis using run_one [OF _ assms(7) constant_node_value(1)] assms(6) * by simp
next
  fix a assume *: "m = a" "copied hdr nd a" "news = []"
  then have "v = SSAData t a" using assms(2,3,5,8) unfolding copied_def by blast
  then show ?thesis using * by simp
next
  fix a assume *: "m = a" "copied hdr nd a" "news = [(k, constant_node 0)]"
  then have v: "v = SSAData t a" using assms(2,3,5,8) unfolding copied_def by blast
  have "a \<in> D" using *(2) assms(3) unfolding copied_def by blast
  then have ne: "a \<noteq> k" using assms(4) by blast
  have "clean szs [(k, constant_node 0)] t" using assms(6) *(3) by simp
  from run_one [OF this assms(7) constant_node_value(1)]
  have ag: "agree {k} t (run_block szs news t)" unfolding *(3) by (rule conjunct1)
  show ?thesis using v ne ag agreeD(7) [OF ag, of a] *(1,3) by simp
next
  fix c el
  assume *: "Op nd = IR_Bin OP_MUL x y" "Size nd = 8" "IsValueConstant hdr y = Some c" "popcount c = 1" "m = k + 1"
    "news = [(k, constant_node (word_of_nat (countr_zero c))), (k + 1, \<lparr>Op = IR_Bin OP_LSHL x k, Size = 8, ElementSize = el\<rparr>)]"
  have xy: "x < k" "SSAData t y = ucast c" using *(1,3) assms(3-5) const_data by auto
  have "v = ucast ((ucast (SSAData t x) :: u64) * c)"
    using assms(8) *(1,2) xy(2) by (simp add: value_of_def mul_value ucast_down)
  also have "(ucast (SSAData t x) :: u64) * c = push_bit (countr_zero c) (ucast (SSAData t x))"
    by (subst power_of_two(1) [OF *(4)]) (simp add: push_bit_eq_mult)
  finally show ?thesis
    using run_shift [OF assms(6) [unfolded *(6)] assms(7) power_of_two(2) [OF *(4)] xy(1)] *(5,6) by simp
qed

interpretation cp: rewriter "guarded const_prop_safe (const_prop ow)" for ow
proof
  fix pre hdr k nd news m D szs t v
  assume "guarded const_prop_safe (const_prop ow) pre hdr k nd = Replace news m"
  then have "const_prop ow pre hdr k nd = Replace news m" "const_prop_safe hdr nd" using guarded_cases by blast+
  then obtain x y where r: "bin_result hdr k nd x y news m" "\<not> HasSideEffects (Op nd)" "\<not> is_load (Op nd)"
    using const_prop_cases [where hdr = hdr and nd = nd and ow = ow and pre = pre and k = k] by auto
  then show "\<not> HasSideEffects (Op nd) \<and> \<not> is_load (Op nd) \<and> map fst news = [k..<k + length news]
      \<and> (\<forall>(x, md) \<in> set news. \<not> HasSideEffects (Op md) \<and> sized_arg (Op md) = None)"
    by (auto simp: bin_result_def)
  assume "visible hdr pre D"
  assume D: "closed hdr D" "set (value_args (Op nd)) \<subseteq> D" "\<And>a. a \<in> D \<Longrightarrow> a < k"
  show "local_code D news \<and> m \<in> D \<union> fst ` set news"
    using r(1) D(2,3) by (fastforce simp: bin_result_def copied_def)
  assume t: "computed szs hdr D t" "clean szs news t" "\<not> stopped t" "value_of szs t nd = Some (Inr v)"
  show "agree (fst ` set news) t (run_block szs news t) \<and> SSAData (run_block szs news t) m = v"
    by (rule bin_result_run [OF r(1) D(1,2) _ t]) (rule D(3))
next
  fix pre hdr k nd ir D szs t v n
  assume "guarded const_prop_safe (const_prop ow) pre hdr k nd = Overwrite ir"
  then have "const_prop ow pre hdr k nd = Overwrite ir" "const_prop_safe hdr nd" using guarded_cases by blast+
  then have c: "(\<exists>c. ir = IR_Constant c \<and> folded hdr nd c \<and> \<not> HasSideEffects (Op nd) \<and> \<not> is_load (Op nd) \<and> sized_arg (Op nd) = None)
        \<or> (\<exists>a ty sc A O' ty' sc'. Op nd = IR_LoadMem a None ty sc \<and> fold_address hdr a = Some (ty', sc', A, O') \<and> address_ok hdr a
             \<and> ir = IR_LoadMem A (Some O') ty' sc')
        \<or> (\<exists>v a ty sc A O' ty' sc'. Op nd = IR_StoreMem v a None ty sc \<and> fold_address hdr a = Some (ty', sc', A, O') \<and> address_ok hdr a
             \<and> ir = IR_StoreMem v A (Some O') ty' sc')
        \<or> (\<exists>n z t f cs c a b cs'. Op nd = IR_CondJump COND_NEQ n z t f cs \<and> IsValueConstant hdr z = Some 0
             \<and> bool_select hdr n = Some (c, a, b, cs') \<and> ir = IR_CondJump c a b t f cs')"
    using const_prop_cases [where hdr = hdr and nd = nd and ow = ow and pre = pre and k = k] by simp
  show "HasSideEffects ir = HasSideEffects (Op nd) \<and> is_load ir = is_load (Op nd) \<and> sized_arg ir = None
      \<and> sized_arg (Op nd) = None \<and> op_targets ir = op_targets (Op nd)"
    using c no_targets by auto
  show "written_bytes szs (Size nd) (ElementSize nd) ir = written_bytes szs (Size nd) (ElementSize nd) (Op nd)" if "HasSideEffects ir"
    using c that by auto
  assume D: "closed hdr D" "set (value_args (Op nd)) \<subseteq> D"
  show "set (value_args ir) \<subseteq> D"
    using c D fold_address_local [OF _ D(1)] select_local [OF _ D(1)] by fastforce
  assume t: "computed szs hdr D t"
  show "value_of szs t (nd\<lparr>Op := ir\<rparr>) = Some (Inr v)" if "\<not> HasSideEffects ir" "value_of szs t nd = Some (Inr v)"
    using c
  proof (elim disjE exE conjE)
    fix c assume "ir = IR_Constant c" "folded hdr nd c"
    then have "v = ucast c" using t D(2) that(2) unfolding folded_def by blast
    then show ?thesis using \<open>ir = IR_Constant c\<close> by (simp add: value_of_def Op_Constant_fresh)
  next
    fix a ty sc A O' ty' sc'
    assume *: "Op nd = IR_LoadMem a None ty sc" "fold_address hdr a = Some (ty', sc', A, O')" "address_ok hdr a"
      "ir = IR_LoadMem A (Some O') ty' sc'"
    then show ?thesis using fold_address_value [OF *(2,3) t D(1)] D(2) that(2) by (simp add: value_of_def)
  qed (use that(1) in auto)
  show "exec_effect t n (Size nd) (ElementSize nd) ir = exec_effect t n (Size nd) (ElementSize nd) (Op nd)" if "HasSideEffects ir"
    using c
  proof (elim disjE exE conjE)
    fix w a ty sc A O' ty' sc'
    assume *: "Op nd = IR_StoreMem w a None ty sc" "fold_address hdr a = Some (ty', sc', A, O')" "address_ok hdr a"
      "ir = IR_StoreMem w A (Some O') ty' sc'"
    then show ?thesis using fold_address_value [OF *(2,3) t D(1)] D(2) by simp
  next
    fix x z tt ff cs c a b cs'
    assume *: "Op nd = IR_CondJump COND_NEQ x z tt ff cs" "IsValueConstant hdr z = Some 0"
      "bool_select hdr x = Some (c, a, b, cs')" "ir = IR_CondJump c a b tt ff cs'"
    then show ?thesis using jump_on_select [OF *(3,2) t D(1), of cs] D(2) by simp
  qed (use that in auto)
qed

interpretation pools: rewriter pool_constant
proof
  fix pre hdr k nd news m D szs t v
  assume "pool_constant pre hdr k nd = Replace news m"
  then obtain c md where r: "Op nd = IR_Constant c" "news = []" "(m, md) \<in> set pre" "Op md = IR_Constant c"
    by (auto simp: pool_constant_def ConstPool_def find_Some_iff nth_mem split: ir_op.splits option.splits)
      (metis nth_mem prod.collapse)
  then show "\<not> HasSideEffects (Op nd) \<and> \<not> is_load (Op nd) \<and> map fst news = [k..<k + length news]
      \<and> (\<forall>(x, md) \<in> set news. \<not> HasSideEffects (Op md) \<and> sized_arg (Op md) = None)" by simp
  assume v: "visible hdr pre D"
  then have m: "hdr m = Some md" "m \<in> D" using r(3) by (auto simp: visible_def)
  assume "closed hdr D" "set (value_args (Op nd)) \<subseteq> D" "\<And>a. a \<in> D \<Longrightarrow> a < k"
  show "local_code D news \<and> m \<in> D \<union> fst ` set news" using r(2) m(2) by simp
  assume "computed szs hdr D t" "clean szs news t" "\<not> stopped t" "value_of szs t nd = Some (Inr v)"
  moreover have "IsValueConstant hdr m = Some c" using m(1) r(4) by (simp add: IsValueConstant_def)
  ultimately show "agree (fst ` set news) t (run_block szs news t) \<and> SSAData (run_block szs news t) m = v"
    using const_data m(2) r(1,2) by (auto simp: value_of_def Op_Constant_fresh)
qed (auto simp: pool_constant_def split: ir_op.splits option.splits)

text \<open>
  Pooling the constants of a block keeps the meaning of every well-formed function, and the list well
  formed.
\<close>

theorem HandleConstantPools_correct:
  assumes "ir_list_ok G" "Blocks G \<noteq> []"
  shows "preserves (Blocks G) (Blocks (snd (HandleConstantPools G))) \<and> ir_list_ok (snd (HandleConstantPools G))"
  using pools.pass.pass_preserves [OF assms] pools.wf_run [OF assms(1)] by (simp add: HandleConstantPools_def)

text \<open>
  C8: The folding loop of constant propagation keeps the meaning of a well-formed function when every fold it
  makes is a safe one: copied values fit the size of the operation, shift counts are below it, folded constants
  fit it, products are 64 bits wide, a repeated extraction starts at bit zero, and a memory operation has no
  offset yet.
\<close>

theorem ConstProp_loop_correct:
  assumes "ir_list_ok G" "Blocks G \<noteq> []" "ConstProp_loop ow G = snd (rewrite_list (guarded const_prop_safe (const_prop ow)) G)"
  shows "preserves (Blocks G) (Blocks (ConstProp_loop ow G)) \<and> ir_list_ok (ConstProp_loop ow G)"
  using cp.pass.pass_preserves [OF assms(1,2), of ow] cp.wf_run [OF assms(1), of ow] assms(3) by simp

section \<open>Folds that change the result\<close>

lemma single_block:
  assumes "s = run_block (GetOpSize [(b, xs)]) xs (block_start (boot c m))" "Fault s = None" "Redo s = None"
  shows "InterpretIR [(b, xs)] c m = Some s"
  using assms by (simp add: InterpretIR_def, subst interp_loop.simps) (simp add: Let_def)

definition sized_node :: "nat \<Rightarrow> ir_op \<Rightarrow> ir_node" where
  "sized_node sz ir = \<lparr>Op = ir, Size = sz, ElementSize = sz\<rparr>"

definition exit_with :: "code \<Rightarrow> node_id \<Rightarrow> ir_list" where
  "exit_with xs n = (let ys = xs @ [(9, sized_node 8 (IR_ExitFunction n))]
     in \<lparr>Blocks = [(0, ys)], NumUses = refs ys, NextNode = 10\<rparr>)"

definition extract_twice :: ir_list where
  "extract_twice = exit_with [(1, sized_node 8 (IR_LoadContext 0)), (2, sized_node 8 (IR_Bfe 16 0 1)), (3, sized_node 8 (IR_Bfe 16 8 2))] 3"

definition shift_far :: ir_list where
  "shift_far = exit_with [(1, sized_node 8 (IR_Constant 1)), (2, sized_node 8 (IR_Constant 32)), (3, sized_node 4 (IR_Bin OP_LSHL 1 2))] 3"

definition multiply_signed :: ir_list where
  "multiply_signed = exit_with [(1, sized_node 8 (IR_Constant 0xFFFFFFFF)), (2, sized_node 8 (IR_Constant 2)), (3, sized_node 4 (IR_Bin OP_MUL 1 2))] 3"

lemma low_words: "(4294967296 :: u64) AND mask 32 = 0" "(8589934590 :: u64) AND mask 32 = 4294967294"
  by (simp_all add: take_bit_eq_mask [symmetric])

text \<open>A fold overwrites the node in place or puts a new one before it, depending on the sizes of the operations.\<close>

definition fold_tail :: "(ir_op \<Rightarrow> bool) \<Rightarrow> ir_node \<Rightarrow> u64 \<Rightarrow> code" where
  "fold_tail ow nd k = (if ow (Op nd) then [(3, nd\<lparr>Op := IR_Constant k\<rparr>), (9, sized_node 8 (IR_ExitFunction 3))]
     else [(10, constant_node k), (9, sized_node 8 (IR_ExitFunction 10))])"

lemma loop_results:
  "Blocks (ConstProp_loop ow extract_twice) = [(0, [(1, sized_node 8 (IR_LoadContext 0)), (2, sized_node 8 (IR_Bfe 16 0 1)),
     (9, sized_node 8 (IR_ExitFunction 2))])]"
  "Blocks (ConstProp_loop ow shift_far) = [(0, [(1, sized_node 8 (IR_Constant 1)), (2, sized_node 8 (IR_Constant 32))]
     @ fold_tail ow (sized_node 4 (IR_Bin OP_LSHL 1 2)) 0)]"
  "Blocks (ConstProp_loop ow multiply_signed) = [(0, [(1, sized_node 8 (IR_Constant 0xFFFFFFFF)), (2, sized_node 8 (IR_Constant 2))]
     @ fold_tail ow (sized_node 4 (IR_Bin OP_MUL 1 2)) 0xFFFFFFFE)]"
  by (simp_all add: ConstProp_loop_def rewrite_list_def extract_twice_def shift_far_def multiply_signed_def exit_with_def sized_node_def
      const_prop_def ZextAndMaskingElimination_def ConstantPropagation_def GetOpHeader_def IsBfeAlreadyDone_def zext_load_def fold_tail_def
      fold_constants_def IsValueConstant_def ReplaceWithConstant_def getMask_def map_node_def map_blocks_def low_words Let_def)

lemma not_preserves:
  assumes "F = [(b, xs)]" "F' = [(b', ys)]"
    "s = run_block (GetOpSize F) xs (block_start (boot c m))" "Fault s = None" "Redo s = None"
    "t = run_block (GetOpSize F') ys (block_start (boot c m))" "Fault t = None" "Redo t = None"
    "Context s i \<noteq> Context t i"
  shows "\<not> preserves F F'"
proof
  assume p: "preserves F F'"
  have "InterpretIR F c m = Some s" "InterpretIR F' c m = Some t"
    using single_block assms by blast+
  then obtain t' where "t' = t" "agree UNIV s t'" using preservesD(1) [OF p _ assms(4), of c m] by auto
  then show False using agreeD(1) [of UNIV s t'] assms(9) by simp
qed

text \<open>
  C37: Three folds outside these conditions change what the function does: a 16-bit extraction at bit 8 of a
  16-bit extraction is dropped, a 32-bit shift by 32 folds to zero where the handler shifts by none, and a
  32-bit product folds to 32 bits where the handler keeps its sign extension. This is so whether the folded node is
  overwritten in place or replaced by a new one.
\<close>

theorem unsafe_folds_change_result:
  "\<not> preserves (Blocks extract_twice) (Blocks (ConstProp_loop ow extract_twice))
   \<and> \<not> preserves (Blocks shift_far) (Blocks (ConstProp_loop ow shift_far))
   \<and> \<not> preserves (Blocks multiply_signed) (Blocks (ConstProp_loop ow multiply_signed))"
proof (intro conjI)
  let ?c = "\<lambda>i. if i = Suc 0 then 1 else 0 :: u8" and ?m = "\<lambda>_. 0 :: u8"
  have load: "ctx_load ?c 0 8 = 256" by code_simp
  have e: "Blocks extract_twice = [(0, [(1, sized_node 8 (IR_LoadContext 0)), (2, sized_node 8 (IR_Bfe 16 0 1)),
      (3, sized_node 8 (IR_Bfe 16 8 2)), (9, sized_node 8 (IR_ExitFunction 3))])]"
    by (simp add: extract_twice_def exit_with_def Let_def)
  have b: "Op_Bfe 8 0 16 0 256 = Inr 256" "Op_Bfe 8 0 16 8 256 = Inr 1" by code_simp+
  show "\<not> preserves (Blocks extract_twice) (Blocks (ConstProp_loop ow extract_twice))"
    unfolding loop_results
    by (rule not_preserves [where c = ?c and m = ?m and i = off_rip, OF e refl refl _ _ refl])
      (simp_all add: Let_def block_start_def boot_def exec_node_def sized_node_def set_slot_def set_fault_def Op_LoadContext_def load GD_fresh b
        ctx_store_def byte_at_def)
  have s: "Blocks shift_far = [(0, [(1, sized_node 8 (IR_Constant 1)), (2, sized_node 8 (IR_Constant 32)),
      (3, sized_node 4 (IR_Bin OP_LSHL 1 2)), (9, sized_node 8 (IR_ExitFunction 3))])]"
    by (simp add: shift_far_def exit_with_def Let_def)
  have l: "Op_Lshl 4 0 1 32 = Inr 1" by code_simp
  show "\<not> preserves (Blocks shift_far) (Blocks (ConstProp_loop ow shift_far))"
    unfolding loop_results
    by (rule not_preserves [where c = ?c and m = ?m and i = off_rip, OF s refl refl _ _ refl])
      (simp_all add: fold_tail_def Let_def block_start_def boot_def exec_node_def sized_node_def constant_node_def set_slot_def set_fault_def Op_Constant_fresh l
        ctx_store_def byte_at_def)
  have u: "Blocks multiply_signed = [(0, [(1, sized_node 8 (IR_Constant 0xFFFFFFFF)), (2, sized_node 8 (IR_Constant 2)),
      (3, sized_node 4 (IR_Bin OP_MUL 1 2)), (9, sized_node 8 (IR_ExitFunction 3))])]"
    by (simp add: multiply_signed_def exit_with_def Let_def)
  have l: "Op_Mul 4 0 0xFFFFFFFF 2 = Inr 0xFFFFFFFFFFFFFFFE" by code_simp
  have h: "byte_at 0xFFFFFFFFFFFFFFFE 4 \<noteq> byte_at 0xFFFFFFFE 4" by code_simp
  show "\<not> preserves (Blocks multiply_signed) (Blocks (ConstProp_loop ow multiply_signed))"
    unfolding loop_results
    by (rule not_preserves [where c = ?c and m = ?m and i = "off_rip + 4", OF u refl refl _ _ refl])
      (simp_all add: fold_tail_def Let_def block_start_def boot_def exec_node_def sized_node_def constant_node_def set_slot_def set_fault_def Op_Constant_fresh l
        ctx_store_def h)
qed

section \<open>Instances\<close>

definition fold_sample :: ir_list where
  "fold_sample = exit_with [(1, sized_node 8 (IR_Constant 40)), (2, sized_node 8 (IR_Constant 2)),
     (3, sized_node 8 (IR_Bin OP_ADD 1 2)), (4, sized_node 8 (IR_Constant 40)), (5, sized_node 8 (IR_Bin OP_XOR 3 4))] 5"

lemma fold_sample_ok: "ir_list_ok fold_sample" "Blocks fold_sample \<noteq> []"
  by (auto simp: ir_list_ok_def function_ok_def unique_ids_def vectors_ok_def targets_ok_def uses_ok_def fold_sample_def exit_with_def
      sized_node_def Let_def)

lemma fold_sample_loop:
  "ConstProp_loop (\<lambda>_. True) fold_sample
   = snd (rewrite_list (guarded const_prop_safe (const_prop (\<lambda>_. True))) fold_sample)"
  "map_of (all_code (Blocks (ConstProp_loop (\<lambda>_. True) fold_sample))) 5 = Some (sized_node 8 (IR_Constant 2))"
  by (simp_all add: ConstProp_loop_def rewrite_list_def fold_sample_def exit_with_def sized_node_def guarded_def const_prop_safe_def
      const_prop_def ZextAndMaskingElimination_def ConstantPropagation_def GetOpHeader_def
      fold_constants_def IsValueConstant_def ReplaceWithConstant_def getMask_def Let_def)

theorem ConstProp_loop_correct_witness:
  "preserves (Blocks fold_sample) (Blocks (ConstProp_loop (\<lambda>_. True) fold_sample))
   \<and> map_of (all_code (Blocks (ConstProp_loop (\<lambda>_. True) fold_sample))) 5 = Some (sized_node 8 (IR_Constant 2))"
  using ConstProp_loop_correct [OF fold_sample_ok fold_sample_loop(1)] fold_sample_loop(2) by simp

lemma fold_sample_pools: "map_of (all_code (Blocks (snd (HandleConstantPools fold_sample)))) 5 = Some (sized_node 8 (IR_Bin OP_XOR 3 1))"
  by (simp add: HandleConstantPools_def rewrite_list_def fold_sample_def exit_with_def sized_node_def pool_constant_def ConstPool_def
      map_node_def map_blocks_def Let_def)

theorem HandleConstantPools_correct_witness:
  "preserves (Blocks fold_sample) (Blocks (snd (HandleConstantPools fold_sample)))
   \<and> map_of (all_code (Blocks (snd (HandleConstantPools fold_sample)))) 5 = Some (sized_node 8 (IR_Bin OP_XOR 3 1))"
  using HandleConstantPools_correct [OF fold_sample_ok] fold_sample_pools by simp

end
