(* ===== verification/Pass_DeadCode.thy ===== *)
theory Pass_DeadCode
  imports IR_Graph
begin

text \<open>
  Dead code elimination (\<^verbatim>\<open>IR/Passes/DeadCodeElimination.cpp\<close>): every block is walked from its last node to its
  first; a node without side effects whose use count is zero is removed, which lowers the counts of its
  arguments, so that these can go later in the same walk.
\<close>

section \<open>The pass\<close>

fun dce_code :: "code \<Rightarrow> uses \<Rightarrow> code \<times> uses \<times> nat" where
  "dce_code [] U = ([], U, 0)"
| "dce_code ((n, nd) # xs) U =
     (let (ys, U, NumRemoved) = dce_code xs U
      in if \<not> HasSideEffects (Op nd) \<and> U n = 0 then (ys, RemoveArgUses nd U, NumRemoved + 1)
         else ((n, nd) # ys, U, NumRemoved))"

fun dce_blocks :: "ir_function \<Rightarrow> uses \<Rightarrow> ir_function \<times> uses \<times> nat" where
  "dce_blocks [] U = ([], U, 0)"
| "dce_blocks ((b, xs) # bs) U =
     (let (ys, U, k) = dce_code xs U; (bs, U, l) = dce_blocks bs U
      in ((b, ys) # bs, U, k + l))"

definition DeadCodeElimination :: "ir_list \<Rightarrow> bool \<times> ir_list" where
  "DeadCodeElimination G =
     (let (F, U, NumRemoved) = dce_blocks (Blocks G) (NumUses G)
      in (NumRemoved \<noteq> 0, G\<lparr>Blocks := F, NumUses := U\<rparr>))"

section \<open>What is removed\<close>

definition without :: "node_id set \<Rightarrow> code \<Rightarrow> code" where
  "without R xs = filter (\<lambda>x. fst x \<notin> R) xs"

definition droppable :: "node_id set \<Rightarrow> code \<Rightarrow> bool" where
  "droppable R xs \<longleftrightarrow> (\<forall>(n, nd) \<in> set xs. n \<in> R \<longrightarrow> \<not> HasSideEffects (Op nd))"

lemma without_simps [simp]:
  "without R [] = []" "without R ((n, nd) # xs) = (if n \<in> R then without R xs else (n, nd) # without R xs)"
  "without R (xs @ ys) = without R xs @ without R ys"
  by (simp_all add: without_def)

lemma droppable_parts:
  "droppable R (xs @ ys) \<longleftrightarrow> droppable R xs \<and> droppable R ys"
  "droppable (R \<union> S) xs \<longleftrightarrow> droppable R xs \<and> droppable S xs"
  by (auto simp: droppable_def)

lemma droppable_none: "R \<inter> fst ` set xs = {} \<Longrightarrow> droppable R xs"
  unfolding droppable_def by force

lemma without_other: "R \<inter> fst ` set xs = {} \<Longrightarrow> without (R \<union> S) xs = without S xs"
  unfolding without_def by (rule filter_cong) auto

lemma refs_without: "refs (without R xs) n \<le> refs xs n"
  by (induction xs) auto

lemma dce_code_ok:
  assumes "dce_code xs U = (ys, U', k)" "distinct (map fst xs)" "\<And>n. U n = C n + refs xs n"
  shows "\<exists>R \<subseteq> fst ` set xs. ys = without R xs \<and> droppable R xs \<and> k = card R
    \<and> (\<forall>n \<in> R. C n + refs ys n = 0) \<and> (\<forall>n. U' n = C n + refs ys n)"
  using assms
proof (induction xs arbitrary: U ys U' k C)
  case Nil
  then show ?case by (auto simp: droppable_def)
next
  case (Cons x xs)
  obtain n nd where x: "x = (n, nd)" by fastforce
  obtain zs V l where d: "dce_code xs U = (zs, V, l)" by (metis prod_cases3)
  obtain R where R: "R \<subseteq> fst ` set xs" "zs = without R xs" "droppable R xs" "l = card R"
    "\<forall>i \<in> R. C i + count_list (op_args (Op nd)) i + refs zs i = 0"
    "\<forall>i. V i = C i + count_list (op_args (Op nd)) i + refs zs i"
    using Cons.IH [OF d, of "\<lambda>i. C i + count_list (op_args (Op nd)) i"] Cons.prems(2,3) x by auto
  have n: "n \<notin> fst ` set xs" using Cons.prems(2) x by simp
  then have n: "n \<notin> fst ` set xs" "n \<notin> R" "\<And>nd. (n, nd) \<notin> set xs" "finite R"
    using R(1) finite_subset [OF R(1)] by force+
  show ?case
  proof (cases "\<not> HasSideEffects (Op nd) \<and> V n = 0")
    case True
    have "without (insert n R) xs = without R xs"
      using without_other [of "{n}" xs R] n(1) by simp
    then show ?thesis
      using Cons.prems(1) d True R n x
      by (intro exI [of _ "insert n R"]) (auto simp: droppable_def RemoveArgUses_count)
  next
    case False
    then show ?thesis
      using Cons.prems(1) d R n x
      by (intro exI [of _ R]) (auto simp: droppable_def split: if_splits)
  qed
qed

definition without_blocks :: "node_id set \<Rightarrow> ir_function \<Rightarrow> ir_function" where
  "without_blocks R F = map (map_prod id (without R)) F"

lemma all_code_without: "all_code (without_blocks R F) = without R (all_code F)"
  by (induction F) (auto simp: without_blocks_def)

lemma dce_blocks_ok:
  assumes "dce_blocks F U = (F', U', k)" "unique_ids F" "\<And>n. U n = C n + refs (all_code F) n"
  shows "\<exists>R \<subseteq> fst ` set (all_code F). F' = without_blocks R F \<and> droppable R (all_code F) \<and> k = card R
    \<and> (\<forall>n \<in> R. C n + refs (all_code F') n = 0) \<and> (\<forall>n. U' n = C n + refs (all_code F') n)"
  using assms
proof (induction F arbitrary: U F' U' k C)
  case Nil
  then show ?case by (auto simp: droppable_def without_blocks_def)
next
  case (Cons x F)
  obtain b xs where x: "x = (b, xs)" by fastforce
  obtain ys V l where d: "dce_code xs U = (ys, V, l)" by (metis prod_cases3)
  obtain H W j where e: "dce_blocks F V = (H, W, j)" by (metis prod_cases3)
  have ids: "distinct (map fst xs)" "unique_ids F" "fst ` set xs \<inter> fst ` set (all_code F) = {}"
    using Cons.prems(2) x by (auto simp: unique_ids_def)
  obtain R where R: "R \<subseteq> fst ` set xs" "ys = without R xs" "droppable R xs" "l = card R"
    "\<forall>n \<in> R. C n + refs (all_code F) n + refs ys n = 0" "\<forall>n. V n = C n + refs (all_code F) n + refs ys n"
    using dce_code_ok [OF d ids(1), of "\<lambda>n. C n + refs (all_code F) n"] Cons.prems(3) x by auto
  obtain S where S: "S \<subseteq> fst ` set (all_code F)" "H = without_blocks S F" "droppable S (all_code F)" "j = card S"
    "\<forall>n \<in> S. C n + refs ys n + refs (all_code H) n = 0" "\<forall>n. W n = C n + refs ys n + refs (all_code H) n"
    using Cons.IH [OF e ids(2), of "\<lambda>n. C n + refs ys n"] R(6) by auto
  have disj: "R \<inter> fst ` set (all_code F) = {}" "S \<inter> fst ` set xs = {}" "R \<inter> S = {}"
    using ids(3) R(1) S(1) by auto
  have sub: "without_blocks (R \<union> S) F = H"
  proof -
    have "without (R \<union> S) (snd y) = without S (snd y)" if "y \<in> set F" for y
      by (rule without_other) (use that disj(1) in \<open>auto simp: all_code_def\<close>)
    then show ?thesis by (auto simp: S(2) without_blocks_def map_prod_def split: prod.splits)
  qed
  have "F' = without_blocks (R \<union> S) (x # F)"
    using Cons.prems(1) d e x sub R(2) without_other [of S xs R] disj(2)
    by (auto simp: without_blocks_def Un_commute)
  moreover have card: "card (R \<union> S) = card R + card S"
    by (intro card_Un_disjoint disj(3) finite_subset [OF R(1)] finite_subset [OF S(1)]) simp_all
  then have "k = card (R \<union> S)"
    using Cons.prems(1) d e x R(4) S(4) by simp
  moreover have "droppable (R \<union> S) (all_code (x # F))"
    using R(3) S(3) disj x by (simp add: droppable_parts droppable_none)
  moreover have "all_code F' = ys @ all_code H" "U' = W" using Cons.prems(1) d e x by auto
  moreover have "C n + refs (ys @ all_code H) n = 0" if "n \<in> R \<union> S" for n
    using that R(5) S(5) refs_without [of S "all_code F" n] by (auto simp: S(2) all_code_without)
  moreover have "R \<union> S \<subseteq> fst ` set (all_code (x # F))" using R(1) S(1) x by (auto simp: image_Un)
  moreover have "\<forall>n. W n = C n + refs (ys @ all_code H) n" using S(6) by simp
  ultimately show ?case by (intro exI [of _ "R \<union> S"]) simp
qed

section \<open>The pass keeps the meaning of the function\<close>

definition ir_ok :: "ir_list \<Rightarrow> bool" where
  "ir_ok G \<longleftrightarrow> unique_ids (Blocks G) \<and> uses_ok G"

abbreviation dce_run :: "ir_list \<Rightarrow> ir_list" where
  "dce_run G \<equiv> snd (DeadCodeElimination G)"

definition dce_removed :: "ir_list \<Rightarrow> node_id set" where
  "dce_removed G = fst ` set (all_code (Blocks G)) - fst ` set (all_code (Blocks (dce_run G)))"

lemma ids_without: "fst ` set (without R xs) = fst ` set xs - R"
  by (force simp: without_def)

lemma dce_ok:
  assumes "ir_ok G"
  defines "R \<equiv> dce_removed G"
  shows "Blocks (dce_run G) = without_blocks R (Blocks G)" "droppable R (all_code (Blocks G))"
    "\<forall>n \<in> R. refs (all_code (Blocks (dce_run G))) n = 0" "uses_ok (dce_run G)"
    "fst (DeadCodeElimination G) \<longleftrightarrow> R \<noteq> {}"
proof -
  obtain F U k where d: "dce_blocks (Blocks G) (NumUses G) = (F, U, k)" by (metis prod_cases3)
  obtain S where S: "S \<subseteq> fst ` set (all_code (Blocks G))" "F = without_blocks S (Blocks G)"
    "droppable S (all_code (Blocks G))" "k = card S" "\<forall>n \<in> S. refs (all_code F) n = 0" "\<forall>n. U n = refs (all_code F) n"
    using dce_blocks_ok [OF d, of "\<lambda>_. 0"] assms(1) by (auto simp: ir_ok_def uses_ok_def)
  have run: "DeadCodeElimination G = (k \<noteq> 0, G\<lparr>Blocks := F, NumUses := U\<rparr>)"
    by (simp add: DeadCodeElimination_def d)
  have R: "R = S" using S(1,2) by (auto simp: R_def dce_removed_def run all_code_without ids_without)
  have fin: "finite S" using S(1) by (rule finite_subset) simp
  show "Blocks (dce_run G) = without_blocks R (Blocks G)" "droppable R (all_code (Blocks G))"
    "\<forall>n \<in> R. refs (all_code (Blocks (dce_run G))) n = 0" "uses_ok (dce_run G)"
    "fst (DeadCodeElimination G) \<longleftrightarrow> R \<noteq> {}"
    using S fin by (simp_all add: R run uses_ok_def)
qed

lemma distinct_without: "distinct (map fst xs) \<Longrightarrow> distinct (map fst (without R xs))"
  by (simp add: without_def distinct_map_filter)

lemma map_of_without: "n \<notin> R \<Longrightarrow> map_of (without R xs) n = map_of xs n"
  by (induction xs) auto

lemma GetOpSize_without: "n \<notin> R \<Longrightarrow> GetOpSize (without_blocks R F) n = GetOpSize F n"
  using map_of_without [of n R "all_code F"]
  by (simp add: GetOpSize_def all_code_without [symmetric] all_code_def [symmetric])

lemma run_block_without:
  assumes "agree R s t" "droppable R xs" "\<And>n nd. (n, nd) \<in> set xs \<Longrightarrow> n \<notin> R \<Longrightarrow> set (op_args (Op nd)) \<inter> R = {}"
    "\<And>n. n \<notin> R \<Longrightarrow> szs' n = szs n" "Fault (run_block szs xs s) = None" "\<not> Quit s" "Redo s = None"
  shows "agree R (run_block szs xs s) (run_block szs' (without R xs) t)"
  using assms
proof (induction szs xs s arbitrary: t rule: run_block.induct)
  case (1 szs s)
  then show ?case by simp
next
  case (2 szs n nd rest s)
  let ?s = "exec_node szs n nd s"
  have rest: "droppable R rest" "\<And>n nd. (n, nd) \<in> set rest \<Longrightarrow> n \<notin> R \<Longrightarrow> set (op_args (Op nd)) \<inter> R = {}"
    using 2(3,4) by (auto simp: droppable_def)
  have ok: "Fault ?s = None" using 2(6) by (auto simp: Let_def split: if_splits)
  show ?case
  proof (cases "n \<in> R")
    case True
    then have dead: "\<not> HasSideEffects (Op nd)" using 2(3) by (auto simp: droppable_def)
    note d = exec_node_dead [OF dead True ok 2(2)]
    then have go: "\<not> (Quit ?s \<or> Redo ?s \<noteq> None \<or> Fault ?s \<noteq> None)" using ok 2(7,8) by simp
    then have "agree R (run_block szs rest ?s) (run_block szs' (without R rest) t)"
      using 2(1) [OF refl go d(1) rest 2(5)] 2(6) by (simp add: Let_def)
    then show ?thesis using True go by (simp add: Let_def)
  next
    case False
    have a: "agree R ?s (exec_node szs' n nd t)"
      by (rule exec_node_agree [OF 2(2)]) (use 2(4,5) False in auto)
    note vis = agreeD(4-6) [OF a]
    show ?thesis
    proof (cases "Quit ?s \<or> Redo ?s \<noteq> None")
      case True
      then show ?thesis using a vis False by (auto simp: Let_def)
    next
      case stay: False
      then have go: "\<not> (Quit ?s \<or> Redo ?s \<noteq> None \<or> Fault ?s \<noteq> None)" using ok by simp
      then have "agree R (run_block szs rest ?s) (run_block szs' (without R rest) (exec_node szs' n nd t))"
        using 2(1) [OF refl go a rest 2(5)] 2(6) stay by (simp add: Let_def)
      then show ?thesis using go vis False by (simp add: Let_def)
    qed
  qed
qed

lemma block_start_sel [simp]: "\<not> Quit (block_start s)" "Redo (block_start s) = None"
  by (simp_all add: block_start_def)

lemma droppable_mono: "droppable R ys \<Longrightarrow> set xs \<subseteq> set ys \<Longrightarrow> droppable R xs"
  by (auto simp: droppable_def)

interpretation dce: ir_pass ir_ok dce_run "\<lambda>G. agree (dce_removed G)"
proof
  fix G assume G: "ir_ok G"
  note d = dce_ok [OF G]
  show "ir_ok (dce_run G)"
    using G d(1,4) by (simp add: ir_ok_def unique_ids_def all_code_without distinct_without)
  show "map fst (Blocks (dce_run G)) = map fst (Blocks G)" by (simp add: d(1) without_blocks_def)
  show "agree (dce_removed G) (boot c m) (boot c m)" for c m by simp
next
  fix G s t assume "agree (dce_removed G) s t"
  then show "agree UNIV s t" by (simp add: agree_def)
next
  fix G i s t
  assume G: "ir_ok G" and i: "i < length (Blocks G)" and a: "agree (dce_removed G) s t"
    and ok: "Fault (block_run (Blocks G) i s) = None"
  let ?R = "dce_removed G" and ?F = "Blocks G"
  note d = dce_ok [OF G]
  have code: "Blocks (dce_run G) ! i = (fst (?F ! i), without ?R (snd (?F ! i)))"
    using i by (simp add: d(1) without_blocks_def map_prod_def split: prod.splits)
  have "set (op_args (Op nd)) \<inter> ?R = {}" if "(n, nd) \<in> set (snd (?F ! i))" "n \<notin> ?R" for n nd
  proof -
    have "(n, nd) \<in> set (all_code (Blocks (dce_run G)))"
      using that block_code [OF i] by (auto simp: d(1) all_code_without without_def)
    then show ?thesis using d(3) by (auto simp: refs_0)
  qed
  then show "agree ?R (block_run ?F i s) (block_run (Blocks (dce_run G)) i t)"
    unfolding code snd_conv using run_block_without [OF agree_updates(7) [OF a] droppable_mono [OF d(2) block_code [OF i]]]
      GetOpSize_without ok by (simp add: d(1))
qed

text \<open>
  C17: Dead code elimination keeps the meaning of a function with unique node ids and correct use counts:
  every run that ends without a fault ends in the same guest state after the pass, the optimised function
  ends only if the original one does, the use counts stay correct, and the pass reports a change exactly
  when it removed a node.
\<close>

theorem DeadCodeElimination_correct:
  assumes "unique_ids (Blocks G)" "uses_ok G" "Blocks G \<noteq> []"
  shows "preserves (Blocks G) (Blocks (snd (DeadCodeElimination G)))
    \<and> unique_ids (Blocks (snd (DeadCodeElimination G))) \<and> uses_ok (snd (DeadCodeElimination G))
    \<and> (fst (DeadCodeElimination G) \<longleftrightarrow> all_code (Blocks (snd (DeadCodeElimination G))) \<noteq> all_code (Blocks G))"
proof -
  have G: "ir_ok G" using assms(1,2) by (simp add: ir_ok_def)
  have "dce_removed G \<noteq> {} \<longleftrightarrow> without (dce_removed G) (all_code (Blocks G)) \<noteq> all_code (Blocks G)"
    using ids_without [of "dce_removed G" "all_code (Blocks G)"]
    by (auto simp: dce_removed_def without_def filter_id_conv)
  then show ?thesis
    using dce.pass_preserves [OF G assms(3)] dce.wf_run [OF G] dce_ok(1,5) [OF G]
    by (simp add: ir_ok_def all_code_without)
qed

text \<open>
  C35: A division whose result is not used is removed although it would have faulted: the function divides
  by zero, the optimised one returns.
\<close>

definition dead_divide :: ir_list where
  "dead_divide = \<lparr>Blocks = [(0, [(1, \<lparr>Op = IR_Constant 0, Size = 8, ElementSize = 8\<rparr>),
       (2, \<lparr>Op = IR_Bin OP_UDIV 1 1, Size = 8, ElementSize = 8\<rparr>),
       (3, \<lparr>Op = IR_ExitFunction 1, Size = 8, ElementSize = 8\<rparr>)])],
     NumUses = (\<lambda>n. if n = 1 then 3 else 0), NextNode = 4\<rparr>"

theorem dead_division_fault_dropped:
  "(\<exists>s. InterpretIR (Blocks dead_divide) c m = Some s \<and> Fault s \<noteq> None)
   \<and> (\<exists>t. InterpretIR (Blocks (snd (DeadCodeElimination dead_divide))) c m = Some t \<and> Fault t = None)"
proof -
  have "\<exists>s. InterpretIR (Blocks dead_divide) c m = Some s \<and> Fault s \<noteq> None"
    unfolding InterpretIR_def dead_divide_def
    by (subst interp_loop.simps)
      (simp add: Let_def boot_def block_start_def exec_node_def set_slot_def set_fault_def Op_Constant_def GD_def Op_UDiv_def uread_def put_bytes_fresh_8 [of 0, simplified])
  moreover have "Blocks (snd (DeadCodeElimination dead_divide)) = [(0, [(1, \<lparr>Op = IR_Constant 0, Size = 8, ElementSize = 8\<rparr>),
       (3, \<lparr>Op = IR_ExitFunction 1, Size = 8, ElementSize = 8\<rparr>)])]"
    by (simp add: dead_divide_def DeadCodeElimination_def RemoveArgUses_def RemoveUse_def)
  ultimately show ?thesis
    by (simp add: InterpretIR_def, subst interp_loop.simps)
      (simp add: Let_def boot_def block_start_def exec_node_def set_slot_def Op_Constant_def)
qed

theorem DeadCodeElimination_correct_witness:
  "preserves (Blocks dead_divide) (Blocks (snd (DeadCodeElimination dead_divide)))
    \<and> fst (DeadCodeElimination dead_divide)"
proof -
  have "unique_ids (Blocks dead_divide)" "uses_ok dead_divide" "Blocks dead_divide \<noteq> []"
    by (simp_all add: dead_divide_def unique_ids_def uses_ok_def)
  moreover have "fst (DeadCodeElimination dead_divide)" by (simp add: dead_divide_def DeadCodeElimination_def)
  ultimately show ?thesis using DeadCodeElimination_correct [of dead_divide] by simp
qed

end
