(* ===== verification/IR_Validation.thy ===== *)
theory IR_Validation
  imports IR_Rewrite
begin

text \<open>
  The validator of the intermediate code (\<^verbatim>\<open>IR/Passes/IRValidation.cpp\<close>) with the bit set it keeps its live nodes
  in (\<^verbatim>\<open>Common/BitSet.h\<close>). The checks of register allocation data are left out: the interpreter has none. The
  nodes \<^verbatim>\<open>BeginBlock\<close> and \<^verbatim>\<open>EndBlock\<close> delimit the code of a block and are not listed, so that the last listed
  node is the one before \<^verbatim>\<open>EndBlock\<close>. Every \<^verbatim>\<open>OP_CODEBLOCK\<close> node of a list is one of its listed blocks, so that
  the check of a branch target, which looks at the target's operation, is membership among them. The number of arguments is fixed by the constructor of an operation. The
  validator only reports: its result is the list of errors, and the bits that it leaves behind.
\<close>

section \<open>Bit sets\<close>

type_synonym bit_set = "u64 list"

definition BitSet_Get :: "bit_set \<Rightarrow> nat \<Rightarrow> bool" where
  "BitSet_Get Memory Element \<longleftrightarrow> Memory ! (Element div 64) AND push_bit (Element mod 64) 1 \<noteq> 0"

definition BitSet_Set :: "bit_set \<Rightarrow> nat \<Rightarrow> bit_set" where
  "BitSet_Set Memory Element =
     Memory[Element div 64 := Memory ! (Element div 64) OR push_bit (Element mod 64) 1]"

definition BitSet_Clear :: "bit_set \<Rightarrow> nat \<Rightarrow> bit_set" where
  "BitSet_Clear Memory Element =
     Memory[Element div 64 := Memory ! (Element div 64) AND push_bit (Element mod 64) 1]"

text \<open>\<^verbatim>\<open>Realloc\<close> keeps what was there; what \<^verbatim>\<open>realloc\<close> leaves in new memory is the parameter \<open>fill\<close>.\<close>

definition BitSet_Realloc :: "(nat \<Rightarrow> u64) \<Rightarrow> bit_set \<Rightarrow> nat \<Rightarrow> bit_set" where
  "BitSet_Realloc fill Memory Elements =
     (let n = (Elements + 63) div 64 in take n Memory @ map fill [length Memory..<n])"

lemma BitSet_Get_bit: "BitSet_Get M e = bit (M ! (e div 64)) (e mod 64)"
  by (simp add: BitSet_Get_def and_exp_eq_0_iff_not_bit flip: push_bit_eq_mult)

lemma BitSet_Get_Set:
  assumes "e < 64 * length M" "f < 64 * length M"
  shows "BitSet_Get (BitSet_Set M e) f \<longleftrightarrow> f = e \<or> BitSet_Get M f"
proof -
  have *: "e div 64 < length M" "f div 64 < length M" using assms by auto
  have "f = e \<longleftrightarrow> f div 64 = e div 64 \<and> f mod 64 = e mod 64" by (metis div_mod_decomp)
  then show ?thesis using *
    by (auto simp: BitSet_Get_bit BitSet_Set_def nth_list_update bit_or_iff bit_exp_iff)
qed

lemma BitSet_length [simp]:
  "length (BitSet_Set M e) = length M" "length (BitSet_Realloc fill M E) = (E + 63) div 64"
  by (simp_all add: BitSet_Set_def BitSet_Realloc_def Let_def)



section \<open>The validator\<close>

datatype validation_error =
    NoDestinationSize node_id
  | DefinitionAfterUse node_id node_id
  | DeadReference node_id node_id
  | TargetIsNoBlock node_id node_id
  | TooManySuccessors node_id
  | NoBlockExit node_id
  | WrongUses node_id

text \<open>
  \<^verbatim>\<open>HasDest\<close> is set for the operations that \<^verbatim>\<open>IR.json\<close> declares with a result class. \<^verbatim>\<open>AtomicAdd\<close> is declared with
  one, unlike the other atomic operations that return nothing.
\<close>

fun HasDest :: "ir_op \<Rightarrow> bool" where
  "HasDest (IR_Atomic OP_ATOMICADD v a) = True"
| "HasDest (IR_Fetch o' v a) = True"
| "HasDest (IR_AtomicFetchNeg a) = True"
| "HasDest (IR_CAS e d a) = True"
| "HasDest (IR_CASPair e d a) = True"
| "HasDest ir \<longleftrightarrow> \<not> HasSideEffects ir"

fun IsFragmentExit :: "ir_op \<Rightarrow> bool" where
  "IsFragmentExit (IR_ExitFunction rip) = True"
| "IsFragmentExit ir = False"

fun IsBlockExit :: "ir_op \<Rightarrow> bool" where
  "IsBlockExit (IR_Jump t) = True"
| "IsBlockExit (IR_CondJump c a b t f cs) = True"
| "IsBlockExit ir = IsFragmentExit ir"

fun op_successors :: "ir_op \<Rightarrow> node_id list" where
  "op_successors (IR_CondJump c a b t f cs) = [t, f]"
| "op_successors (IR_Jump t) = [t]"
| "op_successors ir = []"

definition validate_arg :: "bit_set \<Rightarrow> node_id \<Rightarrow> node_id \<Rightarrow> validation_error list" where
  "validate_arg NodeIsLive ID ArgID =
     (if ArgID \<ge> ID then [DefinitionAfterUse ID ArgID] else [])
     @ (if \<not> BitSet_Get NodeIsLive ArgID then [DeadReference ID ArgID] else [])"

definition validate_node :: "node_id list \<Rightarrow> bit_set \<Rightarrow> node_id \<Rightarrow> ir_node \<Rightarrow> validation_error list" where
  "validate_node BlockIDs NodeIsLive ID nd =
     (if HasDest (Op nd) \<and> Size nd = 0 then [NoDestinationSize ID] else [])
     @ concat (map (validate_arg NodeIsLive ID) (value_args (Op nd)))
     @ map (TargetIsNoBlock ID) (filter (\<lambda>t. t \<notin> set BlockIDs) (op_successors (Op nd)))"

fun validate_code :: "node_id list \<Rightarrow> bit_set \<Rightarrow> code \<Rightarrow> validation_error list \<times> bit_set" where
  "validate_code BlockIDs NodeIsLive [] = ([], NodeIsLive)"
| "validate_code BlockIDs NodeIsLive ((ID, nd) # xs) =
     (let (Errors, Live) = validate_code BlockIDs (BitSet_Set NodeIsLive ID) xs
      in (validate_node BlockIDs NodeIsLive ID nd @ Errors, Live))"

definition validate_block :: "ir_block \<Rightarrow> validation_error list" where
  "validate_block b =
     (if length (concat (map (\<lambda>(n, nd). op_successors (Op nd)) (snd b))) > 2 then [TooManySuccessors (fst b)] else [])
     @ (if snd b = [] \<or> \<not> IsBlockExit (Op (snd (last (snd b)))) then [NoBlockExit (fst b)] else [])"

fun validate_blocks :: "node_id list \<Rightarrow> bit_set \<Rightarrow> ir_function \<Rightarrow> validation_error list \<times> bit_set" where
  "validate_blocks BlockIDs NodeIsLive [] = ([], NodeIsLive)"
| "validate_blocks BlockIDs NodeIsLive (b # bs) =
     (let (Errors, Live) = validate_code BlockIDs NodeIsLive (snd b);
          (Errors', Live') = validate_blocks BlockIDs Live bs
      in (Errors @ validate_block b @ Errors', Live'))"

definition Uses :: "ir_function \<Rightarrow> node_id \<Rightarrow> nat" where
  "Uses F i = count_list (concat (map (\<lambda>(n, nd). value_args (Op nd)) (all_code F))) i"

text \<open>
  \<^verbatim>\<open>IRValidation::Run\<close>. \<^verbatim>\<open>MaxNodes\<close> is zero and never written, so that every run calls \<^verbatim>\<open>Realloc\<close>. The bits are
  not cleared.
\<close>

abbreviation IRHeaderID :: node_id where
  "IRHeaderID \<equiv> 1"

definition IRValidation :: "(nat \<Rightarrow> u64) \<Rightarrow> bit_set \<Rightarrow> ir_list \<Rightarrow> validation_error list \<times> bit_set" where
  "IRValidation fill NodeIsLive G =
     (let BlockIDs = map fst (Blocks G);
          Live = BitSet_Set (BitSet_Realloc fill NodeIsLive (NextNode G)) IRHeaderID;
          (Errors, Live) = validate_blocks BlockIDs Live (Blocks G)
      in (Errors @ map WrongUses (filter (\<lambda>i. NumUses G i \<noteq> Uses (Blocks G) i \<and> i \<notin> set BlockIDs \<and> i \<noteq> IRHeaderID)
            [0..<NextNode G]), Live))"

section \<open>What the checks say\<close>

lemma validate_node_Nil:
  "validate_node B M n nd = [] \<longleftrightarrow> (HasDest (Op nd) \<longrightarrow> Size nd \<noteq> 0)
     \<and> (\<forall>a \<in> set (value_args (Op nd)). a < n \<and> BitSet_Get M a) \<and> op_targets (Op nd) \<subseteq> set B"
proof -
  have "set (op_successors (Op nd)) = op_targets (Op nd)" by (cases "Op nd") auto
  then show ?thesis by (auto simp: validate_node_def validate_arg_def filter_empty_conv)
qed

lemma validate_code_nodes:
  "fst (validate_code B M xs) = [] \<Longrightarrow> (n, nd) \<in> set xs \<Longrightarrow> (HasDest (Op nd) \<longrightarrow> Size nd \<noteq> 0) \<and> op_targets (Op nd) \<subseteq> set B"
  by (induction B M xs rule: validate_code.induct) (auto simp: validate_node_Nil split: prod.splits)

lemma validate_blocks_each:
  "fst (validate_blocks B M F) = [] \<Longrightarrow> b \<in> set F \<Longrightarrow> validate_block b = [] \<and> (\<exists>M. fst (validate_code B M (snd b)) = [])"
proof (induction B M F rule: validate_blocks.induct)
  case (2 B M c bs)
  obtain L where L: "validate_code B M (snd c) = ([], L)" "validate_block c = []" "fst (validate_blocks B L bs) = []"
    using 2(2) by (auto split: prod.splits)
  show ?case
  proof (cases "b = c")
    case True
    then show ?thesis using L(1,2) by (metis fst_conv)
  next
    case False
    then show ?thesis using 2(1) [OF L(1) [symmetric] refl] 2(3) L by simp
  qed
qed simp

lemma validate_code_append:
  "validate_code B M (xs @ ys) = (let (Errors, L) = validate_code B M xs; (Errors', L') = validate_code B L ys in (Errors @ Errors', L'))"
  by (induction B M xs rule: validate_code.induct) (auto split: prod.splits)

lemma validate_all_code: "fst (validate_blocks B M F) = [] \<Longrightarrow> fst (validate_code B M (all_code F)) = []"
proof (induction B M F rule: validate_blocks.induct)
  case (2 B M c bs)
  obtain L where L: "validate_code B M (snd c) = ([], L)" "fst (validate_blocks B L bs) = []"
    using 2(2) by (auto split: prod.splits)
  then have "fst (validate_code B L (all_code bs)) = []" using 2(1) by force
  then show ?case using L(1) by (simp add: validate_code_append split: prod.splits)
qed simp

lemma live_after:
  assumes "\<And>n. n \<in> fst ` set xs \<Longrightarrow> n < 64 * length M" "a < 64 * length M"
  shows "length (snd (validate_code B M xs)) = length M"
    "BitSet_Get (snd (validate_code B M xs)) a \<longleftrightarrow> a \<in> fst ` set xs \<or> BitSet_Get M a"
proof -
  have "length (snd (validate_code B M xs)) = length M
      \<and> (BitSet_Get (snd (validate_code B M xs)) a \<longleftrightarrow> a \<in> fst ` set xs \<or> BitSet_Get M a)"
    using assms
  proof (induction B M xs rule: validate_code.induct)
    case (2 B M n nd xs)
    have "length (snd (validate_code B (BitSet_Set M n) xs)) = length M
      \<and> (BitSet_Get (snd (validate_code B (BitSet_Set M n) xs)) a \<longleftrightarrow> a \<in> fst ` set xs \<or> BitSet_Get (BitSet_Set M n) a)"
      using 2(1) 2(2) 2(3) by simp
    moreover have "BitSet_Get (BitSet_Set M n) a \<longleftrightarrow> a = n \<or> BitSet_Get M a"
      by (rule BitSet_Get_Set) (use 2(2,3) in simp_all)
    ultimately show ?case by (auto split: prod.splits)
  qed simp
  then show "length (snd (validate_code B M xs)) = length M"
    "BitSet_Get (snd (validate_code B M xs)) a \<longleftrightarrow> a \<in> fst ` set xs \<or> BitSet_Get M a" by simp_all
qed

lemma validate_code_args:
  assumes "fst (validate_code B M (pre @ (n, nd) # post)) = []" "\<And>x. x \<in> fst ` set (pre @ (n, nd) # post) \<Longrightarrow> x < 64 * length M"
    "a \<in> set (value_args (Op nd))"
  shows "a < n \<and> (a \<in> fst ` set pre \<or> BitSet_Get M a)"
proof -
  let ?L = "snd (validate_code B M pre)"
  have "validate_node B ?L n nd = []" using assms(1) by (auto simp: validate_code_append split: prod.splits)
  then have a: "a < n" "BitSet_Get ?L a" using assms(3) by (auto simp: validate_node_Nil)
  moreover have "a < 64 * length M" using a(1) assms(2) [of n] by simp
  ultimately show ?thesis using live_after(2) [of pre M a B] assms(2) by auto
qed

section \<open>Validated code stays in its blocks\<close>

lemma block_exit_effect:
  "IsBlockExit (Op nd) \<Longrightarrow> Fault (exec_node szs n nd s) = None \<Longrightarrow> Quit (exec_node szs n nd s) \<or> Redo (exec_node szs n nd s) \<noteq> None"
  by (cases "Op nd") (auto simp: exec_node_def set_fault_def split: if_splits sum.splits bool.splits)

lemma block_left:
  "xs \<noteq> [] \<Longrightarrow> IsBlockExit (Op (snd (last xs))) \<Longrightarrow> Fault (run_block szs xs s) = None
   \<Longrightarrow> Quit (run_block szs xs s) \<or> Redo (run_block szs xs s) \<noteq> None"
proof (induction szs xs s rule: run_block.induct)
  case (2 szs n nd rest s)
  show ?case
  proof (cases "rest = []")
    case True
    then show ?thesis using 2(2-4) block_exit_effect [of nd szs n s] by (auto simp: Let_def split: if_splits)
  next
    case False
    then show ?thesis using 2 by (auto simp: Let_def)
  qed
qed simp

lemma find_block_exists: "t \<in> fst ` set F \<Longrightarrow> \<exists>j. find_block F t = Some j \<and> j < length F"
  by (induction F) auto

text \<open>The states in which a run of a function can end: after one of its blocks, with a fault raised there or by leaving the function.\<close>

definition ends_properly :: "ir_function \<Rightarrow> istate \<Rightarrow> bool" where
  "ends_properly F s \<longleftrightarrow> (\<exists>i s0. i < length F \<and> s = block_run F i s0) \<and> (Fault s = None \<longrightarrow> Quit s \<and> Redo s = None)"

lemma interp_loop_ends:
  assumes "interp_loop F i s = Some s'" "i < length F"
    and exits: "\<And>b. b \<in> set F \<Longrightarrow> snd b \<noteq> [] \<and> IsBlockExit (Op (snd (last (snd b))))"
    and targets: "\<And>b n nd. b \<in> set F \<Longrightarrow> (n, nd) \<in> set (snd b) \<Longrightarrow> op_targets (Op nd) \<subseteq> fst ` set F"
  shows "ends_properly F s'"
proof -
  have "H = F \<longrightarrow> i < length H \<longrightarrow> ends_properly F s'" if "interp_loop H i s = Some s'" for H i s s'
    using that
  proof (induction rule: interp_loop.raw_induct [rotated, consumes 1, case_names step])
    case (step loop H i s s')
    show ?case
    proof (intro impI)
      assume H: "H = F" and i: "i < length H"
      let ?s = "block_run H i s"
      have b: "F ! i \<in> set F" using H i by simp
      show "ends_properly F s'"
      proof (cases "Fault ?s = None")
        case False
        then have "s' = ?s" using step(2) i by (simp add: Let_def)
        then show ?thesis using False H i by (auto simp: ends_properly_def)
      next
        case True
        have left: "Quit ?s \<or> Redo ?s \<noteq> None" using block_left [OF _ _ True] exits [OF b] H by simp
        show ?thesis
        proof (cases "Redo ?s")
          case None
          then have "s' = ?s" "Quit ?s" using step(2) i True left by (simp_all add: Let_def)
          then show ?thesis using None H i by (auto simp: ends_properly_def)
        next
          case (Some t)
          then have "t \<in> (\<Union>(n, nd) \<in> set (snd (F ! i)). op_targets (Op nd))"
            using run_block_Redo [of "GetOpSize H" "snd (H ! i)" "block_start s" t] H by (simp add: block_start_def)
          then have "t \<in> fst ` set F" using targets [OF b] by blast
          then obtain j where "find_block F t = Some j" "j < length F" using find_block_exists by blast
          then show ?thesis using step H i True Some by (simp add: Let_def)
        qed
      qed
    qed
  qed
  then show ?thesis using assms(1,2) by blast
qed

lemma validated:
  assumes "fst (IRValidation fill M G) = []"
  shows "fst (validate_blocks (map fst (Blocks G)) (BitSet_Set (BitSet_Realloc fill M (NextNode G)) IRHeaderID) (Blocks G)) = []"
    "\<And>i. i < NextNode G \<Longrightarrow> i \<notin> fst ` set (Blocks G) \<Longrightarrow> i \<noteq> IRHeaderID \<Longrightarrow> NumUses G i = Uses (Blocks G) i"
  using assms by (auto simp: IRValidation_def Let_def filter_empty_conv split: prod.splits)

lemma validated_blocks:
  assumes "fst (IRValidation fill M G) = []" "b \<in> set (Blocks G)"
  shows "snd b \<noteq> [] \<and> IsBlockExit (Op (snd (last (snd b))))"
    "(n, nd) \<in> set (snd b) \<Longrightarrow> (HasDest (Op nd) \<longrightarrow> Size nd \<noteq> 0) \<and> op_targets (Op nd) \<subseteq> fst ` set (Blocks G)"
proof -
  note each = validate_blocks_each [OF validated(1) [OF assms(1)] assms(2)]
  then show "snd b \<noteq> [] \<and> IsBlockExit (Op (snd (last (snd b))))" by (auto simp: validate_block_def split: if_splits)
  show "(HasDest (Op nd) \<longrightarrow> Size nd \<noteq> 0) \<and> op_targets (Op nd) \<subseteq> fst ` set (Blocks G)" if "(n, nd) \<in> set (snd b)"
    using each validate_code_nodes [OF _ that, of "map fst (Blocks G)"] by auto
qed

text \<open>
  C10: Code that the validator accepts stays within its blocks: a run that ends did so after running one of the
  blocks of the function, and ended without a fault only by \<^verbatim>\<open>ExitFunction\<close>. No branch leads to something that is
  not a block, and control never runs off the end of the function.
\<close>

theorem IRValidation_control_flow:
  assumes "fst (IRValidation fill NodeIsLive G) = []" "Blocks G \<noteq> []" "InterpretIR (Blocks G) c m = Some s"
  shows "ends_properly (Blocks G) s"
  using interp_loop_ends [of "Blocks G" 0 "boot c m" s] validated_blocks [OF assms(1)] assms(2,3) by (auto simp: InterpretIR_def)

text \<open>
  C12: Typing of validated code. The validator accepts a list only if every argument of every node has a smaller id
  and is the header, a node that comes earlier in the list, or a node whose bit was already set when the run began
  (left by an earlier run, or found in memory that \<^verbatim>\<open>realloc\<close> had not cleared); every destination has a size,
  every branch leads to a block, and every node that is no block counts its uses correctly.
\<close>

theorem IRValidation_defined:
  assumes "fst (IRValidation fill NodeIsLive G) = []" "\<forall>n \<in> fst ` set (all_code (Blocks G)). n < NextNode G"
    "all_code (Blocks G) = pre @ (n, nd) # post"
  shows "(\<forall>a \<in> set (value_args (Op nd)). a < n
      \<and> (a \<in> fst ` set pre \<or> a = IRHeaderID \<or> BitSet_Get (BitSet_Realloc fill NodeIsLive (NextNode G)) a))
    \<and> (HasDest (Op nd) \<longrightarrow> Size nd \<noteq> 0) \<and> op_targets (Op nd) \<subseteq> fst ` set (Blocks G)
    \<and> (n \<notin> fst ` set (Blocks G) \<and> n \<noteq> IRHeaderID \<longrightarrow> NumUses G n = Uses (Blocks G) n)"
proof -
  let ?R = "BitSet_Realloc fill NodeIsLive (NextNode G)"
  let ?M = "BitSet_Set ?R IRHeaderID"
  have ids: "x < 64 * length ?M" if "x < NextNode G" for x using that by auto
  have n: "n < NextNode G" using assms(2,3) by auto
  have "a < n \<and> (a \<in> fst ` set pre \<or> a = IRHeaderID \<or> BitSet_Get ?R a)" if "a \<in> set (value_args (Op nd))" for a
  proof -
    have a: "a < n \<and> (a \<in> fst ` set pre \<or> BitSet_Get ?M a)"
      using validate_code_args [OF validate_all_code [OF validated(1) [OF assms(1)], unfolded assms(3)] _ that] ids assms(2,3) by auto
    then show ?thesis using BitSet_Get_Set [of IRHeaderID ?R a] ids n by auto
  qed
  moreover have "(n, nd) \<in> set (all_code (Blocks G))" using assms(3) by simp
  then obtain b where "b \<in> set (Blocks G)" "(n, nd) \<in> set (snd b)" by (auto simp: all_code_def)
  ultimately show ?thesis using validated_blocks(2) [OF assms(1)] validated(2) [OF assms(1) n] by blast
qed

section \<open>Bits that outlive a run\<close>






section \<open>Examples\<close>

definition returning :: ir_list where
  "returning = \<lparr>Blocks = [(4, [(2, \<lparr>Op = IR_Constant 7, Size = 8, ElementSize = 8\<rparr>), (3, \<lparr>Op = IR_ExitFunction 2, Size = 8, ElementSize = 8\<rparr>)])],
     NumUses = (\<lambda>n. if n = 2 then 1 else 0), NextNode = 5\<rparr>"

text \<open>The same code without the constant that it returns.\<close>

definition undefined_return :: ir_list where
  "undefined_return = returning\<lparr>Blocks := [(4, [(3, \<lparr>Op = IR_ExitFunction 2, Size = 8, ElementSize = 8\<rparr>)])]\<rparr>"

lemma returning_valid: "IRValidation (\<lambda>_. 0) [] returning = ([], [14])"
  by code_simp

lemma returning_run: "\<exists>s. InterpretIR (Blocks returning) c m = Some s"
  unfolding InterpretIR_def by (rule interp_loop_forward) (simp_all add: returning_def forward_def block_targets_def)

theorem IRValidation_control_flow_witness:
  "\<exists>s. InterpretIR (Blocks returning) (\<lambda>_. 0) (\<lambda>_. 0) = Some s \<and> ends_properly (Blocks returning) s"
proof -
  have ok: "fst (IRValidation (\<lambda>_. 0) [] returning) = []" by (simp add: returning_valid)
  have ne: "Blocks returning \<noteq> []" by (simp add: returning_def)
  show ?thesis using IRValidation_control_flow [OF ok ne] returning_run by blast
qed

theorem IRValidation_defined_witness:
  "2 \<in> set (value_args (IR_ExitFunction 2)) \<and> (2 :: node_id) < 3 \<and> 2 \<in> fst ` set (take 1 (all_code (Blocks returning)))
   \<and> NumUses returning 3 = Uses (Blocks returning) 3"
proof -
  let ?pre = "[(2, \<lparr>Op = IR_Constant 7, Size = 8, ElementSize = 8\<rparr>)]"
    and ?nd = "\<lparr>Op = IR_ExitFunction 2, Size = 8, ElementSize = 8\<rparr>"
  have "all_code (Blocks returning) = ?pre @ (3, ?nd) # []" "\<forall>n \<in> fst ` set (all_code (Blocks returning)). n < NextNode returning"
    by (simp_all add: returning_def)
  then show ?thesis
    using IRValidation_defined [of "\<lambda>_. 0" "[]" returning ?pre 3 ?nd "[]"] returning_valid by (simp add: returning_def)
qed


text \<open>In the second run nothing at all is reported.\<close>

lemma undefined_return_accepted:
  "fst (IRValidation (\<lambda>_. 0) (snd (IRValidation (\<lambda>_. 0) [] returning)) undefined_return) = []"
  by code_simp

text \<open>
  \<^verbatim>\<open>BitSet::Clear\<close> lacks a complement: it keeps the bit that it should clear and clears the other bits of the word.
\<close>

theorem BitSet_Clear_inverted:
  "BitSet_Get (BitSet_Clear (BitSet_Set (BitSet_Set [0] 3) 5) 3) 3 \<and> \<not> BitSet_Get (BitSet_Clear (BitSet_Set (BitSet_Set [0] 3) 5) 3) 5"
  by code_simp

end
