(* ===== verification/Pass_Validated.thy ===== *)
theory Pass_Validated
  imports Pass_DeadCode IR_Validation
begin

text \<open>
  Dead code elimination and the validator: the pass manager runs the validator after the passes, and code that
  was valid before dead code elimination has to be valid after it.
\<close>

section \<open>The validator as a condition on every node\<close>

lemma validate_code_Nil:
  "fst (validate_code B M xs) = [] \<longleftrightarrow>
     (\<forall>pre n nd post. xs = pre @ (n, nd) # post \<longrightarrow> validate_node B (snd (validate_code B M pre)) n nd = [])"
proof (induction B M xs rule: validate_code.induct)
  case (2 B M k kd xs)
  have split: "(k, kd) # xs = pre @ (n, nd) # post
      \<longleftrightarrow> pre = [] \<and> k = n \<and> kd = nd \<and> xs = post \<or> (\<exists>ys. pre = (k, kd) # ys \<and> xs = ys @ (n, nd) # post)" for pre n nd post
    by (cases pre) auto
  have after: "snd (validate_code B M ((k, kd) # ys)) = snd (validate_code B (BitSet_Set M k) ys)" for ys
    by (simp split: prod.splits)
  have "fst (validate_code B M ((k, kd) # xs)) = []
      \<longleftrightarrow> validate_node B M k kd = [] \<and> fst (validate_code B (BitSet_Set M k) xs) = []"
    by (simp split: prod.splits)
  moreover have "(\<forall>pre n nd post. (k, kd) # xs = pre @ (n, nd) # post \<longrightarrow> validate_node B (snd (validate_code B M pre)) n nd = [])
      \<longleftrightarrow> validate_node B M k kd = [] \<and> (\<forall>ys n nd post. xs = ys @ (n, nd) # post
        \<longrightarrow> validate_node B (snd (validate_code B (BitSet_Set M k) ys)) n nd = [])" (is "?l \<longleftrightarrow> ?r")
  proof
    assume l: ?l
    have "validate_node B M k kd = []" using l [rule_format, of "[]" k kd xs] by simp
    moreover have "validate_node B (snd (validate_code B (BitSet_Set M k) ys)) n nd = []" if "xs = ys @ (n, nd) # post" for ys n nd post
      using l [rule_format, of "(k, kd) # ys" n nd post] that after [of ys] by simp
    ultimately show ?r by blast
  next
    assume r: ?r
    show ?l unfolding split using r after by (auto simp del: validate_code.simps(2))
  qed
  ultimately show ?case using 2 by simp
qed simp

lemma validate_blocks_Nil:
  "fst (validate_blocks B M F) = [] \<longleftrightarrow> fst (validate_code B M (all_code F)) = [] \<and> (\<forall>b \<in> set F. validate_block b = [])"
proof (induction B M F rule: validate_blocks.induct)
  case (2 B M c bs)
  obtain E L where L: "validate_code B M (snd c) = (E, L)" by fastforce
  show ?case using 2 [OF L [symmetric] refl] by (auto simp: L validate_code_append split: prod.splits)
qed simp

section \<open>Code without its dead nodes\<close>

lemma without_split:
  "without R xs = pre' @ (n, nd) # post' \<Longrightarrow> \<exists>pre post. xs = pre @ (n, nd) # post \<and> pre' = without R pre \<and> n \<notin> R"
proof (induction xs arbitrary: pre')
  case (Cons x xs)
  show ?case
  proof (cases "fst x \<in> R")
    case True
    then obtain pre post where "xs = pre @ (n, nd) # post" "pre' = without R pre" "n \<notin> R"
      using Cons by (auto simp: without_def)
    then show ?thesis using True by (intro exI [of _ "x # pre"] exI [of _ post]) (auto simp: without_def)
  next
    case False
    show ?thesis
    proof (cases pre')
      case Nil
      then show ?thesis using Cons.prems False by (intro exI [of _ "[]"] exI [of _ xs]) (auto simp: without_def)
    next
      case (Cons y ys)
      then have "y = x" "without R xs = ys @ (n, nd) # post'" using Cons.prems False by (auto simp: without_def)
      then obtain pre post where "xs = pre @ (n, nd) # post" "ys = without R pre" "n \<notin> R" using Cons.IH by blast
      then show ?thesis using Cons False \<open>y = x\<close> by (intro exI [of _ "x # pre"] exI [of _ post]) (auto simp: without_def)
    qed
  qed
qed (simp add: without_def)

lemma without_validated:
  assumes "fst (validate_code B M xs) = []" "\<And>k. k \<in> fst ` set xs \<Longrightarrow> k < 64 * length M"
    "\<And>n. n \<in> R \<Longrightarrow> refs (without R xs) n = 0"
  shows "fst (validate_code B M (without R xs)) = []"
  unfolding validate_code_Nil
proof (intro allI impI)
  fix pre' n nd post' assume w: "without R xs = pre' @ (n, nd) # post'"
  then obtain pre post where p: "xs = pre @ (n, nd) # post" "pre' = without R pre" "n \<notin> R" using without_split by blast
  let ?L = "snd (validate_code B M pre)" and ?L' = "snd (validate_code B M pre')"
  have node: "validate_node B ?L n nd = []" using assms(1) p(1) unfolding validate_code_Nil by blast
  have "BitSet_Get ?L' a" if a: "a \<in> set (value_args (Op nd))" for a
  proof -
    have "a < n" "BitSet_Get ?L a" using node a by (auto simp: validate_node_Nil)
    then have cap: "a < 64 * length M" using assms(2) [of n] p(1) by simp
    have "(n, nd) \<in> set (without R xs)" "a \<in> set (op_args (Op nd))" using w a args_targets [of "Op nd"] by auto
    then have "refs (without R xs) a \<noteq> 0" unfolding refs_0 by blast
    then have "a \<notin> R" using assms(3) [of a] by auto
    then show ?thesis
      using \<open>BitSet_Get ?L a\<close> live_after(2) [of pre M a B] live_after(2) [of pre' M a B] cap assms(2) p(1,2)
      by (auto simp: ids_without)
  qed
  then show "validate_node B ?L' n nd = []" using node by (simp add: validate_node_Nil)
qed

lemma block_exit_effects: "IsBlockExit ir \<Longrightarrow> HasSideEffects ir"
  by (cases ir) auto

lemma length_concat_filter: "length (concat (map f (filter P xs))) \<le> length (concat (map f xs))"
  by (induction xs) auto

lemma without_block_valid:
  assumes "validate_block (b, xs) = []" "droppable R xs"
  shows "validate_block (b, without R xs) = []"
proof -
  let ?succ = "\<lambda>(n, nd). op_successors (Op nd)"
  have xs: "xs \<noteq> []" "IsBlockExit (Op (snd (last xs)))" "length (concat (map ?succ xs)) \<le> 2"
    using assms(1) by (auto simp: validate_block_def split: if_splits)
  have "fst (last xs) \<notin> R"
    using assms(2) block_exit_effects [OF xs(2)] last_in_set [OF xs(1)] by (fastforce simp: droppable_def)
  then have "without R xs = without R (butlast xs) @ [last xs]"
    using append_butlast_last_id [OF xs(1)] by (metis (no_types, lifting) filter.simps filter_append without_def)
  moreover have "length (concat (map ?succ (without R xs))) \<le> 2"
    using length_concat_filter [of ?succ "\<lambda>x. fst x \<notin> R" xs] xs(3) unfolding without_def by linarith
  ultimately show ?thesis using xs(2) by (simp add: validate_block_def)
qed

lemma Uses_refs:
  assumes "\<And>n nd. (n, nd) \<in> set (all_code F) \<Longrightarrow> op_targets (Op nd) \<subseteq> fst ` set F" "i \<notin> fst ` set F"
  shows "Uses F i = refs (all_code F) i"
proof -
  have "count_list (value_args (Op nd)) i = count_list (op_args (Op nd)) i" if "(n, nd) \<in> set (all_code F)" for n nd
    using assms(1) [OF that] assms(2) by (cases "Op nd") auto
  then have "sum_list (map (\<lambda>(n, nd). count_list (value_args (Op nd)) i) xs) = sum_list (map (\<lambda>(n, nd). count_list (op_args (Op nd)) i) xs)"
    if "set xs \<subseteq> set (all_code F)" for xs using that by (induction xs) fastforce+
  moreover have "count_list (concat (map f xs)) i = sum_list (map (\<lambda>x. count_list (f x) i) xs)" for f :: "node_id \<times> ir_node \<Rightarrow> node_id list" and xs
    by (induction xs) simp_all
  ultimately show ?thesis by (simp add: Uses_def refs_def case_prod_unfold)
qed

text \<open>
  C18: Dead code elimination keeps code valid: when ids are unique and uses are counted right, and the validator
  accepts the list, then it also accepts, from the same live bits, the list that dead code elimination leaves.
  Every argument is still defined before its use, every block still ends in an exit, and the use counts that the
  pass updated are those of the remaining code.
\<close>

theorem DeadCodeElimination_keeps_valid:
  assumes "ir_ok G" "\<forall>n \<in> fst ` set (all_code (Blocks G)). n < NextNode G" "fst (IRValidation fill M G) = []"
  shows "fst (IRValidation fill M (snd (DeadCodeElimination G))) = []"
proof -
  let ?R = "dce_removed G" and ?F = "Blocks G" and ?H = "Blocks (dce_run G)"
  let ?L = "BitSet_Set (BitSet_Realloc fill M (NextNode G)) IRHeaderID"
  note d = dce_ok [OF assms(1)]
  have same: "NextNode (dce_run G) = NextNode G" by (simp add: DeadCodeElimination_def split: prod.splits)
  have ids: "map fst ?H = map fst ?F" by (simp add: d(1) without_blocks_def)
  have code: "all_code ?H = without ?R (all_code ?F)" by (simp add: d(1) all_code_without)
  have valid: "fst (validate_code (map fst ?F) ?L (all_code ?F)) = []" "\<And>b. b \<in> set ?F \<Longrightarrow> validate_block b = []"
    using validated(1) [OF assms(3)] by (auto simp: validate_blocks_Nil)
  have cap: "k < 64 * length ?L" if "k \<in> fst ` set (all_code ?F)" for k
  proof -
    have "k < NextNode G" using that assms(2) by blast
    then show ?thesis by simp
  qed
  have "fst (validate_code (map fst ?F) ?L (all_code ?H)) = []"
    unfolding code by (rule without_validated [OF valid(1) cap]) (use d(3) in \<open>simp_all add: code\<close>)
  moreover have "validate_block b = []" if b: "b \<in> set ?H" for b
  proof -
    obtain xs where xs: "(fst b, xs) \<in> set ?F" "snd b = without ?R xs" using b by (auto simp: d(1) without_blocks_def)
    have "droppable ?R xs" using d(2) xs(1) by (force simp: droppable_def all_code_def)
    then have "validate_block (fst b, without ?R xs) = []" by (rule without_block_valid [OF valid(2) [OF xs(1)]])
    then show ?thesis using xs(2) by (metis prod.collapse)
  qed
  ultimately have blocks: "fst (validate_blocks (map fst ?H) ?L ?H) = []" by (simp add: validate_blocks_Nil ids)
  have targets: "op_targets (Op nd) \<subseteq> fst ` set ?F" if nd: "(n, nd) \<in> set (all_code ?F)" for n nd
  proof -
    obtain b where "b \<in> set ?F" "(n, nd) \<in> set (snd b)" using nd by (auto simp: all_code_def)
    then show ?thesis using validated_blocks(2) [OF assms(3)] by blast
  qed
  have blks: "fst ` set ?H = fst ` set ?F" using ids by (metis list.set_map)
  have "NumUses (dce_run G) i = Uses ?H i" if "i \<notin> fst ` set ?H" for i
  proof -
    have "op_targets (Op nd) \<subseteq> fst ` set ?H" if "(n, nd) \<in> set (all_code ?H)" for n nd
      unfolding blks using targets [of n nd] that by (simp add: code without_def)
    from Uses_refs [OF this that] show ?thesis using d(4) by (simp add: uses_ok_def)
  qed
  then show ?thesis
    using blocks same by (auto simp: IRValidation_def Let_def filter_empty_conv split: prod.splits)
qed

section \<open>Example\<close>

text \<open>A block that returns a constant and computes another one that nothing uses.\<close>

definition half_dead :: ir_list where
  "half_dead = \<lparr>Blocks = [(5, [(2, \<lparr>Op = IR_Constant 7, Size = 8, ElementSize = 8\<rparr>), (3, \<lparr>Op = IR_Constant 9, Size = 8, ElementSize = 8\<rparr>),
       (4, \<lparr>Op = IR_ExitFunction 2, Size = 8, ElementSize = 8\<rparr>)])],
     NumUses = (\<lambda>n. if n = 2 then 1 else 0), NextNode = 6\<rparr>"

lemma half_dead_ok: "ir_ok half_dead"
  by (auto simp: ir_ok_def unique_ids_def uses_ok_def half_dead_def)

lemma half_dead_valid: "fst (IRValidation (\<lambda>_. 0) [] half_dead) = []"
  by code_simp

theorem DeadCodeElimination_keeps_valid_witness:
  "map fst (all_code (Blocks (snd (DeadCodeElimination half_dead)))) = [2, 4]
   \<and> fst (IRValidation (\<lambda>_. 0) [] (snd (DeadCodeElimination half_dead))) = []"
  using DeadCodeElimination_keeps_valid [OF half_dead_ok _ half_dead_valid]
  by (simp add: half_dead_def DeadCodeElimination_def RemoveArgUses_count)

end
