(* ===== verification/Host_Alloc64.thy ===== *)
theory Host_Alloc64
  imports FEX_Prelude
begin

text \<open>
  The 64-bit host allocator (\<^verbatim>\<open>Utils/Allocator/64BitAllocator.cpp\<close>, \<^verbatim>\<open>FlexBitSet.h\<close>): the address space above 4 GB is
  reserved in regions; a region becomes live when something is placed in it, and then keeps one bit per page in
  its own first pages. Addresses and sizes are natural numbers, with the wrap-around of \<^verbatim>\<open>uint64_t\<close> and
  \<^verbatim>\<open>uint32_t\<close> written out where the code can reach it. The host's \<^verbatim>\<open>mmap\<close> and \<^verbatim>\<open>munmap\<close> are parameters; \<open>Inl\<close> is
  an error number. The protection and advice calls have no result that the code uses. A live region is named by
  its position in the list, which only grows at its end.
\<close>

section \<open>Bits in whole words\<close>

type_synonym flex_bits = "nat \<Rightarrow> u64"

definition wrap64 :: "nat \<Rightarrow> nat" where
  "wrap64 n = n mod 2 ^ 64"

definition sub64 :: "nat \<Rightarrow> nat \<Rightarrow> nat" where
  "sub64 a b = wrap64 (a + 2 ^ 64 - b)"

definition align_up :: "nat \<Rightarrow> nat \<Rightarrow> nat" where
  "align_up v s = wrap64 (v + (s - v mod s) mod s)"

definition Flex_Get :: "flex_bits \<Rightarrow> nat \<Rightarrow> bool" where
  "Flex_Get Memory Element \<longleftrightarrow> Memory (Element div 64) AND push_bit (Element mod 64) 1 \<noteq> 0"

definition Flex_Set :: "flex_bits \<Rightarrow> nat \<Rightarrow> flex_bits" where
  "Flex_Set Memory Element = Memory(Element div 64 := Memory (Element div 64) OR push_bit (Element mod 64) 1)"

definition Flex_TestAndClear :: "flex_bits \<Rightarrow> nat \<Rightarrow> bool \<times> flex_bits" where
  "Flex_TestAndClear Memory Element =
     (Flex_Get Memory Element,
      Memory(Element div 64 := Memory (Element div 64) AND NOT (push_bit (Element mod 64) 1)))"

text \<open>\<^verbatim>\<open>Size\<close> and \<^verbatim>\<open>MemSet\<close> count bytes, a multiple of 64: whole words.\<close>

definition Flex_Size :: "nat \<Rightarrow> nat" where
  "Flex_Size Elements = align_up (Elements div 64) 64"

definition Flex_MemSet :: "flex_bits \<Rightarrow> nat \<Rightarrow> flex_bits" where
  "Flex_MemSet Memory Elements = (\<lambda>i. if i < Flex_Size Elements div 8 then NOT 0 else Memory i)"

lemma Flex_Get_bit: "Flex_Get M e = bit (M (e div 64)) (e mod 64)"
  by (simp add: Flex_Get_def and_exp_eq_0_iff_not_bit flip: push_bit_eq_mult)

lemma Flex_Get_Set: "Flex_Get (Flex_Set M e) f \<longleftrightarrow> f = e \<or> Flex_Get M f"
proof -
  have "f = e \<longleftrightarrow> f div 64 = e div 64 \<and> f mod 64 = e mod 64" by (metis div_mod_decomp)
  then show ?thesis by (auto simp: Flex_Get_bit Flex_Set_def bit_or_iff bit_exp_iff)
qed

lemma Flex_Get_Clear: "Flex_Get (snd (Flex_TestAndClear M e)) f \<longleftrightarrow> f \<noteq> e \<and> Flex_Get M f"
proof -
  have "f = e \<longleftrightarrow> f div 64 = e div 64 \<and> f mod 64 = e mod 64" by (metis div_mod_decomp)
  then show ?thesis by (auto simp: Flex_Get_bit Flex_TestAndClear_def bit_and_iff bit_not_iff bit_exp_iff)
qed

lemma Flex_Get_MemSet: "Flex_Get (Flex_MemSet M n) e \<longleftrightarrow> e div 64 < Flex_Size n div 8 \<or> Flex_Get M e"
  by (simp add: Flex_Get_bit Flex_MemSet_def)

section \<open>Regions\<close>

record ReservedVMARegion =
  SlabBase :: nat
  RegionSize :: nat

record LiveVMARegion =
  SlabInfo :: ReservedVMARegion
  FreeSpace :: nat
  LastPageAllocation :: nat
  UsedPages :: flex_bits

record OSAllocator =
  ReservedRegions :: "ReservedVMARegion list"
  LiveRegions :: "LiveVMARegion list"

definition LOWER_BOUND :: nat where
  "LOWER_BOUND = 0x100000000"

definition GetSizeWithFlexSet :: "nat \<Rightarrow> nat" where
  "GetSizeWithFlexSet sz = 4096 + Flex_Size (sz div 4096 * 8)"

definition SizeOfLiveRegion :: "nat \<Rightarrow> nat" where
  "SizeOfLiveRegion sz = align_up (GetSizeWithFlexSet sz) 4096"

definition InitializeVMARegionUsed :: "LiveVMARegion \<Rightarrow> nat \<Rightarrow> LiveVMARegion" where
  "InitializeVMARegionUsed Region AdditionalSize =
     (let SizePlusManagedData = SizeOfLiveRegion (RegionSize (SlabInfo Region)) + AdditionalSize;
          NumPages = SizePlusManagedData div 4096
      in Region\<lparr>FreeSpace := sub64 (RegionSize (SlabInfo Region)) SizePlusManagedData,
           UsedPages := Flex_MemSet (UsedPages Region) NumPages,
           LastPageAllocation := NumPages mod 2 ^ 32\<rparr>)"

text \<open>The pages of a reserved region have never been touched: its bits are zero.\<close>

definition MakeRegionActive :: "OSAllocator \<Rightarrow> nat \<Rightarrow> nat \<Rightarrow> OSAllocator" where
  "MakeRegionActive A i UsedSize =
     (let ReservedRegion = ReservedRegions A ! i;
          LiveRange = \<lparr>SlabInfo = ReservedRegion, FreeSpace = 0, LastPageAllocation = 0, UsedPages = (\<lambda>_. 0)\<rparr>
      in A\<lparr>ReservedRegions := take i (ReservedRegions A) @ drop (Suc i) (ReservedRegions A),
           LiveRegions := LiveRegions A @ [InitializeVMARegionUsed LiveRange UsedSize]\<rparr>)"

section \<open>Looking for free pages\<close>

text \<open>The inner loops count \<^verbatim>\<open>Remaining\<close> down until they meet a used page.\<close>

function remaining_back :: "flex_bits \<Rightarrow> nat \<Rightarrow> nat \<Rightarrow> nat" where
  "remaining_back Used CurrentPage Remaining =
     (if Remaining = 0 then 0
      else if Flex_Get Used (CurrentPage - Remaining) then Remaining
      else remaining_back Used CurrentPage (Remaining - 1))"
  by pat_completeness auto
termination by (relation "measure (\<lambda>(_, _, r). r)") auto

function remaining_forward :: "flex_bits \<Rightarrow> nat \<Rightarrow> nat \<Rightarrow> nat" where
  "remaining_forward Used CurrentPage Remaining =
     (if Remaining = 0 then 0
      else if Flex_Get Used (CurrentPage + Remaining - 1) then Remaining
      else remaining_forward Used CurrentPage (Remaining - 1))"
  by pat_completeness auto
termination by (relation "measure (\<lambda>(_, _, r). r)") auto

function keep_back :: "flex_bits \<Rightarrow> nat \<Rightarrow> nat" where
  "keep_back Used CurrentPage =
     (if CurrentPage \<ge> 1 then
        if Flex_Get Used (CurrentPage - 1) then CurrentPage else keep_back Used (CurrentPage - 1)
      else CurrentPage)"
  by pat_completeness auto
termination by (relation "measure snd") auto

lemmas scan_simps = remaining_back.simps remaining_forward.simps keep_back.simps
declare scan_simps [simp del]

lemma remaining_back_le: "remaining_back M p r \<le> r"
proof (induction M p r rule: remaining_back.induct)
  case (1 M p r)
  then show ?case by (subst remaining_back.simps) auto
qed

lemma remaining_forward_le: "remaining_forward M p r \<le> r"
proof (induction M p r rule: remaining_forward.induct)
  case (1 M p r)
  then show ?case by (subst remaining_forward.simps) auto
qed

function scan_backward :: "flex_bits \<Rightarrow> nat \<Rightarrow> nat \<Rightarrow> nat" where
  "scan_backward Used NumberOfPages CurrentPage =
     (if CurrentPage \<ge> NumberOfPages then
        let Remaining = remaining_back Used CurrentPage NumberOfPages
        in if Remaining \<noteq> 0 then scan_backward Used NumberOfPages (CurrentPage - Remaining)
           else keep_back Used (CurrentPage - NumberOfPages)
      else 0)"
  by pat_completeness auto
termination
proof (relation "measure (\<lambda>(_, _, p). p)", goal_cases)
  case (2 Used N p r)
  then show ?case using remaining_back_le [of Used p N] by auto
qed simp

function scan_forward :: "flex_bits \<Rightarrow> nat \<Rightarrow> nat \<Rightarrow> nat \<Rightarrow> nat" where
  "scan_forward Used NumberOfPages Limit CurrentPage =
     (if CurrentPage < Limit then
        let Remaining = remaining_forward Used CurrentPage NumberOfPages
        in if Remaining \<noteq> 0 then scan_forward Used NumberOfPages Limit (CurrentPage + Remaining)
           else CurrentPage
      else 0)"
  by pat_completeness auto
termination by (relation "measure (\<lambda>(_, _, l, p). l - p)") auto

declare scan_backward.simps [simp del] scan_forward.simps [simp del]

section \<open>Mapping\<close>

record map_request =
  Prot :: u32
  MFlags :: u32
  Fd :: int
  FileOffset :: nat

type_synonym host_mmap = "nat \<Rightarrow> nat \<Rightarrow> map_request \<Rightarrow> nat + nat"

definition MAP_FIXED :: u32 where "MAP_FIXED = 0x10"
definition MAP_FIXED_NOREPLACE :: u32 where "MAP_FIXED_NOREPLACE = 0x100000"

definition EPERM :: nat where "EPERM = 1"
definition ENOMEM :: nat where "ENOMEM = 12"
definition EEXIST :: nat where "EEXIST = 17"
definition EINVAL :: nat where "EINVAL = 22"
definition EOVERFLOW :: nat where "EOVERFLOW = 75"

definition is_fixed :: "map_request \<Rightarrow> bool" where
  "is_fixed r \<longleftrightarrow> MFlags r AND MAP_FIXED \<noteq> 0 \<or> MFlags r AND MAP_FIXED_NOREPLACE \<noteq> 0"

definition host_request :: "map_request \<Rightarrow> map_request" where
  "host_request r = r\<lparr>MFlags := (MFlags r AND NOT MAP_FIXED_NOREPLACE) OR MAP_FIXED\<rparr>"

definition LastAllocation :: "LiveVMARegion \<Rightarrow> nat \<Rightarrow> nat" where
  "LastAllocation Region StartingPosition =
     (if StartingPosition \<noteq> 0 then (StartingPosition - SlabBase (SlabInfo Region)) div 4096 else LastPageAllocation Region)"

definition AllocatedPage :: "LiveVMARegion \<Rightarrow> nat \<Rightarrow> nat \<Rightarrow> nat" where
  "AllocatedPage Region NumberOfPages Last =
     (let RegionNumberOfPages = RegionSize (SlabInfo Region) div 4096;
          Page = scan_backward (UsedPages Region) NumberOfPages Last
      in if Page = 0 then scan_forward (UsedPages Region) NumberOfPages (sub64 RegionNumberOfPages NumberOfPages) Last
         else Page)"

text \<open>
  The lambda \<^verbatim>\<open>CheckIfRangeFits\<close>: no pair of null pointers is \<open>None\<close>; otherwise the region comes with the result of
  the host's \<^verbatim>\<open>mmap\<close>. \<^verbatim>\<open>AllocatedOffset\<close>, which it captures, is threaded through.
\<close>

definition CheckIfRangeFits ::
  "host_mmap \<Rightarrow> LiveVMARegion \<Rightarrow> nat \<Rightarrow> map_request \<Rightarrow> nat \<Rightarrow> nat \<Rightarrow> (nat + nat) option \<times> nat" where
  "CheckIfRangeFits mm Region len r StartingPosition AllocatedOffset =
     (if FreeSpace Region \<ge> len then
        let Page = AllocatedPage Region (len div 4096) (LastAllocation Region StartingPosition)
        in if Page \<noteq> 0 then
             let AllocatedOffset = SlabBase (SlabInfo Region) + Page * 4096
             in (Some (mm AllocatedOffset len (host_request r)), AllocatedOffset)
           else (None, AllocatedOffset)
      else (None, AllocatedOffset))"

fun find_index :: "('a \<Rightarrow> bool) \<Rightarrow> 'a list \<Rightarrow> nat option" where
  "find_index P [] = None"
| "find_index P (x # xs) = (if P x then Some 0 else map_option Suc (find_index P xs))"

definition find_live :: "OSAllocator \<Rightarrow> nat \<Rightarrow> nat option" where
  "find_live A Addr = find_index (\<lambda>R. SlabBase (SlabInfo R) \<le> Addr \<and> Addr < SlabBase (SlabInfo R) + RegionSize (SlabInfo R)) (LiveRegions A)"

text \<open>The live region of the requested address; a reserved one is made active for it.\<close>

definition find_region :: "OSAllocator \<Rightarrow> nat \<Rightarrow> nat \<Rightarrow> nat option \<times> OSAllocator" where
  "find_region A Addr AddrEnd =
     (case find_live A Addr of
        Some i \<Rightarrow> (Some i, A)
      | None \<Rightarrow>
          (case find_index (\<lambda>S. SlabBase S \<le> Addr \<and> AddrEnd < SlabBase S + RegionSize S) (ReservedRegions A) of
             Some j \<Rightarrow> (Some (length (LiveRegions A)), MakeRegionActive A j 0)
           | None \<Rightarrow> (None, A)))"

text \<open>
  The walk over the live regions. A region whose \<^verbatim>\<open>mmap\<close> failed comes with a non-null pointer, so that the early
  return for errors is never taken; \<^verbatim>\<open>AllocatedOffset\<close> keeps the address of the failed attempt.
\<close>

fun search_live :: "host_mmap \<Rightarrow> LiveVMARegion list \<Rightarrow> nat \<Rightarrow> map_request \<Rightarrow> nat \<Rightarrow> nat option \<times> nat" where
  "search_live mm [] len r AllocatedOffset = (None, AllocatedOffset)"
| "search_live mm (R # Rs) len r AllocatedOffset =
     (case CheckIfRangeFits mm R len r 0 AllocatedOffset of
        (Fits, AllocatedOffset) \<Rightarrow>
          (if Fits = Some (Inr AllocatedOffset) then (Some 0, AllocatedOffset)
           else (case search_live mm Rs len r AllocatedOffset of
                   (i, AllocatedOffset) \<Rightarrow> (map_option Suc i, AllocatedOffset))))"

lemma find_index_SomeD: "find_index P xs = Some i \<Longrightarrow> i < length xs \<and> P (xs ! i)"
  by (induction xs arbitrary: i) (auto split: if_splits)

text \<open>The code from \<^verbatim>\<open>again\<close> on, without a region yet: every round makes one more region active.\<close>

function search_regions :: "host_mmap \<Rightarrow> OSAllocator \<Rightarrow> nat \<Rightarrow> map_request \<Rightarrow> nat \<Rightarrow> nat option \<times> nat \<times> OSAllocator" where
  "search_regions mm A len r AllocatedOffset =
     (case search_live mm (LiveRegions A) len r AllocatedOffset of
        (Some i, AllocatedOffset) \<Rightarrow> (Some i, AllocatedOffset, A)
      | (None, AllocatedOffset) \<Rightarrow>
          (case find_index (\<lambda>S. RegionSize S \<ge> len + SizeOfLiveRegion len) (ReservedRegions A) of
             None \<Rightarrow> (None, AllocatedOffset, A)
           | Some j \<Rightarrow> search_regions mm (MakeRegionActive A j 0) len r AllocatedOffset))"
  by pat_completeness auto
termination
proof (relation "measure (\<lambda>(_, A, _). length (ReservedRegions A))", goal_cases)
  case (2 mm A len r a p p' i)
  then show ?case using find_index_SomeD [of _ "ReservedRegions A"] by (fastforce simp: MakeRegionActive_def Let_def)
qed simp

declare search_regions.simps [simp del]

fun set_pages :: "flex_bits \<Rightarrow> nat \<Rightarrow> nat \<Rightarrow> flex_bits" where
  "set_pages Used MappedBegin 0 = Used"
| "set_pages Used MappedBegin (Suc n) = Flex_Set (set_pages Used MappedBegin n) (MappedBegin + n)"

definition mark_used :: "LiveVMARegion \<Rightarrow> nat \<Rightarrow> nat \<Rightarrow> LiveVMARegion" where
  "mark_used R AllocatedOffset len =
     (let MappedBegin = (AllocatedOffset - SlabBase (SlabInfo R)) div 4096; NumberOfPages = len div 4096
      in R\<lparr>UsedPages := set_pages (UsedPages R) MappedBegin NumberOfPages,
           LastPageAllocation := (MappedBegin + NumberOfPages) mod 2 ^ 32,
           FreeSpace := sub64 (FreeSpace R) len\<rparr>)"

definition mark_region :: "OSAllocator \<Rightarrow> nat option \<Rightarrow> nat \<Rightarrow> nat \<Rightarrow> OSAllocator" where
  "mark_region A LiveRegion AllocatedOffset len =
     (case LiveRegion of
        None \<Rightarrow> A
      | Some i \<Rightarrow> A\<lparr>LiveRegions := (LiveRegions A)[i := mark_used (LiveRegions A ! i) AllocatedOffset len]\<rparr>)"

definition finish_map :: "OSAllocator \<Rightarrow> nat option \<Rightarrow> nat \<Rightarrow> nat \<Rightarrow> (nat + nat) \<times> OSAllocator" where
  "finish_map A LiveRegion AllocatedOffset len =
     (if AllocatedOffset = 0 then Inl ENOMEM else Inr AllocatedOffset, mark_region A LiveRegion AllocatedOffset len)"

definition map_fixed :: "host_mmap \<Rightarrow> OSAllocator \<Rightarrow> nat option \<Rightarrow> nat \<Rightarrow> nat \<Rightarrow> map_request \<Rightarrow> (nat + nat) \<times> OSAllocator" where
  "map_fixed mm A LiveRegion Addr len r =
     (case LiveRegion of
        None \<Rightarrow> finish_map A None 0 len
      | Some i \<Rightarrow>
          if MFlags r AND MAP_FIXED_NOREPLACE \<noteq> 0 then
            (if fst (CheckIfRangeFits mm (LiveRegions A ! i) len r Addr 0) = Some (Inr Addr)
             then finish_map A (Some i) Addr len else (Inl EEXIST, A))
          else
            (case mm Addr len (host_request r) of
               Inl e \<Rightarrow> (Inl e, A)
             | Inr p \<Rightarrow> finish_map A (Some i) Addr len))"

definition map_anywhere :: "host_mmap \<Rightarrow> OSAllocator \<Rightarrow> nat option \<Rightarrow> nat \<Rightarrow> nat \<Rightarrow> map_request \<Rightarrow> (nat + nat) \<times> OSAllocator" where
  "map_anywhere mm A LiveRegion Addr len r =
     (let (Hint, AllocatedOffset) =
        (case LiveRegion of
           Some i \<Rightarrow> (if Addr \<noteq> 0 then CheckIfRangeFits mm (LiveRegions A ! i) len r Addr 0 else (None, 0))
         | None \<Rightarrow> (None, 0))
      in if Hint = Some (Inr Addr) then finish_map A LiveRegion Addr len
         else (case search_regions mm A len r AllocatedOffset of
                 (LiveRegion, AllocatedOffset, A) \<Rightarrow> finish_map A LiveRegion AllocatedOffset len))"

text \<open>A failed host call below the bound is handed on as the pointer -1, which the caller reads as \<^verbatim>\<open>EPERM\<close>.\<close>

definition Mmap :: "host_mmap \<Rightarrow> OSAllocator \<Rightarrow> nat \<Rightarrow> nat \<Rightarrow> map_request \<Rightarrow> (nat + nat) \<times> OSAllocator" where
  "Mmap mm A Addr length0 r =
     (if Addr \<noteq> 0 \<and> Addr < LOWER_BOUND then
        ((case mm Addr length0 r of Inl e \<Rightarrow> Inl EPERM | Inr p \<Rightarrow> Inr p), A)
      else if Addr mod 4096 \<noteq> 0 then (Inl EINVAL, A)
      else if Fd r \<noteq> -1 \<and> FileOffset r mod 4096 \<noteq> 0 then (Inl EINVAL, A)
      else if wrap64 (Addr + length0) < Addr then (Inl EOVERFLOW, A)
      else
        let len = align_up length0 4096;
            (LiveRegion, A) = (if is_fixed r \<or> Addr \<noteq> 0 then find_region A Addr (wrap64 (Addr + len)) else (None, A))
        in if is_fixed r then map_fixed mm A LiveRegion Addr len r
           else map_anywhere mm A LiveRegion Addr len r)"

section \<open>Unmapping\<close>

fun clear_pages :: "flex_bits \<Rightarrow> nat \<Rightarrow> nat \<Rightarrow> nat \<times> flex_bits" where
  "clear_pages Used SlabPageBegin 0 = (0, Used)"
| "clear_pages Used SlabPageBegin (Suc n) =
     (let (FreedPages, Used) = clear_pages Used SlabPageBegin n;
          (Value, Used) = Flex_TestAndClear Used (SlabPageBegin + n)
      in (FreedPages + (if Value then 1 else 0), Used))"

definition unmap_region :: "LiveVMARegion \<Rightarrow> nat \<Rightarrow> nat \<Rightarrow> LiveVMARegion" where
  "unmap_region R PtrBegin len =
     (let SlabPageBegin = (PtrBegin - SlabBase (SlabInfo R)) div 4096 mod 2 ^ 32;
          (FreedPages, Used) = clear_pages (UsedPages R) SlabPageBegin (len div 4096)
      in R\<lparr>UsedPages := Used, FreeSpace := wrap64 (FreeSpace R + FreedPages * 4096),
           LastPageAllocation := min (LastPageAllocation R) SlabPageBegin\<rparr>)"

definition Munmap :: "(nat \<Rightarrow> nat \<Rightarrow> int) \<Rightarrow> OSAllocator \<Rightarrow> nat \<Rightarrow> nat \<Rightarrow> int \<times> OSAllocator" where
  "Munmap mu A Addr len =
     (if Addr < LOWER_BOUND then (mu Addr len, A)
      else if Addr mod 4096 \<noteq> 0 then (- int EINVAL, A)
      else if len mod 4096 \<noteq> 0 then (- int EINVAL, A)
      else if wrap64 (Addr + len) < Addr then (- int EOVERFLOW, A)
      else
        (case find_index (\<lambda>R. SlabBase (SlabInfo R) \<le> Addr \<and> SlabBase (SlabInfo R) + RegionSize (SlabInfo R) > wrap64 (Addr + len))
           (LiveRegions A) of
           None \<Rightarrow> (0, A)
         | Some i \<Rightarrow> (0, A\<lparr>LiveRegions := (LiveRegions A)[i := unmap_region (LiveRegions A ! i) Addr len]\<rparr>)))"

section \<open>Construction\<close>

text \<open>
  The constructor takes the claimed ranges. Up to 64 MB of the first range hold the allocator's own lists.
\<close>

fun reserve_ranges :: "bool \<Rightarrow> (nat \<times> nat) list \<Rightarrow> ReservedVMARegion list" where
  "reserve_ranges ObjectAlloc [] = []"
| "reserve_ranges ObjectAlloc ((Ptr, AllocationSize) # Ranges) =
     (if ObjectAlloc then \<lparr>SlabBase = Ptr, RegionSize = AllocationSize\<rparr> # reserve_ranges True Ranges
      else
        let MaxSize = min (64 * 1024 * 1024) AllocationSize
        in if AllocationSize > MaxSize
           then \<lparr>SlabBase = Ptr + MaxSize, RegionSize = AllocationSize - MaxSize\<rparr> # reserve_ranges True Ranges
           else reserve_ranges True Ranges)"

definition OSAllocator_64Bit :: "(nat \<times> nat) list \<Rightarrow> OSAllocator" where
  "OSAllocator_64Bit Ranges = \<lparr>ReservedRegions = reserve_ranges False Ranges, LiveRegions = []\<rparr>"

end
