(* ===== verification/Host_Regions.thy ===== *)
theory Host_Regions
  imports FEX_Prelude
begin

text \<open>
  Claiming the free address space of the host (\<^verbatim>\<open>Utils/Allocator.cpp\<close>, \<^verbatim>\<open>StealMemoryRegion\<close>): a state machine reads
  \<^verbatim>\<open>/proc/self/maps\<close> character by character and maps every gap between the listed mappings. The text is the
  sequence of characters that the reads deliver; where one read ends and the next begins makes no difference,
  since all state is kept outside the buffer. The host's \<^verbatim>\<open>mmap\<close> is a parameter. A failed check ends the
  program: the result is then \<open>None\<close>.
\<close>

section \<open>The state machine\<close>

datatype steal_state = ParseBegin | ParseEnd | ScanEnd

type_synonym host_reserve = "u64 \<Rightarrow> u64 \<Rightarrow> u64 option"
type_synonym memory_regions = "(u64 \<times> u64) list"

definition char_code :: "char \<Rightarrow> nat" where
  "char_code c = of_char c"

definition hex_value :: "char \<Rightarrow> u64" where
  "hex_value c =
     (if char_code c \<le> char_code (CHR ''9'') then of_nat (char_code c) - of_nat (char_code (CHR ''0''))
      else of_nat (char_code c) - of_nat (char_code (CHR ''a'')) + 10)"

definition isdigit :: "char \<Rightarrow> bool" where
  "isdigit c \<longleftrightarrow> char_code (CHR ''0'') \<le> char_code c \<and> char_code c \<le> char_code (CHR ''9'')"

definition isalpha :: "char \<Rightarrow> bool" where
  "isalpha c \<longleftrightarrow> (char_code (CHR ''a'') \<le> char_code c \<and> char_code c \<le> char_code (CHR ''z''))
     \<or> (char_code (CHR ''A'') \<le> char_code c \<and> char_code c \<le> char_code (CHR ''Z''))"

definition add_digit :: "u64 \<Rightarrow> char \<Rightarrow> u64" where
  "add_digit r c = push_bit 4 r OR hex_value c"

text \<open>Mapping one gap, if it is not empty.\<close>

definition reserve :: "host_reserve \<Rightarrow> u64 \<Rightarrow> u64 \<Rightarrow> memory_regions \<Rightarrow> memory_regions option" where
  "reserve mm MapBegin MapEnd Regions =
     (if MapEnd > MapBegin then
        let MapSize = MapEnd - MapBegin
        in if mm MapBegin MapSize = Some MapBegin then Some (Regions @ [(MapBegin, MapSize)]) else None
      else Some Regions)"

fun steal_loop ::
  "host_reserve \<Rightarrow> u64 \<Rightarrow> u64 \<Rightarrow> steal_state \<Rightarrow> u64 \<Rightarrow> u64 \<Rightarrow> memory_regions \<Rightarrow> string \<Rightarrow> memory_regions option" where
  "steal_loop mm Begin End St RegionBegin RegionEnd Regions [] =
     (if St = ParseBegin then reserve mm (max RegionEnd Begin) End Regions else None)"
| "steal_loop mm Begin End ScanEnd RegionBegin RegionEnd Regions (c # cs) =
     steal_loop mm Begin End (if c = CHR 0x0A then ParseBegin else ScanEnd) RegionBegin RegionEnd Regions cs"
| "steal_loop mm Begin End ParseBegin RegionBegin RegionEnd Regions (c # cs) =
     (if c = CHR ''-'' then
        (case reserve mm (max RegionEnd Begin) (min RegionBegin End) Regions of
           None \<Rightarrow> None
         | Some Regions \<Rightarrow> steal_loop mm Begin End ParseEnd 0 0 Regions cs)
      else if isalpha c \<or> isdigit c then steal_loop mm Begin End ParseBegin (add_digit RegionBegin c) RegionEnd Regions cs
      else None)"
| "steal_loop mm Begin End ParseEnd RegionBegin RegionEnd Regions (c # cs) =
     (if c = CHR '' '' then steal_loop mm Begin End ScanEnd RegionBegin RegionEnd Regions cs
      else if isalpha c \<or> isdigit c then steal_loop mm Begin End ParseEnd RegionBegin (add_digit RegionEnd c) Regions cs
      else None)"

definition StealMemoryRegion :: "host_reserve \<Rightarrow> u64 \<Rightarrow> u64 \<Rightarrow> string \<Rightarrow> memory_regions option" where
  "StealMemoryRegion mm Begin End maps = steal_loop mm Begin End ParseBegin 0 0 [] maps"

section \<open>Numbers in the table\<close>

text \<open>How the kernel prints an address: at least eight lower-case hexadecimal digits.\<close>

definition hex_digit :: "nat \<Rightarrow> char" where
  "hex_digit d = (if d < 10 then char_of (48 + d) else char_of (87 + d))"

fun to_hex :: "nat \<Rightarrow> string" where
  "to_hex n = (if n < 16 then [hex_digit n] else to_hex (n div 16) @ [hex_digit (n mod 16)])"

declare to_hex.simps [simp del]

definition hex8 :: "u64 \<Rightarrow> string" where
  "hex8 a = (let ds = to_hex (unat a) in replicate (8 - length ds) (CHR ''0'') @ ds)"

lemma hex_digit_value:
  assumes "d < 16"
  shows "hex_value (hex_digit d) = of_nat d" "isalpha (hex_digit d) \<or> isdigit (hex_digit d)"
    "hex_digit d \<noteq> CHR ''-''" "hex_digit d \<noteq> CHR '' ''"
proof -
  have "char_code (hex_digit d) = (if d < 10 then 48 + d else 87 + d)"
    using assms by (simp add: char_code_def hex_digit_def)
  then show "hex_value (hex_digit d) = of_nat d" "isalpha (hex_digit d) \<or> isdigit (hex_digit d)"
    "hex_digit d \<noteq> CHR ''-''" "hex_digit d \<noteq> CHR '' ''"
    using assms by (auto simp: hex_value_def isalpha_def isdigit_def char_code_def split: if_splits)
qed

lemma add_digit_value:
  assumes "d < 16"
  shows "add_digit r (hex_digit d) = 16 * r + of_nat d"
proof -
  have "\<not> bit (of_nat d :: u64) i" if "4 \<le> i" for i
  proof -
    have "d < 2 ^ i" using assms power_increasing [OF that, of "2 :: nat"] by simp
    then have "\<not> bit d i" by (simp add: bit_iff_odd)
    then show ?thesis by (simp add: bit_of_nat_iff)
  qed
  then have "push_bit 4 r AND of_nat d = 0" by (intro bit_word_eqI) (auto simp: bit_simps)
  then have "push_bit 4 r OR of_nat d = push_bit 4 r + of_nat d" by (simp add: disjunctive_add_eq_or)
  then show ?thesis by (simp add: add_digit_def hex_digit_value(1) [OF assms] push_bit_eq_mult)
qed

lemma parse_to_hex: "foldl add_digit 0 (to_hex n) = of_nat n"
proof (induction n rule: to_hex.induct)
  case (1 n)
  show ?case
  proof (cases "n < 16")
    case True
    then show ?thesis by (subst to_hex.simps) (simp add: add_digit_value)
  next
    case False
    have "of_nat n = (16 * of_nat (n div 16) + of_nat (n mod 16) :: u64)"
      by (metis (no_types, lifting) mult_div_mod_eq of_nat_add of_nat_mult of_nat_numeral)
    then show ?thesis using 1 False by (subst to_hex.simps) (simp add: add_digit_value)
  qed
qed

definition hex_char :: "char \<Rightarrow> bool" where
  "hex_char c \<longleftrightarrow> (\<exists>d < 16. c = hex_digit d)"

lemma to_hex_chars: "c \<in> set (to_hex n) \<Longrightarrow> hex_char c"
proof (induction n rule: to_hex.induct)
  case (1 n)
  then show ?case by (subst (asm) to_hex.simps) (force simp: hex_char_def split: if_splits)
qed

lemma zero_digit: "hex_digit 0 = CHR ''0''"
  by code_simp

lemma hex8_parse: "foldl add_digit 0 (hex8 a) = a" "\<forall>c \<in> set (hex8 a). hex_char c"
proof -
  have "foldl add_digit 0 (replicate k (CHR ''0'')) = 0" for k
    using add_digit_value [of 0 0] by (induction k) (simp_all add: zero_digit)
  then show "foldl add_digit 0 (hex8 a) = a" by (simp add: hex8_def Let_def parse_to_hex)
  have "hex_char (CHR ''0'')" unfolding hex_char_def by (intro exI [of _ 0]) (simp add: zero_digit)
  then show "\<forall>c \<in> set (hex8 a). hex_char c" by (auto simp: hex8_def Let_def to_hex_chars)
qed

lemma hex_charD: "hex_char c \<Longrightarrow> isalpha c \<or> isdigit c" "hex_char c \<Longrightarrow> c \<noteq> CHR ''-''" "hex_char c \<Longrightarrow> c \<noteq> CHR '' ''"
  using hex_digit_value by (auto simp: hex_char_def)

section \<open>The gaps between mappings\<close>

text \<open>A line of the table: begin, end, and the text behind them, which has no line break.\<close>

type_synonym mapping_line = "u64 \<times> u64 \<times> string"

definition print_line :: "mapping_line \<Rightarrow> string" where
  "print_line l = (case l of (b, e, rest) \<Rightarrow> hex8 b @ ''-'' @ hex8 e @ '' '' @ rest @ [CHR 0x0A])"

definition line_ok :: "mapping_line \<Rightarrow> bool" where
  "line_ok l \<longleftrightarrow> CHR 0x0A \<notin> set (snd (snd l))"

definition region_span :: "u64 \<Rightarrow> u64 \<Rightarrow> memory_regions" where
  "region_span lo hi = (if hi > lo then [(lo, hi - lo)] else [])"

fun gaps :: "u64 \<Rightarrow> u64 \<Rightarrow> u64 \<Rightarrow> mapping_line list \<Rightarrow> memory_regions" where
  "gaps Begin End prev [] = region_span (max prev Begin) End"
| "gaps Begin End prev ((b, e, rest) # ls) =
     region_span (max prev Begin) (min b End) @ gaps Begin End e ls"

lemma parse_begin:
  "\<forall>c \<in> set ds. hex_char c \<Longrightarrow> steal_loop mm Begin End ParseBegin rb re R (ds @ cs) = steal_loop mm Begin End ParseBegin (foldl add_digit rb ds) re R cs"
  by (induction ds arbitrary: rb) (auto dest: hex_charD)

lemma parse_end:
  "\<forall>c \<in> set ds. hex_char c \<Longrightarrow> steal_loop mm Begin End ParseEnd rb re R (ds @ cs) = steal_loop mm Begin End ParseEnd rb (foldl add_digit re ds) R cs"
  by (induction ds arbitrary: re) (auto dest: hex_charD)

lemma scan_end:
  "CHR 0x0A \<notin> set rest \<Longrightarrow> steal_loop mm Begin End ScanEnd rb re R (rest @ CHR 0x0A # cs) = steal_loop mm Begin End ParseBegin rb re R cs"
  by (induction rest) auto

lemma reserve_ok:
  "\<forall>a n. mm a n = Some a \<Longrightarrow> reserve mm lo hi R = Some (R @ region_span lo hi)"
  by (simp add: reserve_def region_span_def)

lemma steal_lines:
  assumes "\<forall>a n. mm a n = Some a" "\<forall>l \<in> set ls. line_ok l"
  shows "steal_loop mm Begin End ParseBegin 0 prev R (concat (map print_line ls)) = Some (R @ gaps Begin End prev ls)"
  using assms(2)
proof (induction ls arbitrary: prev R)
  case Nil
  then show ?case by (simp add: reserve_ok [OF assms(1)])
next
  case (Cons l ls)
  obtain b e rest where l: "l = (b, e, rest)" using prod_cases3 by blast
  then have nl: "CHR 0x0A \<notin> set rest" using Cons.prems by (simp add: line_ok_def)
  show ?case
    using Cons by (simp add: l print_line_def parse_begin parse_end scan_end [OF nl] hex8_parse reserve_ok [OF assms(1)])
qed

text \<open>A table in the order the kernel prints it: mappings do not overlap and come by ascending address.\<close>

fun table_ok :: "u64 \<Rightarrow> mapping_line list \<Rightarrow> bool" where
  "table_ok prev [] = True"
| "table_ok prev ((b, e, rest) # ls) \<longleftrightarrow> prev \<le> b \<and> b \<le> e \<and> line_ok (b, e, rest) \<and> table_ok e ls"

definition in_regions :: "memory_regions \<Rightarrow> u64 \<Rightarrow> bool" where
  "in_regions R a \<longleftrightarrow> (\<exists>(p, n) \<in> set R. p \<le> a \<and> a - p < n)"

definition is_mapped :: "mapping_line list \<Rightarrow> u64 \<Rightarrow> bool" where
  "is_mapped ls a \<longleftrightarrow> (\<exists>(b, e, rest) \<in> set ls. b \<le> a \<and> a < e)"

lemma in_regions_simps [simp]:
  "in_regions [] a = False" "in_regions ((p, n) # R) a \<longleftrightarrow> p \<le> a \<and> a - p < n \<or> in_regions R a"
  "in_regions (R @ S) a \<longleftrightarrow> in_regions R a \<or> in_regions S a"
  by (auto simp: in_regions_def)

lemma is_mapped_simps [simp]: "is_mapped [] a = False" "is_mapped ((b, e, rest) # ls) a \<longleftrightarrow> b \<le> a \<and> a < e \<or> is_mapped ls a"
  by (auto simp: is_mapped_def)

lemma in_regions_span [simp]: "in_regions (region_span lo hi) a \<longleftrightarrow> lo \<le> a \<and> a < hi"
proof -
  have "lo < hi \<Longrightarrow> lo \<le> a \<and> a - lo < hi - lo \<longleftrightarrow> lo \<le> a \<and> a < hi"
    by (auto simp: word_less_nat_alt word_le_nat_alt unat_sub)
  then show ?thesis by (auto simp: region_span_def)
qed

lemma table_okD: "table_ok prev ls \<Longrightarrow> (\<forall>l \<in> set ls. line_ok l) \<and> (\<forall>a. is_mapped ls a \<longrightarrow> prev \<le> a)"
  by (induction prev ls rule: table_ok.induct) (auto intro: order_trans)

lemma gaps_cover:
  "table_ok prev ls \<Longrightarrow> in_regions (gaps Begin End prev ls) a \<longleftrightarrow> Begin \<le> a \<and> a < End \<and> prev \<le> a \<and> \<not> is_mapped ls a"
proof (induction Begin End prev ls rule: gaps.induct)
  case (1 Begin End prev)
  then show ?case by auto
next
  case (2 Begin End prev b e rest ls)
  have *: "prev \<le> b" "b \<le> e" "table_ok e ls" using "2.prems" by simp_all
  have "a < e \<Longrightarrow> \<not> is_mapped ls a" using table_okD [OF *(3)] by auto
  then show ?case using "2.IH" [OF *(3)] * less_le_trans [of a b e] by auto
qed

text \<open>
  C14: Stealing the free address space parses the table of mappings that the kernel prints and claims exactly the
  gaps: if every mapping call succeeds, an address lies in a claimed region if and only if it is within the
  bounds and not covered by a mapping of the table.
\<close>

theorem StealMemoryRegion_claims_gaps:
  assumes "table_ok 0 ls" "\<forall>p n. mm p n = Some p"
  shows "\<exists>Regions. StealMemoryRegion mm Begin End (concat (map print_line ls)) = Some Regions
    \<and> (\<forall>a. in_regions Regions a \<longleftrightarrow> Begin \<le> a \<and> a < End \<and> \<not> is_mapped ls a)"
  using steal_lines [OF assms(2), of ls Begin End 0 "[]"] table_okD [OF assms(1)] gaps_cover [OF assms(1)]
  by (auto simp: StealMemoryRegion_def)

text \<open>Two mappings, the second reaching beyond the bounds: one gap before the first, one between them.\<close>

definition sample_maps :: "mapping_line list" where
  "sample_maps = [(0x2000, 0x5000, ''r-xp''), (0x7000, 0x12345000, ''rw-p'')]"

theorem StealMemoryRegion_claims_gaps_witness:
  "(\<exists>Regions. StealMemoryRegion (\<lambda>p n. Some p) 0x1000 0x9000 (concat (map print_line sample_maps)) = Some Regions
    \<and> (\<forall>a. in_regions Regions a \<longleftrightarrow> 0x1000 \<le> a \<and> a < 0x9000 \<and> \<not> is_mapped sample_maps a))
   \<and> StealMemoryRegion (\<lambda>p n. Some p) 0x1000 0x9000 (concat (map print_line sample_maps)) = Some [(0x1000, 0x1000), (0x5000, 0x2000)]"
proof -
  have "table_ok 0 sample_maps" by (simp add: sample_maps_def line_ok_def)
  then have "\<exists>Regions. StealMemoryRegion (\<lambda>p n. Some p) 0x1000 0x9000 (concat (map print_line sample_maps)) = Some Regions
    \<and> (\<forall>a. in_regions Regions a \<longleftrightarrow> 0x1000 \<le> a \<and> a < 0x9000 \<and> \<not> is_mapped sample_maps a)"
    by (rule StealMemoryRegion_claims_gaps) simp
  moreover have "gaps 0x1000 0x9000 0 sample_maps = [(0x1000, 0x1000), (0x5000, 0x2000)]"
    by (simp add: sample_maps_def region_span_def max_def min_def)
  then have "StealMemoryRegion (\<lambda>p n. Some p) 0x1000 0x9000 (concat (map print_line sample_maps)) = Some [(0x1000, 0x1000), (0x5000, 0x2000)]"
    using steal_lines [of "\<lambda>p n. Some p" sample_maps "0x1000" "0x9000" 0 "[]"]
    by (simp add: StealMemoryRegion_def sample_maps_def line_ok_def)
  ultimately show ?thesis by blast
qed

end
