(* ===== verification/Host_Alloc_Props.thy ===== *)
theory Host_Alloc_Props
  imports Host_Alloc64 Host_Regions "HOL-Library.Multiset"
begin

text \<open>
  Correctness of the host allocator: the scans return free pages, a placed mapping is fresh, regions never
  overlap, and the count of free bytes stays right for clients that unmap only what they own.
\<close>

section \<open>The scans\<close>

lemma remaining_back_0: "remaining_back M p r = 0 \<Longrightarrow> k \<in> {1..r} \<Longrightarrow> \<not> Flex_Get M (p - k)"
proof (induction M p r rule: remaining_back.induct)
  case (1 M p r)
  then show ?case by (subst (asm) (2) remaining_back.simps) (cases "k = r", auto split: if_splits)
qed

lemma remaining_forward_0: "remaining_forward M p r = 0 \<Longrightarrow> k < r \<Longrightarrow> \<not> Flex_Get M (p + k)"
proof (induction M p r rule: remaining_forward.induct)
  case (1 M p r)
  show ?case
  proof (cases "k = r - 1")
    case True
    then show ?thesis using 1(2,3) by (subst (asm) remaining_forward.simps) (auto split: if_splits)
  next
    case False
    have "\<not> Flex_Get M (p + r - 1)" "remaining_forward M p (r - 1) = 0"
      using 1(2,3) by (subst (asm) remaining_forward.simps, auto split: if_splits)+
    then show ?thesis using 1(1) 1(3) False by auto
  qed
qed

lemma keep_back_free: "keep_back M p \<le> p \<and> (\<forall>q. keep_back M p \<le> q \<longrightarrow> q < p \<longrightarrow> \<not> Flex_Get M q)"
proof (induction M p rule: keep_back.induct)
  case (1 M p)
  show ?case
  proof (cases "p \<ge> 1 \<and> \<not> Flex_Get M (p - 1)")
    case True
    have k: "keep_back M p = keep_back M (p - 1)" using True by (subst keep_back.simps) simp
    have IH: "keep_back M (p - 1) \<le> p - 1 \<and> (\<forall>q. keep_back M (p - 1) \<le> q \<longrightarrow> q < p - 1 \<longrightarrow> \<not> Flex_Get M q)"
      using 1 True by blast
    have "\<not> Flex_Get M q" if "keep_back M (p - 1) \<le> q" "q < p" for q
      using IH that True by (cases "q = p - 1") auto
    then show ?thesis using IH k by auto
  next
    case False
    then have "keep_back M p = p" by (subst keep_back.simps) auto
    then show ?thesis by auto
  qed
qed

definition free_range :: "flex_bits \<Rightarrow> nat \<Rightarrow> nat \<Rightarrow> bool" where
  "free_range M p n \<longleftrightarrow> (\<forall>k < n. \<not> Flex_Get M (p + k))"

lemma scan_backward_free:
  "scan_backward M n p = q \<Longrightarrow> q \<noteq> 0 \<Longrightarrow> q + n \<le> p \<and> free_range M q n"
proof (induction M n p rule: scan_backward.induct)
  case (1 M n p)
  let ?r = "remaining_back M p n"
  have le: "n \<le> p" using 1(2,3) by (subst (asm) scan_backward.simps) (auto split: if_splits)
  show ?case
  proof (cases "?r = 0")
    case True
    then have q: "q = keep_back M (p - n)" using 1(2) le by (subst (asm) scan_backward.simps) (simp add: Let_def)
    note k = keep_back_free [of M "p - n"]
    have "\<not> Flex_Get M (q + i)" if "i < n" for i
    proof (cases "q + i < p - n")
      case True
      then show ?thesis using k q by auto
    next
      case False
      then have "p - (q + i) \<in> {1..n}" "p - (p - (q + i)) = q + i" using k q le that by auto
      then show ?thesis using remaining_back_0 [OF True, of "p - (q + i)"] by simp
    qed
    then show ?thesis using k q le by (auto simp: free_range_def)
  next
    case False
    then have "scan_backward M n (p - ?r) = q" using 1(2) le by (subst (asm) scan_backward.simps) (simp add: Let_def)
    then show ?thesis using 1(1) [OF le refl False] 1(3) by auto
  qed
qed

lemma scan_forward_free:
  "scan_forward M n l p = q \<Longrightarrow> q \<noteq> 0 \<Longrightarrow> p \<le> q \<and> q < l \<and> free_range M q n"
proof (induction M n l p rule: scan_forward.induct)
  case (1 M n l p)
  let ?r = "remaining_forward M p n"
  have lt: "p < l" using 1(2,3) by (subst (asm) scan_forward.simps) (auto split: if_splits)
  show ?case
  proof (cases "?r = 0")
    case True
    then have "q = p" using 1(2) lt by (subst (asm) scan_forward.simps) (simp add: Let_def)
    then show ?thesis using lt remaining_forward_0 [OF True] by (auto simp: free_range_def)
  next
    case False
    then have "scan_forward M n l (p + ?r) = q" using 1(2) lt by (subst (asm) scan_forward.simps) (simp add: Let_def)
    then show ?thesis using 1(1) [OF lt refl False] 1(3) by auto
  qed
qed

section \<open>Well-formed allocators\<close>

definition slab_ok :: "ReservedVMARegion \<Rightarrow> bool" where
  "slab_ok S \<longleftrightarrow> SlabBase S mod 4096 = 0 \<and> RegionSize S mod 4096 = 0 \<and> LOWER_BOUND \<le> SlabBase S
     \<and> SlabBase S + RegionSize S < 2 ^ 64 \<and> 0 < RegionSize S"

definition live_ok :: "LiveVMARegion \<Rightarrow> bool" where
  "live_ok R \<longleftrightarrow> LastPageAllocation R \<le> RegionSize (SlabInfo R) div 4096 \<and> FreeSpace R \<le> RegionSize (SlabInfo R)"

definition in_slab :: "ReservedVMARegion \<Rightarrow> nat \<Rightarrow> bool" where
  "in_slab S a \<longleftrightarrow> SlabBase S \<le> a \<and> a < SlabBase S + RegionSize S"

definition slabs :: "OSAllocator \<Rightarrow> ReservedVMARegion list" where
  "slabs A = ReservedRegions A @ map SlabInfo (LiveRegions A)"

text \<open>Every address lies in at most one region, reserved or live.\<close>

definition alloc_ok :: "OSAllocator \<Rightarrow> bool" where
  "alloc_ok A \<longleftrightarrow> (\<forall>S \<in> set (slabs A). slab_ok S) \<and> (\<forall>R \<in> set (LiveRegions A). live_ok R)
     \<and> (\<forall>a. length (filter (\<lambda>S. in_slab S a) (slabs A)) \<le> 1)"

lemma wrap64_id [simp]: "n < 2 ^ 64 \<Longrightarrow> wrap64 n = n"
  by (simp add: wrap64_def)

lemma sub64_id:
  assumes "b \<le> a" "a < 2 ^ 64"
  shows "sub64 a b = a - b"
proof -
  have "a + 2 ^ 64 - b = (a - b) + 2 ^ 64" using assms(1) by (rule diff_add_assoc2)
  then have "sub64 a b = (a - b) mod 2 ^ 64" unfolding sub64_def wrap64_def by (metis mod_add_self2)
  also have "\<dots> = a - b" by (rule mod_less, rule le_less_trans [OF diff_le_self assms(2)])
  finally show ?thesis .
qed

lemma round_up: "0 < s \<Longrightarrow> (v + (s - v mod s) mod s) mod s = (0 :: nat)"
proof -
  assume s: "0 < s"
  have "(v + (s - v mod s) mod s) mod s = (v mod s + (s - v mod s)) mod s" by (metis mod_add_eq mod_mod_trivial)
  also have "v mod s + (s - v mod s) = s" using s by (simp add: less_imp_le)
  finally show ?thesis by simp
qed

lemma align_up_bounds:
  assumes "v + s \<le> 2 ^ 64" "0 < s"
  shows "v \<le> align_up v s" "align_up v s < v + s" "align_up v s mod s = 0"
proof -
  have lt: "(s - v mod s) mod s < s" using assms(2) by simp
  then have eq: "align_up v s = v + (s - v mod s) mod s" using assms(1) by (simp add: align_up_def)
  then show "v \<le> align_up v s" "align_up v s < v + s" using lt by simp_all
  show "align_up v s mod s = 0" using eq round_up [OF assms(2)] by simp
qed

lemma SizeOfLiveRegion_bounds:
  assumes "sz mod 4096 = 0" "0 < sz" "sz < 2 ^ 64"
  shows "SizeOfLiveRegion sz \<le> sz" "SizeOfLiveRegion sz mod 4096 = 0" "4096 \<le> SizeOfLiveRegion sz"
proof -
  define k where "k = sz div 4096"
  have k: "sz = k * 4096" "k < 2 ^ 52" "0 < k" using assms by (auto simp: k_def)
  have small: "Flex_Size (k * 8) = 0" if "k < 8" using that by (simp add: Flex_Size_def align_up_def)
  have "k div 8 + 64 \<le> 2 ^ 64" using k(2) by simp
  then have f: "Flex_Size (k * 8) < k div 8 + 64"
    using align_up_bounds(2) [of "k div 8" 64] by (simp add: Flex_Size_def)
  have g: "GetSizeWithFlexSet sz = 4096 + Flex_Size (k * 8)" by (simp add: GetSizeWithFlexSet_def k_def)
  then have b: "GetSizeWithFlexSet sz + 4096 \<le> 2 ^ 64" using f k(2) by simp
  note a = align_up_bounds [OF b, folded SizeOfLiveRegion_def]
  show "SizeOfLiveRegion sz mod 4096 = 0" "4096 \<le> SizeOfLiveRegion sz" using a g by simp_all
  show "SizeOfLiveRegion sz \<le> sz"
  proof (cases "k < 8")
    case True
    then have "SizeOfLiveRegion sz = 4096" using g small by (simp add: SizeOfLiveRegion_def align_up_def wrap64_def)
    then show ?thesis using k by simp
  next
    case False
    then show ?thesis using a(2) f g k(1) by simp
  qed
qed

lemma filter_two: "i < length xs \<Longrightarrow> j < length xs \<Longrightarrow> i \<noteq> j \<Longrightarrow> P (xs ! i) \<Longrightarrow> P (xs ! j) \<Longrightarrow> 2 \<le> length (filter P xs)"
proof -
  assume *: "i < length xs" "j < length xs" "i \<noteq> j" "P (xs ! i)" "P (xs ! j)"
  then have "card {i, j} \<le> card {k. k < length xs \<and> P (xs ! k)}" by (intro card_mono) auto
  then show ?thesis using *(3) by (simp add: length_filter_conv_card)
qed


lemma reserved_not_live:
  assumes "alloc_ok A" "i < length (ReservedRegions A)" "j < length (LiveRegions A)"
    "in_slab (ReservedRegions A ! i) a" "in_slab (SlabInfo (LiveRegions A ! j)) a"
  shows False
proof -
  let ?n = "length (ReservedRegions A)"
  have "slabs A ! i = ReservedRegions A ! i" "slabs A ! (?n + j) = SlabInfo (LiveRegions A ! j)"
    using assms(2,3) by (simp_all add: slabs_def nth_append)
  then have "2 \<le> length (filter (\<lambda>S. in_slab S a) (slabs A))"
    using filter_two [of i "slabs A" "?n + j" "\<lambda>S. in_slab S a"] assms(2-5) by (simp add: slabs_def)
  then show False using assms(1) by (metis alloc_ok_def not_less_eq_eq numeral_2_eq_2 One_nat_def)
qed

section \<open>Pages and owners\<close>

text \<open>Pages are numbered over the whole address space.\<close>

definition page_used :: "OSAllocator \<Rightarrow> nat \<Rightarrow> bool" where
  "page_used A q \<longleftrightarrow> (\<exists>R \<in> set (LiveRegions A). in_slab (SlabInfo R) (q * 4096)
     \<and> Flex_Get (UsedPages R) (q - SlabBase (SlabInfo R) div 4096))"

definition pages :: "nat \<Rightarrow> nat \<Rightarrow> nat set" where
  "pages p len = {p div 4096..<p div 4096 + len div 4096}"

definition owned_in :: "nat set \<Rightarrow> ReservedVMARegion \<Rightarrow> nat set" where
  "owned_in Owned S = {q \<in> Owned. in_slab S (q * 4096)}"

text \<open>
  The invariant that a client keeps which owns the pages \<open>Owned\<close>: they are marked as used, and no region promises
  more free bytes than are left beside them.
\<close>

definition client_inv :: "OSAllocator \<Rightarrow> nat set \<Rightarrow> bool" where
  "client_inv A Owned \<longleftrightarrow> alloc_ok A \<and> finite Owned \<and> (\<forall>q \<in> Owned. page_used A q)
     \<and> (\<forall>R \<in> set (LiveRegions A). FreeSpace R + 4096 * card (owned_in Owned (SlabInfo R)) \<le> RegionSize (SlabInfo R))"


definition activated :: "OSAllocator \<Rightarrow> nat \<Rightarrow> LiveVMARegion" where
  "activated A j = InitializeVMARegionUsed
     \<lparr>SlabInfo = ReservedRegions A ! j, FreeSpace = 0, LastPageAllocation = 0, UsedPages = (\<lambda>_. 0)\<rparr> 0"

lemma MakeRegionActive_live [simp]:
  "LiveRegions (MakeRegionActive A j 0) = LiveRegions A @ [activated A j]" "SlabInfo (activated A j) = ReservedRegions A ! j"
  "ReservedRegions (MakeRegionActive A j 0) = take j (ReservedRegions A) @ drop (Suc j) (ReservedRegions A)"
  by (simp_all add: MakeRegionActive_def activated_def InitializeVMARegionUsed_def Let_def)

lemma activate_slabs:
  assumes "j < length (ReservedRegions A)"
  shows "mset (slabs (MakeRegionActive A j 0)) = mset (slabs A)"
proof -
  have "mset (ReservedRegions A) = mset (take j (ReservedRegions A) @ [ReservedRegions A ! j] @ drop (Suc j) (ReservedRegions A))"
    using id_take_nth_drop [OF assms] by simp
  then show ?thesis by (simp add: slabs_def)
qed

lemma activated_ok:
  assumes "slab_ok (ReservedRegions A ! j)"
  shows "live_ok (activated A j)"
proof -
  let ?sz = "RegionSize (ReservedRegions A ! j)"
  have sz: "?sz mod 4096 = 0" "0 < ?sz" "?sz < 2 ^ 64" using assms by (auto simp: slab_ok_def)
  note b = SizeOfLiveRegion_bounds [OF sz]
  have "SizeOfLiveRegion ?sz div 4096 mod 2 ^ 32 \<le> ?sz div 4096"
    using b(1) by (meson div_le_mono le_trans mod_less_eq_dividend)
  then show ?thesis
    using b(1) sz by (simp add: live_ok_def activated_def InitializeVMARegionUsed_def Let_def sub64_id)
qed

lemma alloc_ok_mset:
  assumes "mset (slabs B) = mset (slabs A)" "alloc_ok A" "\<And>R. R \<in> set (LiveRegions B) \<Longrightarrow> live_ok R"
  shows "alloc_ok B"
proof -
  have "set (slabs B) = set (slabs A)" using assms(1) by (metis set_mset_mset)
  moreover have "length (filter P (slabs B)) = length (filter P (slabs A))" for P
    using assms(1) by (metis mset_filter size_mset)
  ultimately show ?thesis using assms(2,3) by (simp add: alloc_ok_def)
qed

lemma activate_inv:
  assumes "client_inv A Owned" "j < length (ReservedRegions A)"
  shows "client_inv (MakeRegionActive A j 0) Owned" "page_used A q \<Longrightarrow> page_used (MakeRegionActive A j 0) q"
proof -
  let ?B = "MakeRegionActive A j 0"
  have ok: "alloc_ok A" "\<And>q. q \<in> Owned \<Longrightarrow> page_used A q" using assms(1) by (simp_all add: client_inv_def)
  have slab: "slab_ok (ReservedRegions A ! j)" using ok(1) assms(2) by (simp add: alloc_ok_def slabs_def)
  show used: "page_used A q \<Longrightarrow> page_used ?B q" for q by (auto simp: page_used_def)
  have "alloc_ok ?B"
    by (rule alloc_ok_mset [OF activate_slabs [OF assms(2)] ok(1)]) (use ok(1) activated_ok [OF slab] in \<open>auto simp: alloc_ok_def\<close>)
  moreover have "owned_in Owned (ReservedRegions A ! j) = {}"
  proof -
    have False if q: "q \<in> Owned" "in_slab (ReservedRegions A ! j) (q * 4096)" for q
    proof -
      have "page_used A q" by (rule ok(2) [OF q(1)])
      then obtain i where "i < length (LiveRegions A)" "in_slab (SlabInfo (LiveRegions A ! i)) (q * 4096)"
        by (auto simp: page_used_def in_set_conv_nth)
      then show False using reserved_not_live [OF ok(1) assms(2) _ q(2)] by blast
    qed
    then show ?thesis by (auto simp: owned_in_def)
  qed
  ultimately show "client_inv ?B Owned"
    using assms(1) used activated_ok [OF slab] by (auto simp: client_inv_def live_ok_def)
qed

section \<open>Placing a mapping\<close>

text \<open>There is room for \<open>len\<close> bytes at an address of a live region: pages that are free, behind the region's first page.\<close>

definition room :: "LiveVMARegion \<Rightarrow> nat \<Rightarrow> nat \<Rightarrow> bool" where
  "room R a len \<longleftrightarrow> len \<le> FreeSpace R \<and> (\<exists>P. P \<noteq> 0 \<and> a = SlabBase (SlabInfo R) + P * 4096
     \<and> P + len div 4096 \<le> RegionSize (SlabInfo R) div 4096 \<and> free_range (UsedPages R) P (len div 4096))"

lemma AllocatedPage_free:
  assumes "AllocatedPage R n Last = P" "P \<noteq> 0" "Last \<le> RegionSize (SlabInfo R) div 4096" "n \<le> RegionSize (SlabInfo R) div 4096"
    "RegionSize (SlabInfo R) < 2 ^ 64"
  shows "P + n \<le> RegionSize (SlabInfo R) div 4096 \<and> free_range (UsedPages R) P n"
proof -
  let ?pages = "RegionSize (SlabInfo R) div 4096"
  have "?pages < 2 ^ 64" using assms(5) by simp
  then have lim: "sub64 ?pages n = ?pages - n" by (rule sub64_id [OF assms(4)])
  show ?thesis
  proof (cases "scan_backward (UsedPages R) n Last = 0")
    case True
    then have "scan_forward (UsedPages R) n (?pages - n) Last = P" using assms(1) lim by (simp add: AllocatedPage_def Let_def)
    then have "P < ?pages - n \<and> free_range (UsedPages R) P n" using scan_forward_free assms(2) by blast
    then show ?thesis by linarith
  next
    case False
    then have "scan_backward (UsedPages R) n Last = P" using assms(1) by (simp add: AllocatedPage_def Let_def)
    then have "P + n \<le> Last \<and> free_range (UsedPages R) P n" using scan_backward_free assms(2) by blast
    then show ?thesis using assms(3) by linarith
  qed
qed

lemma CheckIfRangeFits_room:
  assumes "slab_ok (SlabInfo R)" "live_ok R" "CheckIfRangeFits mm R len r 0 a0 = (Fits, a)"
  shows "Fits = None \<and> a = a0 \<or> Fits = Some (mm a len (host_request r)) \<and> room R a len"
proof (cases "FreeSpace R \<ge> len \<and> AllocatedPage R (len div 4096) (LastPageAllocation R) \<noteq> 0")
  case True
  let ?P = "AllocatedPage R (len div 4096) (LastPageAllocation R)"
  have n: "len div 4096 \<le> RegionSize (SlabInfo R) div 4096" using True assms(2) by (auto simp: live_ok_def intro: div_le_mono)
  have "?P + len div 4096 \<le> RegionSize (SlabInfo R) div 4096 \<and> free_range (UsedPages R) ?P (len div 4096)"
    by (rule AllocatedPage_free [OF refl _ _ n]) (use True assms(1,2) in \<open>auto simp: live_ok_def slab_ok_def\<close>)
  then show ?thesis using True assms(3) by (auto simp: CheckIfRangeFits_def LastAllocation_def room_def Let_def)
next
  case False
  then show ?thesis using assms(3) by (auto simp: CheckIfRangeFits_def LastAllocation_def Let_def split: if_splits)
qed







section \<open>Mapping and unmapping keep the invariant\<close>

text \<open>
  What \<^verbatim>\<open>MAP_FIXED\<close> promises: the host refuses the mapping, or makes it at the address it was asked for. It may
  refuse any request.
\<close>

definition honours_fixed :: "host_mmap \<Rightarrow> bool" where
  "honours_fixed mm \<longleftrightarrow> (\<forall>a len r p. mm a len (host_request r) = Inr p \<longrightarrow> p = a)"

text \<open>An address that \<^verbatim>\<open>AllocatedOffset\<close> can hold without a region: none, or a free place that the host refused.\<close>

definition tried :: "host_mmap \<Rightarrow> LiveVMARegion list \<Rightarrow> nat \<Rightarrow> map_request \<Rightarrow> nat \<Rightarrow> bool" where
  "tried mm Rs len r a \<longleftrightarrow> a = 0 \<or> (\<exists>i < length Rs. room (Rs ! i) a len) \<and> (\<exists>e. mm a len (host_request r) = Inl e)"

lemma tried_more: "tried mm Rs len r a \<Longrightarrow> tried mm (Rs @ Rs') len r a" "tried mm Rs len r a \<Longrightarrow> tried mm (R # Rs) len r a"
  unfolding tried_def by (metis (no_types, lifting) length_append nth_append trans_less_add1)
    (metis (no_types, lifting) Suc_less_eq length_Cons nth_Cons_Suc)

lemma search_live_room:
  assumes "honours_fixed mm" "\<forall>R \<in> set Rs. slab_ok (SlabInfo R) \<and> live_ok R" "search_live mm Rs len r a0 = (L, a)"
  shows "L = None \<and> (a = a0 \<or> tried mm Rs len r a)
    \<or> (\<exists>i < length Rs. L = Some i \<and> room (Rs ! i) a len \<and> mm a len (host_request r) = Inr a)"
  using assms(2,3)
proof (induction Rs arbitrary: a0 L a)
  case (Cons R Rs)
  obtain Fits a1 where f: "CheckIfRangeFits mm R len r 0 a0 = (Fits, a1)" by fastforce
  have fits: "Fits = None \<and> a1 = a0 \<or> Fits = Some (mm a1 len (host_request r)) \<and> room R a1 len"
    by (rule CheckIfRangeFits_room [OF _ _ f]) (use Cons.prems(1) in simp_all)
  show ?case
  proof (cases "Fits = Some (Inr a1)")
    case True
    then show ?thesis using Cons.prems(2) f fits by auto
  next
    case False
    obtain L1 where l: "search_live mm Rs len r a1 = (L1, a)" "L = map_option Suc L1"
      using Cons.prems(2) f False by (auto split: prod.splits)
    have rest: "L1 = None \<and> (a = a1 \<or> tried mm Rs len r a)
        \<or> (\<exists>i < length Rs. L1 = Some i \<and> room (Rs ! i) a len \<and> mm a len (host_request r) = Inr a)"
      using Cons.IH [OF _ l(1)] Cons.prems(1) by simp
    have "a1 = a0 \<or> tried mm (R # Rs) len r a1"
      using fits False assms(1) by (cases "mm a1 len (host_request r)") (auto simp: tried_def honours_fixed_def)
    then show ?thesis using rest l(2) tried_more(2) [of mm Rs len r a R] by auto
  qed
qed simp

lemma search_regions_inv:
  "honours_fixed mm \<Longrightarrow> client_inv A Owned \<Longrightarrow> tried mm (LiveRegions A) len r a0 \<Longrightarrow> search_regions mm A len r a0 = (L, a, B)
    \<Longrightarrow> client_inv B Owned \<and> take (length (LiveRegions A)) (LiveRegions B) = LiveRegions A
      \<and> (L = None \<and> tried mm (LiveRegions B) len r a
         \<or> (\<exists>i < length (LiveRegions B). L = Some i \<and> room (LiveRegions B ! i) a len \<and> mm a len (host_request r) = Inr a))"
proof (induction mm A len r a0 arbitrary: L a B rule: search_regions.induct)
  case (1 mm A len r a0)
  obtain L1 a1 where l: "search_live mm (LiveRegions A) len r a0 = (L1, a1)" by fastforce
  have "\<forall>R \<in> set (LiveRegions A). slab_ok (SlabInfo R) \<and> live_ok R"
    using "1.prems"(2) by (auto simp: client_inv_def alloc_ok_def slabs_def)
  then have r: "L1 = None \<and> tried mm (LiveRegions A) len r a1
      \<or> (\<exists>i < length (LiveRegions A). L1 = Some i \<and> room (LiveRegions A ! i) a1 len \<and> mm a1 len (host_request r) = Inr a1)"
    using search_live_room [OF "1.prems"(1) _ l] "1.prems"(3) by blast
  let ?j = "find_index (\<lambda>S. RegionSize S \<ge> len + SizeOfLiveRegion len) (ReservedRegions A)"
  show ?case
  proof (cases "L1 = None \<and> ?j \<noteq> None")
    case True
    then obtain j where j: "?j = Some j" by auto
    let ?M = "MakeRegionActive A j 0"
    have a1: "L1 = None" "tried mm (LiveRegions ?M) len r a1" using r True tried_more(1) by auto
    have "search_regions mm ?M len r a1 = (L, a, B)"
      using "1.prems"(4) l a1(1) j by (subst (asm) search_regions.simps) simp
    moreover have "client_inv ?M Owned"
      using activate_inv(1) [OF "1.prems"(2)] find_index_SomeD [OF j] by blast
    ultimately have IH: "client_inv B Owned" "take (length (LiveRegions ?M)) (LiveRegions B) = LiveRegions ?M"
      "L = None \<and> tried mm (LiveRegions B) len r a
         \<or> (\<exists>i < length (LiveRegions B). L = Some i \<and> room (LiveRegions B ! i) a len \<and> mm a len (host_request r) = Inr a)"
      using "1.IH" [OF l [symmetric] a1(1) j "1.prems"(1) _ a1(2)] by blast+
    have "take (length (LiveRegions A)) (LiveRegions B) = take (length (LiveRegions A)) (take (length (LiveRegions ?M)) (LiveRegions B))"
      by (simp add: min_def)
    also have "\<dots> = LiveRegions A" unfolding IH(2) by simp
    finally show ?thesis using IH(1,3) by blast
  next
    case False
    then have "L = L1 \<and> a = a1 \<and> B = A"
      using "1.prems"(4) l by (subst (asm) search_regions.simps) (auto split: option.splits)
    then show ?thesis using r "1.prems"(2) by auto
  qed
qed


lemma Mmap_anywhere:
  assumes "\<not> is_fixed r"
  shows "Mmap mm A 0 length0 r =
    (if Fd r \<noteq> -1 \<and> FileOffset r mod 4096 \<noteq> 0 then (Inl EINVAL, A)
     else case search_regions mm A (align_up length0 4096) r 0 of (L, a, B) \<Rightarrow> finish_map B L a (align_up length0 4096))"
  using assms by (simp add: Mmap_def map_anywhere_def Let_def)










section \<open>A client of the allocator\<close>




section \<open>Refused mappings\<close>

lemma search_live_refused:
  assumes "\<And>a. \<exists>e. mm a len (host_request r) = Inl e" "\<forall>R \<in> set Rs. slab_ok (SlabInfo R)"
    "a0 \<noteq> 0 \<or> (\<exists>R \<in> set Rs. fst (CheckIfRangeFits mm R len r 0 0) \<noteq> None)"
  shows "fst (search_live mm Rs len r a0) = None \<and> snd (search_live mm Rs len r a0) \<noteq> 0"
  using assms(2,3)
proof (induction Rs arbitrary: a0)
  case (Cons R Rs)
  have base: "0 < SlabBase (SlabInfo R)" using Cons.prems(1) by (simp add: slab_ok_def LOWER_BOUND_def)
  obtain Fits a1 where f: "CheckIfRangeFits mm R len r 0 a0 = (Fits, a1)" by fastforce
  have no: "Fits \<noteq> Some (Inr a1)" using f assms(1) [of a1]
    by (auto simp: CheckIfRangeFits_def Let_def split: if_splits)
  have "Fits \<noteq> None \<Longrightarrow> a1 \<noteq> 0" "Fits = None \<Longrightarrow> a1 = a0" "fst (CheckIfRangeFits mm R len r 0 0) \<noteq> None \<Longrightarrow> Fits \<noteq> None"
    using f base by (auto simp: CheckIfRangeFits_def Let_def split: if_splits)
  then have "a1 \<noteq> 0 \<or> (\<exists>R \<in> set Rs. fst (CheckIfRangeFits mm R len r 0 0) \<noteq> None)"
    using Cons.prems(2) by auto
  then have "fst (search_live mm Rs len r a1) = None \<and> snd (search_live mm Rs len r a1) \<noteq> 0"
    using Cons.IH Cons.prems(1) by simp
  then show ?case using f no by (auto split: prod.splits)
qed simp

lemma search_regions_refused:
  assumes "\<And>a. \<exists>e. mm a len (host_request r) = Inl e"
  shows "alloc_ok A \<Longrightarrow> a0 \<noteq> 0 \<or> (\<exists>R \<in> set (LiveRegions A). fst (CheckIfRangeFits mm R len r 0 0) \<noteq> None)
    \<Longrightarrow> search_regions mm A len r a0 = (L, a, B) \<Longrightarrow> L = None \<and> a \<noteq> 0"
  using assms
proof (induction mm A len r a0 arbitrary: L a B rule: search_regions.induct)
  case (1 mm A len r a0)
  have "\<forall>R \<in> set (LiveRegions A). slab_ok (SlabInfo R)" using "1.prems"(1) by (auto simp: alloc_ok_def slabs_def)
  then obtain a1 where l: "search_live mm (LiveRegions A) len r a0 = (None, a1)" "a1 \<noteq> 0"
    using search_live_refused [OF "1.prems"(4) _ "1.prems"(2)] by (metis prod.collapse)
  show ?case
  proof (cases "find_index (\<lambda>S. RegionSize S \<ge> len + SizeOfLiveRegion len) (ReservedRegions A)")
    case None
    then show ?thesis using "1.prems"(3) l by (subst (asm) search_regions.simps) simp
  next
    case (Some j)
    have "client_inv A {}" using "1.prems"(1) by (auto simp: client_inv_def alloc_ok_def live_ok_def owned_in_def)
    then have ok: "alloc_ok (MakeRegionActive A j 0)"
      using activate_inv(1) find_index_SomeD [OF Some] by (metis client_inv_def)
    have "search_regions mm (MakeRegionActive A j 0) len r a1 = (L, a, B)"
      using "1.prems"(3) l(1) Some by (subst (asm) search_regions.simps) simp
    then show ?thesis using "1.IH" [OF l(1) [symmetric] refl Some ok _ _ "1.prems"(4)] l(2) by blast
  qed
qed

text \<open>
  C39: A mapping that the host refuses is reported as a success. Whenever a live region has a place for the request
  and the host refuses it everywhere, with whatever error, \<^verbatim>\<open>Mmap\<close> returns an address all the same: a free place that
  was tried, whose pages stay unmarked, so that the same place is free for the next request.
\<close>

theorem Mmap_failure_reported_as_success:
  assumes "alloc_ok A" "\<not> is_fixed r" "Fd r = -1 \<or> FileOffset r mod 4096 = 0"
    "\<And>a. \<exists>e. mm a (align_up n 4096) (host_request r) = Inl e"
    "R \<in> set (LiveRegions A)" "fst (CheckIfRangeFits mm R (align_up n 4096) r 0 0) \<noteq> None" "honours_fixed mm"
  shows "\<exists>p B. Mmap mm A 0 n r = (Inr p, B) \<and> (\<exists>R \<in> set (LiveRegions B). room R p (align_up n 4096))
    \<and> take (length (LiveRegions A)) (LiveRegions B) = LiveRegions A"
proof -
  let ?len = "align_up n 4096"
  obtain L a B where s: "search_regions mm A ?len r 0 = (L, a, B)" using prod_cases3 by blast
  have none: "L = None" "a \<noteq> 0"
    using search_regions_refused [OF assms(4) assms(1) _ s] assms(5,6) by blast+
  have inv: "client_inv A {}" using assms(1) by (auto simp: client_inv_def alloc_ok_def live_ok_def owned_in_def)
  have t0: "tried mm (LiveRegions A) ?len r 0" by (simp add: tried_def)
  have "tried mm (LiveRegions B) ?len r a" "take (length (LiveRegions A)) (LiveRegions B) = LiveRegions A"
    using search_regions_inv [OF assms(7) inv t0 s] none(1) by simp_all
  moreover have "Mmap mm A 0 n r = (Inr a, B)"
    unfolding Mmap_anywhere [OF assms(2)] s using assms(3) none by (simp add: finish_map_def mark_region_def)
  ultimately show ?thesis using none(2) by (auto simp: tried_def)
qed

section \<open>Examples\<close>

definition one_region :: "nat \<Rightarrow> OSAllocator" where
  "one_region sz = \<lparr>ReservedRegions = [\<lparr>SlabBase = 0x100000000, RegionSize = sz\<rparr>], LiveRegions = []\<rparr>"

definition anonymous :: "u32 \<Rightarrow> map_request" where
  "anonymous flags = \<lparr>Prot = 3, MFlags = flags, Fd = -1, FileOffset = 0\<rparr>"

lemma one_region_ok: "0 < sz \<Longrightarrow> sz < 2 ^ 44 \<Longrightarrow> sz mod 4096 = 0 \<Longrightarrow> alloc_ok (one_region sz)"
  by (simp add: alloc_ok_def one_region_def slabs_def slab_ok_def LOWER_BOUND_def)

lemma zero_bits [simp]: "Flex_Get (\<lambda>_. 0) e = False"
  by (simp add: Flex_Get_bit)

lemma MemSet_none: "n < 64 \<Longrightarrow> Flex_MemSet M n = M"
  by (simp add: Flex_MemSet_def Flex_Size_def align_up_def)

lemma small_region: "activated (one_region 0x10000000) 0
  = \<lparr>SlabInfo = \<lparr>SlabBase = 0x100000000, RegionSize = 0x10000000\<rparr>, FreeSpace = 0xFFFD000, LastPageAllocation = 3, UsedPages = (\<lambda>_. 0)\<rparr>"
  by (simp add: activated_def one_region_def InitializeVMARegionUsed_def SizeOfLiveRegion_def GetSizeWithFlexSet_def Flex_Size_def
      align_up_def wrap64_def sub64_def MemSet_none Let_def)

lemma small_page: "AllocatedPage (activated (one_region 0x10000000) 0) 1 3 = 3"
  by (simp add: small_region AllocatedPage_def Let_def scan_backward.simps scan_forward.simps scan_simps sub64_def wrap64_def)

lemma small_fits: "CheckIfRangeFits mm (activated (one_region 0x10000000) 0) 4096 r 0 a
  = (Some (mm 0x100003000 4096 (host_request r)), 0x100003000)"
  using small_page by (simp add: CheckIfRangeFits_def LastAllocation_def Let_def small_region)

lemma search_one_region:
  assumes "CheckIfRangeFits mm (activated (one_region sz) 0) len r 0 0 = (Fits, a)" "sz \<ge> len + SizeOfLiveRegion len"
  shows "search_regions mm (one_region sz) len r 0 = (if Fits = Some (Inr a) then Some 0 else None, a, MakeRegionActive (one_region sz) 0 0)"
proof -
  have "search_regions mm (one_region sz) len r 0 = search_regions mm (MakeRegionActive (one_region sz) 0 0) len r 0"
    using assms(2) by (subst search_regions.simps) (simp add: one_region_def)
  also have "\<dots> = (if Fits = Some (Inr a) then Some 0 else None, a, MakeRegionActive (one_region sz) 0 0)"
    using assms(1) by (subst search_regions.simps) (simp add: one_region_def)
  finally show ?thesis .
qed

lemma page_with_tracking: "SizeOfLiveRegion 4096 = 4096"
  by (simp add: SizeOfLiveRegion_def GetSizeWithFlexSet_def Flex_Size_def align_up_def wrap64_def)

lemma map_one_page:
  assumes "CheckIfRangeFits mm (activated (one_region sz) 0) 4096 (anonymous 0x22) 0 0 = (Fits, a)" "8192 \<le> sz" "a \<noteq> 0"
  shows "fst (Mmap mm (one_region sz) 0 4096 (anonymous 0x22)) = Inr a"
proof -
  have "\<not> is_fixed (anonymous 0x22)" by (simp add: is_fixed_def anonymous_def MAP_FIXED_def MAP_FIXED_NOREPLACE_def)
  moreover have "align_up 4096 4096 = 4096" by (simp add: align_up_def wrap64_def)
  ultimately show ?thesis
    using search_one_region [OF assms(1)] assms(2,3) by (simp add: Mmap_anywhere page_with_tracking finish_map_def anonymous_def)
qed


theorem Mmap_failure_reported_as_success_witness:
  "\<exists>p B. Mmap (\<lambda>a n r. Inl 9) (MakeRegionActive (one_region 0x10000000) 0 0) 0 4096 (anonymous 0x22) = (Inr p, B)
    \<and> (\<exists>R \<in> set (LiveRegions B). room R p 4096)"
proof -
  let ?A = "MakeRegionActive (one_region 0x10000000) 0 0" and ?r = "anonymous 0x22"
  have "client_inv (one_region 0x10000000) {}"
    using one_region_ok [of "0x10000000"] by (simp add: client_inv_def one_region_def)
  then have "alloc_ok ?A" using activate_inv(1) [of "one_region 0x10000000" "{}" 0] by (simp add: client_inv_def one_region_def)
  moreover have "\<not> is_fixed ?r" by (simp add: is_fixed_def anonymous_def MAP_FIXED_def MAP_FIXED_NOREPLACE_def)
  moreover have "align_up 4096 4096 = 4096" by (simp add: align_up_def wrap64_def)
  ultimately show ?thesis
    using Mmap_failure_reported_as_success [of ?A ?r "\<lambda>a n r. Inl 9" 4096 "activated (one_region 0x10000000) 0"]
      small_fits [of "\<lambda>a n r. Inl 9" ?r 0] by (auto simp: anonymous_def honours_fixed_def)
qed

lemma large_region: "activated (one_region 0x1000000000) 0
  = \<lparr>SlabInfo = \<lparr>SlabBase = 0x100000000, RegionSize = 0x1000000000\<rparr>, FreeSpace = 0xFFFDFF000, LastPageAllocation = 513,
      UsedPages = Flex_MemSet (\<lambda>_. 0) 513\<rparr>"
  by (simp add: activated_def one_region_def InitializeVMARegionUsed_def SizeOfLiveRegion_def GetSizeWithFlexSet_def Flex_Size_def
      align_up_def wrap64_def sub64_def Let_def)

lemma large_bits: "Flex_Get (Flex_MemSet (\<lambda>_. 0) 513) e \<longleftrightarrow> e < 512"
proof -
  have "Flex_Size 513 = 64" by (simp add: Flex_Size_def align_up_def wrap64_def)
  then show ?thesis by (auto simp: Flex_Get_MemSet)
qed

lemma large_back: "512 \<le> p \<Longrightarrow> keep_back (Flex_MemSet (\<lambda>_. 0) 513) p = 512"
proof (induction p rule: dec_induct)
  case base
  then show ?case by (subst keep_back.simps) (simp add: large_bits)
next
  case (step p)
  then show ?case by (subst keep_back.simps) (simp add: large_bits)
qed

lemma large_scan: "513 \<le> p \<Longrightarrow> AllocatedPage (activated (one_region 0x1000000000) 0) 1 p = 512"
proof -
  assume p: "513 \<le> p"
  have "remaining_back (Flex_MemSet (\<lambda>_. 0) 513) p 1 = 0" using p by (simp add: remaining_back.simps large_bits)
  then have "scan_backward (Flex_MemSet (\<lambda>_. 0) 513) 1 p = 512"
    using p large_back [of "p - 1"] by (subst scan_backward.simps) simp
  then show ?thesis by (simp add: AllocatedPage_def Let_def large_region)
qed

text \<open>
  C40: In a region of 64 GB the bits that should protect the region's own tracking data stop one page short: the
  data takes the pages 0 to 512, and the first page that is handed out is page 512.
\<close>

theorem Mmap_hands_out_tracking_page:
  "fst (Mmap mm (one_region 0x1000000000) 0 4096 (anonymous 0x22)) = Inr (0x100000000 + 512 * 4096)
   \<and> 512 * 4096 < SizeOfLiveRegion 0x1000000000"
proof -
  have "CheckIfRangeFits mm (activated (one_region 0x1000000000) 0) 4096 r 0 0
      = (Some (mm 0x100200000 4096 (host_request r)), 0x100200000)" for r
    using large_scan [of 513] by (simp add: CheckIfRangeFits_def LastAllocation_def Let_def large_region)
  from map_one_page [OF this] have "fst (Mmap mm (one_region 0x1000000000) 0 4096 (anonymous 0x22)) = Inr 0x100200000" by simp
  then show ?thesis by (simp add: SizeOfLiveRegion_def GetSizeWithFlexSet_def Flex_Size_def align_up_def wrap64_def)
qed

text \<open>
  Mapping a free page with \<^verbatim>\<open>MAP_FIXED_NOREPLACE\<close> is refused as existing when there is a hole below it: the scan
  looks backward first and finds the hole, here in a fresh region of 64 GB whose only used pages are its first 512.
\<close>

theorem NoReplace_refused_on_free_page:
  "fst (Mmap (\<lambda>a n r. Inr a) (one_region 0x1000000000) (0x100000000 + 1000 * 4096) 4096 (anonymous 0x100022)) = Inl EEXIST
   \<and> \<not> Flex_Get (UsedPages (activated (one_region 0x1000000000) 0)) 1000"
proof -
  let ?r = "anonymous 0x100022"
  have fits: "CheckIfRangeFits (\<lambda>a n r. Inr a) (activated (one_region 0x1000000000) 0) 4096 ?r 0x1003E8000 0 = (Some (Inr 0x100200000), 0x100200000)"
    using large_scan [of 1000] by (simp add: CheckIfRangeFits_def LastAllocation_def Let_def large_region)
  have fl: "is_fixed ?r" "MFlags ?r AND MAP_FIXED_NOREPLACE \<noteq> 0"
    by (simp_all add: is_fixed_def anonymous_def MAP_FIXED_def MAP_FIXED_NOREPLACE_def)
  have "find_region (one_region 0x1000000000) 0x1003E8000 0x1003E9000 = (Some 0, MakeRegionActive (one_region 0x1000000000) 0 0)"
    by (simp add: find_region_def find_live_def one_region_def)
  then have "fst (Mmap (\<lambda>a n r. Inr a) (one_region 0x1000000000) 0x1003E8000 4096 ?r) = Inl EEXIST"
    using fits fl by (simp add: Mmap_def LOWER_BOUND_def wrap64_def align_up_def map_fixed_def anonymous_def one_region_def)
  then show ?thesis by (simp add: large_region large_bits)
qed

text \<open>
  The page number of an unmapped block is kept in 32 bits: 16 TB into a region, unmapping a page clears the bit of
  the region's first page instead.
\<close>

lemma Munmap_truncates_page:
  "UsedPages (unmap_region R (SlabBase (SlabInfo R) + 2 ^ 44) 4096) = snd (Flex_TestAndClear (UsedPages R) 0)"
  by (simp add: unmap_region_def Let_def Flex_TestAndClear_def)

section \<open>From the table of mappings to the allocator\<close>

definition before :: "nat \<times> nat \<Rightarrow> nat \<times> nat \<Rightarrow> bool" where
  "before r s \<longleftrightarrow> fst r + snd r \<le> fst s"

lemma slabs_ordered:
  "sorted_wrt (\<lambda>S T. SlabBase S + RegionSize S \<le> SlabBase T) Ss \<Longrightarrow> length (filter (\<lambda>S. in_slab S a) Ss) \<le> 1"
proof (induction Ss)
  case (Cons S Ss)
  show ?case
  proof (cases "in_slab S a")
    case True
    then have "filter (\<lambda>S. in_slab S a) Ss = []" using Cons.prems by (auto simp: filter_empty_conv in_slab_def)
    then show ?thesis by simp
  next
    case False
    then show ?thesis using Cons by simp
  qed
qed simp

lemma reserve_ranges_ordered:
  "sorted_wrt before rs \<Longrightarrow> sorted_wrt (\<lambda>S T. SlabBase S + RegionSize S \<le> SlabBase T) (reserve_ranges oa rs)
     \<and> (\<forall>S \<in> set (reserve_ranges oa rs). \<exists>r \<in> set rs. fst r \<le> SlabBase S)"
proof (induction oa rs rule: reserve_ranges.induct)
  case (2 oa p n rs)
  have IH: "sorted_wrt (\<lambda>S T. SlabBase S + RegionSize S \<le> SlabBase T) (reserve_ranges True rs)"
    "\<forall>S \<in> set (reserve_ranges True rs). \<exists>r \<in> set rs. fst r \<le> SlabBase S"
    using "2.IH" "2.prems" by (cases oa; cases "n > 64 * 1024 * 1024"; simp add: Let_def)+
  have "p + n \<le> SlabBase S" if "S \<in> set (reserve_ranges True rs)" for S
    using IH(2) that "2.prems" by (fastforce simp: before_def)
  then show ?case using IH by (auto simp: Let_def min_def)
qed simp

lemma gaps_ordered:
  "table_ok prev ls \<Longrightarrow> sorted_wrt before (map (map_prod unat unat) (gaps Begin End prev ls))
     \<and> (\<forall>(p, n) \<in> set (gaps Begin End prev ls). prev \<le> p)"
proof (induction Begin End prev ls rule: gaps.induct)
  case (1 Begin End prev)
  then show ?case by (auto simp: region_span_def)
next
  case (2 Begin End prev b e rest ls)
  have *: "prev \<le> b" "b \<le> e" "table_ok e ls" using "2.prems" by simp_all
  note IH = "2.IH" [OF *(3)]
  have "unat lo + unat (min b End - lo) \<le> unat q" if "lo < min b End" "e \<le> q" for lo q
    using that *(2) by (auto simp: word_less_nat_alt word_le_nat_alt unat_sub min_def split: if_splits)
  then show ?case using IH *(1,2) by (fastforce simp: region_span_def before_def split: if_splits)
qed

text \<open>Whole pages: the kernel maps nothing smaller, so that every address of its table is page-aligned.\<close>

definition page_aligned :: "u64 \<Rightarrow> bool" where
  "page_aligned a \<longleftrightarrow> unat a mod 4096 = 0"

definition lines_aligned :: "mapping_line list \<Rightarrow> bool" where
  "lines_aligned ls \<longleftrightarrow> (\<forall>(b, e, rest) \<in> set ls. page_aligned b \<and> page_aligned e)"

definition range_ok :: "nat \<Rightarrow> nat \<times> nat \<Rightarrow> bool" where
  "range_ok lo r \<longleftrightarrow> fst r mod 4096 = 0 \<and> snd r mod 4096 = 0 \<and> 0 < snd r \<and> lo \<le> fst r \<and> fst r + snd r < 2 ^ 64"

lemma span_ok:
  assumes "page_aligned lo" "page_aligned hi" "Begin \<le> lo" "r \<in> set (region_span lo hi)"
  shows "range_ok (unat Begin) (map_prod unat unat r)"
proof -
  have r: "r = (lo, hi - lo)" "lo < hi" using assms(4) by (auto simp: region_span_def split: if_splits)
  then have n: "unat (hi - lo) = unat hi - unat lo" "unat lo < unat hi" by (simp_all add: unat_sub less_imp_le flip: word_less_nat_alt)
  have "(unat hi - unat lo) mod 4096 = 0"
    using assms(1,2) n(2) mod_eq_dvd_iff_nat [of "unat lo" "unat hi" 4096] by (simp add: page_aligned_def mod_eq_0_iff_dvd)
  then show ?thesis
    using n assms(1,3) r(1) unsigned_less [of hi] by (simp add: range_ok_def page_aligned_def word_le_nat_alt)
qed

lemma page_aligned_minmax: "page_aligned a \<Longrightarrow> page_aligned b \<Longrightarrow> page_aligned (max a b) \<and> page_aligned (min a b)"
  by (simp add: max_def min_def)

lemma gaps_ok:
  "lines_aligned ls \<Longrightarrow> page_aligned Begin \<Longrightarrow> page_aligned End \<Longrightarrow> page_aligned prev
    \<Longrightarrow> r \<in> set (gaps Begin End prev ls) \<Longrightarrow> range_ok (unat Begin) (map_prod unat unat r)"
proof (induction Begin End prev ls rule: gaps.induct)
  case (1 Begin End prev)
  then show ?case using span_ok [of "max prev Begin" End Begin r] page_aligned_minmax by simp
next
  case (2 Begin End prev b e rest ls)
  have l: "page_aligned b" "page_aligned e" "lines_aligned ls" using "2.prems"(1) by (auto simp: lines_aligned_def)
  then show ?case
    using "2.IH" [OF l(3) "2.prems"(2,3) l(2)] "2.prems" span_ok [of "max prev Begin" "min b End" Begin r] page_aligned_minmax
    by auto
qed

lemma reserved_slab_ok:
  "(\<And>r. r \<in> set rs \<Longrightarrow> range_ok lo r) \<Longrightarrow> LOWER_BOUND \<le> lo \<Longrightarrow> S \<in> set (reserve_ranges oa rs) \<Longrightarrow> slab_ok S"
proof (induction oa rs rule: reserve_ranges.induct)
  case (2 oa p n rs)
  have r: "range_ok lo (p, n)" "\<And>r. r \<in> set rs \<Longrightarrow> range_ok lo r" using "2.prems"(1) by simp_all
  have cut: "(n - 67108864) mod 4096 = 0" if "67108864 < n"
    using r(1) that mod_eq_dvd_iff_nat [of 67108864 n 4096] by (simp add: range_ok_def mod_eq_0_iff_dvd)
  have "p + 67108864 + (n - 67108864) = p + n" if "67108864 < n" using that by simp
  moreover have "(p + 67108864) mod 4096 = 0" using r(1) by (auto simp: range_ok_def)
  ultimately show ?case
    using "2.IH" r "2.prems"(2,3) cut
    by (auto simp: slab_ok_def range_ok_def Let_def min_def split: if_splits)
qed simp

text \<open>
  C19: The allocator built from the gaps of the host's table of mappings is well formed, when the mappings of the
  table are whole pages in ascending order, the bounds are page-aligned and above 4 GB, and every reserving call
  succeeds (otherwise the code aborts): its regions are aligned and never overlap, and none is live, so that the
  guarantee for its clients applies from the start, whatever the number and the sizes of the gaps.
\<close>

theorem OSAllocator_from_gaps:
  assumes "table_ok 0 ls" "lines_aligned ls" "\<forall>p n. mm p n = Some p"
    "page_aligned Begin" "page_aligned End" "LOWER_BOUND \<le> unat Begin"
  shows "\<exists>Regions. StealMemoryRegion mm Begin End (concat (map print_line ls)) = Some Regions
    \<and> alloc_ok (OSAllocator_64Bit (map (map_prod unat unat) Regions)) \<and> LiveRegions (OSAllocator_64Bit (map (map_prod unat unat) Regions)) = []"
proof -
  let ?c = "map (map_prod unat unat) (gaps Begin End 0 ls)"
  have "sorted_wrt before ?c" using gaps_ordered [OF assms(1)] by simp
  then have one: "length (filter (\<lambda>S. in_slab S a) (reserve_ranges False ?c)) \<le> 1" for a
    using slabs_ordered reserve_ranges_ordered by blast
  have zero: "page_aligned 0" by (simp add: page_aligned_def)
  have "range_ok (unat Begin) r" if "r \<in> set ?c" for r using that gaps_ok [OF assms(2,4,5) zero] by auto
  then have "slab_ok S" if "S \<in> set (reserve_ranges False ?c)" for S using reserved_slab_ok [OF _ assms(6) that] by blast
  then have "alloc_ok (OSAllocator_64Bit ?c)" using one by (simp add: alloc_ok_def OSAllocator_64Bit_def slabs_def)
  moreover have "StealMemoryRegion mm Begin End (concat (map print_line ls)) = Some (gaps Begin End 0 ls)"
    using steal_lines [OF assms(3), of ls Begin End 0 "[]"] table_okD [OF assms(1)] by (simp add: StealMemoryRegion_def)
  ultimately show ?thesis by (simp add: OSAllocator_64Bit_def)
qed

theorem OSAllocator_from_gaps_witness:
  "\<exists>Regions. StealMemoryRegion (\<lambda>p n. Some p) 0x100000000 0x7FFFFFFFF000 (concat (map print_line [(0x108000000, 0x108001000, ''rw-p'')])) = Some Regions
    \<and> alloc_ok (OSAllocator_64Bit (map (map_prod unat unat) Regions)) \<and> LiveRegions (OSAllocator_64Bit (map (map_prod unat unat) Regions)) = []"
  by (rule OSAllocator_from_gaps) (simp_all add: line_ok_def lines_aligned_def page_aligned_def LOWER_BOUND_def)

end
