(* ===== verification/X86_Flags.thy ===== *)
theory X86_Flags
  imports IR_Emitter
begin

text \<open>
  Generation of the x86 flags by the opcode dispatcher: \<^verbatim>\<open>OpcodeDispatcher/Flags.cpp\<close> and the
  deferral of flag computations in \<^verbatim>\<open>OpcodeDispatcher.h\<close>. Every \<^verbatim>\<open>CalculcateFlags_*\<close> function emits
  IR that stores flags one byte each in the guest context; \<^verbatim>\<open>GenerateFlags_*\<close> records what has to be
  computed, and \<^verbatim>\<open>CalculateDeferredFlags\<close> emits the recorded computation. Arguments of a C++ call
  are emitted from left to right.
\<close>

section \<open>Flag locations\<close>

definition CF_LOC :: nat where "CF_LOC = 0"
definition PF_LOC :: nat where "PF_LOC = 2"
definition AF_LOC :: nat where "AF_LOC = 4"
definition ZF_LOC :: nat where "ZF_LOC = 6"
definition SF_LOC :: nat where "SF_LOC = 7"
definition TF_LOC :: nat where "TF_LOC = 8"
definition IF_LOC :: nat where "IF_LOC = 9"
definition DF_LOC :: nat where "DF_LOC = 10"
definition OF_LOC :: nat where "OF_LOC = 11"
definition IOPL_LOC :: nat where "IOPL_LOC = 12"
definition NT_LOC :: nat where "NT_LOC = 14"
definition RF_LOC :: nat where "RF_LOC = 16"
definition VM_LOC :: nat where "VM_LOC = 17"
definition AC_LOC :: nat where "AC_LOC = 18"
definition VIF_LOC :: nat where "VIF_LOC = 19"
definition VIP_LOC :: nat where "VIP_LOC = 20"
definition ID_LOC :: nat where "ID_LOC = 21"

lemmas flag_locs =
  CF_LOC_def PF_LOC_def AF_LOC_def ZF_LOC_def SF_LOC_def TF_LOC_def IF_LOC_def DF_LOC_def OF_LOC_def
  IOPL_LOC_def NT_LOC_def RF_LOC_def VM_LOC_def AC_LOC_def VIF_LOC_def VIP_LOC_def ID_LOC_def

definition FlagOffsets :: "nat list" where
  "FlagOffsets = [CF_LOC, PF_LOC, AF_LOC, ZF_LOC, SF_LOC, TF_LOC, IF_LOC, DF_LOC, OF_LOC, IOPL_LOC,
     NT_LOC, RF_LOC, VM_LOC, AC_LOC, VIF_LOC, VIP_LOC, ID_LOC]"

section \<open>Single flags\<close>

definition SetRFLAG :: "node_id \<Rightarrow> nat \<Rightarrow> unit emitter" where
  "SetRFLAG Value BitOffset = do {
     modify_builder (\<lambda>B. B\<lparr>flagsOp := SF_Nothing\<rparr>);
     b \<leftarrow> e_Bfe 1 0 Value;
     e_StoreFlag b BitOffset }"

definition GetRFLAG :: "nat \<Rightarrow> node_id emitter" where
  "GetRFLAG BitOffset = e_LoadFlag BitOffset"

definition SetRFLAG_const :: "nat \<Rightarrow> unit emitter" where
  "SetRFLAG_const BitOffset = do { z \<leftarrow> e_Constant 0; SetRFLAG z BitOffset }"

text \<open>The blocks that several \<^verbatim>\<open>CalculcateFlags_*\<close> functions repeat.\<close>

definition flag_AF :: "node_id \<Rightarrow> node_id \<Rightarrow> node_id \<Rightarrow> unit emitter" where
  "flag_AF Res Src1 Src2 = do {
     x \<leftarrow> e_Bin OP_XOR Src1 Src2;
     y \<leftarrow> e_Bin OP_XOR x Res;
     AFRes \<leftarrow> e_Bfe 1 4 y;
     SetRFLAG AFRes AF_LOC }"

definition flag_SF :: "nat \<Rightarrow> node_id \<Rightarrow> unit emitter" where
  "flag_SF SrcSize Res = do {
     SignBitConst \<leftarrow> e_Constant (word_of_nat (SrcSize * 8 - 1));
     LshrOp \<leftarrow> e_Bin OP_LSHR Res SignBitConst;
     SetRFLAG LshrOp SF_LOC }"

definition flag_PF :: "node_id \<Rightarrow> unit emitter" where
  "flag_PF Res = do {
     B \<leftarrow> get_builder;
     (if \<not> ABINoPF B then do {
        EightBitMask \<leftarrow> e_Constant 0xFF;
        a \<leftarrow> e_Bin OP_AND Res EightBitMask;
        PopCountOp \<leftarrow> e_Un OP_POPCOUNT a;
        one \<leftarrow> e_Constant 1;
        XorOp \<leftarrow> e_Bin OP_XOR PopCountOp one;
        SetRFLAG XorOp PF_LOC }
      else e_InvalidateFlags (push_bit PF_LOC 1)) }"

text \<open>\<^verbatim>\<open>_Select(COND_EQ, Res, _Constant(0), _Constant(1), _Constant(0))\<close>.\<close>

definition flag_ZF :: "node_id \<Rightarrow> unit emitter" where
  "flag_ZF Res = do {
     z \<leftarrow> e_Constant 0;
     one \<leftarrow> e_Constant 1;
     z' \<leftarrow> e_Constant 0;
     SelectOp \<leftarrow> e_Select COND_EQ Res z one z';
     SetRFLAG SelectOp ZF_LOC }"

definition flag_PF_zero :: "unit emitter" where
  "flag_PF_zero = do {
     B \<leftarrow> get_builder;
     (if ABINoPF B then e_InvalidateFlags (push_bit PF_LOC 1) else SetRFLAG_const PF_LOC) }"

definition flag_PF_node :: "node_id \<Rightarrow> unit emitter" where
  "flag_PF_node Zero = do {
     B \<leftarrow> get_builder;
     (if ABINoPF B then e_InvalidateFlags (push_bit PF_LOC 1) else SetRFLAG Zero PF_LOC) }"

section \<open>Addition and subtraction\<close>

definition flag_OF_add :: "nat \<Rightarrow> node_id \<Rightarrow> node_id \<Rightarrow> node_id \<Rightarrow> unit emitter" where
  "flag_OF_add SrcSize Res Src1 Src2 = do {
     NegOne \<leftarrow> e_Constant (NOT 0);
     x \<leftarrow> e_Bin OP_XOR Src1 Src2;
     XorOp1 \<leftarrow> e_Bin OP_XOR x NegOne;
     XorOp2 \<leftarrow> e_Bin OP_XOR Res Src1;
     AndOp1 \<leftarrow> e_Bin OP_AND XorOp1 XorOp2;
     (if SrcSize \<in> {1, 2, 4, 8} then do {
        b \<leftarrow> e_Bfe 1 (SrcSize * 8 - 1) AndOp1;
        SetRFLAG b OF_LOC }
      else SetRFLAG AndOp1 OF_LOC) }"

definition flag_OF_sbb :: "nat \<Rightarrow> node_id \<Rightarrow> node_id \<Rightarrow> node_id \<Rightarrow> unit emitter" where
  "flag_OF_sbb SrcSize Res Src1 Src2 = do {
     XorOp1 \<leftarrow> e_Bin OP_XOR Src1 Src2;
     XorOp2 \<leftarrow> e_Bin OP_XOR Res Src1;
     AndOp1 \<leftarrow> e_Bin OP_AND XorOp1 XorOp2;
     (if SrcSize \<in> {1, 2, 4, 8} then do {
        b \<leftarrow> e_Bfe 1 (SrcSize * 8 - 1) AndOp1;
        SetRFLAG b OF_LOC }
      else SetRFLAG AndOp1 OF_LOC) }"

definition flag_CF_carry ::
  "CondClass \<Rightarrow> CondClass \<Rightarrow> node_id \<Rightarrow> node_id \<Rightarrow> node_id \<Rightarrow> unit emitter" where
  "flag_CF_carry Strict Weak Res Src CF = do {
     o1 \<leftarrow> e_Constant 1;
     z1 \<leftarrow> e_Constant 0;
     SelectOpLT \<leftarrow> e_Select Strict Res Src o1 z1;
     o2 \<leftarrow> e_Constant 1;
     z2 \<leftarrow> e_Constant 0;
     SelectOpLE \<leftarrow> e_Select Weak Res Src o2 z2;
     o3 \<leftarrow> e_Constant 1;
     SelectCF \<leftarrow> e_Select COND_EQ CF o3 SelectOpLE SelectOpLT;
     SetRFLAG SelectCF CF_LOC }"

definition CalculcateFlags_ADC ::
  "nat \<Rightarrow> node_id \<Rightarrow> node_id \<Rightarrow> node_id \<Rightarrow> node_id \<Rightarrow> unit emitter" where
  "CalculcateFlags_ADC SrcSize Res Src1 Src2 CF = do {
     flag_AF Res Src1 Src2;
     flag_SF SrcSize Res;
     flag_PF Res;
     flag_ZF Res;
     flag_CF_carry COND_ULT COND_ULE Res Src2 CF;
     flag_OF_add SrcSize Res Src1 Src2 }"

definition CalculcateFlags_SBB ::
  "nat \<Rightarrow> node_id \<Rightarrow> node_id \<Rightarrow> node_id \<Rightarrow> node_id \<Rightarrow> unit emitter" where
  "CalculcateFlags_SBB SrcSize Res Src1 Src2 CF = do {
     flag_AF Res Src1 Src2;
     flag_SF SrcSize Res;
     flag_PF Res;
     flag_ZF Res;
     flag_CF_carry COND_UGT COND_UGE Res Src1 CF;
     flag_OF_sbb SrcSize Res Src1 Src2 }"

definition flag_ZF_sub :: "node_id \<Rightarrow> unit emitter" where
  "flag_ZF_sub Res = do {
     ZeroConst \<leftarrow> e_Constant 0;
     OneConst \<leftarrow> e_Constant 1;
     SelectOp \<leftarrow> e_Select COND_EQ Res ZeroConst OneConst ZeroConst;
     SetRFLAG SelectOp ZF_LOC }"

definition flag_CF_sub :: "node_id \<Rightarrow> node_id \<Rightarrow> unit emitter" where
  "flag_CF_sub Src1 Src2 = do {
     ZeroConst \<leftarrow> e_Constant 0;
     OneConst \<leftarrow> e_Constant 1;
     SelectOp \<leftarrow> e_Select COND_ULT Src1 Src2 OneConst ZeroConst;
     SetRFLAG SelectOp CF_LOC }"

definition flag_OF_sub :: "nat \<Rightarrow> node_id \<Rightarrow> node_id \<Rightarrow> node_id \<Rightarrow> unit emitter" where
  "flag_OF_sub SrcSize Res Src1 Src2 = do {
     XorOp1 \<leftarrow> e_Bin OP_XOR Src1 Src2;
     XorOp2 \<leftarrow> e_Bin OP_XOR Res Src1;
     FinalAnd \<leftarrow> e_Bin OP_AND XorOp1 XorOp2;
     FinalAnd' \<leftarrow> e_Bfe 1 (SrcSize * 8 - 1) FinalAnd;
     SetRFLAG FinalAnd' OF_LOC }"

definition CalculcateFlags_SUB ::
  "nat \<Rightarrow> node_id \<Rightarrow> node_id \<Rightarrow> node_id \<Rightarrow> bool \<Rightarrow> unit emitter" where
  "CalculcateFlags_SUB SrcSize Res Src1 Src2 UpdateCF = do {
     flag_AF Res Src1 Src2;
     flag_SF SrcSize Res;
     flag_PF Res;
     flag_ZF_sub Res;
     (if UpdateCF then flag_CF_sub Src1 Src2 else State_Monad.return ());
     flag_OF_sub SrcSize Res Src1 Src2 }"

definition flag_CF_add :: "node_id \<Rightarrow> node_id \<Rightarrow> unit emitter" where
  "flag_CF_add Res Src2 = do {
     one \<leftarrow> e_Constant 1;
     z \<leftarrow> e_Constant 0;
     SelectOp \<leftarrow> e_Select COND_ULT Res Src2 one z;
     SetRFLAG SelectOp CF_LOC }"

definition CalculcateFlags_ADD ::
  "nat \<Rightarrow> node_id \<Rightarrow> node_id \<Rightarrow> node_id \<Rightarrow> bool \<Rightarrow> unit emitter" where
  "CalculcateFlags_ADD SrcSize Res Src1 Src2 UpdateCF = do {
     flag_AF Res Src1 Src2;
     flag_SF SrcSize Res;
     flag_PF Res;
     flag_ZF Res;
     (if UpdateCF then flag_CF_add Res Src2 else State_Monad.return ());
     flag_OF_add SrcSize Res Src1 Src2 }"

section \<open>Multiplication and logic\<close>

definition flag_CF_OF_mul :: "nat \<Rightarrow> node_id \<Rightarrow> node_id \<Rightarrow> unit emitter" where
  "flag_CF_OF_mul SrcSize Res High = do {
     SignBit \<leftarrow> e_Sbfe 1 (SrcSize * 8 - 1) Res;
     z \<leftarrow> e_Constant 0;
     one \<leftarrow> e_Constant 1;
     SelectOp \<leftarrow> e_Select COND_EQ High SignBit z one;
     SetRFLAG SelectOp CF_LOC;
     SetRFLAG SelectOp OF_LOC }"

definition CalculcateFlags_MUL :: "nat \<Rightarrow> node_id \<Rightarrow> node_id \<Rightarrow> unit emitter" where
  "CalculcateFlags_MUL SrcSize Res High = do {
     SetRFLAG_const PF_LOC;
     SetRFLAG_const AF_LOC;
     SetRFLAG_const ZF_LOC;
     SetRFLAG_const SF_LOC;
     flag_CF_OF_mul SrcSize Res High }"

definition flag_CF_OF_umul :: "node_id \<Rightarrow> unit emitter" where
  "flag_CF_OF_umul High = do {
     z \<leftarrow> e_Constant 0;
     z' \<leftarrow> e_Constant 0;
     one \<leftarrow> e_Constant 1;
     SelectOp \<leftarrow> e_Select COND_EQ High z z' one;
     SetRFLAG SelectOp CF_LOC;
     SetRFLAG SelectOp OF_LOC }"

definition CalculcateFlags_UMUL :: "node_id \<Rightarrow> unit emitter" where
  "CalculcateFlags_UMUL High = do {
     SetRFLAG_const AF_LOC;
     SetRFLAG_const SF_LOC;
     SetRFLAG_const PF_LOC;
     SetRFLAG_const ZF_LOC;
     flag_CF_OF_umul High }"

definition CalculcateFlags_Logical :: "nat \<Rightarrow> node_id \<Rightarrow> node_id \<Rightarrow> node_id \<Rightarrow> unit emitter" where
  "CalculcateFlags_Logical SrcSize Res Src1 Src2 = do {
     SetRFLAG_const AF_LOC;
     flag_SF SrcSize Res;
     flag_PF Res;
     flag_ZF Res;
     SetRFLAG_const CF_LOC;
     SetRFLAG_const OF_LOC }"

section \<open>Shifts by a register amount\<close>

text \<open>
  \<^verbatim>\<open>COND_FLAG_SET(cond, flag, newflag)\<close> keeps the flag when the amount is zero. The macro expands
  \<^verbatim>\<open>newflag\<close> inside the call to \<^verbatim>\<open>_Select\<close>, so a \<^verbatim>\<open>_Constant(0)\<close> given for it is emitted there.
\<close>

definition COND_FLAG_SET :: "node_id \<Rightarrow> nat \<Rightarrow> node_id \<Rightarrow> unit emitter" where
  "COND_FLAG_SET cond flag newflag = do {
     oldflag \<leftarrow> GetRFLAG flag;
     z \<leftarrow> e_Constant 0;
     newval \<leftarrow> e_Select COND_EQ cond z oldflag newflag;
     SetRFLAG newval flag }"

definition COND_FLAG_SET_zero :: "node_id \<Rightarrow> nat \<Rightarrow> unit emitter" where
  "COND_FLAG_SET_zero cond flag = do {
     oldflag \<leftarrow> GetRFLAG flag;
     z \<leftarrow> e_Constant 0;
     newflag \<leftarrow> e_Constant 0;
     newval \<leftarrow> e_Select COND_EQ cond z oldflag newflag;
     SetRFLAG newval flag }"

definition cond_PF :: "node_id \<Rightarrow> node_id \<Rightarrow> unit emitter" where
  "cond_PF Res Src2 = do {
     B \<leftarrow> get_builder;
     (if \<not> ABINoPF B then do {
        EightBitMask \<leftarrow> e_Constant 0xFF;
        a \<leftarrow> e_Bin OP_AND Res EightBitMask;
        PopCountOp \<leftarrow> e_Un OP_POPCOUNT a;
        one \<leftarrow> e_Constant 1;
        XorOp \<leftarrow> e_Bin OP_XOR PopCountOp one;
        COND_FLAG_SET Src2 PF_LOC XorOp }
      else e_InvalidateFlags (push_bit PF_LOC 1)) }"

definition cond_ZF :: "node_id \<Rightarrow> node_id \<Rightarrow> unit emitter" where
  "cond_ZF Res Src2 = do {
     z \<leftarrow> e_Constant 0;
     one \<leftarrow> e_Constant 1;
     z' \<leftarrow> e_Constant 0;
     SelectOp \<leftarrow> e_Select COND_EQ Res z one z';
     COND_FLAG_SET Src2 ZF_LOC SelectOp }"

definition cond_SF :: "nat \<Rightarrow> node_id \<Rightarrow> node_id \<Rightarrow> unit emitter" where
  "cond_SF SrcSize Res Src2 = do {
     val \<leftarrow> e_Bfe 1 (SrcSize * 8 - 1) Res;
     COND_FLAG_SET Src2 SF_LOC val }"

definition cond_OF_xor :: "nat \<Rightarrow> node_id \<Rightarrow> node_id \<Rightarrow> node_id \<Rightarrow> unit emitter" where
  "cond_OF_xor SrcSize Res Src1 Src2 = do {
     x \<leftarrow> e_Bin OP_XOR Src1 Res;
     val \<leftarrow> e_Bfe 1 (SrcSize * 8 - 1) x;
     COND_FLAG_SET Src2 OF_LOC val }"

definition cond_CF_left :: "nat \<Rightarrow> node_id \<Rightarrow> node_id \<Rightarrow> unit emitter" where
  "cond_CF_left SrcSize Src1 Src2 = do {
     sz \<leftarrow> e_Constant (word_of_nat (SrcSize * 8));
     ShiftAmt \<leftarrow> e_Bin OP_SUB sz Src2;
     l \<leftarrow> e_Bin OP_LSHR Src1 ShiftAmt;
     one \<leftarrow> e_Constant 1;
     LastBit \<leftarrow> e_Bin OP_AND l one;
     COND_FLAG_SET Src2 CF_LOC LastBit }"

definition cond_CF_right :: "node_id \<Rightarrow> node_id \<Rightarrow> unit emitter" where
  "cond_CF_right Src1 Src2 = do {
     one \<leftarrow> e_Constant 1;
     ShiftAmt \<leftarrow> e_Bin OP_SUB Src2 one;
     l \<leftarrow> e_Bin OP_LSHR Src1 ShiftAmt;
     one' \<leftarrow> e_Constant 1;
     LastBit \<leftarrow> e_Bin OP_AND l one';
     COND_FLAG_SET Src2 CF_LOC LastBit }"

definition CalculcateFlags_ShiftLeft :: "nat \<Rightarrow> node_id \<Rightarrow> node_id \<Rightarrow> node_id \<Rightarrow> unit emitter" where
  "CalculcateFlags_ShiftLeft SrcSize Res Src1 Src2 = do {
     cond_CF_left SrcSize Src1 Src2;
     cond_PF Res Src2;
     COND_FLAG_SET_zero Src2 AF_LOC;
     cond_ZF Res Src2;
     cond_SF SrcSize Res Src2;
     cond_OF_xor SrcSize Res Src1 Src2 }"

definition CalculcateFlags_ShiftRight :: "nat \<Rightarrow> node_id \<Rightarrow> node_id \<Rightarrow> node_id \<Rightarrow> unit emitter" where
  "CalculcateFlags_ShiftRight SrcSize Res Src1 Src2 = do {
     cond_CF_right Src1 Src2;
     cond_PF Res Src2;
     COND_FLAG_SET_zero Src2 AF_LOC;
     cond_ZF Res Src2;
     cond_SF SrcSize Res Src2;
     cond_OF_xor SrcSize Res Src1 Src2 }"

definition cond_SF_sar :: "nat \<Rightarrow> node_id \<Rightarrow> node_id \<Rightarrow> unit emitter" where
  "cond_SF_sar SrcSize Res Src2 = do {
     SignBitConst \<leftarrow> e_Constant (word_of_nat (SrcSize * 8 - 1));
     LshrOp \<leftarrow> e_Bin OP_LSHR Res SignBitConst;
     COND_FLAG_SET Src2 SF_LOC LshrOp }"

definition CalculcateFlags_SignShiftRight :: "nat \<Rightarrow> node_id \<Rightarrow> node_id \<Rightarrow> node_id \<Rightarrow> unit emitter" where
  "CalculcateFlags_SignShiftRight SrcSize Res Src1 Src2 = do {
     cond_CF_right Src1 Src2;
     cond_PF Res Src2;
     COND_FLAG_SET_zero Src2 AF_LOC;
     cond_ZF Res Src2;
     cond_SF_sar SrcSize Res Src2;
     COND_FLAG_SET_zero Src2 OF_LOC }"

section \<open>Shifts by an immediate\<close>

text \<open>The position of a bit is passed as a \<^verbatim>\<open>uint8_t\<close>, hence the subtraction modulo 256.\<close>

definition sub_u8 :: "nat \<Rightarrow> nat \<Rightarrow> nat" where
  "sub_u8 a b = nat ((int a - int b) mod 256)"

definition flag_bit :: "nat \<Rightarrow> node_id \<Rightarrow> nat \<Rightarrow> unit emitter" where
  "flag_bit lsb Src loc = do { b \<leftarrow> e_Bfe 1 lsb Src; SetRFLAG b loc }"

definition flag_SF_OF_shl :: "nat \<Rightarrow> node_id \<Rightarrow> node_id \<Rightarrow> nat \<Rightarrow> unit emitter" where
  "flag_SF_OF_shl SrcSize Res Src1 Shift = do {
     LshrOp \<leftarrow> e_Bfe 1 (SrcSize * 8 - 1) Res;
     SetRFLAG LshrOp SF_LOC;
     (if Shift = 1 then do {
        SourceBit \<leftarrow> e_Bfe 1 (SrcSize * 8 - 1) Src1;
        x \<leftarrow> e_Bin OP_XOR SourceBit LshrOp;
        SetRFLAG x OF_LOC }
      else State_Monad.return ()) }"

definition CalculcateFlags_ShiftLeftImmediate :: "nat \<Rightarrow> node_id \<Rightarrow> node_id \<Rightarrow> nat \<Rightarrow> unit emitter" where
  "CalculcateFlags_ShiftLeftImmediate SrcSize Res Src1 Shift =
     (if Shift = 0 then State_Monad.return () else do {
        flag_bit (sub_u8 (SrcSize * 8) Shift) Src1 CF_LOC;
        flag_PF Res;
        SetRFLAG_const AF_LOC;
        flag_ZF Res;
        flag_SF_OF_shl SrcSize Res Src1 Shift })"

definition CalculcateFlags_SignShiftRightImmediate ::
  "nat \<Rightarrow> node_id \<Rightarrow> node_id \<Rightarrow> nat \<Rightarrow> unit emitter" where
  "CalculcateFlags_SignShiftRightImmediate SrcSize Res Src1 Shift =
     (if Shift = 0 then State_Monad.return () else do {
        flag_bit (sub_u8 Shift 1) Src1 CF_LOC;
        flag_PF Res;
        SetRFLAG_const AF_LOC;
        flag_ZF Res;
        flag_SF SrcSize Res;
        (if Shift = 1 then SetRFLAG_const OF_LOC else State_Monad.return ()) })"

definition CalculcateFlags_ShiftRightImmediate ::
  "nat \<Rightarrow> node_id \<Rightarrow> node_id \<Rightarrow> nat \<Rightarrow> unit emitter" where
  "CalculcateFlags_ShiftRightImmediate SrcSize Res Src1 Shift =
     (if Shift = 0 then State_Monad.return () else do {
        flag_bit (sub_u8 Shift 1) Src1 CF_LOC;
        flag_PF Res;
        SetRFLAG_const AF_LOC;
        flag_ZF Res;
        flag_SF SrcSize Res;
        (if Shift = 1 then flag_bit (SrcSize * 8 - 1) Src1 OF_LOC else State_Monad.return ()) })"

section \<open>Rotates\<close>

definition cond_rotate :: "node_id \<Rightarrow> nat \<Rightarrow> node_id \<Rightarrow> unit emitter" where
  "cond_rotate Src2 flag New = do {
     Old \<leftarrow> GetRFLAG flag;
     z \<leftarrow> e_Constant 0;
     v \<leftarrow> e_Select COND_EQ Src2 z Old New;
     SetRFLAG v flag }"

definition CalculcateFlags_RotateRight :: "nat \<Rightarrow> node_id \<Rightarrow> node_id \<Rightarrow> node_id \<Rightarrow> unit emitter" where
  "CalculcateFlags_RotateRight SrcSize Res Src1 Src2 = do {
     NewCF \<leftarrow> e_Bfe 1 (SrcSize * 8 - 1) Res;
     cond_rotate Src2 CF_LOC NewCF;
     OldOF \<leftarrow> GetRFLAG OF_LOC;
     b \<leftarrow> e_Bfe 1 (SrcSize * 8 - 2) Res;
     NewOF \<leftarrow> e_Bin OP_XOR b NewCF;
     z \<leftarrow> e_Constant 0;
     v \<leftarrow> e_Select COND_EQ Src2 z OldOF NewOF;
     SetRFLAG v OF_LOC }"

definition CalculcateFlags_RotateLeft :: "nat \<Rightarrow> node_id \<Rightarrow> node_id \<Rightarrow> node_id \<Rightarrow> unit emitter" where
  "CalculcateFlags_RotateLeft SrcSize Res Src1 Src2 = do {
     NewCF \<leftarrow> e_Bfe 1 0 Res;
     cond_rotate Src2 CF_LOC NewCF;
     OldOF \<leftarrow> GetRFLAG OF_LOC;
     b \<leftarrow> e_Bfe 1 (SrcSize * 8 - 1) Res;
     NewOF \<leftarrow> e_Bin OP_XOR b NewCF;
     z \<leftarrow> e_Constant 0;
     v \<leftarrow> e_Select COND_EQ Src2 z OldOF NewOF;
     SetRFLAG v OF_LOC }"

definition CalculcateFlags_RotateRightImmediate ::
  "nat \<Rightarrow> node_id \<Rightarrow> node_id \<Rightarrow> nat \<Rightarrow> unit emitter" where
  "CalculcateFlags_RotateRightImmediate SrcSize Res Src1 Shift =
     (if Shift = 0 then State_Monad.return () else do {
        NewCF \<leftarrow> e_Bfe 1 (sub_u8 (SrcSize * 8) Shift) Src1;
        SetRFLAG NewCF CF_LOC;
        (if Shift = 1 then do {
           b \<leftarrow> e_Bfe 1 (SrcSize * 8 - 1) Res;
           x \<leftarrow> e_Bin OP_XOR b NewCF;
           SetRFLAG x OF_LOC }
         else State_Monad.return ()) })"

definition flag_OF_rol :: "nat \<Rightarrow> node_id \<Rightarrow> unit emitter" where
  "flag_OF_rol SrcSize Src1 = do {
     b1 \<leftarrow> e_Bfe 1 (SrcSize * 8 - 1) Src1;
     b2 \<leftarrow> e_Bfe 1 (SrcSize * 8 - 2) Src1;
     x \<leftarrow> e_Bin OP_XOR b1 b2;
     SetRFLAG x OF_LOC }"

definition CalculcateFlags_RotateLeftImmediate ::
  "nat \<Rightarrow> node_id \<Rightarrow> node_id \<Rightarrow> nat \<Rightarrow> unit emitter" where
  "CalculcateFlags_RotateLeftImmediate SrcSize Res Src1 Shift =
     (if Shift = 0 then State_Monad.return () else do {
        flag_bit (sub_u8 Shift 0) Src1 CF_LOC;
        (if Shift = 1 then flag_OF_rol SrcSize Src1 else State_Monad.return ()) })"

section \<open>Floating-point comparison and bit manipulation\<close>

definition CalculcateFlags_FCMP :: "nat \<Rightarrow> node_id \<Rightarrow> node_id \<Rightarrow> node_id \<Rightarrow> unit emitter" where
  "CalculcateFlags_FCMP SrcSize Res Src1 Src2 = do {
     HostFlag_CF \<leftarrow> e_GetHostFlag Res FCMP_FLAG_LT;
     HostFlag_ZF \<leftarrow> e_GetHostFlag Res FCMP_FLAG_EQ;
     HostFlag_Unordered \<leftarrow> e_GetHostFlag Res FCMP_FLAG_UNORDERED;
     SetRFLAG HostFlag_CF CF_LOC;
     SetRFLAG HostFlag_ZF ZF_LOC;
     SetRFLAG HostFlag_Unordered PF_LOC;
     ZeroConst \<leftarrow> e_Constant 0;
     SetRFLAG ZeroConst AF_LOC;
     SetRFLAG ZeroConst SF_LOC;
     SetRFLAG ZeroConst OF_LOC }"

definition CalculcateFlags_BEXTR :: "node_id \<Rightarrow> unit emitter" where
  "CalculcateFlags_BEXTR Src = do {
     SetRFLAG_const CF_LOC;
     SetRFLAG_const OF_LOC;
     SetRFLAG_const AF_LOC;
     SetRFLAG_const SF_LOC;
     flag_PF_zero;
     flag_ZF Src }"

text \<open>The part \<^verbatim>\<open>Zero\<close>, \<^verbatim>\<open>One\<close>, OF, AF, PF that the bit-manipulation functions start with.\<close>

definition zero_OF_AF_PF :: "node_id \<Rightarrow> unit emitter" where
  "zero_OF_AF_PF Zero = do {
     SetRFLAG Zero OF_LOC;
     SetRFLAG Zero AF_LOC;
     flag_PF_node Zero }"

definition select_flag :: "CondClass \<Rightarrow> node_id \<Rightarrow> node_id \<Rightarrow> node_id \<Rightarrow> node_id \<Rightarrow> nat \<Rightarrow> unit emitter" where
  "select_flag cc a b t f loc = do { s \<leftarrow> e_Select cc a b t f; SetRFLAG s loc }"

definition CalculcateFlags_BLSI :: "nat \<Rightarrow> node_id \<Rightarrow> unit emitter" where
  "CalculcateFlags_BLSI SrcSize Src = do {
     Zero \<leftarrow> e_Constant 0;
     One \<leftarrow> e_Constant 1;
     zero_OF_AF_PF Zero;
     select_flag COND_EQ Src Zero One Zero ZF_LOC;
     select_flag COND_EQ Src Zero Zero One CF_LOC;
     flag_SF SrcSize Src }"

definition CalculcateFlags_BLSMSK :: "node_id \<Rightarrow> unit emitter" where
  "CalculcateFlags_BLSMSK Src = do {
     Zero \<leftarrow> e_Constant 0;
     One \<leftarrow> e_Constant 1;
     SetRFLAG Zero ZF_LOC;
     zero_OF_AF_PF Zero;
     select_flag COND_EQ Src Zero Zero One CF_LOC }"

definition CalculcateFlags_BLSR :: "nat \<Rightarrow> node_id \<Rightarrow> node_id \<Rightarrow> unit emitter" where
  "CalculcateFlags_BLSR SrcSize Result Src = do {
     Zero \<leftarrow> e_Constant 0;
     One \<leftarrow> e_Constant 1;
     zero_OF_AF_PF Zero;
     select_flag COND_EQ Result Zero One Zero ZF_LOC;
     select_flag COND_EQ Src Zero Zero One CF_LOC;
     flag_SF SrcSize Result }"

definition CalculcateFlags_POPCOUNT :: "node_id \<Rightarrow> unit emitter" where
  "CalculcateFlags_POPCOUNT Src = do {
     Zero \<leftarrow> e_Constant 0;
     one \<leftarrow> e_Constant 1;
     ZFResult \<leftarrow> e_Select COND_EQ Src Zero one Zero;
     SetRFLAG Zero CF_LOC;
     SetRFLAG Zero PF_LOC;
     SetRFLAG Zero AF_LOC;
     SetRFLAG ZFResult ZF_LOC;
     SetRFLAG Zero SF_LOC;
     SetRFLAG Zero OF_LOC }"

definition CalculcateFlags_BZHI :: "nat \<Rightarrow> node_id \<Rightarrow> node_id \<Rightarrow> unit emitter" where
  "CalculcateFlags_BZHI SrcSize Result Src = do {
     Bounds \<leftarrow> e_Constant (word_of_nat (SrcSize * 8 - 1));
     Zero \<leftarrow> e_Constant 0;
     One \<leftarrow> e_Constant 1;
     zero_OF_AF_PF Zero;
     select_flag COND_EQ Result Zero One Zero ZF_LOC;
     select_flag COND_UGT Src Bounds One Zero CF_LOC;
     do { SFOp \<leftarrow> e_Bin OP_LSHR Result Bounds; SetRFLAG SFOp SF_LOC } }"

definition CalculcateFlags_TZCNT :: "node_id \<Rightarrow> unit emitter" where
  "CalculcateFlags_TZCNT Src = do {
     Zero \<leftarrow> e_Constant 0;
     one \<leftarrow> e_Constant 1;
     ZFResult \<leftarrow> e_Select COND_EQ Src Zero one Zero;
     SetRFLAG ZFResult CF_LOC;
     b \<leftarrow> e_Bfe 1 0 Src;
     SetRFLAG b ZF_LOC }"

definition CalculcateFlags_LZCNT :: "nat \<Rightarrow> node_id \<Rightarrow> unit emitter" where
  "CalculcateFlags_LZCNT SrcSize Src = do {
     Zero \<leftarrow> e_Constant 0;
     one \<leftarrow> e_Constant 1;
     ZFResult \<leftarrow> e_Select COND_EQ Src Zero one Zero;
     SetRFLAG ZFResult CF_LOC;
     b \<leftarrow> e_Bfe 1 (SrcSize * 8 - 1) Src;
     SetRFLAG b ZF_LOC }"

definition CalculcateFlags_BITSELECT :: "node_id \<Rightarrow> unit emitter" where
  "CalculcateFlags_BITSELECT Src = do {
     ZeroConst \<leftarrow> e_Constant 0;
     OneConst \<leftarrow> e_Constant 1;
     select_flag COND_EQ Src ZeroConst OneConst ZeroConst ZF_LOC }"

definition CalculcateFlags_RDRAND :: "node_id \<Rightarrow> unit emitter" where
  "CalculcateFlags_RDRAND Src = do {
     ZeroConst \<leftarrow> e_Constant 0;
     SetRFLAG ZeroConst OF_LOC;
     SetRFLAG ZeroConst SF_LOC;
     SetRFLAG ZeroConst ZF_LOC;
     SetRFLAG ZeroConst AF_LOC;
     SetRFLAG ZeroConst PF_LOC;
     SetRFLAG Src CF_LOC }"

section \<open>Deferred flags\<close>

fun calculate_flags :: "DeferredFlagData \<Rightarrow> unit emitter" where
  "calculate_flags TYPE_NONE = State_Monad.return ()"
| "calculate_flags (TYPE_ADC sz r a b cf) = CalculcateFlags_ADC sz r a b cf"
| "calculate_flags (TYPE_SBB sz r a b cf) = CalculcateFlags_SBB sz r a b cf"
| "calculate_flags (TYPE_SUB sz r a b u) = CalculcateFlags_SUB sz r a b u"
| "calculate_flags (TYPE_ADD sz r a b u) = CalculcateFlags_ADD sz r a b u"
| "calculate_flags (TYPE_MUL sz r h) = CalculcateFlags_MUL sz r h"
| "calculate_flags (TYPE_UMUL r) = CalculcateFlags_UMUL r"
| "calculate_flags (TYPE_LOGICAL sz r a b) = CalculcateFlags_Logical sz r a b"
| "calculate_flags (TYPE_LSHL sz r a b) = CalculcateFlags_ShiftLeft sz r a b"
| "calculate_flags (TYPE_LSHLI sz r a k) = CalculcateFlags_ShiftLeftImmediate sz r a k"
| "calculate_flags (TYPE_LSHR sz r a b) = CalculcateFlags_ShiftRight sz r a b"
| "calculate_flags (TYPE_LSHRI sz r a k) = CalculcateFlags_ShiftRightImmediate sz r a k"
| "calculate_flags (TYPE_ASHR sz r a b) = CalculcateFlags_SignShiftRight sz r a b"
| "calculate_flags (TYPE_ASHRI sz r a k) = CalculcateFlags_SignShiftRightImmediate sz r a k"
| "calculate_flags (TYPE_ROR sz r a b) = CalculcateFlags_RotateRight sz r a b"
| "calculate_flags (TYPE_RORI sz r a k) = CalculcateFlags_RotateRightImmediate sz r a k"
| "calculate_flags (TYPE_ROL sz r a b) = CalculcateFlags_RotateLeft sz r a b"
| "calculate_flags (TYPE_ROLI sz r a k) = CalculcateFlags_RotateLeftImmediate sz r a k"
| "calculate_flags (TYPE_FCMP sz r a b) = CalculcateFlags_FCMP sz r a b"
| "calculate_flags (TYPE_BEXTR r) = CalculcateFlags_BEXTR r"
| "calculate_flags (TYPE_BLSI sz r) = CalculcateFlags_BLSI sz r"
| "calculate_flags (TYPE_BLSMSK r) = CalculcateFlags_BLSMSK r"
| "calculate_flags (TYPE_BLSR sz r a) = CalculcateFlags_BLSR sz r a"
| "calculate_flags (TYPE_POPCOUNT r) = CalculcateFlags_POPCOUNT r"
| "calculate_flags (TYPE_BZHI sz r a) = CalculcateFlags_BZHI sz r a"
| "calculate_flags (TYPE_TZCNT r) = CalculcateFlags_TZCNT r"
| "calculate_flags (TYPE_LZCNT sz r) = CalculcateFlags_LZCNT sz r"
| "calculate_flags (TYPE_BITSELECT r) = CalculcateFlags_BITSELECT r"
| "calculate_flags (TYPE_RDRAND r) = CalculcateFlags_RDRAND r"

definition InvalidateDeferredFlags :: "unit emitter" where
  "InvalidateDeferredFlags = modify_builder (\<lambda>B. B\<lparr>CurrentDeferredFlags := TYPE_NONE\<rparr>)"

definition IsDeferredFlagsStored :: "builder \<Rightarrow> bool" where
  "IsDeferredFlagsStored B \<longleftrightarrow> CurrentDeferredFlags B = TYPE_NONE"

definition CalculateDeferredFlags :: "unit emitter" where
  "CalculateDeferredFlags = do {
     B \<leftarrow> get_builder;
     (if CurrentDeferredFlags B = TYPE_NONE then State_Monad.return () else do {
        calculate_flags (CurrentDeferredFlags B);
        InvalidateDeferredFlags }) }"

definition defer_flags :: "DeferredFlagData \<Rightarrow> unit emitter" where
  "defer_flags d = modify_builder (\<lambda>B. B\<lparr>CurrentDeferredFlags := d\<rparr>)"

text \<open>\<open>SrcSize\<close> stands for \<^verbatim>\<open>GetSrcSize(Op)\<close> of the decoded operation.\<close>

definition GenerateFlags_ADC ::
  "nat \<Rightarrow> node_id \<Rightarrow> node_id \<Rightarrow> node_id \<Rightarrow> node_id \<Rightarrow> unit emitter" where
  "GenerateFlags_ADC SrcSize Res Src1 Src2 CF = defer_flags (TYPE_ADC SrcSize Res Src1 Src2 CF)"

definition GenerateFlags_SBB ::
  "nat \<Rightarrow> node_id \<Rightarrow> node_id \<Rightarrow> node_id \<Rightarrow> node_id \<Rightarrow> unit emitter" where
  "GenerateFlags_SBB SrcSize Res Src1 Src2 CF = defer_flags (TYPE_SBB SrcSize Res Src1 Src2 CF)"

definition GenerateFlags_SUB ::
  "nat \<Rightarrow> node_id \<Rightarrow> node_id \<Rightarrow> node_id \<Rightarrow> bool \<Rightarrow> unit emitter" where
  "GenerateFlags_SUB SrcSize Res Src1 Src2 UpdateCF = do {
     (if \<not> UpdateCF then CalculateDeferredFlags else State_Monad.return ());
     defer_flags (TYPE_SUB SrcSize Res Src1 Src2 UpdateCF) }"

definition GenerateFlags_ADD ::
  "nat \<Rightarrow> node_id \<Rightarrow> node_id \<Rightarrow> node_id \<Rightarrow> bool \<Rightarrow> unit emitter" where
  "GenerateFlags_ADD SrcSize Res Src1 Src2 UpdateCF = do {
     (if \<not> UpdateCF then CalculateDeferredFlags else State_Monad.return ());
     defer_flags (TYPE_ADD SrcSize Res Src1 Src2 UpdateCF) }"

definition GenerateFlags_MUL :: "nat \<Rightarrow> node_id \<Rightarrow> node_id \<Rightarrow> unit emitter" where
  "GenerateFlags_MUL SrcSize Res High = defer_flags (TYPE_MUL SrcSize Res High)"

definition GenerateFlags_UMUL :: "node_id \<Rightarrow> unit emitter" where
  "GenerateFlags_UMUL High = defer_flags (TYPE_UMUL High)"

definition GenerateFlags_Logical :: "nat \<Rightarrow> node_id \<Rightarrow> node_id \<Rightarrow> node_id \<Rightarrow> unit emitter" where
  "GenerateFlags_Logical SrcSize Res Src1 Src2 = defer_flags (TYPE_LOGICAL SrcSize Res Src1 Src2)"

definition GenerateFlags_ShiftLeft :: "nat \<Rightarrow> node_id \<Rightarrow> node_id \<Rightarrow> node_id \<Rightarrow> unit emitter" where
  "GenerateFlags_ShiftLeft SrcSize Res Src1 Src2 = do {
     CalculateDeferredFlags;
     defer_flags (TYPE_LSHL SrcSize Res Src1 Src2) }"

definition GenerateFlags_ShiftRight :: "nat \<Rightarrow> node_id \<Rightarrow> node_id \<Rightarrow> node_id \<Rightarrow> unit emitter" where
  "GenerateFlags_ShiftRight SrcSize Res Src1 Src2 = do {
     CalculateDeferredFlags;
     defer_flags (TYPE_LSHR SrcSize Res Src1 Src2) }"

definition GenerateFlags_SignShiftRight :: "nat \<Rightarrow> node_id \<Rightarrow> node_id \<Rightarrow> node_id \<Rightarrow> unit emitter" where
  "GenerateFlags_SignShiftRight SrcSize Res Src1 Src2 = do {
     CalculateDeferredFlags;
     defer_flags (TYPE_ASHR SrcSize Res Src1 Src2) }"

definition GenerateFlags_ShiftLeftImmediate :: "nat \<Rightarrow> node_id \<Rightarrow> node_id \<Rightarrow> nat \<Rightarrow> unit emitter" where
  "GenerateFlags_ShiftLeftImmediate SrcSize Res Src1 Shift =
     (if Shift = 0 then State_Monad.return () else defer_flags (TYPE_LSHLI SrcSize Res Src1 Shift))"

definition GenerateFlags_SignShiftRightImmediate ::
  "nat \<Rightarrow> node_id \<Rightarrow> node_id \<Rightarrow> nat \<Rightarrow> unit emitter" where
  "GenerateFlags_SignShiftRightImmediate SrcSize Res Src1 Shift =
     (if Shift = 0 then State_Monad.return () else defer_flags (TYPE_ASHRI SrcSize Res Src1 Shift))"

definition GenerateFlags_ShiftRightImmediate :: "nat \<Rightarrow> node_id \<Rightarrow> node_id \<Rightarrow> nat \<Rightarrow> unit emitter" where
  "GenerateFlags_ShiftRightImmediate SrcSize Res Src1 Shift =
     (if Shift = 0 then State_Monad.return () else defer_flags (TYPE_LSHRI SrcSize Res Src1 Shift))"

definition GenerateFlags_RotateRight :: "nat \<Rightarrow> node_id \<Rightarrow> node_id \<Rightarrow> node_id \<Rightarrow> unit emitter" where
  "GenerateFlags_RotateRight SrcSize Res Src1 Src2 = do {
     CalculateDeferredFlags;
     defer_flags (TYPE_ROR SrcSize Res Src1 Src2) }"

definition GenerateFlags_RotateLeft :: "nat \<Rightarrow> node_id \<Rightarrow> node_id \<Rightarrow> node_id \<Rightarrow> unit emitter" where
  "GenerateFlags_RotateLeft SrcSize Res Src1 Src2 = do {
     CalculateDeferredFlags;
     defer_flags (TYPE_ROL SrcSize Res Src1 Src2) }"

definition GenerateFlags_RotateRightImmediate :: "nat \<Rightarrow> node_id \<Rightarrow> node_id \<Rightarrow> nat \<Rightarrow> unit emitter" where
  "GenerateFlags_RotateRightImmediate SrcSize Res Src1 Shift =
     (if Shift = 0 then State_Monad.return () else do {
        CalculateDeferredFlags;
        defer_flags (TYPE_RORI SrcSize Res Src1 Shift) })"

definition GenerateFlags_RotateLeftImmediate :: "nat \<Rightarrow> node_id \<Rightarrow> node_id \<Rightarrow> nat \<Rightarrow> unit emitter" where
  "GenerateFlags_RotateLeftImmediate SrcSize Res Src1 Shift =
     (if Shift = 0 then State_Monad.return () else do {
        CalculateDeferredFlags;
        defer_flags (TYPE_ROLI SrcSize Res Src1 Shift) })"

definition GenerateFlags_FCMP :: "nat \<Rightarrow> node_id \<Rightarrow> node_id \<Rightarrow> node_id \<Rightarrow> unit emitter" where
  "GenerateFlags_FCMP SrcSize Res Src1 Src2 = defer_flags (TYPE_FCMP SrcSize Res Src1 Src2)"

definition GenerateFlags_BEXTR :: "node_id \<Rightarrow> unit emitter" where
  "GenerateFlags_BEXTR Src = defer_flags (TYPE_BEXTR Src)"

definition GenerateFlags_BLSI :: "nat \<Rightarrow> node_id \<Rightarrow> unit emitter" where
  "GenerateFlags_BLSI SrcSize Src = defer_flags (TYPE_BLSI SrcSize Src)"

definition GenerateFlags_BLSMSK :: "node_id \<Rightarrow> unit emitter" where
  "GenerateFlags_BLSMSK Src = defer_flags (TYPE_BLSMSK Src)"

definition GenerateFlags_BLSR :: "nat \<Rightarrow> node_id \<Rightarrow> node_id \<Rightarrow> unit emitter" where
  "GenerateFlags_BLSR SrcSize Res Src = defer_flags (TYPE_BLSR SrcSize Res Src)"

definition GenerateFlags_POPCOUNT :: "node_id \<Rightarrow> unit emitter" where
  "GenerateFlags_POPCOUNT Src = defer_flags (TYPE_POPCOUNT Src)"

definition GenerateFlags_BZHI :: "nat \<Rightarrow> node_id \<Rightarrow> node_id \<Rightarrow> unit emitter" where
  "GenerateFlags_BZHI SrcSize Result Src = defer_flags (TYPE_BZHI SrcSize Result Src)"

definition GenerateFlags_TZCNT :: "node_id \<Rightarrow> unit emitter" where
  "GenerateFlags_TZCNT Src = defer_flags (TYPE_TZCNT Src)"

definition GenerateFlags_LZCNT :: "nat \<Rightarrow> node_id \<Rightarrow> unit emitter" where
  "GenerateFlags_LZCNT SrcSize Src = defer_flags (TYPE_LZCNT SrcSize Src)"

definition GenerateFlags_BITSELECT :: "node_id \<Rightarrow> unit emitter" where
  "GenerateFlags_BITSELECT Src = defer_flags (TYPE_BITSELECT Src)"

definition GenerateFlags_RDRAND :: "node_id \<Rightarrow> unit emitter" where
  "GenerateFlags_RDRAND Src = defer_flags (TYPE_RDRAND Src)"

section \<open>The packed flags register\<close>

fun set_packed_loop :: "node_id \<Rightarrow> node_id \<Rightarrow> nat list \<Rightarrow> unit emitter" where
  "set_packed_loop Src OneConst [] = State_Monad.return ()"
| "set_packed_loop Src OneConst (FlagOffset # offs) = do {
     k \<leftarrow> e_Constant (word_of_nat FlagOffset);
     l \<leftarrow> e_Bin OP_LSHR Src k;
     Tmp \<leftarrow> e_Bin OP_AND l OneConst;
     SetRFLAG Tmp FlagOffset;
     set_packed_loop Src OneConst offs }"

definition SetPackedRFLAG :: "bool \<Rightarrow> node_id \<Rightarrow> unit emitter" where
  "SetPackedRFLAG Lower8 Src = do {
     (if Lower8 then CalculateDeferredFlags else InvalidateDeferredFlags);
     OneConst \<leftarrow> e_Constant 1;
     set_packed_loop Src OneConst (take (if Lower8 then 5 else length FlagOffsets) FlagOffsets) }"

fun get_packed_loop :: "node_id \<Rightarrow> nat list \<Rightarrow> node_id emitter" where
  "get_packed_loop Original [] = State_Monad.return Original"
| "get_packed_loop Original (FlagOffset # offs) = do {
     Flag \<leftarrow> e_LoadFlag FlagOffset;
     Flag' \<leftarrow> e_BfeSize 4 32 0 Flag;
     k \<leftarrow> e_Constant (word_of_nat FlagOffset);
     Flag'' \<leftarrow> e_Bin OP_LSHL Flag' k;
     Original' \<leftarrow> e_Bin OP_OR Original Flag'';
     get_packed_loop Original' offs }"

definition GetPackedRFLAG :: "bool \<Rightarrow> node_id emitter" where
  "GetPackedRFLAG Lower8 = do {
     CalculateDeferredFlags;
     Original \<leftarrow> e_Constant 2;
     get_packed_loop Original (take (if Lower8 then 5 else length FlagOffsets) FlagOffsets) }"

end
