(* ===== verification/X86_Arch.thy ===== *)
theory X86_Arch
  imports X86_Flags
begin

text \<open>
  The flags of the x86 architecture, on integers, for operands of \<open>W\<close> bits: carry and borrow, signed
  overflow, the half carry at bit four, sign, zero and parity; and the arithmetic that relates them to
  the bit formulas of the code.
\<close>

section \<open>Architectural flags\<close>

text \<open>
  The flags an instruction defines, as a finite map from flag locations to values: a location that is
  not in the map is left undefined by the architecture.
\<close>

type_synonym flag_map = "nat \<rightharpoonup> bool"

definition status_locs :: "nat list" where
  "status_locs = [CF_LOC, PF_LOC, AF_LOC, ZF_LOC, SF_LOC, OF_LOC]"

definition get_flag :: "context_bytes \<Rightarrow> nat \<Rightarrow> bool" where
  "get_flag x loc = bit (x (off_flags + loc)) 0"

definition old_flags :: "context_bytes \<Rightarrow> flag_map" where
  "old_flags x loc = Some (get_flag x loc)"

definition s_val :: "nat \<Rightarrow> int \<Rightarrow> int" where
  "s_val W v = signed_take_bit (W - 1) v"

definition in_range :: "nat \<Rightarrow> int \<Rightarrow> bool" where
  "in_range W v \<longleftrightarrow> - (2 ^ (W - 1)) \<le> v \<and> v < 2 ^ (W - 1)"

definition parity8 :: "int \<Rightarrow> bool" where
  "parity8 v \<longleftrightarrow> even (popcount (word_of_int v :: u8))"

definition x86_result :: "nat \<Rightarrow> int \<Rightarrow> flag_map" where
  "x86_result W r = [ZF_LOC \<mapsto> r = 0, SF_LOC \<mapsto> s_val W r < 0, PF_LOC \<mapsto> parity8 r]"

definition x86_add :: "nat \<Rightarrow> int \<Rightarrow> int \<Rightarrow> int \<Rightarrow> flag_map" where
  "x86_add W a b cin = (x86_result W ((a + b + cin) mod 2 ^ W))
     (AF_LOC \<mapsto> 16 \<le> a mod 16 + b mod 16 + cin,
      OF_LOC \<mapsto> \<not> in_range W (s_val W a + s_val W b + cin), CF_LOC \<mapsto> 2 ^ W \<le> a + b + cin)"

definition x86_sub :: "nat \<Rightarrow> int \<Rightarrow> int \<Rightarrow> int \<Rightarrow> flag_map" where
  "x86_sub W a b cin = (x86_result W ((a - b - cin) mod 2 ^ W))
     (AF_LOC \<mapsto> a mod 16 < b mod 16 + cin,
      OF_LOC \<mapsto> \<not> in_range W (s_val W a - s_val W b - cin), CF_LOC \<mapsto> a < b + cin)"

definition x86_logical :: "nat \<Rightarrow> int \<Rightarrow> flag_map" where
  "x86_logical W r = (x86_result W r)(CF_LOC \<mapsto> False, OF_LOC \<mapsto> False)"

text \<open>
  Shifts by \<open>cnt\<close>, the masked amount: nothing changes for zero, the carry is the last bit shifted
  out, and the overflow is defined for a shift by one.
\<close>

definition x86_shift :: "nat \<Rightarrow> int \<Rightarrow> nat \<Rightarrow> bool \<Rightarrow> bool \<Rightarrow> context_bytes \<Rightarrow> flag_map" where
  "x86_shift W r cnt cf ovf x =
     (if cnt = 0 then old_flags x
      else (x86_result W r)(CF_LOC \<mapsto> cf, OF_LOC := if cnt = 1 then Some ovf else None))"

definition x86_shl :: "nat \<Rightarrow> int \<Rightarrow> nat \<Rightarrow> context_bytes \<Rightarrow> flag_map" where
  "x86_shl W a cnt = (let r = (a * 2 ^ cnt) mod 2 ^ W; cf = bit (a * 2 ^ cnt) W in
     x86_shift W r cnt cf ((s_val W r < 0) \<noteq> cf))"

definition x86_shr :: "nat \<Rightarrow> int \<Rightarrow> nat \<Rightarrow> context_bytes \<Rightarrow> flag_map" where
  "x86_shr W a cnt = x86_shift W (a div 2 ^ cnt) cnt (bit a (cnt - 1)) (s_val W a < 0)"

definition x86_sar :: "nat \<Rightarrow> int \<Rightarrow> nat \<Rightarrow> context_bytes \<Rightarrow> flag_map" where
  "x86_sar W a cnt = x86_shift W ((s_val W a div 2 ^ cnt) mod 2 ^ W) cnt (bit (s_val W a) (cnt - 1)) False"

text \<open>Rotates change the carry and, for a rotate by one, the overflow; the other flags are kept.\<close>

definition x86_rotate :: "nat \<Rightarrow> bool \<Rightarrow> bool \<Rightarrow> context_bytes \<Rightarrow> flag_map" where
  "x86_rotate cnt cf ovf x =
     (if cnt = 0 then old_flags x
      else (old_flags x)(CF_LOC \<mapsto> cf, OF_LOC := if cnt = 1 then Some ovf else None))"

definition x86_rol :: "nat \<Rightarrow> int \<Rightarrow> nat \<Rightarrow> context_bytes \<Rightarrow> flag_map" where
  "x86_rol W r cnt = x86_rotate cnt (bit r 0) (bit r (W - 1) \<noteq> bit r 0)"

definition x86_ror :: "nat \<Rightarrow> int \<Rightarrow> nat \<Rightarrow> context_bytes \<Rightarrow> flag_map" where
  "x86_ror W r cnt = x86_rotate cnt (bit r (W - 1)) (bit r (W - 1) \<noteq> bit r (W - 2))"

text \<open>
  The flags become those of \<open>F\<close> where \<open>F\<close> defines them, the parity flag only when it is tracked
  (\<^verbatim>\<open>ABINoPF\<close> drops it); nothing else of the context changes.
\<close>

definition flag_becomes :: "bool \<Rightarrow> flag_map \<Rightarrow> context_bytes \<Rightarrow> nat \<Rightarrow> bool" where
  "flag_becomes npf F x' loc \<longleftrightarrow>
     loc = PF_LOC \<and> npf \<or> (case F loc of None \<Rightarrow> True | Some b \<Rightarrow> get_flag x' loc = b)"

definition flags_become :: "bool \<Rightarrow> flag_map \<Rightarrow> context_bytes \<Rightarrow> context_bytes \<Rightarrow> bool" where
  "flags_become npf F x x' \<longleftrightarrow>
     list_all (flag_becomes npf F x') status_locs
     \<and> (\<forall>i. i \<notin> (+) off_flags ` set status_locs \<longrightarrow> x' i = x i)"

section \<open>Arithmetic\<close>

lemma msb_half:
  fixes v :: int
  assumes "0 < W" "0 \<le> v" "v < 2 ^ W"
  shows "bit v (W - 1) \<longleftrightarrow> 2 ^ (W - 1) \<le> v"
proof -
  obtain k where W: "W = Suc k" using assms(1) by (cases W) auto
  show ?thesis
  proof (cases "2 ^ k \<le> v")
    case True
    have "(v - 2 ^ k) div 2 ^ k = 0" using True assms(3) by (intro div_pos_pos_trivial) (auto simp: W)
    then have "v div 2 ^ k = 1" using div_add_self2 [of "2 ^ k" "v - 2 ^ k"] by simp
    then show ?thesis using True by (simp add: W bit_iff_odd)
  next
    case False
    then have "v div 2 ^ k = 0" using assms(2) by (intro div_pos_pos_trivial) auto
    then show ?thesis using False by (simp add: W bit_iff_odd)
  qed
qed

lemma s_val_half:
  assumes "0 < W" "0 \<le> v" "v < 2 ^ W"
  shows "s_val W v = (if 2 ^ (W - 1) \<le> v then v - 2 ^ W else v)"
proof -
  obtain k where W: "W = Suc k" using assms(1) by (cases W) auto
  have "s_val W v = take_bit W v - 2 ^ W * of_bool (bit v (W - 1))"
    by (simp add: s_val_def W signed_take_bit_eq_take_bit_minus)
  also have "take_bit W v = v" using assms(2,3) by (rule take_bit_int_eq_self)
  finally show ?thesis using msb_half [OF assms] by auto
qed

lemma bit4: "bit (v :: int) 4 \<longleftrightarrow> 16 \<le> v mod 32"
proof -
  have "take_bit 5 v = v mod 32" by (simp add: take_bit_eq_mod)
  moreover have "bit v 4 \<longleftrightarrow> bit (take_bit 5 v) 4" by (simp add: bit_take_bit_iff)
  ultimately show ?thesis using msb_half [of 5 "v mod 32"] by simp
qed
text \<open>Addition with carry: the formulas of the code against the architectural flags.\<close>

lemma pow_half: "0 < W \<Longrightarrow> (2 :: int) ^ W = 2 * 2 ^ (W - 1)"
  by (cases W) auto

lemma add_mod_cases:
  fixes a b cin :: int
  assumes "0 \<le> a" "a < 2 ^ W" "0 \<le> b" "b < 2 ^ W" "cin = 0 \<or> cin = 1"
  shows "(a + b + cin) mod 2 ^ W = (if a + b + cin < 2 ^ W then a + b + cin else a + b + cin - 2 ^ W)"
proof (cases "a + b + cin < 2 ^ W")
  case True
  then show ?thesis using assms by (intro trans [OF mod_pos_pos_trivial]) auto
next
  case False
  have "(a + b + cin) mod 2 ^ W = (a + b + cin - 2 ^ W) mod 2 ^ W" by simp
  also have "\<dots> = a + b + cin - 2 ^ W" using assms False by (intro mod_pos_pos_trivial) auto
  finally show ?thesis using False by simp
qed

lemma sub_mod_cases:
  fixes a b cin :: int
  assumes "0 \<le> a" "a < 2 ^ W" "0 \<le> b" "b < 2 ^ W" "cin = 0 \<or> cin = 1"
  shows "(a - b - cin) mod 2 ^ W = (if b + cin \<le> a then a - b - cin else a - b - cin + 2 ^ W)"
proof (cases "b + cin \<le> a")
  case True
  then show ?thesis using assms by (intro trans [OF mod_pos_pos_trivial]) auto
next
  case False
  have "(a - b - cin) mod 2 ^ W = (a - b - cin + 2 ^ W) mod 2 ^ W" by simp
  also have "\<dots> = a - b - cin + 2 ^ W" using assms False by (intro mod_pos_pos_trivial) auto
  finally show ?thesis using False by simp
qed

text \<open>Signed overflow in terms of the halves \<open>h\<close> of the range.\<close>

lemma add_overflow_half:
  fixes a b cin h :: int
  assumes "0 \<le> a" "a < 2 * h" "0 \<le> b" "b < 2 * h" "0 \<le> cin" "cin \<le> 1"
    and "r = (if a + b + cin < 2 * h then a + b + cin else a + b + cin - 2 * h)"
    and "sa = (if h \<le> a then a - 2 * h else a)" "sb = (if h \<le> b then b - 2 * h else b)"
  shows "(h \<le> a) = (h \<le> b) \<and> (h \<le> r) \<noteq> (h \<le> a) \<longleftrightarrow> \<not> (- h \<le> sa + sb + cin \<and> sa + sb + cin < h)"
proof (cases "h \<le> a")
  case True
  show ?thesis
    by (cases "h \<le> b"; cases "a + b + cin < 2 * h"; insert True assms; auto)
next
  case False
  show ?thesis
    by (cases "h \<le> b"; cases "a + b + cin < 2 * h"; insert False assms; auto)
qed

lemma sub_overflow_half:
  fixes a b cin h :: int
  assumes "0 \<le> a" "a < 2 * h" "0 \<le> b" "b < 2 * h" "0 \<le> cin" "cin \<le> 1"
    and "r = (if b + cin \<le> a then a - b - cin else a - b - cin + 2 * h)"
    and "sa = (if h \<le> a then a - 2 * h else a)" "sb = (if h \<le> b then b - 2 * h else b)"
  shows "(h \<le> a) \<noteq> (h \<le> b) \<and> (h \<le> r) \<noteq> (h \<le> a) \<longleftrightarrow> \<not> (- h \<le> sa - sb - cin \<and> sa - sb - cin < h)"
proof (cases "h \<le> a")
  case True
  show ?thesis
    by (cases "h \<le> b"; cases "b + cin \<le> a"; insert True assms; auto)
next
  case False
  show ?thesis
    by (cases "h \<le> b"; cases "b + cin \<le> a"; insert False assms; auto)
qed

lemma add_overflow_bit:
  fixes a b cin :: int
  assumes "0 < W" "0 \<le> a" "a < 2 ^ W" "0 \<le> b" "b < 2 ^ W" "cin = 0 \<or> cin = 1"
    and r: "r = (a + b + cin) mod 2 ^ W"
  shows "bit (NOT (a XOR b) AND (r XOR a)) (W - 1) \<longleftrightarrow> \<not> in_range W (s_val W a + s_val W b + cin)"
proof -
  define h :: int where "h = 2 ^ (W - 1)"
  have W: "2 ^ W = 2 * h" using assms(1) by (simp add: h_def pow_half)
  have r': "0 \<le> r" "r < 2 ^ W" using r by auto
  have c: "r = (if a + b + cin < 2 * h then a + b + cin else a + b + cin - 2 * h)"
    unfolding r add_mod_cases [OF assms(2-6)] by (simp add: W)
  have "bit a (W - 1) \<longleftrightarrow> h \<le> a" "bit b (W - 1) \<longleftrightarrow> h \<le> b" "bit r (W - 1) \<longleftrightarrow> h \<le> r"
    using msb_half [OF assms(1)] assms(2-5) r' by (auto simp: h_def)
  then have "bit (NOT (a XOR b) AND (r XOR a)) (W - 1) \<longleftrightarrow> (h \<le> a) = (h \<le> b) \<and> (h \<le> r) \<noteq> (h \<le> a)"
    by (auto simp: bit_simps)
  moreover have "s_val W a = (if h \<le> a then a - 2 * h else a)" "s_val W b = (if h \<le> b then b - 2 * h else b)"
    using s_val_half [OF assms(1)] assms(2-5) by (auto simp: h_def W)
  moreover have "0 \<le> cin" "cin \<le> 1" using assms(6) by auto
  ultimately show ?thesis
    using add_overflow_half [of a h b cin r] c assms(2-5) unfolding in_range_def h_def [symmetric] W by simp
qed

lemma sub_overflow_bit:
  fixes a b cin :: int
  assumes "0 < W" "0 \<le> a" "a < 2 ^ W" "0 \<le> b" "b < 2 ^ W" "cin = 0 \<or> cin = 1"
    and r: "r = (a - b - cin) mod 2 ^ W"
  shows "bit ((a XOR b) AND (r XOR a)) (W - 1) \<longleftrightarrow> \<not> in_range W (s_val W a - s_val W b - cin)"
proof -
  define h :: int where "h = 2 ^ (W - 1)"
  have W: "2 ^ W = 2 * h" using assms(1) by (simp add: h_def pow_half)
  have r': "0 \<le> r" "r < 2 ^ W" using r by auto
  have c: "r = (if b + cin \<le> a then a - b - cin else a - b - cin + 2 * h)"
    unfolding r sub_mod_cases [OF assms(2-6)] by (simp add: W)
  have "bit a (W - 1) \<longleftrightarrow> h \<le> a" "bit b (W - 1) \<longleftrightarrow> h \<le> b" "bit r (W - 1) \<longleftrightarrow> h \<le> r"
    using msb_half [OF assms(1)] assms(2-5) r' by (auto simp: h_def)
  then have "bit ((a XOR b) AND (r XOR a)) (W - 1) \<longleftrightarrow> (h \<le> a) \<noteq> (h \<le> b) \<and> (h \<le> r) \<noteq> (h \<le> a)"
    by (auto simp: bit_simps)
  moreover have "s_val W a = (if h \<le> a then a - 2 * h else a)" "s_val W b = (if h \<le> b then b - 2 * h else b)"
    using s_val_half [OF assms(1)] assms(2-5) by (auto simp: h_def W)
  moreover have "0 \<le> cin" "cin \<le> 1" using assms(6) by auto
  ultimately show ?thesis
    using sub_overflow_half [of a h b cin r] c assms(2-5) unfolding in_range_def h_def [symmetric] W by simp
qed

lemma mod_pow_32: "8 \<le> W \<Longrightarrow> (v mod 2 ^ W) mod 32 = v mod (32 :: int)"
  using mod_mod_cancel [of 32 "2 ^ W" v] le_imp_power_dvd [of 5 W "2 :: int"] by simp

text \<open>The low five bits as a half-byte and the bit above it.\<close>

lemma mod_32_split: "(v :: int) mod 32 = 16 * (v div 16 mod 2) + v mod 16"
  using mod_mult2_eq' [of v 16 2] zmod_zmult2_eq [of 2 v 16] by simp

lemma add_aux_bit:
  fixes a b cin :: int
  assumes "8 \<le> W" "cin = 0 \<or> cin = 1" and r: "r = (a + b + cin) mod 2 ^ W"
  shows "bit (a XOR b XOR r) 4 \<longleftrightarrow> 16 \<le> a mod 16 + b mod 16 + cin"
proof -
  define p q x y where d: "p = a div 16 mod 2" "q = b div 16 mod 2" "x = a mod 16" "y = b mod 16"
  have ab: "a mod 32 = 16 * p + x" "b mod 32 = 16 * q + y" by (simp_all add: d mod_32_split)
  have "r mod 32 = (a + b + cin) mod 32" unfolding r using assms(1) by (rule mod_pow_32)
  also have "\<dots> = (a mod 32 + b mod 32 + cin) mod 32" by (intro mod_add_cong) simp_all
  finally have "r mod 32 = (16 * p + x + (16 * q + y) + cin) mod 2 ^ 5" by (simp add: ab)
  moreover have bds: "0 \<le> x" "x < 16" "0 \<le> y" "y < 16" "p = 0 \<or> p = 1" "q = 0 \<or> q = 1" unfolding d by auto
  ultimately have s: "r mod 32 = (if 16 * p + x + (16 * q + y) + cin < 32 then 16 * p + x + (16 * q + y) + cin else 16 * p + x + (16 * q + y) + cin - 32)"
    using add_mod_cases [of "16 * p + x" 5 "16 * q + y" cin] assms(2) by auto
  have "bit (a XOR b XOR r) 4 \<longleftrightarrow> ((16 \<le> a mod 32) \<noteq> (16 \<le> b mod 32)) \<noteq> (16 \<le> r mod 32)"
    unfolding bit4 [symmetric] by (auto simp: bit_xor_iff)
  moreover have "p = 0 \<or> p = 1" "q = 0 \<or> q = 1" "0 \<le> cin" "cin \<le> 1" using bds assms(2) by auto
  ultimately show ?thesis unfolding ab s d(3,4) [symmetric] using bds(1-4)
    by (elim disjE; cases "x + y + cin < 16"; simp)
qed
lemma sub_aux_bit:
  fixes a b cin :: int
  assumes "8 \<le> W" "cin = 0 \<or> cin = 1" and r: "r = (a - b - cin) mod 2 ^ W"
  shows "bit (a XOR b XOR r) 4 \<longleftrightarrow> a mod 16 < b mod 16 + cin"
proof -
  define p q x y where d: "p = a div 16 mod 2" "q = b div 16 mod 2" "x = a mod 16" "y = b mod 16"
  have ab: "a mod 32 = 16 * p + x" "b mod 32 = 16 * q + y" by (simp_all add: d mod_32_split)
  have "r mod 32 = (a - b - cin) mod 32" unfolding r using assms(1) by (rule mod_pow_32)
  also have "\<dots> = (a mod 32 - b mod 32 - cin) mod 32" by (intro mod_diff_cong) simp_all
  finally have "r mod 32 = (16 * p + x - (16 * q + y) - cin) mod 2 ^ 5" by (simp add: ab)
  moreover have bds: "0 \<le> x" "x < 16" "0 \<le> y" "y < 16" "p = 0 \<or> p = 1" "q = 0 \<or> q = 1" unfolding d by auto
  ultimately have s: "r mod 32 = (if 16 * q + y + cin \<le> 16 * p + x then 16 * p + x - (16 * q + y) - cin else 16 * p + x - (16 * q + y) - cin + 32)"
    using sub_mod_cases [of "16 * p + x" 5 "16 * q + y" cin] assms(2) by auto
  have "bit (a XOR b XOR r) 4 \<longleftrightarrow> ((16 \<le> a mod 32) \<noteq> (16 \<le> b mod 32)) \<noteq> (16 \<le> r mod 32)"
    unfolding bit4 [symmetric] by (auto simp: bit_xor_iff)
  moreover have "p = 0 \<or> p = 1" "q = 0 \<or> q = 1" "0 \<le> cin" "cin \<le> 1" using bds assms(2) by auto
  ultimately show ?thesis unfolding ab s d(3,4) [symmetric] using bds(1-4)
    by (elim disjE; cases "x < y + cin"; simp)
qed

text \<open>Multiplication: the product is out of range when the high half is not the sign of the low half.\<close>

lemma smul_overflow_half:
  fixes P h Q L :: int
  assumes "P = Q * (2 * h) + L" "0 < h" "0 \<le> L" "L < 2 * h"
  shows "- h \<le> P \<and> P < h \<longleftrightarrow> Q = (if h \<le> L then -1 else 0)"
proof -
  consider "Q \<ge> 1" | "Q \<le> -2" | "Q = 0" | "Q = -1" by linarith
  then show ?thesis
  proof cases
    case 1
    then have "2 * h \<le> Q * (2 * h)" using assms(2) mult_right_mono [of 1 Q "2 * h"] by simp
    then have "h \<le> P" using assms by linarith
    then show ?thesis using 1 by auto
  next
    case 2
    then have "Q * (2 * h) \<le> - 4 * h" using assms(2) mult_right_mono [of Q "-2" "2 * h"] by simp
    then have "P < - h" using assms by linarith
    then show ?thesis using 2 by auto
  qed (use assms in auto)
qed
lemma smul_overflow:
  fixes P :: int
  assumes "0 < W"
  shows "in_range W P \<longleftrightarrow> P div 2 ^ W = (if bit P (W - 1) then -1 else 0)"
proof -
  have "bit P (W - 1) \<longleftrightarrow> bit (take_bit W P) (W - 1)" using assms by (simp add: bit_take_bit_iff)
  also have "\<dots> \<longleftrightarrow> 2 ^ (W - 1) \<le> P mod 2 ^ W"
    using assms by (subst msb_half) (auto simp: take_bit_eq_mod)
  finally show ?thesis
    using smul_overflow_half [of P "P div 2 ^ W" "2 ^ (W - 1)" "P mod 2 ^ W"]
    unfolding in_range_def pow_half [OF assms] by (simp add: div_mult_mod_eq)
qed

text \<open>The high half of a signed product of two \<open>W\<close>-bit numbers is a \<open>W\<close>-bit number.\<close>

lemma s_val_range: "0 < W \<Longrightarrow> in_range W (s_val W a)"
  using signed_take_bit_int_greater_eq_minus_exp [of "W - 1" a] signed_take_bit_int_less_exp [of "W - 1" a]
  by (simp add: in_range_def s_val_def)

lemma smul_high_range:
  assumes "0 < W"
  shows "in_range W (s_val W a * s_val W b div 2 ^ W)"
proof -
  define h :: int where "h = 2 ^ (W - 1)"
  have W: "2 ^ W = 2 * h" "0 < h" using assms by (simp_all add: h_def pow_half)
  have r: "\<bar>s_val W a\<bar> \<le> h" "\<bar>s_val W b\<bar> \<le> h" using s_val_range [OF assms, of a] s_val_range [OF assms, of b] by (auto simp: in_range_def h_def abs_le_iff)
  have "\<bar>s_val W a * s_val W b\<bar> \<le> h * h" unfolding abs_mult using r W(2) by (intro mult_mono) auto
  moreover have "0 < h * h" using W(2) by simp
  moreover have q: "- h * (2 * h) = - 2 * (h * h)" "h * (2 * h) = 2 * (h * h)" by simp_all
  ultimately have "- h * (2 * h) \<le> s_val W a * s_val W b" "s_val W a * s_val W b < h * (2 * h)"
    unfolding q by linarith+
  moreover from this(1) have "- h * (2 * h) div (2 * h) \<le> s_val W a * s_val W b div (2 * h)"
    using W(2) by (intro zdiv_mono1) auto
  moreover have "- h * (2 * h) div (2 * h) = - h" using W(2) by (intro nonzero_mult_div_cancel_right) auto
  moreover have "s_val W a * s_val W b div (2 * h) < h" if "s_val W a * s_val W b < h * (2 * h)"
  proof (rule ccontr)
    assume "\<not> ?thesis"
    then have "h * (2 * h) \<le> s_val W a * s_val W b div (2 * h) * (2 * h)"
      using W(2) by (intro mult_right_mono) auto
    also have "\<dots> \<le> s_val W a * s_val W b"
      using W(2) minus_mod_eq_div_mult [of "s_val W a * s_val W b" "2 * h", symmetric]
        pos_mod_sign [of "2 * h" "s_val W a * s_val W b"] by linarith
    finally show False using that by simp
  qed
  ultimately show ?thesis
    unfolding in_range_def h_def [symmetric] W(1) by simp
qed

end
