(* ===== verification/X86_Flags_Effect.thy ===== *)
theory X86_Flags_Effect
  imports Emit_Logic X86_Flags
begin

text \<open>
  What the flag emitters do to the guest context, as \<^const>\<open>effect\<close> judgements: the values stored are
  given on the cells of the operands. The arithmetic meaning of these values is the subject of
  \<^verbatim>\<open>X86_Flags_Correct\<close>.
\<close>

section \<open>Operands and stored flags\<close>


definition set_flag :: "nat \<Rightarrow> bool \<Rightarrow> context_bytes \<Rightarrow> context_bytes" where
  "set_flag loc P x = x(off_flags + loc := of_bool P)"

text \<open>
  A node of at least \<open>N\<close> bytes, and an operand of \<open>N\<close> bytes: such a node whose cell holds a value
  zero-extended from \<open>N\<close> bytes.
\<close>

definition wide :: "context_bytes \<Rightarrow> memory \<Rightarrow> builder \<Rightarrow> nat \<Rightarrow> node_id \<Rightarrow> slot \<Rightarrow> bool" where
  "wide c m B N n v \<longleftrightarrow> (\<exists>sz. has_node c m B n sz v \<and> valid_size sz \<and> N \<le> sz)"

definition opnd :: "context_bytes \<Rightarrow> memory \<Rightarrow> builder \<Rightarrow> nat \<Rightarrow> node_id \<Rightarrow> slot \<Rightarrow> bool" where
  "opnd c m B N n v \<longleftrightarrow> wide c m B N n v \<and> trunc_slot N v = v"

lemma wide_extends: "wide c m A N n v \<Longrightarrow> extends c m A B \<Longrightarrow> wide c m B N n v"
  unfolding wide_def using has_node_extends by blast

lemma opnd_extends: "opnd c m A N n v \<Longrightarrow> extends c m A B \<Longrightarrow> opnd c m B N n v"
  unfolding opnd_def using wide_extends by blast

lemma opnd_wide: "opnd c m B N n v \<Longrightarrow> wide c m B N n v"
  by (simp add: opnd_def)

lemma wideD:
  assumes "wide c m B N n v"
  shows "n < length (code B)" "valid_size (siz_of B n)" "N \<le> siz_of B n" "val_of c m B n = v"
  using assms by (auto simp: wide_def has_node_def)

lemma opndD:
  assumes "opnd c m B N n v"
  shows "n < length (code B)" "valid_size (siz_of B n)" "N \<le> siz_of B n" "val_of c m B n = v"
    "trunc_slot N v = v"
  using assms wideD by (auto simp: opnd_def)

lemma run_code_flagsOp [simp]: "run_code c m (B\<lparr>flagsOp := x\<rparr>) = run_code c m B"
  by (simp add: run_code_def)

definition flag_stored ::
  "context_bytes \<Rightarrow> memory \<Rightarrow> builder \<Rightarrow> node_id \<Rightarrow> nat \<Rightarrow> builder \<Rightarrow> bool" where
  "flag_stored c m B v loc B' \<longleftrightarrow>
     length (code B') = Suc (Suc (length (code B)))
     \<and> siz_of B' = (siz_of B)(length (code B) := siz_of B v, Suc (length (code B)) := 1)
     \<and> val_of c m B' = (val_of c m B)(length (code B) := bool_slot (bit (val_of c m B v) 0))
     \<and> ctx_of c m B' = set_flag loc (bit (val_of c m B v) 0) (ctx_of c m B) \<and> ok c m B'
     \<and> ABINoPF B' = ABINoPF B \<and> Is64BitMode B' = Is64BitMode B"

lemma ucast_bool_slot [simp]: "(ucast (bool_slot P) :: u8) = of_bool P"
  by (rule bit_word_eqI) (auto simp: bit_simps)

lemma SetRFLAG_emits:
  assumes "ok c m B" and "siz_of B v \<le> 8"
  shows "emits c m B (SetRFLAG v loc) (\<lambda>_ B'. flag_stored c m B v loc B')"
proof -
  let ?n = "length (code B)"
  let ?b = "\<lparr>Op = IR_Bfe 1 0 v, Size = siz_of B v, ElementSize = siz_of B v\<rparr>"
  let ?s = "\<lparr>Op = IR_StoreFlag ?n loc, Size = 1, ElementSize = 1\<rparr>"
  let ?B = "B\<lparr>flagsOp := SF_Nothing, code := code B @ [?b, ?s]\<rparr>"
  have run: "run_state (SetRFLAG v loc) B = ((), ?B)"
    by (simp add: SetRFLAG_def e_Bfe_def e_BfeSize_def e_StoreFlag_def emit_def)
  have "run_code c m ?B = exec_from (code B) [?b, ?s] (run_code c m B)"
    by (simp add: run_code_def exec_from_append)
  also have "\<dots> = (set_slot ?n (bool_slot (bit (val_of c m B v) 0)) (run_code c m B))
       \<lparr>Context := set_flag loc (bit (val_of c m B v) 0) (ctx_of c m B)\<rparr>"
    using assms
    by (simp add: exec_node_def run_code_fresh ucast_bool_slot Op_Bfe_bit [simplified] Op_StoreFlag_def set_flag_def set_slot_def)
  finally show ?thesis
    using assms(1) unfolding emits_def run
    by (auto simp: extends_def flag_stored_def set_slot_def node_size_def nth_append)
qed

lemma runs_SetRFLAG:
  assumes "S v \<le> 8" and "bit (V v) 0 \<longleftrightarrow> P"
  shows "runs c m L S V X p (SetRFLAG v loc) (\<lambda>_ B. ctx_of c m B = set_flag loc P X)"
  unfolding runs_def
proof (intro allI impI)
  fix B assume B: "view c m B L S V X p"
  show "emits c m B (SetRFLAG v loc) (\<lambda>_ B. ctx_of c m B = set_flag loc P X)"
    by (rule emits_weaken [OF SetRFLAG_emits]) (use B assms in \<open>auto simp: view_def flag_stored_def\<close>)
qed

lemma runs_SetRFLAG_ctx:
  assumes "S v \<le> 8" and "set_flag loc (bit (V v) 0) X = Y"
  shows "runs c m L S V X p (SetRFLAG v loc) (\<lambda>_ B. ctx_of c m B = Y)"
  using runs_SetRFLAG [of S v V "bit (V v) 0" c m L X p loc] assms by simp

lemma runs_SetRFLAG_bind:
  assumes "S v \<le> 8"
    and "runs c m (Suc (Suc L)) (S(L := S v, Suc L := 1)) (V(L := bool_slot (bit (V v) 0)))
      (set_flag loc (bit (V v) 0) X) p (g ()) Q"
  shows "runs c m L S V X p (SetRFLAG v loc \<bind> g) Q"
  unfolding runs_def
proof (intro allI impI)
  fix B assume B: "view c m B L S V X p"
  show "emits c m B (SetRFLAG v loc \<bind> g) Q"
  proof (rule emits_bind [OF SetRFLAG_emits])
    fix r B' assume "flag_stored c m B v loc B'"
    then have "view c m B' (Suc (Suc L)) (S(L := S v, Suc L := 1)) (V(L := bool_slot (bit (V v) 0)))
      (set_flag loc (bit (V v) 0) X) p"
      using B by (auto simp: view_def flag_stored_def)
    then show "emits c m B' (g r) Q" using runsD [OF assms(2)] by simp
  qed (use B assms(1) in \<open>auto simp: view_def\<close>)
qed

lemmas flag_rules = runs_rules runs_SetRFLAG runs_SetRFLAG_bind runs_SetRFLAG_ctx

lemma effect_runs:
  assumes "\<And>B1 L S V X p. extends c m B B1 \<Longrightarrow> view c m B1 L S V X p \<Longrightarrow> p = ABINoPF B \<Longrightarrow>
     runs c m L S V X p f (\<lambda>_ B2. ctx_of c m B2 = g X)"
  shows "effect c m B f g"
  using assms by (fastforce simp: effect_def runs_def view_def extends_def)

lemma valid_size_pos: "valid_size n \<Longrightarrow> 0 < n"
  by (auto simp: valid_size_def)

lemma trunc_fits: "trunc_slot N v = v \<Longrightarrow> N \<le> s \<Longrightarrow> trunc_slot s v = v"
  by (metis min.absorb2 trunc_slot_trunc)

lemma opnd_view:
  assumes "opnd c m B N n v" "extends c m B B1" "view c m B1 L S V X p"
  shows "n < L" "valid_size (S n)" "N \<le> S n" "V n = v" "S n \<le> 8" "trunc_slot N v = v"
    "\<And>k. L \<le> k \<Longrightarrow> (n = k) = False" "\<And>i. i < 8 * N \<Longrightarrow> i < 8 * S n"
    "\<And>s. N \<le> s \<Longrightarrow> trunc_slot s v = v" "N \<le> 8" "0 < S n"
  using opndD [OF opnd_extends [OF assms(1,2)]] assms(3) trunc_fits valid_size_le valid_size_pos
  by (fastforce simp: view_def)+

lemma wide_view:
  assumes "wide c m B N n v" "extends c m B B1" "view c m B1 L S V X p"
  shows "n < L" "valid_size (S n)" "N \<le> S n" "V n = v" "S n \<le> 8"
    "\<And>k. L \<le> k \<Longrightarrow> (n = k) = False" "\<And>i. i < 8 * N \<Longrightarrow> i < 8 * S n" "N \<le> 8" "0 < S n"
  using wideD [OF wide_extends [OF assms(1,2)]] assms(3) valid_size_le valid_size_pos
  by (fastforce simp: view_def)+

lemma has_node_view:
  assumes "has_node c m B n sz v" "extends c m B B1" "view c m B1 L S V X p"
  shows "n < L" "S n = sz" "V n = v" "\<And>k. L \<le> k \<Longrightarrow> (n = k) = False"
  using has_node_extends [OF assms(1,2)] assms(3) by (auto simp: view_def has_node_def)

lemma ucast_up_down: "(ucast (ucast (x :: u64) :: slot) :: u64) = x"
  by (rule bit_word_eqI) (simp add: bit_simps)

lemma shift_amount_const [simp]:
  assumes "k < 8 * sz" "word_size sz" shows "shift_amount sz (ucast (word_of_nat k :: u64)) = k"
proof -
  have m: "(word_of_nat (sz * 8 - 1) :: u64) = mask (if sz = 4 then 5 else 6)"
    using assms(2) by (auto simp: word_size_def mask_eq_exp_minus_1)
  have "unat (take_bit n (word_of_nat k :: u64)) = k" if "k < 2 ^ n" "n \<le> 6" for n
  proof -
    have "k < 2 ^ 64" using that(1) power_increasing [of n 64 "2 :: nat"] that(2) by linarith
    then show ?thesis using that(1)
      by (simp add: unsigned_take_bit_eq unat_of_nat take_bit_nat_eq_self)
  qed
  moreover have "k < 2 ^ (if sz = 4 then 5 else 6)" using assms by (auto simp: word_size_def)
  ultimately show ?thesis
    unfolding shift_amount_def m ucast_up_down by (simp add: take_bit_eq_mask [symmetric])
qed


lemma less_mult_max: "k < 8 * max a b \<longleftrightarrow> k < 8 * a \<or> k < 8 * (b :: nat)"
  by (auto simp: max_def)

lemma valid_size_bits:
  "valid_size N \<Longrightarrow> i < 8 \<Longrightarrow> i < 8 * N" "valid_size N \<Longrightarrow> N * 8 - Suc 0 < 8 * N"
  "valid_size N \<Longrightarrow> N * 8 - 2 < 8 * N" "valid_size N \<Longrightarrow> N * 8 - Suc 0 < 64"
  "valid_size N \<Longrightarrow> N * 8 - 2 < 64" "valid_size N \<Longrightarrow> N * 8 - Suc 0 < 128"
  by (auto simp: valid_size_def)

lemmas trunc_simps = bit_trunc_slot less_mult_max valid_size_bits

section \<open>Shared blocks\<close>

lemma effect_flag_AF:
  assumes "opnd c m B N Res r" "opnd c m B N Src1 a" "opnd c m B N Src2 b" "valid_size N"
  shows "effect c m B (flag_AF Res Src1 Src2) (set_flag AF_LOC (bit (a XOR b XOR r) 4))"
proof (rule effect_runs)
  fix B1 L S V X p assume e: "extends c m B B1" "view c m B1 L S V X p"
  note d = opnd_view [OF assms(1) e] opnd_view [OF assms(2) e] opnd_view [OF assms(3) e] assms(4)
  show "runs c m L S V X p (flag_AF Res Src1 Src2)
    (\<lambda>_ B2. ctx_of c m B2 = set_flag AF_LOC (bit (a XOR b XOR r) 4) X)"
    unfolding flag_AF_def
    by ((rule flag_rules, (simp add: d)[1], (simp add: d split del: if_split)?)+)
       (auto simp: d trunc_simps bit_xor_iff)
qed

lemma effect_flag_SF_wide:
  assumes "opnd c m B M Res r" "N \<le> M" "valid_size N"
  shows "effect c m B (flag_SF N Res) (set_flag SF_LOC (bit r (N * 8 - 1)))"
proof (rule effect_runs)
  fix B1 L S V X p assume e: "extends c m B B1" "view c m B1 L S V X p"
  note d = opnd_view [OF assms(1) e]
  have lt: "N * 8 - Suc 0 < 8 * S Res" using valid_size_bits(2) [OF assms(3)] assms(2) d(3) by linarith
  show "runs c m L S V X p (flag_SF N Res)
    (\<lambda>_ B2. ctx_of c m B2 = set_flag SF_LOC (bit r (N * 8 - 1)) X)"
    unfolding flag_SF_def
    by ((rule flag_rules, (simp add: d)[1],
         (simp add: d lt assms(3) trunc_simps bit_drop_bit_eq split del: if_split)?)+)
qed

lemmas effect_flag_SF = effect_flag_SF_wide [OF _ order_refl]

lemma effect_flag_ZF:
  assumes "opnd c m B N Res r"
  shows "effect c m B (flag_ZF Res) (set_flag ZF_LOC (r = 0))"
proof (rule effect_runs)
  fix B1 L S V X p assume e: "extends c m B B1" "view c m B1 L S V X p"
  note d = opnd_view [OF assms(1) e]
  show "runs c m L S V X p (flag_ZF Res) (\<lambda>_ B2. ctx_of c m B2 = set_flag ZF_LOC (r = 0) X)"
    unfolding flag_ZF_def
    by ((rule flag_rules, (simp add: d)[1], (simp add: d split del: if_split)?)+)
       (simp add: d bit_trunc_slot)
qed

lemma effect_SetRFLAG_const: "effect c m B (SetRFLAG_const loc) (set_flag loc False)"
proof (rule effect_runs)
  fix B1 L S V X p
  show "runs c m L S V X p (SetRFLAG_const loc) (\<lambda>_ B2. ctx_of c m B2 = set_flag loc False X)"
    unfolding SetRFLAG_const_def
    by (rule flag_rules, simp, rule flag_rules, simp, simp)
qed

text \<open>The parity of the low byte.\<close>

definition even_parity :: "slot \<Rightarrow> bool" where
  "even_parity r \<longleftrightarrow> even (popcount (ucast r :: u8))"

lemma popcount_low_byte:
  assumes "0 < n"
  shows "popcount (ucast (trunc_slot n (r AND 0xFF)) :: u64) = popcount (ucast r :: u8)"
proof -
  have ff: "(0xFF :: slot) = mask 8" by (simp add: mask_eq_exp_minus_1)
  have upt: "[0..<LENGTH(64)] = [0..<8] @ [8..<64]"
    using upt_add_eq_append [of 0 8 56] by simp
  have "filter (bit (ucast (trunc_slot n (r AND 0xFF)) :: u64)) [0..<8] = filter (bit (ucast r :: u8)) [0..<8]"
    unfolding ff using assms by (intro filter_cong) (auto simp: bit_simps)
  moreover have "filter (bit (ucast (trunc_slot n (r AND 0xFF)) :: u64)) [8..<64] = []"
    unfolding ff by (auto simp: filter_empty_conv bit_simps)
  ultimately show ?thesis unfolding popcount_def upt by simp
qed

lemma parity_bit:
  assumes "valid_size n" "0 < k"
  shows "bit (trunc_slot k (ucast (word_of_nat (popcount (ucast (trunc_slot n (r AND 0xFF)) :: u64)) :: u64) XOR 1 :: slot)) 0
     \<longleftrightarrow> even_parity r"
proof -
  have "0 < n" using assms(1) by (auto simp: valid_size_def)
  then show ?thesis
    using assms(2)
    by (simp add: popcount_low_byte even_parity_def bit_trunc_slot bit_xor_iff bit_ucast_iff
        bit_of_nat_iff)
       (simp add: bit_0)
qed

lemma effect_flag_PF:
  assumes "opnd c m B N Res r"
  shows "effect c m B (flag_PF Res) (\<lambda>x. if ABINoPF B then x else set_flag PF_LOC (even_parity r) x)"
proof (rule effect_runs)
  fix B1 L S V X p assume e: "extends c m B B1" "view c m B1 L S V X p" and p: "p = ABINoPF B"
  note d = opnd_view [OF assms(1) e]
  show "runs c m L S V X p (flag_PF Res) (\<lambda>_ B2. ctx_of c m B2 =
      (if ABINoPF B then X else set_flag PF_LOC (even_parity r) X))"
    unfolding flag_PF_def
    apply (rule flag_rules, simp)
    apply (cases "ABINoPF B")
     apply (simp add: p, rule flag_rules, simp, simp)
    apply (simp add: p d)
    apply ((rule flag_rules, (simp add: d)[1], (simp add: d split del: if_split)?)+)
    apply (simp add: parity_bit)
    done
qed

lemma bit_not_one [simp]: "bit (ucast (NOT 0 :: u64) :: slot) i \<longleftrightarrow> i < 64" "bit (ucast (- 1 :: u64) :: slot) i \<longleftrightarrow> i < 64"
  by (auto simp: bit_simps)

lemma effect_flag_OF_add:
  assumes "opnd c m B N Res r" "opnd c m B N Src1 a" "opnd c m B N Src2 b" "valid_size N"
  shows "effect c m B (flag_OF_add N Res Src1 Src2)
    (set_flag OF_LOC (bit (NOT (a XOR b) AND (r XOR a)) (N * 8 - 1)))"
proof (rule effect_runs)
  fix B1 L S V X p assume e: "extends c m B B1" "view c m B1 L S V X p"
  note d = opnd_view [OF assms(1) e] opnd_view [OF assms(2) e] opnd_view [OF assms(3) e] assms(4)
  have N: "N = Suc 0 \<or> N = 2 \<or> N = 4 \<or> N = 8" using assms(4) by (auto simp: valid_size_def)
  show "runs c m L S V X p (flag_OF_add N Res Src1 Src2) (\<lambda>_ B2. ctx_of c m B2 =
     set_flag OF_LOC (bit (NOT (a XOR b) AND (r XOR a)) (N * 8 - 1)) X)"
    unfolding flag_OF_add_def
    by ((rule flag_rules, (simp add: d trunc_simps)[1], (simp add: d N split del: if_split)?)+)
       (use d(10,20,30) in \<open>auto simp: d trunc_simps bit_simps\<close>)
qed

lemma effect_flag_OF_sbb:
  assumes "opnd c m B N Res r" "opnd c m B N Src1 a" "opnd c m B N Src2 b" "valid_size N"
  shows "effect c m B (flag_OF_sbb N Res Src1 Src2)
    (set_flag OF_LOC (bit ((a XOR b) AND (r XOR a)) (N * 8 - 1)))"
proof (rule effect_runs)
  fix B1 L S V X p assume e: "extends c m B B1" "view c m B1 L S V X p"
  note d = opnd_view [OF assms(1) e] opnd_view [OF assms(2) e] opnd_view [OF assms(3) e] assms(4)
  have N: "N = Suc 0 \<or> N = 2 \<or> N = 4 \<or> N = 8" using assms(4) by (auto simp: valid_size_def)
  show "runs c m L S V X p (flag_OF_sbb N Res Src1 Src2) (\<lambda>_ B2. ctx_of c m B2 =
     set_flag OF_LOC (bit ((a XOR b) AND (r XOR a)) (N * 8 - 1)) X)"
    unfolding flag_OF_sbb_def
    by ((rule flag_rules, (simp add: d trunc_simps)[1], (simp add: d N split del: if_split)?)+)
       (auto simp: d trunc_simps bit_simps)
qed

lemma max_4_ge [simp]: "N \<le> s \<Longrightarrow> N \<le> max 4 (s :: nat)"
  by simp

lemma ucond_bool [simp]: "ucond COND_EQ a b \<longleftrightarrow> a = b" by simp

lemma effect_flag_CF_carry:
  assumes "opnd c m B N Res r" "opnd c m B N Src s" "opnd c m B 1 CF (bool_slot cin)"
    "unsigned_cond Strict" "unsigned_cond Weak"
  shows "effect c m B (flag_CF_carry Strict Weak Res Src CF)
    (set_flag CF_LOC (if cin then ucond Weak r s else ucond Strict r s))"
proof (rule effect_runs)
  fix B1 L S V X p assume e: "extends c m B B1" "view c m B1 L S V X p"
  note d = opnd_view [OF assms(1) e] opnd_view [OF assms(2) e] opnd_view [OF assms(3) e] assms(4,5)
  have one: "trunc_slot 8 1 = 1" by (rule bit_word_eqI) (auto simp: bit_simps)
  have eq1: "bool_slot cin = 1 \<longleftrightarrow> cin" by (simp add: bool_slot_def)
  show "runs c m L S V X p (flag_CF_carry Strict Weak Res Src CF) (\<lambda>_ B2. ctx_of c m B2 =
     set_flag CF_LOC (if cin then ucond Weak r s else ucond Strict r s) X)"
    unfolding flag_CF_carry_def
    by ((rule flag_rules, (simp add: d)[1], (simp add: d one eq1 le_max_iff_disj split del: if_split)?)+)
       (auto simp: d one eq1 le_max_iff_disj)
qed

lemma effect_flag_ZF_sub:
  assumes "opnd c m B N Res r"
  shows "effect c m B (flag_ZF_sub Res) (set_flag ZF_LOC (r = 0))"
proof (rule effect_runs)
  fix B1 L S V X p assume e: "extends c m B B1" "view c m B1 L S V X p"
  note d = opnd_view [OF assms(1) e]
  show "runs c m L S V X p (flag_ZF_sub Res) (\<lambda>_ B2. ctx_of c m B2 = set_flag ZF_LOC (r = 0) X)"
    unfolding flag_ZF_sub_def
    by ((rule flag_rules, (simp add: d)[1], (simp add: d split del: if_split)?)+)
       (simp add: d bit_trunc_slot)
qed

lemma effect_flag_CF_sub:
  assumes "opnd c m B N Src1 a" "opnd c m B N Src2 b"
  shows "effect c m B (flag_CF_sub Src1 Src2) (set_flag CF_LOC (a < b))"
proof (rule effect_runs)
  fix B1 L S V X p assume e: "extends c m B B1" "view c m B1 L S V X p"
  note d = opnd_view [OF assms(1) e] opnd_view [OF assms(2) e]
  show "runs c m L S V X p (flag_CF_sub Src1 Src2) (\<lambda>_ B2. ctx_of c m B2 = set_flag CF_LOC (a < b) X)"
    unfolding flag_CF_sub_def
    by ((rule flag_rules, (simp add: d)[1], (simp add: d le_max_iff_disj split del: if_split)?)+)
       (simp add: d bit_trunc_slot)
qed

lemma effect_flag_CF_add:
  assumes "opnd c m B N Src1 a" "opnd c m B N Src2 b"
  shows "effect c m B (flag_CF_add Src1 Src2) (set_flag CF_LOC (a < b))"
proof (rule effect_runs)
  fix B1 L S V X p assume e: "extends c m B B1" "view c m B1 L S V X p"
  note d = opnd_view [OF assms(1) e] opnd_view [OF assms(2) e]
  show "runs c m L S V X p (flag_CF_add Src1 Src2) (\<lambda>_ B2. ctx_of c m B2 = set_flag CF_LOC (a < b) X)"
    unfolding flag_CF_add_def
    by ((rule flag_rules, (simp add: d)[1], (simp add: d le_max_iff_disj split del: if_split)?)+)
       (simp add: d bit_trunc_slot)
qed

lemma effect_flag_OF_sub:
  assumes "opnd c m B N Res r" "opnd c m B N Src1 a" "opnd c m B N Src2 b" "valid_size N"
  shows "effect c m B (flag_OF_sub N Res Src1 Src2)
    (set_flag OF_LOC (bit ((a XOR b) AND (r XOR a)) (N * 8 - 1)))"
proof (rule effect_runs)
  fix B1 L S V X p assume e: "extends c m B B1" "view c m B1 L S V X p"
  note d = opnd_view [OF assms(1) e] opnd_view [OF assms(2) e] opnd_view [OF assms(3) e] assms(4)
  show "runs c m L S V X p (flag_OF_sub N Res Src1 Src2) (\<lambda>_ B2. ctx_of c m B2 =
     set_flag OF_LOC (bit ((a XOR b) AND (r XOR a)) (N * 8 - 1)) X)"
    unfolding flag_OF_sub_def
    by ((rule flag_rules, (simp add: d trunc_simps)[1], (simp add: d split del: if_split)?)+)
       (auto simp: d trunc_simps bit_simps)
qed

lemma effect_flag_CF_OF_mul:
  assumes "wide c m B N Res r" "has_node c m B High sz h" "valid_size sz" "trunc_slot 8 h = h" "valid_size N"
  shows "effect c m B (flag_CF_OF_mul N Res High) (\<lambda>x.
    set_flag OF_LOC (h \<noteq> (if bit r (N * 8 - 1) then mask 64 else 0))
      (set_flag CF_LOC (h \<noteq> (if bit r (N * 8 - 1) then mask 64 else 0)) x))"
proof (rule effect_runs)
  fix B1 L S V X p assume e: "extends c m B B1" "view c m B1 L S V X p"
  note d = wide_view [OF assms(1) e] has_node_view [OF assms(2) e] assms(3,4,5) valid_size_le [OF assms(3)]
  have m: "trunc_slot 8 (mask 64) = mask 64" by (rule bit_word_eqI) (auto simp: bit_simps)
  show "runs c m L S V X p (flag_CF_OF_mul N Res High) (\<lambda>_ B2. ctx_of c m B2 =
    set_flag OF_LOC (h \<noteq> (if bit r (N * 8 - 1) then mask 64 else 0))
      (set_flag CF_LOC (h \<noteq> (if bit r (N * 8 - 1) then mask 64 else 0)) X))"
    unfolding flag_CF_OF_mul_def
    apply ((rule flag_rules, (simp add: d trunc_simps)[1], (simp add: d m split del: if_split)?)+)
    apply (auto simp: d trunc_simps bit_simps m split: if_splits)
    done
qed

lemma effect_flag_CF_OF_umul:
  assumes "opnd c m B N High h"
  shows "effect c m B (flag_CF_OF_umul High) (\<lambda>x.
    set_flag OF_LOC (h \<noteq> 0) (set_flag CF_LOC (h \<noteq> 0) x))"
proof (rule effect_runs)
  fix B1 L S V X p assume e: "extends c m B B1" "view c m B1 L S V X p"
  note d = opnd_view [OF assms(1) e]
  show "runs c m L S V X p (flag_CF_OF_umul High) (\<lambda>_ B2. ctx_of c m B2 =
    set_flag OF_LOC (h \<noteq> 0) (set_flag CF_LOC (h \<noteq> 0) X))"
    unfolding flag_CF_OF_umul_def
    apply ((rule flag_rules, (simp add: d trunc_simps)[1], (simp add: d split del: if_split)?)+)
    apply (auto simp: d trunc_simps bit_simps split: if_splits)
    done
qed

lemmas flag_block_effects =
  effect_flag_AF effect_flag_SF effect_flag_PF effect_flag_ZF effect_flag_OF_add effect_flag_OF_sbb
  effect_flag_CF_carry effect_SetRFLAG_const effect_flag_ZF_sub effect_flag_CF_sub effect_flag_CF_add
  effect_flag_OF_sub effect_flag_CF_OF_mul effect_flag_CF_OF_umul effect_if effect_return

section \<open>Addition, subtraction, logic\<close>

text \<open>The flags that depend on the result alone.\<close>

definition result_flags :: "bool \<Rightarrow> nat \<Rightarrow> slot \<Rightarrow> context_bytes \<Rightarrow> context_bytes" where
  "result_flags npf N r x =
     set_flag ZF_LOC (r = 0)
       ((if npf then (\<lambda>y. y) else set_flag PF_LOC (even_parity r))
         (set_flag SF_LOC (bit r (N * 8 - 1)) x))"

lemma effect_ADC:
  assumes "opnd c m B N Res r" "opnd c m B N Src1 a" "opnd c m B N Src2 b"
    "opnd c m B 1 CF (bool_slot cin)" "valid_size N"
  shows "effect c m B (CalculcateFlags_ADC N Res Src1 Src2 CF) (\<lambda>x.
    set_flag OF_LOC (bit (NOT (a XOR b) AND (r XOR a)) (N * 8 - 1))
      (set_flag CF_LOC (if cin then r \<le> b else r < b)
        (result_flags (ABINoPF B) N r (set_flag AF_LOC (bit (a XOR b XOR r) 4) x))))"
  unfolding CalculcateFlags_ADC_def
  by (rule effect_cong, (rule effect_bind flag_block_effects assms unsigned_cond_simps)+)
     (simp add: result_flags_def)

lemma effect_SBB:
  assumes "opnd c m B N Res r" "opnd c m B N Src1 a" "opnd c m B N Src2 b"
    "opnd c m B 1 CF (bool_slot cin)" "valid_size N"
  shows "effect c m B (CalculcateFlags_SBB N Res Src1 Src2 CF) (\<lambda>x.
    set_flag OF_LOC (bit ((a XOR b) AND (r XOR a)) (N * 8 - 1))
      (set_flag CF_LOC (if cin then r \<ge> a else r > a)
        (result_flags (ABINoPF B) N r (set_flag AF_LOC (bit (a XOR b XOR r) 4) x))))"
  unfolding CalculcateFlags_SBB_def
  by (rule effect_cong, (rule effect_bind flag_block_effects assms unsigned_cond_simps)+)
     (simp add: result_flags_def)

lemma effect_SUB:
  assumes "opnd c m B N Res r" "opnd c m B N Src1 a" "opnd c m B N Src2 b" "valid_size N"
  shows "effect c m B (CalculcateFlags_SUB N Res Src1 Src2 UpdateCF) (\<lambda>x.
    set_flag OF_LOC (bit ((a XOR b) AND (r XOR a)) (N * 8 - 1))
      ((if UpdateCF then set_flag CF_LOC (a < b) else (\<lambda>y. y))
        (result_flags (ABINoPF B) N r (set_flag AF_LOC (bit (a XOR b XOR r) 4) x))))"
  unfolding CalculcateFlags_SUB_def
  by (rule effect_cong, (rule effect_bind flag_block_effects assms unsigned_cond_simps)+)
     (simp add: result_flags_def)

lemma effect_ADD:
  assumes "opnd c m B N Res r" "opnd c m B N Src1 a" "opnd c m B N Src2 b" "valid_size N"
  shows "effect c m B (CalculcateFlags_ADD N Res Src1 Src2 UpdateCF) (\<lambda>x.
    set_flag OF_LOC (bit (NOT (a XOR b) AND (r XOR a)) (N * 8 - 1))
      ((if UpdateCF then set_flag CF_LOC (r < b) else (\<lambda>y. y))
        (result_flags (ABINoPF B) N r (set_flag AF_LOC (bit (a XOR b XOR r) 4) x))))"
  unfolding CalculcateFlags_ADD_def
  by (rule effect_cong, (rule effect_bind flag_block_effects assms unsigned_cond_simps)+)
     (simp add: result_flags_def)

lemma effect_Logical:
  assumes "opnd c m B N Res r" "valid_size N"
  shows "effect c m B (CalculcateFlags_Logical N Res Src1 Src2) (\<lambda>x.
    set_flag OF_LOC False (set_flag CF_LOC False
      (result_flags (ABINoPF B) N r (set_flag AF_LOC False x))))"
  unfolding CalculcateFlags_Logical_def
  by (rule effect_cong, (rule effect_bind flag_block_effects assms unsigned_cond_simps)+)
     (simp add: result_flags_def)

lemma effect_MUL:
  assumes "wide c m B N Res r" "has_node c m B High sz h" "valid_size sz" "trunc_slot 8 h = h" "valid_size N"
  shows "effect c m B (CalculcateFlags_MUL N Res High) (\<lambda>x.
    set_flag OF_LOC (h \<noteq> (if bit r (N * 8 - 1) then mask 64 else 0))
      (set_flag CF_LOC (h \<noteq> (if bit r (N * 8 - 1) then mask 64 else 0))
        (set_flag SF_LOC False (set_flag ZF_LOC False (set_flag AF_LOC False (set_flag PF_LOC False x))))))"
  unfolding CalculcateFlags_MUL_def
  by (rule effect_cong, (rule effect_bind flag_block_effects assms unsigned_cond_simps)+) simp

lemma effect_UMUL:
  assumes "opnd c m B N High h"
  shows "effect c m B (CalculcateFlags_UMUL High) (\<lambda>x.
    set_flag OF_LOC (h \<noteq> 0) (set_flag CF_LOC (h \<noteq> 0)
        (set_flag ZF_LOC False (set_flag PF_LOC False (set_flag SF_LOC False (set_flag AF_LOC False x))))))"
  unfolding CalculcateFlags_UMUL_def
  by (rule effect_cong, (rule effect_bind flag_block_effects assms unsigned_cond_simps)+) simp

section \<open>Shifts by a register amount\<close>

text \<open>A flag that is kept when the amount is zero.\<close>

definition keep_flag :: "slot \<Rightarrow> nat \<Rightarrow> bool \<Rightarrow> context_bytes \<Rightarrow> context_bytes" where
  "keep_flag cnt loc P x = set_flag loc (if cnt = 0 then bit (x (off_flags + loc)) 0 else P) x"

lemma keep_flag_set:
  "set_flag loc Q X = keep_flag cnt loc P X \<longleftrightarrow> set_flag loc Q X = set_flag loc (if cnt = 0 then bit (X (off_flags + loc)) 0 else P) X"
  by (simp add: keep_flag_def)

lemma bit_trunc_max [simp]: "bit (trunc_slot (max 4 s) v) 0 \<longleftrightarrow> bit v 0"
  by (auto simp: bit_trunc_slot)

lemmas cond_defs = COND_FLAG_SET_def COND_FLAG_SET_zero_def GetRFLAG_def keep_flag_def

lemma effect_COND_FLAG_SET_zero:
  assumes "opnd c m B K Src2 cnt"
  shows "effect c m B (COND_FLAG_SET_zero Src2 loc) (keep_flag cnt loc False)"
proof (rule effect_runs)
  fix B1 L S V X p assume e: "extends c m B B1" "view c m B1 L S V X p"
  note d = opnd_view [OF assms(1) e]
  show "runs c m L S V X p (COND_FLAG_SET_zero Src2 loc) (\<lambda>_ B2. ctx_of c m B2 = keep_flag cnt loc False X)"
    unfolding cond_defs
    by ((rule flag_rules, (simp add: d)[1], (simp add: d split del: if_split)?)+)
       (simp add: d bit_ucast_iff trunc_simps)
qed

lemma effect_cond_ZF:
  assumes "opnd c m B N Res r" "opnd c m B K Src2 cnt"
  shows "effect c m B (cond_ZF Res Src2) (keep_flag cnt ZF_LOC (r = 0))"
proof (rule effect_runs)
  fix B1 L S V X p assume e: "extends c m B B1" "view c m B1 L S V X p"
  note d = opnd_view [OF assms(1) e] opnd_view [OF assms(2) e]
  show "runs c m L S V X p (cond_ZF Res Src2) (\<lambda>_ B2. ctx_of c m B2 = keep_flag cnt ZF_LOC (r = 0) X)"
    unfolding cond_defs cond_ZF_def
    by ((rule flag_rules, (simp add: d)[1], (simp add: d split del: if_split)?)+)
       (simp add: d bit_ucast_iff trunc_simps)
qed

lemma effect_cond_SF:
  assumes "opnd c m B N Res r" "opnd c m B K Src2 cnt" "valid_size N"
  shows "effect c m B (cond_SF N Res Src2) (keep_flag cnt SF_LOC (bit r (N * 8 - 1)))"
proof (rule effect_runs)
  fix B1 L S V X p assume e: "extends c m B B1" "view c m B1 L S V X p"
  note d = opnd_view [OF assms(1) e] opnd_view [OF assms(2) e] assms(3)
  show "runs c m L S V X p (cond_SF N Res Src2) (\<lambda>_ B2. ctx_of c m B2 = keep_flag cnt SF_LOC (bit r (N * 8 - 1)) X)"
    unfolding cond_defs cond_SF_def
    by ((rule flag_rules, (simp add: d trunc_simps)[1], (simp add: d split del: if_split)?)+)
       (simp add: d bit_ucast_iff trunc_simps)
qed

lemma effect_cond_SF_sar:
  assumes "opnd c m B M Res r" "opnd c m B K Src2 cnt" "valid_size N" "N \<le> M"
  shows "effect c m B (cond_SF_sar N Res Src2) (keep_flag cnt SF_LOC (bit r (N * 8 - 1)))"
proof (rule effect_runs)
  fix B1 L S V X p assume e: "extends c m B B1" "view c m B1 L S V X p"
  note d = opnd_view [OF assms(1) e] opnd_view [OF assms(2) e] assms(3)
  have lt: "N * 8 - Suc 0 < 8 * S Res" using valid_size_bits(2) [OF assms(3)] assms(4) d(3) by linarith
  show "runs c m L S V X p (cond_SF_sar N Res Src2) (\<lambda>_ B2. ctx_of c m B2 = keep_flag cnt SF_LOC (bit r (N * 8 - 1)) X)"
    unfolding cond_defs cond_SF_sar_def
    by ((rule flag_rules, (simp add: d lt trunc_simps)[1], (simp add: d lt trunc_simps split del: if_split)?)+)
       (simp add: d lt bit_ucast_iff trunc_simps bit_drop_bit_eq)
qed

lemma effect_cond_OF_xor:
  assumes "opnd c m B N Res r" "opnd c m B N Src1 a" "opnd c m B K Src2 cnt" "valid_size N"
  shows "effect c m B (cond_OF_xor N Res Src1 Src2) (keep_flag cnt OF_LOC (bit (a XOR r) (N * 8 - 1)))"
proof (rule effect_runs)
  fix B1 L S V X p assume e: "extends c m B B1" "view c m B1 L S V X p"
  note d = opnd_view [OF assms(1) e] opnd_view [OF assms(2) e] opnd_view [OF assms(3) e] assms(4)
  show "runs c m L S V X p (cond_OF_xor N Res Src1 Src2)
     (\<lambda>_ B2. ctx_of c m B2 = keep_flag cnt OF_LOC (bit (a XOR r) (N * 8 - 1)) X)"
    unfolding cond_defs cond_OF_xor_def
    by ((rule flag_rules, (simp add: d trunc_simps)[1], (simp add: d split del: if_split)?)+)
       (simp add: d bit_ucast_iff trunc_simps)
qed

lemma effect_cond_PF:
  assumes "opnd c m B N Res r" "opnd c m B K Src2 cnt"
  shows "effect c m B (cond_PF Res Src2)
    (\<lambda>x. if ABINoPF B then x else keep_flag cnt PF_LOC (even_parity r) x)"
proof (rule effect_runs)
  fix B1 L S V X p assume e: "extends c m B B1" "view c m B1 L S V X p" and p: "p = ABINoPF B"
  note d = opnd_view [OF assms(1) e] opnd_view [OF assms(2) e]
  show "runs c m L S V X p (cond_PF Res Src2) (\<lambda>_ B2. ctx_of c m B2 =
      (if ABINoPF B then X else keep_flag cnt PF_LOC (even_parity r) X))"
    unfolding cond_PF_def cond_defs
    apply (rule flag_rules, simp)
    apply (cases "ABINoPF B")
     apply (simp add: p, rule flag_rules, simp, simp)
    apply (simp add: p d split del: if_split)
    apply ((rule flag_rules, (simp add: d)[1], (simp add: d split del: if_split)?)+)
    apply (simp add: d parity_bit bit_ucast_iff bit_trunc_slot [of _ "ucast _"])
    done
qed

lemma shift_amount_small: "word_size sz \<Longrightarrow> unat v < 8 * sz \<Longrightarrow> shift_amount sz v = unat v"
proof -
  assume sz: "word_size sz" and v: "unat v < 8 * sz"
  have small: "unat v < 2 ^ 64" using sz v by (auto simp: word_size_def)
  have "unat (ucast (word_of_nat (unat v) :: u64) :: slot) = unat v"
    using small by (simp add: unsigned_ucast_eq unat_of_nat unsigned_take_bit_eq take_bit_nat_eq_self)
  then have "v = ucast (word_of_nat (unat v) :: u64)" by (simp add: word_unat_eq_iff)
  then show ?thesis using shift_amount_const [OF v sz] by simp
qed

lemma trunc_8_small: "unat v < 2 ^ 64 \<Longrightarrow> trunc_slot 8 v = v"
  by (simp add: trunc_slot_def take_bit_eq_mask [symmetric] word_unat_eq_iff unsigned_take_bit_eq
      take_bit_nat_eq_self)

lemma unat_sub_small:
  assumes "unat b \<le> n" "n \<le> 64"
  shows "unat (ucast (word_of_nat n :: u64) - b :: slot) = n - unat b"
proof -
  have "unat (ucast (word_of_nat n :: u64) :: slot) = n"
    using assms(2) by (simp add: unsigned_ucast_eq unat_of_nat take_bit_nat_eq_self)
  then show ?thesis using assms(1) by (simp add: unat_sub word_le_nat_alt)
qed

lemma unat_pred: "(v :: slot) \<noteq> 0 \<Longrightarrow> unat (v - 1) = unat v - 1"
  by (simp add: unat_sub word_le_nat_alt unat_gt_0 Suc_le_eq)

lemma effect_cond_CF_right:
  assumes "opnd c m B N Src1 a" "opnd c m B K Src2 cnt" "unat cnt \<le> 8 * max 4 N"
  shows "effect c m B (cond_CF_right Src1 Src2) (keep_flag cnt CF_LOC (bit a (unat cnt - 1)))"
proof (rule effect_runs)
  fix B1 L S V X p assume e: "extends c m B B1" "view c m B1 L S V X p"
  note d = opnd_view [OF assms(1) e] opnd_view [OF assms(2) e]
  have lt: "cnt \<noteq> 0 \<Longrightarrow> unat (cnt - 1) < 8 * max 4 (S Src1)" "cnt \<noteq> 0 \<Longrightarrow> trunc_slot 8 (cnt - 1) = cnt - 1"
    using assms(3) d(3,5) unat_gt_0 [of cnt] by (auto simp: unat_pred less_mult_max intro!: trunc_8_small)
  show "runs c m L S V X p (cond_CF_right Src1 Src2)
     (\<lambda>_ B2. ctx_of c m B2 = keep_flag cnt CF_LOC (bit a (unat cnt - 1)) X)"
    unfolding cond_defs cond_CF_right_def
    apply ((rule flag_rules, (simp add: d trunc_simps)[1], (simp add: d split del: if_split)?)+)
    apply (use lt in \<open>auto simp: d bit_ucast_iff bit_trunc_slot bit_and_iff bit_drop_bit_eq shift_amount_small unat_pred\<close>)
    done
qed

text \<open>An amount larger than the operand: the difference wraps around and names a bit above the operand, which is clear.\<close>

lemma shift_amount_mod:
  assumes "word_size sz"
  shows "shift_amount sz v = unat v mod (8 * sz)"
proof -
  have m: "(word_of_nat (sz * 8 - 1) :: u64) = mask (if sz = 4 then 5 else 6)"
    using assms by (auto simp: word_size_def mask_eq_exp_minus_1)
  have "unat (take_bit n (ucast v :: u64)) = unat v mod 2 ^ n" if "n \<le> 64" for n
    using that by (simp add: unsigned_take_bit_eq unsigned_ucast_eq take_bit_take_bit min_def flip: take_bit_eq_mod)
  then show ?thesis
    using assms unfolding shift_amount_def m by (auto simp: word_size_def take_bit_eq_mask [symmetric])
qed

lemma shift_amount_wrap:
  assumes "word_size sz" "n < unat c" "unat c \<le> 32" "n \<le> 32"
  shows "n \<le> shift_amount sz (trunc_slot 8 (ucast (word_of_nat n :: u64) - c :: slot))"
proof -
  let ?x = "ucast (word_of_nat n :: u64) - c :: slot"
  define k where "k = unat c"
  have k: "n < k" "k \<le> 32" using assms(2,3) by (simp_all add: k_def)
  have "uint (ucast (word_of_nat n :: u64) :: slot) = int n"
    using assms(4) by (simp add: unsigned_ucast_eq uint_nat unat_of_nat take_bit_nat_eq_self take_bit_int_eq_self)
  then have "uint ?x = (int n - int (unat c)) mod 2 ^ 128" by (simp add: uint_word_ariths)
  moreover have "uint (trunc_slot 8 ?x) = uint ?x mod 2 ^ 64"
    unfolding trunc_slot_def take_bit_eq_mask [symmetric] unsigned_take_bit_eq by (simp add: take_bit_eq_mod)
  ultimately have "uint (trunc_slot 8 ?x) = ((int n - int (unat c)) mod 2 ^ 128) mod 2 ^ 64" by simp
  then have t: "int (unat (trunc_slot 8 ?x)) = (int n - int (unat c)) mod 2 ^ 64"
    by (simp add: mod_mod_cancel)
  have "8 * sz dvd 2 ^ 64" using assms(1) by (auto simp: word_size_def)
  then have "int (8 * sz) dvd 2 ^ 64" by (metis of_nat_dvd_iff of_nat_numeral of_nat_power)
  then have "int (shift_amount sz (trunc_slot 8 ?x)) = (int n - int (unat c)) mod int (8 * sz)"
    unfolding shift_amount_mod [OF assms(1)] zmod_int t by (simp add: mod_mod_cancel)
  then have r: "int (shift_amount sz (trunc_slot 8 ?x)) = (int n - int k) mod int (8 * sz)" by (simp only: k_def)
  have "(int n - int k) mod int (8 * sz) = (int n - int k + int (8 * sz)) mod int (8 * sz)" by simp
  also have "\<dots> = int n - int k + int (8 * sz)"
    using assms(1) k by (intro mod_pos_pos_trivial) (auto simp: word_size_def)
  finally show ?thesis using r assms(1) k by (auto simp: word_size_def)
qed

lemma effect_cond_CF_left:
  assumes "opnd c m B N Src1 a" "opnd c m B K Src2 cnt" "unat cnt \<le> 8 * max 4 N" "valid_size N"
  shows "effect c m B (cond_CF_left N Src1 Src2) (keep_flag cnt CF_LOC (unat cnt \<le> 8 * N \<and> bit a (N * 8 - unat cnt)))"
proof (rule effect_runs)
  fix B1 L S V X p assume e: "extends c m B B1" "view c m B1 L S V X p"
  note d = opnd_view [OF assms(1) e] opnd_view [OF assms(2) e]
  let ?x = "ucast (word_of_nat (N * 8) :: u64) - cnt :: slot" and ?sz = "max 4 (S Src1)"
  have sz: "word_size ?sz" using d(2) by (auto simp: word_size_def valid_size_def)
  have "bit a (shift_amount ?sz (trunc_slot 8 ?x)) \<longleftrightarrow> unat cnt \<le> 8 * N \<and> bit a (N * 8 - unat cnt)" if nz: "cnt \<noteq> 0"
  proof (cases "unat cnt \<le> 8 * N")
    case True
    have u: "unat ?x = N * 8 - unat cnt" using True assms(4) by (intro unat_sub_small) (auto simp: valid_size_def)
    have "trunc_slot 8 ?x = ?x" using assms(4) by (intro trunc_8_small) (unfold u, auto simp: valid_size_def)
    moreover have "unat ?x < 8 * ?sz" using True nz d(3) unat_gt_0 [of cnt] unfolding u by (auto simp: less_mult_max)
    ultimately show ?thesis using True u shift_amount_small [OF sz] by simp
  next
    case False
    then have small: "N * 8 < unat cnt" "unat cnt \<le> 32" "N * 8 \<le> 32"
      using assms(3,4) by (auto simp: valid_size_def)
    have "\<not> bit a i" if "N * 8 \<le> i" for i using d(6) that by (metis bit_trunc_slot mult.commute not_le)
    then show ?thesis using shift_amount_wrap [OF sz small] False by blast
  qed
  moreover have "shift_amount ?sz v < 8 * ?sz" for v using shift_amount_mod [OF sz] by simp
  ultimately show "runs c m L S V X p (cond_CF_left N Src1 Src2)
     (\<lambda>_ B2. ctx_of c m B2 = keep_flag cnt CF_LOC (unat cnt \<le> 8 * N \<and> bit a (N * 8 - unat cnt)) X)"
    unfolding cond_defs cond_CF_left_def
    apply -
    apply ((rule flag_rules, (simp add: d trunc_simps del: of_nat_mult of_nat_numeral)[1], (simp add: d del: of_nat_mult of_nat_numeral split del: if_split)?)+)
    apply (auto simp: d bit_ucast_iff bit_trunc_slot bit_and_iff bit_drop_bit_eq simp del: of_nat_mult of_nat_numeral)
    done
qed

lemmas cond_block_effects =
  effect_bind effect_COND_FLAG_SET_zero effect_cond_ZF effect_cond_SF effect_cond_SF_sar
  effect_cond_OF_xor effect_cond_PF effect_cond_CF_right effect_cond_CF_left

lemma effect_ShiftLeft:
  assumes "opnd c m B N Res r" "opnd c m B N Src1 a" "opnd c m B K Src2 cnt"
    "unat cnt \<le> 8 * max 4 N" "valid_size N"
  shows "effect c m B (CalculcateFlags_ShiftLeft N Res Src1 Src2) (\<lambda>x.
    keep_flag cnt OF_LOC (bit (a XOR r) (N * 8 - 1)) (keep_flag cnt SF_LOC (bit r (N * 8 - 1))
      (keep_flag cnt ZF_LOC (r = 0) (keep_flag cnt AF_LOC False
        ((if ABINoPF B then (\<lambda>y. y) else keep_flag cnt PF_LOC (even_parity r))
          (keep_flag cnt CF_LOC (unat cnt \<le> 8 * N \<and> bit a (N * 8 - unat cnt)) x))))))"
  unfolding CalculcateFlags_ShiftLeft_def
  by (rule effect_cong, (rule cond_block_effects assms)+) simp

lemma effect_ShiftRight:
  assumes "opnd c m B N Res r" "opnd c m B N Src1 a" "opnd c m B K Src2 cnt"
    "unat cnt \<le> 8 * max 4 N" "valid_size N"
  shows "effect c m B (CalculcateFlags_ShiftRight N Res Src1 Src2) (\<lambda>x.
    keep_flag cnt OF_LOC (bit (a XOR r) (N * 8 - 1)) (keep_flag cnt SF_LOC (bit r (N * 8 - 1))
      (keep_flag cnt ZF_LOC (r = 0) (keep_flag cnt AF_LOC False
        ((if ABINoPF B then (\<lambda>y. y) else keep_flag cnt PF_LOC (even_parity r))
          (keep_flag cnt CF_LOC (bit a (unat cnt - 1)) x))))))"
  unfolding CalculcateFlags_ShiftRight_def
  by (rule effect_cong, (rule cond_block_effects assms)+) simp

lemma effect_SignShiftRight:
  assumes "opnd c m B M Res r" "opnd c m B M' Src1 a" "opnd c m B K Src2 cnt"
    "unat cnt \<le> 8 * max 4 M'" "valid_size N" "N \<le> M"
  shows "effect c m B (CalculcateFlags_SignShiftRight N Res Src1 Src2) (\<lambda>x.
    keep_flag cnt OF_LOC False (keep_flag cnt SF_LOC (bit r (N * 8 - 1))
      (keep_flag cnt ZF_LOC (r = 0) (keep_flag cnt AF_LOC False
        ((if ABINoPF B then (\<lambda>y. y) else keep_flag cnt PF_LOC (even_parity r))
          (keep_flag cnt CF_LOC (bit a (unat cnt - 1)) x))))))"
  unfolding CalculcateFlags_SignShiftRight_def
  by (rule effect_cong, (rule cond_block_effects assms)+) simp

section \<open>Shifts and rotates by an immediate\<close>

lemma sub_u8_le: "b \<le> a \<Longrightarrow> a \<le> 255 \<Longrightarrow> sub_u8 a b = a - b"
  by (simp add: sub_u8_def nat_mod_as_int [symmetric] nat_diff_distrib)

lemma effect_flag_bit:
  assumes "wide c m B N Src a" "lsb < 64"
  shows "effect c m B (flag_bit lsb Src loc) (set_flag loc (bit a lsb))"
proof (rule effect_runs)
  fix B1 L S V X p assume e: "extends c m B B1" "view c m B1 L S V X p"
  note d = wide_view [OF assms(1) e] assms(2)
  show "runs c m L S V X p (flag_bit lsb Src loc) (\<lambda>_ B2. ctx_of c m B2 = set_flag loc (bit a lsb) X)"
    unfolding flag_bit_def
    by ((rule flag_rules, (simp add: d)[1], (simp add: d split del: if_split)?)+)
qed

lemma effect_flag_SF_OF_shl:
  assumes "opnd c m B N Res r" "opnd c m B N Src1 a" "valid_size N"
  shows "effect c m B (flag_SF_OF_shl N Res Src1 Shift) (\<lambda>x.
    (if Shift = 1 then set_flag OF_LOC (bit (a XOR r) (N * 8 - 1)) else (\<lambda>y. y))
      (set_flag SF_LOC (bit r (N * 8 - 1)) x))"
proof (rule effect_runs)
  fix B1 L S V X p assume e: "extends c m B B1" "view c m B1 L S V X p"
  note d = opnd_view [OF assms(1) e] opnd_view [OF assms(2) e] assms(3)
  show "runs c m L S V X p (flag_SF_OF_shl N Res Src1 Shift) (\<lambda>_ B2. ctx_of c m B2 =
    (if Shift = 1 then set_flag OF_LOC (bit (a XOR r) (N * 8 - 1)) else (\<lambda>y. y))
      (set_flag SF_LOC (bit r (N * 8 - 1)) X))"
    unfolding flag_SF_OF_shl_def
    by (cases "Shift = 1"; simp only: if_True if_False simp_thms)
       ((rule flag_rules, (simp add: d trunc_simps)[1], (simp add: d trunc_simps bit_xor_iff split del: if_split)?)+)
qed

lemma effect_flag_OF_rol:
  assumes "wide c m B N Src1 a" "valid_size N"
  shows "effect c m B (flag_OF_rol N Src1) (set_flag OF_LOC (bit a (N * 8 - 1) \<noteq> bit a (N * 8 - 2)))"
proof (rule effect_runs)
  fix B1 L S V X p assume e: "extends c m B B1" "view c m B1 L S V X p"
  note d = wide_view [OF assms(1) e] assms(2)
  show "runs c m L S V X p (flag_OF_rol N Src1)
     (\<lambda>_ B2. ctx_of c m B2 = set_flag OF_LOC (bit a (N * 8 - 1) \<noteq> bit a (N * 8 - 2)) X)"
    unfolding flag_OF_rol_def
    by ((rule flag_rules, (simp add: d trunc_simps)[1], (simp add: d split del: if_split)?)+)
       (simp add: d trunc_simps bit_xor_iff)
qed

lemmas imm_block_effects =
  effect_bind flag_block_effects effect_flag_bit effect_flag_SF_OF_shl effect_flag_OF_rol

lemma effect_ShiftLeftImmediate:
  assumes "opnd c m B N Res r" "opnd c m B N Src1 a" "valid_size N" "0 < Shift" "Shift \<le> 8 * N"
  shows "effect c m B (CalculcateFlags_ShiftLeftImmediate N Res Src1 Shift) (\<lambda>x.
    (if Shift = 1 then set_flag OF_LOC (bit (a XOR r) (N * 8 - 1)) else (\<lambda>y. y))
      (set_flag SF_LOC (bit r (N * 8 - 1)) (set_flag ZF_LOC (r = 0) (set_flag AF_LOC False
        ((if ABINoPF B then (\<lambda>y. y) else set_flag PF_LOC (even_parity r))
          (set_flag CF_LOC (bit a (N * 8 - Shift)) x))))))"
proof -
  have s: "sub_u8 (N * 8) Shift = N * 8 - Shift" "N * 8 - Shift < 64"
    using assms(3,4,5) valid_size_le [OF assms(3)] by (auto simp: sub_u8_le)
  have nz: "(Shift = 0) = False" using assms(4) by simp
  show ?thesis
    unfolding CalculcateFlags_ShiftLeftImmediate_def nz if_False s(1)
    by (rule effect_cong, (rule imm_block_effects assms s opnd_wide)+) simp
qed

lemma effect_ShiftRightImmediate:
  assumes "opnd c m B N Res r" "opnd c m B N Src1 a" "valid_size N" "0 < Shift" "Shift \<le> 64"
  shows "effect c m B (CalculcateFlags_ShiftRightImmediate N Res Src1 Shift) (\<lambda>x.
    (if Shift = 1 then set_flag OF_LOC (bit a (N * 8 - 1)) else (\<lambda>y. y))
      (set_flag SF_LOC (bit r (N * 8 - 1)) (set_flag ZF_LOC (r = 0) (set_flag AF_LOC False
        ((if ABINoPF B then (\<lambda>y. y) else set_flag PF_LOC (even_parity r))
          (set_flag CF_LOC (bit a (Shift - 1)) x))))))"
proof -
  have s: "sub_u8 Shift 1 = Shift - 1" "Shift - 1 < 64" "N * 8 - 1 < 64"
    using assms(3,4,5) valid_size_le [OF assms(3)] by (auto simp: sub_u8_le valid_size_bits)
  have nz: "(Shift = 0) = False" using assms(4) by simp
  show ?thesis
    unfolding CalculcateFlags_ShiftRightImmediate_def nz if_False s(1)
    by (rule effect_cong, (rule imm_block_effects assms s opnd_wide)+) simp
qed

lemma effect_SignShiftRightImmediate:
  assumes "opnd c m B M Res r" "opnd c m B M' Src1 a" "valid_size N" "0 < Shift" "Shift \<le> 64" "N \<le> M"
  shows "effect c m B (CalculcateFlags_SignShiftRightImmediate N Res Src1 Shift) (\<lambda>x.
    (if Shift = 1 then set_flag OF_LOC False else (\<lambda>y. y))
      (set_flag SF_LOC (bit r (N * 8 - 1)) (set_flag ZF_LOC (r = 0) (set_flag AF_LOC False
        ((if ABINoPF B then (\<lambda>y. y) else set_flag PF_LOC (even_parity r))
          (set_flag CF_LOC (bit a (Shift - 1)) x))))))"
proof -
  have s: "sub_u8 Shift 1 = Shift - 1" "Shift - 1 < 64"
    using assms(3,4,5) valid_size_le [OF assms(3)] by (auto simp: sub_u8_le)
  have nz: "(Shift = 0) = False" using assms(4) by simp
  show ?thesis
    unfolding CalculcateFlags_SignShiftRightImmediate_def nz if_False s(1)
    by (rule effect_cong, (rule imm_block_effects effect_flag_SF_wide assms s opnd_wide)+) simp
qed

lemma effect_RotateLeftImmediate:
  assumes "wide c m B N Src1 a" "valid_size N" "0 < Shift" "Shift < 64"
  shows "effect c m B (CalculcateFlags_RotateLeftImmediate N Res Src1 Shift) (\<lambda>x.
    (if Shift = 1 then set_flag OF_LOC (bit a (N * 8 - 1) \<noteq> bit a (N * 8 - 2)) else (\<lambda>y. y))
      (set_flag CF_LOC (bit a Shift) x))"
proof -
  have s: "sub_u8 Shift 0 = Shift" using assms(4) by (simp add: sub_u8_le)
  have nz: "(Shift = 0) = False" using assms(3) by simp
  show ?thesis
    unfolding CalculcateFlags_RotateLeftImmediate_def nz if_False s(1)
    by (rule effect_cong, (rule imm_block_effects assms s opnd_wide)+) simp
qed

lemma effect_RotateRightImmediate:
  assumes "wide c m B N Res r" "wide c m B N Src1 a" "valid_size N" "0 < Shift" "Shift \<le> 8 * N"
  shows "effect c m B (CalculcateFlags_RotateRightImmediate N Res Src1 Shift) (\<lambda>x.
    (if Shift = 1 then set_flag OF_LOC (bit r (N * 8 - 1) \<noteq> bit a (N * 8 - Shift)) else (\<lambda>y. y))
      (set_flag CF_LOC (bit a (N * 8 - Shift)) x))"
proof (rule effect_runs)
  fix B1 L S V X p assume e: "extends c m B B1" "view c m B1 L S V X p"
  note d = wide_view [OF assms(1) e] wide_view [OF assms(2) e] assms(3)
  have s: "sub_u8 (N * 8) Shift = N * 8 - Shift" "N * 8 - Shift < 64"
    using assms(3,4,5) valid_size_le [OF assms(3)] by (auto simp: sub_u8_le)
  have nz: "(Shift = 0) = False" using assms(4) by simp
  show "runs c m L S V X p (CalculcateFlags_RotateRightImmediate N Res Src1 Shift) (\<lambda>_ B2. ctx_of c m B2 =
    (if Shift = 1 then set_flag OF_LOC (bit r (N * 8 - 1) \<noteq> bit a (N * 8 - Shift)) else (\<lambda>y. y))
      (set_flag CF_LOC (bit a (N * 8 - Shift)) X))"
    unfolding CalculcateFlags_RotateRightImmediate_def nz if_False s(1)
    by (cases "Shift = 1"; simp only: if_True if_False simp_thms)
       ((rule flag_rules, (simp add: d s trunc_simps)[1], (simp add: d s trunc_simps bit_xor_iff split del: if_split)?)+)
qed

section \<open>Rotates by a register amount\<close>

lemma keep_flag_simp:
  "set_flag loc P X = keep_flag cnt loc Q X
     \<longleftrightarrow> set_flag loc P X = set_flag loc (if cnt = 0 then bit (X (off_flags + loc)) 0 else Q) X"
  by (simp add: keep_flag_def)

lemma set_flag_other [simp]: "loc \<noteq> loc' \<Longrightarrow> set_flag loc P x (off_flags + loc') = x (off_flags + loc')"
  by (simp add: set_flag_def)

lemma effect_RotateRight:
  assumes "wide c m B N Res r" "opnd c m B K Src2 cnt" "valid_size N"
  shows "effect c m B (CalculcateFlags_RotateRight N Res Src1 Src2) (\<lambda>x.
    keep_flag cnt OF_LOC (bit r (N * 8 - 2) \<noteq> bit r (N * 8 - 1))
      (keep_flag cnt CF_LOC (bit r (N * 8 - 1)) x))"
proof (rule effect_runs)
  fix B1 L S V X p assume e: "extends c m B B1" "view c m B1 L S V X p"
  note d = wide_view [OF assms(1) e] opnd_view [OF assms(2) e] assms(3)
  show "runs c m L S V X p (CalculcateFlags_RotateRight N Res Src1 Src2) (\<lambda>_ B2. ctx_of c m B2 =
    keep_flag cnt OF_LOC (bit r (N * 8 - 2) \<noteq> bit r (N * 8 - 1))
      (keep_flag cnt CF_LOC (bit r (N * 8 - 1)) X))"
    unfolding CalculcateFlags_RotateRight_def cond_rotate_def GetRFLAG_def bind_assoc
    apply ((rule flag_rules, (simp add: d trunc_simps)[1], (simp add: d split del: if_split)?)+)
    apply (auto simp: d trunc_simps bit_xor_iff bit_ucast_iff keep_flag_def flag_locs)
    done
qed

lemma effect_RotateLeft:
  assumes "wide c m B N Res r" "opnd c m B K Src2 cnt" "valid_size N"
  shows "effect c m B (CalculcateFlags_RotateLeft N Res Src1 Src2) (\<lambda>x.
    keep_flag cnt OF_LOC (bit r (N * 8 - 1) \<noteq> bit r 0)
      (keep_flag cnt CF_LOC (bit r 0) x))"
proof (rule effect_runs)
  fix B1 L S V X p assume e: "extends c m B B1" "view c m B1 L S V X p"
  note d = wide_view [OF assms(1) e] opnd_view [OF assms(2) e] assms(3)
  show "runs c m L S V X p (CalculcateFlags_RotateLeft N Res Src1 Src2) (\<lambda>_ B2. ctx_of c m B2 =
    keep_flag cnt OF_LOC (bit r (N * 8 - 1) \<noteq> bit r 0)
      (keep_flag cnt CF_LOC (bit r 0) X))"
    unfolding CalculcateFlags_RotateLeft_def cond_rotate_def GetRFLAG_def bind_assoc
    apply ((rule flag_rules, (simp add: d trunc_simps)[1], (simp add: d split del: if_split)?)+)
    apply (auto simp: d trunc_simps bit_xor_iff bit_ucast_iff keep_flag_def flag_locs)
    done
qed

section \<open>Comparison of floating-point values and bit manipulation\<close>

lemma effect_FCMP:
  assumes "has_node c m B Res sz r" "sz \<le> 8"
  shows "effect c m B (CalculcateFlags_FCMP N Res Src1 Src2) (\<lambda>x.
    set_flag OF_LOC False (set_flag SF_LOC False (set_flag AF_LOC False
      (set_flag PF_LOC (bit r FCMP_FLAG_UNORDERED) (set_flag ZF_LOC (bit r FCMP_FLAG_EQ)
        (set_flag CF_LOC (bit r FCMP_FLAG_LT) x))))))"
proof (rule effect_runs)
  fix B1 L S V X p assume e: "extends c m B B1" "view c m B1 L S V X p"
  note d = has_node_view [OF assms(1) e] assms(2) FCMP_FLAG_UNORDERED_def FCMP_FLAG_EQ_def FCMP_FLAG_LT_def
  show "runs c m L S V X p (CalculcateFlags_FCMP N Res Src1 Src2) (\<lambda>_ B2. ctx_of c m B2 =
    set_flag OF_LOC False (set_flag SF_LOC False (set_flag AF_LOC False
      (set_flag PF_LOC (bit r FCMP_FLAG_UNORDERED) (set_flag ZF_LOC (bit r FCMP_FLAG_EQ)
        (set_flag CF_LOC (bit r FCMP_FLAG_LT) X))))))"
    unfolding CalculcateFlags_FCMP_def
    by ((rule flag_rules, (simp add: d)[1], (simp add: d split del: if_split)?)+)
qed

lemma effect_flag_PF_zero:
  "effect c m B flag_PF_zero (\<lambda>x. if ABINoPF B then x else set_flag PF_LOC False x)"
proof (rule effect_runs)
  fix B1 L S V X p assume p: "p = ABINoPF B"
  show "runs c m L S V X p flag_PF_zero (\<lambda>_ B2. ctx_of c m B2 =
      (if ABINoPF B then X else set_flag PF_LOC False X))"
    unfolding flag_PF_zero_def SetRFLAG_const_def
    apply (rule flag_rules, simp)
    apply (cases "ABINoPF B"; simp add: p)
     apply (rule flag_rules, simp, simp)
    apply ((rule flag_rules, simp, simp?)+)
    done
qed

lemma effect_BEXTR:
  assumes "opnd c m B N Src r"
  shows "effect c m B (CalculcateFlags_BEXTR Src) (\<lambda>x.
    set_flag ZF_LOC (r = 0) ((if ABINoPF B then (\<lambda>y. y) else set_flag PF_LOC False)
      (set_flag SF_LOC False (set_flag AF_LOC False (set_flag OF_LOC False (set_flag CF_LOC False x))))))"
  unfolding CalculcateFlags_BEXTR_def
  by (rule effect_cong, (rule effect_bind effect_flag_PF_zero flag_block_effects assms)+) simp

text \<open>The bit-manipulation functions share the constants zero and one.\<close>

definition bmi_zeros :: "bool \<Rightarrow> context_bytes \<Rightarrow> context_bytes" where
  "bmi_zeros npf x =
     (if npf then (\<lambda>y. y) else set_flag PF_LOC False) (set_flag AF_LOC False (set_flag OF_LOC False x))"

lemmas bmi_defs = zero_OF_AF_PF_def flag_PF_node_def select_flag_def flag_SF_def bmi_zeros_def

lemma trunc_1 [simp]: "0 < n \<Longrightarrow> trunc_slot n 1 = 1"
  by (rule bit_word_eqI) (auto simp: bit_simps)

lemma trunc_8_ucast [simp]: "trunc_slot 8 (ucast (x :: u64)) = ucast x"
  by (rule bit_word_eqI) (auto simp: bit_simps dest: bit_imp_le_length)

lemma effect_BLSI:
  assumes "opnd c m B N Src r" "valid_size N"
  shows "effect c m B (CalculcateFlags_BLSI N Src) (\<lambda>x. set_flag SF_LOC (bit r (N * 8 - 1)) (set_flag CF_LOC (r \<noteq> 0) (set_flag ZF_LOC (r = 0)
    (bmi_zeros (ABINoPF B) x))))"
proof (rule effect_runs)
  fix B1 L S V X p assume e: "extends c m B B1" "view c m B1 L S V X p" and p: "p = ABINoPF B"
  note d = opnd_view [OF assms(1) e] assms(2)
  show "runs c m L S V X p (CalculcateFlags_BLSI N Src) (\<lambda>_ B2. ctx_of c m B2 =
    set_flag SF_LOC (bit r (N * 8 - 1)) (set_flag CF_LOC (r \<noteq> 0) (set_flag ZF_LOC (r = 0)
    (bmi_zeros (ABINoPF B) X))))"
    unfolding CalculcateFlags_BLSI_def bmi_defs bind_assoc p
    by (cases "ABINoPF B"; (rule flag_rules, (simp add: d trunc_simps)[1],
          (simp add: d trunc_simps bit_drop_bit_eq split del: if_split)?)+)
       (auto simp: d trunc_simps bit_drop_bit_eq)
qed

lemma effect_BLSMSK:
  assumes "opnd c m B N Src r"
  shows "effect c m B (CalculcateFlags_BLSMSK Src) (\<lambda>x. set_flag CF_LOC (r \<noteq> 0) (bmi_zeros (ABINoPF B) (set_flag ZF_LOC False x)))"
proof (rule effect_runs)
  fix B1 L S V X p assume e: "extends c m B B1" "view c m B1 L S V X p" and p: "p = ABINoPF B"
  note d = opnd_view [OF assms(1) e]
  show "runs c m L S V X p (CalculcateFlags_BLSMSK Src) (\<lambda>_ B2. ctx_of c m B2 =
    set_flag CF_LOC (r \<noteq> 0) (bmi_zeros (ABINoPF B) (set_flag ZF_LOC False X)))"
    unfolding CalculcateFlags_BLSMSK_def bmi_defs bind_assoc p
    by (cases "ABINoPF B"; (rule flag_rules, (simp add: d trunc_simps)[1],
          (simp add: d trunc_simps bit_drop_bit_eq split del: if_split)?)+)
       (auto simp: d trunc_simps bit_drop_bit_eq)
qed

lemma effect_BLSR:
  assumes "opnd c m B N Result r" "opnd c m B N Src a" "valid_size N"
  shows "effect c m B (CalculcateFlags_BLSR N Result Src) (\<lambda>x. set_flag SF_LOC (bit r (N * 8 - 1)) (set_flag CF_LOC (a \<noteq> 0) (set_flag ZF_LOC (r = 0)
    (bmi_zeros (ABINoPF B) x))))"
proof (rule effect_runs)
  fix B1 L S V X p assume e: "extends c m B B1" "view c m B1 L S V X p" and p: "p = ABINoPF B"
  note d = opnd_view [OF assms(1) e] opnd_view [OF assms(2) e] assms(3)
  show "runs c m L S V X p (CalculcateFlags_BLSR N Result Src) (\<lambda>_ B2. ctx_of c m B2 =
    set_flag SF_LOC (bit r (N * 8 - 1)) (set_flag CF_LOC (a \<noteq> 0) (set_flag ZF_LOC (r = 0)
    (bmi_zeros (ABINoPF B) X))))"
    unfolding CalculcateFlags_BLSR_def bmi_defs bind_assoc p
    by (cases "ABINoPF B"; (rule flag_rules, (simp add: d trunc_simps)[1],
          (simp add: d trunc_simps bit_drop_bit_eq split del: if_split)?)+)
       (auto simp: d trunc_simps bit_drop_bit_eq)
qed

lemma effect_BZHI:
  assumes "opnd c m B N Result r" "opnd c m B K Src a" "valid_size N"
  shows "effect c m B (CalculcateFlags_BZHI N Result Src) (\<lambda>x. set_flag SF_LOC (bit r (N * 8 - 1)) (set_flag CF_LOC (a > ucast (word_of_nat (N * 8 - 1) :: u64))
    (set_flag ZF_LOC (r = 0) (bmi_zeros (ABINoPF B) x))))"
proof (rule effect_runs)
  fix B1 L S V X p assume e: "extends c m B B1" "view c m B1 L S V X p" and p: "p = ABINoPF B"
  note d = opnd_view [OF assms(1) e] opnd_view [OF assms(2) e] assms(3)
  show "runs c m L S V X p (CalculcateFlags_BZHI N Result Src) (\<lambda>_ B2. ctx_of c m B2 =
    set_flag SF_LOC (bit r (N * 8 - 1)) (set_flag CF_LOC (a > ucast (word_of_nat (N * 8 - 1) :: u64))
    (set_flag ZF_LOC (r = 0) (bmi_zeros (ABINoPF B) X))))"
    unfolding CalculcateFlags_BZHI_def bmi_defs bind_assoc p
    by (cases "ABINoPF B"; (rule flag_rules, (simp add: d trunc_simps)[1],
          (simp add: d trunc_simps bit_drop_bit_eq split del: if_split)?)+)
       (auto simp: d trunc_simps bit_drop_bit_eq)
qed

lemma effect_POPCOUNT:
  assumes "opnd c m B N Src r"
  shows "effect c m B (CalculcateFlags_POPCOUNT Src) (\<lambda>x. set_flag OF_LOC False (set_flag SF_LOC False (set_flag ZF_LOC (r = 0)
    (set_flag AF_LOC False (set_flag PF_LOC False (set_flag CF_LOC False x))))))"
proof (rule effect_runs)
  fix B1 L S V X p assume e: "extends c m B B1" "view c m B1 L S V X p" and p: "p = ABINoPF B"
  note d = opnd_view [OF assms(1) e]
  show "runs c m L S V X p (CalculcateFlags_POPCOUNT Src) (\<lambda>_ B2. ctx_of c m B2 =
    set_flag OF_LOC False (set_flag SF_LOC False (set_flag ZF_LOC (r = 0)
    (set_flag AF_LOC False (set_flag PF_LOC False (set_flag CF_LOC False X))))))"
    unfolding CalculcateFlags_POPCOUNT_def bmi_defs bind_assoc p
    by (cases "ABINoPF B"; (rule flag_rules, (simp add: d trunc_simps)[1],
          (simp add: d trunc_simps bit_drop_bit_eq split del: if_split)?)+)
       (auto simp: d trunc_simps bit_drop_bit_eq)
qed

lemma effect_TZCNT:
  assumes "opnd c m B N Src r"
  shows "effect c m B (CalculcateFlags_TZCNT Src) (\<lambda>x. set_flag ZF_LOC (bit r 0) (set_flag CF_LOC (r = 0) x))"
proof (rule effect_runs)
  fix B1 L S V X p assume e: "extends c m B B1" "view c m B1 L S V X p" and p: "p = ABINoPF B"
  note d = opnd_view [OF assms(1) e]
  show "runs c m L S V X p (CalculcateFlags_TZCNT Src) (\<lambda>_ B2. ctx_of c m B2 =
    set_flag ZF_LOC (bit r 0) (set_flag CF_LOC (r = 0) X))"
    unfolding CalculcateFlags_TZCNT_def bmi_defs bind_assoc p
    by (cases "ABINoPF B"; (rule flag_rules, (simp add: d trunc_simps)[1],
          (simp add: d trunc_simps bit_drop_bit_eq split del: if_split)?)+)
       (auto simp: d trunc_simps bit_drop_bit_eq)
qed

lemma effect_LZCNT:
  assumes "opnd c m B N Src r" "valid_size N"
  shows "effect c m B (CalculcateFlags_LZCNT N Src) (\<lambda>x. set_flag ZF_LOC (bit r (N * 8 - 1)) (set_flag CF_LOC (r = 0) x))"
proof (rule effect_runs)
  fix B1 L S V X p assume e: "extends c m B B1" "view c m B1 L S V X p" and p: "p = ABINoPF B"
  note d = opnd_view [OF assms(1) e] assms(2)
  show "runs c m L S V X p (CalculcateFlags_LZCNT N Src) (\<lambda>_ B2. ctx_of c m B2 =
    set_flag ZF_LOC (bit r (N * 8 - 1)) (set_flag CF_LOC (r = 0) X))"
    unfolding CalculcateFlags_LZCNT_def bmi_defs bind_assoc p
    by (cases "ABINoPF B"; (rule flag_rules, (simp add: d trunc_simps)[1],
          (simp add: d trunc_simps bit_drop_bit_eq split del: if_split)?)+)
       (auto simp: d trunc_simps bit_drop_bit_eq)
qed

lemma effect_BITSELECT:
  assumes "opnd c m B N Src r"
  shows "effect c m B (CalculcateFlags_BITSELECT Src) (\<lambda>x. set_flag ZF_LOC (r = 0) x)"
proof (rule effect_runs)
  fix B1 L S V X p assume e: "extends c m B B1" "view c m B1 L S V X p" and p: "p = ABINoPF B"
  note d = opnd_view [OF assms(1) e]
  show "runs c m L S V X p (CalculcateFlags_BITSELECT Src) (\<lambda>_ B2. ctx_of c m B2 =
    set_flag ZF_LOC (r = 0) X)"
    unfolding CalculcateFlags_BITSELECT_def bmi_defs bind_assoc p
    by (cases "ABINoPF B"; (rule flag_rules, (simp add: d trunc_simps)[1],
          (simp add: d trunc_simps bit_drop_bit_eq split del: if_split)?)+)
       (auto simp: d trunc_simps bit_drop_bit_eq)
qed

lemma effect_RDRAND:
  assumes "opnd c m B N Src r"
  shows "effect c m B (CalculcateFlags_RDRAND Src) (\<lambda>x. set_flag CF_LOC (bit r 0) (set_flag PF_LOC False (set_flag AF_LOC False
    (set_flag ZF_LOC False (set_flag SF_LOC False (set_flag OF_LOC False x))))))"
proof (rule effect_runs)
  fix B1 L S V X p assume e: "extends c m B B1" "view c m B1 L S V X p" and p: "p = ABINoPF B"
  note d = opnd_view [OF assms(1) e]
  show "runs c m L S V X p (CalculcateFlags_RDRAND Src) (\<lambda>_ B2. ctx_of c m B2 =
    set_flag CF_LOC (bit r 0) (set_flag PF_LOC False (set_flag AF_LOC False
    (set_flag ZF_LOC False (set_flag SF_LOC False (set_flag OF_LOC False X))))))"
    unfolding CalculcateFlags_RDRAND_def bmi_defs bind_assoc p
    by (cases "ABINoPF B"; (rule flag_rules, (simp add: d trunc_simps)[1],
          (simp add: d trunc_simps bit_drop_bit_eq split del: if_split)?)+)
qed

end
