(* ===== verification/X86_Flags_Correct.thy ===== *)
theory X86_Flags_Correct
  imports X86_Arch X86_Flags_Effect
begin

text \<open>
  The flags that the code of \<^verbatim>\<open>OpcodeDispatcher/Flags.cpp\<close> stores are the flags of the x86
  architecture.
\<close>

section \<open>Sample blocks\<close>

text \<open>A block of 64-bit constants, for concrete runs.\<close>

definition const_node :: "u64 \<Rightarrow> ir_node" where
  "const_node v = \<lparr>Op = IR_Constant v, Size = 8, ElementSize = 8\<rparr>"

definition const_builder :: "u64 list \<Rightarrow> builder" where
  "const_builder vs = \<lparr>code = map const_node vs, CurrentDeferredFlags = TYPE_NONE, flagsOp = SF_Nothing,
     flagsOpSize = 0, flagsOpDest = 0, flagsOpSrc = 0, flagsOpDestSigned = 0, flagsOpSrcSigned = 0,
     ABINoPF = False, Is64BitMode = True\<rparr>"

lemma const_builder_snoc:
  "run_code c m (const_builder (vs @ [v]))
     = exec_node (node_size (map const_node vs)) (length vs) (const_node v) (run_code c m (const_builder vs))"
  using run_code_emit [of c m "const_builder vs" "const_node v"]
  by (simp add: const_builder_def run_code_def)

lemma const_builder_run:
  "Fault (run_code c m (const_builder vs)) = None \<and> ctx_of c m (const_builder vs) = c
   \<and> (\<forall>i < length vs. val_of c m (const_builder vs) i = ucast (vs ! i))"
proof (induction vs rule: rev_induct)
  case Nil
  show ?case by (simp add: const_builder_def run_code_def boot_def)
next
  case (snoc v vs)
  have "val_of c m (const_builder vs) (length vs) = 0"
    by (rule run_code_fresh) (simp add: const_builder_def)
  then have "run_code c m (const_builder (vs @ [v])) = set_slot (length vs) (ucast v) (run_code c m (const_builder vs))"
    using snoc.IH unfolding const_builder_snoc by (simp add: const_node_def exec_node_def Op_Constant_fresh)
  then show ?case using snoc.IH by (auto simp: set_slot_def nth_append less_Suc_eq)
qed

lemma const_builder_fields [simp]:
  "ok c m (const_builder vs)" "ctx_of c m (const_builder vs) = c" "ABINoPF (const_builder vs) = False"
  "CurrentDeferredFlags (const_builder vs) = TYPE_NONE"
  using const_builder_run [of c m vs] by (auto simp: const_builder_def)

lemma const_builder_node:
  "i < length vs \<Longrightarrow> v = ucast (vs ! i) \<Longrightarrow> has_node c m (const_builder vs) i 8 v"
  using const_builder_run [of c m vs] by (auto simp: has_node_def const_builder_def node_size_def const_node_def)

lemma const_builder_wide:
  "i < length vs \<Longrightarrow> v = ucast (vs ! i) \<Longrightarrow> N \<le> 8 \<Longrightarrow> wide c m (const_builder vs) N i v"
  using const_builder_node by (fastforce simp: wide_def)

lemma const_builder_opnd:
  assumes "i < length vs" "v = ucast (vs ! i)" "N \<le> 8" "uint v < 2 ^ (8 * N)"
  shows "opnd c m (const_builder vs) N i v"
proof -
  have "uint (trunc_slot N v) = uint v"
    using assms(4) by (simp add: uint_trunc take_bit_int_eq_self)
  then have "trunc_slot N v = v" by (rule unsigned_word_eqI)
  then show ?thesis using const_builder_wide [OF assms(1-3)] by (simp add: opnd_def)
qed

definition zero_ctx :: context_bytes where "zero_ctx = (\<lambda>_. 0)"
definition zero_mem :: memory where "zero_mem = (\<lambda>_. 0)"

abbreviation (input) emitted :: "unit emitter \<Rightarrow> builder \<Rightarrow> builder" where
  "emitted f B \<equiv> snd (run_state f B)"

abbreviation (input) flag_after :: "unit emitter \<Rightarrow> builder \<Rightarrow> nat \<Rightarrow> bool" where
  "flag_after f B \<equiv> get_flag (ctx_of zero_ctx zero_mem (emitted f B))"

section \<open>Cells as integers\<close>

text \<open>An operand of \<open>N\<close> bytes is a natural number below \<open>2 ^ (8 * N)\<close>.\<close>

lemma trunc_slot_bound:
  assumes "trunc_slot N v = v"
  shows "0 \<le> uint v" "uint v < 2 ^ (8 * N)"
proof -
  have "uint v = take_bit (8 * N) (uint v)"
    using arg_cong [OF assms, of uint] by (simp add: trunc_slot_def take_bit_eq_mask [symmetric] unsigned_take_bit_eq)
  then show "uint v < 2 ^ (8 * N)" by (metis take_bit_int_less_exp)
qed simp

lemma opnd_bound: "opnd c m B N n v \<Longrightarrow> 0 \<le> uint v \<and> uint v < 2 ^ (8 * N)"
  by (simp add: opnd_def trunc_slot_bound)

lemma even_parity_parity8: "even_parity r \<longleftrightarrow> parity8 (uint r)"
  by (simp add: even_parity_def parity8_def)

lemma bit_uint_slot: "n < 128 \<Longrightarrow> bit (v :: slot) n \<longleftrightarrow> bit (uint v) n"
  by (simp add: bit_uint_iff)

lemma uint_bits:
  assumes "n < 128"
  shows "bit (NOT (a XOR b) AND (r XOR (a :: slot))) n \<longleftrightarrow> bit (NOT (uint a XOR uint b) AND (uint r XOR uint a)) n"
    "bit ((a XOR b) AND (r XOR a)) n \<longleftrightarrow> bit ((uint a XOR uint b) AND (uint r XOR uint a)) n"
    "bit (a XOR b XOR r) n \<longleftrightarrow> bit (uint a XOR uint b XOR uint r) n"
  using assms by (auto simp: bit_simps)

lemma sign_bit_slot:
  assumes "valid_size N" "trunc_slot N r = r"
  shows "bit r (N * 8 - 1) \<longleftrightarrow> s_val (8 * N) (uint r) < 0"
proof -
  have W: "0 < 8 * N" "N * 8 - 1 < 128" using assms(1) by (auto simp: valid_size_def)
  note b = trunc_slot_bound [OF assms(2)]
  have "s_val (8 * N) (uint r) < 0 \<longleftrightarrow> 2 ^ (8 * N - 1) \<le> uint r"
    using b s_val_half [OF W(1) b] by auto
  also have "\<dots> \<longleftrightarrow> bit (uint r) (8 * N - 1)" using msb_half [OF W(1) b] by simp
  finally show ?thesis using W(2) by (simp add: bit_uint_slot mult.commute)
qed

lemma slot_zero: "r = 0 \<longleftrightarrow> uint (r :: slot) = 0"
  by (metis uint_0_eq unsigned_word_eqI)

lemma get_flag_set_flag: "get_flag (set_flag loc P x) loc' = (if loc = loc' then P else get_flag x loc')"
  by (auto simp: get_flag_def set_flag_def)

lemma set_flag_frame: "i \<noteq> off_flags + loc \<Longrightarrow> set_flag loc P x i = x i"
  by (simp add: set_flag_def)

lemma keep_flag_as_set: "keep_flag cnt loc P x = set_flag loc (if cnt = 0 then get_flag x loc else P) x"
  by (simp add: keep_flag_def get_flag_def)

lemmas flags_become_simps =
  flags_become_def flag_becomes_def status_locs_def get_flag_set_flag flag_locs set_flag_frame
  x86_result_def result_flags_def even_parity_parity8 slot_zero old_flags_def keep_flag_as_set

section \<open>Addition and subtraction\<close>

lemma add_CF:
  assumes "trunc_slot N r = r" "trunc_slot N a = a" "trunc_slot N b = b"
    and r: "uint r = (uint a + uint b + of_bool cin) mod 2 ^ (8 * N)"
  shows "(if cin then r \<le> b else r < b) \<longleftrightarrow> 2 ^ (8 * N) \<le> uint a + uint b + of_bool cin"
  using add_mod_cases [of "uint a" "8 * N" "uint b" "of_bool cin"] trunc_slot_bound [OF assms(2)] unsigned_greater_eq [of a]
    trunc_slot_bound [OF assms(3)] r
  by (cases cin) (auto simp: word_le_def word_less_def linorder_not_le split: if_splits dest: sym)

lemma sub_CF:
  assumes "trunc_slot N r = r" "trunc_slot N a = a" "trunc_slot N b = b"
    and r: "uint r = (uint a - uint b - of_bool cin) mod 2 ^ (8 * N)"
  shows "(if cin then r \<ge> a else r > a) \<longleftrightarrow> uint a < uint b + of_bool cin"
  using sub_mod_cases [of "uint a" "8 * N" "uint b" "of_bool cin"] trunc_slot_bound [OF assms(2)]
    trunc_slot_bound [OF assms(3)] r by (auto simp: word_le_def word_less_def split: if_splits)

lemma size_width: "valid_size N \<Longrightarrow> 0 < 8 * N \<and> 8 \<le> 8 * N \<and> N * 8 - 1 < 128"
  by (auto simp: valid_size_def)

lemma add_OF:
  assumes "valid_size N" "trunc_slot N a = a" "trunc_slot N b = b"
    and r: "uint r = (uint a + uint b + of_bool cin) mod 2 ^ (8 * N)"
  shows "bit (NOT (a XOR b) AND (r XOR a)) (N * 8 - 1) \<longleftrightarrow>
    \<not> in_range (8 * N) (s_val (8 * N) (uint a) + s_val (8 * N) (uint b) + of_bool cin)"
  using add_overflow_bit [of "8 * N" "uint a" "uint b" "of_bool cin" "uint r"] size_width [OF assms(1)]
    trunc_slot_bound [OF assms(2)] trunc_slot_bound [OF assms(3)] r
  by (simp add: uint_bits mult.commute)

lemma sub_OF:
  assumes "valid_size N" "trunc_slot N a = a" "trunc_slot N b = b"
    and r: "uint r = (uint a - uint b - of_bool cin) mod 2 ^ (8 * N)"
  shows "bit ((a XOR b) AND (r XOR a)) (N * 8 - 1) \<longleftrightarrow>
    \<not> in_range (8 * N) (s_val (8 * N) (uint a) - s_val (8 * N) (uint b) - of_bool cin)"
  using sub_overflow_bit [of "8 * N" "uint a" "uint b" "of_bool cin" "uint r"] size_width [OF assms(1)]
    trunc_slot_bound [OF assms(2)] trunc_slot_bound [OF assms(3)] r
  by (simp add: uint_bits mult.commute)

lemma add_AF:
  assumes "valid_size N" and r: "uint r = (uint a + uint b + of_bool cin) mod 2 ^ (8 * N)"
  shows "bit (a XOR b XOR r) 4 \<longleftrightarrow> 16 \<le> uint (a :: slot) mod 16 + uint b mod 16 + of_bool cin"
  using add_aux_bit [of "8 * N" "of_bool cin" "uint r" "uint a" "uint b"] size_width [OF assms(1)] r
  by (simp add: uint_bits)

lemma sub_AF:
  assumes "valid_size N" and r: "uint r = (uint a - uint b - of_bool cin) mod 2 ^ (8 * N)"
  shows "bit (a XOR b XOR r) 4 \<longleftrightarrow> uint (a :: slot) mod 16 < uint b mod 16 + of_bool cin"
  using sub_aux_bit [of "8 * N" "of_bool cin" "uint r" "uint a" "uint b"] size_width [OF assms(1)] r
  by (simp add: uint_bits)

text \<open>The result flags with carry, half carry and overflow stored around them.\<close>

lemma arith_flags_become:
  assumes "valid_size N" "trunc_slot N r = r"
  shows "flags_become npf ((x86_result (8 * N) (uint r))
       (AF_LOC \<mapsto> af, OF_LOC \<mapsto> ovf, CF_LOC := if u then Some cf else Some (get_flag x CF_LOC))) x
    (set_flag OF_LOC ovf ((if u then set_flag CF_LOC cf else (\<lambda>y. y))
      (result_flags npf N r (set_flag AF_LOC af x))))"
  by (simp add: flags_become_simps sign_bit_slot [OF assms, simplified])

text \<open>
  The code emitted by \<^verbatim>\<open>CalculcateFlags_ADC\<close> stores the x86 flags of an addition with carry
  whose result node holds the sum modulo the operand width: carry, half carry, signed overflow, sign,
  zero and parity, for operands of 1, 2, 4 or 8 bytes. It runs without a fault, keeps memory and every
  earlier value, and changes nothing else of the guest context.
\<close>

lemma CalculcateFlags_ADC_correct:
  assumes "ok c m B" "valid_size N"
    "opnd c m B N Res r" "opnd c m B N Src1 a" "opnd c m B N Src2 b" "opnd c m B 1 CF (bool_slot cin)"
    "uint r = (uint a + uint b + of_bool cin) mod 2 ^ (8 * N)"
    "run_state (CalculcateFlags_ADC N Res Src1 Src2 CF) B = (u, B')"
  shows "extends c m B B' \<and>
    flags_become (ABINoPF B) (x86_add (8 * N) (uint a) (uint b) (of_bool cin)) (ctx_of c m B) (ctx_of c m B')"
proof -
  note d = opndD(5) [OF assms(3)] opndD(5) [OF assms(4)] opndD(5) [OF assms(5)]
  note e = effectD [OF effect_ADC [OF assms(3-6,2)] assms(1,8)]
  show ?thesis
    using e arith_flags_become [OF assms(2) d(1), where npf = "ABINoPF B" and u = True]
    unfolding if_True add_CF [OF d assms(7)] add_AF [OF assms(2,7)] add_OF [OF assms(2) d(2,3) assms(7)]
    by (simp add: x86_add_def assms(7) split del: if_split)
qed

text \<open>
  The same for \<^verbatim>\<open>CalculcateFlags_SBB\<close> and the flags of a subtraction with borrow.
\<close>

lemma CalculcateFlags_SBB_correct:
  assumes "ok c m B" "valid_size N"
    "opnd c m B N Res r" "opnd c m B N Src1 a" "opnd c m B N Src2 b" "opnd c m B 1 CF (bool_slot cin)"
    "uint r = (uint a - uint b - of_bool cin) mod 2 ^ (8 * N)"
    "run_state (CalculcateFlags_SBB N Res Src1 Src2 CF) B = (u, B')"
  shows "extends c m B B' \<and>
    flags_become (ABINoPF B) (x86_sub (8 * N) (uint a) (uint b) (of_bool cin)) (ctx_of c m B) (ctx_of c m B')"
proof -
  note d = opndD(5) [OF assms(3)] opndD(5) [OF assms(4)] opndD(5) [OF assms(5)]
  note e = effectD [OF effect_SBB [OF assms(3-6,2)] assms(1,8)]
  show ?thesis
    using e arith_flags_become [OF assms(2) d(1), where npf = "ABINoPF B" and u = True]
    unfolding if_True sub_CF [OF d assms(7)] sub_AF [OF assms(2,7)] sub_OF [OF assms(2) d(2,3) assms(7)]
    by (simp add: x86_sub_def assms(7) split del: if_split)
qed

text \<open>
  \<^verbatim>\<open>CalculcateFlags_ADD\<close> stores the x86 flags of an addition; without \<^verbatim>\<open>UpdateCF\<close> (INC) the carry
  keeps its value.
\<close>

lemma CalculcateFlags_ADD_correct:
  assumes "ok c m B" "valid_size N"
    "opnd c m B N Res r" "opnd c m B N Src1 a" "opnd c m B N Src2 b"
    "uint r = (uint a + uint b) mod 2 ^ (8 * N)"
    "run_state (CalculcateFlags_ADD N Res Src1 Src2 UpdateCF) B = (u, B')"
  shows "extends c m B B' \<and>
    flags_become (ABINoPF B)
      ((x86_add (8 * N) (uint a) (uint b) 0)(CF_LOC := if UpdateCF then Some (2 ^ (8 * N) \<le> uint a + uint b)
         else Some (get_flag (ctx_of c m B) CF_LOC)))
      (ctx_of c m B) (ctx_of c m B')"
proof -
  have r: "uint r = (uint a + uint b + of_bool False) mod 2 ^ (8 * N)" using assms(6) by simp
  note d = opndD(5) [OF assms(3)] opndD(5) [OF assms(4)] opndD(5) [OF assms(5)]
  note e = effectD [OF effect_ADD [OF assms(3-5,2)] assms(1,7)]
  have CF: "r < b \<longleftrightarrow> 2 ^ (8 * N) \<le> uint a + uint b" using add_CF [OF d r] by simp
  show ?thesis
    using e arith_flags_become [OF assms(2) d(1), where npf = "ABINoPF B" and u = UpdateCF]
    unfolding CF add_AF [OF assms(2) r] add_OF [OF assms(2) d(2,3) r]
    by (simp add: x86_add_def assms(6) split del: if_split)
qed

text \<open>
  \<^verbatim>\<open>CalculcateFlags_SUB\<close> stores the x86 flags of a subtraction (SUB, CMP, NEG); without
  \<^verbatim>\<open>UpdateCF\<close> (DEC) the carry keeps its value.
\<close>

lemma CalculcateFlags_SUB_correct:
  assumes "ok c m B" "valid_size N"
    "opnd c m B N Res r" "opnd c m B N Src1 a" "opnd c m B N Src2 b"
    "uint r = (uint a - uint b) mod 2 ^ (8 * N)"
    "run_state (CalculcateFlags_SUB N Res Src1 Src2 UpdateCF) B = (u, B')"
  shows "extends c m B B' \<and>
    flags_become (ABINoPF B)
      ((x86_sub (8 * N) (uint a) (uint b) 0)(CF_LOC := if UpdateCF then Some (uint a < uint b)
         else Some (get_flag (ctx_of c m B) CF_LOC)))
      (ctx_of c m B) (ctx_of c m B')"
proof -
  have r: "uint r = (uint a - uint b - of_bool False) mod 2 ^ (8 * N)" using assms(6) by simp
  note d = opndD(5) [OF assms(3)] opndD(5) [OF assms(4)] opndD(5) [OF assms(5)]
  note e = effectD [OF effect_SUB [OF assms(3-5,2)] assms(1,7)]
  have CF: "a < b \<longleftrightarrow> uint a < uint b" by (simp add: word_less_def)
  show ?thesis
    using e arith_flags_become [OF assms(2) d(1), where npf = "ABINoPF B" and u = UpdateCF]
    unfolding CF sub_AF [OF assms(2) r] sub_OF [OF assms(2) d(2,3) r]
    by (simp add: x86_sub_def assms(6) split del: if_split)
qed

text \<open>\<^verbatim>\<open>CalculcateFlags_Logical\<close> stores the x86 flags of a bitwise operation.\<close>

lemma CalculcateFlags_Logical_correct:
  assumes "ok c m B" "valid_size N" "opnd c m B N Res r"
    "run_state (CalculcateFlags_Logical N Res Src1 Src2) B = (u, B')"
  shows "extends c m B B' \<and>
    flags_become (ABINoPF B) (x86_logical (8 * N) (uint r)) (ctx_of c m B) (ctx_of c m B')"
  using effectD [OF effect_Logical [OF assms(3,2)] assms(1,4)]
  by (auto simp: flags_become_simps x86_logical_def sign_bit_slot [OF assms(2) opndD(5) [OF assms(3)], simplified])

text \<open>
  C15: the code emitted by \<^verbatim>\<open>CalculcateFlags_ADC\<close> and \<^verbatim>\<open>CalculcateFlags_SBB\<close> stores the x86 flags of
  an addition with carry and of a subtraction with borrow whose result node holds the result modulo the
  operand width: carry, half carry, signed overflow, sign, zero and parity, for operands of 1, 2, 4 or 8
  bytes. It runs without a fault, keeps memory and every earlier value, and changes nothing else of the
  guest context.
\<close>

theorem carry_arith_flags_correct:
  assumes "ok c m B" "valid_size N" "opnd c m B N Res r" "opnd c m B N Src1 a" "opnd c m B N Src2 b" "opnd c m B 1 CF (bool_slot cin)"
  shows "(uint r = (uint a + uint b + of_bool cin) mod 2 ^ (8 * N) \<longrightarrow> run_state (CalculcateFlags_ADC N Res Src1 Src2 CF) B = (u, B') \<longrightarrow>
      extends c m B B' \<and> flags_become (ABINoPF B) (x86_add (8 * N) (uint a) (uint b) (of_bool cin)) (ctx_of c m B) (ctx_of c m B'))
    \<and> (uint r = (uint a - uint b - of_bool cin) mod 2 ^ (8 * N) \<longrightarrow> run_state (CalculcateFlags_SBB N Res Src1 Src2 CF) B = (u, B') \<longrightarrow>
      extends c m B B' \<and> flags_become (ABINoPF B) (x86_sub (8 * N) (uint a) (uint b) (of_bool cin)) (ctx_of c m B) (ctx_of c m B'))"
  using CalculcateFlags_ADC_correct [OF assms] CalculcateFlags_SBB_correct [OF assms] by blast

text \<open>
  C28: \<^verbatim>\<open>CalculcateFlags_ADD\<close> and \<^verbatim>\<open>CalculcateFlags_SUB\<close> store the x86 flags of an addition and of a
  subtraction (SUB, CMP, NEG), where without \<^verbatim>\<open>UpdateCF\<close> (INC, DEC) the carry keeps its value, and
  \<^verbatim>\<open>CalculcateFlags_Logical\<close> those of a bitwise operation.
\<close>

theorem arith_flags_correct:
  assumes "ok c m B" "valid_size N" "opnd c m B N Res r" "opnd c m B N Src1 a" "opnd c m B N Src2 b"
  shows "(uint r = (uint a + uint b) mod 2 ^ (8 * N) \<longrightarrow> run_state (CalculcateFlags_ADD N Res Src1 Src2 UpdateCF) B = (u, B') \<longrightarrow>
      extends c m B B' \<and> flags_become (ABINoPF B) ((x86_add (8 * N) (uint a) (uint b) 0)
        (CF_LOC := if UpdateCF then Some (2 ^ (8 * N) \<le> uint a + uint b) else Some (get_flag (ctx_of c m B) CF_LOC))) (ctx_of c m B) (ctx_of c m B'))
    \<and> (uint r = (uint a - uint b) mod 2 ^ (8 * N) \<longrightarrow> run_state (CalculcateFlags_SUB N Res Src1 Src2 UpdateCF) B = (u, B') \<longrightarrow>
      extends c m B B' \<and> flags_become (ABINoPF B) ((x86_sub (8 * N) (uint a) (uint b) 0)
        (CF_LOC := if UpdateCF then Some (uint a < uint b) else Some (get_flag (ctx_of c m B) CF_LOC))) (ctx_of c m B) (ctx_of c m B'))
    \<and> (run_state (CalculcateFlags_Logical N Res Src1 Src2) B = (u, B') \<longrightarrow> extends c m B B' \<and>
      flags_become (ABINoPF B) (x86_logical (8 * N) (uint r)) (ctx_of c m B) (ctx_of c m B'))"
  using CalculcateFlags_ADD_correct [OF assms] CalculcateFlags_SUB_correct [OF assms]
    CalculcateFlags_Logical_correct [OF assms(1-3)] by blast

section \<open>Shifts\<close>

lemma shift_flags_become:
  assumes "valid_size N" "trunc_slot N r = r" "cnt \<noteq> 0 \<Longrightarrow> cf' = cf" "unat cnt = 1 \<Longrightarrow> ovf' = ovf"
  shows "flags_become npf (x86_shift (8 * N) (uint r) (unat cnt) cf ovf x) x
    (keep_flag cnt OF_LOC ovf' (keep_flag cnt SF_LOC (bit r (N * 8 - 1))
      (keep_flag cnt ZF_LOC (r = 0) (keep_flag cnt AF_LOC False
        ((if npf then (\<lambda>y. y) else keep_flag cnt PF_LOC (even_parity r)) (keep_flag cnt CF_LOC cf' x))))))"
  using assms(3,4)
  by (auto simp: flags_become_simps x86_shift_def sign_bit_slot [OF assms(1,2), simplified] unat_eq_0)

lemma shl_bits:
  assumes "valid_size N" "trunc_slot N a = a" "0 < k" "k \<le> 8 * N"
  shows "bit a (N * 8 - k) \<longleftrightarrow> bit (uint a * 2 ^ k) (8 * N)"
proof -
  have "bit (uint a * 2 ^ k) (8 * N) \<longleftrightarrow> bit (push_bit k (uint a)) (8 * N)" by (simp add: push_bit_eq_mult)
  also have "\<dots> \<longleftrightarrow> bit (uint a) (8 * N - k)" using assms(4) by (simp add: bit_push_bit_iff)
  moreover have "N * 8 - k < 128" using assms(1,3) by (auto simp: valid_size_def)
  ultimately show ?thesis by (simp add: bit_uint_iff mult.commute)
qed

lemma shl_bits_any:
  assumes "valid_size N" "trunc_slot N a = a" "0 < k"
  shows "k \<le> 8 * N \<and> bit a (N * 8 - k) \<longleftrightarrow> bit (uint a * 2 ^ k) (8 * N)"
proof (cases "k \<le> 8 * N")
  case True
  then show ?thesis using shl_bits [OF assms(1-3)] by simp
next
  case False
  have "bit (uint a * 2 ^ k) (8 * N) \<longleftrightarrow> bit (push_bit k (uint a)) (8 * N)" by (simp add: push_bit_eq_mult)
  then show ?thesis using False by (simp add: bit_push_bit_iff)
qed

lemma shl_OF:
  assumes "valid_size N" "trunc_slot N a = a" "trunc_slot N r = r"
  shows "bit (a XOR r) (N * 8 - 1) \<longleftrightarrow> (s_val (8 * N) (uint r) < 0) \<noteq> bit (uint a * 2 ^ 1) (8 * N)"
  using shl_bits [OF assms(1,2), of 1] size_width [OF assms(1)] sign_bit_slot [OF assms(1,3)]
  by (auto simp: bit_xor_iff)

lemma shr_OF:
  assumes "valid_size N" "trunc_slot N a = a" "uint r = uint a div 2 ^ 1"
  shows "bit (a XOR r) (N * 8 - 1) \<longleftrightarrow> s_val (8 * N) (uint a) < 0"
proof -
  have "bit (uint r) (8 * N - 1) \<longleftrightarrow> bit (uint a) (8 * N)"
    using size_width [OF assms(1)] unfolding assms(3) drop_bit_eq_div [symmetric] by (simp add: bit_drop_bit_eq)
  also have "\<dots> \<longleftrightarrow> False" using assms(2) by (metis bit_trunc_slot bit_uint_iff less_irrefl)
  finally have "\<not> bit r (N * 8 - 1)"
    using size_width [OF assms(1)] by (simp add: bit_uint_iff mult.commute)
  then show ?thesis using sign_bit_slot [OF assms(1,2)] by (simp add: bit_xor_iff)
qed

lemma sar_CF:
  assumes "valid_size N" "k < 8 * N"
  shows "bit a k \<longleftrightarrow> bit (s_val (8 * N) (uint (a :: slot))) k"
proof -
  have "k < 128" "min (8 * N - 1) k = k" using assms by (auto simp: valid_size_def)
  then show ?thesis by (simp add: s_val_def bit_signed_take_bit_iff bit_uint_iff)
qed

lemma unat_pos: "(w :: slot) \<noteq> 0 \<Longrightarrow> 0 < unat w"
  by (simp add: unat_gt_0)

text \<open>
  \<^verbatim>\<open>CalculcateFlags_ShiftLeft\<close> stores the x86 flags of a left shift by a register amount: for amount zero every flag
  keeps its value, otherwise the carry is the last bit shifted out (clear when the amount exceeds the operand), and
  for amount one the overflow is the exclusive or of the carry and the sign. Amounts go up to 32 for operands of up to
  32 bits, and up to 64 for 64-bit operands; the dispatcher masks them to 31 and 63.
\<close>

lemma CalculcateFlags_ShiftLeft_correct:
  assumes "ok c m B" "valid_size N" "opnd c m B K Src2 cnt" "unat cnt \<le> 8 * max 4 N"
    "opnd c m B N Res r" "opnd c m B N Src1 a" "uint r = (uint a * 2 ^ unat cnt) mod 2 ^ (8 * N)"
    "run_state (CalculcateFlags_ShiftLeft N Res Src1 Src2) B = (u, B')"
  shows "extends c m B B' \<and>
    flags_become (ABINoPF B) (x86_shl (8 * N) (uint a) (unat cnt) (ctx_of c m B)) (ctx_of c m B) (ctx_of c m B')"
  using effectD [OF effect_ShiftLeft [OF assms(5,6,3,4,2)] assms(1,8)]
    shift_flags_become [OF assms(2) opndD(5) [OF assms(5)], of cnt "unat cnt \<le> 8 * N \<and> bit a (N * 8 - unat cnt)"
      "bit (uint a * 2 ^ unat cnt) (8 * N)" "bit (a XOR r) (N * 8 - 1)"
      "(s_val (8 * N) (uint r) < 0) \<noteq> bit (uint a * 2 ^ unat cnt) (8 * N)" "ABINoPF B" "ctx_of c m B"]
    shl_bits_any [OF assms(2) opndD(5) [OF assms(6)] unat_pos, of cnt]
    shl_OF [OF assms(2) opndD(5) [OF assms(6)] opndD(5) [OF assms(5)]]
  by (simp add: x86_shl_def Let_def assms(7))

text \<open>The same for \<^verbatim>\<open>CalculcateFlags_ShiftRight\<close> and the logical right shift.\<close>

lemma CalculcateFlags_ShiftRight_correct:
  assumes "ok c m B" "valid_size N" "opnd c m B K Src2 cnt" "unat cnt \<le> 8 * max 4 N"
    "opnd c m B N Res r" "opnd c m B N Src1 a" "uint r = uint a div 2 ^ unat cnt"
    "run_state (CalculcateFlags_ShiftRight N Res Src1 Src2) B = (u, B')"
  shows "extends c m B B' \<and>
    flags_become (ABINoPF B) (x86_shr (8 * N) (uint a) (unat cnt) (ctx_of c m B)) (ctx_of c m B) (ctx_of c m B')"
proof -
  have "unat cnt \<le> 64" using assms(2,4) by (auto simp: valid_size_def)
  then have "bit a (unat cnt - 1) \<longleftrightarrow> bit (uint a) (unat cnt - 1)" by (intro bit_uint_slot) linarith
  then show ?thesis
    using effectD [OF effect_ShiftRight [OF assms(5,6,3,4,2)] assms(1,8)]
      shift_flags_become [OF assms(2) opndD(5) [OF assms(5)], of cnt "bit a (unat cnt - 1)"
        "bit (uint a) (unat cnt - 1)" "bit (a XOR r) (N * 8 - 1)" "s_val (8 * N) (uint a) < 0" "ABINoPF B" "ctx_of c m B"]
      shr_OF [OF assms(2) opndD(5) [OF assms(6)], of r]
    by (simp add: x86_shr_def assms(7))
qed

text \<open>
  The arithmetic right shift works on operands that are sign-extended to \<open>M\<close> bytes: the dispatcher extends 8-bit and
  16-bit operands to 64 bits first. The result is looked at through the bits of the operand size.
\<close>

definition sign_extended :: "nat \<Rightarrow> nat \<Rightarrow> slot \<Rightarrow> bool" where
  "sign_extended N M a \<longleftrightarrow> uint a = s_val (8 * N) (uint a) mod 2 ^ (8 * M)"

lemma small_mod_zero:
  assumes "- (2 ^ n) \<le> (q :: int)" "q < 2 ^ n" "n < m"
  shows "q mod 2 ^ m = 0 \<longleftrightarrow> q = 0"
proof -
  have "(2 :: int) ^ n < 2 ^ m" using assms(3) by simp
  then have "\<bar>q\<bar> < \<bar>2 ^ m\<bar>" using assms(1,2) by (simp only: abs_power2 abs_less_iff abs_numeral power_abs) linarith
  then have "q = 0" if "2 ^ m dvd q" using dvd_imp_le_int [OF _ that] by fastforce
  then show ?thesis by (auto simp: mod_eq_0_iff_dvd)
qed

lemma div_power_between:
  assumes "- b \<le> (s :: int)" "s < b" "0 < b"
  shows "- b \<le> s div 2 ^ k" "s div 2 ^ k < b"
proof -
  have d: "(0 :: int) < 2 ^ k" "(1 :: int) \<le> 2 ^ k" by simp_all
  have "- b * 2 ^ k \<le> - b" using mult_left_mono [OF d(2), of b] assms(3) by simp
  then have "(- b * 2 ^ k) div 2 ^ k \<le> s div 2 ^ k" using assms(1) d(1) by (intro zdiv_mono1) linarith+
  moreover have "(- b * 2 ^ k) div 2 ^ k = - b" by (rule nonzero_mult_div_cancel_right) simp
  ultimately show "- b \<le> s div 2 ^ k" by linarith
  have "b \<le> b * 2 ^ k" using mult_left_mono [OF d(2), of b] assms(3) by simp
  then have "s < b * 2 ^ k" using assms(2) by linarith
  moreover have "s div 2 ^ k * 2 ^ k \<le> s" by (simp add: minus_mod_eq_div_mult [symmetric])
  ultimately have "s div 2 ^ k * 2 ^ k < b * 2 ^ k" by linarith
  then show "s div 2 ^ k < b" by (rule mult_right_less_imp_less) simp
qed

lemma s_val_div_range:
  "- (2 ^ (w - 1)) \<le> s_val w x div 2 ^ k" "s_val w x div 2 ^ k < 2 ^ (w - 1)"
  using div_power_between [of "2 ^ (w - 1)" "s_val w x" k]
  by (simp_all add: s_val_def signed_take_bit_int_greater_eq_minus_exp signed_take_bit_int_less_exp)

lemma even_parity_trunc:
  assumes "valid_size N"
  shows "even_parity (trunc_slot N r) = even_parity r"
proof -
  have "(ucast (trunc_slot N r) :: u8) = ucast r"
    by (rule bit_word_eqI) (use assms in \<open>auto simp: bit_ucast_iff bit_trunc_slot valid_size_def\<close>)
  then show ?thesis by (simp add: even_parity_def)
qed

lemma sar_result:
  assumes "valid_size N" "N \<le> M" "M \<le> 8" "uint (r :: slot) = (s_val (8 * N) x div 2 ^ k) mod 2 ^ (8 * M)"
  shows "uint (trunc_slot N r) = (s_val (8 * N) x div 2 ^ k) mod 2 ^ (8 * N)" "r = 0 \<longleftrightarrow> trunc_slot N r = 0"
    "even_parity (trunc_slot N r) = even_parity r" "bit (trunc_slot N r) (N * 8 - 1) = bit r (N * 8 - 1)"
    "trunc_slot N (trunc_slot N r) = trunc_slot N r"
proof -
  have "(2 :: int) ^ (8 * N) dvd 2 ^ (8 * M)" using assms(2) by (intro le_imp_power_dvd) simp
  moreover have "uint (trunc_slot N r) = uint r mod 2 ^ (8 * N)"
    unfolding trunc_slot_def take_bit_eq_mask [symmetric] unsigned_take_bit_eq by (simp add: take_bit_eq_mod)
  ultimately show t: "uint (trunc_slot N r) = (s_val (8 * N) x div 2 ^ k) mod 2 ^ (8 * N)"
    unfolding assms(4) by (simp add: mod_mod_cancel)
  have "8 * N - 1 < 8 * N" "8 * N - 1 < 8 * M" using size_width [OF assms(1)] assms(2) by linarith+
  then have "uint r = 0 \<longleftrightarrow> uint (trunc_slot N r) = 0"
    using small_mod_zero [OF s_val_div_range [of "8 * N" x k]] by (simp only: t assms(4))
  then show "r = 0 \<longleftrightarrow> trunc_slot N r = 0" by (simp add: uint_0_iff)
  show "even_parity (trunc_slot N r) = even_parity r"
    by (rule even_parity_trunc [OF assms(1)])
  show "bit (trunc_slot N r) (N * 8 - 1) = bit r (N * 8 - 1)"
    using valid_size_bits(2) [OF assms(1)] by (simp add: bit_trunc_slot)
  show "trunc_slot N (trunc_slot N r) = trunc_slot N r" by (simp add: trunc_slot_trunc)
qed

lemma CalculcateFlags_SignShiftRight_correct:
  assumes "ok c m B" "valid_size N" "opnd c m B K Src2 cnt" "unat cnt \<le> 8 * max 4 N"
    "opnd c m B M Res r" "opnd c m B M Src1 a" "4 \<le> M" "N \<le> M" "sign_extended N M a"
    "uint r = (s_val (8 * N) (uint a) div 2 ^ unat cnt) mod 2 ^ (8 * M)"
    "run_state (CalculcateFlags_SignShiftRight N Res Src1 Src2) B = (u, B')"
  shows "extends c m B B' \<and>
    flags_become (ABINoPF B) (x86_sar (8 * N) (uint a) (unat cnt) (ctx_of c m B)) (ctx_of c m B) (ctx_of c m B')"
proof -
  have M: "M \<le> 8" using opndD(2,3) [OF assms(5)] valid_size_le by (meson order_trans)
  have cnt: "unat cnt \<le> 8 * max 4 M" "unat cnt \<le> 8 * M" using assms(4,7,8) by auto
  note r = sar_result [OF assms(2,8) M assms(10)]
  have cf: "bit a (unat cnt - 1) \<longleftrightarrow> bit (s_val (8 * N) (uint a)) (unat cnt - 1)" if "cnt \<noteq> 0"
  proof -
    have "unat cnt - 1 < 8 * M" using cnt(2) unat_pos [OF that] by linarith
    moreover have "bit a (unat cnt - 1) \<longleftrightarrow> bit (uint a) (unat cnt - 1)" using cnt(2) M by (intro bit_uint_slot) linarith
    ultimately show ?thesis using assms(9) unfolding sign_extended_def
      by (metis bit_take_bit_iff take_bit_eq_mod)
  qed
  show ?thesis
    using effectD [OF effect_SignShiftRight [OF assms(5,6,3) cnt(1) assms(2,8)] assms(1,11)]
      shift_flags_become [OF assms(2) r(5), of cnt "bit a (unat cnt - 1)"
        "bit (s_val (8 * N) (uint a)) (unat cnt - 1)" False False "ABINoPF B" "ctx_of c m B"] cf
    unfolding r(1,3,4) by (simp add: x86_sar_def r(2))
qed

text \<open>
  C31: \<^verbatim>\<open>CalculcateFlags_ShiftLeft\<close>, \<^verbatim>\<open>CalculcateFlags_ShiftRight\<close> and
  \<^verbatim>\<open>CalculcateFlags_SignShiftRight\<close> store the x86 flags of a shift by a register amount: for amount zero every flag
  keeps its value, otherwise the carry is the last bit shifted out, and for amount one the overflow is the one the
  architecture defines for each shift. The amounts include all that the dispatcher's mask leaves, also those larger
  than an 8-bit or 16-bit operand. The operands of the logical shifts are zero-extended, those of the arithmetic
  shift sign-extended to at least 32 bits, as the dispatcher passes them.
\<close>

theorem register_shift_flags_correct:
  assumes "ok c m B" "valid_size N" "opnd c m B K Src2 cnt" "unat cnt \<le> 8 * max 4 N"
  shows "(opnd c m B N Res r \<longrightarrow> opnd c m B N Src1 a \<longrightarrow> uint r = (uint a * 2 ^ unat cnt) mod 2 ^ (8 * N) \<longrightarrow>
      run_state (CalculcateFlags_ShiftLeft N Res Src1 Src2) B = (u, B') \<longrightarrow>
      extends c m B B' \<and> flags_become (ABINoPF B) (x86_shl (8 * N) (uint a) (unat cnt) (ctx_of c m B)) (ctx_of c m B) (ctx_of c m B'))
    \<and> (opnd c m B N Res r \<longrightarrow> opnd c m B N Src1 a \<longrightarrow> uint r = uint a div 2 ^ unat cnt \<longrightarrow>
      run_state (CalculcateFlags_ShiftRight N Res Src1 Src2) B = (u, B') \<longrightarrow>
      extends c m B B' \<and> flags_become (ABINoPF B) (x86_shr (8 * N) (uint a) (unat cnt) (ctx_of c m B)) (ctx_of c m B) (ctx_of c m B'))
    \<and> (opnd c m B M Res r \<longrightarrow> opnd c m B M Src1 a \<longrightarrow> 4 \<le> M \<longrightarrow> N \<le> M \<longrightarrow> sign_extended N M a \<longrightarrow>
      uint r = (s_val (8 * N) (uint a) div 2 ^ unat cnt) mod 2 ^ (8 * M) \<longrightarrow>
      run_state (CalculcateFlags_SignShiftRight N Res Src1 Src2) B = (u, B') \<longrightarrow>
      extends c m B B' \<and> flags_become (ABINoPF B) (x86_sar (8 * N) (uint a) (unat cnt) (ctx_of c m B)) (ctx_of c m B) (ctx_of c m B'))"
  using CalculcateFlags_ShiftLeft_correct [OF assms] CalculcateFlags_ShiftRight_correct [OF assms]
    CalculcateFlags_SignShiftRight_correct [OF assms] by blast

text \<open>Shifts by an immediate.\<close>

lemma shift_imm_become:
  assumes "valid_size N" "trunc_slot N r = r" "0 < k" "cf' = cf" "k = 1 \<Longrightarrow> ovf' = ovf"
  shows "flags_become npf (x86_shift (8 * N) (uint r) k cf ovf x) x
    ((if k = 1 then set_flag OF_LOC ovf' else (\<lambda>y. y))
      (set_flag SF_LOC (bit r (N * 8 - 1)) (set_flag ZF_LOC (r = 0) (set_flag AF_LOC False
        ((if npf then (\<lambda>y. y) else set_flag PF_LOC (even_parity r)) (set_flag CF_LOC cf' x))))))"
  using assms(3,4,5)
  by (auto simp: flags_become_simps x86_shift_def sign_bit_slot [OF assms(1,2), simplified])

lemma ShiftLeftImmediate_become:
  assumes "ok c m B" "valid_size N" "opnd c m B N Res r" "opnd c m B N Src1 a" "0 < k" "k \<le> 8 * N"
    "uint r = (uint a * 2 ^ k) mod 2 ^ (8 * N)"
    "run_state (CalculcateFlags_ShiftLeftImmediate N Res Src1 k) B = (u, B')"
  shows "extends c m B B' \<and>
    flags_become (ABINoPF B) (x86_shl (8 * N) (uint a) k (ctx_of c m B)) (ctx_of c m B) (ctx_of c m B')"
  using effectD [OF effect_ShiftLeftImmediate [OF assms(3,4,2,5,6)] assms(1,8)]
    shift_imm_become [OF assms(2) opndD(5) [OF assms(3)] assms(5), of "bit a (N * 8 - k)"
      "bit (uint a * 2 ^ k) (8 * N)" "bit (a XOR r) (N * 8 - 1)"
      "(s_val (8 * N) (uint r) < 0) \<noteq> bit (uint a * 2 ^ k) (8 * N)" "ABINoPF B" "ctx_of c m B"]
    shl_bits [OF assms(2) opndD(5) [OF assms(4)] assms(5,6)]
    shl_OF [OF assms(2) opndD(5) [OF assms(4)] opndD(5) [OF assms(3)]]
  by (simp add: x86_shl_def Let_def assms(7))

lemma ShiftRightImmediate_become:
  assumes "ok c m B" "valid_size N" "opnd c m B N Res r" "opnd c m B N Src1 a" "0 < k" "k \<le> 8 * N"
    "uint r = uint a div 2 ^ k"
    "run_state (CalculcateFlags_ShiftRightImmediate N Res Src1 k) B = (u, B')"
  shows "extends c m B B' \<and>
    flags_become (ABINoPF B) (x86_shr (8 * N) (uint a) k (ctx_of c m B)) (ctx_of c m B) (ctx_of c m B')"
proof -
  have k: "k \<le> 64" using assms(2,6) by (auto simp: valid_size_def)
  then have "bit a (k - 1) \<longleftrightarrow> bit (uint a) (k - 1)" by (intro bit_uint_slot) linarith
  then show ?thesis
    using effectD [OF effect_ShiftRightImmediate [OF assms(3,4,2,5) k] assms(1,8)]
      shift_imm_become [OF assms(2) opndD(5) [OF assms(3)] assms(5), of "bit a (k - 1)"
        "bit (uint a) (k - 1)" "bit a (N * 8 - 1)" "s_val (8 * N) (uint a) < 0" "ABINoPF B" "ctx_of c m B"]
      sign_bit_slot [OF assms(2) opndD(5) [OF assms(4)]]
    by (simp add: x86_shr_def assms(7))
qed

lemma SignShiftRightImmediate_become:
  assumes "ok c m B" "valid_size N" "opnd c m B N Res r" "opnd c m B N Src1 a" "0 < k" "k \<le> 8 * N"
    "uint r = (s_val (8 * N) (uint a) div 2 ^ k) mod 2 ^ (8 * N)"
    "run_state (CalculcateFlags_SignShiftRightImmediate N Res Src1 k) B = (u, B')"
  shows "extends c m B B' \<and>
    flags_become (ABINoPF B) (x86_sar (8 * N) (uint a) k (ctx_of c m B)) (ctx_of c m B) (ctx_of c m B')"
proof -
  have "k - 1 < 8 * N" "k \<le> 64" using assms(2,5,6) valid_size_le [OF assms(2)] by linarith+
  then show ?thesis
    using effectD [OF effect_SignShiftRightImmediate [OF assms(3,4,2,5) _ order_refl] assms(1,8)]
      shift_imm_become [OF assms(2) opndD(5) [OF assms(3)] assms(5), of "bit a (k - 1)"
        "bit (s_val (8 * N) (uint a)) (k - 1)" False False "ABINoPF B" "ctx_of c m B"]
      sar_CF [OF assms(2), of "k - 1" a]
    by (simp add: x86_sar_def assms(7))
qed

text \<open>
  for an immediate amount between one and the operand width the three immediate variants store
  the same x86 shift flags as the register variants.
\<close>

theorem immediate_shift_flags_correct:
  assumes "ok c m B" "valid_size N" "opnd c m B N Res r" "opnd c m B N Src1 a" "0 < k" "k \<le> 8 * N"
  shows "(uint r = (uint a * 2 ^ k) mod 2 ^ (8 * N) \<longrightarrow>
      run_state (CalculcateFlags_ShiftLeftImmediate N Res Src1 k) B = (u, B') \<longrightarrow>
      extends c m B B' \<and> flags_become (ABINoPF B) (x86_shl (8 * N) (uint a) k (ctx_of c m B)) (ctx_of c m B) (ctx_of c m B'))
    \<and> (uint r = uint a div 2 ^ k \<longrightarrow>
      run_state (CalculcateFlags_ShiftRightImmediate N Res Src1 k) B = (u, B') \<longrightarrow>
      extends c m B B' \<and> flags_become (ABINoPF B) (x86_shr (8 * N) (uint a) k (ctx_of c m B)) (ctx_of c m B) (ctx_of c m B'))
    \<and> (uint r = (s_val (8 * N) (uint a) div 2 ^ k) mod 2 ^ (8 * N) \<longrightarrow>
      run_state (CalculcateFlags_SignShiftRightImmediate N Res Src1 k) B = (u, B') \<longrightarrow>
      extends c m B B' \<and> flags_become (ABINoPF B) (x86_sar (8 * N) (uint a) k (ctx_of c m B)) (ctx_of c m B) (ctx_of c m B'))"
  using ShiftLeftImmediate_become [OF assms] ShiftRightImmediate_become [OF assms]
    SignShiftRightImmediate_become [OF assms] by blast

section \<open>Rotates\<close>

text \<open>
  after a rotate by a register amount \<^verbatim>\<open>CalculcateFlags_RotateLeft\<close> and \<^verbatim>\<open>CalculcateFlags_RotateRight\<close>
  leave every flag alone for amount zero; otherwise the carry is the bit of the result that was
  rotated around, and for amount one the overflow is as the architecture defines it. The result node
  may hold more bits than the operand (8-bit and 16-bit rotates are done on 32 bits).
\<close>

theorem rotate_flags_correct:
  assumes "ok c m B" "valid_size N" "wide c m B N Res r" "opnd c m B K Src2 cnt"
  shows "(run_state (CalculcateFlags_RotateLeft N Res Src1 Src2) B = (u, B') \<longrightarrow> extends c m B B' \<and>
      flags_become (ABINoPF B) (x86_rol (8 * N) (uint r) (unat cnt) (ctx_of c m B)) (ctx_of c m B) (ctx_of c m B'))
    \<and> (run_state (CalculcateFlags_RotateRight N Res Src1 Src2) B = (u, B') \<longrightarrow> extends c m B B' \<and>
      flags_become (ABINoPF B) (x86_ror (8 * N) (uint r) (unat cnt) (ctx_of c m B)) (ctx_of c m B) (ctx_of c m B'))"
proof -
  have b: "bit (uint r) 0 \<longleftrightarrow> bit r 0" "bit (uint r) (8 * N - Suc 0) \<longleftrightarrow> bit r (N * 8 - Suc 0)"
    "bit (uint r) (8 * N - 2) \<longleftrightarrow> bit r (N * 8 - 2)"
    using assms(2) by (auto simp: bit_uint_iff mult.commute valid_size_def)
  show ?thesis
    using effectD [OF effect_RotateLeft [OF assms(3,4,2)] assms(1)]
      effectD [OF effect_RotateRight [OF assms(3,4,2)] assms(1)]
    by (auto simp: flags_become_simps x86_rol_def x86_ror_def x86_rotate_def b unat_eq_0)
qed

lemma rotate_imm_bits: "valid_size N \<Longrightarrow> 0 < k \<Longrightarrow> k < 8 * N \<Longrightarrow> k < 64"
  by (auto simp: valid_size_def)

text \<open>
  the immediate variants store a carry that is not the architectural one. With \<open>r\<close> the value \<open>a\<close>
  rotated by \<open>k\<close>, the right rotate stores bit \<open>8 * N - k\<close> of the source where the architecture has
  the top bit of the result, which is bit \<open>k - 1\<close> of the source; the left rotate stores bit \<open>k\<close> where
  the architecture has the low bit of the result, bit \<open>8 * N - k\<close> of the source. The overflow for a
  rotate by one is the architectural one.
\<close>

theorem rotate_immediate_carry:
  assumes "ok c m B" "valid_size N" "wide c m B N Res r" "wide c m B N Src1 a" "0 < k" "k < 8 * N"
  shows "(run_state (CalculcateFlags_RotateRightImmediate N Res Src1 k) B = (u, B') \<longrightarrow>
      (\<forall>i < 8 * N. bit r i \<longleftrightarrow> bit a ((i + k) mod (8 * N))) \<longrightarrow>
      extends c m B B' \<and> (get_flag (ctx_of c m B') CF_LOC \<longleftrightarrow> bit a (8 * N - k))
      \<and> (bit r (8 * N - 1) \<longleftrightarrow> bit a (k - 1))
      \<and> (k = 1 \<longrightarrow> get_flag (ctx_of c m B') OF_LOC = (bit r (8 * N - 1) \<noteq> bit r (8 * N - 2))))
    \<and> (run_state (CalculcateFlags_RotateLeftImmediate N Res Src1 k) B = (u, B') \<longrightarrow>
      (\<forall>i < 8 * N. bit r i \<longleftrightarrow> bit a ((i + (8 * N - k)) mod (8 * N))) \<longrightarrow>
      extends c m B B' \<and> (get_flag (ctx_of c m B') CF_LOC \<longleftrightarrow> bit a k)
      \<and> (bit r 0 \<longleftrightarrow> bit a (8 * N - k))
      \<and> (k = 1 \<longrightarrow> get_flag (ctx_of c m B') OF_LOC = (bit r (8 * N - 1) \<noteq> bit r 0)))"
proof -
  have N: "0 < N" using assms(2) by (auto simp: valid_size_def)
  have m: "(8 * N - 1 + k) mod (8 * N) = k - 1" "(8 * N - 2 + 1) mod (8 * N) = 8 * N - 1"
    "(0 + (8 * N - k)) mod (8 * N) = 8 * N - k" "(8 * N - 1 + (8 * N - 1)) mod (8 * N) = 8 * N - 2"
    using N assms(5,6) mod_add_self2 [of "k - 1" "8 * N"] mod_add_self2 [of "8 * N - 2" "8 * N"]
    by (simp_all add: Suc_diff_le numeral_2_eq_2 algebra_simps)
  have R: "bit r (8 * N - 1) \<longleftrightarrow> bit a (k - 1)" "k = 1 \<Longrightarrow> bit r (8 * N - 2) \<longleftrightarrow> bit a (8 * N - 1)"
    if "\<forall>i < 8 * N. bit r i \<longleftrightarrow> bit a ((i + k) mod (8 * N))"
    using that [rule_format, of "8 * N - 1"] that [rule_format, of "8 * N - 2"] N m(1,2) by auto
  have L: "bit r 0 \<longleftrightarrow> bit a (8 * N - k)" "k = 1 \<Longrightarrow> bit r (8 * N - 1) \<longleftrightarrow> bit a (8 * N - 2)"
    if "\<forall>i < 8 * N. bit r i \<longleftrightarrow> bit a ((i + (8 * N - k)) mod (8 * N))"
    using that [rule_format, of 0] that [rule_format, of "8 * N - 1"] N m(3,4) by auto
  show ?thesis
    using effectD [OF effect_RotateRightImmediate [OF assms(3,4,2,5) less_imp_le [OF assms(6)]] assms(1)]
      effectD [OF effect_RotateLeftImmediate [OF assms(4,2,5) rotate_imm_bits [OF assms(2,5,6)]] assms(1)] R L
    by (auto simp: get_flag_set_flag flag_locs mult.commute)
qed

section \<open>Multiplication\<close>

text \<open>
  \<^verbatim>\<open>CalculcateFlags_MUL\<close> sets carry and overflow exactly when the signed product does not fit
  the operand: the result node holds the low bits of the product (possibly with more bits above) and
  the other node the high half, sign-extended to 64 bits.
\<close>

lemma CalculcateFlags_MUL_correct:
  assumes "ok c m B" "valid_size N" "wide c m B N Res r" "has_node c m B High 8 h"
    "trunc_slot 8 h = h" "P = s_val (8 * N) a * s_val (8 * N) b"
    "uint r mod 2 ^ (8 * N) = P mod 2 ^ (8 * N)" "uint h = (P div 2 ^ (8 * N)) mod 2 ^ 64"
    "run_state (CalculcateFlags_MUL N Res High) B = (u, B')"
  shows "extends c m B B' \<and> flags_become (ABINoPF B)
     [CF_LOC \<mapsto> \<not> in_range (8 * N) P, OF_LOC \<mapsto> \<not> in_range (8 * N) P] (ctx_of c m B) (ctx_of c m B')"
proof -
  have W: "0 < 8 * N" using size_width [OF assms(2)] by simp
  have s: "bit r (N * 8 - 1) \<longleftrightarrow> bit P (8 * N - 1)"
  proof -
    have "bit r (N * 8 - 1) \<longleftrightarrow> bit (take_bit (8 * N) (uint r)) (8 * N - 1)"
      using W size_width [OF assms(2)] by (simp add: bit_take_bit_iff bit_uint_iff mult.commute)
    also have "\<dots> \<longleftrightarrow> bit (take_bit (8 * N) P) (8 * N - 1)" using assms(7) by (simp add: take_bit_eq_mod)
    finally show ?thesis using W by (simp add: bit_take_bit_iff)
  qed
  have rg: "- (2 ^ 63) \<le> P div 2 ^ (8 * N)" "P div 2 ^ (8 * N) < 2 ^ 63"
  proof -
    have "(2 :: int) ^ (8 * N - 1) \<le> 2 ^ 63" using assms(2) by (auto simp: valid_size_def)
    then show "- (2 ^ 63) \<le> P div 2 ^ (8 * N)" "P div 2 ^ (8 * N) < 2 ^ 63"
      using smul_high_range [OF W, of a b] unfolding assms(6) in_range_def by linarith+
  qed
  have "h = (if bit P (8 * N - 1) then mask 64 else 0) \<longleftrightarrow> P div 2 ^ (8 * N) = (if bit P (8 * N - 1) then -1 else 0)"
  proof -
    have "uint h = (if 0 \<le> P div 2 ^ (8 * N) then P div 2 ^ (8 * N) else P div 2 ^ (8 * N) + 2 ^ 64)"
      unfolding assms(8) using mod_pos_pos_trivial [of "P div 2 ^ (8 * N) + 2 ^ 64" "2 ^ 64"] rg
      by (auto simp: mod_pos_pos_trivial)
    moreover have "uint (mask 64 :: slot) = 2 ^ 64 - 1" by (simp add: mask_eq_exp_minus_1)
    moreover have "h = mask 64 \<longleftrightarrow> uint h = uint (mask 64 :: slot)" by (metis unsigned_word_eqI)
    ultimately show ?thesis using rg slot_zero [of h] by (auto split: if_splits)
  qed
  then have "h \<noteq> (if bit r (N * 8 - 1) then mask 64 else 0) \<longleftrightarrow> \<not> in_range (8 * N) P"
    unfolding s smul_overflow [OF W] by simp
  then show ?thesis
    using effectD [OF effect_MUL [OF assms(3,4) _ assms(5,2)] assms(1,9)]
    by (simp add: flags_become_simps valid_size_def)
qed

text \<open>\<^verbatim>\<open>CalculcateFlags_UMUL\<close> sets carry and overflow exactly when the unsigned product does not fit.\<close>

lemma CalculcateFlags_UMUL_correct:
  assumes "ok c m B" "opnd c m B N High h" "uint h = x * y div 2 ^ (8 * N)" "0 \<le> x" "0 \<le> y"
    "run_state (CalculcateFlags_UMUL High) B = (u, B')"
  shows "extends c m B B' \<and> flags_become (ABINoPF B)
     [CF_LOC \<mapsto> 2 ^ (8 * N) \<le> x * y, OF_LOC \<mapsto> 2 ^ (8 * N) \<le> x * y] (ctx_of c m B) (ctx_of c m B')"
proof -
  have "h \<noteq> 0 \<longleftrightarrow> 2 ^ (8 * N) \<le> x * y"
    using assms(3) mult_nonneg_nonneg [OF assms(4,5)] by (auto simp: slot_zero zdiv_eq_0_iff)
  then show ?thesis
    using effectD [OF effect_UMUL [OF assms(2)] assms(1,6)] by (simp add: flags_become_simps)
qed

text \<open>
  \<^verbatim>\<open>CalculcateFlags_MUL\<close> sets carry and overflow exactly when the signed product does not fit the
  operand: the result node holds the low bits of the product (possibly with more bits above) and the other
  node the high half, sign-extended to 64 bits; \<^verbatim>\<open>CalculcateFlags_UMUL\<close> sets them exactly when the
  unsigned product does not fit.
\<close>

theorem multiply_flags_correct:
  assumes "ok c m B"
  shows "(valid_size N \<longrightarrow> wide c m B N Res r \<longrightarrow> has_node c m B High 8 h \<longrightarrow> trunc_slot 8 h = h \<longrightarrow>
      P = s_val (8 * N) a * s_val (8 * N) b \<longrightarrow> uint r mod 2 ^ (8 * N) = P mod 2 ^ (8 * N) \<longrightarrow>
      uint h = (P div 2 ^ (8 * N)) mod 2 ^ 64 \<longrightarrow> run_state (CalculcateFlags_MUL N Res High) B = (u, B') \<longrightarrow>
      extends c m B B' \<and> flags_become (ABINoPF B)
        [CF_LOC \<mapsto> \<not> in_range (8 * N) P, OF_LOC \<mapsto> \<not> in_range (8 * N) P] (ctx_of c m B) (ctx_of c m B'))
    \<and> (opnd c m B N High h \<longrightarrow> uint h = x * y div 2 ^ (8 * N) \<longrightarrow> 0 \<le> x \<longrightarrow> 0 \<le> y \<longrightarrow>
      run_state (CalculcateFlags_UMUL High) B = (u, B') \<longrightarrow>
      extends c m B B' \<and> flags_become (ABINoPF B)
        [CF_LOC \<mapsto> 2 ^ (8 * N) \<le> x * y, OF_LOC \<mapsto> 2 ^ (8 * N) \<le> x * y] (ctx_of c m B) (ctx_of c m B'))"
  using CalculcateFlags_MUL_correct [OF assms] CalculcateFlags_UMUL_correct [OF assms] by blast

section \<open>Bit manipulation\<close>

lemma bit_0_slot: "bit (a :: slot) 0 \<longleftrightarrow> odd (uint a)"
  using bit_uint_slot [of 0 a] by (simp only: bit_0 zero_less_numeral simp_thms)

text \<open>
  the flags of TZCNT, LZCNT and POPCNT: the carry tells a zero source, the zero flag a count of
  zero (the lowest or the highest bit of the source is set); POPCNT clears all but the zero flag.
\<close>

theorem bit_count_flags_correct:
  assumes "ok c m B" "valid_size N" "opnd c m B N Src a"
  shows "(run_state (CalculcateFlags_TZCNT Src) B = (u, B') \<longrightarrow> extends c m B B' \<and>
      flags_become (ABINoPF B) [CF_LOC \<mapsto> uint a = 0, ZF_LOC \<mapsto> odd (uint a)] (ctx_of c m B) (ctx_of c m B'))
    \<and> (run_state (CalculcateFlags_LZCNT N Src) B = (u, B') \<longrightarrow> extends c m B B' \<and>
      flags_become (ABINoPF B) [CF_LOC \<mapsto> uint a = 0, ZF_LOC \<mapsto> s_val (8 * N) (uint a) < 0] (ctx_of c m B) (ctx_of c m B'))
    \<and> (run_state (CalculcateFlags_POPCOUNT Src) B = (u, B') \<longrightarrow> extends c m B B' \<and>
      flags_become False [CF_LOC \<mapsto> False, PF_LOC \<mapsto> False, AF_LOC \<mapsto> False, ZF_LOC \<mapsto> uint a = 0,
        SF_LOC \<mapsto> False, OF_LOC \<mapsto> False] (ctx_of c m B) (ctx_of c m B'))"
  using effectD [OF effect_TZCNT [OF assms(3)] assms(1)] effectD [OF effect_LZCNT [OF assms(3,2)] assms(1)]
    effectD [OF effect_POPCOUNT [OF assms(3)] assms(1)]
  by (auto simp: flags_become_simps bit_0_slot sign_bit_slot [OF assms(2) opndD(5) [OF assms(3)], simplified])

text \<open>
  the flags of BLSI (with the isolated bit as operand), BEXTR and BZHI. The carry of BZHI tells an
  index beyond the operand; the flags that the architecture leaves undefined are not constrained.
\<close>

theorem bmi_flags_correct:
  assumes "ok c m B" "valid_size N" "opnd c m B N Res r" "opnd c m B K Src a"
  shows "(run_state (CalculcateFlags_BLSI N Res) B = (u, B') \<longrightarrow> extends c m B B' \<and>
      flags_become (ABINoPF B) [CF_LOC \<mapsto> uint r \<noteq> 0, ZF_LOC \<mapsto> uint r = 0,
        SF_LOC \<mapsto> s_val (8 * N) (uint r) < 0, OF_LOC \<mapsto> False] (ctx_of c m B) (ctx_of c m B'))
    \<and> (run_state (CalculcateFlags_BEXTR Res) B = (u, B') \<longrightarrow> extends c m B B' \<and>
      flags_become (ABINoPF B) [CF_LOC \<mapsto> False, OF_LOC \<mapsto> False, ZF_LOC \<mapsto> uint r = 0] (ctx_of c m B) (ctx_of c m B'))
    \<and> (run_state (CalculcateFlags_BZHI N Res Src) B = (u, B') \<longrightarrow> extends c m B B' \<and>
      flags_become (ABINoPF B) [CF_LOC \<mapsto> 8 * int N \<le> uint a, ZF_LOC \<mapsto> uint r = 0,
        SF_LOC \<mapsto> s_val (8 * N) (uint r) < 0, OF_LOC \<mapsto> False] (ctx_of c m B) (ctx_of c m B'))"
proof -
  have "uint (ucast (word_of_nat (N * 8 - Suc 0) :: u64) :: slot) = 8 * int N - 1"
    using assms(2) by (auto simp: valid_size_def)
  then have z: "a > ucast (word_of_nat (N * 8 - Suc 0) :: u64) \<longleftrightarrow> 8 * int N \<le> uint a"
    by (auto simp: word_less_def)
  show ?thesis
    using effectD [OF effect_BLSI [OF assms(3,2)] assms(1)] effectD [OF effect_BEXTR [OF assms(3)] assms(1)]
      effectD [OF effect_BZHI [OF assms(3,4,2)] assms(1)]
    by (auto simp: flags_become_simps bmi_zeros_def z sign_bit_slot [OF assms(2) opndD(5) [OF assms(3)], simplified])
qed

text \<open>
  the carry that is stored for BLSR and BLSMSK is set when the source is not zero (the
  architecture sets it when the source is zero), and BLSMSK does not store the sign flag, which the
  architecture takes from the result. The other flags are as defined.
\<close>

theorem BLSR_BLSMSK_carry_inverted:
  assumes "ok c m B" "valid_size N" "opnd c m B N Res r" "opnd c m B N Src a"
  shows "(run_state (CalculcateFlags_BLSR N Res Src) B = (u, B') \<longrightarrow> extends c m B B' \<and>
      flags_become (ABINoPF B) [CF_LOC \<mapsto> uint a \<noteq> 0, ZF_LOC \<mapsto> uint r = 0,
        SF_LOC \<mapsto> s_val (8 * N) (uint r) < 0, OF_LOC \<mapsto> False] (ctx_of c m B) (ctx_of c m B'))
    \<and> (run_state (CalculcateFlags_BLSMSK Src) B = (u, B') \<longrightarrow> extends c m B B' \<and>
      flags_become (ABINoPF B) [CF_LOC \<mapsto> uint a \<noteq> 0, ZF_LOC \<mapsto> False, SF_LOC \<mapsto> get_flag (ctx_of c m B) SF_LOC,
        OF_LOC \<mapsto> False] (ctx_of c m B) (ctx_of c m B'))"
  using effectD [OF effect_BLSR [OF assms(3,4,2)] assms(1)] effectD [OF effect_BLSMSK [OF assms(4)] assms(1)]
  by (auto simp: flags_become_simps bmi_zeros_def sign_bit_slot [OF assms(2) opndD(5) [OF assms(3)], simplified])

section \<open>Instances\<close>

lemma get_flag_zero_ctx [simp]: "\<not> get_flag zero_ctx loc"
  by (simp add: get_flag_def zero_ctx_def)

lemmas sample_simps = flags_become_def flag_becomes_def status_locs_def x86_result_def flag_locs
  s_val_def in_range_def const_builder_opnd const_builder_wide const_builder_node bool_slot_def

theorem carry_arith_flags_witness:
  "let f = CalculcateFlags_ADC 1 0 1 2 3; B = const_builder [0, 255, 0, 1] in
   flag_after f B CF_LOC \<and> flag_after f B AF_LOC \<and> flag_after f B ZF_LOC \<and> \<not> flag_after f B SF_LOC
   \<and> \<not> flag_after f B OF_LOC"
  using conjunct1 [OF carry_arith_flags_correct [of zero_ctx zero_mem "const_builder [0, 255, 0, 1]"
      1 0 0 1 255 2 0 3 True], THEN mp, THEN mp, OF _ _ _ _ _ _ _ prod.collapse [symmetric]]
  by (simp add: sample_simps x86_add_def)

theorem arith_flags_witness:
  "let f = CalculcateFlags_ADD 2 0 1 2 True; B = const_builder [0x8000, 0x7FFF, 1] in
   \<not> flag_after f B CF_LOC \<and> flag_after f B AF_LOC \<and> \<not> flag_after f B ZF_LOC \<and> flag_after f B SF_LOC
   \<and> flag_after f B OF_LOC"
  using conjunct1 [OF arith_flags_correct [of zero_ctx zero_mem "const_builder [0x8000, 0x7FFF, 1]"
      2 0 "0x8000" 1 "0x7FFF" 2 1 True], THEN mp, THEN mp, OF _ _ _ _ _ _ prod.collapse [symmetric]]
  by (simp add: sample_simps x86_add_def)

theorem register_shift_flags_witness:
  "let f = CalculcateFlags_SignShiftRight 1 0 1 2; B = const_builder [0xFFFFFFFFFFFFFFFF, 0xFFFFFFFFFFFFFF81, 9] in
   flag_after f B CF_LOC \<and> \<not> flag_after f B ZF_LOC \<and> flag_after f B SF_LOC"
proof -
  let ?B = "const_builder [0xFFFFFFFFFFFFFFFF, 0xFFFFFFFFFFFFFF81, 9]"
  have "opnd zero_ctx zero_mem ?B 8 0 0xFFFFFFFFFFFFFFFF" "opnd zero_ctx zero_mem ?B 8 1 0xFFFFFFFFFFFFFF81"
    "opnd zero_ctx zero_mem ?B 8 2 9" "sign_extended 1 8 0xFFFFFFFFFFFFFF81"
    by (simp_all add: const_builder_opnd sign_extended_def s_val_def)
  then show ?thesis
    using conjunct2 [OF conjunct2 [OF register_shift_flags_correct [of zero_ctx zero_mem ?B 1 8 2 9 0 _ 1 _ _ _ 8]],
        THEN mp, THEN mp, THEN mp, THEN mp, THEN mp, THEN mp, THEN mp,
        of "0xFFFFFFFFFFFFFFFF" "0xFFFFFFFFFFFFFF81", OF _ _ _ _ _ _ _ _ _ _ prod.collapse [symmetric]]
    by (simp add: sample_simps x86_sar_def x86_shift_def)
qed

theorem multiply_flags_witness:
  "let f = CalculcateFlags_UMUL 0; B = const_builder [1] in
   flag_after f B CF_LOC \<and> flag_after f B OF_LOC"
  using conjunct2 [OF multiply_flags_correct [of zero_ctx zero_mem "const_builder [1]"],
      of 1 0 1 16 16, THEN mp, THEN mp, THEN mp, THEN mp, THEN mp, OF _ _ _ _ _ prod.collapse [symmetric]]
  by (simp add: sample_simps)

theorem immediate_shift_flags_witness:
  "let f = CalculcateFlags_ShiftLeftImmediate 1 0 1 1; B = const_builder [2, 129] in
   flag_after f B CF_LOC \<and> \<not> flag_after f B ZF_LOC \<and> flag_after f B OF_LOC"
  using conjunct1 [OF immediate_shift_flags_correct [of zero_ctx zero_mem "const_builder [2, 129]" 1 0 2 1 129 1],
      THEN mp, THEN mp, OF _ _ _ _ _ _ _ prod.collapse [symmetric]]
  by (simp add: sample_simps x86_shl_def x86_shift_def)

theorem rotate_flags_witness:
  "let f = CalculcateFlags_RotateRight 1 0 1 2; B = const_builder [192, 129, 1] in
   flag_after f B CF_LOC \<and> \<not> flag_after f B OF_LOC \<and> \<not> flag_after f B ZF_LOC"
  using conjunct2 [OF rotate_flags_correct [of zero_ctx zero_mem "const_builder [192, 129, 1]" 1 0 192 8 2 1 1],
      THEN mp, OF _ _ _ _ prod.collapse [symmetric]]
  by (simp add: sample_simps x86_ror_def x86_rotate_def old_flags_def)

theorem rotate_immediate_carry_witness:
  "let f = CalculcateFlags_RotateRightImmediate 1 0 1 1; B = const_builder [128, 1] in
   \<not> flag_after f B CF_LOC \<and> bit (val_of zero_ctx zero_mem (emitted f B) 0) 7"
proof -
  let ?f = "CalculcateFlags_RotateRightImmediate 1 0 1 1" and ?B = "const_builder [128, 1]"
  have "\<forall>i < 8 * 1. bit (128 :: slot) i \<longleftrightarrow> bit (1 :: slot) ((i + 1) mod (8 * 1))"
  proof (intro allI impI)
    fix i :: nat assume i: "i < 8 * 1"
    have "bit (2 ^ 7 :: slot) i \<longleftrightarrow> i = 7" using i by (simp only: bit_exp_iff) auto
    moreover have "bit (1 :: slot) ((i + 1) mod (8 * 1)) \<longleftrightarrow> i = 7" using i by (simp add: bit_1_iff mod_Suc)
    ultimately show "bit (128 :: slot) i \<longleftrightarrow> bit (1 :: slot) ((i + 1) mod (8 * 1))" by simp
  qed
  then have "extends zero_ctx zero_mem ?B (emitted ?f ?B) \<and> \<not> flag_after ?f ?B CF_LOC \<and> bit (128 :: slot) 7"
    using conjunct1 [OF rotate_immediate_carry [of zero_ctx zero_mem ?B 1 0 128 1 1 1],
        THEN mp, THEN mp, OF _ _ _ _ _ _ prod.collapse [symmetric]] by (simp add: sample_simps)
  moreover have "has_node zero_ctx zero_mem ?B 0 8 128" by (simp add: const_builder_node)
  ultimately show ?thesis using has_node_extends by (auto simp: has_node_def)
qed

theorem bit_count_flags_witness:
  "let f = CalculcateFlags_TZCNT 0; B = const_builder [3] in \<not> flag_after f B CF_LOC \<and> flag_after f B ZF_LOC"
  using conjunct1 [OF bit_count_flags_correct [of zero_ctx zero_mem "const_builder [3]" 4 0 3],
      THEN mp, OF _ _ _ prod.collapse [symmetric]]
  by (simp add: sample_simps)

theorem bmi_flags_witness:
  "let f = CalculcateFlags_BLSI 4 0; B = const_builder [4, 12] in
   flag_after f B CF_LOC \<and> \<not> flag_after f B ZF_LOC \<and> \<not> flag_after f B SF_LOC"
  using conjunct1 [OF bmi_flags_correct [of zero_ctx zero_mem "const_builder [4, 12]" 4 0 4 4 1 12],
      THEN mp, OF _ _ _ _ prod.collapse [symmetric]]
  by (simp add: sample_simps)

theorem BLSR_BLSMSK_carry_inverted_witness:
  "let f = CalculcateFlags_BLSR 4 0 1; B = const_builder [0, 0] in
   \<not> flag_after f B CF_LOC \<and> flag_after f B ZF_LOC"
  using conjunct1 [OF BLSR_BLSMSK_carry_inverted [of zero_ctx zero_mem "const_builder [0, 0]" 4 0 0 1 0],
      THEN mp, OF _ _ _ _ prod.collapse [symmetric]]
  by (simp add: sample_simps)

end
