(* ===== verification/X86_Deferred.thy ===== *)
theory X86_Deferred
  imports X86_Flags_Correct
begin

text \<open>
  Deferred flags: \<^verbatim>\<open>GenerateFlags_*\<close> only records what has to be computed, and
  \<^verbatim>\<open>CalculateDeferredFlags\<close> emits the computation when a flag is needed. The meaning of the recorded
  data is given as a function on the guest context; the lazy scheme is then compared with the eager
  one, in which every instruction stores its flags at once.
\<close>

section \<open>Meaning of deferred flag data\<close>

abbreviation is_opnd :: "context_bytes \<Rightarrow> memory \<Rightarrow> builder \<Rightarrow> nat \<Rightarrow> node_id \<Rightarrow> bool" where
  "is_opnd c m B N n \<equiv> opnd c m B N n (val_of c m B n)"

abbreviation is_wide :: "context_bytes \<Rightarrow> memory \<Rightarrow> builder \<Rightarrow> nat \<Rightarrow> node_id \<Rightarrow> bool" where
  "is_wide c m B N n \<equiv> wide c m B N n (val_of c m B n)"

text \<open>
  The operands of the data are nodes of the right size, as the instruction handlers pass them: zero-extended for the
  logical shifts, and for the arithmetic shifts any node that is at least as large as the operand, so that the
  sign-extended nodes of \<^verbatim>\<open>ASHROp\<close> are included. Register amounts are those the handlers' masks leave (31, or 63 for
  64-bit operands), also for 8-bit and 16-bit operands. An immediate left shift is limited to the operand size: beyond
  it \<^verbatim>\<open>CalculcateFlags_ShiftLeftImmediate\<close> subtracts the amount from the size in unsigned arithmetic and names a bit
  that the operand does not have.
\<close>

fun flag_operands :: "context_bytes \<Rightarrow> memory \<Rightarrow> builder \<Rightarrow> DeferredFlagData \<Rightarrow> bool" where
  "flag_operands c m B TYPE_NONE = True"
| "flag_operands c m B (TYPE_ADC N r a b cf) =
     (valid_size N \<and> is_opnd c m B N r \<and> is_opnd c m B N a \<and> is_opnd c m B N b \<and> is_opnd c m B 1 cf
      \<and> val_of c m B cf = bool_slot (bit (val_of c m B cf) 0))"
| "flag_operands c m B (TYPE_SBB N r a b cf) =
     (valid_size N \<and> is_opnd c m B N r \<and> is_opnd c m B N a \<and> is_opnd c m B N b \<and> is_opnd c m B 1 cf
      \<and> val_of c m B cf = bool_slot (bit (val_of c m B cf) 0))"
| "flag_operands c m B (TYPE_SUB N r a b u) =
     (valid_size N \<and> is_opnd c m B N r \<and> is_opnd c m B N a \<and> is_opnd c m B N b)"
| "flag_operands c m B (TYPE_ADD N r a b u) =
     (valid_size N \<and> is_opnd c m B N r \<and> is_opnd c m B N a \<and> is_opnd c m B N b)"
| "flag_operands c m B (TYPE_MUL N r h) = (valid_size N \<and> is_wide c m B N r \<and> is_opnd c m B 8 h)"
| "flag_operands c m B (TYPE_UMUL h) = is_opnd c m B (siz_of B h) h"
| "flag_operands c m B (TYPE_LOGICAL N r a b) = (valid_size N \<and> is_opnd c m B N r)"
| "flag_operands c m B (TYPE_LSHL N r a b) = (valid_size N \<and> is_opnd c m B N r \<and> is_opnd c m B N a
      \<and> is_opnd c m B (siz_of B b) b \<and> unat (val_of c m B b) \<le> 8 * max 4 N)"
| "flag_operands c m B (TYPE_LSHLI N r a k) =
     (valid_size N \<and> is_opnd c m B N r \<and> is_opnd c m B N a \<and> k \<le> 8 * N)"
| "flag_operands c m B (TYPE_LSHR N r a b) = (valid_size N \<and> is_opnd c m B N r \<and> is_opnd c m B N a
      \<and> is_opnd c m B (siz_of B b) b \<and> unat (val_of c m B b) \<le> 8 * max 4 N)"
| "flag_operands c m B (TYPE_LSHRI N r a k) =
     (valid_size N \<and> is_opnd c m B N r \<and> is_opnd c m B N a \<and> k \<le> 64)"
| "flag_operands c m B (TYPE_ASHR N r a b) = (valid_size N \<and> N \<le> siz_of B r \<and> is_opnd c m B (siz_of B r) r
      \<and> N \<le> siz_of B a \<and> is_opnd c m B (siz_of B a) a \<and> is_opnd c m B (siz_of B b) b
      \<and> unat (val_of c m B b) \<le> 8 * max 4 N)"
| "flag_operands c m B (TYPE_ASHRI N r a k) = (valid_size N \<and> N \<le> siz_of B r \<and> is_opnd c m B (siz_of B r) r
      \<and> is_opnd c m B (siz_of B a) a \<and> k \<le> 64)"
| "flag_operands c m B (TYPE_ROR N r a b) =
     (valid_size N \<and> is_wide c m B N r \<and> is_opnd c m B (siz_of B b) b)"
| "flag_operands c m B (TYPE_RORI N r a k) =
     (valid_size N \<and> is_wide c m B N r \<and> is_wide c m B N a \<and> k \<le> 8 * N)"
| "flag_operands c m B (TYPE_ROL N r a b) =
     (valid_size N \<and> is_wide c m B N r \<and> is_opnd c m B (siz_of B b) b)"
| "flag_operands c m B (TYPE_ROLI N r a k) = (valid_size N \<and> is_wide c m B N a \<and> k < 64)"
| "flag_operands c m B (TYPE_FCMP N r a b) = is_wide c m B 1 r"
| "flag_operands c m B (TYPE_BEXTR r) = is_opnd c m B (siz_of B r) r"
| "flag_operands c m B (TYPE_BLSI N r) = (valid_size N \<and> is_opnd c m B N r)"
| "flag_operands c m B (TYPE_BLSMSK r) = is_opnd c m B (siz_of B r) r"
| "flag_operands c m B (TYPE_BLSR N r a) = (valid_size N \<and> is_opnd c m B N r \<and> is_opnd c m B N a)"
| "flag_operands c m B (TYPE_POPCOUNT r) = is_opnd c m B (siz_of B r) r"
| "flag_operands c m B (TYPE_BZHI N r a) =
     (valid_size N \<and> is_opnd c m B N r \<and> is_opnd c m B (siz_of B a) a)"
| "flag_operands c m B (TYPE_TZCNT r) = is_opnd c m B (siz_of B r) r"
| "flag_operands c m B (TYPE_LZCNT N r) = (valid_size N \<and> is_opnd c m B N r)"
| "flag_operands c m B (TYPE_BITSELECT r) = is_opnd c m B (siz_of B r) r"
| "flag_operands c m B (TYPE_RDRAND r) = is_opnd c m B (siz_of B r) r"

text \<open>The flags stored for the shifts by a register amount, by an immediate, and for the rotates.\<close>

definition shift_sem :: "bool \<Rightarrow> nat \<Rightarrow> slot \<Rightarrow> slot \<Rightarrow> bool \<Rightarrow> bool \<Rightarrow> context_bytes \<Rightarrow> context_bytes" where
  "shift_sem p N r cnt cf ovf x = keep_flag cnt OF_LOC ovf (keep_flag cnt SF_LOC (bit r (N * 8 - 1))
     (keep_flag cnt ZF_LOC (r = 0) (keep_flag cnt AF_LOC False
       ((if p then (\<lambda>y. y) else keep_flag cnt PF_LOC (even_parity r)) (keep_flag cnt CF_LOC cf x)))))"

definition shift_imm_sem :: "bool \<Rightarrow> nat \<Rightarrow> slot \<Rightarrow> nat \<Rightarrow> bool \<Rightarrow> bool \<Rightarrow> context_bytes \<Rightarrow> context_bytes" where
  "shift_imm_sem p N r k cf ovf x = (if k = 0 then x else
     (if k = 1 then set_flag OF_LOC ovf else (\<lambda>y. y))
      (set_flag SF_LOC (bit r (N * 8 - 1)) (set_flag ZF_LOC (r = 0) (set_flag AF_LOC False
        ((if p then (\<lambda>y. y) else set_flag PF_LOC (even_parity r)) (set_flag CF_LOC cf x))))))"

definition rotate_imm_sem :: "nat \<Rightarrow> bool \<Rightarrow> bool \<Rightarrow> context_bytes \<Rightarrow> context_bytes" where
  "rotate_imm_sem k cf ovf x = (if k = 0 then x else
     (if k = 1 then set_flag OF_LOC ovf else (\<lambda>y. y)) (set_flag CF_LOC cf x))"

definition arith_sem :: "bool \<Rightarrow> nat \<Rightarrow> slot \<Rightarrow> bool \<Rightarrow> bool \<Rightarrow> bool \<Rightarrow> bool \<Rightarrow> context_bytes \<Rightarrow> context_bytes" where
  "arith_sem p N r u cf af ovf x = set_flag OF_LOC ovf ((if u then set_flag CF_LOC cf else (\<lambda>y. y))
     (result_flags p N r (set_flag AF_LOC af x)))"

text \<open>\<open>flags_sem p V d\<close>: the change of the context, with \<open>V\<close> the values of the nodes and \<open>p\<close> for \<^verbatim>\<open>ABINoPF\<close>.\<close>

fun flags_sem :: "bool \<Rightarrow> (node_id \<Rightarrow> slot) \<Rightarrow> DeferredFlagData \<Rightarrow> context_bytes \<Rightarrow> context_bytes" where
  "flags_sem p V TYPE_NONE x = x"
| "flags_sem p V (TYPE_ADC N r a b cf) x = arith_sem p N (V r) True
     (if bit (V cf) 0 then V r \<le> V b else V r < V b) (bit (V a XOR V b XOR V r) 4)
     (bit (NOT (V a XOR V b) AND (V r XOR V a)) (N * 8 - 1)) x"
| "flags_sem p V (TYPE_SBB N r a b cf) x = arith_sem p N (V r) True
     (if bit (V cf) 0 then V r \<ge> V a else V r > V a) (bit (V a XOR V b XOR V r) 4)
     (bit ((V a XOR V b) AND (V r XOR V a)) (N * 8 - 1)) x"
| "flags_sem p V (TYPE_SUB N r a b u) x = arith_sem p N (V r) u (V a < V b) (bit (V a XOR V b XOR V r) 4)
     (bit ((V a XOR V b) AND (V r XOR V a)) (N * 8 - 1)) x"
| "flags_sem p V (TYPE_ADD N r a b u) x = arith_sem p N (V r) u (V r < V b) (bit (V a XOR V b XOR V r) 4)
     (bit (NOT (V a XOR V b) AND (V r XOR V a)) (N * 8 - 1)) x"
| "flags_sem p V (TYPE_MUL N r h) x =
     (let ovf = (V h \<noteq> (if bit (V r) (N * 8 - 1) then mask 64 else 0)) in
      set_flag OF_LOC ovf (set_flag CF_LOC ovf
        (set_flag SF_LOC False (set_flag ZF_LOC False (set_flag AF_LOC False (set_flag PF_LOC False x))))))"
| "flags_sem p V (TYPE_UMUL h) x = set_flag OF_LOC (V h \<noteq> 0) (set_flag CF_LOC (V h \<noteq> 0)
     (set_flag ZF_LOC False (set_flag PF_LOC False (set_flag SF_LOC False (set_flag AF_LOC False x)))))"
| "flags_sem p V (TYPE_LOGICAL N r a b) x = arith_sem p N (V r) True False False False x"
| "flags_sem p V (TYPE_LSHL N r a b) x = shift_sem p N (V r) (V b)
     (unat (V b) \<le> 8 * N \<and> bit (V a) (N * 8 - unat (V b)))
     (bit (V a XOR V r) (N * 8 - 1)) x"
| "flags_sem p V (TYPE_LSHLI N r a k) x = shift_imm_sem p N (V r) k (bit (V a) (N * 8 - k))
     (bit (V a XOR V r) (N * 8 - 1)) x"
| "flags_sem p V (TYPE_LSHR N r a b) x = shift_sem p N (V r) (V b) (bit (V a) (unat (V b) - 1))
     (bit (V a XOR V r) (N * 8 - 1)) x"
| "flags_sem p V (TYPE_LSHRI N r a k) x = shift_imm_sem p N (V r) k (bit (V a) (k - 1)) (bit (V a) (N * 8 - 1)) x"
| "flags_sem p V (TYPE_ASHR N r a b) x = shift_sem p N (V r) (V b) (bit (V a) (unat (V b) - 1)) False x"
| "flags_sem p V (TYPE_ASHRI N r a k) x = shift_imm_sem p N (V r) k (bit (V a) (k - 1)) False x"
| "flags_sem p V (TYPE_ROR N r a b) x = keep_flag (V b) OF_LOC (bit (V r) (N * 8 - 2) \<noteq> bit (V r) (N * 8 - 1))
     (keep_flag (V b) CF_LOC (bit (V r) (N * 8 - 1)) x)"
| "flags_sem p V (TYPE_RORI N r a k) x = rotate_imm_sem k (bit (V a) (N * 8 - k))
     (bit (V r) (N * 8 - 1) \<noteq> bit (V a) (N * 8 - k)) x"
| "flags_sem p V (TYPE_ROL N r a b) x = keep_flag (V b) OF_LOC (bit (V r) (N * 8 - 1) \<noteq> bit (V r) 0)
     (keep_flag (V b) CF_LOC (bit (V r) 0) x)"
| "flags_sem p V (TYPE_ROLI N r a k) x = rotate_imm_sem k (bit (V a) k)
     (bit (V a) (N * 8 - 1) \<noteq> bit (V a) (N * 8 - 2)) x"
| "flags_sem p V (TYPE_FCMP N r a b) x = set_flag OF_LOC False (set_flag SF_LOC False (set_flag AF_LOC False
     (set_flag PF_LOC (bit (V r) FCMP_FLAG_UNORDERED) (set_flag ZF_LOC (bit (V r) FCMP_FLAG_EQ)
       (set_flag CF_LOC (bit (V r) FCMP_FLAG_LT) x)))))"
| "flags_sem p V (TYPE_BEXTR r) x = set_flag ZF_LOC (V r = 0) ((if p then (\<lambda>y. y) else set_flag PF_LOC False)
     (set_flag SF_LOC False (set_flag AF_LOC False (set_flag OF_LOC False (set_flag CF_LOC False x)))))"
| "flags_sem p V (TYPE_BLSI N r) x = set_flag SF_LOC (bit (V r) (N * 8 - 1)) (set_flag CF_LOC (V r \<noteq> 0)
     (set_flag ZF_LOC (V r = 0) (bmi_zeros p x)))"
| "flags_sem p V (TYPE_BLSMSK r) x = set_flag CF_LOC (V r \<noteq> 0) (bmi_zeros p (set_flag ZF_LOC False x))"
| "flags_sem p V (TYPE_BLSR N r a) x = set_flag SF_LOC (bit (V r) (N * 8 - 1)) (set_flag CF_LOC (V a \<noteq> 0)
     (set_flag ZF_LOC (V r = 0) (bmi_zeros p x)))"
| "flags_sem p V (TYPE_POPCOUNT r) x = set_flag OF_LOC False (set_flag SF_LOC False (set_flag ZF_LOC (V r = 0)
     (set_flag AF_LOC False (set_flag PF_LOC False (set_flag CF_LOC False x)))))"
| "flags_sem p V (TYPE_BZHI N r a) x = set_flag SF_LOC (bit (V r) (N * 8 - 1))
     (set_flag CF_LOC (V a > ucast (word_of_nat (N * 8 - 1) :: u64)) (set_flag ZF_LOC (V r = 0) (bmi_zeros p x)))"
| "flags_sem p V (TYPE_TZCNT r) x = set_flag ZF_LOC (bit (V r) 0) (set_flag CF_LOC (V r = 0) x)"
| "flags_sem p V (TYPE_LZCNT N r) x = set_flag ZF_LOC (bit (V r) (N * 8 - 1)) (set_flag CF_LOC (V r = 0) x)"
| "flags_sem p V (TYPE_BITSELECT r) x = set_flag ZF_LOC (V r = 0) x"
| "flags_sem p V (TYPE_RDRAND r) x = set_flag CF_LOC (bit (V r) 0) (set_flag PF_LOC False (set_flag AF_LOC False
     (set_flag ZF_LOC False (set_flag SF_LOC False (set_flag OF_LOC False x)))))"

text \<open>A function of the context for an immediate amount of zero: nothing is emitted.\<close>

lemma effect_zero_amount:
  "effect c m B (CalculcateFlags_ShiftLeftImmediate N r a 0) (\<lambda>x. x)"
  "effect c m B (CalculcateFlags_ShiftRightImmediate N r a 0) (\<lambda>x. x)"
  "effect c m B (CalculcateFlags_SignShiftRightImmediate N r a 0) (\<lambda>x. x)"
  "effect c m B (CalculcateFlags_RotateRightImmediate N r a 0) (\<lambda>x. x)"
  "effect c m B (CalculcateFlags_RotateLeftImmediate N r a 0) (\<lambda>x. x)"
  by (simp_all add: CalculcateFlags_ShiftLeftImmediate_def CalculcateFlags_ShiftRightImmediate_def
      CalculcateFlags_SignShiftRightImmediate_def CalculcateFlags_RotateRightImmediate_def
      CalculcateFlags_RotateLeftImmediate_def effect_return)

lemmas sem_defs = arith_sem_def shift_sem_def shift_imm_sem_def rotate_imm_sem_def Let_def

lemma siz_of_nat: "opnd c m B N n v \<Longrightarrow> valid_size (siz_of B n) \<and> N \<le> siz_of B n \<and> n < length (code B)"
  using opndD by blast

lemma effect_flags_imm:
  assumes "flag_operands c m B d" "d = TYPE_LSHLI N r a k \<or> d = TYPE_LSHRI N r a k \<or> d = TYPE_ASHRI N r a k
     \<or> d = TYPE_RORI N r a k \<or> d = TYPE_ROLI N r a k"
  shows "effect c m B (calculate_flags d) (flags_sem (ABINoPF B) (val_of c m B) d)"
proof (cases "k = 0")
  case True
  then show ?thesis
    using assms(2) by (auto intro!: effect_zero_amount [THEN effect_cong] simp: sem_defs)
next
  case False
  then show ?thesis
    using assms
    by (auto intro!: effect_cong [OF effect_ShiftLeftImmediate] effect_cong [OF effect_ShiftRightImmediate]
        effect_cong [OF effect_SignShiftRightImmediate] effect_cong [OF effect_RotateRightImmediate]
        effect_cong [OF effect_RotateLeftImmediate] simp: sem_defs)
qed

lemma opnd_node:
  "wide c m B N n v \<Longrightarrow> \<exists>sz. has_node c m B n sz v \<and> valid_size sz \<and> sz \<le> 8"
  using valid_size_le by (auto simp: wide_def)

lemma effect_flags_other:
  assumes "flag_operands c m B d" "\<nexists>N r a k. d = TYPE_LSHLI N r a k \<or> d = TYPE_LSHRI N r a k \<or> d = TYPE_ASHRI N r a k
     \<or> d = TYPE_RORI N r a k \<or> d = TYPE_ROLI N r a k"
  shows "effect c m B (calculate_flags d) (flags_sem (ABINoPF B) (val_of c m B) d)"
proof (cases d)
  case (TYPE_ADC N r a b cf)
  then have "opnd c m B 1 cf (bool_slot (bit (val_of c m B cf) 0))" using assms(1) by simp
  then show ?thesis
    using assms(1) TYPE_ADC by (auto intro!: effect_cong [OF effect_ADC] simp: sem_defs)
next
  case (TYPE_SBB N r a b cf)
  then have "opnd c m B 1 cf (bool_slot (bit (val_of c m B cf) 0))" using assms(1) by simp
  then show ?thesis
    using assms(1) TYPE_SBB by (auto intro!: effect_cong [OF effect_SBB] simp: sem_defs)
next
  case (TYPE_MUL N r h)
  then obtain sz where "has_node c m B h sz (val_of c m B h)" "valid_size sz"
    using assms(1) opnd_node opnd_wide by fastforce
  then show ?thesis
    using assms(1) TYPE_MUL by (auto intro!: effect_cong [OF effect_MUL] simp: sem_defs opnd_def)
next
  case (TYPE_FCMP N r a b)
  then obtain sz where "has_node c m B r sz (val_of c m B r)" "sz \<le> 8" using assms(1) opnd_node by fastforce
  then show ?thesis using TYPE_FCMP by (auto intro!: effect_cong [OF effect_FCMP])
qed (use assms in \<open>auto intro!: effect_cong [OF effect_return] effect_cong [OF effect_SUB] effect_cong [OF effect_ADD]
    effect_cong [OF effect_UMUL] effect_cong [OF effect_Logical] effect_cong [OF effect_ShiftLeft]
    effect_cong [OF effect_ShiftRight] effect_cong [OF effect_SignShiftRight] effect_cong [OF effect_RotateRight]
    effect_cong [OF effect_RotateLeft] effect_cong [OF effect_BEXTR] effect_cong [OF effect_BLSI]
    effect_cong [OF effect_BLSMSK] effect_cong [OF effect_BLSR] effect_cong [OF effect_POPCOUNT]
    effect_cong [OF effect_BZHI] effect_cong [OF effect_TZCNT] effect_cong [OF effect_LZCNT]
    effect_cong [OF effect_BITSELECT] effect_cong [OF effect_RDRAND] simp: sem_defs\<close>)

lemma effect_calculate_flags:
  assumes "flag_operands c m B d"
  shows "effect c m B (calculate_flags d) (flags_sem (ABINoPF B) (val_of c m B) d)"
  using effect_flags_imm [OF assms] effect_flags_other [OF assms] by blast

lemma wide_stable:
  assumes "wide c m A N n (val_of c m A n)" "extends c m A B"
  shows "wide c m B N n (val_of c m B n)" "val_of c m B n = val_of c m A n" "siz_of B n = siz_of A n"
  using wide_extends [OF assms] wideD(1,4) [OF assms(1)] assms(2) extends_value extends_size by metis+

lemma opnd_stable:
  assumes "opnd c m A N n (val_of c m A n)" "extends c m A B"
  shows "opnd c m B N n (val_of c m B n)" "val_of c m B n = val_of c m A n" "siz_of B n = siz_of A n"
  using assms(1) wide_stable [OF opnd_wide [OF assms(1)] assms(2)] by (auto simp: opnd_def)

lemma flag_operands_extends:
  assumes "flag_operands c m A d" "extends c m A B"
  shows "flag_operands c m B d"
  using assms(1) opnd_stable [OF _ assms(2)] wide_stable [OF _ assms(2)] by (cases d) auto

lemma flags_sem_extends:
  assumes "flag_operands c m A d" "extends c m A B"
  shows "flags_sem p (val_of c m B) d x = flags_sem p (val_of c m A) d x"
  using assms(1) opnd_stable(2) [OF _ assms(2)] wide_stable(2) [OF _ assms(2)]
  by (cases d) (auto simp: sem_defs)

end
