(* ===== verification/X86_Lazy_Flags.thy ===== *)
theory X86_Lazy_Flags
  imports X86_Deferred
begin

text \<open>
  The scheme of deferred flags as the dispatcher uses it: the interface that lets the computation be
  emitted later (locale \<open>lazy_flags\<close>, interpreted on the flag code), pending flags and the architectural
  context, the comparison with eager flags, and the packed flags register (PUSHF, POPF, LAHF, SAHF).
\<close>

section \<open>The interface between recorded data and its computation\<close>

text \<open>
  What the dispatcher relies on when it keeps flag data for later: the operands stay valid while
  code is appended, the data keeps its meaning, and the code for it can be emitted at any later point.
\<close>

locale lazy_flags =
  fixes operands :: "context_bytes \<Rightarrow> memory \<Rightarrow> builder \<Rightarrow> 'd \<Rightarrow> bool"
    and calculate :: "'d \<Rightarrow> unit emitter"
    and sem :: "bool \<Rightarrow> (node_id \<Rightarrow> slot) \<Rightarrow> 'd \<Rightarrow> context_bytes \<Rightarrow> context_bytes"
  assumes operands_extends: "operands c m A d \<Longrightarrow> extends c m A B \<Longrightarrow> operands c m B d"
    and sem_extends: "operands c m A d \<Longrightarrow> extends c m A B \<Longrightarrow> sem p (val_of c m B) d x = sem p (val_of c m A) d x"
    and calculate_effect: "operands c m B d \<Longrightarrow> effect c m B (calculate d) (sem (ABINoPF B) (val_of c m B) d)"
begin

lemma calculate_now:
  "operands c m B d \<Longrightarrow> ok c m B \<Longrightarrow> run_state (calculate d) B = (u, B') \<Longrightarrow>
   extends c m B B' \<and> ctx_of c m B' = sem (ABINoPF B) (val_of c m B) d (ctx_of c m B)"
  using effectD [OF calculate_effect] by blast

lemma calculate_later:
  assumes "operands c m A d" "extends c m A B" "run_state (calculate d) B = (u, B')"
  shows "extends c m A B' \<and> ctx_of c m B' = sem (ABINoPF A) (val_of c m A) d (ctx_of c m B)"
proof -
  have "extends c m B B' \<and> ctx_of c m B' = sem (ABINoPF B) (val_of c m B) d (ctx_of c m B)"
    using calculate_now [OF operands_extends [OF assms(1,2)] extends_ok [OF assms(2)] assms(3)] .
  moreover have "ABINoPF B = ABINoPF A" using assms(2) by (simp add: extends_def)
  ultimately show ?thesis using extends_trans [OF assms(2)] sem_extends [OF assms(1,2)] by simp
qed

end

interpretation dflags: lazy_flags flag_operands calculate_flags flags_sem
  by unfold_locales (fact flag_operands_extends flags_sem_extends effect_calculate_flags)+

section \<open>Pending flags\<close>

text \<open>
  The architectural context of a builder: the guest context with the pending flags put in. A builder is
  sound when its code runs and the operands of its pending flags are there.
\<close>

definition arch_ctx :: "context_bytes \<Rightarrow> memory \<Rightarrow> builder \<Rightarrow> context_bytes" where
  "arch_ctx c m B = flags_sem (ABINoPF B) (val_of c m B) (CurrentDeferredFlags B) (ctx_of c m B)"

definition deferred_ok :: "context_bytes \<Rightarrow> memory \<Rightarrow> builder \<Rightarrow> bool" where
  "deferred_ok c m B \<longleftrightarrow> ok c m B \<and> flag_operands c m B (CurrentDeferredFlags B)"

lemma run_code_deferred [simp]:
  "run_code c m (B\<lparr>CurrentDeferredFlags := d\<rparr>) = run_code c m B"
  by (simp add: run_code_def)

lemma extends_deferred [simp]:
  "extends c m A (B\<lparr>CurrentDeferredFlags := d\<rparr>) = extends c m A B"
  by (simp add: extends_def)

lemma extends_deferred_left [simp]:
  "extends c m (A\<lparr>CurrentDeferredFlags := d\<rparr>) B = extends c m A B"
  by (simp add: extends_def)

lemma wide_deferred [simp]: "wide c m (B\<lparr>CurrentDeferredFlags := d\<rparr>) N n v = wide c m B N n v"
  by (simp add: wide_def has_node_def)

lemma opnd_deferred [simp]: "opnd c m (B\<lparr>CurrentDeferredFlags := d\<rparr>) N n v = opnd c m B N n v"
  by (simp add: opnd_def)

lemma flag_operands_deferred [simp]:
  "flag_operands c m (B\<lparr>CurrentDeferredFlags := d'\<rparr>) d = flag_operands c m B d"
  by (cases d) simp_all

lemma CalculateDeferredFlags_run:
  assumes "deferred_ok c m B" "run_state CalculateDeferredFlags B = (u, B')"
  shows "extends c m B B' \<and> ctx_of c m B' = arch_ctx c m B \<and> CurrentDeferredFlags B' = TYPE_NONE"
proof (cases "CurrentDeferredFlags B = TYPE_NONE")
  case True
  then show ?thesis
    using assms by (auto simp: CalculateDeferredFlags_def deferred_ok_def arch_ctx_def extends_refl)
next
  case False
  obtain u' B1 where r: "run_state (calculate_flags (CurrentDeferredFlags B)) B = (u', B1)" by (rule prod.exhaust)
  then have "B' = B1\<lparr>CurrentDeferredFlags := TYPE_NONE\<rparr>"
    using assms(2) False by (simp add: CalculateDeferredFlags_def InvalidateDeferredFlags_def)
  then show ?thesis
    using dflags.calculate_now [OF _ _ r] assms(1) by (simp add: deferred_ok_def arch_ctx_def)
qed

lemma calculated_ok: "extends c m B B' \<Longrightarrow> CurrentDeferredFlags B' = TYPE_NONE \<Longrightarrow> deferred_ok c m B'"
  by (simp add: deferred_ok_def extends_ok)

lemma calculated_arch: "CurrentDeferredFlags B' = TYPE_NONE \<Longrightarrow> arch_ctx c m B' = ctx_of c m B'"
  by (simp add: arch_ctx_def)

text \<open>
  C3: \<^verbatim>\<open>CalculateDeferredFlags\<close> leaves no pending flags, and the context after its code is the
  architectural context before: computing the flags late changes nothing that the guest can see. Memory,
  earlier values and control state are kept, and the code does not fault.
\<close>

theorem CalculateDeferredFlags_correct:
  assumes "deferred_ok c m B" "run_state CalculateDeferredFlags B = (u, B')"
  shows "extends c m B B' \<and> IsDeferredFlagsStored B' \<and> ctx_of c m B' = arch_ctx c m B
    \<and> arch_ctx c m B' = arch_ctx c m B \<and> deferred_ok c m B'"
  using CalculateDeferredFlags_run [OF assms] calculated_ok [of c m B B'] calculated_arch [of B' c m]
  by (simp add: IsDeferredFlagsStored_def)

section \<open>Lazy and eager flags\<close>

text \<open>The generator that an instruction calls for each kind of data.\<close>

fun generate_flags :: "DeferredFlagData \<Rightarrow> unit emitter" where
  "generate_flags TYPE_NONE = State_Monad.return ()"
| "generate_flags (TYPE_ADC sz r a b cf) = GenerateFlags_ADC sz r a b cf"
| "generate_flags (TYPE_SBB sz r a b cf) = GenerateFlags_SBB sz r a b cf"
| "generate_flags (TYPE_SUB sz r a b u) = GenerateFlags_SUB sz r a b u"
| "generate_flags (TYPE_ADD sz r a b u) = GenerateFlags_ADD sz r a b u"
| "generate_flags (TYPE_MUL sz r h) = GenerateFlags_MUL sz r h"
| "generate_flags (TYPE_UMUL r) = GenerateFlags_UMUL r"
| "generate_flags (TYPE_LOGICAL sz r a b) = GenerateFlags_Logical sz r a b"
| "generate_flags (TYPE_LSHL sz r a b) = GenerateFlags_ShiftLeft sz r a b"
| "generate_flags (TYPE_LSHLI sz r a k) = GenerateFlags_ShiftLeftImmediate sz r a k"
| "generate_flags (TYPE_LSHR sz r a b) = GenerateFlags_ShiftRight sz r a b"
| "generate_flags (TYPE_LSHRI sz r a k) = GenerateFlags_ShiftRightImmediate sz r a k"
| "generate_flags (TYPE_ASHR sz r a b) = GenerateFlags_SignShiftRight sz r a b"
| "generate_flags (TYPE_ASHRI sz r a k) = GenerateFlags_SignShiftRightImmediate sz r a k"
| "generate_flags (TYPE_ROR sz r a b) = GenerateFlags_RotateRight sz r a b"
| "generate_flags (TYPE_RORI sz r a k) = GenerateFlags_RotateRightImmediate sz r a k"
| "generate_flags (TYPE_ROL sz r a b) = GenerateFlags_RotateLeft sz r a b"
| "generate_flags (TYPE_ROLI sz r a k) = GenerateFlags_RotateLeftImmediate sz r a k"
| "generate_flags (TYPE_FCMP sz r a b) = GenerateFlags_FCMP sz r a b"
| "generate_flags (TYPE_BEXTR r) = GenerateFlags_BEXTR r"
| "generate_flags (TYPE_BLSI sz r) = GenerateFlags_BLSI sz r"
| "generate_flags (TYPE_BLSMSK r) = GenerateFlags_BLSMSK r"
| "generate_flags (TYPE_BLSR sz r a) = GenerateFlags_BLSR sz r a"
| "generate_flags (TYPE_POPCOUNT r) = GenerateFlags_POPCOUNT r"
| "generate_flags (TYPE_BZHI sz r a) = GenerateFlags_BZHI sz r a"
| "generate_flags (TYPE_TZCNT r) = GenerateFlags_TZCNT r"
| "generate_flags (TYPE_LZCNT sz r) = GenerateFlags_LZCNT sz r"
| "generate_flags (TYPE_BITSELECT r) = GenerateFlags_BITSELECT r"
| "generate_flags (TYPE_RDRAND r) = GenerateFlags_RDRAND r"

text \<open>
  The generators that first compute the pending flags, because their own flags keep some of them; the
  generators that do nothing; and the flags that the others neither store nor keep: what is pending for
  these is lost.
\<close>

fun flushes :: "DeferredFlagData \<Rightarrow> bool" where
  "flushes (TYPE_SUB sz r a b u) = (\<not> u)"
| "flushes (TYPE_ADD sz r a b u) = (\<not> u)"
| "flushes (TYPE_LSHL sz r a b) = True"
| "flushes (TYPE_LSHR sz r a b) = True"
| "flushes (TYPE_ASHR sz r a b) = True"
| "flushes (TYPE_ROR sz r a b) = True"
| "flushes (TYPE_ROL sz r a b) = True"
| "flushes (TYPE_RORI sz r a k) = True"
| "flushes (TYPE_ROLI sz r a k) = True"
| "flushes _ = False"

fun no_flags :: "DeferredFlagData \<Rightarrow> bool" where
  "no_flags TYPE_NONE = True"
| "no_flags (TYPE_LSHLI sz r a k) = (k = 0)"
| "no_flags (TYPE_LSHRI sz r a k) = (k = 0)"
| "no_flags (TYPE_ASHRI sz r a k) = (k = 0)"
| "no_flags (TYPE_RORI sz r a k) = (k = 0)"
| "no_flags (TYPE_ROLI sz r a k) = (k = 0)"
| "no_flags _ = False"

fun lost_flags :: "bool \<Rightarrow> DeferredFlagData \<Rightarrow> nat list" where
  "lost_flags p (TYPE_MUL sz r h) = []"
| "lost_flags p (TYPE_UMUL r) = []"
| "lost_flags p (TYPE_FCMP sz r a b) = []"
| "lost_flags p (TYPE_POPCOUNT r) = []"
| "lost_flags p (TYPE_RDRAND r) = []"
| "lost_flags p (TYPE_LSHLI sz r a k) = (if p then [PF_LOC] else []) @ (if k = 1 then [] else [OF_LOC])"
| "lost_flags p (TYPE_LSHRI sz r a k) = (if p then [PF_LOC] else []) @ (if k = 1 then [] else [OF_LOC])"
| "lost_flags p (TYPE_ASHRI sz r a k) = (if p then [PF_LOC] else []) @ (if k = 1 then [] else [OF_LOC])"
| "lost_flags p (TYPE_BLSMSK r) = (if p then [PF_LOC] else []) @ [SF_LOC]"
| "lost_flags p (TYPE_TZCNT r) = [PF_LOC, AF_LOC, SF_LOC, OF_LOC]"
| "lost_flags p (TYPE_LZCNT sz r) = [PF_LOC, AF_LOC, SF_LOC, OF_LOC]"
| "lost_flags p (TYPE_BITSELECT r) = [CF_LOC, PF_LOC, AF_LOC, SF_LOC, OF_LOC]"
| "lost_flags p d = (if p then [PF_LOC] else [])"

abbreviation flag_bytes :: "nat list \<Rightarrow> nat set" where
  "flag_bytes locs \<equiv> (+) off_flags ` set locs"

lemmas generator_defs =
  GenerateFlags_ADC_def GenerateFlags_SBB_def GenerateFlags_SUB_def GenerateFlags_ADD_def
  GenerateFlags_MUL_def GenerateFlags_UMUL_def GenerateFlags_Logical_def GenerateFlags_ShiftLeft_def
  GenerateFlags_ShiftRight_def GenerateFlags_SignShiftRight_def GenerateFlags_ShiftLeftImmediate_def
  GenerateFlags_ShiftRightImmediate_def GenerateFlags_SignShiftRightImmediate_def
  GenerateFlags_RotateRight_def GenerateFlags_RotateLeft_def GenerateFlags_RotateRightImmediate_def
  GenerateFlags_RotateLeftImmediate_def GenerateFlags_FCMP_def GenerateFlags_BEXTR_def
  GenerateFlags_BLSI_def GenerateFlags_BLSMSK_def GenerateFlags_BLSR_def GenerateFlags_POPCOUNT_def
  GenerateFlags_BZHI_def GenerateFlags_TZCNT_def GenerateFlags_LZCNT_def GenerateFlags_BITSELECT_def
  GenerateFlags_RDRAND_def

lemma generate_none: "no_flags d \<Longrightarrow> generate_flags d = State_Monad.return ()"
  by (cases d) (simp_all add: generator_defs)

lemma generate_flush:
  "\<not> no_flags d \<Longrightarrow> flushes d \<Longrightarrow> generate_flags d = CalculateDeferredFlags \<bind> (\<lambda>_. defer_flags d)"
  by (cases d) (simp_all add: generator_defs)

lemma generate_plain: "\<not> no_flags d \<Longrightarrow> \<not> flushes d \<Longrightarrow> generate_flags d = defer_flags d"
  by (cases d) (simp_all add: generator_defs)

lemma flags_sem_none: "no_flags d \<Longrightarrow> flags_sem p V d x = x"
  by (cases d) (simp_all add: sem_defs)

lemmas sem_bytes = sem_defs result_flags_def bmi_zeros_def set_flag_def keep_flag_def status_locs_def flag_locs

text \<open>Only the bytes of the status flags change, and what is neither lost nor kept is determined by the data.\<close>

lemma flags_sem_frame: "i \<notin> flag_bytes status_locs \<Longrightarrow> flags_sem p V d x i = x i"
  by (cases d) (auto simp: sem_bytes)

lemma flags_sem_determined:
  assumes "\<not> no_flags d" "\<not> flushes d" "i \<notin> flag_bytes (lost_flags p d)"
    and "i \<notin> flag_bytes status_locs \<Longrightarrow> x i = y i"
  shows "flags_sem p V d x i = flags_sem p V d y i"
  using assms by (cases d) (auto simp: sem_bytes)

text \<open>
  C6: after a generator call the architectural flags are those that an eager scheme has, which stores
  the flags of every instruction at once: at every byte of the context except the flags the generator
  loses, and these are named by \<^const>\<open>lost_flags\<close> (flags the instruction leaves undefined, the parity
  flag under \<^verbatim>\<open>ABINoPF\<close>, and the sign flag of BLSMSK). The generators whose instruction keeps some
  flags lose none.
\<close>

theorem generate_flags_lazy_eager:
  assumes "deferred_ok c m B" "flag_operands c m B d" "run_state (generate_flags d) B = (u, B')"
    and "i \<notin> flag_bytes (if flushes d \<or> no_flags d then [] else lost_flags (ABINoPF B) d)"
  shows "extends c m B B' \<and> deferred_ok c m B'
    \<and> arch_ctx c m B' i = flags_sem (ABINoPF B) (val_of c m B) d (arch_ctx c m B) i"
proof -
  have ok: "ok c m B" using assms(1) by (simp add: deferred_ok_def)
  consider "no_flags d" | "\<not> no_flags d" "flushes d" | "\<not> no_flags d" "\<not> flushes d" by blast
  then show ?thesis
  proof cases
    case 1
    then show ?thesis
      using assms(1,3) extends_refl [OF ok] flags_sem_none [OF 1] by (simp add: generate_none)
  next
    case 2
    obtain u' B1 where r: "run_state CalculateDeferredFlags B = (u', B1)" by (rule prod.exhaust)
    note e = CalculateDeferredFlags_run [OF assms(1) r]
    have B': "B' = B1\<lparr>CurrentDeferredFlags := d\<rparr>"
      using assms(3) r by (simp add: generate_flush [OF 2] defer_flags_def)
    have "ABINoPF B1 = ABINoPF B" using e by (simp add: extends_def)
    then show ?thesis
      using e dflags.operands_extends [OF assms(2)] dflags.sem_extends [OF assms(2)] extends_ok [of c m B B1]
      by (simp add: B' arch_ctx_def deferred_ok_def)
  next
    case 3
    have B': "B' = B\<lparr>CurrentDeferredFlags := d\<rparr>"
      using assms(3) by (simp add: generate_plain [OF 3] defer_flags_def)
    have "flags_sem (ABINoPF B) (val_of c m B) d (ctx_of c m B) i
        = flags_sem (ABINoPF B) (val_of c m B) d (arch_ctx c m B) i"
      using 3 assms(4) by (intro flags_sem_determined) (auto simp: arch_ctx_def flags_sem_frame)
    then show ?thesis
      using ok assms(2) extends_refl [OF ok] by (simp add: B' deferred_ok_def arch_ctx_def)
  qed
qed

section \<open>The packed flags register\<close>

definition packed_locs :: "bool \<Rightarrow> nat list" where
  "packed_locs Lower8 = take (if Lower8 then 5 else length FlagOffsets) FlagOffsets"

lemma packed_locs_simps:
  "packed_locs True = [CF_LOC, PF_LOC, AF_LOC, ZF_LOC, SF_LOC]" "packed_locs False = FlagOffsets"
  by (simp_all add: packed_locs_def FlagOffsets_def numeral_eq_Suc)

lemma packed_locs_bound: "\<forall>loc \<in> set (packed_locs Lower8). loc < 32"
  by (cases Lower8) (auto simp: packed_locs_simps FlagOffsets_def flag_locs)

definition set_flags :: "nat list \<Rightarrow> slot \<Rightarrow> context_bytes \<Rightarrow> context_bytes" where
  "set_flags locs v = fold (\<lambda>loc. set_flag loc (bit v loc)) locs"

lemma effect_packed_step:
  assumes "wide c m B 1 Src v" "has_node c m B One 8 1" "loc < 32"
  shows "effect c m B (do { k \<leftarrow> e_Constant (word_of_nat loc); l \<leftarrow> e_Bin OP_LSHR Src k;
     Tmp \<leftarrow> e_Bin OP_AND l One; SetRFLAG Tmp loc }) (set_flag loc (bit v loc))"
proof (rule effect_runs)
  fix B1 L S V X p assume e: "extends c m B B1" "view c m B1 L S V X p"
  note d = wide_view [OF assms(1) e] has_node_view [OF assms(2) e]
  have s: "shift_amount (max 4 (S Src)) (ucast (word_of_nat loc :: u64)) = loc"
    using assms(3) d(2) by (intro shift_amount_const) auto
  show "runs c m L S V X p (do { k \<leftarrow> e_Constant (word_of_nat loc); l \<leftarrow> e_Bin OP_LSHR Src k;
     Tmp \<leftarrow> e_Bin OP_AND l One; SetRFLAG Tmp loc }) (\<lambda>_ B2. ctx_of c m B2 = set_flag loc (bit v loc) X)"
    by ((rule flag_rules, (simp add: d)[1], (simp add: d s split del: if_split)?)+)
       (use assms(3) in \<open>auto simp: d bit_and_iff bit_drop_bit_eq bit_trunc_slot bit_1_iff less_mult_max\<close>)
qed

lemma effect_set_packed_loop:
  assumes "wide c m B 1 Src v" "has_node c m B One 8 1" "\<forall>loc \<in> set locs. loc < 32"
  shows "effect c m B (set_packed_loop Src One locs) (set_flags locs v)"
  using assms(3)
proof (induction locs)
  case Nil
  show ?case by (simp add: set_flags_def effect_cong [OF effect_return])
next
  case (Cons loc locs)
  have "effect c m B (do { (do { k \<leftarrow> e_Constant (word_of_nat loc); l \<leftarrow> e_Bin OP_LSHR Src k;
     Tmp \<leftarrow> e_Bin OP_AND l One; SetRFLAG Tmp loc }); set_packed_loop Src One locs })
     (\<lambda>x. set_flags locs v (set_flag loc (bit v loc) x))"
    using Cons by (intro effect_bind effect_packed_step [OF assms(1,2)]) auto
  then show ?case by (simp add: set_flags_def comp_def)
qed

lemma set_flags_get:
  "get_flag (set_flags locs v x) loc = (if loc \<in> set locs then bit v loc else get_flag x loc)"
proof (induction locs arbitrary: x)
  case (Cons a locs)
  then show ?case by (auto simp: set_flags_def get_flag_set_flag)
qed (simp add: set_flags_def)

lemma set_flags_frame: "i \<notin> flag_bytes locs \<Longrightarrow> set_flags locs v x i = x i"
proof (induction locs arbitrary: x)
  case (Cons a locs)
  then show ?case by (auto simp: set_flags_def set_flag_frame)
qed (simp add: set_flags_def)

text \<open>Emitters that leave the pending data alone.\<close>

definition keeps_pending :: "'a emitter \<Rightarrow> bool" where
  "keeps_pending f \<longleftrightarrow> (\<forall>B. CurrentDeferredFlags (snd (run_state f B)) = CurrentDeferredFlags B)"

lemma keeps_bind: "keeps_pending f \<Longrightarrow> (\<And>r. keeps_pending (g r)) \<Longrightarrow> keeps_pending (f \<bind> g)"
  by (simp add: keeps_pending_def split: prod.split) (metis snd_conv)

lemma keeps_basic:
  "keeps_pending (State_Monad.return r)" "keeps_pending (emit ir sz el)" "keeps_pending (op_size n)"
  "keeps_pending (modify_builder (\<lambda>B. B\<lparr>flagsOp := fo\<rparr>))"
  by (simp_all add: keeps_pending_def emit_def)

lemma keeps_ops:
  "keeps_pending (e_Constant k)" "keeps_pending (e_Bin op a b)" "keeps_pending (e_Bfe w l a)"
  "keeps_pending (e_BfeSize sz w l a)" "keeps_pending (e_LoadFlag f)" "keeps_pending (SetRFLAG v loc)"
  unfolding e_Constant_def e_Bin_def e_Bfe_def e_BfeSize_def e_LoadFlag_def SetRFLAG_def e_StoreFlag_def Let_def
  by (intro keeps_bind keeps_basic)+

lemma keeps_set_packed: "keeps_pending (set_packed_loop Src One locs)"
  by (induction Src One locs rule: set_packed_loop.induct) (simp_all add: keeps_bind keeps_basic keeps_ops)

lemma keeps_get_packed: "keeps_pending (get_packed_loop n locs)"
  by (induction locs arbitrary: n) (simp_all add: keeps_bind keeps_basic keeps_ops)

lemma keepsD: "keeps_pending f \<Longrightarrow> run_state f B = (r, B') \<Longrightarrow> CurrentDeferredFlags B' = CurrentDeferredFlags B"
  by (metis keeps_pending_def snd_conv)

lemma set_packed_tail:
  assumes "ok c m B" "wide c m B 1 Src v" "\<forall>loc \<in> set locs. loc < 32"
    "run_state (e_Constant 1 \<bind> (\<lambda>One. set_packed_loop Src One locs)) B = (u, B')"
  shows "extends c m B B' \<and> ctx_of c m B' = set_flags locs v (ctx_of c m B)
    \<and> CurrentDeferredFlags B' = CurrentDeferredFlags B"
proof -
  have "emits c m B (e_Constant 1 \<bind> (\<lambda>One. set_packed_loop Src One locs))
     (\<lambda>_ B2. ctx_of c m B2 = set_flags locs v (ctx_of c m B))"
  proof (rule emits_bind)
    show "emits c m B (e_Constant 1) (\<lambda>r B1. r = length (code B) \<and> appended c m B 8 1 B1)"
      unfolding e_Constant_def by (rule emit_value [OF assms(1)]) (simp add: Op_Constant_fresh)
    fix One B1 assume e: "extends c m B B1" and a: "One = length (code B) \<and> appended c m B 8 1 B1"
    then have "has_node c m B1 One 8 1" by (auto simp: appended_def has_node_def)
    then have "effect c m B1 (set_packed_loop Src One locs) (set_flags locs v)"
      using effect_set_packed_loop wide_extends [OF assms(2) e] assms(3) by blast
    then show "emits c m B1 (set_packed_loop Src One locs) (\<lambda>_ B2. ctx_of c m B2 = set_flags locs v (ctx_of c m B))"
      using extends_refl [OF extends_ok [OF e]] a by (auto simp: effect_def appended_def)
  qed
  then show ?thesis
    using assms(4) keepsD [OF keeps_bind [OF keeps_ops(1) keeps_set_packed] assms(4)] by (simp add: emits_def)
qed

lemma status_in_packed: "i \<notin> flag_bytes FlagOffsets \<Longrightarrow> arch_ctx c m B i = ctx_of c m B i"
  unfolding arch_ctx_def by (rule flags_sem_frame) (auto simp: status_locs_def FlagOffsets_def)

lemma SetPackedRFLAG_run:
  assumes "deferred_ok c m B" "wide c m B 1 Src v" "run_state (SetPackedRFLAG Lower8 Src) B = (u, B')"
  shows "extends c m B B' \<and> IsDeferredFlagsStored B'
    \<and> ctx_of c m B' = set_flags (packed_locs Lower8) v (if Lower8 then arch_ctx c m B else ctx_of c m B)
    \<and> (get_flag (ctx_of c m B') loc =
        (if loc \<in> set (packed_locs Lower8) then bit v loc else get_flag (arch_ctx c m B) loc))"
proof (cases Lower8)
  case True
  obtain u1 B1 where r: "run_state CalculateDeferredFlags B = (u1, B1)" by (rule prod.exhaust)
  note e = CalculateDeferredFlags_run [OF assms(1) r]
  have "run_state (e_Constant 1 \<bind> (\<lambda>One. set_packed_loop Src One (packed_locs Lower8))) B1 = (u, B')"
    using assms(3) True r by (simp add: SetPackedRFLAG_def packed_locs_def)
  from set_packed_tail [OF _ _ packed_locs_bound this] show ?thesis
    using e wide_extends [OF assms(2), of B1] extends_ok [of c m B B1] extends_trans [of c m B B1 B'] True
    by (auto simp: IsDeferredFlagsStored_def set_flags_get)
next
  case False
  let ?B1 = "B\<lparr>CurrentDeferredFlags := TYPE_NONE\<rparr>"
  have "run_state (e_Constant 1 \<bind> (\<lambda>One. set_packed_loop Src One (packed_locs Lower8))) ?B1 = (u, B')"
    using assms(3) False by (simp add: SetPackedRFLAG_def packed_locs_def InvalidateDeferredFlags_def)
  note e = set_packed_tail [OF _ _ packed_locs_bound this]
  have "get_flag (arch_ctx c m B) loc = get_flag (ctx_of c m B) loc" if "loc \<notin> set FlagOffsets"
    unfolding get_flag_def using that by (subst status_in_packed) auto
  then show ?thesis
    using e [of c m v] assms(1,2) False
    by (auto simp: IsDeferredFlagsStored_def set_flags_get deferred_ok_def packed_locs_simps)
qed

text \<open>
  \<^verbatim>\<open>SetPackedRFLAG\<close> stores every flag of its list from the bit of the source with the flag's number;
  the form for the low byte keeps the architectural value of the other flags, the full form discards
  the pending flags, all of which it overwrites. The rest of the context is kept.
\<close>

theorem SetPackedRFLAG_correct:
  assumes "deferred_ok c m B" "wide c m B 1 Src v" "run_state (SetPackedRFLAG Lower8 Src) B = (u, B')"
  shows "extends c m B B' \<and> IsDeferredFlagsStored B'
    \<and> ctx_of c m B' = set_flags (packed_locs Lower8) v (if Lower8 then arch_ctx c m B else ctx_of c m B)
    \<and> (get_flag (ctx_of c m B') loc =
        (if loc \<in> set (packed_locs Lower8) then bit v loc else get_flag (arch_ctx c m B) loc))"
  using SetPackedRFLAG_run [OF assms] .

text \<open>Packing: the flags of the list as bits above a start value. The stored bytes are zero or one.\<close>

definition clean_flags :: "nat list \<Rightarrow> context_bytes \<Rightarrow> bool" where
  "clean_flags locs x \<longleftrightarrow> list_all (\<lambda>loc. x (off_flags + loc) = of_bool (get_flag x loc)) locs"

definition pack_flags :: "context_bytes \<Rightarrow> nat list \<Rightarrow> slot \<Rightarrow> slot" where
  "pack_flags x = fold (\<lambda>loc acc. acc OR (if get_flag x loc then 2 ^ loc else 0))"

lemma pack_flags_Cons:
  "pack_flags x (loc # locs) acc = pack_flags x locs (acc OR (if get_flag x loc then 2 ^ loc else 0))"
  by (simp add: pack_flags_def)

lemma bit_pack_flags:
  "\<forall>loc \<in> set locs. loc < 32 \<Longrightarrow>
   bit (pack_flags x locs acc) i \<longleftrightarrow> bit acc i \<or> (i \<in> set locs \<and> get_flag x i)"
proof (induction locs arbitrary: acc)
  case (Cons loc locs)
  then show ?case by (auto simp: pack_flags_def bit_or_iff bit_exp_iff)
qed (simp add: pack_flags_def)

lemma packed_flag_value:
  assumes "loc < 32" "b = of_bool P" "trunc_slot 8 acc = acc"
  shows "trunc_slot 8 (acc OR trunc_slot 4 (push_bit loc (take_bit 32 (ucast (b :: u8))))) = acc OR (if P then 2 ^ loc else 0)"
proof -
  have "bit acc i \<Longrightarrow> i < 64" for i using assms(3) bit_trunc_slot [of 8 acc i] by simp
  then show ?thesis using assms(1,2) by (intro bit_word_eqI) (auto simp: bit_simps)
qed

lemma runs_get_packed:
  assumes "\<forall>loc \<in> set locs. loc < 32" "clean_flags locs X" "n < L" "S n = 8" "trunc_slot 8 (V n) = V n"
  shows "runs c m L S V X p (get_packed_loop n locs)
    (\<lambda>r B. has_node c m B r 8 (pack_flags X locs (V n)) \<and> ctx_of c m B = X)"
  using assms
proof (induction locs arbitrary: n L S V)
  case Nil
  then show ?case
    by (auto intro!: runs_return simp: view_def has_node_def pack_flags_def)
next
  case (Cons loc locs)
  let ?v = "V n OR (if get_flag X loc then 2 ^ loc else 0)"
  have b: "X (off_flags + loc) = of_bool (get_flag X loc)" and l: "loc < 32" using Cons.prems by (auto simp: clean_flags_def)
  have v: "trunc_slot 8 (V n OR trunc_slot 4 (push_bit loc (take_bit 32 (ucast (X (off_flags + loc)))))) = ?v"
    using packed_flag_value [OF l b Cons.prems(5)] .
  have s: "shift_amount 4 (ucast (word_of_nat loc :: u64)) = loc" using l by (intro shift_amount_const) (auto simp: word_size_def)
  have t: "trunc_slot 8 ?v = ?v" unfolding v [symmetric] by simp
  have IH: "runs c m L' S' V' X p (get_packed_loop n' locs)
    (\<lambda>r B. has_node c m B r 8 (pack_flags X locs ?v) \<and> ctx_of c m B = X)"
    if "n' < L'" "S' n' = 8" "V' n' = ?v" for n' L' S' V'
    using Cons.IH [of n' L' S' V'] Cons.prems(1,2) that t by (auto simp: clean_flags_def)
  have n: "\<And>k. L \<le> k \<Longrightarrow> (n = k) = False" using Cons.prems(3) by auto
  show ?case
    unfolding get_packed_loop.simps
    apply (rule runs_LoadFlag runs_BfeSize runs_Constant, simp)+
    apply (rule runs_Lshl, simp)
    apply (rule runs_Or, simp add: Cons.prems n)
    apply (simp only: pack_flags_Cons)
    apply (rule IH; simp add: Cons.prems n s v)
    done
qed

lemma GetPackedRFLAG_run:
  assumes "deferred_ok c m B" "clean_flags (packed_locs Lower8) (arch_ctx c m B)"
    "run_state (GetPackedRFLAG Lower8) B = (r, B')"
  shows "extends c m B B' \<and> CurrentDeferredFlags B' = TYPE_NONE \<and> ctx_of c m B' = arch_ctx c m B
    \<and> has_node c m B' r 8 (pack_flags (arch_ctx c m B) (packed_locs Lower8) 2)"
proof -
  obtain u1 B1 where q: "run_state CalculateDeferredFlags B = (u1, B1)" by (rule prod.exhaust)
  note e = CalculateDeferredFlags_run [OF assms(1) q]
  let ?tail = "e_Constant 2 \<bind> (\<lambda>n. get_packed_loop n (packed_locs Lower8))"
  have t: "run_state ?tail B1 = (r, B')" using assms(3) q by (simp add: GetPackedRFLAG_def packed_locs_def)
  have two: "trunc_slot 8 2 = 2" by (simp add: trunc_slot_def take_bit_eq_mask [symmetric])
  have v: "view c m B1 (length (code B1)) (siz_of B1) (val_of c m B1) (arch_ctx c m B) (ABINoPF B1)"
    using e extends_ok by (auto simp: view_def)
  have "runs c m (length (code B1)) (siz_of B1) (val_of c m B1) (arch_ctx c m B) (ABINoPF B1) ?tail
    (\<lambda>r B2. has_node c m B2 r 8 (pack_flags (arch_ctx c m B) (packed_locs Lower8) 2) \<and> ctx_of c m B2 = arch_ctx c m B)"
    apply (rule runs_Constant, simp)
    using runs_get_packed [OF packed_locs_bound assms(2), of "length (code B1)" "Suc (length (code B1))"
        "(siz_of B1)(length (code B1) := 8)" "(val_of c m B1)(length (code B1) := 2)" c m "ABINoPF B1"] two
    apply simp
    done
  from runsD [OF this v] have "extends c m B1 B'
    \<and> has_node c m B' r 8 (pack_flags (arch_ctx c m B) (packed_locs Lower8) 2) \<and> ctx_of c m B' = arch_ctx c m B"
    unfolding emits_def t by simp
  then show ?thesis
    using e extends_trans [of c m B B1 B'] keepsD [OF keeps_bind [OF keeps_ops(1) keeps_get_packed] t] by simp
qed

lemma GetPackedRFLAG_bits:
  assumes "deferred_ok c m B" "clean_flags (packed_locs Lower8) (arch_ctx c m B)"
    "run_state (GetPackedRFLAG Lower8) B = (r, B')"
  shows "extends c m B B' \<and> IsDeferredFlagsStored B' \<and> ctx_of c m B' = arch_ctx c m B
    \<and> (bit (val_of c m B' r) i \<longleftrightarrow>
        i = 1 \<or> (i \<in> set (packed_locs Lower8) \<and> get_flag (arch_ctx c m B) i))"
proof -
  have "bit (2 :: slot) i \<longleftrightarrow> i = 1" using bit_exp_iff [of 1 i, where 'a = slot] by (auto dest: bit_imp_le_length)
  then show ?thesis
    using GetPackedRFLAG_run [OF assms] bit_pack_flags [OF packed_locs_bound, of "arch_ctx c m B" Lower8 2 i]
    by (simp add: IsDeferredFlagsStored_def has_node_def)
qed

text \<open>
  \<^verbatim>\<open>GetPackedRFLAG\<close> returns a node whose value has bit one (reserved) and, for every flag of its
  list, the architectural value of the flag at the bit of its number, and no other bit; the pending
  flags are stored by then.
\<close>

theorem GetPackedRFLAG_correct:
  assumes "deferred_ok c m B" "clean_flags (packed_locs Lower8) (arch_ctx c m B)"
    "run_state (GetPackedRFLAG Lower8) B = (r, B')"
  shows "extends c m B B' \<and> IsDeferredFlagsStored B' \<and> ctx_of c m B' = arch_ctx c m B
    \<and> (bit (val_of c m B' r) i \<longleftrightarrow>
        i = 1 \<or> (i \<in> set (packed_locs Lower8) \<and> get_flag (arch_ctx c m B) i))"
  using GetPackedRFLAG_bits [OF assms] .

lemma set_flags_id:
  "clean_flags locs x \<Longrightarrow> \<forall>loc \<in> set locs. bit v loc = get_flag x loc \<Longrightarrow> set_flags locs v x = x"
proof (induction locs)
  case (Cons loc locs)
  then have "set_flag loc (bit v loc) x = x" by (auto simp: clean_flags_def set_flag_def fun_upd_idem)
  then show ?case using Cons by (simp add: set_flags_def clean_flags_def)
qed (simp add: set_flags_def)

lemma clean_set_flags:
  "set locs' \<subseteq> set locs \<Longrightarrow> clean_flags locs' (set_flags locs v x)"
proof -
  have "set_flags locs v x (off_flags + loc) = of_bool (bit v loc)" if "loc \<in> set locs" for loc
    using that
  proof (induction locs arbitrary: x rule: rev_induct)
    case (snoc a locs)
    then show ?case by (auto simp: set_flags_def set_flag_def)
  qed simp
  then show "set locs' \<subseteq> set locs \<Longrightarrow> ?thesis" by (auto simp: clean_flags_def list_all_iff set_flags_get)
qed

text \<open>
  C30: packing and unpacking the flags register are inverse: writing back the value that was read leaves
  the architectural context as it was (PUSHF then POPF), and reading after a write gives the written
  value restricted to the flags that exist, with the reserved bit set.
\<close>

theorem packed_flags_round_trip:
  assumes "deferred_ok c m B"
  shows "(clean_flags FlagOffsets (arch_ctx c m B) \<longrightarrow> run_state (GetPackedRFLAG False) B = (r, B1) \<longrightarrow>
      run_state (SetPackedRFLAG False r) B1 = (u, B2) \<longrightarrow> ctx_of c m B2 = arch_ctx c m B)
    \<and> (wide c m B 1 Src v \<longrightarrow> run_state (SetPackedRFLAG False Src) B = (u, B3) \<longrightarrow>
      run_state (GetPackedRFLAG False) B3 = (r', B4) \<longrightarrow>
      (bit (val_of c m B4 r') i \<longleftrightarrow> i = 1 \<or> (i \<in> set FlagOffsets \<and> bit v i)))"
proof (intro conjI impI)
  assume cl: "clean_flags FlagOffsets (arch_ctx c m B)" and g: "run_state (GetPackedRFLAG False) B = (r, B1)"
    and s: "run_state (SetPackedRFLAG False r) B1 = (u, B2)"
  have e: "extends c m B B1 \<and> CurrentDeferredFlags B1 = TYPE_NONE \<and> ctx_of c m B1 = arch_ctx c m B
    \<and> has_node c m B1 r 8 (pack_flags (arch_ctx c m B) FlagOffsets 2)"
    using GetPackedRFLAG_run [OF assms _ g] cl by (simp add: packed_locs_simps)
  then have "wide c m B1 1 r (pack_flags (arch_ctx c m B) FlagOffsets 2)" by (auto simp: wide_def)
  from SetPackedRFLAG_run [OF _ this s] have "ctx_of c m B2 = set_flags FlagOffsets (pack_flags (arch_ctx c m B) FlagOffsets 2) (arch_ctx c m B)"
    using e calculated_ok by (auto simp: packed_locs_simps)
  also have "\<dots> = arch_ctx c m B"
  proof (rule set_flags_id [OF cl], intro ballI)
    fix loc assume l: "loc \<in> set FlagOffsets"
    then have "\<not> bit (2 :: slot) loc" using bit_exp_iff [of 1 loc, where 'a = slot] by (auto simp: FlagOffsets_def flag_locs)
    then show "bit (pack_flags (arch_ctx c m B) FlagOffsets 2) loc = get_flag (arch_ctx c m B) loc"
      using l bit_pack_flags [OF packed_locs_bound, of "arch_ctx c m B" False 2 loc] by (auto simp: packed_locs_simps)
  qed
  finally show "ctx_of c m B2 = arch_ctx c m B" .
next
  assume w: "wide c m B 1 Src v" and s: "run_state (SetPackedRFLAG False Src) B = (u, B3)"
    and g: "run_state (GetPackedRFLAG False) B3 = (r', B4)"
  note e = SetPackedRFLAG_run [OF assms w s]
  then have n: "CurrentDeferredFlags B3 = TYPE_NONE" by (simp add: IsDeferredFlagsStored_def)
  have x: "arch_ctx c m B3 = set_flags FlagOffsets v (ctx_of c m B)"
    unfolding calculated_arch [OF n] using e by (simp add: packed_locs_simps)
  show "bit (val_of c m B4 r') i \<longleftrightarrow> i = 1 \<or> (i \<in> set FlagOffsets \<and> bit v i)"
    using GetPackedRFLAG_bits [OF calculated_ok [OF _ n] _ g, of c m B i] e
    by (auto simp: packed_locs_simps x clean_set_flags set_flags_get)
qed

section \<open>Instances\<close>

lemma const_builder_val [simp]:
  "i < length vs \<Longrightarrow> val_of c m (const_builder vs) i = ucast (vs ! i)"
  using const_builder_node [of i vs] by (auto simp: has_node_def)

text \<open>An 8-bit addition 255 + 1 whose flags are pending.\<close>

definition pending_add :: builder where
  "pending_add = (const_builder [0, 255, 1])\<lparr>CurrentDeferredFlags := TYPE_ADD 1 0 1 2 True\<rparr>"

lemma pending_add_ok: "deferred_ok zero_ctx zero_mem pending_add"
  by (simp add: pending_add_def deferred_ok_def const_builder_opnd)

lemmas pending_simps = pending_add_def arch_ctx_def sem_bytes get_flag_def zero_ctx_def

theorem CalculateDeferredFlags_witness:
  "let B' = emitted CalculateDeferredFlags pending_add in
   IsDeferredFlagsStored B' \<and> get_flag (ctx_of zero_ctx zero_mem B') CF_LOC \<and> get_flag (ctx_of zero_ctx zero_mem B') ZF_LOC"
  using CalculateDeferredFlags_correct [OF pending_add_ok prod.collapse [symmetric]]
  by (simp add: pending_simps)

theorem generate_flags_lazy_eager_witness:
  "let B' = emitted (generate_flags (TYPE_LOGICAL 1 1 1 2)) pending_add in
   \<not> get_flag (arch_ctx zero_ctx zero_mem B') CF_LOC"
  using generate_flags_lazy_eager [of zero_ctx zero_mem pending_add "TYPE_LOGICAL 1 1 1 2" _ _ "off_flags + CF_LOC",
      OF pending_add_ok _ prod.collapse [symmetric]]
  by (simp add: pending_simps const_builder_opnd)

theorem SetPackedRFLAG_witness:
  "let B' = emitted (SetPackedRFLAG True 1) pending_add in
   get_flag (ctx_of zero_ctx zero_mem B') SF_LOC \<and> \<not> get_flag (ctx_of zero_ctx zero_mem B') OF_LOC"
  using SetPackedRFLAG_correct [of zero_ctx zero_mem pending_add 1 255 True _ _ SF_LOC,
      OF pending_add_ok _ prod.collapse [symmetric], THEN conjunct2, THEN conjunct2, THEN conjunct2]
    SetPackedRFLAG_correct [of zero_ctx zero_mem pending_add 1 255 True _ _ OF_LOC,
      OF pending_add_ok _ prod.collapse [symmetric], THEN conjunct2, THEN conjunct2, THEN conjunct2]
  by (simp add: pending_simps const_builder_wide packed_locs_simps)

theorem GetPackedRFLAG_witness:
  "let (r, B') = run_state (GetPackedRFLAG True) pending_add in
   bit (val_of zero_ctx zero_mem B' r) CF_LOC \<and> \<not> bit (val_of zero_ctx zero_mem B' r) SF_LOC"
  using GetPackedRFLAG_correct [of zero_ctx zero_mem pending_add True _ _ CF_LOC,
      OF pending_add_ok _ prod.collapse [symmetric]]
    GetPackedRFLAG_correct [of zero_ctx zero_mem pending_add True _ _ SF_LOC,
      OF pending_add_ok _ prod.collapse [symmetric]]
  by (simp add: pending_simps clean_flags_def packed_locs_simps split_beta)

theorem packed_flags_round_trip_witness:
  "let (r, B1) = run_state (GetPackedRFLAG False) pending_add in
   get_flag (ctx_of zero_ctx zero_mem (emitted (SetPackedRFLAG False r) B1)) CF_LOC"
proof -
  let ?g = "run_state (GetPackedRFLAG False) pending_add"
  have "ctx_of zero_ctx zero_mem (emitted (SetPackedRFLAG False (fst ?g)) (snd ?g)) = arch_ctx zero_ctx zero_mem pending_add"
    using conjunct1 [OF packed_flags_round_trip [of zero_ctx zero_mem pending_add "fst ?g" "snd ?g"],
        OF pending_add_ok, THEN mp, THEN mp, THEN mp, OF _ _ prod.collapse [symmetric]]
    by (simp add: clean_flags_def FlagOffsets_def pending_simps)
  then show ?thesis by (simp add: split_beta pending_simps)
qed

end
