(* ===== verification/Std_Map.thy ===== *)
theory Std_Map
  imports Main
begin

text \<open>
  \<^verbatim>\<open>std::map\<close> as the sources use it: an association list in strictly ascending key order, with
  the operations \<^verbatim>\<open>emplace\<close>/\<^verbatim>\<open>insert\<close> (which keep an existing entry), \<^verbatim>\<open>erase\<close>, \<^verbatim>\<open>operator[]\<close>,
  \<^verbatim>\<open>lower_bound\<close> and \<^verbatim>\<open>upper_bound\<close>. An iterator is the position of its element. The
  lemmas relate every operation to the finite map \<^const>\<open>map_of\<close> and keep the order.
\<close>

named_theorems std_map_simps \<open>the finite map denoted by each operation of \<^verbatim>\<open>std::map\<close>\<close>

type_synonym ('k, 'v) std_map = "('k \<times> 'v) list"

definition map_ok :: "('k::linorder, 'v) std_map \<Rightarrow> bool" where
  "map_ok m \<longleftrightarrow> sorted_wrt (<) (map fst m)"

fun map_emplace :: "'k::linorder \<Rightarrow> 'v \<Rightarrow> ('k, 'v) std_map \<Rightarrow> ('k, 'v) std_map" where
  "map_emplace k v [] = [(k, v)]"
| "map_emplace k v ((a, b) # m) =
     (if k < a then (k, v) # (a, b) # m
      else if k = a then (a, b) # m
      else (a, b) # map_emplace k v m)"

fun map_erase :: "'k \<Rightarrow> ('k, 'v) std_map \<Rightarrow> ('k, 'v) std_map" where
  "map_erase k [] = []"
| "map_erase k ((a, b) # m) = (if k = a then m else (a, b) # map_erase k m)"

text \<open>Assignment through the reference that \<^verbatim>\<open>operator[]\<close> returns.\<close>

fun map_assign :: "'k::linorder \<Rightarrow> 'v \<Rightarrow> ('k, 'v) std_map \<Rightarrow> ('k, 'v) std_map" where
  "map_assign k v [] = [(k, v)]"
| "map_assign k v ((a, b) # m) =
     (if k < a then (k, v) # (a, b) # m
      else if k = a then (a, v) # m
      else (a, b) # map_assign k v m)"

definition map_lower_bound :: "('k::linorder, 'v) std_map \<Rightarrow> 'k \<Rightarrow> nat" where
  "map_lower_bound m k = length (takeWhile (\<lambda>e. fst e < k) m)"

definition map_upper_bound :: "('k::linorder, 'v) std_map \<Rightarrow> 'k \<Rightarrow> nat" where
  "map_upper_bound m k = length (takeWhile (\<lambda>e. \<not> k < fst e) m)"

lemma map_ok_Nil [simp]: "map_ok []"
  by (simp add: map_ok_def)

lemma map_ok_Cons [simp]:
  "map_ok ((a, b) # m) \<longleftrightarrow> (\<forall>e \<in> set m. a < fst e) \<and> map_ok m"
  by (auto simp: map_ok_def)

lemma map_ok_distinct: "map_ok m \<Longrightarrow> distinct (map fst m)"
  by (simp add: map_ok_def strict_sorted_iff)

lemma map_of_below [simp]:
  fixes a k :: "'k::linorder"
  shows "\<forall>e \<in> set m. a < fst e \<Longrightarrow> k \<le> a \<Longrightarrow> map_of m k = None"
  by (auto simp: map_of_eq_None_iff)

lemma set_map_emplace: "set (map_emplace k v m) \<subseteq> insert (k, v) (set m)"
  by (induction k v m rule: map_emplace.induct) auto

lemma map_ok_emplace [simp, intro]: "map_ok m \<Longrightarrow> map_ok (map_emplace k v m)"
proof (induction k v m rule: map_emplace.induct)
  case (2 k v a b m)
  then show ?case using set_map_emplace [of k v m] by force
qed simp

lemma map_of_emplace [std_map_simps]:
  "map_ok m \<Longrightarrow> map_of (map_emplace k v m) =
    (case map_of m k of None \<Rightarrow> (map_of m)(k \<mapsto> v) | Some _ \<Rightarrow> map_of m)"
  by (induction k v m rule: map_emplace.induct) (auto simp: fun_eq_iff split: option.splits)

lemma set_map_erase: "set (map_erase k m) \<subseteq> set m"
  by (induction k m rule: map_erase.induct) auto

lemma map_ok_erase [simp, intro]: "map_ok m \<Longrightarrow> map_ok (map_erase k m)"
proof (induction k m rule: map_erase.induct)
  case (2 k a b m)
  then show ?case using set_map_erase [of k m] by force
qed simp

lemma map_of_erase [std_map_simps]:
  "map_ok m \<Longrightarrow> map_of (map_erase k m) = (map_of m)(k := None)"
  by (induction k m rule: map_erase.induct) (auto simp: fun_eq_iff)

lemma set_map_assign: "set (map_assign k v m) \<subseteq> insert (k, v) (set m)"
  by (induction k v m rule: map_assign.induct) auto

lemma map_ok_assign [simp, intro]: "map_ok m \<Longrightarrow> map_ok (map_assign k v m)"
proof (induction k v m rule: map_assign.induct)
  case (2 k v a b m)
  then show ?case using set_map_assign [of k v m] by force
qed simp

lemma map_of_assign [std_map_simps]:
  "map_ok m \<Longrightarrow> map_of (map_assign k v m) = (map_of m)(k \<mapsto> v)"
  by (induction k v m rule: map_assign.induct) (auto simp: fun_eq_iff)

text \<open>The bounds cut an ordered map exactly at the keys they name.\<close>

lemma map_take_lower:
  "map_ok m \<Longrightarrow> take (map_lower_bound m k) m = filter (\<lambda>e. fst e < k) m"
proof (induction m)
  case (Cons e m)
  then show ?case
    by (cases e) (fastforce simp: map_lower_bound_def intro: filter_False [symmetric])
qed (simp add: map_lower_bound_def)

lemma map_drop_lower:
  "map_ok m \<Longrightarrow> drop (map_lower_bound m k) m = filter (\<lambda>e. k \<le> fst e) m"
proof (induction m)
  case (Cons e m)
  then show ?case
    by (cases e) (fastforce simp: map_lower_bound_def intro: filter_True [symmetric])
qed (simp add: map_lower_bound_def)

lemma map_take_upper:
  "map_ok m \<Longrightarrow> take (map_upper_bound m k) m = filter (\<lambda>e. fst e \<le> k) m"
proof (induction m)
  case (Cons e m)
  then show ?case
    by (cases e) (fastforce simp: map_upper_bound_def intro: filter_False [symmetric])
qed (simp add: map_upper_bound_def)

lemma map_drop_upper:
  "map_ok m \<Longrightarrow> drop (map_upper_bound m k) m = filter (\<lambda>e. k < fst e) m"
proof (induction m)
  case (Cons e m)
  then show ?case
    by (cases e) (fastforce simp: map_upper_bound_def intro: filter_True [symmetric])
qed (simp add: map_upper_bound_def)

lemma map_bounds_length:
  "map_lower_bound m k \<le> length m" "map_upper_bound m k \<le> length m"
  by (simp_all add: map_lower_bound_def map_upper_bound_def length_takeWhile_le)

lemma map_lower_le_upper:
  assumes "map_ok m" "lo \<le> hi"
  shows "map_lower_bound m lo \<le> map_upper_bound m hi"
  using assms
proof (induction m)
  case (Cons e m)
  then show ?case
    by (cases e) (auto simp: map_lower_bound_def map_upper_bound_def)
qed (simp add: map_lower_bound_def)

lemma map_ok_filter [simp, intro]: "map_ok m \<Longrightarrow> map_ok (filter P m)"
  unfolding map_ok_def by (simp add: sorted_wrt_map sorted_wrt_filter)

lemma map_lower_filter:
  assumes "map_ok m" "lo \<le> hi"
  shows "map_lower_bound (filter (\<lambda>e. fst e \<le> hi) m) lo = map_lower_bound m lo"
proof -
  have "length (take (map_lower_bound x lo) x) = map_lower_bound x lo" for x :: "('a, 'b) std_map"
    by (simp add: map_bounds_length min_absorb2)
  moreover have "filter (\<lambda>e. fst e < lo) (filter (\<lambda>e. fst e \<le> hi) m) = filter (\<lambda>e. fst e < lo) m"
    using assms(2) by (auto intro: filter_cong)
  ultimately show ?thesis
    using assms(1) by (metis map_take_lower map_ok_filter)
qed

lemma map_range:
  assumes "map_ok m" "lo \<le> hi"
  shows "drop (map_lower_bound m lo) (take (map_upper_bound m hi) m)
    = filter (\<lambda>e. lo \<le> fst e \<and> fst e \<le> hi) m"
  using map_drop_lower [of "filter (\<lambda>e. fst e \<le> hi) m" lo] assms
  by (simp add: map_take_upper map_lower_filter conj_commute)

text \<open>The positions below the bounds.\<close>

lemma below_lower_iff:
  assumes "map_ok m" "i < length m"
  shows "i < map_lower_bound m k \<longleftrightarrow> fst (m ! i) < k"
proof
  assume "i < map_lower_bound m k"
  then have "m ! i \<in> set (take (map_lower_bound m k) m)"
    using assms(2) by (auto simp: in_set_conv_nth)
  then show "fst (m ! i) < k" using assms(1) by (simp add: map_take_lower)
next
  assume "fst (m ! i) < k"
  show "i < map_lower_bound m k"
  proof (rule ccontr)
    assume "\<not> i < map_lower_bound m k"
    then have "m ! i \<in> set (drop (map_lower_bound m k) m)"
      using assms(2) by (auto simp: in_set_conv_nth intro!: exI [of _ "i - map_lower_bound m k"])
    then show False using assms(1) \<open>fst (m ! i) < k\<close> by (auto simp: map_drop_lower)
  qed
qed

lemma below_upper_iff:
  assumes "map_ok m" "i < length m"
  shows "i < map_upper_bound m k \<longleftrightarrow> fst (m ! i) \<le> k"
proof
  assume "i < map_upper_bound m k"
  then have "m ! i \<in> set (take (map_upper_bound m k) m)"
    using assms(2) by (auto simp: in_set_conv_nth)
  then show "fst (m ! i) \<le> k" using assms(1) by (simp add: map_take_upper)
next
  assume "fst (m ! i) \<le> k"
  show "i < map_upper_bound m k"
  proof (rule ccontr)
    assume "\<not> i < map_upper_bound m k"
    then have "m ! i \<in> set (drop (map_upper_bound m k) m)"
      using assms(2) by (auto simp: in_set_conv_nth intro!: exI [of _ "i - map_upper_bound m k"])
    then show False using assms(1) \<open>fst (m ! i) \<le> k\<close> by (auto simp: map_drop_upper)
  qed
qed

end
