(* ===== verification/Lookup_Cache.thy ===== *)
theory Lookup_Cache
  imports FEX_Prelude Std_Map
begin

text \<open>
  The code lookup cache (\<^verbatim>\<open>Interface/Core/LookupCache.h\<close>, \<^verbatim>\<open>LookupCache.cpp\<close>) and its callers in
  \<^verbatim>\<open>Core.cpp\<close>: the map from guest code addresses to compiled host code, held in three levels.
  L1 is a direct-mapped array, L2 a two-level page table whose pages come from a bump allocator,
  L3 the authoritative \<^verbatim>\<open>std::map\<close>. The mappings of L1, of the page pointers and of the page
  memory are total functions of their index (of the host address for the page memory); the lock
  is not represented, each operation being one step.
\<close>

section \<open>State\<close>

record LookupCacheEntry =
  HostCode :: u64
  GuestCode :: u64

datatype BlockLinkTag = BlockLinkTag (GuestDestination: u64) (HostLink: u64)

text \<open>The order of the link map, from \<^verbatim>\<open>BlockLinkTag::operator <\<close>.\<close>

fun tag_less :: "BlockLinkTag \<Rightarrow> BlockLinkTag \<Rightarrow> bool" where
  "tag_less (BlockLinkTag g h) (BlockLinkTag g' h') =
     (if g < g' then True else if g = g' then h < h' else False)"

instantiation BlockLinkTag :: linorder
begin

definition less_BlockLinkTag :: "BlockLinkTag \<Rightarrow> BlockLinkTag \<Rightarrow> bool" where
  "less_BlockLinkTag = tag_less"

definition less_eq_BlockLinkTag :: "BlockLinkTag \<Rightarrow> BlockLinkTag \<Rightarrow> bool" where
  "less_eq_BlockLinkTag x y \<longleftrightarrow> x = y \<or> tag_less x y"

instance
proof
  fix x y z :: BlockLinkTag
  show "(x < y) = (x \<le> y \<and> \<not> y \<le> x)"
    by (cases x; cases y) (auto simp: less_BlockLinkTag_def less_eq_BlockLinkTag_def split: if_splits)
  show "x \<le> x" by (simp add: less_eq_BlockLinkTag_def)
  show "x \<le> y \<Longrightarrow> y \<le> z \<Longrightarrow> x \<le> z"
    by (cases x; cases y; cases z) (auto simp: less_eq_BlockLinkTag_def split: if_splits)
  show "x \<le> y \<Longrightarrow> y \<le> x \<Longrightarrow> x = y"
    by (cases x; cases y) (auto simp: less_eq_BlockLinkTag_def split: if_splits)
  show "x \<le> y \<or> y \<le> x"
    by (cases x; cases y) (auto simp: less_eq_BlockLinkTag_def split: if_splits)
qed

end

text \<open>
  \<^typ>\<open>'d\<close> is the type of delinkers (\<^verbatim>\<open>std::function<void()>\<close>, which patches a jump in host code);
  \<open>Severed\<close> records the delinkers called so far, oldest first.
\<close>

record 'd LookupCache =
  L1Pointer :: "u64 \<Rightarrow> LookupCacheEntry"
  PagePointer :: "u64 \<Rightarrow> u64"
  PageContents :: "u64 \<Rightarrow> LookupCacheEntry"
  PageMemory :: u64
  AllocateOffset :: u64
  VirtualMemSize :: u64
  BlockLinks :: "(BlockLinkTag, 'd) std_map"
  BlockList :: "(u64, u64) std_map"
  CodePages :: "(u64, u64 list) std_map"
  Severed :: "'d list"

definition L1_ENTRIES_MASK :: u64 where "L1_ENTRIES_MASK = 1 * 1024 * 1024 - 1"
definition CODE_SIZE :: u64 where "CODE_SIZE = 128 * 1024 * 1024"
definition SIZE_PER_PAGE :: u64 where "SIZE_PER_PAGE = 4096 * 16"

text \<open>The value of an entry in memory that \<^verbatim>\<open>mmap\<close> or \<^verbatim>\<open>MADV_DONTNEED\<close> left zero.\<close>

definition empty_entry :: LookupCacheEntry where
  "empty_entry = \<lparr>HostCode = 0, GuestCode = 0\<rparr>"

definition new_LookupCache :: "u64 \<Rightarrow> u64 \<Rightarrow> 'd LookupCache" where
  "new_LookupCache page_memory mem_size =
     \<lparr>L1Pointer = (\<lambda>_. empty_entry), PagePointer = (\<lambda>_. 0), PageContents = (\<lambda>_. empty_entry),
      PageMemory = page_memory, AllocateOffset = 0, VirtualMemSize = mem_size,
      BlockLinks = [], BlockList = [], CodePages = [], Severed = []\<rparr>"

section \<open>Operations\<close>

datatype cache_error =
    DuplicateBlockMapping
  | IteratorPastEnd

definition L1_index :: "u64 \<Rightarrow> u64" where
  "L1_index Address = Address AND L1_ENTRIES_MASK"

definition page_index :: "'d LookupCache \<Rightarrow> u64 \<Rightarrow> u64" where
  "page_index c Address = drop_bit 12 (Address AND (VirtualMemSize c - 1))"

text \<open>The address of element \<open>offset\<close> of the entry array at \<open>page\<close>.\<close>

definition entry_at :: "u64 \<Rightarrow> u64 \<Rightarrow> u64" where
  "entry_at page offset = page + 16 * offset"

definition set_L1 :: "u64 \<Rightarrow> u64 \<Rightarrow> 'd LookupCache \<Rightarrow> 'd LookupCache" where
  "set_L1 Address Host c = c\<lparr>L1Pointer :=
     (L1Pointer c)(L1_index Address := \<lparr>HostCode = Host, GuestCode = Address\<rparr>)\<rparr>"

definition ClearL2Cache :: "'d LookupCache \<Rightarrow> 'd LookupCache" where
  "ClearL2Cache c =
     c\<lparr>PagePointer := (\<lambda>_. 0), PageContents := (\<lambda>_. empty_entry), AllocateOffset := 0\<rparr>"

definition ClearCache :: "'d LookupCache \<Rightarrow> 'd LookupCache" where
  "ClearCache c =
     (let c = c\<lparr>L1Pointer := (\<lambda>_. empty_entry)\<rparr>;
          c = ClearL2Cache c;
          c = c\<lparr>BlockLinks := []\<rparr>
      in c\<lparr>BlockList := []\<rparr>)"

definition AllocateBackingForPage :: "'d LookupCache \<Rightarrow> u64 \<times> 'd LookupCache" where
  "AllocateBackingForPage c =
     (let NewBase = AllocateOffset c; NewEnd = AllocateOffset c + SIZE_PER_PAGE
      in if NewEnd \<ge> CODE_SIZE then (0, c)
         else (PageMemory c + NewBase, c\<lparr>AllocateOffset := NewEnd\<rparr>))"

text \<open>
  The retry after clearing L2 passes the local \<^verbatim>\<open>Address\<close>, which holds the page index by then,
  as the source does. The recursion ends only if the allocator has a page after the cache was
  cleared, so a value \<^const>\<open>None\<close> stands for a call that does not return.
\<close>

partial_function (option) CacheBlockMapping ::
  "u64 \<Rightarrow> u64 \<Rightarrow> 'd LookupCache \<Rightarrow> 'd LookupCache option" where
  "CacheBlockMapping Address Host c =
     (let c = set_L1 Address Host c;
          FullAddress = Address;
          Address = Address AND (VirtualMemSize c - 1);
          PageOffset = Address AND 0x0FFF;
          Address = drop_bit 12 Address;
          LocalPagePointer = PagePointer c Address
      in if LocalPagePointer = 0 then
           (let (NewPageBacking, c) = AllocateBackingForPage c
            in if NewPageBacking = 0 then CacheBlockMapping Address Host (ClearL2Cache c)
               else Some (c\<lparr>PagePointer := (PagePointer c)(Address := NewPageBacking),
                      PageContents := (PageContents c)(entry_at NewPageBacking PageOffset :=
                        \<lparr>HostCode = Host, GuestCode = FullAddress\<rparr>)\<rparr>))
         else Some (c\<lparr>PageContents := (PageContents c)(entry_at LocalPagePointer PageOffset :=
                   \<lparr>HostCode = Host, GuestCode = FullAddress\<rparr>)\<rparr>))"

declare CacheBlockMapping.simps [code]

definition FindBlock :: "u64 \<Rightarrow> 'd LookupCache \<Rightarrow> (u64 \<times> 'd LookupCache) option" where
  "FindBlock Address c =
     (let L1Entry = L1Pointer c (L1_index Address)
      in if GuestCode L1Entry = Address then Some (HostCode L1Entry, c)
         else
           let PageIndex = page_index c Address;
               PageOffset = Address AND 0x0FFF;
               LocalPagePointer = PagePointer c PageIndex;
               Block = PageContents c (entry_at LocalPagePointer PageOffset)
           in if LocalPagePointer \<noteq> 0 \<and> GuestCode Block = Address
              then Some (HostCode Block, set_L1 Address (HostCode Block) c)
              else
                (case map_of (BlockList c) Address of
                   Some Host \<Rightarrow>
                     map_option (\<lambda>c'. (Host, c')) (CacheBlockMapping Address Host c)
                 | None \<Rightarrow> Some (0, c)))"

text \<open>
  The pages of a range, as the loop \<^verbatim>\<open>CurrentPage = Start >> 12 ... (Start + Length - 1) >> 12\<close>
  visits them; the sum wraps at 64 bits, the page counter cannot.
\<close>

definition range_pages :: "u64 \<Rightarrow> u64 \<Rightarrow> u64 list" where
  "range_pages Start Length =
     map of_nat [unat (drop_bit 12 Start)..<Suc (unat (drop_bit 12 (Start + Length - 1)))]"

definition page_code :: "u64 \<Rightarrow> 'd LookupCache \<Rightarrow> u64 list" where
  "page_code Page c = (case map_of (CodePages c) Page of None \<Rightarrow> [] | Some as \<Rightarrow> as)"

definition mark_page ::
  "u64 \<Rightarrow> u64 \<Rightarrow> bool \<times> 'd LookupCache \<Rightarrow> bool \<times> 'd LookupCache" where
  "mark_page Address CurrentPage s =
     (let (rv, c) = s; CodePage = page_code CurrentPage c
      in (rv \<or> CodePage = [],
          c\<lparr>CodePages := map_assign CurrentPage (CodePage @ [Address]) (CodePages c)\<rparr>))"

definition AddBlockExecutableRange ::
  "u64 \<Rightarrow> u64 \<Rightarrow> u64 \<Rightarrow> 'd LookupCache \<Rightarrow> bool \<times> 'd LookupCache" where
  "AddBlockExecutableRange Address Start Length c =
     fold (mark_page Address) (range_pages Start Length) (False, c)"

text \<open>
  A second block at the same address fails the assertion \<^verbatim>\<open>LOGMAN_THROW_AA_FMT(Inserted, ...)\<close>, which
  builds with assertions check; that is the error value. A build without them would go on with L1 and the block
  list in disagreement.
\<close>

definition AddBlockMapping ::
  "u64 \<Rightarrow> u64 \<Rightarrow> 'd LookupCache \<Rightarrow> cache_error + 'd LookupCache" where
  "AddBlockMapping Address Host c =
     (if map_of (BlockList c) Address \<noteq> None then Inl DuplicateBlockMapping
      else
        let c = c\<lparr>BlockList := map_emplace Address Host (BlockList c)\<rparr>
        in Inr (set_L1 Address Host c))"

text \<open>
  The loop of \<^verbatim>\<open>Erase\<close> over the links of a block: \<open>n\<close> elements from position \<open>it\<close>, each called
  and then erased, which moves the next one to \<open>it\<close>.
\<close>

fun sever_links :: "nat \<Rightarrow> nat \<Rightarrow> 'd LookupCache \<Rightarrow> 'd LookupCache" where
  "sever_links 0 it c = c"
| "sever_links (Suc n) it c =
     sever_links n it
       (c\<lparr>Severed := Severed c @ [snd (BlockLinks c ! it)],
          BlockLinks := take it (BlockLinks c) @ drop (Suc it) (BlockLinks c)\<rparr>)"

definition Erase :: "u64 \<Rightarrow> 'd LookupCache \<Rightarrow> 'd LookupCache" where
  "Erase Address c =
     (let lower = map_lower_bound (BlockLinks c) (BlockLinkTag Address 0);
          upper = map_upper_bound (BlockLinks c) (BlockLinkTag Address (- 1));
          c = sever_links (upper - lower) lower c;
          c = c\<lparr>BlockList := map_erase Address (BlockList c)\<rparr>;
          L1Entry = L1Pointer c (L1_index Address);
          c = (if GuestCode L1Entry = Address
               then c\<lparr>L1Pointer := (L1Pointer c)(L1_index Address := L1Entry\<lparr>GuestCode := 0\<rparr>)\<rparr>
               else c);
          Address = Address AND (VirtualMemSize c - 1);
          PageOffset = Address AND 0x0FFF;
          Address = drop_bit 12 Address;
          LocalPagePointer = PagePointer c Address
      in if LocalPagePointer = 0 then c
         else c\<lparr>PageContents := (PageContents c)(entry_at LocalPagePointer PageOffset :=
                  empty_entry)\<rparr>)"

definition AddBlockLink ::
  "u64 \<Rightarrow> u64 \<Rightarrow> 'd \<Rightarrow> 'd LookupCache \<Rightarrow> 'd LookupCache" where
  "AddBlockLink Guest Link delinker c =
     c\<lparr>BlockLinks := map_emplace (BlockLinkTag Guest Link) delinker (BlockLinks c)\<rparr>"

section \<open>Invariants\<close>

text \<open>
  What the mappings of the constructor give: page memory at a non-null address with room for
  \<^const>\<open>CODE_SIZE\<close> bytes, and a virtual memory size of whole pages.
\<close>

definition config_ok :: "'d LookupCache \<Rightarrow> bool" where
  "config_ok c \<longleftrightarrow> PageMemory c \<noteq> 0 \<and> unat (PageMemory c) + unat CODE_SIZE \<le> 2 ^ 64
     \<and> VirtualMemSize c \<noteq> 0 \<and> VirtualMemSize c AND 0x0FFF = 0"

text \<open>
  The page table: the pages in use lie in the page memory below the allocation mark, aligned to
  their size, no two indices share one, and the mark counts them.
\<close>

definition pages_ok :: "'d LookupCache \<Rightarrow> bool" where
  "pages_ok c \<longleftrightarrow>
     (\<exists>ps. distinct ps \<and> {p. PagePointer c p \<noteq> 0} = set ps
        \<and> (\<forall>k < length ps. PagePointer c (ps ! k) = PageMemory c + of_nat k * SIZE_PER_PAGE)
        \<and> unat (AllocateOffset c) = 65536 * length ps \<and> unat (AllocateOffset c) < unat CODE_SIZE)"

text \<open>The slot of an address in L2.\<close>

definition L2_slot :: "'d LookupCache \<Rightarrow> u64 \<Rightarrow> u64" where
  "L2_slot c Address = entry_at (PagePointer c (page_index c Address)) (Address AND 0x0FFF)"

definition L1_coherent :: "'d LookupCache \<Rightarrow> bool" where
  "L1_coherent c \<longleftrightarrow> (\<forall>i. let e = L1Pointer c i in GuestCode e \<noteq> 0 \<longrightarrow>
     map_of (BlockList c) (GuestCode e) = Some (HostCode e) \<and> i = L1_index (GuestCode e))"

definition L2_coherent :: "'d LookupCache \<Rightarrow> bool" where
  "L2_coherent c \<longleftrightarrow> (\<forall>x. let e = PageContents c x in GuestCode e \<noteq> 0 \<longrightarrow>
     map_of (BlockList c) (GuestCode e) = Some (HostCode e)
     \<and> PagePointer c (page_index c (GuestCode e)) \<noteq> 0 \<and> x = L2_slot c (GuestCode e))"

definition maps_ok :: "'d LookupCache \<Rightarrow> bool" where
  "maps_ok c \<longleftrightarrow> map_ok (BlockLinks c) \<and> map_ok (BlockList c) \<and> map_ok (CodePages c)"

definition cache_ok :: "'d LookupCache \<Rightarrow> bool" where
  "cache_ok c \<longleftrightarrow> config_ok c \<and> maps_ok c \<and> pages_ok c"

definition coherent :: "'d LookupCache \<Rightarrow> bool" where
  "coherent c \<longleftrightarrow> cache_ok c \<and> L1_coherent c \<and> L2_coherent c"

definition has_room :: "'d LookupCache \<Rightarrow> u64 \<Rightarrow> bool" where
  "has_room c Address \<longleftrightarrow> PagePointer c (page_index c Address) \<noteq> 0
     \<or> AllocateOffset c + SIZE_PER_PAGE < CODE_SIZE"

lemmas lc_consts = L1_ENTRIES_MASK_def CODE_SIZE_def SIZE_PER_PAGE_def

lemmas lc_frame = set_L1_def ClearL2Cache_def page_index_def

lemma low12: "x AND 0x0FFF = take_bit 12 (x :: u64)"
  by (simp add: take_bit_eq_mask mask_eq_exp_minus_1)

lemma unat_low12: "unat (x AND 0x0FFF :: u64) = unat x mod 4096"
  by (simp only: low12 unsigned_take_bit_eq) (simp add: take_bit_eq_mod)

lemma pred_mod_4096:
  assumes "n mod 4096 = 0" "0 < (n :: nat)"
  shows "(n - 1) mod 4096 = 4095"
proof -
  from assms obtain k where "n = 4096 * k" "0 < k"
    by (auto simp: mod_eq_0_iff_dvd elim!: dvdE)
  then obtain j where "n - 1 = 4095 + 4096 * j"
    by (cases k) auto
  then show ?thesis by simp
qed

lemma mem_size_pages:
  assumes "config_ok c"
  shows "unat (VirtualMemSize c) mod 4096 = 0"
  using assms unat_low12 [of "VirtualMemSize c"] by (simp add: config_ok_def)

lemma page_offset_masked:
  assumes "config_ok c"
  shows "(A AND (VirtualMemSize c - 1)) AND 0x0FFF = A AND 0x0FFF"
proof -
  have nz: "VirtualMemSize c \<noteq> 0" using assms by (simp add: config_ok_def)
  then have "0 < unat (VirtualMemSize c)" by (simp add: unat_gt_0)
  from mem_size_pages [OF assms] this have "(unat (VirtualMemSize c) - 1) mod 4096 = 4095"
    by (rule pred_mod_4096)
  then have "unat ((VirtualMemSize c - 1) AND 0x0FFF) = unat (0x0FFF :: u64)"
    by (simp add: unat_low12 unat_minus_one [OF nz])
  then have "(VirtualMemSize c - 1) AND 0x0FFF = 0x0FFF"
    by (rule word_unat_eq_iff [THEN iffD2])
  then show ?thesis by (simp add: and.assoc)
qed

lemma page_index_bound:
  assumes "config_ok c"
  shows "unat (page_index c A) < unat (VirtualMemSize c) div 4096"
proof -
  have le: "A AND (VirtualMemSize c - 1) \<le> VirtualMemSize c - 1"
    by (simp add: word_and_le1)
  have nz: "VirtualMemSize c \<noteq> 0" using assms by (simp add: config_ok_def)
  have "unat (VirtualMemSize c) mod 4096 = 0" by (rule mem_size_pages [OF assms])
  moreover have "unat (A AND (VirtualMemSize c - 1)) < unat (VirtualMemSize c)"
    using le nz unat_minus_one [OF nz] unat_gt_0 [of "VirtualMemSize c"]
    by (simp add: word_le_nat_alt)
  ultimately have "unat (A AND (VirtualMemSize c - 1)) div 4096 < unat (VirtualMemSize c) div 4096"
    by (simp add: div_less_iff_less_mult mod_eq_0_iff_dvd)
  then show ?thesis
    unfolding page_index_def unat_drop_bit_eq by (simp add: drop_bit_eq_div del: unat_div)
qed

section \<open>Filling the caches\<close>

lemma set_L1_simps [simp]:
  "PagePointer (set_L1 A H c) = PagePointer c" "PageContents (set_L1 A H c) = PageContents c"
  "PageMemory (set_L1 A H c) = PageMemory c" "AllocateOffset (set_L1 A H c) = AllocateOffset c"
  "VirtualMemSize (set_L1 A H c) = VirtualMemSize c" "BlockLinks (set_L1 A H c) = BlockLinks c"
  "BlockList (set_L1 A H c) = BlockList c" "CodePages (set_L1 A H c) = CodePages c"
  "Severed (set_L1 A H c) = Severed c"
  "L1Pointer (set_L1 A H c) = (L1Pointer c)(L1_index A := \<lparr>HostCode = H, GuestCode = A\<rparr>)"
  by (simp_all add: set_L1_def)

lemma ClearL2Cache_simps [simp]:
  "PagePointer (ClearL2Cache c) = (\<lambda>_. 0)" "PageContents (ClearL2Cache c) = (\<lambda>_. empty_entry)"
  "PageMemory (ClearL2Cache c) = PageMemory c" "AllocateOffset (ClearL2Cache c) = 0"
  "VirtualMemSize (ClearL2Cache c) = VirtualMemSize c" "BlockLinks (ClearL2Cache c) = BlockLinks c"
  "BlockList (ClearL2Cache c) = BlockList c" "CodePages (ClearL2Cache c) = CodePages c"
  "Severed (ClearL2Cache c) = Severed c" "L1Pointer (ClearL2Cache c) = L1Pointer c"
  by (simp_all add: ClearL2Cache_def)

lemma config_ok_cong:
  "PageMemory c = PageMemory d \<Longrightarrow> VirtualMemSize c = VirtualMemSize d \<Longrightarrow> config_ok c = config_ok d"
  by (simp add: config_ok_def)

lemma page_index_cong: "VirtualMemSize c = VirtualMemSize d \<Longrightarrow> page_index c = page_index d"
  by (simp add: page_index_def fun_eq_iff)

lemma pages_ok_cong:
  "PageMemory c = PageMemory d \<Longrightarrow> PagePointer c = PagePointer d \<Longrightarrow>
   AllocateOffset c = AllocateOffset d \<Longrightarrow> pages_ok c = pages_ok d"
  by (simp add: pages_ok_def)

lemma pages_ok_ClearL2: "pages_ok (ClearL2Cache c)"
  by (simp add: pages_ok_def lc_consts)

lemma empty_entry_GuestCode [simp]: "GuestCode empty_entry = 0"
  by (simp add: empty_entry_def)

text \<open>Storing a mapping in the L2 page at \<open>page\<close>.\<close>

definition L2_store :: "u64 \<Rightarrow> u64 \<Rightarrow> u64 \<Rightarrow> 'd LookupCache \<Rightarrow> 'd LookupCache" where
  "L2_store A H page c = c\<lparr>PagePointer := (PagePointer c)(page_index c A := page),
     PageContents := (PageContents c)(entry_at page (A AND 0x0FFF) :=
       \<lparr>HostCode = H, GuestCode = A\<rparr>)\<rparr>"

lemma L2_store_simps [simp]:
  "PagePointer (L2_store A H page c) = (PagePointer c)(page_index c A := page)"
  "PageContents (L2_store A H page c) = (PageContents c)(entry_at page (A AND 0x0FFF) :=
       \<lparr>HostCode = H, GuestCode = A\<rparr>)"
  "PageMemory (L2_store A H page c) = PageMemory c"
  "AllocateOffset (L2_store A H page c) = AllocateOffset c"
  "VirtualMemSize (L2_store A H page c) = VirtualMemSize c"
  "BlockLinks (L2_store A H page c) = BlockLinks c"
  "BlockList (L2_store A H page c) = BlockList c" "CodePages (L2_store A H page c) = CodePages c"
  "Severed (L2_store A H page c) = Severed c" "L1Pointer (L2_store A H page c) = L1Pointer c"
  by (simp_all add: L2_store_def)

lemma CacheBlockMapping_cached:
  assumes "config_ok c" "PagePointer c (page_index c A) \<noteq> 0"
  shows "CacheBlockMapping A H c =
    Some (L2_store A H (PagePointer c (page_index c A)) (set_L1 A H c))"
  using assms page_offset_masked [of "set_L1 A H c" A]
  by (subst CacheBlockMapping.simps)
    (simp add: L2_store_def Let_def page_index_def config_ok_def)

lemma new_page_not_null:
  assumes "config_ok c" "pages_ok c"
  shows "PageMemory c + AllocateOffset c \<noteq> 0"
proof -
  have "unat (PageMemory c) + unat (AllocateOffset c) < 2 ^ 64"
    using assms by (auto simp: config_ok_def pages_ok_def)
  then have "unat (PageMemory c + AllocateOffset c) = unat (PageMemory c) + unat (AllocateOffset c)"
    by (simp add: unat_add_lem [THEN iffD1])
  moreover have "unat (PageMemory c) \<noteq> 0"
    using assms by (simp add: config_ok_def unat_eq_zero)
  ultimately show ?thesis by (metis add_is_0 unsigned_0)
qed

lemma CacheBlockMapping_alloc:
  assumes "config_ok c" "pages_ok c" "PagePointer c (page_index c A) = 0"
    "AllocateOffset c + SIZE_PER_PAGE < CODE_SIZE"
  shows "CacheBlockMapping A H c = Some (L2_store A H (PageMemory c + AllocateOffset c)
    ((set_L1 A H c)\<lparr>AllocateOffset := AllocateOffset c + SIZE_PER_PAGE\<rparr>))"
  using assms page_offset_masked [of "set_L1 A H c" A] new_page_not_null [of c]
  by (subst CacheBlockMapping.simps)
    (simp add: L2_store_def Let_def page_index_def config_ok_def AllocateBackingForPage_def
      not_le [symmetric])

lemma CacheBlockMapping_exhausted:
  assumes "PagePointer c (page_index c A) = 0"
    "\<not> AllocateOffset c + SIZE_PER_PAGE < CODE_SIZE"
  shows "CacheBlockMapping A H c =
    CacheBlockMapping (page_index c A) H (ClearL2Cache (set_L1 A H c))"
  using assms
  by (subst CacheBlockMapping.simps)
    (simp add: Let_def page_index_def AllocateBackingForPage_def not_less)

lemma has_room_cases:
  assumes "config_ok c" "pages_ok c" "has_room c A"
  obtains "PagePointer c (page_index c A) \<noteq> 0"
    "CacheBlockMapping A H c = Some (L2_store A H (PagePointer c (page_index c A)) (set_L1 A H c))"
  | "PagePointer c (page_index c A) = 0" "AllocateOffset c + SIZE_PER_PAGE < CODE_SIZE"
    "CacheBlockMapping A H c = Some (L2_store A H (PageMemory c + AllocateOffset c)
      ((set_L1 A H c)\<lparr>AllocateOffset := AllocateOffset c + SIZE_PER_PAGE\<rparr>))"
  using assms CacheBlockMapping_cached [of c A H] CacheBlockMapping_alloc [of c A H]
  unfolding has_room_def by blast

text \<open>Allocating one page keeps the page table well formed.\<close>

lemma pages_ok_alloc:
  assumes "config_ok c" "pages_ok c" "PagePointer c p = 0"
    "AllocateOffset c + SIZE_PER_PAGE < CODE_SIZE"
    "PageMemory d = PageMemory c" "AllocateOffset d = AllocateOffset c + SIZE_PER_PAGE"
    "PagePointer d = (PagePointer c)(p := PageMemory c + AllocateOffset c)"
  shows "pages_ok d"
proof -
  obtain ps where ps: "distinct ps" "{p. PagePointer c p \<noteq> 0} = set ps"
    "\<forall>k < length ps. PagePointer c (ps ! k) = PageMemory c + of_nat k * SIZE_PER_PAGE"
    "unat (AllocateOffset c) = 65536 * length ps" "unat (AllocateOffset c) < unat CODE_SIZE"
    using assms(2) unfolding pages_ok_def by blast
  have off: "AllocateOffset c = of_nat (length ps) * SIZE_PER_PAGE"
    using arg_cong [OF ps(4), of "of_nat :: nat \<Rightarrow> u64"] by (simp add: lc_consts ac_simps)
  have "p \<notin> set ps" using assms(3) ps(2) by blast
  have "unat (AllocateOffset d) = 65536 * Suc (length ps)"
    using ps(4,5) assms(6) by (simp add: lc_consts unat_word_ariths)
  moreover have "unat (AllocateOffset d) < unat CODE_SIZE"
    using assms(4,6) by (simp add: word_less_nat_alt)
  moreover have "{q. PagePointer d q \<noteq> 0} = set (ps @ [p])"
    using ps(2) new_page_not_null [OF assms(1,2)] by (auto simp: assms(7))
  moreover have "\<forall>k < length (ps @ [p]). PagePointer d ((ps @ [p]) ! k)
      = PageMemory d + of_nat k * SIZE_PER_PAGE"
    using ps(3) \<open>p \<notin> set ps\<close> by (auto simp: assms(5,7) nth_append less_Suc_eq off)
  ultimately show ?thesis
    unfolding pages_ok_def using ps(1) \<open>p \<notin> set ps\<close>
    by (intro exI [of _ "ps @ [p]"]) simp
qed

lemma page_index_frame [simp]:
  "page_index (set_L1 A H c) = page_index c" "page_index (ClearL2Cache c) = page_index c"
  "page_index (L2_store A H page c) = page_index c"
  "page_index (c\<lparr>AllocateOffset := off\<rparr>) = page_index c"
  by (simp_all add: page_index_def fun_eq_iff)

lemma cache_ok_frame:
  assumes "cache_ok c" "PageMemory d = PageMemory c" "VirtualMemSize d = VirtualMemSize c"
    "PagePointer d = PagePointer c" "AllocateOffset d = AllocateOffset c" "maps_ok d"
  shows "cache_ok d"
  using assms config_ok_cong [of d c] pages_ok_cong [of d c] by (simp add: cache_ok_def)

text \<open>The parts of the state that looking up a block never changes.\<close>

definition same_blocks :: "'d LookupCache \<Rightarrow> 'd LookupCache \<Rightarrow> bool" where
  "same_blocks c d \<longleftrightarrow> BlockList d = BlockList c \<and> BlockLinks d = BlockLinks c
     \<and> CodePages d = CodePages c \<and> Severed d = Severed c
     \<and> PageMemory d = PageMemory c \<and> VirtualMemSize d = VirtualMemSize c"

lemma same_blocks_trans [trans]:
  "same_blocks c d \<Longrightarrow> same_blocks d e \<Longrightarrow> same_blocks c e"
  by (simp add: same_blocks_def)

lemma same_blocks_config: "same_blocks c d \<Longrightarrow> config_ok c \<Longrightarrow> maps_ok c \<Longrightarrow> config_ok d \<and> maps_ok d"
  by (simp add: same_blocks_def config_ok_def maps_ok_def)

lemma CacheBlockMapping_room:
  assumes "cache_ok c" "has_room c A"
  shows "\<exists>d. CacheBlockMapping A H c = Some d \<and> cache_ok d \<and> same_blocks c d"
proof -
  have ok: "config_ok c" "pages_ok c" "maps_ok c" using assms(1) by (simp_all add: cache_ok_def)
  from ok(1,2) assms(2) show ?thesis
  proof (cases rule: has_room_cases [where H = H])
    case 1
    moreover have "pages_ok (L2_store A H (PagePointer c (page_index c A)) (set_L1 A H c))"
      using ok(2) by (simp add: pages_ok_def)
    ultimately show ?thesis
      using ok by (simp add: cache_ok_def same_blocks_def config_ok_def maps_ok_def)
  next
    case 2
    let ?d = "L2_store A H (PageMemory c + AllocateOffset c)
      ((set_L1 A H c)\<lparr>AllocateOffset := AllocateOffset c + SIZE_PER_PAGE\<rparr>)"
    have "pages_ok ?d"
      by (rule pages_ok_alloc [OF ok(1,2) 2(1,2)]) simp_all
    then show ?thesis
      using ok 2(3) by (simp add: cache_ok_def same_blocks_def config_ok_def maps_ok_def)
  qed
qed

lemma CacheBlockMapping_returns:
  assumes "cache_ok c"
  shows "\<exists>d. CacheBlockMapping A H c = Some d \<and> cache_ok d \<and> same_blocks c d"
proof (cases "has_room c A")
  case True
  then show ?thesis by (rule CacheBlockMapping_room [OF assms])
next
  case False
  let ?e = "ClearL2Cache (set_L1 A H c)"
  have e: "cache_ok ?e" "same_blocks c ?e" "has_room ?e (page_index c A)"
    using assms by (simp_all add: cache_ok_def pages_ok_ClearL2 config_ok_def maps_ok_def
        same_blocks_def has_room_def lc_consts)
  then show ?thesis
    using CacheBlockMapping_room [OF e(1,3), of H] False same_blocks_trans
    by (auto simp: has_room_def CacheBlockMapping_exhausted)
qed

lemma L1_coherent_set_L1:
  assumes "L1_coherent c" "map_of (BlockList c) A = Some H"
  shows "L1_coherent (set_L1 A H c)"
  using assms by (auto simp: L1_coherent_def Let_def)

lemma L1_coherent_cong:
  "L1Pointer d = L1Pointer c \<Longrightarrow> BlockList d = BlockList c \<Longrightarrow> L1_coherent d = L1_coherent c"
  by (simp add: L1_coherent_def)

lemma L2_coherent_cong:
  assumes "PageContents d = PageContents c" "PagePointer d = PagePointer c"
    "VirtualMemSize d = VirtualMemSize c" "BlockList d = BlockList c"
  shows "L2_coherent d = L2_coherent c"
  using assms page_index_cong [of d c] by (simp add: L2_coherent_def L2_slot_def)

lemma L2_coherent_store:
  assumes "L2_coherent c" "map_of (BlockList c) A = Some H" "page \<noteq> 0"
    "PagePointer c (page_index c A) = 0 \<or> PagePointer c (page_index c A) = page"
  shows "L2_coherent (L2_store A H page c)"
  using assms by (fastforce simp: L2_coherent_def L2_slot_def Let_def)

lemma CacheBlockMapping_coherent:
  assumes "coherent c" "has_room c A" "map_of (BlockList c) A = Some H"
    "CacheBlockMapping A H c = Some d"
  shows "coherent d"
proof -
  have ok: "config_ok c" "pages_ok c" "cache_ok c" "L1_coherent c" "L2_coherent c"
    using assms(1) by (simp_all add: coherent_def cache_ok_def)
  have "cache_ok d" using CacheBlockMapping_room [OF ok(3) assms(2), of H] assms(4) by auto
  moreover have "L1_coherent d \<and> L2_coherent d"
    using ok(1,2) assms(2)
  proof (cases rule: has_room_cases [where H = H])
    case 1
    then have d: "d = L2_store A H (PagePointer c (page_index c A)) (set_L1 A H c)"
      using assms(4) by simp
    have "L2_coherent (set_L1 A H c)"
      using ok(5) L2_coherent_cong [of "set_L1 A H c" c] by simp
    then show ?thesis
      using L1_coherent_set_L1 [OF ok(4) assms(3)] L1_coherent_cong [of d "set_L1 A H c"] 1(1) assms(3)
      by (auto simp: d intro!: L2_coherent_store)
  next
    case 2
    let ?e = "(set_L1 A H c)\<lparr>AllocateOffset := AllocateOffset c + SIZE_PER_PAGE\<rparr>"
    have d: "d = L2_store A H (PageMemory c + AllocateOffset c) ?e"
      using assms(4) 2 by simp
    have "L2_coherent ?e"
      using ok(5) L2_coherent_cong [of ?e c] by simp
    then show ?thesis
      using L1_coherent_set_L1 [OF ok(4) assms(3)] L1_coherent_cong [of d "set_L1 A H c"] 2(1) assms(3)
        new_page_not_null [OF ok(1,2)]
      by (auto simp: d intro!: L2_coherent_store)
  qed
  ultimately show ?thesis by (simp add: coherent_def)
qed

section \<open>Lookup and update\<close>

text \<open>The answer the block list gives for an address; zero is the null host pointer.\<close>

definition block_at :: "'d LookupCache \<Rightarrow> u64 \<Rightarrow> u64" where
  "block_at c A = (case map_of (BlockList c) A of None \<Rightarrow> 0 | Some H \<Rightarrow> H)"

lemma FindBlock_returns:
  assumes "cache_ok c"
  shows "\<exists>r d. FindBlock A c = Some (r, d) \<and> cache_ok d \<and> same_blocks c d"
proof -
  have "cache_ok (set_L1 A H c) \<and> same_blocks c (set_L1 A H c)" for H
    using assms cache_ok_frame [of c "set_L1 A H c"]
    by (simp add: cache_ok_def maps_ok_def same_blocks_def)
  moreover have "same_blocks c c" by (simp add: same_blocks_def)
  ultimately show ?thesis
    using assms CacheBlockMapping_returns [OF assms, of A "the (map_of (BlockList c) A)"]
    by (auto simp: FindBlock_def Let_def split: option.splits)
qed

lemma FindBlock_cases:
  assumes "FindBlock A c = Some (r, d)"
  obtains (hit1) "GuestCode (L1Pointer c (L1_index A)) = A"
      "r = HostCode (L1Pointer c (L1_index A))" "d = c"
    | (hit2) "GuestCode (PageContents c (L2_slot c A)) = A"
      "r = HostCode (PageContents c (L2_slot c A))" "d = set_L1 A r c"
    | (hit3) "map_of (BlockList c) A = Some r" "CacheBlockMapping A r c = Some d"
    | (miss) "map_of (BlockList c) A = None" "r = 0" "d = c"
proof -
  define e1 where "e1 = L1Pointer c (L1_index A)"
  define e2 where "e2 = PageContents c (L2_slot c A)"
  have "FindBlock A c =
     (if GuestCode e1 = A then Some (HostCode e1, c)
      else if PagePointer c (page_index c A) \<noteq> 0 \<and> GuestCode e2 = A
      then Some (HostCode e2, set_L1 A (HostCode e2) c)
      else case map_of (BlockList c) A of
          Some Host \<Rightarrow> map_option (\<lambda>c'. (Host, c')) (CacheBlockMapping A Host c)
        | None \<Rightarrow> Some (0, c))"
    by (simp add: FindBlock_def Let_def L2_slot_def e1_def e2_def)
  with assms have fb: "Some (r, d) =
     (if GuestCode e1 = A then Some (HostCode e1, c)
      else if PagePointer c (page_index c A) \<noteq> 0 \<and> GuestCode e2 = A
      then Some (HostCode e2, set_L1 A (HostCode e2) c)
      else case map_of (BlockList c) A of
          Some Host \<Rightarrow> map_option (\<lambda>c'. (Host, c')) (CacheBlockMapping A Host c)
        | None \<Rightarrow> Some (0, c))"
    by (rule trans [OF sym])
  show thesis
  proof (cases "GuestCode e1 = A")
    case True
    with fb have "r = HostCode e1" "d = c" by simp_all
    then show thesis using True hit1 unfolding e1_def by blast
  next
    case no1: False
    show thesis
    proof (cases "PagePointer c (page_index c A) \<noteq> 0 \<and> GuestCode e2 = A")
      case True
      with fb no1 have "r = HostCode e2" "d = set_L1 A r c" by simp_all
      then show thesis using True hit2 unfolding e2_def by blast
    next
      case False
      with fb no1 have rest: "Some (r, d) = (case map_of (BlockList c) A of
          Some Host \<Rightarrow> map_option (\<lambda>c'. (Host, c')) (CacheBlockMapping A Host c)
        | None \<Rightarrow> Some (0, c))"
        by simp
      show thesis
      proof (cases "map_of (BlockList c) A")
        case None
        with rest miss show thesis by simp
      next
        case (Some H)
        with rest have "r = H" "CacheBlockMapping A H c = Some d"
          by (cases "CacheBlockMapping A H c"; simp)+
        with Some hit3 show thesis by simp
      qed
    qed
  qed
qed

lemma FindBlock_coherent:
  assumes "coherent c" "has_room c A" "FindBlock A c = Some (r, d)"
  shows "coherent d" and "A \<noteq> 0 \<Longrightarrow> r = block_at c A"
proof -
  let ?e1 = "L1Pointer c (L1_index A)" and ?e2 = "PageContents c (L2_slot c A)"
  have L1: "GuestCode ?e1 = A \<Longrightarrow> A \<noteq> 0 \<Longrightarrow> map_of (BlockList c) A = Some (HostCode ?e1)"
    using assms(1) unfolding coherent_def L1_coherent_def Let_def by metis
  have L2: "GuestCode ?e2 = A \<Longrightarrow> A \<noteq> 0 \<Longrightarrow> map_of (BlockList c) A = Some (HostCode ?e2)"
    using assms(1) unfolding coherent_def L2_coherent_def Let_def by metis
  have set: "map_of (BlockList c) A = Some H \<or> A = 0 \<Longrightarrow> coherent (set_L1 A H c)" for H
    using assms(1) L2_coherent_cong [of "set_L1 A H c" c] cache_ok_frame [of c "set_L1 A H c"]
    by (auto simp: coherent_def cache_ok_def maps_ok_def L1_coherent_def Let_def)
  from assms(3) have "coherent d \<and> (A \<noteq> 0 \<longrightarrow> r = block_at c A)"
  proof (cases rule: FindBlock_cases)
    case hit1
    then show ?thesis using assms(1) L1 by (simp add: block_at_def)
  next
    case hit2
    then have "map_of (BlockList c) A = Some r \<or> A = 0" using L2 by blast
    then show ?thesis using set [of r] hit2(2,3) by (auto simp: block_at_def)
  next
    case hit3
    then show ?thesis using CacheBlockMapping_coherent [OF assms(1,2)] by (simp add: block_at_def)
  next
    case miss
    then show ?thesis using assms(1) by (simp add: block_at_def)
  qed
  then show "coherent d" and "A \<noteq> 0 \<Longrightarrow> r = block_at c A" by auto
qed

lemma AddBlockMapping_coherent:
  assumes "coherent c" "AddBlockMapping A H c = Inr d"
  shows "coherent d" and "map_of (BlockList d) = (map_of (BlockList c))(A \<mapsto> H)"
proof -
  have new: "map_of (BlockList c) A = None" and maps: "maps_ok c"
    and d: "d = set_L1 A H (c\<lparr>BlockList := map_emplace A H (BlockList c)\<rparr>)"
    using assms by (auto simp: AddBlockMapping_def Let_def coherent_def cache_ok_def split: if_splits)
  then show list: "map_of (BlockList d) = (map_of (BlockList c))(A \<mapsto> H)"
    by (simp add: std_map_simps maps_ok_def)
  have "cache_ok d"
    using assms(1) maps cache_ok_frame [of c d] by (simp add: d coherent_def maps_ok_def)
  moreover have "L1_coherent d"
    using assms(1) list new by (auto simp: d coherent_def L1_coherent_def Let_def)
  moreover have "L2_coherent d"
    using assms(1) list new page_index_cong [of d c]
    by (fastforce simp: d coherent_def L2_coherent_def L2_slot_def Let_def)
  ultimately show "coherent d" by (simp add: coherent_def)
qed

lemma sever_links_eq:
  assumes "it + n \<le> length (BlockLinks c)"
  shows "sever_links n it c =
    c\<lparr>Severed := Severed c @ map snd (take n (drop it (BlockLinks c))),
      BlockLinks := take it (BlockLinks c) @ drop (it + n) (BlockLinks c)\<rparr>"
  using assms
proof (induction n it c rule: sever_links.induct)
  case (2 n it c)
  have "it < length (BlockLinks c)" using 2(2) by simp
  then show ?case
    using 2 by (simp add: min_absorb2 Cons_nth_drop_Suc [symmetric] drop_Suc add.commute)
qed simp

lemma tag_range:
  "BlockLinkTag A 0 \<le> t \<and> t \<le> BlockLinkTag A (- 1) \<longleftrightarrow> GuestDestination t = A"
proof (cases t)
  case (BlockLinkTag g h)
  have "h = 0 \<or> 0 < h" "h = - 1 \<or> h < - 1"
    using word_n1_ge [of h] by (auto simp: word_gt_0 order.order_iff_strict)
  then show ?thesis by (auto simp: BlockLinkTag less_eq_BlockLinkTag_def split: if_splits)
qed

lemma tag_split:
  "t < BlockLinkTag A 0 \<longleftrightarrow> GuestDestination t < A"
  "BlockLinkTag A (- 1) < t \<longleftrightarrow> A < GuestDestination t"
  by (cases t; auto simp: less_BlockLinkTag_def word_order.extremum_strict)+

lemma sever_block:
  fixes A :: u64 and c :: "'d LookupCache"
  assumes "map_ok (BlockLinks c)"
  defines "lower \<equiv> map_lower_bound (BlockLinks c) (BlockLinkTag A 0)"
    and "upper \<equiv> map_upper_bound (BlockLinks c) (BlockLinkTag A (- 1))"
  shows "sever_links (upper - lower) lower c =
    c\<lparr>Severed := Severed c @ map snd (filter (\<lambda>e. GuestDestination (fst e) = A) (BlockLinks c)),
      BlockLinks := filter (\<lambda>e. GuestDestination (fst e) \<noteq> A) (BlockLinks c)\<rparr>"
proof -
  let ?m = "BlockLinks c"
  have le: "lower \<le> upper"
    unfolding lower_def upper_def using assms(1) tag_range [of A "BlockLinkTag A 0"]
    by (intro map_lower_le_upper) auto
  have len: "upper \<le> length ?m" by (simp add: upper_def map_bounds_length)
  have mid: "drop lower (take upper ?m) = filter (\<lambda>e. GuestDestination (fst e) = A) ?m"
    unfolding lower_def upper_def using assms(1) tag_range [of A "BlockLinkTag A 0"]
    by (simp add: map_range tag_range)
  have low: "take lower ?m = filter (\<lambda>e. GuestDestination (fst e) < A) ?m"
    unfolding lower_def using assms(1) by (simp add: map_take_lower tag_split)
  have high: "drop upper ?m = filter (\<lambda>e. A < GuestDestination (fst e)) ?m"
    unfolding upper_def using assms(1) by (simp add: map_drop_upper tag_split)
  have "?m = take lower ?m @ drop lower (take upper ?m) @ drop upper ?m"
    using le by (metis append.assoc append_take_drop_id min.absorb1 take_take)
  then have "filter (\<lambda>e. GuestDestination (fst e) \<noteq> A) ?m
      = filter (\<lambda>e. GuestDestination (fst e) \<noteq> A) (take lower ?m)
        @ filter (\<lambda>e. GuestDestination (fst e) \<noteq> A) (drop lower (take upper ?m))
        @ filter (\<lambda>e. GuestDestination (fst e) \<noteq> A) (drop upper ?m)"
    by (metis filter_append)
  moreover have "filter (\<lambda>e. GuestDestination (fst e) \<noteq> A) (take lower ?m) = take lower ?m"
    "filter (\<lambda>e. GuestDestination (fst e) \<noteq> A) (drop upper ?m) = drop upper ?m"
    "filter (\<lambda>e. GuestDestination (fst e) \<noteq> A) (drop lower (take upper ?m)) = []"
    unfolding low high mid by (auto intro!: filter_cong)
  ultimately show ?thesis
    using le len mid sever_links_eq [of lower "upper - lower" c] by (simp add: take_drop)
qed

lemma Erase_maps:
  assumes "maps_ok c"
  shows "BlockList (Erase A c) = map_erase A (BlockList c)"
    "BlockLinks (Erase A c) = filter (\<lambda>e. GuestDestination (fst e) \<noteq> A) (BlockLinks c)"
    "Severed (Erase A c)
      = Severed c @ map snd (filter (\<lambda>e. GuestDestination (fst e) = A) (BlockLinks c))"
    "CodePages (Erase A c) = CodePages c"
    "PagePointer (Erase A c) = PagePointer c" "PageMemory (Erase A c) = PageMemory c"
    "AllocateOffset (Erase A c) = AllocateOffset c" "VirtualMemSize (Erase A c) = VirtualMemSize c"
  using assms sever_block [of c A] by (simp_all add: Erase_def Let_def maps_ok_def)

lemma Erase_L1:
  assumes "maps_ok c"
  shows "L1Pointer (Erase A c) = (if GuestCode (L1Pointer c (L1_index A)) = A
    then (L1Pointer c)(L1_index A := (L1Pointer c (L1_index A))\<lparr>GuestCode := 0\<rparr>) else L1Pointer c)"
  using assms sever_block [of c A] by (simp add: Erase_def Let_def maps_ok_def)

lemma Erase_L2:
  assumes "maps_ok c" "config_ok c"
  shows "PageContents (Erase A c) = (if PagePointer c (page_index c A) = 0 then PageContents c
    else (PageContents c)(L2_slot c A := empty_entry))"
  using assms sever_block [of c A] page_offset_masked [of c A]
  by (simp add: Erase_def Let_def maps_ok_def L2_slot_def page_index_def)

lemma Erase_cache_ok:
  assumes "cache_ok c"
  shows "cache_ok (Erase A c)"
  using assms by (intro cache_ok_frame [OF assms]) (auto simp: cache_ok_def Erase_maps maps_ok_def)

lemma Erase_coherent:
  assumes "coherent c"
  shows "coherent (Erase A c)"
proof -
  have ok: "cache_ok c" "config_ok c" "maps_ok c" "map_ok (BlockList c)"
    using assms by (simp_all add: coherent_def cache_ok_def maps_ok_def)
  have pi: "page_index (Erase A c) = page_index c"
    by (rule page_index_cong) (simp add: Erase_maps ok)
  have "L1_coherent (Erase A c)"
    using assms ok(4) unfolding coherent_def L1_coherent_def
    by (simp add: Erase_L1 Erase_maps ok(3) std_map_simps Let_def) metis
  moreover have "L2_coherent (Erase A c)"
    using assms ok(4) unfolding coherent_def L2_coherent_def
    by (simp add: Erase_L2 Erase_maps ok(2,3) std_map_simps Let_def pi L2_slot_def) metis
  ultimately show ?thesis
    using Erase_cache_ok [OF ok(1)] by (simp add: coherent_def)
qed

lemma coherent_links:
  "coherent c \<Longrightarrow> map_ok links \<Longrightarrow> coherent (c\<lparr>BlockLinks := links\<rparr>)"
  "coherent c \<Longrightarrow> map_ok pages \<Longrightarrow> coherent (c\<lparr>CodePages := pages\<rparr>)"
  by (auto simp: coherent_def cache_ok_def config_ok_def maps_ok_def pages_ok_def L1_coherent_def
      L2_coherent_def L2_slot_def page_index_def Let_def)

lemma cache_ok_links:
  "cache_ok c \<Longrightarrow> map_ok links \<Longrightarrow> cache_ok (c\<lparr>BlockLinks := links\<rparr>)"
  "cache_ok c \<Longrightarrow> map_ok pages \<Longrightarrow> cache_ok (c\<lparr>CodePages := pages\<rparr>)"
  by (auto simp: cache_ok_def config_ok_def maps_ok_def pages_ok_def)

lemma coherent_ClearL2: "coherent c \<Longrightarrow> coherent (ClearL2Cache c)"
  by (auto simp: coherent_def cache_ok_def config_ok_def maps_ok_def pages_ok_ClearL2
      L1_coherent_def L2_coherent_def)

lemma cache_ok_ClearL2: "cache_ok c \<Longrightarrow> cache_ok (ClearL2Cache c)"
  by (auto simp: cache_ok_def config_ok_def maps_ok_def pages_ok_ClearL2)

lemma coherent_ClearCache: "cache_ok c \<Longrightarrow> coherent (ClearCache c)"
  by (auto simp: ClearCache_def Let_def coherent_def cache_ok_def config_ok_def maps_ok_def
      pages_ok_def L1_coherent_def L2_coherent_def lc_consts)

text \<open>The pages an executable range marks, and what marking them records.\<close>

lemma unat_of_nat_64:
  assumes "n \<le> unat (w :: u64)"
  shows "unat (of_nat n :: u64) = n"
proof -
  have "unat w < 2 ^ LENGTH(64)" by (rule unsigned_less)
  then show ?thesis using assms by (simp add: unat_of_nat)
qed

lemma range_pages_set:
  "P \<in> set (range_pages S L) \<longleftrightarrow> drop_bit 12 S \<le> P \<and> P \<le> drop_bit 12 (S + L - 1)"
proof
  assume "P \<in> set (range_pages S L)"
  then obtain n where n: "P = of_nat n" "unat (drop_bit 12 S) \<le> n" "n \<le> unat (drop_bit 12 (S + L - 1))"
    by (auto simp: range_pages_def)
  then show "drop_bit 12 S \<le> P \<and> P \<le> drop_bit 12 (S + L - 1)"
    by (simp add: word_le_nat_alt unat_of_nat_64 [OF n(3)])
next
  assume "drop_bit 12 S \<le> P \<and> P \<le> drop_bit 12 (S + L - 1)"
  then show "P \<in> set (range_pages S L)"
    unfolding range_pages_def word_le_nat_alt
    by (auto simp del: upt_Suc intro!: image_eqI [of _ _ "unat P"])
qed

lemma range_pages_distinct: "distinct (range_pages S L)"
proof -
  have "inj_on (of_nat :: nat \<Rightarrow> u64) {unat (drop_bit 12 S)..unat (drop_bit 12 (S + L - 1))}"
  proof (rule inj_onI)
    fix x y
    assume "x \<in> {unat (drop_bit 12 S)..unat (drop_bit 12 (S + L - 1))}"
      "y \<in> {unat (drop_bit 12 S)..unat (drop_bit 12 (S + L - 1))}" "(of_nat x :: u64) = of_nat y"
    then show "x = y" by (metis atLeastAtMost_iff unat_of_nat_64)
  qed
  then show ?thesis
    by (simp add: range_pages_def distinct_map atLeastLessThanSuc_atLeastAtMost del: upt_Suc)
qed

lemma mark_pages:
  assumes "map_ok (CodePages c)" "distinct Ps" "fold (mark_page A) Ps (rv, c) = (rv', d)"
  shows "map_ok (CodePages d)
    \<and> (\<forall>P. page_code P d = page_code P c @ (if P \<in> set Ps then [A] else []))
    \<and> rv' = (rv \<or> (\<exists>P \<in> set Ps. page_code P c = []))
    \<and> d = c\<lparr>CodePages := CodePages d\<rparr>"
  using assms
proof (induction Ps arbitrary: rv c)
  case (Cons Q Ps)
  let ?c = "c\<lparr>CodePages := map_assign Q (page_code Q c @ [A]) (CodePages c)\<rparr>"
  have c: "page_code P ?c = (if P = Q then page_code Q c @ [A] else page_code P c)" for P
    using Cons.prems(1) by (simp add: page_code_def std_map_simps)
  have step: "fold (mark_page A) Ps (rv \<or> page_code Q c = [], ?c) = (rv', d)"
    using Cons.prems(3) by (simp add: mark_page_def [of A Q] Let_def)
  have IH: "map_ok (CodePages d)
      \<and> (\<forall>P. page_code P d = page_code P ?c @ (if P \<in> set Ps then [A] else []))
      \<and> rv' = ((rv \<or> page_code Q c = []) \<or> (\<exists>P \<in> set Ps. page_code P ?c = []))
      \<and> d = ?c\<lparr>CodePages := CodePages d\<rparr>"
    by (rule Cons.IH [OF _ _ step]) (use Cons.prems in auto)
  then show ?case using Cons.prems(2) c by auto
qed simp

lemma AddBlockExecutableRange_marks:
  assumes "map_ok (CodePages c)" "AddBlockExecutableRange A S L c = (rv, d)"
  shows "map_ok (CodePages d)"
    "page_code P d = page_code P c @ (if P \<in> set (range_pages S L) then [A] else [])"
    "rv \<longleftrightarrow> (\<exists>P \<in> set (range_pages S L). page_code P c = [])"
    "d = c\<lparr>CodePages := CodePages d\<rparr>"
  using mark_pages [OF assms(1) range_pages_distinct, of A S L False rv d] assms(2)
  by (auto simp: AddBlockExecutableRange_def)

section \<open>Every operation as a step\<close>

datatype 'd cache_op =
    OpFind u64
  | OpAdd u64 u64
  | OpErase u64
  | OpLink u64 u64 'd
  | OpRange u64 u64 u64
  | OpForget nat
  | OpClear
  | OpClearL2

text \<open>
  One call from outside; the number returned is that of the lookup, or zero. \<open>OpForget\<close> is the access that
  \<^verbatim>\<open>Core.cpp\<close> makes past the class: it empties the list of the code page at an iterator.
\<close>

fun cache_exec :: "'d cache_op \<Rightarrow> 'd LookupCache \<Rightarrow> (cache_error + u64 \<times> 'd LookupCache) option" where
  "cache_exec (OpFind A) c = map_option Inr (FindBlock A c)"
| "cache_exec (OpAdd A H) c = Some (map_sum id (Pair 0) (AddBlockMapping A H c))"
| "cache_exec (OpErase A) c = Some (Inr (0, Erase A c))"
| "cache_exec (OpLink G L f) c = Some (Inr (0, AddBlockLink G L f c))"
| "cache_exec (OpRange A S L) c = Some (Inr (0, snd (AddBlockExecutableRange A S L c)))"
| "cache_exec (OpForget it) c = Some (Inr (0, c\<lparr>CodePages := (CodePages c)[it := (fst (CodePages c ! it), [])]\<rparr>))"
| "cache_exec OpClear c = Some (Inr (0, ClearCache c))"
| "cache_exec OpClearL2 c = Some (Inr (0, ClearL2Cache c))"

fun op_room :: "'d cache_op \<Rightarrow> 'd LookupCache \<Rightarrow> bool" where
  "op_room (OpFind A) c = has_room c A"
| "op_room _ c = True"

text \<open>
  The states a cache can be in; with \<open>roomy\<close>, those reached without a lookup that finds L2 full.
\<close>

inductive cache_reach :: "bool \<Rightarrow> u64 \<Rightarrow> u64 \<Rightarrow> 'd LookupCache \<Rightarrow> bool" for roomy pm ms where
  init: "cache_reach roomy pm ms (new_LookupCache pm ms)"
| step: "cache_reach roomy pm ms c \<Longrightarrow> roomy \<longrightarrow> op_room f c \<Longrightarrow>
    cache_exec f c = Some (Inr (r, d)) \<Longrightarrow> cache_reach roomy pm ms d"

lemma map_ok_update [simp]: "map_ok (m[i := (fst (m ! i), x)]) = map_ok m"
proof -
  have "fst (m[i := (fst (m ! i), x)] ! j) = fst (m ! j)" if "j < length m" for j
    using that by (cases "i = j") simp_all
  then have "map fst (m[i := (fst (m ! i), x)]) = map fst m" by (intro nth_equalityI) simp_all
  then show ?thesis unfolding map_ok_def by simp
qed

lemma coherent_cache_ok: "coherent c \<Longrightarrow> cache_ok c"
  by (simp add: coherent_def)

lemma cache_ok_maps:
  "cache_ok c \<Longrightarrow> map_ok (BlockLinks c)" "cache_ok c \<Longrightarrow> map_ok (BlockList c)"
  "cache_ok c \<Longrightarrow> map_ok (CodePages c)"
  by (simp_all add: cache_ok_def maps_ok_def)

lemmas cache_ok_ClearCache = coherent_cache_ok [OF coherent_ClearCache]
lemmas coherent_maps = cache_ok_maps [OF coherent_cache_ok]

lemma cache_exec_ok:
  assumes "cache_ok c" "cache_exec f c = Some (Inr (r, d))"
  shows "cache_ok d"
proof (cases f)
  case (OpFind A)
  then show ?thesis using assms FindBlock_returns [OF assms(1), of A] by auto
next
  case (OpAdd A H)
  then have d: "AddBlockMapping A H c = Inr d"
    using assms(2) by (cases "AddBlockMapping A H c") auto
  then have "maps_ok d" "PageMemory d = PageMemory c" "VirtualMemSize d = VirtualMemSize c"
    "PagePointer d = PagePointer c" "AllocateOffset d = AllocateOffset c"
    using assms(1) by (auto simp: AddBlockMapping_def Let_def cache_ok_def maps_ok_def split: if_splits)
  then show ?thesis using cache_ok_frame [OF assms(1), of d] by simp
next
  case (OpRange A S L)
  obtain rv where r: "AddBlockExecutableRange A S L c = (rv, d)"
    using assms(2) OpRange by (cases "AddBlockExecutableRange A S L c") auto
  show ?thesis
    using AddBlockExecutableRange_marks [OF _ r] assms(1) cache_ok_links(2) [of c "CodePages d"]
    by (metis cache_ok_def maps_ok_def)
qed (use assms in \<open>auto simp: Erase_cache_ok cache_ok_ClearL2 AddBlockLink_def cache_ok_maps
      intro!: cache_ok_links cache_ok_ClearCache\<close>)

lemma cache_exec_coherent:
  assumes "coherent c" "op_room f c" "cache_exec f c = Some (Inr (r, d))"
  shows "coherent d"
proof (cases f)
  case (OpFind A)
  then show ?thesis using assms FindBlock_coherent(1) [of c A r d] by auto
next
  case (OpAdd A H)
  then show ?thesis
    using assms AddBlockMapping_coherent(1) [of c A H d] by (cases "AddBlockMapping A H c") auto
next
  case (OpRange A S L)
  obtain rv where r: "AddBlockExecutableRange A S L c = (rv, d)"
    using assms(3) OpRange by (cases "AddBlockExecutableRange A S L c") auto
  have "map_ok (CodePages c)" using assms(1) by (simp add: coherent_def cache_ok_def maps_ok_def)
  from AddBlockExecutableRange_marks(1,4) [OF this r] coherent_links(2) [OF assms(1)]
  show ?thesis by metis
qed (use assms in \<open>auto simp: Erase_coherent coherent_ClearL2 AddBlockLink_def coherent_cache_ok
      coherent_maps intro!: coherent_links coherent_ClearCache\<close>)

section \<open>The contract of a code cache\<close>

text \<open>
  What the context relies on: a finite map from guest addresses to host code, answered by lookups
  (zero for an address without a block), extended by additions and cut by removals. \<open>room\<close> is
  the condition under which a lookup can refill its caches in place.
\<close>

locale code_cache =
  fixes inv :: "'c \<Rightarrow> bool"
    and blocks :: "'c \<Rightarrow> u64 \<rightharpoonup> u64"
    and room :: "'c \<Rightarrow> u64 \<Rightarrow> bool"
    and lookup :: "u64 \<Rightarrow> 'c \<Rightarrow> (u64 \<times> 'c) option"
    and add :: "u64 \<Rightarrow> u64 \<Rightarrow> 'c \<Rightarrow> cache_error + 'c"
    and remove :: "u64 \<Rightarrow> 'c \<Rightarrow> 'c"
  assumes lookup_returns: "inv c \<Longrightarrow> room c a \<Longrightarrow>
      \<exists>r d. lookup a c = Some (r, d) \<and> inv d \<and> blocks d = blocks c"
    and lookup_value: "inv c \<Longrightarrow> room c a \<Longrightarrow> lookup a c = Some (r, d) \<Longrightarrow> a \<noteq> 0 \<Longrightarrow>
      r = (case blocks c a of None \<Rightarrow> 0 | Some h \<Rightarrow> h)"
    and add_new: "inv c \<Longrightarrow> blocks c a = None \<Longrightarrow>
      \<exists>d. add a h c = Inr d \<and> inv d \<and> blocks d = (blocks c)(a \<mapsto> h)"
    and add_old: "inv c \<Longrightarrow> blocks c a \<noteq> None \<Longrightarrow> add a h c = Inl DuplicateBlockMapping"
    and remove: "inv c \<Longrightarrow> inv (remove a c) \<and> blocks (remove a c) = (blocks c)(a := None)"
begin

lemma lookup_spec:
  assumes "inv c" "room c a" "a \<noteq> 0"
  shows "\<exists>d. lookup a c = Some (case blocks c a of None \<Rightarrow> 0 | Some h \<Rightarrow> h, d)
    \<and> inv d \<and> blocks d = blocks c"
  using lookup_returns [OF assms(1,2)] lookup_value [OF assms(1,2) _ assms(3)] by fastforce

lemma remove_all:
  "inv c \<Longrightarrow> inv (fold remove as c) \<and> blocks (fold remove as c) = blocks c |` (- set as)"
proof (induction as arbitrary: c)
  case (Cons a as)
  then have "inv (remove a c)" "blocks (remove a c) = (blocks c)(a := None)"
    using remove by auto
  with Cons.IH [of "remove a c"] show ?case by (auto simp: restrict_map_def fun_eq_iff)
qed (simp add: restrict_map_def)

lemma lookup_removed:
  assumes "inv c" "a \<in> set as" "a \<noteq> 0" "room (fold remove as c) a"
  shows "\<exists>d. lookup a (fold remove as c) = Some (0, d)"
  using remove_all [OF assms(1), of as] lookup_spec [OF _ assms(4,3)] assms(2) by auto

lemma lookup_added:
  assumes "inv c" "blocks c a = None" "add a h c = Inr d" "a \<noteq> 0" "room d a"
  shows "\<exists>e. lookup a d = Some (h, e)"
  using add_new [OF assms(1,2), of h] lookup_spec [OF _ assms(5,4)] assms(3) by auto

end

interpretation lcache: code_cache coherent "\<lambda>c. map_of (BlockList c)" has_room FindBlock
  AddBlockMapping Erase
proof
  fix c :: "'d LookupCache" and a h r d
  assume c: "coherent c"
  have ok: "cache_ok c" "map_ok (BlockList c)" "maps_ok c"
    using c by (simp_all add: coherent_cache_ok coherent_maps coherent_def cache_ok_def)
  {
    assume room: "has_room c a"
    show "\<exists>r d. FindBlock a c = Some (r, d) \<and> coherent d \<and> map_of (BlockList d) = map_of (BlockList c)"
      using FindBlock_returns [OF ok(1), of a] FindBlock_coherent(1) [OF c room]
      by (auto simp: same_blocks_def)
    assume "FindBlock a c = Some (r, d)" "a \<noteq> 0"
    then show "r = (case map_of (BlockList c) a of None \<Rightarrow> 0 | Some h \<Rightarrow> h)"
      using FindBlock_coherent(2) [OF c room] by (simp add: block_at_def)
  next
    assume "map_of (BlockList c) a = None"
    then obtain d where d: "AddBlockMapping a h c = Inr d"
      by (simp add: AddBlockMapping_def Let_def)
    then show "\<exists>d. AddBlockMapping a h c = Inr d \<and> coherent d
        \<and> map_of (BlockList d) = (map_of (BlockList c))(a \<mapsto> h)"
      using AddBlockMapping_coherent [OF c d] by blast
  next
    assume "map_of (BlockList c) a \<noteq> None"
    then show "AddBlockMapping a h c = Inl DuplicateBlockMapping"
      by (simp add: AddBlockMapping_def)
  }
  show "coherent (Erase a c) \<and> map_of (BlockList (Erase a c)) = (map_of (BlockList c))(a := None)"
    using Erase_coherent [OF c] ok by (simp add: Erase_maps std_map_simps)
qed

section \<open>Reachable states\<close>

lemma new_cache_coherent:
  assumes "config_ok (new_LookupCache pm ms :: 'd LookupCache)"
  shows "coherent (new_LookupCache pm ms :: 'd LookupCache)"
  using assms by (simp add: coherent_def cache_ok_def maps_ok_def pages_ok_def L1_coherent_def
      L2_coherent_def new_LookupCache_def lc_consts)

lemma reach_cache_ok:
  assumes "cache_reach roomy pm ms c" "config_ok (new_LookupCache pm ms :: 'd LookupCache)"
  shows "cache_ok (c :: 'd LookupCache)"
  using assms
proof (induction rule: cache_reach.induct)
  case init
  then show ?case using new_cache_coherent coherent_cache_ok by blast
next
  case (step c f r d)
  then show ?case using cache_exec_ok by blast
qed

lemma reach_coherent:
  assumes "cache_reach True pm ms c" "config_ok (new_LookupCache pm ms :: 'd LookupCache)"
  shows "coherent (c :: 'd LookupCache)"
  using assms
proof (induction rule: cache_reach.induct)
  case init
  then show ?case using new_cache_coherent by blast
next
  case (step c f r d)
  then show ?case using cache_exec_coherent by blast
qed

end
