(* ===== verification/Code_Core.thy ===== *)
theory Code_Core
  imports Lookup_Cache
begin

text \<open>
  The context operations on the code caches of the guest threads (\<^verbatim>\<open>Interface/Core/Core.cpp\<close>):
  compiling a block on demand, removing a block, and invalidating the code of a guest memory
  range in every thread, together with the properties of the lookup cache as a whole. The
  compiler behind \<^verbatim>\<open>CompileCode\<close> and the capture service behind \<^verbatim>\<open>PostCompileCode\<close> are arguments.
\<close>

section \<open>Threads\<close>

record ('d, 'g, 'b) ThreadState =
  ThreadCache :: "'d LookupCache"
  DebugStore :: "(u64, 'g) std_map"
  CPUBackend :: 'b

definition ThreadRemoveCodeEntry ::
  "u64 \<Rightarrow> ('d, 'g, 'b) ThreadState \<Rightarrow> ('d, 'g, 'b) ThreadState" where
  "ThreadRemoveCodeEntry GuestRIP T =
     T\<lparr>DebugStore := map_erase GuestRIP (DebugStore T),
       ThreadCache := Erase GuestRIP (ThreadCache T)\<rparr>"

definition ThreadAddBlockLink ::
  "u64 \<Rightarrow> u64 \<Rightarrow> 'd \<Rightarrow> ('d, 'g, 'b) ThreadState \<Rightarrow> ('d, 'g, 'b) ThreadState" where
  "ThreadAddBlockLink GuestDest Link delinker T =
     T\<lparr>ThreadCache := AddBlockLink GuestDest Link delinker (ThreadCache T)\<rparr>"

definition ClearCodeCache ::
  "('b \<Rightarrow> 'b) \<Rightarrow> ('d, 'g, 'b) ThreadState \<Rightarrow> ('d, 'g, 'b) ThreadState" where
  "ClearCodeCache backend_clear T =
     T\<lparr>ThreadCache := ClearCache (ThreadCache T), CPUBackend := backend_clear (CPUBackend T),
       DebugStore := []\<rparr>"

text \<open>The body of the invalidation loop, for the code page at position \<open>it\<close>.\<close>

definition invalidate_page ::
  "nat \<Rightarrow> ('d, 'g, 'b) ThreadState \<Rightarrow> ('d, 'g, 'b) ThreadState" where
  "invalidate_page it T =
     (let T = fold ThreadRemoveCodeEntry (snd (CodePages (ThreadCache T) ! it)) T;
          c = ThreadCache T
      in T\<lparr>ThreadCache := c\<lparr>CodePages := (CodePages c)[it := (fst (CodePages c ! it), [])]\<rparr>\<rparr>)"

definition InvalidateGuestThreadCodeRange ::
  "u64 \<Rightarrow> u64 \<Rightarrow> ('d, 'g, 'b) ThreadState \<Rightarrow> cache_error + ('d, 'g, 'b) ThreadState" where
  "InvalidateGuestThreadCodeRange Start Length T =
     (let lower = map_lower_bound (CodePages (ThreadCache T)) (drop_bit 12 Start);
          upper = map_upper_bound (CodePages (ThreadCache T)) (drop_bit 12 (Start + Length - 1))
      in if upper < lower then Inl IteratorPastEnd
         else Inr (fold invalidate_page [lower..<upper] T))"

fun InvalidateGuestCodeRangeInternal ::
  "u64 \<Rightarrow> u64 \<Rightarrow> ('d, 'g, 'b) ThreadState list \<Rightarrow> cache_error + ('d, 'g, 'b) ThreadState list" where
  "InvalidateGuestCodeRangeInternal Start Length [] = Inr []"
| "InvalidateGuestCodeRangeInternal Start Length (T # Ts) =
     (case InvalidateGuestThreadCodeRange Start Length T of
        Inl e \<Rightarrow> Inl e
      | Inr T' \<Rightarrow>
          (case InvalidateGuestCodeRangeInternal Start Length Ts of
             Inl e \<Rightarrow> Inl e
           | Inr Ts' \<Rightarrow> Inr (T' # Ts')))"


section \<open>Invalidation\<close>

lemma remove_entries:
  "fold ThreadRemoveCodeEntry as T =
    T\<lparr>DebugStore := fold map_erase as (DebugStore T),
      ThreadCache := fold Erase as (ThreadCache T)\<rparr>"
  by (induction as arbitrary: T) (simp_all add: ThreadRemoveCodeEntry_def)

lemma CodePages_commute:
  "c\<lparr>CodePages := m, Severed := s, BlockLinks := l\<rparr> = c\<lparr>Severed := s, BlockLinks := l, CodePages := m\<rparr>"
  by simp

lemma sever_links_CodePages:
  "sever_links n it (c\<lparr>CodePages := m\<rparr>) = (sever_links n it c)\<lparr>CodePages := m\<rparr>"
  "CodePages (sever_links n it c) = CodePages c"
  by (induction n it c rule: sever_links.induct) (simp_all add: CodePages_commute)

lemma Erase_CodePages [simp]:
  "Erase a (c\<lparr>CodePages := m\<rparr>) = (Erase a c)\<lparr>CodePages := m\<rparr>"
  "CodePages (Erase a c) = CodePages c"
  by (simp_all add: Erase_def Let_def sever_links_CodePages)

lemma fold_Erase_CodePages [simp]:
  "fold Erase as (c\<lparr>CodePages := m\<rparr>) = (fold Erase as c)\<lparr>CodePages := m\<rparr>"
  "CodePages (fold Erase as c) = CodePages c"
  by (induction as arbitrary: c) simp_all

text \<open>The addresses recorded at positions of the code page map.\<close>

definition code_at :: "'d LookupCache \<Rightarrow> nat list \<Rightarrow> u64 list" where
  "code_at c its = concat (map (\<lambda>it. snd (CodePages c ! it)) its)"

definition clear_pages :: "nat list \<Rightarrow> (u64, u64 list) std_map \<Rightarrow> (u64, u64 list) std_map" where
  "clear_pages its m = fold (\<lambda>it m. m[it := (fst (m ! it), [])]) its m"

lemma nth_update_below: "i < length xs \<Longrightarrow> xs[j := x] ! i = (if j = i then x else xs ! i)"
  by auto

lemma clear_pages_nth:
  "i < length m \<Longrightarrow> clear_pages its m ! i = (if i \<in> set its then (fst (m ! i), []) else m ! i)"
  by (induction its arbitrary: m) (auto simp: clear_pages_def nth_update_below)

lemma clear_pages_length [simp]: "length (clear_pages its m) = length m"
  by (induction its arbitrary: m) (auto simp: clear_pages_def)

lemma clear_pages_keys [simp]: "map fst (clear_pages its m) = map fst m"
  by (rule nth_equalityI) (auto simp: clear_pages_nth)

lemma clear_pages_ok [simp]: "map_ok (clear_pages its m) = map_ok m"
  by (simp add: map_ok_def)

lemma invalidate_pages:
  assumes "distinct its" "\<forall>it \<in> set its. it < length (CodePages (ThreadCache T))"
  shows "fold invalidate_page its T =
    (let c = ThreadCache T; as = code_at c its
     in T\<lparr>DebugStore := fold map_erase as (DebugStore T),
          ThreadCache := (fold Erase as c)\<lparr>CodePages := clear_pages its (CodePages c)\<rparr>\<rparr>)"
  using assms
proof (induction its arbitrary: T)
  case (Cons it its)
  let ?c = "ThreadCache T" let ?as = "snd (CodePages (ThreadCache T) ! it)"
  let ?m = "(CodePages ?c)[it := (fst (CodePages ?c ! it), [])]"
  have step: "invalidate_page it T = T\<lparr>DebugStore := fold map_erase ?as (DebugStore T),
      ThreadCache := (fold Erase ?as ?c)\<lparr>CodePages := ?m\<rparr>\<rparr>"
    by (simp add: invalidate_page_def remove_entries Let_def)
  have "snd (?m ! i) = snd (CodePages ?c ! i)" if "i \<in> set its" for i
    using that Cons.prems by (auto simp: nth_update_below)
  then have "code_at ((fold Erase ?as ?c)\<lparr>CodePages := ?m\<rparr>) its = code_at ?c its"
    by (simp add: code_at_def cong: map_cong)
  moreover have "code_at ?c (it # its) = ?as @ code_at ?c its"
    by (simp add: code_at_def)
  ultimately show ?case
    using Cons.IH [of "invalidate_page it T"] Cons.prems
    by (simp add: step Let_def clear_pages_def)
qed (simp add: code_at_def clear_pages_def)

text \<open>The pages of a range sit at the positions between the two bounds.\<close>

lemma clear_pages_range:
  assumes "map_ok m"
  shows "clear_pages [map_lower_bound m lo..<map_upper_bound m hi] m
    = map (\<lambda>e. (fst e, if lo \<le> fst e \<and> fst e \<le> hi then [] else snd e)) m"
  using assms by (intro nth_equalityI)
    (auto simp: clear_pages_nth below_upper_iff below_lower_iff linorder_not_less [symmetric])

lemma map_ok_values [simp]: "map_ok (map (\<lambda>e. (fst e, f e)) m) = map_ok m"
  by (simp add: map_ok_def comp_def)

lemma page_code_cleared:
  "page_code P (c\<lparr>CodePages := map (\<lambda>e. (fst e, if lo \<le> fst e \<and> fst e \<le> hi then [] else snd e)) m\<rparr>)
   = (if lo \<le> P \<and> P \<le> hi then [] else page_code P (c\<lparr>CodePages := m\<rparr>))"
  by (induction m) (auto simp: page_code_def)

lemma code_at_range:
  assumes "map_ok (CodePages c)"
  shows "set (code_at c [map_lower_bound (CodePages c) lo..<map_upper_bound (CodePages c) hi])
    = {A. \<exists>P. lo \<le> P \<and> P \<le> hi \<and> A \<in> set (page_code P c)}" (is "?L = ?R")
proof -
  let ?m = "CodePages c"
  have d: "distinct (map fst ?m)" by (rule map_ok_distinct [OF assms])
  have pos: "i \<in> {map_lower_bound ?m lo..<map_upper_bound ?m hi}
      \<longleftrightarrow> i < length ?m \<and> lo \<le> fst (?m ! i) \<and> fst (?m ! i) \<le> hi" for i
    using below_lower_iff [OF assms, of i lo] below_upper_iff [OF assms, of i hi]
      map_bounds_length(2) [of ?m hi] by (auto simp: not_less [symmetric])
  have "A \<in> ?L \<longleftrightarrow> (\<exists>i \<in> {map_lower_bound ?m lo..<map_upper_bound ?m hi}. A \<in> set (snd (?m ! i)))" for A
    by (auto simp: code_at_def)
  then have "A \<in> ?L \<longleftrightarrow> (\<exists>e \<in> set ?m. lo \<le> fst e \<and> fst e \<le> hi \<and> A \<in> set (snd e))" for A
    unfolding Bex_def pos in_set_conv_nth by blast
  moreover have "(\<exists>e \<in> set ?m. lo \<le> fst e \<and> fst e \<le> hi \<and> A \<in> set (snd e)) \<longleftrightarrow> A \<in> ?R" for A
    using d by (auto simp: page_code_def split: option.splits dest: map_of_SomeD intro: rev_bexI)
      (metis map_of_is_SomeI option.distinct(1) option.inject)+
  ultimately show ?thesis by blast
qed

lemma fold_map_erase:
  "map_ok m \<Longrightarrow> map_ok (fold map_erase as m) \<and> map_of (fold map_erase as m) = map_of m |` (- set as)"
  by (induction as arbitrary: m) (auto simp: std_map_simps restrict_map_def fun_eq_iff)

text \<open>The addresses of the blocks recorded for the pages of a range.\<close>

definition recorded_code :: "u64 \<Rightarrow> u64 \<Rightarrow> 'd LookupCache \<Rightarrow> u64 set" where
  "recorded_code Start Length c = {A. \<exists>P \<in> set (range_pages Start Length). A \<in> set (page_code P c)}"

lemma invalidate_thread:
  assumes "coherent (ThreadCache T)" "map_ok (DebugStore T)"
    "drop_bit 12 Start \<le> drop_bit 12 (Start + Length - 1)"
  shows "\<exists>T'. InvalidateGuestThreadCodeRange Start Length T = Inr T'
    \<and> coherent (ThreadCache T') \<and> map_ok (DebugStore T')
    \<and> map_of (BlockList (ThreadCache T'))
        = map_of (BlockList (ThreadCache T)) |` (- recorded_code Start Length (ThreadCache T))
    \<and> map_of (DebugStore T')
        = map_of (DebugStore T) |` (- recorded_code Start Length (ThreadCache T))
    \<and> (\<forall>P. page_code P (ThreadCache T')
        = (if P \<in> set (range_pages Start Length) then [] else page_code P (ThreadCache T)))"
proof -
  let ?c = "ThreadCache T" and ?lo = "drop_bit 12 Start" and ?hi = "drop_bit 12 (Start + Length - 1)"
  let ?l = "map_lower_bound (CodePages ?c) ?lo" and ?u = "map_upper_bound (CodePages ?c) ?hi"
  let ?as = "code_at ?c [?l..<?u]"
  have m: "map_ok (CodePages ?c)" by (rule coherent_maps [OF assms(1)])
  have as: "set ?as = recorded_code Start Length ?c"
    using code_at_range [OF m, of ?lo ?hi] by (auto simp: recorded_code_def range_pages_set)
  have "fold invalidate_page [?l..<?u] T = T\<lparr>DebugStore := fold map_erase ?as (DebugStore T),
      ThreadCache := (fold Erase ?as ?c)\<lparr>CodePages := clear_pages [?l..<?u] (CodePages ?c)\<rparr>\<rparr>"
    using map_bounds_length(2) [of "CodePages ?c" ?hi]
    by (subst invalidate_pages) (auto simp: Let_def)
  then have T': "InvalidateGuestThreadCodeRange Start Length T
      = Inr (T\<lparr>DebugStore := fold map_erase ?as (DebugStore T),
          ThreadCache := (fold Erase ?as ?c)\<lparr>CodePages := clear_pages [?l..<?u] (CodePages ?c)\<rparr>\<rparr>)"
    using map_lower_le_upper [OF m assms(3)]
    by (simp add: InvalidateGuestThreadCodeRange_def Let_def)
  have "page_code P ((fold Erase ?as ?c)\<lparr>CodePages := CodePages ?c\<rparr>) = page_code P ?c" for P
    by (simp add: page_code_def)
  with T' show ?thesis
    using lcache.remove_all [OF assms(1), of ?as] fold_map_erase [OF assms(2), of ?as] m
    by (simp add: coherent_links(2) as clear_pages_range page_code_cleared range_pages_set)
qed

section \<open>Lookups that touch neither L2 nor the block list\<close>

lemma FindBlock_missing:
  assumes "coherent c" "A \<noteq> 0" "map_of (BlockList c) A = None"
  shows "FindBlock A c = Some (0, c)"
proof -
  obtain r d where f: "FindBlock A c = Some (r, d)"
    using FindBlock_returns [OF coherent_cache_ok [OF assms(1)]] by blast
  have L1: "GuestCode (L1Pointer c (L1_index A)) \<noteq> A"
    using assms unfolding coherent_def L1_coherent_def Let_def by (metis option.distinct(1))
  have L2: "GuestCode (PageContents c (L2_slot c A)) \<noteq> A"
    using assms unfolding coherent_def L2_coherent_def Let_def by (metis option.distinct(1))
  from f have "r = 0 \<and> d = c"
    by (cases rule: FindBlock_cases) (use L1 L2 assms(3) in auto)
  with f show ?thesis by simp
qed


lemma AddBlockMapping_Inr:
  "AddBlockMapping A H c = Inr d \<Longrightarrow>
   d = set_L1 A H (c\<lparr>BlockList := map_emplace A H (BlockList c)\<rparr>)"
  by (auto simp: AddBlockMapping_def Let_def split: if_splits)

text \<open>Numbering the pages in use.\<close>

lemma page_number:
  assumes "cache_ok c"
  obtains k where "inj_on k {p. PagePointer c p \<noteq> 0}"
    "\<And>p. PagePointer c p \<noteq> 0 \<Longrightarrow> k p < 2047
       \<and> unat (PagePointer c p) = unat (PageMemory c) + 65536 * k p"
proof -
  obtain ps where ps: "distinct ps" "{p. PagePointer c p \<noteq> 0} = set ps"
    "\<forall>k < length ps. PagePointer c (ps ! k) = PageMemory c + of_nat k * SIZE_PER_PAGE"
    "65536 * length ps < unat CODE_SIZE"
    using assms unfolding cache_ok_def pages_ok_def by auto
  then have "\<forall>p. \<exists>k. PagePointer c p \<noteq> 0 \<longrightarrow> k < length ps \<and> ps ! k = p"
    by (metis (mono_tags) in_set_conv_nth mem_Collect_eq)
  then obtain k where k: "\<And>p. PagePointer c p \<noteq> 0 \<Longrightarrow> k p < length ps \<and> ps ! k p = p"
    by metis
  have len: "length ps < 2048" using ps(4) by (simp add: lc_consts)
  have fit: "unat (PageMemory c) + 134217728 \<le> 2 ^ 64"
    using assms by (simp add: cache_ok_def config_ok_def lc_consts)
  have "unat (PagePointer c p) = unat (PageMemory c) + 65536 * k p" if "PagePointer c p \<noteq> 0" for p
  proof -
    have kp: "k p < 2047" using k [OF that] len by simp
    have "PagePointer c p = PageMemory c + of_nat (65536 * k p)"
      using ps(3) k [OF that] by (auto simp: lc_consts ac_simps dest: spec [of _ "k p"])
    then show ?thesis using fit kp by (simp add: unat_word_ariths unat_of_nat)
  qed
  moreover have "inj_on k {p. PagePointer c p \<noteq> 0}"
    by (rule inj_onI) (metis k mem_Collect_eq)
  moreover have "k p < 2047" if "PagePointer c p \<noteq> 0" for p
    using k [OF that] len by simp
  ultimately show thesis using that by blast
qed

lemma pages_count:
  assumes "pages_ok c"
  shows "finite {p. PagePointer c p \<noteq> 0}"
    "unat (AllocateOffset c) = 65536 * card {p. PagePointer c p \<noteq> 0}"
    "card {p. PagePointer c p \<noteq> 0} \<le> 2047"
  using assms by (auto simp: pages_ok_def lc_consts distinct_card)

section \<open>Properties of the lookup cache\<close>

text \<open>
  C1: In every state that a lookup cache reaches without running out of L2 pages, \<^verbatim>\<open>FindBlock\<close>
  answers exactly as the plain block list does (zero for an address without a block), whatever
  L1 and L2 hold, and leaves the block list as it is. This holds for every guest address but zero,
  which marks an empty entry of L1 and L2, and while L2 has a page for the address.
\<close>

theorem FindBlock_refines_BlockList:
  assumes "cache_reach True pm ms c" "config_ok (new_LookupCache pm ms :: 'd LookupCache)"
    "has_room c A" "A \<noteq> 0"
  shows "\<exists>d. FindBlock A c = Some (block_at c A, d)
    \<and> BlockList d = BlockList c \<and> coherent (d :: 'd LookupCache)"
proof -
  have c: "coherent c" by (rule reach_coherent [OF assms(1,2)])
  obtain r d where f: "FindBlock A c = Some (r, d)" and s: "same_blocks c d"
    using FindBlock_returns [OF coherent_cache_ok [OF c]] by blast
  then show ?thesis
    using FindBlock_coherent [OF c assms(3) f] assms(4) by (simp add: same_blocks_def)
qed

text \<open>
  C25: Every call on a reachable lookup cache returns, also when L2 is exhausted: the recursion of
  \<^verbatim>\<open>CacheBlockMapping\<close> finds a free page after it has cleared L2.
\<close>

theorem cache_calls_return:
  assumes "cache_reach False pm ms c" "config_ok (new_LookupCache pm ms :: 'd LookupCache)"
  shows "cache_exec f (c :: 'd LookupCache) \<noteq> None"
  using FindBlock_returns [OF reach_cache_ok [OF assms]] by (cases f) force+

text \<open>
  C27: Memory safety of the page table in every reachable state: the page index of any address is
  inside the pointer array, a page that is present lies with all its 4096 entries inside the page
  memory, and entries of two different pages never overlap.
\<close>

theorem page_table_bounds:
  assumes "cache_reach False pm ms c" "config_ok (new_LookupCache pm ms :: 'd LookupCache)"
  shows "unat (page_index c A) < unat (VirtualMemSize c) div 4096
    \<and> (PagePointer c p \<noteq> 0 \<longrightarrow> unat (PageMemory c) \<le> unat (PagePointer c p)
         \<and> unat (PagePointer c p) + 65536 \<le> unat (PageMemory c) + 134217728)
    \<and> (p \<noteq> q \<longrightarrow> PagePointer c p \<noteq> 0 \<longrightarrow> PagePointer c q \<noteq> 0 \<longrightarrow>
         unat (PagePointer (c :: 'd LookupCache) p) + 65536 \<le> unat (PagePointer c q)
         \<or> unat (PagePointer c q) + 65536 \<le> unat (PagePointer c p))"
proof -
  have ok: "cache_ok c" by (rule reach_cache_ok [OF assms])
  obtain k where k: "inj_on k {p. PagePointer c p \<noteq> 0}"
    "\<And>p. PagePointer c p \<noteq> 0 \<Longrightarrow> k p < 2047
       \<and> unat (PagePointer c p) = unat (PageMemory c) + 65536 * k p"
    using page_number [OF ok] by blast
  have "unat (page_index c A) < unat (VirtualMemSize c) div 4096"
    using page_index_bound [of c A] ok by (simp add: cache_ok_def)
  moreover have "k p \<noteq> k q" if "p \<noteq> q" "PagePointer c p \<noteq> 0" "PagePointer c q \<noteq> 0"
    using that k(1) by (auto dest: inj_onD)
  ultimately show ?thesis
    using k(2) [of p] k(2) [of q] by (auto simp: neq_iff)
qed

text \<open>
  L2 holds at most 2047 pages, and a lookup can fail to find a page for its mapping only when
  all of them are in use (one less than the page memory has space for, since the allocator refuses
  the page that would end at its end).
\<close>

theorem L2_capacity:
  assumes "cache_reach False pm ms c" "config_ok (new_LookupCache pm ms :: 'd LookupCache)"
  shows "card {p. PagePointer (c :: 'd LookupCache) p \<noteq> 0} \<le> 2047
    \<and> (\<not> has_room c A \<longrightarrow> card {p. PagePointer c p \<noteq> 0} = 2047)"
proof -
  have ok: "pages_ok c" using reach_cache_ok [OF assms] by (simp add: cache_ok_def)
  have "\<not> has_room c A \<Longrightarrow> 2047 \<le> card {p. PagePointer c p \<noteq> 0}"
    using pages_count(2,3) [OF ok]
    by (simp add: has_room_def lc_consts word_le_nat_alt not_less unat_word_ariths)
  then show ?thesis using pages_count(3) [OF ok] by auto
qed

text \<open>
  \<^verbatim>\<open>Erase\<close> calls the delinkers of exactly the links into the erased block, in the order of
  their host addresses, drops these links and keeps all others, removes the block from the block
  list and no other, and the address is not found any more.
\<close>

theorem Erase_correct:
  assumes "coherent c"
  shows "Severed (Erase A c)
      = Severed c @ map snd (filter (\<lambda>e. GuestDestination (fst e) = A) (BlockLinks c))
    \<and> BlockLinks (Erase A c) = filter (\<lambda>e. GuestDestination (fst e) \<noteq> A) (BlockLinks c)
    \<and> map_of (BlockList (Erase A c)) = (map_of (BlockList c))(A := None)
    \<and> coherent (Erase A c)
    \<and> (A \<noteq> 0 \<longrightarrow> FindBlock A (Erase A c) = Some (0, Erase A c))"
proof -
  have m: "maps_ok c" using assms by (simp add: coherent_def cache_ok_def)
  then show ?thesis
    using lcache.remove [OF assms, of A] FindBlock_missing [of "Erase A c" A]
    by (simp add: Erase_maps)
qed

text \<open>
  C16: Invalidating a guest memory range removes from the thread's block list and debug store
  exactly the blocks recorded for the pages the range touches, forgets the records of these pages
  and of no other, and keeps the three cache levels coherent.
\<close>

theorem InvalidateGuestThreadCodeRange_correct:
  assumes "coherent (ThreadCache T)" "map_ok (DebugStore T)"
    "drop_bit 12 Start \<le> drop_bit 12 (Start + Length - 1)"
  shows "\<exists>T'. InvalidateGuestThreadCodeRange Start Length T = Inr T'
    \<and> coherent (ThreadCache T')
    \<and> map_of (BlockList (ThreadCache T'))
        = map_of (BlockList (ThreadCache T)) |` (- recorded_code Start Length (ThreadCache T))
    \<and> map_of (DebugStore T')
        = map_of (DebugStore T) |` (- recorded_code Start Length (ThreadCache T))
    \<and> (\<forall>P. page_code P (ThreadCache T')
        = (if P \<in> set (range_pages Start Length) then [] else page_code P (ThreadCache T)))"
  using invalidate_thread [OF assms] by blast

text \<open>
  C11: Self-modifying code is seen: when the block at an address \<open>A\<close> other than zero was compiled from
  the guest bytes \<open>[S, S + L)\<close> and a write then invalidates a range that shares a page with them, the
  next lookup of \<open>A\<close> finds no host code.
\<close>

theorem modified_code_is_recompiled:
  assumes "coherent c" "A \<noteq> 0" "AddBlockExecutableRange A S L c = (rv, c1)"
    "AddBlockMapping A H c1 = Inr c2" "ThreadCache T = c2" "map_ok (DebugStore T)"
    "P \<in> set (range_pages S L)" "P \<in> set (range_pages Start Length)"
  shows "\<exists>T'. InvalidateGuestThreadCodeRange Start Length T = Inr T'
    \<and> FindBlock A (ThreadCache T') = Some (0, ThreadCache T')"
proof -
  note marks = AddBlockExecutableRange_marks [OF coherent_maps(3) [OF assms(1)] assms(3)]
  have "coherent c1" using marks(1,4) coherent_links(2) [OF assms(1)] by metis
  then have c2: "coherent c2" by (rule AddBlockMapping_coherent(1) [OF _ assms(4)])
  have "page_code P c2 = page_code P c1"
    using AddBlockMapping_Inr [OF assms(4)] by (simp add: page_code_def)
  then have rec: "A \<in> recorded_code Start Length c2"
    using marks(2) [of P] assms(7,8) by (auto simp: recorded_code_def intro!: bexI [of _ P])
  have "drop_bit 12 Start \<le> drop_bit 12 (Start + Length - 1)"
    using assms(8) by (auto simp: range_pages_set)
  with c2 assms(5,6) obtain T' where T': "InvalidateGuestThreadCodeRange Start Length T = Inr T'"
    "coherent (ThreadCache T')"
    "map_of (BlockList (ThreadCache T')) = map_of (BlockList c2) |` (- recorded_code Start Length c2)"
    using invalidate_thread [of T Start Length] by auto
  then show ?thesis using FindBlock_missing [of "ThreadCache T'" A] rec assms(2) by simp
qed

text \<open>
  C29: Invalidation reaches every thread of the context: for a range that does not wrap around the
  end of the address space it succeeds, and afterwards no thread's lookup finds a block, at an address
  other than zero, that was recorded in that thread for a page of the range.
\<close>

theorem InvalidateGuestCodeRange_all_threads:
  assumes "\<forall>T \<in> set Ts. coherent (ThreadCache T) \<and> map_ok (DebugStore T)"
    "drop_bit 12 Start \<le> drop_bit 12 (Start + Length - 1)"
  shows "\<exists>Ts'. InvalidateGuestCodeRangeInternal Start Length Ts = Inr Ts' \<and> length Ts' = length Ts
    \<and> (\<forall>i < length Ts. \<forall>A \<in> recorded_code Start Length (ThreadCache (Ts ! i)). A \<noteq> 0 \<longrightarrow>
         FindBlock A (ThreadCache (Ts' ! i)) = Some (0, ThreadCache (Ts' ! i)))"
  using assms(1)
proof (induction Ts)
  case (Cons T Ts)
  obtain T' where T': "InvalidateGuestThreadCodeRange Start Length T = Inr T'"
    "coherent (ThreadCache T')" "map_of (BlockList (ThreadCache T'))
        = map_of (BlockList (ThreadCache T)) |` (- recorded_code Start Length (ThreadCache T))"
    using invalidate_thread [OF _ _ assms(2), of T] Cons.prems by auto
  have "FindBlock A (ThreadCache T') = Some (0, ThreadCache T')"
    if "A \<in> recorded_code Start Length (ThreadCache T)" "A \<noteq> 0" for A
    using FindBlock_missing [OF T'(2) that(2)] T'(3) that(1) by simp
  with Cons T'(1) show ?case
    by (auto simp: nth_Cons split: nat.splits)
qed simp


text \<open>
  C33: When a lookup exhausts L2, the retry stores the mapping under the page index of the address
  instead of the address: afterwards looking up that page index as a guest address returns the
  host code of the other block, although no block is mapped there.
\<close>

theorem L2_exhaustion_aliases_page_index:
  assumes "cache_ok c" "\<not> has_room c A" "map_of (BlockList c) A = Some H"
    "GuestCode (L1Pointer c (L1_index A)) \<noteq> A" "map_of (BlockList c) (page_index c A) = None"
  shows "\<exists>d. FindBlock A c = Some (H, d) \<and> block_at d (page_index c A) = 0
    \<and> FindBlock (page_index c A) d = Some (H, d)"
proof -
  let ?p = "page_index c A" and ?e = "ClearL2Cache (set_L1 A H c)"
  have e: "config_ok ?e" "pages_ok ?e" "PagePointer ?e (page_index ?e ?p) = 0"
    "AllocateOffset ?e + SIZE_PER_PAGE < CODE_SIZE"
    using assms(1) by (simp_all add: cache_ok_def config_ok_def pages_ok_ClearL2 lc_consts)
  let ?d = "L2_store ?p H (PageMemory ?e + AllocateOffset ?e)
    ((set_L1 ?p H ?e)\<lparr>AllocateOffset := AllocateOffset ?e + SIZE_PER_PAGE\<rparr>)"
  have "CacheBlockMapping A H c = Some ?d"
    using CacheBlockMapping_alloc [OF e, of H] CacheBlockMapping_exhausted [of c A H] assms(2)
    by (simp add: has_room_def)
  moreover have "PagePointer c ?p = 0" using assms(2) by (simp add: has_room_def)
  ultimately have "FindBlock A c = Some (H, ?d)"
    using assms(3,4) by (simp add: FindBlock_def Let_def)
  moreover have "FindBlock ?p ?d = Some (H, ?d)" by (simp add: FindBlock_def)
  moreover have "block_at ?d ?p = 0" using assms(5) by (simp add: block_at_def)
  ultimately show ?thesis by blast
qed

text \<open>
  C34: \<^verbatim>\<open>Erase\<close> leaves the host code in L1 under guest address zero: after a block whose address is
  a multiple of the L1 size has been added and erased, a lookup of address zero returns the host
  code of the erased block.
\<close>

theorem erased_block_found_at_zero:
  assumes "coherent c" "AddBlockMapping A H c = Inr d" "L1_index A = 0"
  shows "FindBlock 0 (Erase A d) = Some (H, Erase A d)"
proof -
  have "maps_ok d"
    using AddBlockMapping_coherent(1) [OF assms(1,2)] by (simp add: coherent_def cache_ok_def)
  moreover have "L1_index 0 = 0" by (simp add: L1_index_def)
  ultimately show ?thesis
    using assms(3) by (simp add: FindBlock_def Erase_L1 AddBlockMapping_Inr [OF assms(2)])
qed

section \<open>Concrete caches\<close>

text \<open>
  A cache with page memory at 64 KiB and the default virtual memory size of 64 GiB, with one block
  added, and one whose L2 is full.
\<close>

definition empty_cache :: "nat LookupCache" where
  "empty_cache = new_LookupCache 0x10000 0x1000000000"

definition one_block :: "nat LookupCache" where
  "one_block = set_L1 0x401000 0x7000 (empty_cache\<lparr>BlockList := [(0x401000, 0x7000)]\<rparr>)"

definition full_cache :: "nat LookupCache" where
  "full_cache = empty_cache\<lparr>BlockList := [(0x7FF000, 0x7000)], AllocateOffset := 0x7FF0000,
     PagePointer := (\<lambda>p. if unat p < 2047 then 0x10000 + p * 0x10000 else 0)\<rparr>"

definition one_thread :: "(nat, nat, nat) ThreadState" where
  "one_thread = \<lparr>ThreadCache = one_block, DebugStore = [], CPUBackend = 0\<rparr>"

lemmas sample_defs = empty_cache_def new_LookupCache_def one_block_def config_ok_def lc_consts

lemma empty_cache_ok: "config_ok (new_LookupCache 0x10000 0x1000000000)"
  by (simp add: sample_defs)

lemma empty_coherent: "coherent empty_cache"
  unfolding empty_cache_def by (rule new_cache_coherent [OF empty_cache_ok])

lemma add_one_block: "AddBlockMapping 0x401000 0x7000 empty_cache = Inr one_block"
  by (simp add: AddBlockMapping_def one_block_def empty_cache_def new_LookupCache_def)

lemma one_block_coherent: "coherent one_block"
  by (rule AddBlockMapping_coherent(1) [OF empty_coherent add_one_block])

lemma one_block_reach: "cache_reach roomy 0x10000 0x1000000000 one_block"
  by (rule cache_reach.step [OF cache_reach.init, where f = "OpAdd 0x401000 0x7000" and r = 0])
    (simp_all add: add_one_block [unfolded empty_cache_def])

lemma one_block_room: "has_room one_block A"
  by (simp add: has_room_def sample_defs)

lemma one_block_list: "BlockList one_block = [(0x401000, 0x7000)]"
  by (simp add: one_block_def)

theorem FindBlock_refines_BlockList_witness:
  "\<exists>d. FindBlock 0x401000 one_block = Some (0x7000, d) \<and> BlockList d = [(0x401000, 0x7000)]"
  using FindBlock_refines_BlockList [OF one_block_reach empty_cache_ok one_block_room, of "0x401000"]
  by (auto simp: block_at_def one_block_list)

theorem cache_calls_return_witness: "cache_exec (OpFind 0x401000) one_block \<noteq> None"
  by (rule cache_calls_return [OF one_block_reach empty_cache_ok])

text \<open>A lookup that gives L2 its first page: the second block has displaced the first one from L1.\<close>

lemma first_page:
  "\<exists>c. cache_reach roomy 0x10000 0x1000000000 c \<and> PagePointer (c :: nat LookupCache) 0x401 = 0x10000"
proof -
  define d where "d = set_L1 0x501000 0x8000 (one_block\<lparr>BlockList := map_emplace 0x501000 0x8000 (BlockList one_block)\<rparr>)"
  have add: "AddBlockMapping 0x501000 0x8000 one_block = Inr d"
    by (simp add: AddBlockMapping_def one_block_list d_def)
  have d: "cache_reach roomy 0x10000 0x1000000000 d"
    by (rule cache_reach.step [OF one_block_reach, where f = "OpAdd 0x501000 0x8000" and r = 0]) (simp_all add: add)
  have cfg: "config_ok d" "pages_ok d" "PagePointer d (page_index d 0x401000) = 0" "AllocateOffset d + SIZE_PER_PAGE < CODE_SIZE"
    by (simp_all add: d_def sample_defs set_L1_def pages_ok_def)
  have L1: "GuestCode (L1Pointer d (L1_index 0x401000)) \<noteq> 0x401000" and idx: "page_index d 0x401000 = 0x401"
    and list: "map_of (BlockList d) 0x401000 = Some 0x7000" and mem: "PageMemory d + AllocateOffset d = 0x10000"
    by (simp_all add: d_def one_block_list one_block_def empty_cache_def new_LookupCache_def set_L1_def L1_index_def
        page_index_def lc_consts)
  obtain c where c: "FindBlock 0x401000 d = Some (0x7000, c)" "PagePointer c 0x401 = 0x10000"
    using CacheBlockMapping_alloc [OF cfg, of "0x7000"] L1 idx list mem cfg(3)
    by (simp add: FindBlock_def Let_def L2_store_def)
  have "cache_reach roomy 0x10000 0x1000000000 c"
    by (rule cache_reach.step [OF d, where f = "OpFind 0x401000"]) (use c cfg(4) in \<open>simp_all add: has_room_def\<close>)
  then show ?thesis using c(2) by blast
qed

theorem page_table_bounds_witness:
  "\<exists>c :: nat LookupCache. PagePointer c 0x401 = 0x10000 \<and> unat (page_index c 0x401000) < unat (VirtualMemSize c) div 4096
    \<and> unat (PagePointer c 0x401) + 65536 \<le> unat (PageMemory c) + 134217728"
proof -
  obtain c :: "nat LookupCache" where c: "cache_reach False 0x10000 0x1000000000 c" "PagePointer c 0x401 = 0x10000"
    using first_page by blast
  show ?thesis using page_table_bounds [OF c(1) empty_cache_ok, of "0x401000" "0x401" 0] c(2) by (intro exI [of _ c]) simp
qed

theorem L2_capacity_witness: "card {p. PagePointer one_block p \<noteq> 0} \<le> 2047"
  using L2_capacity [OF one_block_reach empty_cache_ok, of 0] by simp

theorem Erase_correct_witness:
  "FindBlock 0x401000 (Erase 0x401000 one_block) = Some (0, Erase 0x401000 one_block)"
  using Erase_correct [OF one_block_coherent, of "0x401000"] by simp

theorem InvalidateGuestThreadCodeRange_correct_witness:
  "\<exists>T'. InvalidateGuestThreadCodeRange 0x401FFF 2 one_thread = Inr T' \<and> coherent (ThreadCache T')"
  using InvalidateGuestThreadCodeRange_correct [of one_thread "0x401FFF" 2] one_block_coherent
  by (auto simp: one_thread_def)

theorem InvalidateGuestCodeRange_all_threads_witness:
  "\<exists>Ts'. InvalidateGuestCodeRangeInternal 0x401FFF 2 [one_thread, one_thread] = Inr Ts'
    \<and> length Ts' = 2"
  using InvalidateGuestCodeRange_all_threads [of "[one_thread, one_thread]" "0x401FFF" 2]
    one_block_coherent
  by (auto simp: one_thread_def)

theorem modified_code_is_recompiled_witness:
  "\<exists>c2. AddBlockMapping 0x401FFC 0x7000 (snd (AddBlockExecutableRange 0x401FFC 0x401FFC 8 empty_cache)) = Inr c2
    \<and> (\<exists>T'. InvalidateGuestThreadCodeRange 0x402800 1
          \<lparr>ThreadCache = c2, DebugStore = [] :: (u64, nat) std_map, CPUBackend = 0 :: nat\<rparr> = Inr T'
        \<and> FindBlock 0x401FFC (ThreadCache T') = Some (0, ThreadCache T'))"
proof -
  obtain rv c1 where r: "AddBlockExecutableRange 0x401FFC 0x401FFC 8 empty_cache = (rv, c1)"
    by fastforce
  have "d = empty_cache\<lparr>CodePages := CodePages d\<rparr> \<Longrightarrow> map_of (BlockList d) 0x401FFC = None" for d
    by (metis LookupCache.select_convs(8) LookupCache.update_convs(9) LookupCache.surjective
        empty_cache_def map_of.simps(1) new_LookupCache_def)
  then have "map_of (BlockList c1) 0x401FFC = None"
    using AddBlockExecutableRange_marks(4) [OF coherent_maps(3) [OF empty_coherent] r] by blast
  then obtain c2 where a: "AddBlockMapping 0x401FFC 0x7000 c1 = Inr c2"
    by (simp add: AddBlockMapping_def Let_def)
  have "(0x402 :: u64) \<in> set (range_pages 0x401FFC 8)" "(0x402 :: u64) \<in> set (range_pages 0x402800 1)"
    by (simp_all add: range_pages_set)
  from modified_code_is_recompiled [OF empty_coherent _ r a _ _ this,
      of "\<lparr>ThreadCache = c2, DebugStore = [] :: (u64, nat) std_map, CPUBackend = 0 :: nat\<rparr>"] a r
  show ?thesis by simp
qed


lemma full_cache_ok: "cache_ok full_cache"
proof -
  let ?ps = "map (of_nat :: nat \<Rightarrow> u64) [0..<2047]"
  have small: "unat (of_nat n :: u64) = n" if "n < 2047" for n
    using that by (simp add: unat_of_nat)
  have pp: "PagePointer full_cache p = (if unat p < 2047 then 0x10000 + p * 0x10000 else 0)" for p
    by (simp add: full_cache_def)
  have nz: "(0x10000 :: u64) + p * 0x10000 \<noteq> 0" if "unat p < 2047" for p
  proof -
    have "unat ((0x10000 :: u64) + p * 0x10000) = 65536 + 65536 * unat p"
      using that by (simp add: unat_word_ariths)
    then show ?thesis by (metis add_is_0 unsigned_0 zero_neq_numeral)
  qed
  have "distinct ?ps"
    by (auto simp: distinct_map inj_on_def simp del: upt_rec_numeral) (metis small)
  moreover have "{p. PagePointer full_cache p \<noteq> 0} = set ?ps"
  proof -
    have "p \<in> set ?ps" if "unat p < 2047" for p
      using that by (auto simp del: upt_rec_numeral intro!: image_eqI [of _ _ "unat p"])
    then show ?thesis using nz small by (auto simp: pp simp del: upt_rec_numeral)
  qed
  moreover have "\<forall>k < length ?ps. PagePointer full_cache (?ps ! k)
      = PageMemory full_cache + of_nat k * SIZE_PER_PAGE"
    using small by (auto simp: pp full_cache_def sample_defs simp del: upt_rec_numeral)
  moreover have "unat (AllocateOffset full_cache) = 65536 * length ?ps
      \<and> unat (AllocateOffset full_cache) < unat CODE_SIZE"
    by (simp add: full_cache_def lc_consts del: upt_rec_numeral)
  ultimately have "pages_ok full_cache"
    unfolding pages_ok_def by (intro exI [of _ ?ps]) blast
  then show ?thesis
    by (simp add: cache_ok_def maps_ok_def full_cache_def sample_defs)
qed

theorem L2_exhaustion_aliases_page_index_witness:
  "\<exists>d. FindBlock 0x7FF000 full_cache = Some (0x7000, d) \<and> FindBlock 0x7FF d = Some (0x7000, d)"
proof -
  have "page_index full_cache 0x7FF000 = 0x7FF"
    by (simp add: page_index_def full_cache_def sample_defs)
  moreover have "\<not> has_room full_cache 0x7FF000"
    by (simp add: has_room_def calculation) (simp add: full_cache_def sample_defs)
  moreover have "map_of (BlockList full_cache) 0x7FF000 = Some 0x7000"
    "map_of (BlockList full_cache) 0x7FF = None"
    "GuestCode (L1Pointer full_cache (L1_index 0x7FF000)) \<noteq> 0x7FF000"
    by (simp_all add: full_cache_def sample_defs)
  ultimately show ?thesis
    using L2_exhaustion_aliases_page_index [OF full_cache_ok, of "0x7FF000" "0x7000"] by auto
qed

theorem erased_block_found_at_zero_witness:
  "\<exists>d. AddBlockMapping 0x300000 0x7000 empty_cache = Inr d
    \<and> FindBlock 0 (Erase 0x300000 d) = Some (0x7000, Erase 0x300000 d)"
proof -
  obtain d where d: "AddBlockMapping 0x300000 0x7000 empty_cache = Inr d"
    by (simp add: AddBlockMapping_def Let_def empty_cache_def new_LookupCache_def)
  then show ?thesis
    using erased_block_found_at_zero [OF empty_coherent d] by (simp add: L1_index_def lc_consts)
qed

end
