(* ===== verification/VMA_Tracking.thy ===== *)
theory VMA_Tracking
  imports FEX_Prelude Std_Map "HOL-Library.Monad_Syntax"
begin

text \<open>
  The tracking of guest memory mappings (\<^verbatim>\<open>Source/Tests/LinuxSyscalls/SyscallsVMATracking.cpp\<close> and
  the types of \<^verbatim>\<open>Syscalls.h\<close>): an ordered map of VMAs, each one a node of the intrusive list of
  the resource it maps. A pointer to a VMA is the key of its map node, a pointer to a resource the
  key of its node; both stay valid exactly while the node is in its map. A failed assertion (and
  the use of a pointer to a node that is gone) is \<^const>\<open>None\<close>.
\<close>

section \<open>State\<close>

datatype MRID = MRID (mr_dev: u64) (mr_id: u64)

fun mrid_less :: "MRID \<Rightarrow> MRID \<Rightarrow> bool" where
  "mrid_less (MRID d i) (MRID d' i') \<longleftrightarrow> d < d' \<or> \<not> d' < d \<and> i < i'"

instantiation MRID :: linorder
begin

definition less_MRID :: "MRID \<Rightarrow> MRID \<Rightarrow> bool" where
  "less_MRID = mrid_less"

definition less_eq_MRID :: "MRID \<Rightarrow> MRID \<Rightarrow> bool" where
  "less_eq_MRID x y \<longleftrightarrow> x = y \<or> mrid_less x y"

instance
proof
  fix x y z :: MRID
  show "(x < y) = (x \<le> y \<and> \<not> y \<le> x)"
    by (cases x; cases y) (auto simp: less_MRID_def less_eq_MRID_def)
  show "x \<le> x" by (simp add: less_eq_MRID_def)
  show "x \<le> y \<Longrightarrow> y \<le> z \<Longrightarrow> x \<le> z"
    by (cases x; cases y; cases z) (auto simp: less_eq_MRID_def)
  show "x \<le> y \<Longrightarrow> y \<le> x \<Longrightarrow> x = y"
    by (cases x; cases y) (auto simp: less_eq_MRID_def)
  show "x \<le> y \<or> y \<le> x"
    by (cases x; cases y) (auto simp: less_eq_MRID_def)
qed

end

record VMAProt =
  Readable :: bool
  Writable :: bool
  Executable :: bool

record VMAFlags =
  Shared :: bool

record VMAEntry =
  Resource :: "MRID option"
  ResourcePrevVMA :: "u64 option"
  ResourceNextVMA :: "u64 option"
  Base :: u64
  Offset :: u64
  Length :: u64
  Flags :: VMAFlags
  Prot :: VMAProt

record 'e MappedResource =
  AOTIRCacheEntry :: "'e option"
  FirstVMA :: "u64 option"
  ResourceLength :: u64

text \<open>\<open>Unloaded\<close> records the calls of \<^verbatim>\<open>UnloadAOTIRCacheEntry\<close>, oldest first.\<close>

record 'e VMATracking =
  VMAs :: "(u64, VMAEntry) std_map"
  MappedResources :: "(MRID, 'e MappedResource) std_map"
  Unloaded :: "'e list"

definition SpecialDev_Anon :: u64 where "SpecialDev_Anon = 0x100000000"
definition SpecialDev_SHM :: u64 where "SpecialDev_SHM = 0x200000000"

section \<open>The lists of the resources\<close>

definition assert :: "bool \<Rightarrow> unit option" where
  "assert b = (if b then Some () else None)"

definition get_vma :: "u64 \<Rightarrow> 'e VMATracking \<Rightarrow> VMAEntry option" where
  "get_vma k v = map_of (VMAs v) k"

definition get_resource :: "MRID \<Rightarrow> 'e VMATracking \<Rightarrow> 'e MappedResource option" where
  "get_resource r v = map_of (MappedResources v) r"

text \<open>Writing a field of the node behind a pointer.\<close>

definition update_vma ::
  "u64 \<Rightarrow> (VMAEntry \<Rightarrow> VMAEntry) \<Rightarrow> 'e VMATracking \<Rightarrow> 'e VMATracking option" where
  "update_vma k f v = do {
     e \<leftarrow> get_vma k v;
     Some (v\<lparr>VMAs := map_assign k (f e) (VMAs v)\<rparr>)
   }"

definition update_resource ::
  "MRID \<Rightarrow> ('e MappedResource \<Rightarrow> 'e MappedResource) \<Rightarrow> 'e VMATracking \<Rightarrow> 'e VMATracking option" where
  "update_resource r f v = do {
     res \<leftarrow> get_resource r v;
     Some (v\<lparr>MappedResources := map_assign r (f res) (MappedResources v)\<rparr>)
   }"

definition ListCheckVMALinks :: "u64 option \<Rightarrow> 'e VMATracking \<Rightarrow> unit option" where
  "ListCheckVMALinks p v =
     (case p of
        None \<Rightarrow> Some ()
      | Some k \<Rightarrow> do {
          e \<leftarrow> get_vma k v;
          assert (ResourceNextVMA e \<noteq> Some k);
          assert (ResourcePrevVMA e \<noteq> Some k)
        })"

definition ListRemove :: "u64 \<Rightarrow> 'e VMATracking \<Rightarrow> (bool \<times> 'e VMATracking) option" where
  "ListRemove VMA v = do {
     e \<leftarrow> get_vma VMA v;
     r \<leftarrow> Resource e;
     v \<leftarrow> (case ResourcePrevVMA e of
            Some p \<Rightarrow> do {
              pe \<leftarrow> get_vma p v;
              assert (ResourceNextVMA pe = Some VMA);
              update_vma p (\<lambda>pe. pe\<lparr>ResourceNextVMA := ResourceNextVMA e\<rparr>) v
            }
          | None \<Rightarrow> do {
              res \<leftarrow> get_resource r v;
              assert (FirstVMA res = Some VMA);
              Some v
            });
     e \<leftarrow> get_vma VMA v;
     v \<leftarrow> (case ResourceNextVMA e of
            Some n \<Rightarrow> do {
              ne \<leftarrow> get_vma n v;
              assert (ResourcePrevVMA ne = Some VMA);
              update_vma n (\<lambda>ne. ne\<lparr>ResourcePrevVMA := ResourcePrevVMA e\<rparr>) v
            }
          | None \<Rightarrow> Some v);
     e \<leftarrow> get_vma VMA v;
     res \<leftarrow> get_resource r v;
     v \<leftarrow> (if FirstVMA res = Some VMA then do {
              (case ResourceNextVMA e of
                 None \<Rightarrow> Some ()
               | Some n \<Rightarrow> do { ne \<leftarrow> get_vma n v; assert (ResourcePrevVMA ne = None) });
              update_resource r (\<lambda>res. res\<lparr>FirstVMA := ResourceNextVMA e\<rparr>) v
            }
            else Some v);
     ListCheckVMALinks (Some VMA) v;
     ListCheckVMALinks (ResourceNextVMA e) v;
     ListCheckVMALinks (ResourcePrevVMA e) v;
     res \<leftarrow> get_resource r v;
     Some (FirstVMA res = None, v)
   }"

definition ListReplace :: "u64 \<Rightarrow> u64 \<Rightarrow> 'e VMATracking \<Rightarrow> 'e VMATracking option" where
  "ListReplace VMA NewVMA v = do {
     e \<leftarrow> get_vma VMA v;
     ne \<leftarrow> get_vma NewVMA v;
     r \<leftarrow> Resource e;
     assert (Resource ne = Some r);
     assert (ResourcePrevVMA ne = ResourcePrevVMA e);
     assert (ResourceNextVMA ne = ResourceNextVMA e);
     res \<leftarrow> get_resource r v;
     v \<leftarrow> (case ResourcePrevVMA e of
            Some p \<Rightarrow> do {
              assert (FirstVMA res \<noteq> Some VMA);
              pe \<leftarrow> get_vma p v;
              assert (ResourceNextVMA pe = Some VMA);
              update_vma p (\<lambda>pe. pe\<lparr>ResourceNextVMA := Some NewVMA\<rparr>) v
            }
          | None \<Rightarrow> do {
              assert (FirstVMA res = Some VMA);
              update_resource r (\<lambda>res. res\<lparr>FirstVMA := Some NewVMA\<rparr>) v
            });
     e \<leftarrow> get_vma VMA v;
     v \<leftarrow> (case ResourceNextVMA e of
            Some n \<Rightarrow> do {
              nx \<leftarrow> get_vma n v;
              assert (ResourcePrevVMA nx = Some VMA);
              update_vma n (\<lambda>nx. nx\<lparr>ResourcePrevVMA := Some NewVMA\<rparr>) v
            }
          | None \<Rightarrow> Some v);
     e \<leftarrow> get_vma VMA v;
     ListCheckVMALinks (Some VMA) v;
     ListCheckVMALinks (Some NewVMA) v;
     ListCheckVMALinks (ResourceNextVMA e) v;
     ListCheckVMALinks (ResourcePrevVMA e) v;
     Some v
   }"

definition ListInsertAfter :: "u64 \<Rightarrow> u64 \<Rightarrow> 'e VMATracking \<Rightarrow> 'e VMATracking option" where
  "ListInsertAfter AfterVMA NewVMA v = do {
     ne \<leftarrow> get_vma NewVMA v;
     ae \<leftarrow> get_vma AfterVMA v;
     r \<leftarrow> Resource ne;
     assert (Resource ae = Some r);
     assert (ResourcePrevVMA ne = Some AfterVMA);
     assert (ResourceNextVMA ne = ResourceNextVMA ae);
     v \<leftarrow> (case ResourceNextVMA ae of
            Some n \<Rightarrow> do {
              nx \<leftarrow> get_vma n v;
              assert (ResourcePrevVMA nx = Some AfterVMA);
              update_vma n (\<lambda>nx. nx\<lparr>ResourcePrevVMA := Some NewVMA\<rparr>) v
            }
          | None \<Rightarrow> Some v);
     v \<leftarrow> update_vma AfterVMA (\<lambda>ae. ae\<lparr>ResourceNextVMA := Some NewVMA\<rparr>) v;
     ae \<leftarrow> get_vma AfterVMA v;
     ListCheckVMALinks (Some AfterVMA) v;
     ListCheckVMALinks (Some NewVMA) v;
     ListCheckVMALinks (ResourceNextVMA ae) v;
     ListCheckVMALinks (ResourcePrevVMA ae) v;
     Some v
   }"

definition ListPrepend :: "MRID \<Rightarrow> u64 \<Rightarrow> 'e VMATracking \<Rightarrow> 'e VMATracking option" where
  "ListPrepend r NewVMA v = do {
     ne \<leftarrow> get_vma NewVMA v;
     res \<leftarrow> get_resource r v;
     assert (Resource ne = Some r);
     assert (ResourcePrevVMA ne = None);
     assert (ResourceNextVMA ne = FirstVMA res);
     v \<leftarrow> (case FirstVMA res of
            Some f \<Rightarrow> do {
              fe \<leftarrow> get_vma f v;
              assert (ResourcePrevVMA fe = None);
              update_vma f (\<lambda>fe. fe\<lparr>ResourcePrevVMA := Some NewVMA\<rparr>) v
            }
          | None \<Rightarrow> Some v);
     v \<leftarrow> update_resource r (\<lambda>res. res\<lparr>FirstVMA := Some NewVMA\<rparr>) v;
     ne \<leftarrow> get_vma NewVMA v;
     ListCheckVMALinks (Some NewVMA) v;
     ListCheckVMALinks (ResourceNextVMA ne) v;
     ListCheckVMALinks (ResourcePrevVMA ne) v;
     Some v
   }"

section \<open>Mappings\<close>

definition LookupVMAUnsafe :: "u64 \<Rightarrow> 'e VMATracking \<Rightarrow> (u64 \<times> VMAEntry) option" where
  "LookupVMAUnsafe GuestAddr v =
     (let Entry = map_upper_bound (VMAs v) GuestAddr
      in if Entry \<noteq> 0 then
           let e = VMAs v ! (Entry - 1)
           in if fst e \<le> GuestAddr \<and> fst e + Length (snd e) > GuestAddr then Some e else None
         else None)"

definition emplace_vma :: "u64 \<Rightarrow> VMAEntry \<Rightarrow> 'e VMATracking \<Rightarrow> 'e VMATracking option" where
  "emplace_vma k e v = do {
     assert (get_vma k v = None);
     Some (v\<lparr>VMAs := map_emplace k e (VMAs v)\<rparr>)
   }"

definition erase_vma :: "u64 \<Rightarrow> 'e VMATracking \<Rightarrow> 'e VMATracking" where
  "erase_vma k v = v\<lparr>VMAs := map_erase k (VMAs v)\<rparr>"

text \<open>Dropping a resource whose list has become empty.\<close>

definition drop_resource :: "MRID \<Rightarrow> 'e VMATracking \<Rightarrow> 'e VMATracking option" where
  "drop_resource r v = do {
     res \<leftarrow> get_resource r v;
     let v = (case AOTIRCacheEntry res of
                Some entry \<Rightarrow> v\<lparr>Unloaded := Unloaded v @ [entry]\<rparr>
              | None \<Rightarrow> v);
     Some (v\<lparr>MappedResources := map_erase r (MappedResources v)\<rparr>)
   }"

text \<open>The part of the loop body of \<^verbatim>\<open>ClearUnsafe\<close> for a mapping that the range meets.\<close>

definition clear_mapping ::
  "u64 \<Rightarrow> u64 \<Rightarrow> MRID option \<Rightarrow> u64 \<Rightarrow> VMAEntry \<Rightarrow> 'e VMATracking \<Rightarrow> 'e VMATracking option" where
  "clear_mapping RangeBase Top Preserved Current e v =
     (let MapBase = Base e; MapTop = MapBase + Length e; OffsetDiff = Offset e - MapBase;
          HasFirstPart = MapBase < RangeBase; HasTrailingPart = MapTop > Top
      in if \<not> HasFirstPart \<and> \<not> HasTrailingPart then do {
           v \<leftarrow> (case Resource e of
                  None \<Rightarrow> Some v
                | Some r \<Rightarrow> do {
                    (empty, v) \<leftarrow> ListRemove Current v;
                    if empty \<and> Some r \<noteq> Preserved then drop_resource r v else Some v
                  });
           Some (erase_vma Current v)
         }
         else do {
           v \<leftarrow> (if HasFirstPart
                 then update_vma Current (\<lambda>e. e\<lparr>Length := RangeBase - MapBase\<rparr>) v
                 else Some v);
           v \<leftarrow> (if HasTrailingPart then do {
                   e \<leftarrow> get_vma Current v;
                   v \<leftarrow> emplace_vma Top
                     \<lparr>Resource = Resource e,
                      ResourcePrevVMA = (if HasFirstPart then Some Current else ResourcePrevVMA e),
                      ResourceNextVMA = ResourceNextVMA e, Base = Top, Offset = OffsetDiff + Top,
                      Length = MapTop - Top, Flags = Flags e, Prot = Prot e\<rparr> v;
                   if Resource e = None then Some v
                   else if HasFirstPart then ListInsertAfter Current Top v
                   else ListReplace Current Top v
                 }
                 else Some v);
           Some (if HasFirstPart then v else erase_vma Current v)
         })"

text \<open>
  The loop of \<^verbatim>\<open>ClearUnsafe\<close>: the argument is the position of the iterator, so that the entry the
  decrement reaches is the one before it. Erasing the entry leaves the iterator at its position.
\<close>

fun clear_loop :: "u64 \<Rightarrow> u64 \<Rightarrow> MRID option \<Rightarrow> nat \<Rightarrow> 'e VMATracking \<Rightarrow> 'e VMATracking option" where
  "clear_loop RangeBase Top Preserved 0 v = Some v"
| "clear_loop RangeBase Top Preserved (Suc CurrentIter) v =
     (let (Current, e) = VMAs v ! CurrentIter
      in if Base e + Length e \<le> RangeBase then Some v
         else do {
           v \<leftarrow> clear_mapping RangeBase Top Preserved Current e v;
           clear_loop RangeBase Top Preserved CurrentIter v
         })"

definition ClearUnsafe ::
  "u64 \<Rightarrow> u64 \<Rightarrow> MRID option \<Rightarrow> 'e VMATracking \<Rightarrow> 'e VMATracking option" where
  "ClearUnsafe RangeBase RangeLength Preserved v =
     (let Top = RangeBase + RangeLength
      in clear_loop RangeBase Top Preserved (map_lower_bound (VMAs v) Top) v)"

definition SetUnsafe ::
  "MRID option \<Rightarrow> u64 \<Rightarrow> u64 \<Rightarrow> u64 \<Rightarrow> VMAFlags \<Rightarrow> VMAProt \<Rightarrow> 'e VMATracking \<Rightarrow>
   'e VMATracking option" where
  "SetUnsafe MappedRes NewBase NewOffset NewLength NewFlags NewProt v = do {
     v \<leftarrow> ClearUnsafe NewBase NewLength MappedRes v;
     first \<leftarrow> (case MappedRes of
                None \<Rightarrow> Some None
              | Some r \<Rightarrow> map_option FirstVMA (get_resource r v));
     v \<leftarrow> emplace_vma NewBase
            \<lparr>Resource = MappedRes, ResourcePrevVMA = None, ResourceNextVMA = first, Base = NewBase,
             Offset = NewOffset, Length = NewLength, Flags = NewFlags, Prot = NewProt\<rparr> v;
     (case MappedRes of None \<Rightarrow> Some v | Some r \<Rightarrow> ListPrepend r NewBase v)
   }"

text \<open>
  The loop body of \<^verbatim>\<open>ChangeUnsafe\<close> for a mapping that the range meets: splitting off the part below
  the range or changing the mapping in place, which yields the mapping with the new protection,
  then splitting off the part above the range, which keeps the old one.
\<close>

definition change_first ::
  "u64 \<Rightarrow> u64 \<Rightarrow> VMAProt \<Rightarrow> u64 \<Rightarrow> VMAEntry \<Rightarrow> 'e VMATracking \<Rightarrow> (u64 \<times> 'e VMATracking) option" where
  "change_first RangeBase Top NewProt Mapping e v =
     (let MapBase = Base e; MapFlags = Flags e; OffsetDiff = Offset e - MapBase;
          HasFirstPart = MapBase < RangeBase
      in if HasFirstPart then do {
           v \<leftarrow> update_vma Mapping (\<lambda>e. e\<lparr>Length := RangeBase - MapBase\<rparr>) v;
           e \<leftarrow> get_vma Mapping v;
           v \<leftarrow> emplace_vma RangeBase
             \<lparr>Resource = Resource e, ResourcePrevVMA = Some Mapping,
              ResourceNextVMA = ResourceNextVMA e, Base = RangeBase,
              Offset = OffsetDiff + RangeBase, Length = Top - RangeBase, Flags = MapFlags,
              Prot = NewProt\<rparr> v;
           v \<leftarrow> (if Resource e = None then Some v else ListInsertAfter Mapping RangeBase v);
           Some (RangeBase, v)
         }
         else do {
           v \<leftarrow> update_vma Mapping (\<lambda>e. e\<lparr>Prot := NewProt\<rparr>) v;
           Some (Mapping, v)
         })"

definition change_trailing ::
  "u64 \<Rightarrow> VMAEntry \<Rightarrow> u64 \<Rightarrow> 'e VMATracking \<Rightarrow> 'e VMATracking option" where
  "change_trailing Top e Current v =
     (let MapBase = Base e; MapTop = MapBase + Length e; MapFlags = Flags e; MapProt = Prot e;
          OffsetDiff = Offset e - MapBase; HasTrailingPart = MapTop > Top
      in if HasTrailingPart then do {
           v \<leftarrow> update_vma Current (\<lambda>e. e\<lparr>Length := Top - Base e\<rparr>) v;
           e \<leftarrow> get_vma Current v;
           v \<leftarrow> emplace_vma Top
             \<lparr>Resource = Resource e, ResourcePrevVMA = Some Current,
              ResourceNextVMA = ResourceNextVMA e, Base = Top, Offset = OffsetDiff + Top,
              Length = MapTop - Top, Flags = MapFlags, Prot = MapProt\<rparr> v;
           (if Resource e = None then Some v else ListInsertAfter Current Top v)
         }
         else Some v)"

definition change_mapping ::
  "u64 \<Rightarrow> u64 \<Rightarrow> VMAProt \<Rightarrow> u64 \<Rightarrow> VMAEntry \<Rightarrow> 'e VMATracking \<Rightarrow> 'e VMATracking option" where
  "change_mapping RangeBase Top NewProt Mapping e v = do {
     (Current, v) \<leftarrow> change_first RangeBase Top NewProt Mapping e v;
     change_trailing Top e Current v
   }"

fun change_loop :: "u64 \<Rightarrow> u64 \<Rightarrow> VMAProt \<Rightarrow> nat \<Rightarrow> 'e VMATracking \<Rightarrow> 'e VMATracking option" where
  "change_loop RangeBase Top NewProt 0 v = Some v"
| "change_loop RangeBase Top NewProt (Suc MappingIter) v =
     (let (Mapping, e) = VMAs v ! MappingIter
      in if Base e + Length e \<le> RangeBase then Some v
         else if Prot e = NewProt then change_loop RangeBase Top NewProt MappingIter v
         else do {
           v \<leftarrow> change_mapping RangeBase Top NewProt Mapping e v;
           change_loop RangeBase Top NewProt MappingIter v
         })"

definition ChangeUnsafe :: "u64 \<Rightarrow> u64 \<Rightarrow> VMAProt \<Rightarrow> 'e VMATracking \<Rightarrow> 'e VMATracking option" where
  "ChangeUnsafe RangeBase RangeLength NewProt v =
     (let Top = RangeBase + RangeLength
      in change_loop RangeBase Top NewProt (map_lower_bound (VMAs v) Top) v)"

section \<open>Shared memory segments\<close>

text \<open>
  The search of \<^verbatim>\<open>ClearShmUnsafe\<close> through the entries from the first one at or after the address: the
  number of entries it skips.
\<close>

fun shm_search :: "u64 \<Rightarrow> (u64 \<times> VMAEntry) list \<Rightarrow> nat option" where
  "shm_search B [] = Some 0"
| "shm_search B ((k, e) # rest) = do {
     assert (Base e \<ge> B);
     if Base e - B = Offset e \<and> (case Resource e of Some r \<Rightarrow> mr_dev r = SpecialDev_SHM | None \<Rightarrow> False)
     then Some 0
     else map_option Suc (shm_search B rest)
   }"

text \<open>
  The removal loop. Each iteration erases the entry at the position of the iterator or moves past it,
  so the number of entries from the position to the end, the first argument after the resource,
  bounds the iterations.
\<close>

fun shm_loop :: "u64 \<Rightarrow> u64 \<Rightarrow> MRID \<Rightarrow> nat \<Rightarrow> nat \<Rightarrow> 'e VMATracking \<Rightarrow> 'e VMATracking option" where
  "shm_loop B ShmLength r 0 Entry v = Some v"
| "shm_loop B ShmLength r (Suc n) Entry v =
     (let (k, e) = VMAs v ! Entry
      in do {
           (Entry, v) \<leftarrow> (if Resource e = Some r then do {
                (empty, v) \<leftarrow> ListRemove k v;
                v \<leftarrow> (if empty then drop_resource r v else Some v);
                Some (Entry, erase_vma k v)
              }
              else Some (Suc Entry, v));
           if Entry < length (VMAs v) \<and>
              Base (snd (VMAs v ! Entry)) + Length (snd (VMAs v ! Entry)) - B \<le> ShmLength
           then shm_loop B ShmLength r n Entry v
           else Some v
         })"

definition ClearShmUnsafe :: "u64 \<Rightarrow> 'e VMATracking \<Rightarrow> (u64 \<times> 'e VMATracking) option" where
  "ClearShmUnsafe B v = do {
     let start = map_lower_bound (VMAs v) B;
     n \<leftarrow> shm_search B (drop start (VMAs v));
     let Entry = start + n;
     if Entry = length (VMAs v) then Some (0, v)
     else do {
       r \<leftarrow> Resource (snd (VMAs v ! Entry));
       res \<leftarrow> get_resource r v;
       let ShmLength = ResourceLength res;
       v \<leftarrow> shm_loop B ShmLength r (length (VMAs v) - Entry) Entry v;
       Some (ShmLength, v)
     }
   }"

end
