(* ===== verification/VMA_Lists.thy ===== *)
theory VMA_Lists
  imports VMA_Tracking
begin

text \<open>
  The intrusive lists of the mapped resources: segments of doubly linked nodes, the invariant that
  every resource's list runs through exactly its mappings, and the effect of each list operation.
\<close>

named_theorems vma_simps \<open>reading the tracking state after an update\<close>

section \<open>Reading and writing nodes\<close>

definition vma_maps_ok :: "'e VMATracking \<Rightarrow> bool" where
  "vma_maps_ok v \<longleftrightarrow> map_ok (VMAs v) \<and> map_ok (MappedResources v)"

definition put_vma :: "u64 \<Rightarrow> VMAEntry \<Rightarrow> 'e VMATracking \<Rightarrow> 'e VMATracking" where
  "put_vma k e v = v\<lparr>VMAs := map_assign k e (VMAs v)\<rparr>"

definition put_resource :: "MRID \<Rightarrow> 'e MappedResource \<Rightarrow> 'e VMATracking \<Rightarrow> 'e VMATracking" where
  "put_resource r res v = v\<lparr>MappedResources := map_assign r res (MappedResources v)\<rparr>"

lemma update_vma_eq [vma_simps]:
  "get_vma k v = Some e \<Longrightarrow> update_vma k f v = Some (put_vma k (f e) v)"
  by (simp add: update_vma_def put_vma_def)

lemma update_resource_eq [vma_simps]:
  "get_resource r v = Some res \<Longrightarrow> update_resource r f v = Some (put_resource r (f res) v)"
  by (simp add: update_resource_def put_resource_def)

lemma maps_ok_put [vma_simps]:
  "vma_maps_ok v \<Longrightarrow> vma_maps_ok (put_vma k e v)"
  "vma_maps_ok v \<Longrightarrow> vma_maps_ok (put_resource r res v)"
  by (simp_all add: vma_maps_ok_def put_vma_def put_resource_def map_ok_assign)

lemma get_put [vma_simps]:
  "vma_maps_ok v \<Longrightarrow> get_vma k (put_vma k' e v) = (if k = k' then Some e else get_vma k v)"
  "get_vma k (put_resource r res v) = get_vma k v"
  "get_resource r (put_vma k' e v) = get_resource r v"
  "vma_maps_ok v \<Longrightarrow> get_resource r (put_resource r' res v)
    = (if r = r' then Some res else get_resource r v)"
  by (simp_all add: vma_maps_ok_def get_vma_def put_vma_def get_resource_def put_resource_def
      std_map_simps)

lemma assert_simps [simp]: "assert True = Some ()" "assert False = None"
  by (simp_all add: assert_def)

lemma get_erase [vma_simps]:
  "vma_maps_ok v \<Longrightarrow> get_vma k (erase_vma k' v) = (if k = k' then None else get_vma k v)"
  "get_resource r (erase_vma k' v) = get_resource r v"
  "vma_maps_ok v \<Longrightarrow> vma_maps_ok (erase_vma k' v)"
  by (simp_all add: vma_maps_ok_def get_vma_def erase_vma_def get_resource_def std_map_simps)

lemma emplace_vma_eq [vma_simps]:
  "vma_maps_ok v \<Longrightarrow> get_vma k v = None \<Longrightarrow> emplace_vma k e v = Some (put_vma k e v)"
proof -
  have "map_of m k = None \<Longrightarrow> map_emplace k e m = map_assign k e m" for m :: "(u64, VMAEntry) std_map"
    by (induction k e m rule: map_emplace.induct) (auto split: if_splits)
  then show "vma_maps_ok v \<Longrightarrow> get_vma k v = None \<Longrightarrow> emplace_vma k e v = Some (put_vma k e v)"
    by (simp add: emplace_vma_def put_vma_def get_vma_def)
qed

section \<open>Doubly linked segments\<close>

definition hd_or :: "'a list \<Rightarrow> 'a option \<Rightarrow> 'a option" where
  "hd_or xs q = (case xs of [] \<Rightarrow> q | x # _ \<Rightarrow> Some x)"

definition last_or :: "'a option \<Rightarrow> 'a list \<Rightarrow> 'a option" where
  "last_or p xs = (if xs = [] then p else Some (last xs))"

lemma hd_or_simps [simp]:
  "hd_or [] q = q" "hd_or (x # xs) q = Some x" "hd_or (xs @ ys) q = hd_or xs (hd_or ys q)"
  by (simp_all add: hd_or_def split: list.split)

lemma last_or_simps [simp]:
  "last_or p [] = p" "last_or p (x # xs) = last_or (Some x) xs"
  "last_or p (xs @ ys) = last_or (last_or p xs) ys"
  by (simp_all add: last_or_def)

lemma hd_or_mem: "hd_or xs None = Some x \<Longrightarrow> x \<in> set xs"
  by (cases xs) auto

lemma last_or_mem: "last_or None xs = Some x \<Longrightarrow> x \<in> set xs"
  by (auto simp: last_or_def split: if_splits)

fun dseg :: "(u64 \<rightharpoonup> VMAEntry) \<Rightarrow> MRID \<Rightarrow> u64 option \<Rightarrow> u64 list \<Rightarrow> u64 option \<Rightarrow> bool" where
  "dseg m r p [] q = True"
| "dseg m r p (x # xs) q = ((case m x of None \<Rightarrow> False | Some e \<Rightarrow>
     Resource e = Some r \<and> ResourcePrevVMA e = p \<and> ResourceNextVMA e = hd_or xs q)
     \<and> dseg m r (Some x) xs q)"

lemma dseg_append:
  "dseg m r p (xs @ ys) q \<longleftrightarrow> dseg m r p xs (hd_or ys q) \<and> dseg m r (last_or p xs) ys q"
  by (induction xs arbitrary: p) (auto split: option.splits)

text \<open>A segment depends only on the links of its nodes.\<close>

definition same_links :: "VMAEntry option \<Rightarrow> VMAEntry option \<Rightarrow> bool" where
  "same_links e e' \<longleftrightarrow> map_option (\<lambda>e. (Resource e, ResourcePrevVMA e, ResourceNextVMA e)) e
     = map_option (\<lambda>e. (Resource e, ResourcePrevVMA e, ResourceNextVMA e)) e'"

lemma same_links_refl [simp]: "same_links e e"
  by (simp add: same_links_def)

lemma dseg_cong:
  assumes "\<And>x. x \<in> set xs \<Longrightarrow> same_links (m x) (m' x)"
  shows "dseg m r p xs q = dseg m' r p xs q"
  using assms
proof (induction xs arbitrary: p)
  case (Cons x xs)
  have "same_links (m x) (m' x)" using Cons.prems by simp
  then show ?case using Cons by (cases "m x"; cases "m' x") (auto simp: same_links_def)
qed simp

lemma dseg_upd_other [simp]: "x \<notin> set xs \<Longrightarrow> dseg (m(x := e)) r p xs q = dseg m r p xs q"
  by (rule dseg_cong) auto

lemma dseg_mem:
  assumes "dseg m r p (as @ x # bs) q"
  shows "\<exists>e. m x = Some e \<and> Resource e = Some r \<and> ResourcePrevVMA e = last_or p as
    \<and> ResourceNextVMA e = hd_or bs q"
  using assms by (auto simp: dseg_append split: option.splits)

lemma dseg_set_next:
  assumes "dseg m r p (as @ [a]) q" "a \<notin> set as" "m a = Some e"
  shows "dseg (m(a \<mapsto> e\<lparr>ResourceNextVMA := q'\<rparr>)) r p (as @ [a]) q'"
  using assms by (auto simp: dseg_append)

lemma dseg_set_prev:
  assumes "dseg m r p (b # bs) q" "b \<notin> set bs" "m b = Some e"
  shows "dseg (m(b \<mapsto> e\<lparr>ResourcePrevVMA := p'\<rparr>)) r p' (b # bs) q"
  using assms by auto

section \<open>The invariant of the lists\<close>

definition nodes_of :: "MRID \<Rightarrow> 'e VMATracking \<Rightarrow> u64 set" where
  "nodes_of r v = {k. \<exists>e. get_vma k v = Some e \<and> Resource e = Some r}"

definition list_ok :: "'e VMATracking \<Rightarrow> MRID \<Rightarrow> u64 list \<Rightarrow> bool" where
  "list_ok v r xs \<longleftrightarrow> distinct xs \<and> set xs = nodes_of r v
     \<and> dseg (\<lambda>k. get_vma k v) r None xs None
     \<and> (case get_resource r v of None \<Rightarrow> xs = [] | Some res \<Rightarrow> FirstVMA res = hd_or xs None)"

definition lists_ok :: "'e VMATracking \<Rightarrow> bool" where
  "lists_ok v \<longleftrightarrow> (\<forall>r. \<exists>xs. list_ok v r xs)"

lemma list_okI:
  assumes "distinct xs" "set xs = nodes_of r v" "dseg (\<lambda>k. get_vma k v) r None xs None"
    "map_option FirstVMA (get_resource r v) = Some (hd_or xs None)"
  shows "list_ok v r xs"
  using assms by (auto simp: list_ok_def)

text \<open>What the list operations keep of a node: everything but the links.\<close>

definition core :: "VMAEntry \<Rightarrow> VMAEntry" where
  "core e = e\<lparr>ResourcePrevVMA := None, ResourceNextVMA := None\<rparr>"

lemma core_links [simp]:
  "core (e\<lparr>ResourcePrevVMA := p\<rparr>) = core e" "core (e\<lparr>ResourceNextVMA := p\<rparr>) = core e"
  by (simp_all add: core_def)

lemma core_fields [simp]:
  "Resource (core e) = Resource e" "Base (core e) = Base e" "Offset (core e) = Offset e"
  "Length (core e) = Length e" "Flags (core e) = Flags e" "Prot (core e) = Prot e"
  by (simp_all add: core_def)

definition cmap :: "'e VMATracking \<Rightarrow> u64 \<rightharpoonup> VMAEntry" where
  "cmap v k = map_option core (get_vma k v)"

lemma nodes_of_cmap: "nodes_of r v = {k. \<exists>e. cmap v k = Some e \<and> Resource e = Some r}"
  by (auto simp: nodes_of_def cmap_def)

section \<open>Steps on one list\<close>

text \<open>
  A step on the list of \<open>r\<close>: only links of its nodes and the head pointer change; keys, the rest of
  every node, other lists and the unloaded entries stay.
\<close>

definition list_step :: "MRID \<Rightarrow> 'e VMATracking \<Rightarrow> 'e VMATracking \<Rightarrow> bool" where
  "list_step r v v' \<longleftrightarrow> vma_maps_ok v' \<and> map fst (VMAs v') = map fst (VMAs v) \<and> cmap v' = cmap v
     \<and> (\<forall>k. k \<notin> nodes_of r v \<longrightarrow> get_vma k v' = get_vma k v)
     \<and> (\<forall>r'. r' \<noteq> r \<longrightarrow> get_resource r' v' = get_resource r' v)
     \<and> map_option (\<lambda>res. res\<lparr>FirstVMA := None\<rparr>) (get_resource r v')
       = map_option (\<lambda>res. res\<lparr>FirstVMA := None\<rparr>) (get_resource r v)
     \<and> Unloaded v' = Unloaded v"

lemma list_step_refl: "vma_maps_ok v \<Longrightarrow> list_step r v v"
  by (simp add: list_step_def)

lemma list_step_nodes: "list_step r v v' \<Longrightarrow> nodes_of r' v' = nodes_of r' v"
  by (simp add: list_step_def nodes_of_cmap)

lemma list_step_trans: "list_step r v v' \<Longrightarrow> list_step r v' v'' \<Longrightarrow> list_step r v v''"
  using list_step_nodes [of r v v' r] by (simp add: list_step_def)

lemma map_assign_keys:
  "map_ok m \<Longrightarrow> map_of m k = Some e \<Longrightarrow> map fst (map_assign k e' m) = map fst m"
  by (induction k e' m rule: map_assign.induct) (auto split: if_splits)

lemma list_step_put_vma:
  assumes "vma_maps_ok v" "get_vma k v = Some e" "Resource e = Some r" "core e' = core e"
  shows "list_step r v (put_vma k e' v)"
proof -
  have "map fst (VMAs (put_vma k e' v)) = map fst (VMAs v)"
    using assms map_assign_keys [of "VMAs v" k e e'] by (simp add: put_vma_def get_vma_def vma_maps_ok_def)
  then show ?thesis
    using assms
    by (auto simp: list_step_def vma_simps cmap_def fun_eq_iff nodes_of_def) (simp add: put_vma_def)
qed

lemma list_step_put_resource:
  assumes "vma_maps_ok v" "get_resource r v = Some res"
  shows "list_step r v (put_resource r (res\<lparr>FirstVMA := f\<rparr>) v)"
  using assms
  by (auto simp: list_step_def vma_simps cmap_def fun_eq_iff) (simp_all add: put_resource_def)

text \<open>Other lists are not affected.\<close>

lemma list_ok_frame:
  assumes "list_ok v r' xs" "nodes_of r' v' = nodes_of r' v"
    "\<And>k. k \<in> nodes_of r' v \<Longrightarrow> same_links (get_vma k v') (get_vma k v)"
    "map_option FirstVMA (get_resource r' v') = map_option FirstVMA (get_resource r' v)"
  shows "list_ok v' r' xs"
proof -
  have "dseg (\<lambda>k. get_vma k v') r' None xs None"
    using assms(1,3) dseg_cong [of xs "\<lambda>k. get_vma k v'" "\<lambda>k. get_vma k v"]
    by (auto simp: list_ok_def)
  then show ?thesis
    using assms by (cases "get_resource r' v"; cases "get_resource r' v'") (auto simp: list_ok_def)
qed

lemma list_step_other:
  assumes "list_step r v v'" "r' \<noteq> r" "list_ok v r' xs"
  shows "list_ok v' r' xs"
proof (rule list_ok_frame [OF assms(3)])
  show "nodes_of r' v' = nodes_of r' v" by (rule list_step_nodes [OF assms(1)])
  show "same_links (get_vma k v') (get_vma k v)" if "k \<in> nodes_of r' v" for k
  proof -
    have "k \<notin> nodes_of r v" using that assms(2) by (auto simp: nodes_of_def)
    then show ?thesis using assms(1) by (simp add: list_step_def)
  qed
  show "map_option FirstVMA (get_resource r' v') = map_option FirstVMA (get_resource r' v)"
    using assms(1,2) by (simp add: list_step_def)
qed

text \<open>A node of a list, seen from the list.\<close>

lemma list_ok_node:
  assumes "list_ok v r (as @ k # bs)"
  obtains e res where "get_vma k v = Some e" "Resource e = Some r"
    "ResourcePrevVMA e = last_or None as" "ResourceNextVMA e = hd_or bs None"
    "get_resource r v = Some res" "FirstVMA res = hd_or as (Some k)"
proof -
  have "dseg (\<lambda>k. get_vma k v) r None (as @ k # bs) None" using assms by (simp add: list_ok_def)
  from dseg_mem [OF this] assms show thesis
    using that by (auto simp: list_ok_def split: option.splits)
qed

section \<open>Removing a node\<close>

lemma check_links:
  "get_vma k v = Some e \<Longrightarrow> ResourceNextVMA e \<noteq> Some k \<Longrightarrow> ResourcePrevVMA e \<noteq> Some k \<Longrightarrow>
   ListCheckVMALinks (Some k) v = Some ()"
  "ListCheckVMALinks None v = Some ()"
  by (simp_all add: ListCheckVMALinks_def assert_def)

text \<open>Redirecting the links of the neighbours, where there are any.\<close>

definition set_next :: "u64 option \<Rightarrow> u64 option \<Rightarrow> 'e VMATracking \<Rightarrow> 'e VMATracking" where
  "set_next p q v = (case p of None \<Rightarrow> v | Some k \<Rightarrow>
     (case get_vma k v of None \<Rightarrow> v | Some e \<Rightarrow> put_vma k (e\<lparr>ResourceNextVMA := q\<rparr>) v))"

definition set_prev :: "u64 option \<Rightarrow> u64 option \<Rightarrow> 'e VMATracking \<Rightarrow> 'e VMATracking" where
  "set_prev n q v = (case n of None \<Rightarrow> v | Some k \<Rightarrow>
     (case get_vma k v of None \<Rightarrow> v | Some e \<Rightarrow> put_vma k (e\<lparr>ResourcePrevVMA := q\<rparr>) v))"

definition set_first :: "MRID \<Rightarrow> u64 option \<Rightarrow> 'e VMATracking \<Rightarrow> 'e VMATracking" where
  "set_first r q v = (case get_resource r v of None \<Rightarrow> v
     | Some res \<Rightarrow> put_resource r (res\<lparr>FirstVMA := q\<rparr>) v)"

lemmas relink_defs = set_next_def set_prev_def set_first_def

lemma ListRemove_eq:
  assumes ok: "vma_maps_ok v" and list: "list_ok v r (as @ k # bs)"
  shows "ListRemove k v = Some (as = [] \<and> bs = [],
    (if as = [] then set_first r (hd_or bs None) else id)
      (set_prev (hd_or bs None) (last_or None as) (set_next (last_or None as) (hd_or bs None) v)))"
proof -
  obtain e res where e: "get_vma k v = Some e" "Resource e = Some r"
    "ResourcePrevVMA e = last_or None as" "ResourceNextVMA e = hd_or bs None"
    "get_resource r v = Some res" "FirstVMA res = hd_or as (Some k)"
    using list_ok_node [OF list] by blast
  have d: "k \<notin> set as" "k \<notin> set bs" "distinct as" "distinct bs" "set as \<inter> set bs = {}"
    using list by (auto simp: list_ok_def)
  have d2: "\<forall>x \<in> set as \<union> set bs. x \<noteq> k" using d by auto
  have first: "as \<noteq> [] \<Longrightarrow> hd_or as (Some k) \<noteq> Some k \<and> hd_or as (Some k) \<noteq> None"
    using d by (cases as) auto
  note [simp] = relink_defs vma_simps check_links
  show ?thesis
  proof (cases as rule: rev_cases)
    case Nil
    show ?thesis
    proof (cases bs)
      case Nil
      then show ?thesis using \<open>as = []\<close> ok e by (simp add: ListRemove_def)
    next
      case (Cons n bs')
      obtain ne where ne: "get_vma n v = Some ne" "Resource ne = Some r"
        "ResourcePrevVMA ne = Some k" "ResourceNextVMA ne = hd_or bs' None"
        using list_ok_node [of v r "[k]" n bs'] list \<open>as = []\<close> Cons by auto
      have "hd_or bs' None \<noteq> Some n" using d Cons hd_or_mem by fastforce
      then show ?thesis using \<open>as = []\<close> Cons ok e ne d d2 by (simp add: ListRemove_def)
    qed
  next
    case (snoc as' p)
    obtain pe where pe: "get_vma p v = Some pe" "Resource pe = Some r"
      "ResourcePrevVMA pe = last_or None as'" "ResourceNextVMA pe = Some k"
      using list_ok_node [of v r as' p "k # bs"] list snoc by auto
    have np: "last_or None as' \<noteq> Some p" using d snoc last_or_mem by fastforce
    show ?thesis
    proof (cases bs)
      case Nil
      then show ?thesis using snoc ok e pe np d d2 first by (simp add: ListRemove_def)
    next
      case (Cons n bs')
      obtain ne where ne: "get_vma n v = Some ne" "Resource ne = Some r"
        "ResourcePrevVMA ne = Some k" "ResourceNextVMA ne = hd_or bs' None"
        using list_ok_node [of v r "as @ [k]" n bs'] list Cons by auto
      have "hd_or bs' None \<noteq> Some n" "p \<noteq> n" using d snoc Cons hd_or_mem by fastforce+
      then show ?thesis using snoc Cons ok e pe ne np d d2 first by (simp add: ListRemove_def)
    qed
  qed
qed

text \<open>The effect of the redirections on the links as functions.\<close>

definition upd_next :: "u64 option \<Rightarrow> u64 option \<Rightarrow> (u64 \<rightharpoonup> VMAEntry) \<Rightarrow> u64 \<rightharpoonup> VMAEntry" where
  "upd_next p q m = (case p of None \<Rightarrow> m
     | Some k \<Rightarrow> m(k := map_option (\<lambda>e. e\<lparr>ResourceNextVMA := q\<rparr>) (m k)))"

definition upd_prev :: "u64 option \<Rightarrow> u64 option \<Rightarrow> (u64 \<rightharpoonup> VMAEntry) \<Rightarrow> u64 \<rightharpoonup> VMAEntry" where
  "upd_prev n q m = (case n of None \<Rightarrow> m
     | Some k \<Rightarrow> m(k := map_option (\<lambda>e. e\<lparr>ResourcePrevVMA := q\<rparr>) (m k)))"

lemma get_set_links [vma_simps]:
  "vma_maps_ok v \<Longrightarrow> (\<lambda>k. get_vma k (set_next p q v)) = upd_next p q (\<lambda>k. get_vma k v)"
  "vma_maps_ok v \<Longrightarrow> (\<lambda>k. get_vma k (set_prev p q v)) = upd_prev p q (\<lambda>k. get_vma k v)"
  "(\<lambda>k. get_vma k (set_first r q v)) = (\<lambda>k. get_vma k v)"
  by (auto simp: relink_defs upd_next_def upd_prev_def vma_simps fun_eq_iff split: option.splits)

lemma dseg_upd_next:
  assumes "dseg m r None as q" "distinct as"
  shows "dseg (upd_next (last_or None as) q' m) r None as q'"
proof (cases as rule: rev_cases)
  case (snoc as' a)
  then obtain e where "m a = Some e" using assms(1) by (auto simp: dseg_append split: option.splits)
  then show ?thesis using assms snoc dseg_set_next [of m r None as' a q e q']
    by (simp add: upd_next_def)
qed simp

lemma dseg_upd_prev:
  assumes "dseg m r p bs None" "distinct bs"
  shows "dseg (upd_prev (hd_or bs None) p' m) r p' bs None"
  using assms by (cases bs) (auto simp: upd_prev_def split: option.splits)

lemma dseg_upd_other_links:
  assumes "x \<notin> Some ` set xs"
  shows "dseg (upd_next x q m) r p xs s = dseg m r p xs s"
    and "dseg (upd_prev x q m) r p xs s = dseg m r p xs s"
proof -
  have "upd_next x q m k = m k \<and> upd_prev x q m k = m k" if "k \<in> set xs" for k
    using assms that by (cases x) (auto simp: upd_next_def upd_prev_def)
  then show "dseg (upd_next x q m) r p xs s = dseg m r p xs s"
    and "dseg (upd_prev x q m) r p xs s = dseg m r p xs s"
    by (auto intro!: dseg_cong)
qed

lemma hd_not_mem: "set bs \<inter> set as = {} \<Longrightarrow> hd_or bs None \<notin> Some ` set as"
  by (cases bs) auto

lemma last_not_mem: "set as \<inter> set bs = {} \<Longrightarrow> last_or None as \<notin> Some ` set bs"
  by (cases as rule: rev_cases) auto

text \<open>Two segments joined by redirecting the links at their ends.\<close>

lemma dseg_join:
  assumes "dseg m r None as q" "dseg m r p bs None" "distinct (as @ bs)"
  shows "dseg (upd_prev (hd_or bs None) (last_or None as) (upd_next (last_or None as) (hd_or bs None) m))
    r None (as @ bs) None"
proof -
  let ?m = "upd_next (last_or None as) (hd_or bs None) m"
  have "dseg ?m r None as (hd_or bs None)" using assms by (intro dseg_upd_next) auto
  moreover have "dseg ?m r p bs None"
    using assms(2,3) last_not_mem [of as bs] by (simp add: dseg_upd_other_links(1))
  ultimately show ?thesis
    using assms(3) dseg_upd_prev [of ?m r p bs "last_or None as"]
    by (simp add: dseg_append dseg_upd_other_links(2) hd_not_mem inf_commute)
qed

lemma list_step_links:
  assumes "vma_maps_ok v"
  shows "(\<And>k. p = Some k \<Longrightarrow> k \<in> nodes_of r v) \<Longrightarrow> list_step r v (set_next p q v)"
    "(\<And>k. p = Some k \<Longrightarrow> k \<in> nodes_of r v) \<Longrightarrow> list_step r v (set_prev p q v)"
    "list_step r v (set_first r q v)"
  using assms list_step_refl [OF assms]
  by (force simp: relink_defs nodes_of_def intro!: list_step_put_vma list_step_put_resource
      split: option.splits)+

lemma nodes_of_erase:
  "vma_maps_ok v \<Longrightarrow> nodes_of r (erase_vma k v) = nodes_of r v - {k}"
  by (auto simp: nodes_of_def vma_simps)

lemma list_ok_erase_other:
  assumes "vma_maps_ok v" "list_ok v r' xs" "k \<notin> nodes_of r' v"
  shows "list_ok (erase_vma k v) r' xs"
  by (rule list_ok_frame [OF assms(2)]) (use assms(1,3) in \<open>auto simp: nodes_of_erase vma_simps\<close>)

lemma lists_ok_split:
  assumes "lists_ok v" "get_vma k v = Some e" "Resource e = Some r"
  obtains as bs where "list_ok v r (as @ k # bs)"
proof -
  obtain xs where "list_ok v r xs" using assms(1) by (auto simp: lists_ok_def)
  moreover from this have "k \<in> set xs" using assms(2,3) by (auto simp: list_ok_def nodes_of_def)
  ultimately show thesis using that by (metis split_list)
qed

lemma get_resource_links [vma_simps]:
  "get_resource r (set_next p q v) = get_resource r v"
  "get_resource r (set_prev p q v) = get_resource r v"
  by (auto simp: relink_defs vma_simps split: option.splits)

lemma get_resource_first [vma_simps]:
  "vma_maps_ok v \<Longrightarrow> get_resource r (set_first r q v)
    = map_option (\<lambda>res. res\<lparr>FirstVMA := q\<rparr>) (get_resource r v)"
  by (auto simp: relink_defs vma_simps split: option.splits)

lemma list_step_ok: "list_step r v v' \<Longrightarrow> vma_maps_ok v'"
  by (simp add: list_step_def)

text \<open>Joining the parts of a list around a node, by redirecting both neighbours.\<close>

lemma list_step_join:
  assumes "vma_maps_ok v" "set as \<union> set bs \<subseteq> nodes_of r v"
  shows "list_step r v (set_prev (hd_or bs None) q (set_next (last_or None as) p v))"
proof -
  have 1: "list_step r v (set_next (last_or None as) p v)"
    using assms by (intro list_step_links) (auto dest!: last_or_mem)
  moreover have "list_step r (set_next (last_or None as) p v)
      (set_prev (hd_or bs None) q (set_next (last_or None as) p v))"
    using assms by (intro list_step_links list_step_ok [OF 1])
      (auto simp: list_step_nodes [OF 1] dest!: hd_or_mem)
  ultimately show ?thesis by (rule list_step_trans)
qed

lemma ListRemove_ok:
  assumes "vma_maps_ok v" "lists_ok v" "get_vma k v = Some e" "Resource e = Some r"
  shows "\<exists>v'. ListRemove k v = Some (nodes_of r v = {k}, v') \<and> list_step r v v'
    \<and> lists_ok (erase_vma k v')"
proof -
  obtain as bs where list: "list_ok v r (as @ k # bs)"
    using lists_ok_split [OF assms(2-4)] by blast
  then have nodes: "nodes_of r v = insert k (set as \<union> set bs)" and dist: "distinct (as @ k # bs)"
    by (auto simp: list_ok_def)
  let ?j = "set_prev (hd_or bs None) (last_or None as) (set_next (last_or None as) (hd_or bs None) v)"
  let ?v = "(if as = [] then set_first r (hd_or bs None) else id) ?j"
  have j: "list_step r v ?j" using nodes by (intro list_step_join [OF assms(1)]) auto
  have step: "list_step r v ?v"
    using j list_step_trans [OF j list_step_links(3) [OF list_step_ok [OF j], of r "hd_or bs None"]]
    by (cases "as = []") simp_all
  have maps: "vma_maps_ok ?v" by (rule list_step_ok [OF step])
  have gets: "(\<lambda>k. get_vma k ?v) = upd_prev (hd_or bs None) (last_or None as)
      (upd_next (last_or None as) (hd_or bs None) (\<lambda>k. get_vma k v))"
  proof -
    have "vma_maps_ok (set_next (last_or None as) (hd_or bs None) v)"
      using nodes by (intro list_step_ok [OF list_step_links(1)] assms(1)) (auto dest!: last_or_mem)
    then show ?thesis using assms(1) by (cases "as = []") (simp_all add: vma_simps)
  qed
  have "dseg (\<lambda>k. get_vma k v) r None as (Some k)"
    "dseg (\<lambda>k. get_vma k v) r (Some k) bs None"
    using list by (auto simp: list_ok_def dseg_append)
  then have "dseg (\<lambda>k. get_vma k ?v) r None (as @ bs) None"
    unfolding gets using dist by (intro dseg_join) auto
  then have seg: "dseg (\<lambda>x. get_vma x (erase_vma k ?v)) r None (as @ bs) None"
    using dist by (subst dseg_cong [where m' = "\<lambda>k. get_vma k ?v"]) (auto simp: get_erase maps)
  obtain res where res: "get_resource r v = Some res" "FirstVMA res = hd_or as (Some k)"
    using list_ok_node [OF list] by blast
  have "as \<noteq> [] \<Longrightarrow> hd_or as (Some k) = hd_or as (hd_or bs None)"
    by (cases as) auto
  then have "list_ok (erase_vma k ?v) r (as @ bs)"
    using seg dist res nodes maps list_step_ok [OF j]
    by (auto simp: list_ok_def nodes_of_erase list_step_nodes [OF step] vma_simps)
  moreover have "\<exists>xs. list_ok (erase_vma k ?v) r' xs" if "r' \<noteq> r" for r'
  proof -
    obtain xs where "list_ok v r' xs" using assms(2) by (auto simp: lists_ok_def)
    then have "list_ok ?v r' xs" by (rule list_step_other [OF step that])
    moreover have "k \<notin> nodes_of r' ?v"
      unfolding list_step_nodes [OF step] using that assms(3,4) by (simp add: nodes_of_def)
    ultimately show ?thesis using list_ok_erase_other [OF maps] by blast
  qed
  ultimately have "lists_ok (erase_vma k ?v)" unfolding lists_ok_def by metis
  moreover have "(as = [] \<and> bs = []) = (nodes_of r v = {k})"
    using nodes dist by (cases as; cases bs) auto
  ultimately show ?thesis
    using ListRemove_eq [OF assms(1) list] step by auto
qed

section \<open>Adding a node\<close>

text \<open>The self-link assertions hold on every node of a list.\<close>

lemma check_list:
  assumes "list_ok v r xs" "p = None \<or> p \<in> Some ` set xs"
  shows "ListCheckVMALinks p v = Some ()"
proof (cases p)
  case (Some k)
  then have "k \<in> set xs" using assms(2) by auto
  then obtain as bs where xs: "xs = as @ k # bs" by (metis split_list)
  then have "last_or None as \<noteq> Some k" "hd_or bs None \<noteq> Some k"
    using assms(1) by (auto simp: list_ok_def dest!: last_or_mem hd_or_mem)
  moreover obtain e where "get_vma k v = Some e" "ResourcePrevVMA e = last_or None as"
    "ResourceNextVMA e = hd_or bs None"
    using list_ok_node [of v r as k bs] assms(1) xs by blast
  ultimately show ?thesis using Some check_links(1) [of k v e] by simp
qed (simp add: check_links)

lemma nodes_of_put:
  assumes "vma_maps_ok v" "get_vma t v = None" "Resource ne = Some r"
  shows "nodes_of r' (put_vma t ne v) = (if r' = r then insert t (nodes_of r v) else nodes_of r' v)"
  using assms by (auto simp: nodes_of_def vma_simps)

lemma list_ok_put_other:
  assumes "vma_maps_ok v" "get_vma t v = None" "Resource ne = Some r" "r' \<noteq> r" "list_ok v r' xs"
  shows "list_ok (put_vma t ne v) r' xs"
proof (rule list_ok_frame [OF assms(5)])
  show "nodes_of r' (put_vma t ne v) = nodes_of r' v"
    using nodes_of_put [OF assms(1-3)] assms(4) by simp
  show "same_links (get_vma k (put_vma t ne v)) (get_vma k v)" if "k \<in> nodes_of r' v" for k
    using that assms(1,2) by (auto simp: nodes_of_def vma_simps)
qed (simp add: vma_simps)

text \<open>
  The common end of the three insertions: once the new list of \<open>r\<close> is in order, all lists are.
\<close>

lemma lists_ok_insert:
  assumes "vma_maps_ok v" "lists_ok v" "get_vma t v = None" "Resource ne = Some r"
    "list_step r (put_vma t ne v) v'" "list_ok v' r xs"
  shows "lists_ok v'"
  unfolding lists_ok_def
proof
  fix r'
  show "\<exists>xs. list_ok v' r' xs"
  proof (cases "r' = r")
    case False
    obtain ys where "list_ok v r' ys" using assms(2) by (auto simp: lists_ok_def)
    then have "list_ok (put_vma t ne v) r' ys"
      using list_ok_put_other [OF assms(1,3,4) False] by blast
    then show ?thesis using list_step_other [OF assms(5) False] by blast
  qed (use assms(6) in auto)
qed

lemma lists_ok_insert_erase:
  assumes "vma_maps_ok v" "lists_ok v" "get_vma t v = None" "Resource ne = Some r"
    "list_step r (put_vma t ne v) v'" "k \<in> nodes_of r (put_vma t ne v)"
    "list_ok (erase_vma k v') r xs"
  shows "lists_ok (erase_vma k v')"
  unfolding lists_ok_def
proof
  fix r'
  show "\<exists>xs. list_ok (erase_vma k v') r' xs"
  proof (cases "r' = r")
    case False
    obtain ys where "list_ok v r' ys" using assms(2) by (auto simp: lists_ok_def)
    then have "list_ok v' r' ys"
      using list_ok_put_other [OF assms(1,3,4) False] list_step_other [OF assms(5) False] by blast
    moreover have "k \<notin> nodes_of r' v'"
      using assms(6) False unfolding list_step_nodes [OF assms(5)] by (auto simp: nodes_of_def)
    ultimately show ?thesis
      using list_ok_erase_other [OF list_step_ok [OF assms(5)]] by blast
  qed (use assms(7) in auto)
qed

lemma ListInsertAfter_ok:
  assumes "vma_maps_ok v" "lists_ok v" "get_vma k v = Some e" "Resource e = Some r"
    "get_vma t v = None" "Resource ne = Some r" "ResourcePrevVMA ne = Some k"
    "ResourceNextVMA ne = ResourceNextVMA e"
  shows "\<exists>v'. ListInsertAfter k t (put_vma t ne v) = Some v'
    \<and> list_step r (put_vma t ne v) v' \<and> lists_ok v'"
proof -
  obtain as bs where list: "list_ok v r (as @ k # bs)"
    using lists_ok_split [OF assms(2-4)] by blast
  then have nodes: "nodes_of r v = insert k (set as \<union> set bs)" and dist: "distinct (as @ k # bs)"
    by (auto simp: list_ok_def)
  have "t \<notin> nodes_of r v" using assms(5) by (simp add: nodes_of_def)
  with nodes have fresh: "t \<noteq> k" "k \<noteq> t" "t \<notin> set as" "t \<notin> set bs" by auto
  have links: "ResourcePrevVMA e = last_or None as" "ResourceNextVMA e = hd_or bs None"
    using list_ok_node [OF list] assms(3) by auto
  let ?u = "put_vma t ne v"
  let ?p = "set_prev (hd_or bs None) (Some t) ?u"
  let ?v = "set_next (Some k) (Some t) ?p"
  have u: "vma_maps_ok ?u" using assms(1) by (simp add: vma_simps)
  have nu: "nodes_of r ?u = insert t (insert k (set as \<union> set bs))"
    using nodes_of_put [OF assms(1,5,6), of r] nodes by simp
  have sp: "list_step r ?u ?p"
    using nu by (intro list_step_links u) (auto dest!: hd_or_mem)
  have step: "list_step r ?u ?v"
    by (rule list_step_trans [OF sp list_step_links(1)])
      (auto simp: list_step_ok [OF sp] list_step_nodes [OF sp] nu)
  have gets: "(\<lambda>x. get_vma x ?v) = upd_next (Some k) (Some t)
      (upd_prev (hd_or bs None) (Some t) ((\<lambda>x. get_vma x v)(t \<mapsto> ne)))"
    using u list_step_ok [OF sp] assms(1) by (simp add: vma_simps fun_upd_def)
  have new: "list_ok ?v r (as @ k # t # bs)"
  proof -
    let ?m = "\<lambda>x. get_vma x v"
    have seg: "dseg ?m r None (as @ [k]) (hd_or bs None)" "dseg ?m r (Some k) bs None"
      using list assms(3) by (simp_all add: list_ok_def dseg_append)
    have a: "dseg (\<lambda>x. get_vma x ?v) r None (as @ [k]) (Some t)"
    proof -
      have "dseg (upd_prev (hd_or bs None) (Some t) (?m(t \<mapsto> ne))) r None (as @ [k]) (hd_or bs None)"
        using seg(1) dist fresh hd_not_mem [of bs "as @ [k]"]
        by (subst dseg_upd_other_links) auto
      from dseg_upd_next [OF this, of "Some t"] show ?thesis unfolding gets using dist by simp
    qed
    have b: "dseg (\<lambda>x. get_vma x ?v) r (Some t) bs None"
    proof -
      have "dseg (upd_prev (hd_or bs None) (Some t) (?m(t \<mapsto> ne))) r (Some t) bs None"
        using seg(2) dist fresh by (intro dseg_upd_prev) auto
      then show ?thesis unfolding gets using dist by (subst dseg_upd_other_links) auto
    qed
    have "get_vma t ?v = Some ne"
      unfolding gets [THEN fun_cong] using fresh hd_or_mem [of bs t]
      by (auto simp: upd_next_def upd_prev_def split: option.splits)
    then have "dseg (\<lambda>x. get_vma x ?v) r None ((as @ [k]) @ t # bs) None"
      using a b assms(6-8) links by (subst dseg_append) simp
    moreover obtain res where "get_resource r v = Some res" "FirstVMA res = hd_or as (Some k)"
      using list_ok_node [OF list] by blast
    ultimately show ?thesis
      using dist fresh nu list_step_nodes [OF step, of r] by (auto simp: list_ok_def vma_simps)
  qed
  have chk: "ListCheckVMALinks (Some k) ?v = Some ()" "ListCheckVMALinks (Some t) ?v = Some ()"
    "ListCheckVMALinks (last_or None as) ?v = Some ()"
    using check_list [OF new] last_or_mem [of as] by (cases "last_or None as"; auto)+
  have "ListInsertAfter k t ?u = Some ?v"
  proof (cases bs)
    case Nil
    then show ?thesis
      using assms fresh links chk
      by (simp add: ListInsertAfter_def vma_simps relink_defs)
  next
    case (Cons n bs')
    obtain xe where "get_vma n v = Some xe" "ResourcePrevVMA xe = Some k"
      using list_ok_node [of v r "as @ [k]" n bs'] list Cons by auto
    moreover have "n \<noteq> k" "n \<noteq> t" using dist Cons fresh by auto
    ultimately show ?thesis
      using assms fresh links Cons chk
      by (simp add: ListInsertAfter_def vma_simps relink_defs)
  qed
  with new show ?thesis
    using lists_ok_insert [OF assms(1,2,5,6) step] step by blast
qed

lemma ListReplace_ok:
  assumes "vma_maps_ok v" "lists_ok v" "get_vma k v = Some e" "Resource e = Some r"
    "get_vma t v = None" "Resource ne = Some r" "ResourcePrevVMA ne = ResourcePrevVMA e"
    "ResourceNextVMA ne = ResourceNextVMA e"
  shows "\<exists>v'. ListReplace k t (put_vma t ne v) = Some v'
    \<and> list_step r (put_vma t ne v) v' \<and> lists_ok (erase_vma k v')"
proof -
  obtain as bs where list: "list_ok v r (as @ k # bs)"
    using lists_ok_split [OF assms(2-4)] by blast
  then have nodes: "nodes_of r v = insert k (set as \<union> set bs)" and dist: "distinct (as @ k # bs)"
    by (auto simp: list_ok_def)
  have "t \<notin> nodes_of r v" using assms(5) by (simp add: nodes_of_def)
  with nodes have fresh: "t \<noteq> k" "k \<noteq> t" "t \<notin> set as" "t \<notin> set bs" by auto
  obtain res where links: "ResourcePrevVMA e = last_or None as" "ResourceNextVMA e = hd_or bs None"
    and res: "get_resource r v = Some res" "FirstVMA res = hd_or as (Some k)"
    using list_ok_node [OF list] assms(3) by auto
  let ?u = "put_vma t ne v"
  let ?j = "set_next (last_or None as) (Some t) ?u"
  let ?w = "(if as = [] then set_first r (Some t) else id) ?j"
  let ?v = "set_prev (hd_or bs None) (Some t) ?w"
  have u: "vma_maps_ok ?u" using assms(1) by (simp add: vma_simps)
  have nu: "nodes_of r ?u = insert t (insert k (set as \<union> set bs))"
    using nodes_of_put [OF assms(1,5,6), of r] nodes by simp
  have j: "list_step r ?u ?j"
    using nu by (intro list_step_links u) (auto dest!: last_or_mem)
  have w: "list_step r ?u ?w"
    using j list_step_trans [OF j list_step_links(3) [OF list_step_ok [OF j], of r "Some t"]]
    by (cases "as = []") simp_all
  have step: "list_step r ?u ?v"
    using nu by (intro list_step_trans [OF w list_step_links(2)] list_step_ok [OF w])
      (auto simp only: list_step_nodes [OF w] dest!: hd_or_mem)
  have maps: "vma_maps_ok ?v" by (rule list_step_ok [OF step])
  have gets: "(\<lambda>x. get_vma x ?v) = upd_prev (hd_or bs None) (Some t)
      (upd_next (last_or None as) (Some t) ((\<lambda>x. get_vma x v)(t \<mapsto> ne)))"
    using u list_step_ok [OF w] assms(1)
    by (cases "as = []") (simp_all add: vma_simps fun_upd_def)
  have new: "list_ok (erase_vma k ?v) r (as @ t # bs)"
  proof -
    let ?m = "\<lambda>x. get_vma x v"
    have seg: "dseg ?m r None as (Some k)" "dseg ?m r (Some k) bs None"
      using list assms(3) by (simp_all add: list_ok_def dseg_append)
    have a: "dseg (\<lambda>x. get_vma x ?v) r None as (Some t)"
      unfolding gets using seg(1) dist fresh hd_not_mem [of bs as]
      by (subst dseg_upd_other_links) (auto intro!: dseg_upd_next simp: inf_commute)
    have b: "dseg (\<lambda>x. get_vma x ?v) r (Some t) bs None"
      unfolding gets using seg(2) dist fresh last_not_mem [of as bs]
      by (intro dseg_upd_prev [where p = "Some k"]) (auto simp: dseg_upd_other_links)
    have "get_vma t ?v = Some ne"
      unfolding gets [THEN fun_cong] using fresh hd_or_mem [of bs t] last_or_mem [of as t]
      by (auto simp: upd_next_def upd_prev_def split: option.splits)
    then have "dseg (\<lambda>x. get_vma x ?v) r None (as @ t # bs) None"
      using a b assms(6-8) links by (subst dseg_append) simp
    then have "dseg (\<lambda>x. get_vma x (erase_vma k ?v)) r None (as @ t # bs) None"
      using dist fresh by (subst dseg_cong [where m' = "\<lambda>k. get_vma k ?v"]) (auto simp: get_erase maps)
    moreover have "map_option FirstVMA (get_resource r ?v) = Some (hd_or as (Some t))"
      using res list_step_ok [OF j] by (cases as) (auto simp: vma_simps)
    moreover have "set (as @ t # bs) = nodes_of r (erase_vma k ?v)"
      unfolding nodes_of_erase [OF maps] list_step_nodes [OF step] nu using dist fresh by auto
    ultimately show ?thesis
      using dist fresh by (intro list_okI) (auto simp only: get_erase, simp_all)
  qed
  have chk: "ListCheckVMALinks p ?v = Some ()" if "p = None \<or> p \<in> Some ` set (as @ t # bs)" for p
  proof (cases p)
    case (Some x)
    then have "x \<noteq> k" using that dist fresh by auto
    then have "get_vma x (erase_vma k ?v) = get_vma x ?v" by (simp add: get_erase maps)
    then show ?thesis
      using check_list [OF new that] Some by (simp add: ListCheckVMALinks_def)
  qed (simp add: check_links)
  have get_k: "get_vma k ?v = Some e"
    unfolding gets [THEN fun_cong] using fresh assms(3) dist hd_or_mem [of bs k] last_or_mem [of as k]
    by (auto simp: upd_next_def upd_prev_def split: option.splits)
  have "last_or None as \<noteq> Some k" "hd_or bs None \<noteq> Some k"
    using dist by (auto dest!: last_or_mem hd_or_mem)
  then have chk_k: "ListCheckVMALinks (Some k) ?v = Some ()"
    using get_k links by (simp add: check_links)
  have chks: "ListCheckVMALinks (Some t) ?v = Some ()" "ListCheckVMALinks (hd_or bs None) ?v = Some ()"
    "ListCheckVMALinks (last_or None as) ?v = Some ()"
    using hd_or_mem [of bs] last_or_mem [of as]
    by (intro chk; cases "last_or None as"; cases "hd_or bs None"; auto)+
  have "ListReplace k t ?u = Some ?v"
  proof (cases as rule: rev_cases)
    case Nil
    show ?thesis
    proof (cases bs)
      case Nil
      then show ?thesis
        using \<open>as = []\<close> assms fresh links res chks chk_k
        by (simp add: ListReplace_def vma_simps relink_defs)
    next
      case (Cons n bs')
      obtain xe where "get_vma n v = Some xe" "ResourcePrevVMA xe = Some k"
        using list_ok_node [of v r "as @ [k]" n bs'] list Cons by auto
      moreover have "n \<noteq> k" "k \<noteq> n" "n \<noteq> t" using dist Cons fresh by auto
      ultimately show ?thesis
        using \<open>as = []\<close> assms fresh links res chks chk_k Cons
        by (simp add: ListReplace_def vma_simps relink_defs)
    qed
  next
    case (snoc as' p)
    obtain pe where pe: "get_vma p v = Some pe" "ResourceNextVMA pe = Some k"
      using list_ok_node [of v r as' p "k # bs"] list snoc by auto
    have ne: "p \<noteq> k" "k \<noteq> p" "p \<noteq> t" "hd_or as' (Some p) \<noteq> Some k"
      using dist snoc fresh by (cases as'; auto)+
    show ?thesis
    proof (cases bs)
      case Nil
      then show ?thesis
        using snoc assms fresh links res chks chk_k pe ne
        by (simp add: ListReplace_def vma_simps relink_defs)
    next
      case (Cons n bs')
      obtain xe where "get_vma n v = Some xe" "ResourcePrevVMA xe = Some k"
        using list_ok_node [of v r "as @ [k]" n bs'] list Cons by auto
      moreover have "n \<noteq> k" "k \<noteq> n" "n \<noteq> t" "n \<noteq> p" using dist Cons fresh snoc by auto
      ultimately show ?thesis
        using snoc assms fresh links res chks chk_k pe ne Cons
        by (simp add: ListReplace_def vma_simps relink_defs)
    qed
  qed
  moreover have "lists_ok (erase_vma k ?v)"
    by (rule lists_ok_insert_erase [OF assms(1,2,5,6) step _ new]) (auto simp: nu)
  ultimately show ?thesis using step by blast
qed

lemma ListPrepend_ok:
  assumes "vma_maps_ok v" "lists_ok v" "get_resource r v = Some res" "get_vma t v = None"
    "Resource ne = Some r" "ResourcePrevVMA ne = None" "ResourceNextVMA ne = FirstVMA res"
  shows "\<exists>v'. ListPrepend r t (put_vma t ne v) = Some v'
    \<and> list_step r (put_vma t ne v) v' \<and> lists_ok v'"
proof -
  obtain xs where list: "list_ok v r xs" using assms(2) by (auto simp: lists_ok_def)
  have nodes: "nodes_of r v = set xs" "FirstVMA res = hd_or xs None" and dist: "distinct xs"
    using list assms(3) by (auto simp: list_ok_def)
  have "t \<notin> nodes_of r v" using assms(4) by (simp add: nodes_of_def)
  then have fresh: "t \<notin> set xs" using nodes by simp
  let ?u = "put_vma t ne v"
  let ?p = "set_prev (hd_or xs None) (Some t) ?u"
  let ?v = "set_first r (Some t) ?p"
  have u: "vma_maps_ok ?u" using assms(1) by (simp add: vma_simps)
  have nu: "nodes_of r ?u = insert t (set xs)"
    using nodes_of_put [OF assms(1,4,5), of r] nodes by simp
  have sp: "list_step r ?u ?p"
    using nu by (intro list_step_links u) (auto dest!: hd_or_mem)
  have step: "list_step r ?u ?v"
    by (rule list_step_trans [OF sp list_step_links(3) [OF list_step_ok [OF sp]]])
  have gets: "(\<lambda>x. get_vma x ?v) = upd_prev (hd_or xs None) (Some t) ((\<lambda>x. get_vma x v)(t \<mapsto> ne))"
    using u assms(1) by (simp add: vma_simps fun_upd_def)
  have new: "list_ok ?v r (t # xs)"
  proof -
    have "dseg (\<lambda>x. get_vma x v) r None xs None" using list by (simp add: list_ok_def)
    then have "dseg (\<lambda>x. get_vma x ?v) r (Some t) xs None"
      unfolding gets using fresh dist by (intro dseg_upd_prev [where p = None]) auto
    moreover have "get_vma t ?v = Some ne"
      unfolding gets [THEN fun_cong] using fresh hd_or_mem [of xs t]
      by (auto simp: upd_prev_def split: option.splits)
    ultimately have "dseg (\<lambda>x. get_vma x ?v) r None (t # xs) None"
      using assms(5-7) nodes by simp
    then show ?thesis
      using fresh dist nu list_step_nodes [OF step] assms(3) list_step_ok [OF sp]
      by (intro list_okI) (simp_all add: vma_simps)
  qed
  have chk: "ListCheckVMALinks (Some t) ?v = Some ()" "ListCheckVMALinks (hd_or xs None) ?v = Some ()"
    using check_list [OF new] hd_or_mem [of xs] by (cases "hd_or xs None"; auto)+
  have "ListPrepend r t ?u = Some ?v"
  proof (cases xs)
    case Nil
    then show ?thesis
      using assms nodes chk by (simp add: ListPrepend_def vma_simps relink_defs check_links(2))
  next
    case (Cons f xs')
    obtain fe where "get_vma f v = Some fe" "ResourcePrevVMA fe = None"
      using list_ok_node [of v r "[]" f xs'] list Cons by auto
    moreover have "f \<noteq> t" using fresh Cons by auto
    ultimately show ?thesis
      using assms nodes chk Cons
      by (simp add: ListPrepend_def vma_simps relink_defs check_links(2))
  qed
  with new show ?thesis using lists_ok_insert [OF assms(1,2,4,5) step] step by blast
qed

text \<open>Changing a node outside its links, or a node without a resource, keeps every list.\<close>

lemma lists_ok_same_links:
  assumes "vma_maps_ok v" "lists_ok v" "same_links (get_vma k v) (Some e)"
  shows "lists_ok (put_vma k e v)"
  unfolding lists_ok_def
proof
  fix r
  obtain xs where "list_ok v r xs" using assms(2) by (auto simp: lists_ok_def)
  then have "list_ok (put_vma k e v) r xs"
  proof (rule list_ok_frame)
    show "nodes_of r (put_vma k e v) = nodes_of r v"
      using assms(1,3) by (auto simp: nodes_of_def vma_simps same_links_def split: if_splits)
    show "same_links (get_vma x (put_vma k e v)) (get_vma x v)" for x
      using assms(1,3) by (auto simp: vma_simps same_links_def)
  qed (simp add: vma_simps)
  then show "\<exists>xs. list_ok (put_vma k e v) r xs" by blast
qed

lemma lists_ok_unlisted:
  assumes "vma_maps_ok v" "lists_ok v" "\<And>e. get_vma k v = Some e \<Longrightarrow> Resource e = None"
  shows "Resource e = None \<Longrightarrow> lists_ok (put_vma k e v)" and "lists_ok (erase_vma k v)"
proof -
  have notin: "k \<notin> nodes_of r v" for r using assms(3) by (auto simp: nodes_of_def)
  show "lists_ok (erase_vma k v)"
    unfolding lists_ok_def
    using assms(2) list_ok_erase_other [OF assms(1) _ notin] unfolding lists_ok_def by metis
  assume e: "Resource e = None"
  have "list_ok (put_vma k e v) r xs" if "list_ok v r xs" for r xs
  proof (rule list_ok_frame [OF that])
    show "nodes_of r (put_vma k e v) = nodes_of r v"
      using assms(1) e notin [of r] by (auto simp: nodes_of_def vma_simps split: if_splits)
    show "same_links (get_vma x (put_vma k e v)) (get_vma x v)" if "x \<in> nodes_of r v" for x
      using that notin [of r] assms(1) by (auto simp: vma_simps)
  qed (simp add: vma_simps)
  then show "lists_ok (put_vma k e v)" using assms(2) unfolding lists_ok_def by metis
qed

end
