(* ===== verification/VMA_Props.thy ===== *)
theory VMA_Props
  imports VMA_Lists
begin

text \<open>
  The mappings as a partial function on guest addresses, and the proof that clearing, setting and
  changing ranges acts on it address by address, keeping the mappings disjoint and every
  resource list in order.
\<close>

section \<open>Spans\<close>

definition map_end :: "VMAEntry \<Rightarrow> nat" where
  "map_end e = unat (Base e) + unat (Length e)"

definition covers :: "VMAEntry \<Rightarrow> u64 \<Rightarrow> bool" where
  "covers e a \<longleftrightarrow> unat (Base e) \<le> unat a \<and> unat a < map_end e"

type_synonym mapping = "MRID option \<times> u64 \<times> VMAFlags \<times> VMAProt"

text \<open>What a mapping says about an address: the resource, the offset in it, flags and protection.\<close>

definition desc :: "VMAEntry \<Rightarrow> u64 \<Rightarrow> mapping" where
  "desc e a = (Resource e, Offset e + (a - Base e), Flags e, Prot e)"

definition spans_ok :: "(u64 \<rightharpoonup> VMAEntry) \<Rightarrow> bool" where
  "spans_ok m \<longleftrightarrow> (\<forall>k e. m k = Some e \<longrightarrow> Base e = k \<and> Length e \<noteq> 0 \<and> map_end e < 2 ^ 64)
     \<and> (\<forall>k e k' e'. m k = Some e \<longrightarrow> m k' = Some e' \<longrightarrow> k < k' \<longrightarrow> map_end e \<le> unat k')"

definition cview :: "(u64 \<rightharpoonup> VMAEntry) \<Rightarrow> u64 \<Rightarrow> mapping \<Rightarrow> bool" where
  "cview m a d \<longleftrightarrow> (\<exists>k e. m k = Some e \<and> covers e a \<and> d = desc e a)"

lemma covers_core [simp]: "covers (core e) a = covers e a" "map_end (core e) = map_end e"
  "desc (core e) a = desc e a"
  by (simp_all add: covers_def map_end_def desc_def)

lemma spansD:
  assumes "spans_ok m" "m k = Some e"
  shows "Base e = k" "Length e \<noteq> 0" "map_end e < 2 ^ 64"
    and "m k' = Some e' \<Longrightarrow> k < k' \<Longrightarrow> map_end e \<le> unat k'"
  using assms unfolding spans_ok_def by blast+

lemma spans_unique:
  assumes "spans_ok m" "m k = Some e" "m k' = Some e'" "covers e a" "covers e' a"
  shows "k = k'"
proof (rule ccontr)
  assume "k \<noteq> k'"
  then consider "k < k'" | "k' < k" by fastforce
  then show False
  proof cases
    case 1
    then show False
      using spansD(4) [OF assms(1-3)] spansD(1) [OF assms(1,3)] assms(4,5) by (simp add: covers_def)
  next
    case 2
    then show False
      using spansD(4) [OF assms(1,3,2)] spansD(1) [OF assms(1,2)] assms(4,5) by (simp add: covers_def)
  qed
qed

lemma cview_unique:
  assumes "spans_ok m" "cview m a d" "cview m a d'"
  shows "d = d'"
  using assms spans_unique unfolding cview_def by (metis option.inject)

section \<open>Cutting one mapping\<close>

definition trailing :: "u64 \<Rightarrow> VMAEntry \<Rightarrow> VMAEntry" where
  "trailing T e = e\<lparr>Base := T, Offset := Offset e - Base e + T,
     Length := Base e + Length e - T\<rparr>"

definition clear_entry :: "u64 \<Rightarrow> u64 \<Rightarrow> u64 \<Rightarrow> VMAEntry \<Rightarrow> (u64 \<rightharpoonup> VMAEntry) \<Rightarrow> u64 \<rightharpoonup> VMAEntry" where
  "clear_entry B T k e m =
     (let m = m(k := if k < B then Some (e\<lparr>Length := B - k\<rparr>) else None)
      in if T < Base e + Length e then m(T \<mapsto> trailing T e) else m)"

lemma map_end_word:
  assumes "map_end e < 2 ^ 64"
  shows "unat (Base e + Length e) = map_end e"
  using assms by (simp add: map_end_def unat_word_ariths)

lemma unat_minus: "x \<le> y \<Longrightarrow> unat (y - x) = unat y - unat (x :: u64)"
  by (simp add: unat_sub_if_size word_le_nat_alt)

lemma clear_entry_parts:
  assumes "spans_ok m" "m k = Some e" "k < T" "unat B < map_end e"
  shows "k < B \<Longrightarrow> map_end (e\<lparr>Length := B - k\<rparr>) = unat B \<and> B - k \<noteq> 0"
    and "T < Base e + Length e \<Longrightarrow> map_end (trailing T e) = map_end e \<and> Length (trailing T e) \<noteq> 0"
    and "T < Base e + Length e \<Longrightarrow> m T = None"
proof -
  have e: "Base e = k" "map_end e < 2 ^ 64" "Length e \<noteq> 0"
    using spansD [OF assms(1,2)] by auto
  note we = map_end_word [OF e(2)]
  show "k < B \<Longrightarrow> map_end (e\<lparr>Length := B - k\<rparr>) = unat B \<and> B - k \<noteq> 0"
    using e by (auto simp: map_end_def unat_minus order.strict_implies_order word_less_nat_alt)
  assume T: "T < Base e + Length e"
  then have "unat T < map_end e" using we by (simp add: word_less_nat_alt)
  then show "map_end (trailing T e) = map_end e \<and> Length (trailing T e) \<noteq> 0"
    using T we by (simp add: trailing_def map_end_def unat_minus)
  show "m T = None"
  proof (rule ccontr)
    assume "m T \<noteq> None"
    then obtain e' where "m T = Some e'" by auto
    then have "map_end e \<le> unat T" using spansD(4) [OF assms(1,2)] assms(3) by blast
    with \<open>unat T < map_end e\<close> show False by simp
  qed
qed

text \<open>
  Cutting spans into parts keeps them disjoint, when every new span lies in an old one and the
  parts of one old span are disjoint.
\<close>

lemma spans_refine:
  assumes "spans_ok m"
    and parent: "\<And>k e. m' k = Some e \<Longrightarrow> Base e = k \<and> Length e \<noteq> 0
      \<and> m (par k) = Some (orig k) \<and> unat (par k) \<le> unat k \<and> map_end e \<le> map_end (orig k)"
    and parts: "\<And>k e k' e'. m' k = Some e \<Longrightarrow> m' k' = Some e' \<Longrightarrow> k < k' \<Longrightarrow> par k = par k' \<Longrightarrow>
      map_end e \<le> unat k'"
  shows "spans_ok m'"
  unfolding spans_ok_def
proof (intro conjI allI impI)
  fix k e
  assume m: "m' k = Some e"
  show "Base e = k" "Length e \<noteq> 0" using parent [OF m] by auto
  show "map_end e < 2 ^ 64"
    using parent [OF m] spansD(3) [OF assms(1), of "par k" "orig k"] by linarith
  fix k' e'
  assume m': "m' k' = Some e'" and lt: "k < k'"
  note P = parent [OF m] and P' = parent [OF m']
  show "map_end e \<le> unat k'"
  proof (rule linorder_cases [of "par k" "par k'"])
    assume "par k < par k'"
    then have "map_end (orig k) \<le> unat (par k')"
      using spansD(4) [OF assms(1), of "par k" "orig k" "par k'" "orig k'"] P P' by blast
    then show ?thesis using P P' by linarith
  next
    assume "par k' < par k"
    then have "map_end (orig k') \<le> unat (par k)"
      using spansD(4) [OF assms(1), of "par k'" "orig k'" "par k" "orig k"] P P' by blast
    moreover have "unat k' < map_end e'"
      using P' by (simp add: map_end_def) (metis unat_gt_0)
    ultimately have False using P P' lt by (simp add: word_less_nat_alt)
    then show ?thesis ..
  qed (rule parts [OF m m' lt])
qed

lemma clear_entry_spans:
  assumes "spans_ok m" "m k = Some e" "k < T" "unat B < map_end e" "B \<le> T"
  shows "spans_ok (clear_entry B T k e m)"
proof -
  note e = spansD [OF assms(1,2)] and parts = clear_entry_parts [OF assms(1-4)]
  let ?par = "\<lambda>x. if x = T \<and> T < Base e + Length e then k else x"
  let ?orig = "\<lambda>x. the (m (?par x))"
  have bounds: "unat B \<le> unat T" "unat k < unat T" using assms(3,5) by (simp_all add: word_le_nat_alt word_less_nat_alt)
  show ?thesis
  proof (rule spans_refine [OF assms(1), where par = ?par and orig = ?orig])
    fix k' e'
    assume k': "clear_entry B T k e m k' = Some e'"
    show "Base e' = k' \<and> Length e' \<noteq> 0 \<and> m (?par k') = Some (?orig k')
        \<and> unat (?par k') \<le> unat k' \<and> map_end e' \<le> map_end (?orig k')"
    proof (cases "k' = T \<and> T < Base e + Length e")
      case True
      then have "e' = trailing T e" using k' by (simp add: clear_entry_def Let_def)
      then show ?thesis using True parts(2) assms(2) bounds by (simp add: trailing_def)
    next
      case other: False
      show ?thesis
      proof (cases "k' = k")
        case True
        then have "k < B" "e' = e\<lparr>Length := B - k\<rparr>"
          using k' other by (auto simp: clear_entry_def Let_def split: if_splits)
        then show ?thesis using True parts(1) other assms(2,4) e(1) by auto
      next
        case False
        then have "m k' = Some e'"
          using k' other by (auto simp: clear_entry_def Let_def split: if_splits)
        then show ?thesis using spansD [OF assms(1), of k' e'] other by auto
      qed
    qed
  next
    fix k1 e1 k2 e2
    assume m1: "clear_entry B T k e m k1 = Some e1" and m2: "clear_entry B T k e m k2 = Some e2"
      and lt: "k1 < k2" and par: "?par k1 = ?par k2"
    then have "k1 = k" "k2 = T" "T < Base e + Length e" using assms(3) by (auto split: if_splits)
    then have "k < B" "e1 = e\<lparr>Length := B - k\<rparr>"
      using m1 assms(3) by (auto simp: clear_entry_def Let_def split: if_splits)
    then show "map_end e1 \<le> unat k2" using parts(1) bounds \<open>k2 = T\<close> by simp
  qed
qed

lemma clear_entry_covers:
  assumes "spans_ok m" "m k = Some e" "k < T" "unat B < map_end e" "B \<le> T"
  shows "k < B \<Longrightarrow> covers (e\<lparr>Length := B - k\<rparr>) a \<longleftrightarrow> covers e a \<and> a < B"
    and "T < Base e + Length e \<Longrightarrow> covers (trailing T e) a \<longleftrightarrow> covers e a \<and> T \<le> a"
    and "\<not> k < B \<Longrightarrow> covers e a \<Longrightarrow> B \<le> a"
    and "\<not> T < Base e + Length e \<Longrightarrow> covers e a \<Longrightarrow> a < T"
proof -
  note e = spansD [OF assms(1,2)] and parts = clear_entry_parts [OF assms(1-4)]
  have bounds: "unat B \<le> unat T" "unat k < unat T"
    using assms(3,5) by (simp_all add: word_le_nat_alt word_less_nat_alt)
  show "covers (e\<lparr>Length := B - k\<rparr>) a \<longleftrightarrow> covers e a \<and> a < B" if "k < B"
    using parts(1) [OF that] assms(4) e(1) by (auto simp: covers_def word_less_nat_alt)
  show "covers (trailing T e) a \<longleftrightarrow> covers e a \<and> T \<le> a" if "T < Base e + Length e"
    using parts(2) [OF that] bounds e(1)
    by (auto simp: covers_def word_le_nat_alt trailing_def [of T e, THEN arg_cong [where f = Base]])
  show "B \<le> a" if "\<not> k < B" "covers e a"
    using that e(1) by (auto simp: covers_def word_le_nat_alt word_less_nat_alt)
  show "a < T" if "\<not> T < Base e + Length e" "covers e a"
    using that map_end_word [OF e(3)] by (auto simp: covers_def word_less_nat_alt)
qed

lemma desc_parts [simp]:
  "desc (e\<lparr>Length := l\<rparr>) a = desc e a" "desc (trailing T e) a = desc e a"
  by (simp_all add: desc_def trailing_def)

lemma clear_entry_view:
  assumes "spans_ok m" "m k = Some e" "k < T" "unat B < map_end e" "B \<le> T"
  shows "cview (clear_entry B T k e m) a d \<longleftrightarrow> cview m a d \<and> \<not> (B \<le> a \<and> a < T \<and> covers e a)"
proof -
  let ?m = "clear_entry B T k e m"
  note cov = clear_entry_covers [OF assms] and parts = clear_entry_parts [OF assms(1-4)]
  have at: "?m k = (if k < B then Some (e\<lparr>Length := B - k\<rparr>) else None)"
    "T < Base e + Length e \<Longrightarrow> ?m T = Some (trailing T e)"
    "\<not> T < Base e + Length e \<Longrightarrow> ?m T = m T"
    "x \<noteq> k \<Longrightarrow> x \<noteq> T \<Longrightarrow> ?m x = m x" for x
    using assms(3) by (auto simp: clear_entry_def Let_def)
  show ?thesis
  proof
    assume "cview ?m a d"
    then obtain x f where x: "?m x = Some f" "covers f a" "d = desc f a" by (auto simp: cview_def)
    consider (first) "x = k" | (trail) "x = T" "T < Base e + Length e"
      | (other) "x \<noteq> k" "m x = Some f"
      using x(1) at(3,4) by metis
    then show "cview m a d \<and> \<not> (B \<le> a \<and> a < T \<and> covers e a)"
    proof cases
      case first
      then have "k < B" "f = e\<lparr>Length := B - k\<rparr>" using x(1) at(1) by (auto split: if_splits)
      then have "covers e a" "\<not> B \<le> a" "d = desc e a" using cov(1) [of a] x by auto
      then show ?thesis using assms(2) unfolding cview_def by blast
    next
      case trail
      then have "f = trailing T e" using x(1) at(2) by simp
      then have "covers e a" "\<not> a < T" "d = desc e a" using cov(2) [of a] trail x by auto
      then show ?thesis using assms(2) unfolding cview_def by blast
    next
      case other
      then have "\<not> covers e a" using spans_unique [OF assms(1,2)] x(2) by blast
      then show ?thesis using other x by (auto simp: cview_def)
    qed
  next
    assume "cview m a d \<and> \<not> (B \<le> a \<and> a < T \<and> covers e a)"
    then obtain x f where x: "m x = Some f" "covers f a" "d = desc f a"
      and out: "\<not> (B \<le> a \<and> a < T \<and> covers e a)" by (auto simp: cview_def)
    show "cview ?m a d"
    proof (cases "x = k")
      case True
      then have f: "f = e" using x(1) assms(2) by simp
      show ?thesis
      proof (cases "a < B")
        case True
        then have "k < B" using cov(3) x(2) f by (meson not_le)
        then show ?thesis using at(1) cov(1) True x f unfolding cview_def
          by (intro exI [of _ k] exI [of _ "e\<lparr>Length := B - k\<rparr>"]) simp
      next
        case False
        then have "T \<le> a" "T < Base e + Length e" using out x(2) f cov(4) by auto
        then show ?thesis using at(2) cov(2) x f unfolding cview_def
          by (intro exI [of _ T] exI [of _ "trailing T e"]) simp
      qed
    next
      case False
      then have "?m x = m x" using at(3,4) parts(3) x(1) by (cases "x = T") auto
      then show ?thesis using x unfolding cview_def by auto
    qed
  qed
qed

section \<open>One step of the clearing loop\<close>

definition vma_ok :: "'e VMATracking \<Rightarrow> bool" where
  "vma_ok v \<longleftrightarrow> vma_maps_ok v \<and> lists_ok v \<and> spans_ok (cmap v)"

lemma cmap_put:
  "vma_maps_ok v \<Longrightarrow> cmap (put_vma k e v) = (cmap v)(k \<mapsto> core e)"
  "vma_maps_ok v \<Longrightarrow> cmap (erase_vma k v) = (cmap v)(k := None)"
  by (auto simp: cmap_def vma_simps fun_eq_iff)

text \<open>Positions: what an update keeps of the keys before the current one.\<close>

definition keeps_below :: "u64 \<Rightarrow> 'e VMATracking \<Rightarrow> 'e VMATracking \<Rightarrow> bool" where
  "keeps_below k v v' \<longleftrightarrow> (\<forall>i \<le> length (VMAs v). (\<forall>x \<in> set (take i (map fst (VMAs v))). x < k) \<longrightarrow>
     i \<le> length (VMAs v') \<and> take i (map fst (VMAs v')) = take i (map fst (VMAs v)))"

lemma keeps_below_refl: "keeps_below k v v"
  by (simp add: keeps_below_def)

lemma keeps_below_trans:
  assumes "keeps_below k v v'" "keeps_below k' v' v''" "k \<le> k'"
  shows "keeps_below k v v''"
  unfolding keeps_below_def
proof (intro allI impI)
  fix i
  assume i: "i \<le> length (VMAs v)" "\<forall>x \<in> set (take i (map fst (VMAs v))). x < k"
  then have 1: "i \<le> length (VMAs v')" "take i (map fst (VMAs v')) = take i (map fst (VMAs v))"
    using assms(1) by (simp_all add: keeps_below_def)
  then have "\<forall>x \<in> set (take i (map fst (VMAs v'))). x < k'"
    using i(2) assms(3) by (metis order.strict_trans2)
  then show "i \<le> length (VMAs v'') \<and> take i (map fst (VMAs v'')) = take i (map fst (VMAs v))"
    using assms(2) 1 by (simp add: keeps_below_def)
qed

lemma keeps_below_keys: "map fst (VMAs v') = map fst (VMAs v) \<Longrightarrow> keeps_below k v v'"
  unfolding keeps_below_def by (metis length_map)

lemma take_keys_assign:
  assumes "map_ok m" "i \<le> length m" "\<forall>x \<in> set (take i (map fst m)). x < k"
  shows "i \<le> length (map_assign k e m) \<and> take i (map fst (map_assign k e m)) = take i (map fst m)"
  using assms
proof (induction k e m arbitrary: i rule: map_assign.induct)
  case (2 k e a b m)
  then show ?case by (cases i) auto
qed simp

lemma take_keys_erase:
  assumes "i \<le> length m" "\<forall>x \<in> set (take i (map fst m)). x < (k :: u64)"
  shows "i \<le> length (map_erase k m) \<and> take i (map fst (map_erase k m)) = take i (map fst m)"
  using assms
proof (induction k m arbitrary: i rule: map_erase.induct)
  case (2 k a b m)
  then show ?case by (cases i) auto
qed simp

lemma keeps_below_put:
  assumes "vma_maps_ok v"
  shows "keeps_below k v (put_vma k e v)" "keeps_below k v (erase_vma k v)"
  using assms take_keys_assign [of "VMAs v"] take_keys_erase [of _ "VMAs v"]
  by (auto simp: keeps_below_def put_vma_def erase_vma_def vma_maps_ok_def)

lemma keeps_below_VMAs: "VMAs v' = VMAs v \<Longrightarrow> keeps_below k v v'"
  by (simp add: keeps_below_def)

lemma keeps_below_step: "list_step r v v' \<Longrightarrow> keeps_below k v v'"
  by (rule keeps_below_keys) (simp add: list_step_def)

lemma keeps_below_mono: "keeps_below k' v v' \<Longrightarrow> k \<le> k' \<Longrightarrow> keeps_below k v v'"
  unfolding keeps_below_def by (meson order.strict_trans2)

text \<open>Dropping a resource without mappings.\<close>

definition without_resource :: "MRID \<Rightarrow> 'e VMATracking \<Rightarrow> 'e VMATracking" where
  "without_resource r v = v\<lparr>MappedResources := map_erase r (MappedResources v)\<rparr>"

lemma drop_resource_eq:
  assumes "get_resource r v = Some res"
  shows "\<exists>u. drop_resource r v = Some (without_resource r (v\<lparr>Unloaded := u\<rparr>))"
  using assms by (auto simp: drop_resource_def without_resource_def split: option.splits)
    (metis VMATracking.surjective VMATracking.update_convs(3))

lemma without_resource_simps [vma_simps]:
  "get_vma k (without_resource r v) = get_vma k v"
  "vma_maps_ok v \<Longrightarrow> get_resource r' (without_resource r v) = (if r' = r then None else get_resource r' v)"
  "vma_maps_ok v \<Longrightarrow> vma_maps_ok (without_resource r v)"
  "get_vma k (v\<lparr>Unloaded := u\<rparr>) = get_vma k v"
  "get_resource r (v\<lparr>Unloaded := u\<rparr>) = get_resource r v"
  "vma_maps_ok (v\<lparr>Unloaded := u\<rparr>) = vma_maps_ok v"
  by (simp_all add: without_resource_def get_vma_def get_resource_def vma_maps_ok_def std_map_simps)

lemma lists_ok_cong:
  assumes "\<And>k. get_vma k v' = get_vma k v"
    "\<And>r. get_resource r v' = get_resource r v \<or> get_resource r v' = None \<and> nodes_of r v = {}"
    "lists_ok v"
  shows "lists_ok v'"
  unfolding lists_ok_def
proof
  fix r
  obtain xs where xs: "list_ok v r xs" using assms(3) by (auto simp: lists_ok_def)
  have "nodes_of r v' = nodes_of r v" using assms(1) by (simp add: nodes_of_def)
  then show "\<exists>xs. list_ok v' r xs"
    using xs assms(1) assms(2) [of r] by (auto simp: list_ok_def)
qed

lemma without_resource_ok:
  assumes "vma_ok v" "nodes_of r v = {}"
  shows "vma_ok (without_resource r (v\<lparr>Unloaded := u\<rparr>))"
proof -
  have m: "vma_maps_ok v" using assms(1) by (simp add: vma_ok_def)
  have "lists_ok v" using assms(1) by (simp add: vma_ok_def)
  then have "lists_ok (without_resource r (v\<lparr>Unloaded := u\<rparr>))"
    by (rule lists_ok_cong [rotated 2]) (simp_all add: without_resource_simps m assms(2))
  moreover have "cmap (without_resource r (v\<lparr>Unloaded := u\<rparr>)) = cmap v"
    by (simp add: cmap_def fun_eq_iff vma_simps)
  ultimately show ?thesis using assms(1) m by (simp add: vma_ok_def vma_simps)
qed

lemma clear_whole:
  assumes "vma_ok v" "get_vma k v = Some e" "\<not> Base e < B" "\<not> T < Base e + Length e"
  shows "\<exists>v'. clear_mapping B T P k e v = Some v' \<and> vma_maps_ok v' \<and> lists_ok v'
    \<and> cmap v' = (cmap v)(k := None) \<and> keeps_below k v v'
    \<and> (\<forall>r. P = Some r \<longrightarrow> get_resource r v \<noteq> None \<longrightarrow> get_resource r v' \<noteq> None)"
proof (cases "Resource e")
  case None
  have ok: "vma_maps_ok v" "lists_ok v" using assms(1) by (simp_all add: vma_ok_def)
  have "lists_ok (erase_vma k v)" by (rule lists_ok_unlisted(2) [OF ok]) (use assms(2) None in simp)
  then show ?thesis
    using None assms ok by (simp add: clear_mapping_def vma_simps cmap_put keeps_below_put)
next
  case (Some r)
  have ok: "vma_maps_ok v" "lists_ok v" using assms(1) by (simp_all add: vma_ok_def)
  obtain v1 where v1: "ListRemove k v = Some (nodes_of r v = {k}, v1)" "list_step r v v1"
    "lists_ok (erase_vma k v1)"
    using ListRemove_ok [OF ok assms(2) Some] by blast
  have m1: "vma_maps_ok v1" by (rule list_step_ok [OF v1(2)])
  have keep: "keeps_below k v (erase_vma k v1)"
    by (rule keeps_below_trans [OF keeps_below_step [OF v1(2)] keeps_below_put(2) [OF m1] order_refl])
  have c: "cmap (erase_vma k v1) = (cmap v)(k := None)"
    using v1(2) by (simp add: cmap_put m1 list_step_def)
  have spans: "spans_ok (cmap (erase_vma k v1))"
    using assms(1) unfolding c by (auto simp: vma_ok_def spans_ok_def)
  have e1: "vma_ok (erase_vma k v1)" using v1(3) m1 spans by (simp add: vma_ok_def vma_simps)
  have res: "get_resource r' v1 = None \<longleftrightarrow> get_resource r' v = None" for r'
    using v1(2) by (cases "r' = r") (auto simp: list_step_def)
  show ?thesis
  proof (cases "nodes_of r v = {k} \<and> P \<noteq> Some r")
    case True
    obtain xs where "list_ok v r xs" using ok(2) by (auto simp: lists_ok_def)
    then have "get_resource r v \<noteq> None"
      using assms(2) Some by (auto simp: list_ok_def nodes_of_def split: option.splits)
    then have "get_resource r v1 \<noteq> None" using res by simp
    then obtain rs where "get_resource r v1 = Some rs" by auto
    then obtain u where d: "drop_resource r v1 = Some (without_resource r (v1\<lparr>Unloaded := u\<rparr>))"
      using drop_resource_eq by blast
    let ?w = "without_resource r ((erase_vma k v1)\<lparr>Unloaded := u\<rparr>)"
    have w: "erase_vma k (without_resource r (v1\<lparr>Unloaded := u\<rparr>)) = ?w"
      by (simp add: erase_vma_def without_resource_def)
    have "nodes_of r (erase_vma k v1) = {}"
      using True by (simp add: nodes_of_erase m1 list_step_nodes [OF v1(2)])
    then have "vma_ok ?w" by (rule without_resource_ok [OF e1])
    moreover have "cmap ?w = (cmap v)(k := None)" using c by (simp add: cmap_def fun_eq_iff vma_simps)
    moreover have "keeps_below k v ?w"
      using keep by (simp add: keeps_below_def without_resource_def)
    moreover have "clear_mapping B T P k e v = Some ?w"
      using assms(3,4) Some v1(1) True d w by (auto simp: clear_mapping_def)
    moreover have "\<forall>r'. P = Some r' \<longrightarrow> get_resource r' v \<noteq> None \<longrightarrow> get_resource r' ?w \<noteq> None"
      using True res m1 by (auto simp: vma_simps simp del: not_None_eq)
    ultimately show ?thesis by (auto simp: vma_ok_def)
  next
    case False
    then have "clear_mapping B T P k e v = Some (erase_vma k v1)"
      using assms(3,4) Some v1(1) by (auto simp: clear_mapping_def)
    then show ?thesis
      using e1 c keep res by (simp add: vma_ok_def vma_simps del: not_None_eq)
  qed
qed

text \<open>The entry inserted for the part of a mapping above \<open>T\<close>.\<close>

lemma core_trailing:
  "core \<lparr>Resource = Resource e, ResourcePrevVMA = p, ResourceNextVMA = n, Base = T,
     Offset = Offset e - Base e + T, Length = Base e + Length e - T, Flags = Flags e,
     Prot = Prot e\<rparr> = trailing T (core e)"
  by (simp add: core_def trailing_def)

lemma insert_after:
  assumes "vma_maps_ok v" "lists_ok v" "get_vma k v = Some e" "get_vma t v = None"
    "Resource ne = Resource e" "ResourcePrevVMA ne = Some k" "ResourceNextVMA ne = ResourceNextVMA e"
    "k \<le> t"
  shows "\<exists>v'. (if Resource e = None then Some (put_vma t ne v)
      else ListInsertAfter k t (put_vma t ne v)) = Some v'
    \<and> vma_maps_ok v' \<and> lists_ok v' \<and> cmap v' = (cmap v)(t \<mapsto> core ne) \<and> keeps_below k v v'
    \<and> (\<forall>r. get_resource r v \<noteq> None \<longrightarrow> get_resource r v' \<noteq> None)"
proof -
  have put: "vma_maps_ok (put_vma t ne v)" "cmap (put_vma t ne v) = (cmap v)(t \<mapsto> core ne)"
    "keeps_below k v (put_vma t ne v)"
    using assms(1,8) keeps_below_mono [OF keeps_below_put(1) [OF assms(1)]]
    by (simp_all add: vma_simps cmap_put)
  show ?thesis
  proof (cases "Resource e")
    case None
    then have "lists_ok (put_vma t ne v)"
      using assms by (intro lists_ok_unlisted(1)) auto
    then show ?thesis using None put by (simp add: vma_simps)
  next
    case (Some r)
    then obtain v' where "ListInsertAfter k t (put_vma t ne v) = Some v'" "lists_ok v'"
      and s: "list_step r (put_vma t ne v) v'"
      using ListInsertAfter_ok [OF assms(1-3) Some assms(4)] assms(5-7) by auto
    moreover have "keeps_below k v v'"
      by (rule keeps_below_trans [OF put(3) keeps_below_step [OF s] order_refl])
    moreover have "get_resource r' v' = None \<longleftrightarrow> get_resource r' v = None" for r'
      using s by (cases "r' = r") (auto simp: list_step_def vma_simps)
    ultimately show ?thesis using Some put s by (simp add: list_step_def del: not_None_eq)
  qed
qed

lemma replace_first:
  assumes "vma_maps_ok v" "lists_ok v" "get_vma k v = Some e" "get_vma t v = None" "k \<noteq> t"
    "Resource ne = Resource e" "ResourcePrevVMA ne = ResourcePrevVMA e"
    "ResourceNextVMA ne = ResourceNextVMA e" "k \<le> t"
  shows "\<exists>v'. (if Resource e = None then Some (put_vma t ne v)
      else ListReplace k t (put_vma t ne v)) = Some v'
    \<and> vma_maps_ok (erase_vma k v') \<and> lists_ok (erase_vma k v')
    \<and> cmap (erase_vma k v') = (cmap v)(k := None, t \<mapsto> core ne) \<and> keeps_below k v (erase_vma k v')
    \<and> (\<forall>r. get_resource r v \<noteq> None \<longrightarrow> get_resource r (erase_vma k v') \<noteq> None)"
proof -
  have put: "vma_maps_ok (put_vma t ne v)" "cmap (put_vma t ne v) = (cmap v)(t \<mapsto> core ne)"
    "keeps_below k v (put_vma t ne v)"
    using assms(1,9) keeps_below_mono [OF keeps_below_put(1) [OF assms(1)]]
    by (simp_all add: vma_simps cmap_put)
  show ?thesis
  proof (cases "Resource e")
    case None
    then have l: "lists_ok (put_vma t ne v)"
      using assms by (intro lists_ok_unlisted(1)) auto
    have "lists_ok (erase_vma k (put_vma t ne v))"
      by (rule lists_ok_unlisted(2) [OF put(1) l]) (use assms(1,3,5) None in \<open>simp add: vma_simps\<close>)
    moreover have "keeps_below k v (erase_vma k (put_vma t ne v))"
      by (rule keeps_below_trans [OF put(3) keeps_below_put(2) [OF put(1)] order_refl])
    ultimately show ?thesis
      using None put assms(5) by (simp add: vma_simps cmap_put fun_upd_twist)
  next
    case (Some r)
    then obtain v' where v': "ListReplace k t (put_vma t ne v) = Some v'" "lists_ok (erase_vma k v')"
      and s: "list_step r (put_vma t ne v) v'"
      using ListReplace_ok [OF assms(1-3) Some assms(4)] assms(6-8) by auto
    have m: "vma_maps_ok v'" by (rule list_step_ok [OF s])
    have "keeps_below k v (erase_vma k v')"
      by (rule keeps_below_trans [OF keeps_below_trans [OF put(3) keeps_below_step [OF s] order_refl]
            keeps_below_put(2) [OF m] order_refl])
    moreover have "get_resource r' v' = None \<longleftrightarrow> get_resource r' v = None" for r'
      using s by (cases "r' = r") (auto simp: list_step_def vma_simps)
    moreover have "cmap (erase_vma k v') = (cmap v)(k := None, t \<mapsto> core ne)"
      using s put(2) assms(5) by (simp add: cmap_put m list_step_def fun_upd_twist)
    ultimately show ?thesis using Some v' m by (simp add: vma_simps del: not_None_eq)
  qed
qed

lemma clear_mapping_ok:
  assumes "vma_ok v" "get_vma k v = Some e" "k < T" "unat B < map_end e" "B \<le> T"
  shows "\<exists>v'. clear_mapping B T P k e v = Some v' \<and> vma_ok v'
    \<and> cmap v' = clear_entry B T k (core e) (cmap v) \<and> keeps_below k v v'
    \<and> (\<forall>r. P = Some r \<longrightarrow> get_resource r v \<noteq> None \<longrightarrow> get_resource r v' \<noteq> None)"
proof -
  have ok: "vma_maps_ok v" "lists_ok v" "spans_ok (cmap v)" using assms(1) by (simp_all add: vma_ok_def)
  have ck: "cmap v k = Some (core e)" using assms(2) by (simp add: cmap_def)
  have base: "Base e = k" using spansD(1) [OF ok(3) ck] by simp
  have spans: "spans_ok (clear_entry B T k (core e) (cmap v))"
    using assms(3-5) by (intro clear_entry_spans [OF ok(3) ck]) auto
  have top: "T < Base e + Length e \<Longrightarrow> get_vma T v = None"
    using clear_entry_parts(3) [OF ok(3) ck assms(3), of B] assms(4) by (simp add: cmap_def)
  have "\<exists>v'. clear_mapping B T P k e v = Some v' \<and> vma_maps_ok v' \<and> lists_ok v'
    \<and> cmap v' = clear_entry B T k (core e) (cmap v) \<and> keeps_below k v v'
    \<and> (\<forall>r. P = Some r \<longrightarrow> get_resource r v \<noteq> None \<longrightarrow> get_resource r v' \<noteq> None)"
  proof (cases "k < B")
    case first: True
    let ?e = "e\<lparr>Length := B - Base e\<rparr>"
    let ?u = "put_vma k ?e v"
    have u: "vma_maps_ok ?u" "lists_ok ?u" "cmap ?u = (cmap v)(k \<mapsto> (core e)\<lparr>Length := B - k\<rparr>)"
      "keeps_below k v ?u" "get_vma k ?u = Some ?e"
      using ok assms(2) base
      by (auto simp: vma_simps cmap_put core_def same_links_def keeps_below_put intro!: lists_ok_same_links)
    show ?thesis
    proof (cases "T < Base e + Length e")
      case True
      let ?ne = "\<lparr>Resource = Resource e, ResourcePrevVMA = Some k, ResourceNextVMA = ResourceNextVMA e,
        Base = T, Offset = Offset e - Base e + T, Length = Base e + Length e - T, Flags = Flags e,
        Prot = Prot e\<rparr>"
      have "get_vma T ?u = None" using top [OF True] assms(3) ok(1) by (simp add: vma_simps)
      from insert_after [OF u(1,2,5) this, of ?ne] order.strict_implies_order [OF assms(3)]
      obtain v' where v': "(if Resource e = None then Some (put_vma T ?ne ?u)
          else ListInsertAfter k T (put_vma T ?ne ?u)) = Some v'" "vma_maps_ok v'" "lists_ok v'"
        "cmap v' = (cmap ?u)(T \<mapsto> core ?ne)" "keeps_below k ?u v'"
        "\<forall>r. get_resource r ?u \<noteq> None \<longrightarrow> get_resource r v' \<noteq> None" by auto
      have "clear_mapping B T P k e v = Some v'"
        using v'(1) first True base assms(2) u(1,5) \<open>get_vma T ?u = None\<close>
        by (cases "Resource e")
          (simp_all add: clear_mapping_def Let_def update_vma_eq [OF assms(2)] emplace_vma_eq)
      moreover have "cmap v' = clear_entry B T k (core e) (cmap v)"
        using v'(4) u(3) first True core_trailing [of e "Some k" "ResourceNextVMA e" T]
        by (simp add: clear_entry_def Let_def)
      moreover have "keeps_below k v v'" by (rule keeps_below_trans [OF u(4) v'(5) order_refl])
      ultimately show ?thesis using v'(2,3,6) by (simp add: vma_simps del: not_None_eq)
    next
      case False
      then have "clear_mapping B T P k e v = Some ?u"
        using first base assms(2)
        by (simp add: clear_mapping_def Let_def update_vma_eq [OF assms(2)])
      then show ?thesis
        using u first False by (simp add: clear_entry_def Let_def vma_simps del: not_None_eq)
    qed
  next
    case nofirst: False
    show ?thesis
    proof (cases "T < Base e + Length e")
      case True
      let ?ne = "\<lparr>Resource = Resource e, ResourcePrevVMA = ResourcePrevVMA e,
        ResourceNextVMA = ResourceNextVMA e, Base = T, Offset = Offset e - Base e + T,
        Length = Base e + Length e - T, Flags = Flags e, Prot = Prot e\<rparr>"
      from replace_first [OF ok(1,2) assms(2) top [OF True], of ?ne] assms(3) order.strict_implies_order [OF assms(3)]
      obtain v' where v': "(if Resource e = None then Some (put_vma T ?ne v)
          else ListReplace k T (put_vma T ?ne v)) = Some v'"
        "vma_maps_ok (erase_vma k v')" "lists_ok (erase_vma k v')"
        "cmap (erase_vma k v') = (cmap v)(k := None, T \<mapsto> core ?ne)" "keeps_below k v (erase_vma k v')"
        "\<forall>r. get_resource r v \<noteq> None \<longrightarrow> get_resource r (erase_vma k v') \<noteq> None" by auto
      have "clear_mapping B T P k e v = Some (erase_vma k v')"
        using v'(1) nofirst True base assms(2) ok(1) top [OF True]
        by (cases "Resource e") (simp_all add: clear_mapping_def Let_def emplace_vma_eq)
      moreover have "cmap (erase_vma k v') = clear_entry B T k (core e) (cmap v)"
        using v'(4) nofirst True core_trailing [of e "ResourcePrevVMA e" "ResourceNextVMA e" T]
        by (simp add: clear_entry_def Let_def)
      ultimately show ?thesis using v'(2,3,5,6) by (simp del: not_None_eq)
    next
      case False
      have "\<not> Base e < B" using nofirst base by simp
      from clear_whole [OF assms(1,2) this False, of P] nofirst False show ?thesis
        by (simp add: clear_entry_def Let_def del: not_None_eq)
    qed
  qed
  then show ?thesis using spans by (auto simp: vma_ok_def)
qed

section \<open>Clearing a range\<close>

lemma nth_get_vma:
  assumes "vma_maps_ok v" "i < length (VMAs v)"
  shows "get_vma (fst (VMAs v ! i)) v = Some (snd (VMAs v ! i))"
proof -
  have "distinct (map fst (VMAs v))" using assms(1) by (simp add: vma_maps_ok_def map_ok_distinct)
  then show ?thesis using assms(2) unfolding get_vma_def by (simp add: map_of_eq_Some_iff)
qed

lemma take_Suc_keys:
  "i < length m \<Longrightarrow> take (Suc i) (map fst m) = take i (map fst m) @ [fst (m ! i)]"
  by (simp add: take_Suc_conv_app_nth)

lemma keys_below:
  assumes "map_ok m" "i < length m" "x \<in> set (take i (map fst m))"
  shows "x < fst (m ! i)"
  using assms by (auto simp: map_ok_def in_set_conv_nth sorted_wrt_iff_nth_less)

text \<open>The addresses covered by the mappings at the keys of a list.\<close>

definition covered :: "u64 list \<Rightarrow> (u64 \<rightharpoonup> VMAEntry) \<Rightarrow> u64 \<Rightarrow> bool" where
  "covered ks m a \<longleftrightarrow> (\<exists>k \<in> set ks. \<exists>e. m k = Some e \<and> covers e a)"

lemma clear_entry_other:
  assumes "spans_ok m" "m k = Some e" "k < T" "unat B < map_end e" "x < k"
  shows "clear_entry B T k e m x = m x"
  using assms(3,5) by (auto simp: clear_entry_def Let_def)

lemma covered_before:
  assumes "spans_ok m" "m k = Some (core e)" "\<And>x. x \<in> set ks \<Longrightarrow> x < k"
    "unat (Base e + Length e) = map_end e" "Base e + Length e \<le> B"
  shows "\<not> (B \<le> a \<and> covered (ks @ [k]) m a)"
proof
  assume a: "B \<le> a \<and> covered (ks @ [k]) m a"
  then obtain x f where x: "x \<in> set (ks @ [k])" "m x = Some f" "covers f a"
    by (auto simp: covered_def)
  have "map_end f \<le> map_end e"
  proof (cases "x = k")
    case False
    then have "x < k" using x(1) assms(3) by auto
    then have "map_end f \<le> unat k" using spansD(4) [OF assms(1) x(2) assms(2)] by simp
    then show ?thesis using spansD(1) [OF assms(1,2)] by (simp add: map_end_def)
  qed (use x(2) assms(2) covers_core(2) [of e] in simp)
  then show False using a x(3) assms(4,5) by (simp add: covers_def word_le_nat_alt)
qed

lemma clear_loop_ok:
  assumes "vma_ok v" "i \<le> length (VMAs v)" "B \<le> T"
    "\<And>x. x \<in> set (take i (map fst (VMAs v))) \<Longrightarrow> x < T"
  shows "\<exists>v'. clear_loop B T P i v = Some v' \<and> vma_ok v'
    \<and> (\<forall>a d. cview (cmap v') a d \<longleftrightarrow> cview (cmap v) a d
         \<and> \<not> (B \<le> a \<and> a < T \<and> covered (take i (map fst (VMAs v))) (cmap v) a))
    \<and> (\<forall>r. P = Some r \<longrightarrow> get_resource r v \<noteq> None \<longrightarrow> get_resource r v' \<noteq> None)"
  using assms(1,2,4)
proof (induction i arbitrary: v)
  case 0
  then show ?case by (simp add: covered_def)
next
  case (Suc i)
  obtain k e where ke: "VMAs v ! i = (k, e)" by fastforce
  have ok: "vma_maps_ok v" "spans_ok (cmap v)" "map_ok (VMAs v)"
    using Suc.prems(1) by (simp_all add: vma_ok_def vma_maps_ok_def)
  have len: "i < length (VMAs v)" using Suc.prems(2) by simp
  have get: "get_vma k v = Some e" using nth_get_vma [OF ok(1) len] ke by simp
  then have ck: "cmap v k = Some (core e)" by (simp add: cmap_def)
  have keys: "take (Suc i) (map fst (VMAs v)) = take i (map fst (VMAs v)) @ [k]"
    using take_Suc_keys [OF len] ke by simp
  have below: "x < k" if "x \<in> set (take i (map fst (VMAs v)))" for x
    using keys_below [OF ok(3) len that] ke by simp
  have kT: "k < T" using Suc.prems(3) keys by simp
  have end_word: "unat (Base e + Length e) = map_end e"
    using map_end_word [of e] spansD(3) [OF ok(2) ck] by simp
  show ?case
  proof (cases "Base e + Length e \<le> B")
    case True
    have "\<not> (B \<le> a \<and> covered (take (Suc i) (map fst (VMAs v))) (cmap v) a)" for a
      unfolding keys by (rule covered_before [OF ok(2) ck below end_word True])
    then show ?thesis using True Suc.prems(1) ke by (auto simp: Let_def)
  next
    case False
    then have meets: "unat B < map_end e" using end_word by (simp add: word_le_nat_alt)
    obtain v1 where v1: "clear_mapping B T P k e v = Some v1" "vma_ok v1"
      "cmap v1 = clear_entry B T k (core e) (cmap v)" "keeps_below k v v1"
      "\<forall>r. P = Some r \<longrightarrow> get_resource r v \<noteq> None \<longrightarrow> get_resource r v1 \<noteq> None"
      using clear_mapping_ok [OF Suc.prems(1) get kT meets assms(3), of P] by blast
    have keep: "i \<le> length (VMAs v1)" "take i (map fst (VMAs v1)) = take i (map fst (VMAs v))"
      using v1(4) below Suc.prems(2) by (simp_all add: keeps_below_def)
    have "x < T" if "x \<in> set (take i (map fst (VMAs v1)))" for x
      using that below kT unfolding keep(2) by (meson order.strict_trans)
    from Suc.IH [OF v1(2) keep(1) this] obtain v' where v': "clear_loop B T P i v1 = Some v'" "vma_ok v'"
      "\<forall>a d. cview (cmap v') a d \<longleftrightarrow> cview (cmap v1) a d
         \<and> \<not> (B \<le> a \<and> a < T \<and> covered (take i (map fst (VMAs v1))) (cmap v1) a)"
      "\<forall>r. P = Some r \<longrightarrow> get_resource r v1 \<noteq> None \<longrightarrow> get_resource r v' \<noteq> None" by blast
    have view: "cview (cmap v1) a d \<longleftrightarrow> cview (cmap v) a d \<and> \<not> (B \<le> a \<and> a < T \<and> covers e a)" for a d
      using clear_entry_view [OF ok(2) ck kT _ assms(3), of a d] meets v1(3) by simp
    have cov1: "covered (take i (map fst (VMAs v1))) (cmap v1) a
        = covered (take i (map fst (VMAs v))) (cmap v) a" for a
      unfolding keep(2) covered_def v1(3)
      using clear_entry_other [OF ok(2) ck kT] meets below by (auto intro!: bex_cong)
    have cov: "covered (take (Suc i) (map fst (VMAs v))) (cmap v) a
        \<longleftrightarrow> covered (take i (map fst (VMAs v))) (cmap v) a \<or> covers e a" for a
      unfolding keys using ck by (auto simp: covered_def)
    have "clear_loop B T P (Suc i) v = Some v'"
      using False ke v1(1) v'(1) by (simp add: Let_def)
    then show ?thesis
      using v'(2-4) v1(5) by (simp add: view cov cov1 del: not_None_eq) blast
  qed
qed

lemma ClearUnsafe_view:
  assumes "vma_ok v" "unat B + unat L < 2 ^ 64"
  shows "\<exists>v'. ClearUnsafe B L P v = Some v' \<and> vma_ok v'
    \<and> (\<forall>a d. cview (cmap v') a d \<longleftrightarrow> cview (cmap v) a d \<and> \<not> (B \<le> a \<and> a < B + L))
    \<and> (\<forall>r. P = Some r \<longrightarrow> get_resource r v \<noteq> None \<longrightarrow> get_resource r v' \<noteq> None)"
proof -
  let ?T = "B + L" and ?i = "map_lower_bound (VMAs v) (B + L)"
  have m: "map_ok (VMAs v)" using assms(1) by (simp add: vma_ok_def vma_maps_ok_def)
  have BT: "B \<le> ?T" using assms(2) by (simp add: word_le_nat_alt unat_word_ariths)
  have keys: "x \<in> set (take ?i (map fst (VMAs v))) \<longleftrightarrow> x \<in> fst ` set (VMAs v) \<and> x < ?T" for x
    using map_take_lower [OF m, of ?T] by (auto simp: take_map)
  have out: "\<not> (B \<le> a \<and> a < ?T)" if view: "cview (cmap v) a d"
    and unc: "\<not> covered (take ?i (map fst (VMAs v))) (cmap v) a" for a d
  proof
    assume a: "B \<le> a \<and> a < ?T"
    obtain k e where ke: "cmap v k = Some e" "covers e a" using view by (auto simp: cview_def)
    then have "Base e = k" using spansD(1) assms(1) unfolding vma_ok_def by blast
    then have "k < ?T" using a ke(2) by (auto simp: covers_def word_less_nat_alt)
    moreover have "k \<in> fst ` set (VMAs v)"
      using ke(1) by (auto simp: cmap_def get_vma_def dest!: map_of_SomeD intro: rev_image_eqI)
    ultimately show False using unc ke keys by (auto simp: covered_def)
  qed
  obtain v' where v': "clear_loop B ?T P ?i v = Some v'" "vma_ok v'"
    "\<forall>a d. cview (cmap v') a d \<longleftrightarrow> cview (cmap v) a d
         \<and> \<not> (B \<le> a \<and> a < ?T \<and> covered (take ?i (map fst (VMAs v))) (cmap v) a)"
    "\<forall>r. P = Some r \<longrightarrow> get_resource r v \<noteq> None \<longrightarrow> get_resource r v' \<noteq> None"
    using clear_loop_ok [OF assms(1) map_bounds_length(1) BT, of ?T P] keys by metis
  have "cview (cmap v') a d \<longleftrightarrow> cview (cmap v) a d \<and> \<not> (B \<le> a \<and> a < ?T)" for a d
    using v'(3) out [of a d] by blast
  then show ?thesis using v'(1,2,4) by (simp add: ClearUnsafe_def)
qed

section \<open>The mapping of an address\<close>

text \<open>What the tracking records about a guest address.\<close>

definition mapping_at :: "'e VMATracking \<Rightarrow> u64 \<Rightarrow> mapping option" where
  "mapping_at v a = map_option (\<lambda>e. desc (snd e) a) (List.find (\<lambda>e. covers (snd e) a) (VMAs v))"

lemma find_SomeD: "List.find Q xs = Some x \<Longrightarrow> x \<in> set xs \<and> Q x"
  by (induction xs) (auto split: if_splits)

lemma find_covering:
  assumes "vma_ok v"
  shows "List.find (\<lambda>e. covers (snd e) a) (VMAs v) = Some (k, e)
    \<longleftrightarrow> get_vma k v = Some e \<and> covers e a"
proof -
  have m: "vma_maps_ok v" and d: "distinct (map fst (VMAs v))"
    using assms by (simp_all add: vma_ok_def vma_maps_ok_def map_ok_distinct)
  have mem: "get_vma k v = Some e \<longleftrightarrow> (k, e) \<in> set (VMAs v)" for k e
    using d by (simp add: get_vma_def map_of_eq_Some_iff)
  have uniq: "k = k'" if "get_vma k v = Some e" "get_vma k' v = Some e'" "covers e a" "covers e' a" for k k' e e'
    using spans_unique [of "cmap v" k "core e" k' "core e'" a] assms that
    by (simp add: vma_ok_def cmap_def)
  show ?thesis
  proof
    assume "List.find (\<lambda>e. covers (snd e) a) (VMAs v) = Some (k, e)"
    then show "get_vma k v = Some e \<and> covers e a"
      by (auto simp: mem dest: find_SomeD)
  next
    assume ke: "get_vma k v = Some e \<and> covers e a"
    then obtain k' e' where f: "List.find (\<lambda>e. covers (snd e) a) (VMAs v) = Some (k', e')"
      using mem [of k e] by (cases "List.find (\<lambda>e. covers (snd e) a) (VMAs v)") (auto simp: find_None_iff)
    then have "get_vma k' v = Some e'" "covers e' a" by (auto simp: mem dest: find_SomeD)
    with ke uniq have "k' = k" by blast
    with ke \<open>get_vma k' v = Some e'\<close> f show "List.find (\<lambda>e. covers (snd e) a) (VMAs v) = Some (k, e)"
      by simp
  qed
qed

lemma mapping_at_cview:
  assumes "vma_ok v"
  shows "mapping_at v a = Some d \<longleftrightarrow> cview (cmap v) a d"
proof -
  have "cview (cmap v) a d
      \<longleftrightarrow> (\<exists>k e. get_vma k v = Some e \<and> covers (core e) a \<and> d = desc (core e) a)"
    unfolding cview_def cmap_def map_option_eq_Some by blast
  then have "cview (cmap v) a d \<longleftrightarrow> (\<exists>k e. get_vma k v = Some e \<and> covers e a \<and> d = desc e a)"
    by simp
  moreover have "mapping_at v a = Some d
      \<longleftrightarrow> (\<exists>k e. List.find (\<lambda>e. covers (snd e) a) (VMAs v) = Some (k, e) \<and> d = desc e a)"
    unfolding mapping_at_def map_option_eq_Some split_paired_Ex snd_conv by blast
  ultimately show ?thesis by (simp only: find_covering [OF assms]) blast
qed

lemma mapping_atI:
  assumes "vma_ok v" "\<And>d. cview (cmap v) a d \<longleftrightarrow> x = Some d"
  shows "mapping_at v a = x"
proof -
  have "mapping_at v a = Some d \<longleftrightarrow> x = Some d" for d
    using mapping_at_cview [OF assms(1)] assms(2) by simp
  then show ?thesis by (metis not_Some_eq)
qed

text \<open>Clearing a range, and setting a new mapping over it.\<close>

lemma ClearUnsafe_mapping:
  assumes "vma_ok v" "unat B + unat L < 2 ^ 64"
  shows "\<exists>v'. ClearUnsafe B L P v = Some v' \<and> vma_ok v'
    \<and> (\<forall>a. mapping_at v' a = (if B \<le> a \<and> a < B + L then None else mapping_at v a))
    \<and> (\<forall>r. P = Some r \<longrightarrow> get_resource r v \<noteq> None \<longrightarrow> get_resource r v' \<noteq> None)"
proof -
  obtain v' where v': "ClearUnsafe B L P v = Some v'" "vma_ok v'"
    "\<forall>a d. cview (cmap v') a d \<longleftrightarrow> cview (cmap v) a d \<and> \<not> (B \<le> a \<and> a < B + L)"
    "\<forall>r. P = Some r \<longrightarrow> get_resource r v \<noteq> None \<longrightarrow> get_resource r v' \<noteq> None"
    using ClearUnsafe_view [OF assms] by blast
  have "mapping_at v' a = (if B \<le> a \<and> a < B + L then None else mapping_at v a)" for a
    by (rule mapping_atI [OF v'(2)])
      (use v'(3) mapping_at_cview [OF assms(1)] in \<open>simp del: split_paired_All\<close>)
  with v' show ?thesis by blast
qed

lemma range_free:
  assumes "vma_ok v" "\<And>a. B \<le> a \<Longrightarrow> a < B + L \<Longrightarrow> mapping_at v a = None" "L \<noteq> 0"
    "unat B + unat L < 2 ^ 64" "cmap v k = Some e"
  shows "map_end e \<le> unat B \<or> unat (B + L) \<le> unat k"
proof (rule ccontr)
  assume no: "\<not> ?thesis"
  have e: "Base e = k" "Length e \<noteq> 0" "map_end e < 2 ^ 64"
    using spansD [of "cmap v" k e] assms(1,5) by (simp_all add: vma_ok_def)
  have top: "unat (B + L) = unat B + unat L" using assms(4) by (simp add: unat_word_ariths)
  let ?a = "if B \<le> k then k else B"
  have "covers e ?a"
    using no e by (auto simp: covers_def word_le_nat_alt map_end_def unat_gt_0)
  moreover have "B \<le> ?a" "?a < B + L"
    using no assms(3) top by (auto simp: word_le_nat_alt word_less_nat_alt unat_gt_0)
  ultimately show False
    using assms(2) [of ?a] assms(5) mapping_at_cview [OF assms(1), of ?a "desc e ?a"]
    by (auto simp: cview_def)
qed

lemma spans_add:
  assumes "spans_ok m" "Base e = k" "Length e \<noteq> 0" "map_end e < 2 ^ 64"
    "\<And>k' e'. m k' = Some e' \<Longrightarrow> map_end e' \<le> unat k \<or> map_end e \<le> unat k'"
  shows "spans_ok (m(k \<mapsto> e))"
proof -
  have "map_end e' \<le> unat k" if "m k' = Some e'" "k' < k" for k' e'
    using assms(5) [OF that(1)] that(2) assms(2)
    by (auto simp: map_end_def word_less_nat_alt)
  moreover have "map_end e \<le> unat k'" if "m k' = Some e'" "k < k'" for k' e'
    using assms(5) [OF that(1)] that(2) spansD(1) [OF assms(1) that(1)]
    by (auto simp: map_end_def word_less_nat_alt)
  ultimately show ?thesis
    using assms(1-4) unfolding spans_ok_def by (auto split: if_splits)
qed

lemma cview_add:
  assumes "m k = None"
  shows "cview (m(k \<mapsto> e)) a d \<longleftrightarrow> covers e a \<and> d = desc e a \<or> cview m a d"
proof
  assume "cview (m(k \<mapsto> e)) a d"
  then show "covers e a \<and> d = desc e a \<or> cview m a d"
    unfolding cview_def by (metis fun_upd_apply option.inject)
next
  assume "covers e a \<and> d = desc e a \<or> cview m a d"
  then show "cview (m(k \<mapsto> e)) a d"
    using assms unfolding cview_def by (metis fun_upd_apply option.distinct(1))
qed

lemma SetUnsafe_step:
  assumes "vma_ok v" "unat B + unat L < 2 ^ 64" "L \<noteq> 0"
    "\<And>r. R = Some r \<Longrightarrow> get_resource r v \<noteq> None"
  shows "\<exists>v'. SetUnsafe R B Off L F Pr v = Some v' \<and> vma_ok v'
    \<and> (\<forall>a. mapping_at v' a = (if B \<le> a \<and> a < B + L then Some (R, Off + (a - B), F, Pr)
         else mapping_at v a))
    \<and> (\<exists>u ne. ClearUnsafe B L R v = Some u \<and> cmap v' = (cmap u)(B \<mapsto> ne) \<and> Base ne = B \<and> Offset ne = Off
         \<and> Length ne = L \<and> Resource ne = R \<and> Flags ne = F)"
proof -
  obtain u where u: "ClearUnsafe B L R v = Some u" "vma_ok u"
    "\<forall>a. mapping_at u a = (if B \<le> a \<and> a < B + L then None else mapping_at v a)"
    "\<forall>r. R = Some r \<longrightarrow> get_resource r v \<noteq> None \<longrightarrow> get_resource r u \<noteq> None"
    using ClearUnsafe_mapping [OF assms(1,2), of R] by blast
  have ok: "vma_maps_ok u" "lists_ok u" "spans_ok (cmap u)" using u(2) by (simp_all add: vma_ok_def)
  have top: "unat (B + L) = unat B + unat L" using assms(2) by (simp add: unat_word_ariths)
  define first where "first = (case R of None \<Rightarrow> None | Some r \<Rightarrow> FirstVMA (the (get_resource r u)))"
  define ne where "ne = \<lparr>Resource = R, ResourcePrevVMA = None, ResourceNextVMA = first, Base = B,
     Offset = Off, Length = L, Flags = F, Prot = Pr\<rparr>"
  have free: "map_end e \<le> unat B \<or> unat (B + L) \<le> unat k" if "cmap u k = Some e" for k e
    using range_free [OF u(2) _ assms(3,2) that] u(3) by simp
  have end_ne: "map_end (core ne) = unat (B + L)" "Base (core ne) = B" "Length (core ne) \<noteq> 0"
    using top assms(3) by (simp_all add: ne_def map_end_def)
  have none: "get_vma B u = None"
  proof (rule ccontr)
    assume "get_vma B u \<noteq> None"
    then obtain e where e: "cmap u B = Some e" by (auto simp: cmap_def)
    then have "unat (Length e) \<noteq> 0" "Base e = B" using spansD [OF ok(3) e] by (auto simp: unat_eq_zero)
    then show False using free [OF e] top assms(3) by (auto simp: map_end_def unat_eq_zero)
  qed
  have spans: "spans_ok ((cmap u)(B \<mapsto> core ne))"
    using end_ne free assms(2) top by (intro spans_add [OF ok(3)]) auto
  obtain w where w: "SetUnsafe R B Off L F Pr v = Some w" "vma_maps_ok w" "lists_ok w"
    "cmap w = (cmap u)(B \<mapsto> core ne)"
  proof (cases R)
    case None
    have "lists_ok (put_vma B ne u)"
      by (rule lists_ok_unlisted(1) [OF ok(1,2)]) (simp_all add: none None ne_def)
    moreover have "SetUnsafe R B Off L F Pr v = Some (put_vma B ne u)"
      using u(1) none None ok(1) by (simp add: SetUnsafe_def emplace_vma_eq ne_def first_def)
    ultimately show thesis using that ok(1) by (simp add: maps_ok_put cmap_put)
  next
    case (Some r)
    then obtain res where res: "get_resource r u = Some res"
      using assms(4) [OF Some] u(4) by (cases "get_resource r u") auto
    have nf: "Resource ne = Some r" "ResourcePrevVMA ne = None" "ResourceNextVMA ne = FirstVMA res"
      using Some res by (simp_all add: ne_def first_def)
    obtain w where w: "ListPrepend r B (put_vma B ne u) = Some w" "lists_ok w"
      "list_step r (put_vma B ne u) w"
      using ListPrepend_ok [OF ok(1,2) res none nf] by blast
    moreover have "SetUnsafe R B Off L F Pr v = Some w"
      using u(1) none Some ok(1) res w(1) by (simp add: SetUnsafe_def emplace_vma_eq ne_def first_def)
    ultimately show thesis using that ok(1) by (simp add: list_step_def cmap_put)
  qed
  then have vw: "vma_ok w" using spans by (simp add: vma_ok_def)
  have "cview (cmap w) a d \<longleftrightarrow> (if B \<le> a \<and> a < B + L then Some (R, Off + (a - B), F, Pr)
      else mapping_at v a) = Some d" for a d
  proof -
    have "covers (core ne) a \<longleftrightarrow> B \<le> a \<and> a < B + L"
      using end_ne by (simp add: covers_def word_le_nat_alt word_less_nat_alt del: covers_core)
    moreover have "desc (core ne) a = (R, Off + (a - B), F, Pr)" by (simp add: ne_def desc_def core_def)
    moreover have "cview (cmap w) a d \<longleftrightarrow> covers (core ne) a \<and> d = desc (core ne) a \<or> cview (cmap u) a d"
      unfolding w(4) by (rule cview_add) (simp add: cmap_def none)
    moreover have "cview (cmap u) a d \<longleftrightarrow> mapping_at u a = Some d" by (simp add: mapping_at_cview [OF u(2)])
    ultimately show ?thesis using u(3) by auto
  qed
  then have "mapping_at w a = (if B \<le> a \<and> a < B + L then Some (R, Off + (a - B), F, Pr)
         else mapping_at v a)" for a
    by (rule mapping_atI [OF vw])
  moreover have "Base (core ne) = B \<and> Offset (core ne) = Off \<and> Length (core ne) = L
      \<and> Resource (core ne) = R \<and> Flags (core ne) = F" by (simp add: ne_def)
  ultimately show ?thesis using w(1,4) vw u(1) by blast
qed

lemma SetUnsafe_mapping:
  assumes "vma_ok v" "unat B + unat L < 2 ^ 64" "L \<noteq> 0"
    "\<And>r. R = Some r \<Longrightarrow> get_resource r v \<noteq> None"
  shows "\<exists>v'. SetUnsafe R B Off L F Pr v = Some v' \<and> vma_ok v'
    \<and> (\<forall>a. mapping_at v' a = (if B \<le> a \<and> a < B + L then Some (R, Off + (a - B), F, Pr)
         else mapping_at v a))"
  using SetUnsafe_step [OF assms] by blast

section \<open>Looking up an address\<close>

lemma LookupVMAUnsafe_iff:
  assumes "vma_ok v"
  shows "LookupVMAUnsafe a v = Some (k, e) \<longleftrightarrow> get_vma k v = Some e \<and> covers e a"
proof -
  let ?m = "VMAs v" and ?i = "map_upper_bound (VMAs v) a"
  have m: "vma_maps_ok v" "map_ok ?m" and s: "spans_ok (cmap v)"
    using assms by (simp_all add: vma_ok_def vma_maps_ok_def)
  have fits: "fst e + Length (snd e) > a \<longleftrightarrow> unat a < map_end (snd e)" "Base (snd e) = fst e"
    if "e \<in> set ?m" for e
  proof -
    have "get_vma (fst e) v = Some (snd e)"
      using that m(2) by (simp add: get_vma_def map_of_eq_Some_iff map_ok_distinct)
    then have "cmap v (fst e) = Some (core (snd e))" by (simp add: cmap_def)
    from spansD [OF s this] show "Base (snd e) = fst e"
      "fst e + Length (snd e) > a \<longleftrightarrow> unat a < map_end (snd e)"
      using map_end_word [of "snd e"] by (simp_all add: word_less_nat_alt)
  qed
  show ?thesis
  proof
    assume "LookupVMAUnsafe a v = Some (k, e)"
    then have i: "?i \<noteq> 0" "?m ! (?i - 1) = (k, e)" "k \<le> a" "k + Length e > a"
      by (auto simp: LookupVMAUnsafe_def Let_def split: if_splits)
    have len: "?i - 1 < length ?m" using i(1) map_bounds_length(2) [of ?m a] by linarith
    then have "get_vma k v = Some e" using nth_get_vma [OF m(1) len] i(2) by simp
    moreover have "(k, e) \<in> set ?m" using len i(2) nth_mem by metis
    ultimately show "get_vma k v = Some e \<and> covers e a"
      using fits [of "(k, e)"] i(3,4) by (simp add: covers_def word_le_nat_alt)
  next
    assume ke: "get_vma k v = Some e \<and> covers e a"
    then have mem: "(k, e) \<in> set ?m" by (simp add: get_vma_def map_of_SomeD)
    then obtain j where j: "j < length ?m" "?m ! j = (k, e)" by (metis in_set_conv_nth)
    have "k \<le> a" using ke fits(2) [OF mem] by (simp add: covers_def word_le_nat_alt)
    then have ji: "j < ?i" using below_upper_iff [OF m(2) j(1)] j(2) by simp
    then have i1: "?i - 1 < length ?m" "?i - 1 < ?i" using map_bounds_length(2) [of ?m a] by linarith+
    have "j = ?i - 1"
    proof (rule ccontr)
      assume "j \<noteq> ?i - 1"
      then have lt: "j < ?i - 1" using ji by simp
      obtain k' e' where e': "?m ! (?i - 1) = (k', e')" by fastforce
      have "fst (?m ! j) < fst (?m ! (?i - 1))"
        using m(2) lt i1(1) by (simp add: map_ok_def sorted_wrt_iff_nth_less)
      then have "k < k'" using j(2) e' by simp
      moreover have "cmap v k' = Some (core e')"
        using nth_get_vma [OF m(1) i1(1)] e' by (simp add: cmap_def)
      ultimately have "map_end e \<le> unat k'"
        using spansD(4) [OF s, of k "core e" k' "core e'"] ke by (simp add: cmap_def)
      moreover have "k' \<le> a" using below_upper_iff [OF m(2) i1(1)] i1(2) e' by simp
      ultimately show False using ke by (simp add: covers_def word_le_nat_alt)
    qed
    then show "LookupVMAUnsafe a v = Some (k, e)"
      using ji j ke fits [OF mem] \<open>k \<le> a\<close> by (simp add: LookupVMAUnsafe_def Let_def covers_def)
  qed
qed

section \<open>Changing the protection of a range\<close>

definition middle :: "u64 \<Rightarrow> u64 \<Rightarrow> VMAProt \<Rightarrow> VMAEntry \<Rightarrow> VMAEntry" where
  "middle B T pr e = e\<lparr>Base := B, Offset := Offset e - Base e + B, Length := T - B, Prot := pr\<rparr>"

definition change_entry ::
  "u64 \<Rightarrow> u64 \<Rightarrow> VMAProt \<Rightarrow> u64 \<Rightarrow> VMAEntry \<Rightarrow> (u64 \<rightharpoonup> VMAEntry) \<Rightarrow> u64 \<rightharpoonup> VMAEntry" where
  "change_entry B T pr k e m =
     (let trail = T < Base e + Length e;
          m = (if k < B then m(k \<mapsto> e\<lparr>Length := B - k\<rparr>, B \<mapsto> middle B T pr e)
               else m(k \<mapsto> e\<lparr>Prot := pr, Length := if trail then T - k else Length e\<rparr>))
      in if trail then m(T \<mapsto> trailing T e) else m)"

definition chg :: "VMAProt \<Rightarrow> mapping \<Rightarrow> mapping" where
  "chg pr = (\<lambda>(r, off, f, _). (r, off, f, pr))"

lemma change_first_ok:
  assumes "vma_maps_ok v" "lists_ok v" "get_vma k v = Some e" "Base e = k"
    "k < B \<Longrightarrow> get_vma B v = None"
  shows "\<exists>c u. change_first B T pr k e v = Some (c, u) \<and> c = (if k < B then B else k)
    \<and> vma_maps_ok u \<and> lists_ok u \<and> keeps_below k v u
    \<and> cmap u = (if k < B then (cmap v)(k \<mapsto> (core e)\<lparr>Length := B - k\<rparr>, B \<mapsto> middle B T pr (core e))
        else (cmap v)(k \<mapsto> (core e)\<lparr>Prot := pr\<rparr>))"
proof (cases "k < B")
  case True
  let ?e = "e\<lparr>Length := B - Base e\<rparr>" let ?u = "put_vma k (e\<lparr>Length := B - Base e\<rparr>) v"
  have u: "vma_maps_ok ?u" "lists_ok ?u" "cmap ?u = (cmap v)(k \<mapsto> (core e)\<lparr>Length := B - k\<rparr>)"
    "keeps_below k v ?u" "get_vma k ?u = Some ?e" "get_vma B ?u = None"
    using assms True
    by (auto simp: vma_simps cmap_put core_def same_links_def keeps_below_put intro!: lists_ok_same_links)
  let ?ne = "\<lparr>Resource = Resource e, ResourcePrevVMA = Some k, ResourceNextVMA = ResourceNextVMA e,
    Base = B, Offset = Offset e - Base e + B, Length = T - B, Flags = Flags e, Prot = pr\<rparr>"
  obtain w where w: "(if Resource e = None then Some (put_vma B ?ne ?u)
      else ListInsertAfter k B (put_vma B ?ne ?u)) = Some w" "vma_maps_ok w" "lists_ok w"
    "cmap w = (cmap ?u)(B \<mapsto> core ?ne)" "keeps_below k ?u w"
    using insert_after [OF u(1,2,5,6), of ?ne] order.strict_implies_order [OF True] by auto
  have "change_first B T pr k e v = Some (B, w)"
    using w(1) True assms(4) u(1,5,6)
    by (cases "Resource e") (simp_all add: change_first_def Let_def update_vma_eq [OF assms(3)] emplace_vma_eq)
  moreover have "core ?ne = middle B T pr (core e)" by (simp add: core_def middle_def)
  moreover have "keeps_below k v w" by (rule keeps_below_trans [OF u(4) w(5) order_refl])
  ultimately show ?thesis using True w(2-4) u(3) by simp
next
  case False
  let ?u = "put_vma k (e\<lparr>Prot := pr\<rparr>) v"
  have "vma_maps_ok ?u" "lists_ok ?u" "cmap ?u = (cmap v)(k \<mapsto> (core e)\<lparr>Prot := pr\<rparr>)"
    "keeps_below k v ?u"
    using assms
    by (auto simp: vma_simps cmap_put core_def same_links_def keeps_below_put intro!: lists_ok_same_links)
  then show ?thesis
    using False assms(4) by (simp add: change_first_def Let_def update_vma_eq [OF assms(3)])
qed

lemma change_trailing_ok:
  assumes "vma_maps_ok u" "lists_ok u" "get_vma c u = Some f" "Base f = c" "Resource f = Resource e"
    "c < T" "T < Base e + Length e \<Longrightarrow> get_vma T u = None"
  shows "\<exists>w. change_trailing T e c u = Some w \<and> vma_maps_ok w \<and> lists_ok w \<and> keeps_below c u w
    \<and> cmap w = (if T < Base e + Length e
        then (cmap u)(c \<mapsto> (core f)\<lparr>Length := T - c\<rparr>, T \<mapsto> trailing T (core e)) else cmap u)"
proof (cases "T < Base e + Length e")
  case True
  let ?f = "f\<lparr>Length := T - Base f\<rparr>" let ?u = "put_vma c (f\<lparr>Length := T - Base f\<rparr>) u"
  have u: "vma_maps_ok ?u" "lists_ok ?u" "cmap ?u = (cmap u)(c \<mapsto> (core f)\<lparr>Length := T - c\<rparr>)"
    "keeps_below c u ?u" "get_vma c ?u = Some ?f" "get_vma T ?u = None"
    using assms True
    by (auto simp: vma_simps cmap_put core_def same_links_def keeps_below_put intro!: lists_ok_same_links)
  let ?ne = "\<lparr>Resource = Resource f, ResourcePrevVMA = Some c, ResourceNextVMA = ResourceNextVMA f,
    Base = T, Offset = Offset e - Base e + T, Length = Base e + Length e - T, Flags = Flags e,
    Prot = Prot e\<rparr>"
  obtain w where w: "(if Resource f = None then Some (put_vma T ?ne ?u)
      else ListInsertAfter c T (put_vma T ?ne ?u)) = Some w" "vma_maps_ok w" "lists_ok w"
    "cmap w = (cmap ?u)(T \<mapsto> core ?ne)" "keeps_below c ?u w"
    using insert_after [OF u(1,2,5,6), of ?ne] order.strict_implies_order [OF assms(6)] by auto
  have "change_trailing T e c u = Some w"
    using w(1) True u(1,5,6)
    by (cases "Resource f") (simp_all add: change_trailing_def Let_def update_vma_eq [OF assms(3)] emplace_vma_eq)
  moreover have "core ?ne = trailing T (core e)" using assms(5) by (simp add: core_def trailing_def)
  moreover have "keeps_below c u w" by (rule keeps_below_trans [OF u(4) w(5) order_refl])
  ultimately show ?thesis using True w(2-4) u(3) by simp
next
  case False
  then show ?thesis using assms(1,2) by (simp add: change_trailing_def Let_def keeps_below_refl)
qed

lemma change_mapping_ok:
  assumes "vma_ok v" "get_vma k v = Some e" "k < T" "unat B < map_end e" "B < T"
  shows "\<exists>v'. change_mapping B T pr k e v = Some v' \<and> vma_maps_ok v' \<and> lists_ok v'
    \<and> cmap v' = change_entry B T pr k (core e) (cmap v) \<and> keeps_below k v v'"
proof -
  have ok: "vma_maps_ok v" "lists_ok v" "spans_ok (cmap v)" using assms(1) by (simp_all add: vma_ok_def)
  have ck: "cmap v k = Some (core e)" using assms(2) by (simp add: cmap_def)
  have base: "Base e = k" using spansD(1) [OF ok(3) ck] by simp
  have top: "T < Base e + Length e \<Longrightarrow> get_vma T v = None"
    using clear_entry_parts(3) [OF ok(3) ck assms(3), of B] assms(4) by (simp add: cmap_def)
  have bot: "k < B \<Longrightarrow> get_vma B v = None"
  proof (rule ccontr)
    assume kB: "k < B" and "get_vma B v \<noteq> None"
    then obtain f where "cmap v B = Some f" by (auto simp: cmap_def)
    then show False using spansD(4) [OF ok(3) ck _ kB] assms(4) by simp
  qed
  obtain c u where u: "change_first B T pr k e v = Some (c, u)" "c = (if k < B then B else k)"
    "vma_maps_ok u" "lists_ok u" "keeps_below k v u"
    "cmap u = (if k < B then (cmap v)(k \<mapsto> (core e)\<lparr>Length := B - k\<rparr>, B \<mapsto> middle B T pr (core e))
        else (cmap v)(k \<mapsto> (core e)\<lparr>Prot := pr\<rparr>))"
    using change_first_ok [OF ok(1,2) assms(2) base bot, of T pr] by blast
  have "cmap u c \<noteq> None" using u(2,6) by auto
  then obtain f where f: "get_vma c u = Some f" by (auto simp: cmap_def)
  then have "cmap u c = Some (core f)" by (simp add: cmap_def)
  then have cf: "core f = (if k < B then middle B T pr (core e) else (core e)\<lparr>Prot := pr\<rparr>)"
    using u(2,6) by (auto split: if_splits)
  then have "Base (core f) = c" "Resource (core f) = Resource e"
    using u(2) base by (auto simp: middle_def)
  then have bf: "Base f = c" "Resource f = Resource e" by simp_all
  have cT: "c < T" "k \<le> c" using u(2) assms(3,5) by auto
  have "T < Base e + Length e \<Longrightarrow> cmap u T = None"
    using top u(6) assms(3,5) by (auto simp: cmap_def)
  then have "T < Base e + Length e \<Longrightarrow> get_vma T u = None" by (simp add: cmap_def)
  then obtain w where w: "change_trailing T e c u = Some w" "vma_maps_ok w" "lists_ok w"
    "keeps_below c u w" "cmap w = (if T < Base e + Length e
        then (cmap u)(c \<mapsto> (core f)\<lparr>Length := T - c\<rparr>, T \<mapsto> trailing T (core e)) else cmap u)"
    using change_trailing_ok [OF u(3,4) f bf cT(1)] by blast
  have "change_mapping B T pr k e v = Some w"
    using u(1) w(1) by (simp add: change_mapping_def)
  moreover have "cmap w = change_entry B T pr k (core e) (cmap v)"
    using w(5) u(2,6) cf base by (auto simp: change_entry_def Let_def middle_def fun_eq_iff)
  moreover have "keeps_below k v w" by (rule keeps_below_trans [OF u(5) w(4) cT(2)])
  ultimately show ?thesis using w(2,3) by blast
qed

text \<open>
  The parts of the changed mapping, for a mapping that starts below the range only if it reaches
  its end: the trimmed first part, the part in the range with the new protection, the trailing part.
\<close>

definition changed_span :: "u64 \<Rightarrow> u64 \<Rightarrow> u64 \<Rightarrow> VMAEntry \<Rightarrow> (u64 \<rightharpoonup> VMAEntry) \<Rightarrow> bool" where
  "changed_span B T k e m \<longleftrightarrow> spans_ok m \<and> m k = Some e \<and> k < T \<and> unat B < map_end e \<and> B < T
     \<and> (k < B \<longrightarrow> unat T \<le> map_end e)"

definition head_part :: "u64 \<Rightarrow> u64 \<Rightarrow> VMAProt \<Rightarrow> u64 \<Rightarrow> VMAEntry \<Rightarrow> VMAEntry" where
  "head_part B T pr k e = (if k < B then e\<lparr>Length := B - k\<rparr>
     else e\<lparr>Prot := pr, Length := if T < Base e + Length e then T - k else Length e\<rparr>)"

lemma changed_spanD:
  assumes "changed_span B T k e m"
  shows "spans_ok m" "m k = Some e" "k < T" "unat B < map_end e" "B < T"
    "k < B \<Longrightarrow> unat T \<le> map_end e" "Base e = k" "Length e \<noteq> 0"
    "unat (Base e + Length e) = map_end e" "unat k < unat T" "unat B < unat T"
    "k < B \<longleftrightarrow> unat k < unat B" "T < Base e + Length e \<longleftrightarrow> unat T < map_end e"
proof -
  show *: "spans_ok m" "m k = Some e" "k < T" "unat B < map_end e" "B < T"
    "k < B \<Longrightarrow> unat T \<le> map_end e" using assms by (simp_all add: changed_span_def)
  note e = spansD [OF *(1,2)]
  show "Base e = k" "Length e \<noteq> 0" "unat (Base e + Length e) = map_end e"
    using e map_end_word by auto
  then show "unat k < unat T" "unat B < unat T" "k < B \<longleftrightarrow> unat k < unat B"
    "T < Base e + Length e \<longleftrightarrow> unat T < map_end e"
    using * by (simp_all add: word_less_nat_alt)
qed

lemma change_entry_at:
  assumes "changed_span B T k e m"
  shows "change_entry B T pr k e m k = Some (head_part B T pr k e)"
    "k < B \<Longrightarrow> change_entry B T pr k e m B = Some (middle B T pr e)"
    "T < Base e + Length e \<Longrightarrow> change_entry B T pr k e m T = Some (trailing T e)"
    "x \<noteq> k \<Longrightarrow> \<not> (x = B \<and> k < B) \<Longrightarrow> \<not> (x = T \<and> T < Base e + Length e) \<Longrightarrow>
       change_entry B T pr k e m x = m x"
  using changed_spanD(3,5) [OF assms] by (auto simp: change_entry_def Let_def head_part_def)

lemma change_parts_end:
  assumes "changed_span B T k e m"
  shows "map_end (head_part B T pr k e)
      = (if k < B then unat B else if T < Base e + Length e then unat T else map_end e)"
    "map_end (middle B T pr e) = unat T"
    "T < Base e + Length e \<Longrightarrow> map_end (trailing T e) = map_end e"
    "Base (head_part B T pr k e) = k" "Base (middle B T pr e) = B" "Base (trailing T e) = T"
    "Length (head_part B T pr k e) \<noteq> 0" "Length (middle B T pr e) \<noteq> 0"
    "T < Base e + Length e \<Longrightarrow> Length (trailing T e) \<noteq> 0"
proof -
  note d = changed_spanD [OF assms]
  show "map_end (head_part B T pr k e)
      = (if k < B then unat B else if T < Base e + Length e then unat T else map_end e)"
    using d by (auto simp: head_part_def map_end_def unat_minus word_le_nat_alt)
  show "map_end (middle B T pr e) = unat T"
    using d by (simp add: middle_def map_end_def unat_minus word_le_nat_alt)
  show "T < Base e + Length e \<Longrightarrow> map_end (trailing T e) = map_end e"
    using d by (simp add: trailing_def map_end_def unat_minus word_le_nat_alt)
qed (use changed_spanD [OF assms] in
    \<open>auto simp: head_part_def middle_def trailing_def word_less_nat_alt\<close>)

lemma change_entry_cases:
  assumes "changed_span B T k e m" "change_entry B T pr k e m x = Some f"
  obtains (head) "x = k" "f = head_part B T pr k e"
    | (middle) "x = B" "k < B" "f = middle B T pr e"
    | (trail) "x = T" "T < Base e + Length e" "f = trailing T e"
    | (other) "x \<noteq> k" "\<not> (x = B \<and> k < B)" "\<not> (x = T \<and> T < Base e + Length e)" "m x = Some f"
proof (cases "x = k")
  case True
  then show thesis using head assms change_entry_at(1) [OF assms(1)] by simp
next
  case nk: False
  show thesis
  proof (cases "x = B \<and> k < B")
    case True
    then show thesis using middle assms change_entry_at(2) [OF assms(1)] by simp
  next
    case nB: False
    show thesis
    proof (cases "x = T \<and> T < Base e + Length e")
      case True
      then show thesis using trail assms change_entry_at(3) [OF assms(1)] by simp
    next
      case False
      then show thesis using other nk nB assms(2) change_entry_at(4) [OF assms(1) nk nB False] by simp
    qed
  qed
qed

lemma change_entry_spans:
  assumes cs: "changed_span B T k e m"
  shows "spans_ok (change_entry B T pr k e m)"
proof -
  let ?part = "\<lambda>x. x = B \<and> k < B \<or> x = T \<and> T < Base e + Length e"
  let ?par = "\<lambda>x. if ?part x then k else x"
  note d = changed_spanD [OF cs] and pe = change_parts_end [OF cs]
  show ?thesis
  proof (rule spans_refine [OF d(1), where par = ?par and orig = "\<lambda>x. the (m (?par x))"])
    fix x f
    assume "change_entry B T pr k e m x = Some f"
    then show "Base f = x \<and> Length f \<noteq> 0 \<and> m (?par x) = Some (the (m (?par x)))
        \<and> unat (?par x) \<le> unat x \<and> map_end f \<le> map_end (the (m (?par x)))"
    proof (cases rule: change_entry_cases [OF cs, consumes 1, case_names head middle trail other])
      case other
      then show ?thesis using spansD [OF d(1) other(4)] by auto
    qed (use d(2,4,6,10-13) pe in auto)
  next
    fix x f y g
    assume x: "change_entry B T pr k e m x = Some f" and y: "change_entry B T pr k e m y = Some g"
      and lt: "x < y" and par: "?par x = ?par y"
    have lt': "unat x < unat y" using lt by (simp add: word_less_nat_alt)
    from y show "map_end f \<le> unat y"
    proof (cases rule: change_entry_cases [OF cs, consumes 1, case_names head middle trail other])
      case head
      then show ?thesis using lt' par d(10,12) by (auto split: if_splits)
    next
      case middle
      then have "x = k" using lt' par d(11) by (auto split: if_splits)
      then have "f = head_part B T pr k e" using x change_entry_at(1) [OF cs] by simp
      then show ?thesis using middle pe(1) by simp
    next
      case trail
      then have "x = k \<or> x = B \<and> k < B" using lt' par by (auto split: if_splits)
      then have "f = head_part B T pr k e \<or> f = middle B T pr e \<and> k < B"
        using x change_entry_at(1,2) [OF cs] by auto
      then show ?thesis using trail pe(1,2) d(11) by auto
    next
      case other
      then show ?thesis using lt' par d(10,12) by (auto split: if_splits)
    qed
  qed
qed

lemma change_covers:
  assumes cs: "changed_span B T k e m"
  shows "k < B \<Longrightarrow> covers (head_part B T pr k e) a \<longleftrightarrow> covers e a \<and> a < B"
    "\<not> k < B \<Longrightarrow> covers (head_part B T pr k e) a \<longleftrightarrow> covers e a \<and> a < T"
    "k < B \<Longrightarrow> covers (middle B T pr e) a \<longleftrightarrow> covers e a \<and> B \<le> a \<and> a < T"
    "T < Base e + Length e \<Longrightarrow> covers (trailing T e) a \<longleftrightarrow> covers e a \<and> T \<le> a"
    "\<not> T < Base e + Length e \<Longrightarrow> covers e a \<Longrightarrow> a < T"
    "\<not> k < B \<Longrightarrow> covers e a \<Longrightarrow> B \<le> a"
proof -
  note d = changed_spanD [OF cs] and pe = change_parts_end [OF cs]
  show "covers (head_part B T pr k e) a \<longleftrightarrow> covers e a \<and> a < B" if "k < B"
    using d(4,7) that by (auto simp: covers_def pe word_less_nat_alt)
  show "covers (head_part B T pr k e) a \<longleftrightarrow> covers e a \<and> a < T" if "\<not> k < B"
    using d(7,13) that by (auto simp: covers_def pe word_less_nat_alt)
  show "covers (middle B T pr e) a \<longleftrightarrow> covers e a \<and> B \<le> a \<and> a < T" if "k < B"
    using d(6,7,12) that by (auto simp: covers_def pe word_less_nat_alt word_le_nat_alt)
  show "covers (trailing T e) a \<longleftrightarrow> covers e a \<and> T \<le> a" if "T < Base e + Length e"
    using d(7,10) that by (auto simp: covers_def pe word_le_nat_alt)
  show "a < T" if "\<not> T < Base e + Length e" "covers e a"
    using that d(13) by (auto simp: covers_def word_less_nat_alt)
  show "B \<le> a" if "\<not> k < B" "covers e a"
    using that d(7,12) by (auto simp: covers_def word_le_nat_alt)
qed

lemma desc_changed:
  "desc (middle B T pr e) a = chg pr (desc e a)" "k < B \<Longrightarrow> desc (head_part B T pr k e) a = desc e a"
  "\<not> k < B \<Longrightarrow> desc (head_part B T pr k e) a = chg pr (desc e a)"
  by (simp_all add: desc_def middle_def head_part_def chg_def)

lemma change_entry_view:
  assumes cs: "changed_span B T k e m"
  shows "cview (change_entry B T pr k e m) a d \<longleftrightarrow>
    (if B \<le> a \<and> a < T \<and> covers e a then d = chg pr (desc e a) else cview m a d)"
proof -
  let ?m = "change_entry B T pr k e m"
  note D = changed_spanD [OF cs] and cov = change_covers [OF cs] and at = change_entry_at [OF cs]
  have sp: "spans_ok ?m" by (rule change_entry_spans [OF cs])
  have vI: "cview n a (desc f a)" if "n x = Some f" "covers f a" for n x f
    using that by (auto simp: cview_def)
  show ?thesis
  proof (cases "covers e a")
    case True
    have "cview m a (desc e a)" by (rule vI [where n = m, OF D(2) True])
    then have m: "cview m a d \<longleftrightarrow> d = desc e a" using cview_unique [OF D(1)] by blast
    have new: "cview ?m a (if B \<le> a \<and> a < T then chg pr (desc e a) else desc e a)"
    proof (cases "a < T")
      case False
      then have "T < Base e + Length e" using cov(5) True by blast
      then have "cview ?m a (desc (trailing T e) a)" using False True cov(4) by (intro vI [where n = ?m, OF at(3)]) auto
      then show ?thesis using False by simp
    next
      case lt: True
      show ?thesis
      proof (cases "k < B")
        case kB: True
        show ?thesis
        proof (cases "B \<le> a")
          case ge: True
          then have "cview ?m a (desc (middle B T pr e) a)"
            using lt True kB cov(3) by (intro vI [where n = ?m, OF at(2)]) auto
          then show ?thesis using ge lt by (simp add: desc_changed)
        next
          case False
          then have "cview ?m a (desc (head_part B T pr k e) a)"
            using True kB cov(1) by (intro vI [where n = ?m, OF at(1)]) auto
          then show ?thesis using False kB by (simp add: desc_changed)
        qed
      next
        case False
        then have "cview ?m a (desc (head_part B T pr k e) a)"
          using True lt cov(2) by (intro vI [where n = ?m, OF at(1)]) auto
        then show ?thesis using False lt cov(6) True by (simp add: desc_changed)
      qed
    qed
    then have "cview ?m a d \<longleftrightarrow> d = (if B \<le> a \<and> a < T then chg pr (desc e a) else desc e a)"
      using cview_unique [OF sp _ new, of d] by blast
    then show ?thesis using m True by simp
  next
    case False
    have "cview ?m a d \<longleftrightarrow> cview m a d"
    proof
      assume "cview ?m a d"
      then obtain x f where x: "?m x = Some f" "covers f a" "d = desc f a" by (auto simp: cview_def)
      from x(1) have "m x = Some f"
      proof (cases rule: change_entry_cases [OF cs, consumes 1, case_names head middle trail other])
        case head
        then show ?thesis using x(2) False cov(1,2) by (cases "k < B") auto
      next
        case middle
        then show ?thesis using x(2) False cov(3) by auto
      next
        case trail
        then show ?thesis using x(2) False cov(4) by auto
      qed
      then show "cview m a d" using x vI [where n = m] by simp
    next
      assume "cview m a d"
      then obtain x f where x: "m x = Some f" "covers f a" "d = desc f a" by (auto simp: cview_def)
      then have "x \<noteq> k" using D(2) False by auto
      moreover have "\<not> (x = B \<and> k < B)"
        using spansD(4) [OF D(1,2) x(1)] D(4) by auto
      moreover have "\<not> (x = T \<and> T < Base e + Length e)"
        using spansD(4) [OF D(1,2) x(1)] D(3,13) by auto
      ultimately have "?m x = m x" by (rule at(4))
      then show "cview ?m a d" using x vI [where n = ?m] by simp
    qed
    then show ?thesis using False by simp
  qed
qed

definition short_head :: "u64 \<Rightarrow> u64 \<Rightarrow> VMAProt \<Rightarrow> VMAEntry \<Rightarrow> bool" where
  "short_head B T pr e \<longleftrightarrow> Prot e \<noteq> pr \<and> Base e < B \<and> unat B < map_end e \<and> map_end e < unat T"

lemma chg_same: "Prot e = pr \<Longrightarrow> chg pr (desc e a) = desc e a"
  by (simp add: chg_def desc_def)

lemma change_loop_ok:
  assumes "vma_ok v" "i \<le> length (VMAs v)" "B < T"
    "\<And>x. x \<in> set (take i (map fst (VMAs v))) \<Longrightarrow> x < T"
    "\<And>x e. x \<in> set (take i (map fst (VMAs v))) \<Longrightarrow> cmap v x = Some e \<Longrightarrow> \<not> short_head B T pr e"
  shows "\<exists>v'. change_loop B T pr i v = Some v' \<and> vma_ok v'
    \<and> (\<forall>a d. cview (cmap v') a d \<longleftrightarrow>
         (if B \<le> a \<and> a < T \<and> covered (take i (map fst (VMAs v))) (cmap v) a
          then \<exists>d'. cview (cmap v) a d' \<and> d = chg pr d' else cview (cmap v) a d))"
  using assms(1,2,4,5)
proof (induction i arbitrary: v)
  case 0
  then show ?case by (simp add: covered_def)
next
  case (Suc i)
  obtain k e where ke: "VMAs v ! i = (k, e)" by fastforce
  have ok: "vma_maps_ok v" "spans_ok (cmap v)" "map_ok (VMAs v)"
    using Suc.prems(1) by (simp_all add: vma_ok_def vma_maps_ok_def)
  have len: "i < length (VMAs v)" using Suc.prems(2) by simp
  have get: "get_vma k v = Some e" using nth_get_vma [OF ok(1) len] ke by simp
  then have ck: "cmap v k = Some (core e)" by (simp add: cmap_def)
  have keys: "take (Suc i) (map fst (VMAs v)) = take i (map fst (VMAs v)) @ [k]"
    using take_Suc_keys [OF len] ke by simp
  have below: "x < k" if "x \<in> set (take i (map fst (VMAs v)))" for x
    using keys_below [OF ok(3) len that] ke by simp
  have kT: "k < T" using Suc.prems(3) keys by simp
  have end_word: "unat (Base e + Length e) = map_end e"
    using map_end_word [of e] spansD(3) [OF ok(2) ck] by simp
  have cov: "covered (take (Suc i) (map fst (VMAs v))) (cmap v) a
      \<longleftrightarrow> covered (take i (map fst (VMAs v))) (cmap v) a \<or> covers e a" for a
    unfolding keys using ck by (auto simp: covered_def)
  have at_e: "cview (cmap v) a d \<longleftrightarrow> d = desc e a" if "covers e a" for a d
  proof -
    have "cview (cmap v) a (desc e a)" using ck that unfolding cview_def by (metis covers_core(1,3))
    then show ?thesis using cview_unique [OF ok(2)] by blast
  qed
  show ?case
  proof (cases "Base e + Length e \<le> B")
    case True
    have "\<not> (B \<le> a \<and> covered (take (Suc i) (map fst (VMAs v))) (cmap v) a)" for a
      unfolding keys by (rule covered_before [OF ok(2) ck below end_word True])
    then show ?thesis using True Suc.prems(1) ke by (auto simp: Let_def)
  next
    case False
    then have meets: "unat B < map_end e" using end_word by (simp add: word_le_nat_alt)
    show ?thesis
    proof (cases "Prot e = pr")
      case same: True
      have "x < T" "\<And>e. cmap v x = Some e \<Longrightarrow> \<not> short_head B T pr e"
        if "x \<in> set (take i (map fst (VMAs v)))" for x
        using that Suc.prems(3,4) keys by auto
      with Suc.IH [OF Suc.prems(1) order.strict_implies_order [OF len]]
      obtain v' where v': "change_loop B T pr i v = Some v'" "vma_ok v'"
        "\<forall>a d. cview (cmap v') a d \<longleftrightarrow>
         (if B \<le> a \<and> a < T \<and> covered (take i (map fst (VMAs v))) (cmap v) a
          then \<exists>d'. cview (cmap v) a d' \<and> d = chg pr d' else cview (cmap v) a d)" by blast
      have "change_loop B T pr (Suc i) v = Some v'"
        using False same ke v'(1) by (simp add: Let_def)
      moreover have chg: "(\<exists>d'. cview (cmap v) a d' \<and> d = chg pr d') \<longleftrightarrow> cview (cmap v) a d"
        if "covers e a" for a d using at_e [OF that] chg_same [OF same] by simp
      have "cview (cmap v') a d \<longleftrightarrow>
         (if B \<le> a \<and> a < T \<and> covered (take (Suc i) (map fst (VMAs v))) (cmap v) a
          then \<exists>d'. cview (cmap v) a d' \<and> d = chg pr d' else cview (cmap v) a d)" for a d
        using v'(3) [rule_format, of a d] chg [of a d] unfolding cov
        by (cases "covers e a") (simp_all del: split_paired_Ex)
      ultimately show ?thesis using v'(2) by blast
    next
      case diff: False
      have base: "Base e = k" using spansD(1) [OF ok(2) ck] by simp
      have cs: "changed_span B T k (core e) (cmap v)"
        using ok(2) ck kT meets assms(3) Suc.prems(4) [of k "core e"] keys diff base
        by (auto simp: changed_span_def short_head_def)
      obtain v1 where v1: "change_mapping B T pr k e v = Some v1" "vma_maps_ok v1" "lists_ok v1"
        "cmap v1 = change_entry B T pr k (core e) (cmap v)" "keeps_below k v v1"
        using change_mapping_ok [OF Suc.prems(1) get kT meets assms(3), of pr] by blast
      have ok1: "vma_ok v1" using v1 change_entry_spans [OF cs] by (simp add: vma_ok_def)
      have keep: "i \<le> length (VMAs v1)" "take i (map fst (VMAs v1)) = take i (map fst (VMAs v))"
        using v1(5) below Suc.prems(2) by (simp_all add: keeps_below_def)
      have same: "cmap v1 x = cmap v x" if "x \<in> set (take i (map fst (VMAs v)))" for x
        using below [OF that] kT unfolding v1(4) by (intro change_entry_at(4) [OF cs]) auto
      have "x < T" "\<And>e. cmap v1 x = Some e \<Longrightarrow> \<not> short_head B T pr e"
        if "x \<in> set (take i (map fst (VMAs v1)))" for x
        using that Suc.prems(3,4) keys same unfolding keep(2) by auto
      with Suc.IH [OF ok1 keep(1)]
      obtain v' where v': "change_loop B T pr i v1 = Some v'" "vma_ok v'"
        "\<forall>a d. cview (cmap v') a d \<longleftrightarrow>
         (if B \<le> a \<and> a < T \<and> covered (take i (map fst (VMAs v1))) (cmap v1) a
          then \<exists>d'. cview (cmap v1) a d' \<and> d = chg pr d' else cview (cmap v1) a d)" by blast
      have run: "change_loop B T pr (Suc i) v = Some v'"
        using False diff ke v1(1) v'(1) by (simp add: Let_def)
      have cov1: "covered (take i (map fst (VMAs v1))) (cmap v1) a
          = covered (take i (map fst (VMAs v))) (cmap v) a" for a
        unfolding keep(2) covered_def using same by (auto intro!: bex_cong)
      have excl: "\<not> covered (take i (map fst (VMAs v))) (cmap v) a" if "covers e a" for a
        using spans_unique [OF ok(2) ck] that below by (fastforce simp: covered_def)
      have step: "cview (cmap v1) a d \<longleftrightarrow> (if B \<le> a \<and> a < T \<and> covers e a
          then \<exists>d'. cview (cmap v) a d' \<and> d = chg pr d' else cview (cmap v) a d)" for a d
        using change_entry_view [OF cs, of pr a d] at_e [of a] unfolding v1(4) by simp
      have "cview (cmap v') a d \<longleftrightarrow>
         (if B \<le> a \<and> a < T \<and> covered (take (Suc i) (map fst (VMAs v))) (cmap v) a
          then \<exists>d'. cview (cmap v) a d' \<and> d = chg pr d' else cview (cmap v) a d)" for a d
        using v'(3) [rule_format, of a d] excl [of a] unfolding cov cov1
        by (cases "covers e a") (simp_all add: step del: split_paired_Ex)
      with run show ?thesis using v'(2) by blast
    qed
  qed
qed

lemma lower_keys:
  assumes "map_ok m"
  shows "x \<in> set (take (map_lower_bound m T) (map fst m)) \<longleftrightarrow> x \<in> fst ` set m \<and> x < T"
  using map_take_lower [OF assms, of T] by (auto simp: take_map)

lemma ChangeUnsafe_mapping:
  assumes "vma_ok v" "unat B + unat L < 2 ^ 64" "L \<noteq> 0"
    "\<And>k e. get_vma k v = Some e \<Longrightarrow> \<not> short_head B (B + L) pr e"
  shows "\<exists>v'. ChangeUnsafe B L pr v = Some v' \<and> vma_ok v'
    \<and> (\<forall>a. mapping_at v' a = (if B \<le> a \<and> a < B + L then map_option (chg pr) (mapping_at v a)
         else mapping_at v a))"
proof -
  let ?T = "B + L" and ?i = "map_lower_bound (VMAs v) (B + L)"
  let ?ks = "take ?i (map fst (VMAs v))"
  have m: "map_ok (VMAs v)" using assms(1) by (simp add: vma_ok_def vma_maps_ok_def)
  have BT: "B < ?T" using assms(2,3) by (simp add: word_less_nat_alt unat_word_ariths unat_gt_0)
  have lt: "x < ?T" if "x \<in> set ?ks" for x using that lower_keys [OF m] by blast
  have no: "\<not> short_head B ?T pr e" if "x \<in> set ?ks" "cmap v x = Some e" for x e
    using that(2) assms(4) [of x] by (auto simp: cmap_def short_head_def)
  have all: "covered ?ks (cmap v) a" if view: "cview (cmap v) a d" and lt: "a < ?T" for a d
  proof -
    obtain k e where ke: "cmap v k = Some e" "covers e a" using view by (auto simp: cview_def)
    then have "Base e = k" using spansD(1) assms(1) unfolding vma_ok_def by blast
    then have "k < ?T" using lt ke(2) by (auto simp: covers_def word_less_nat_alt)
    moreover have "k \<in> fst ` set (VMAs v)"
      using ke(1) by (auto simp: cmap_def get_vma_def dest!: map_of_SomeD intro: rev_image_eqI)
    ultimately show ?thesis using ke lower_keys [OF m] unfolding covered_def by blast
  qed
  have "\<exists>v'. change_loop B ?T pr ?i v = Some v' \<and> vma_ok v'
    \<and> (\<forall>a d. cview (cmap v') a d \<longleftrightarrow> (if B \<le> a \<and> a < ?T \<and> covered ?ks (cmap v) a
          then \<exists>d'. cview (cmap v) a d' \<and> d = chg pr d' else cview (cmap v) a d))"
    by (rule change_loop_ok [OF assms(1) map_bounds_length(1) BT]) (erule lt, erule (1) no)
  then obtain v' where v': "change_loop B ?T pr ?i v = Some v'" "vma_ok v'"
    "\<forall>a d. cview (cmap v') a d \<longleftrightarrow> (if B \<le> a \<and> a < ?T \<and> covered ?ks (cmap v) a
          then \<exists>d'. cview (cmap v) a d' \<and> d = chg pr d' else cview (cmap v) a d)" by blast
  have "mapping_at v' a = (if B \<le> a \<and> a < ?T then map_option (chg pr) (mapping_at v a)
         else mapping_at v a)" for a
  proof (rule mapping_atI [OF v'(2)])
    fix d
    show "cview (cmap v') a d \<longleftrightarrow> (if B \<le> a \<and> a < ?T then map_option (chg pr) (mapping_at v a)
         else mapping_at v a) = Some d"
    proof (cases "B \<le> a \<and> a < ?T")
      case True
      then have "cview (cmap v') a d \<longleftrightarrow> (\<exists>d'. cview (cmap v) a d' \<and> d = chg pr d')"
        using v'(3) [rule_format, of a d] all [of a] by metis
      then show ?thesis using True mapping_at_cview [OF assms(1), of a]
        by (simp add: map_option_eq_Some eq_commute [of d] del: split_paired_Ex)
    next
      case False
      then show ?thesis using v'(3) [rule_format, of a d] mapping_at_cview [OF assms(1), of a d] by auto
    qed
  qed
  with v'(1,2) show ?thesis unfolding ChangeUnsafe_def Let_def by blast
qed

section \<open>The empty state and new resources\<close>

text \<open>A resource is entered with an empty list before its first mapping is set.\<close>

definition new_resource :: "MRID \<Rightarrow> 'e option \<Rightarrow> u64 \<Rightarrow> 'e VMATracking \<Rightarrow> 'e VMATracking" where
  "new_resource r aot len v = v\<lparr>MappedResources := map_emplace r
     \<lparr>AOTIRCacheEntry = aot, FirstVMA = None, ResourceLength = len\<rparr> (MappedResources v)\<rparr>"

definition empty_tracking :: "'e VMATracking" where
  "empty_tracking = \<lparr>VMAs = [], MappedResources = [], Unloaded = []\<rparr>"

lemma empty_tracking_ok: "vma_ok empty_tracking"
  by (auto simp: vma_ok_def vma_maps_ok_def lists_ok_def list_ok_def nodes_of_def spans_ok_def
      cmap_def get_vma_def get_resource_def empty_tracking_def)

lemma new_resource_ok:
  assumes "vma_ok v"
  shows "vma_ok (new_resource r aot len v)"
proof -
  let ?v = "new_resource r aot len v"
  have m: "vma_maps_ok v" and l: "lists_ok v" using assms by (simp_all add: vma_ok_def)
  have get: "get_vma k ?v = get_vma k v" for k by (simp add: get_vma_def new_resource_def)
  have res: "get_resource r' ?v = (if r' = r \<and> get_resource r v = None
      then Some \<lparr>AOTIRCacheEntry = aot, FirstVMA = None, ResourceLength = len\<rparr> else get_resource r' v)" for r'
    using m by (auto simp: get_resource_def new_resource_def std_map_simps vma_maps_ok_def split: option.splits)
  have "\<exists>xs. list_ok ?v r' xs" for r'
  proof -
    obtain xs where "list_ok v r' xs" using l by (auto simp: lists_ok_def)
    then have "list_ok ?v r' xs" by (auto simp: list_ok_def nodes_of_def get res)
    then show ?thesis by blast
  qed
  moreover have "vma_maps_ok ?v" using m by (simp add: vma_maps_ok_def new_resource_def map_ok_emplace)
  moreover have "cmap ?v = cmap v" by (simp add: cmap_def get fun_eq_iff)
  ultimately show ?thesis using assms by (simp add: vma_ok_def lists_ok_def)
qed

section \<open>Properties of the tracking\<close>

text \<open>
  C4: \<^verbatim>\<open>ClearUnsafe\<close> unmaps exactly the addresses of its range: it succeeds, every address inside
  loses its mapping, every other keeps resource, offset, flags and protection, and the state stays
  well formed, so that none of the list assertions fails.
\<close>

theorem ClearUnsafe_correct:
  assumes "vma_ok v" "unat B + unat L < 2 ^ 64"
  shows "\<exists>v'. ClearUnsafe B L P v = Some v' \<and> vma_ok v'
    \<and> (\<forall>a. mapping_at v' a = (if B \<le> a \<and> a < B + L then None else mapping_at v a))"
  using ClearUnsafe_mapping [OF assms] by blast

text \<open>
  C20: \<^verbatim>\<open>SetUnsafe\<close> maps exactly the addresses of its range to the new resource at increasing
  offsets and leaves all others as they are, replacing whatever was mapped there.
\<close>

theorem SetUnsafe_correct:
  assumes "vma_ok v" "unat B + unat L < 2 ^ 64" "L \<noteq> 0"
    "\<And>r. R = Some r \<Longrightarrow> get_resource r v \<noteq> None"
  shows "\<exists>v'. SetUnsafe R B Off L F Pr v = Some v' \<and> vma_ok v'
    \<and> (\<forall>a. mapping_at v' a = (if B \<le> a \<and> a < B + L then Some (R, Off + (a - B), F, Pr)
         else mapping_at v a))"
  by (rule SetUnsafe_mapping [OF assms])

text \<open>
  C22: \<^verbatim>\<open>ChangeUnsafe\<close> changes the protection of exactly the mapped addresses of its range and
  nothing else, provided no mapping that needs the change starts below the range and ends inside it.
\<close>

theorem ChangeUnsafe_correct:
  assumes "vma_ok v" "unat B + unat L < 2 ^ 64" "L \<noteq> 0"
    "\<And>k e. get_vma k v = Some e \<Longrightarrow> \<not> short_head B (B + L) pr e"
  shows "\<exists>v'. ChangeUnsafe B L pr v = Some v' \<and> vma_ok v'
    \<and> (\<forall>a. mapping_at v' a = (if B \<le> a \<and> a < B + L
         then map_option (\<lambda>(r, off, f, _). (r, off, f, pr)) (mapping_at v a) else mapping_at v a))"
  unfolding chg_def [symmetric] by (rule ChangeUnsafe_mapping [OF assms(1-3)]) (erule assms(4))

text \<open>
  \<^verbatim>\<open>LookupVMAUnsafe\<close> by binary search on the ordered map returns the entry that covers the
  address if there is one and nothing otherwise, as a search through all entries does.
\<close>

theorem LookupVMAUnsafe_correct:
  assumes "vma_ok v"
  shows "LookupVMAUnsafe a v = List.find (\<lambda>e. covers (snd e) a) (VMAs v)"
proof -
  have "LookupVMAUnsafe a v = Some e \<longleftrightarrow> List.find (\<lambda>e. covers (snd e) a) (VMAs v) = Some e" for e
    using LookupVMAUnsafe_iff [OF assms, of a "fst e" "snd e"]
      find_covering [OF assms, of a "fst e" "snd e"] by simp
  then show ?thesis by (metis not_Some_eq)
qed

text \<open>Sample mappings for the statements below.\<close>

definition rw :: VMAProt where "rw = \<lparr>Readable = True, Writable = True, Executable = False\<rparr>"
definition ro :: VMAProt where "ro = \<lparr>Readable = True, Writable = False, Executable = False\<rparr>"
definition private_flags :: VMAFlags where "private_flags = \<lparr>Shared = False\<rparr>"

definition private_vma :: "u64 \<Rightarrow> u64 \<Rightarrow> VMAProt \<Rightarrow> VMAEntry" where
  "private_vma b len pr = \<lparr>Resource = None, ResourcePrevVMA = None, ResourceNextVMA = None, Base = b,
     Offset = 0, Length = len, Flags = private_flags, Prot = pr\<rparr>"

definition two_vmas :: "nat VMATracking" where
  "two_vmas = \<lparr>VMAs = [(0x1000, private_vma 0x1000 0x2000 rw), (0x3000, private_vma 0x3000 0x4000 rw)],
     MappedResources = [], Unloaded = []\<rparr>"

lemmas sample_vma_defs = two_vmas_def private_vma_def rw_def ro_def private_flags_def

text \<open>
  Two adjacent mappings \<open>[0x1000, 0x3000)\<close> and \<open>[0x3000, 0x7000)\<close>, a change of protection of
  \<open>[0x2000, 0x6000)\<close> that starts inside the first and ends inside the second: the part split off the
  first is given the length of the whole range, the tracked VMAs overlap, and unmapping
  \<open>[0x4000, 0x5000)\<close> afterwards fails the tracking assertion.
\<close>

theorem ChangeUnsafe_overlap:
  "map_option (\<lambda>v'. (map (\<lambda>(k, e). (k, k + Length e)) (VMAs v'), ClearUnsafe 0x4000 0x1000 None v'))
     (ChangeUnsafe 0x2000 0x4000 ro two_vmas)
   = Some ([(0x1000, 0x2000), (0x2000, 0x6000), (0x3000, 0x6000), (0x6000, 0x7000)], None)"
  by code_simp

text \<open>The sample state is reached by setting its two mappings.\<close>

definition one_vma :: "nat VMATracking" where
  "one_vma = \<lparr>VMAs = [(0x1000, private_vma 0x1000 0x2000 rw)], MappedResources = [], Unloaded = []\<rparr>"

lemma set_two_vmas:
  "SetUnsafe None 0x1000 0 0x2000 private_flags rw empty_tracking = Some one_vma"
  "SetUnsafe None 0x3000 0 0x4000 private_flags rw one_vma = Some two_vmas"
  by code_simp+

lemma two_vmas_ok: "vma_ok two_vmas"
proof -
  have "vma_ok one_vma"
    using SetUnsafe_mapping [of "empty_tracking :: nat VMATracking" "0x1000" "0x2000" None 0 private_flags rw]
      empty_tracking_ok set_two_vmas(1) by auto
  then show ?thesis
    using SetUnsafe_mapping [of one_vma "0x3000" "0x4000" None 0 private_flags rw] set_two_vmas(2) by auto
qed

lemma two_vmas_mappings:
  "mapping_at two_vmas 0x4000 = Some (None, 0x1000, private_flags, rw)"
  "mapping_at two_vmas 0x2800 = Some (None, 0x1800, private_flags, rw)"
  "mapping_at two_vmas 0x1800 = Some (None, 0x800, private_flags, rw)"
  by (simp_all add: mapping_at_def covers_def map_end_def desc_def two_vmas_def private_vma_def)

lemma sample_range: "unat (0x2000 :: u64) + unat (0x2000 :: u64) < 2 ^ 64"
  by simp

lemma sample_bounds: "(0x2000 :: u64) \<le> 0x2800" "(0x2800 :: u64) < 0x2000 + 0x2000"
  "\<not> (0x4000 :: u64) < 0x2000 + 0x2000" "(0x2000 :: u64) + 0x2000 = 0x4000" "(0x2000 :: u64) \<noteq> 0"
  by simp_all

theorem ClearUnsafe_correct_witness:
  "\<exists>v'. ClearUnsafe 0x2000 0x2000 None two_vmas = Some v' \<and> mapping_at v' 0x2800 = None
    \<and> mapping_at v' 0x4000 = Some (None, 0x1000, private_flags, rw)"
proof -
  note two_vmas_mappings
  moreover obtain v' where "ClearUnsafe 0x2000 0x2000 None two_vmas = Some v'"
    "\<forall>a. mapping_at v' a = (if 0x2000 \<le> a \<and> a < 0x2000 + 0x2000 then None else mapping_at two_vmas a)"
    using ClearUnsafe_correct [OF two_vmas_ok sample_range, of None] by blast
  moreover note sample_bounds
  ultimately show ?thesis by metis
qed

theorem SetUnsafe_correct_witness:
  "\<exists>v'. SetUnsafe None 0x2000 0x8000 0x2000 private_flags ro two_vmas = Some v'
    \<and> mapping_at v' 0x2800 = Some (None, 0x8800, private_flags, ro)
    \<and> mapping_at v' 0x4000 = Some (None, 0x1000, private_flags, rw)"
proof -
  note two_vmas_mappings
  moreover obtain v' where "SetUnsafe None 0x2000 0x8000 0x2000 private_flags ro two_vmas = Some v'"
    "\<forall>a. mapping_at v' a = (if 0x2000 \<le> a \<and> a < 0x2000 + 0x2000
      then Some (None, 0x8000 + (a - 0x2000), private_flags, ro) else mapping_at two_vmas a)"
    using SetUnsafe_correct [OF two_vmas_ok sample_range sample_bounds(5), of None "0x8000" private_flags ro]
    by blast
  moreover note sample_bounds
  moreover have "0x8000 + (0x2800 - 0x2000) = (0x8800 :: u64)" by simp
  ultimately show ?thesis by metis
qed

theorem ChangeUnsafe_correct_witness:
  "\<exists>v'. ChangeUnsafe 0x2000 0x1000 ro two_vmas = Some v'
    \<and> mapping_at v' 0x2800 = Some (None, 0x1800, private_flags, ro)
    \<and> mapping_at v' 0x1800 = Some (None, 0x800, private_flags, rw)"
proof -
  have "\<not> short_head 0x2000 (0x2000 + 0x1000) ro e" if "get_vma k two_vmas = Some e" for k e
    using that by (auto simp: get_vma_def sample_vma_defs short_head_def map_end_def split: if_splits)
  moreover note two_vmas_mappings
  ultimately show ?thesis
    using ChangeUnsafe_correct [OF two_vmas_ok, of "0x2000" "0x1000" ro] by auto
qed

theorem LookupVMAUnsafe_correct_witness:
  "LookupVMAUnsafe 0x2800 two_vmas = Some (0x1000, private_vma 0x1000 0x2000 rw)"
proof -
  have "List.find (\<lambda>e. covers (snd e) 0x2800) (VMAs two_vmas)
      = Some (0x1000, private_vma 0x1000 0x2000 rw)" by code_simp
  then show ?thesis by (simp add: LookupVMAUnsafe_correct [OF two_vmas_ok])
qed

end
