(* ===== verification/VMA_Shm.thy ===== *)
theory VMA_Shm
  imports VMA_Props
begin

text \<open>
  \<^verbatim>\<open>ClearShmUnsafe\<close>, the operation behind \<^verbatim>\<open>shmdt\<close>: which mappings its search and its loop remove, that it never
  fails on a well-formed state, and the states reachable by all tracking operations with the invariant that holds in
  them.
\<close>

section \<open>Removing a shared memory segment\<close>

lemma cmap_dom: "dom (cmap v) = fst ` set (VMAs v)"
proof -
  have "dom (cmap v) = dom (map_of (VMAs v))" by (auto simp: cmap_def get_vma_def)
  then show ?thesis by (simp add: dom_map_of_conv_image_fst)
qed

lemma nth_cmap:
  assumes "vma_ok v" "i < length (VMAs v)"
  shows "cmap v (fst (VMAs v ! i)) = Some (core (snd (VMAs v ! i)))" "Base (snd (VMAs v ! i)) = fst (VMAs v ! i)"
proof -
  show "cmap v (fst (VMAs v ! i)) = Some (core (snd (VMAs v ! i)))"
    using nth_get_vma [OF _ assms(2)] assms(1) by (simp add: cmap_def vma_ok_def)
  then show "Base (snd (VMAs v ! i)) = fst (VMAs v ! i)"
    using spansD(1) [of "cmap v" "fst (VMAs v ! i)" "core (snd (VMAs v ! i))"] assms(1) by (simp add: vma_ok_def)
qed

lemma keys_from:
  fixes m :: "(u64, 'v) std_map"
  assumes "map_ok m" "i < length m"
  shows "set (drop (Suc i) (map fst m)) = {x \<in> fst ` set m. fst (m ! i) < x}"
proof -
  have s: "sorted_wrt (<) (map fst m)" using assms(1) by (simp add: map_ok_def)
  have "set (take (Suc i) (map fst m)) \<union> set (drop (Suc i) (map fst m)) = fst ` set m"
    by (metis append_take_drop_id set_append set_map)
  moreover have "\<not> fst (m ! i) < x" if "x \<in> set (take (Suc i) (map fst m))" for x
    using that keys_below [OF assms, of x] assms(2) by (auto simp: take_Suc_keys)
  moreover have "fst (m ! i) < x" if "x \<in> set (drop (Suc i) (map fst m))" for x
    using that s assms(2) by (auto simp: in_set_conv_nth sorted_wrt_iff_nth_less)
  ultimately show ?thesis by blast
qed

lemma keys_erased:
  fixes m m' :: "(u64, 'v) std_map"
  assumes "map_ok m" "map_ok m'" "i < length m" "fst ` set m' = fst ` set m - {fst (m ! i)}"
  shows "map fst m' = take i (map fst m) @ drop (Suc i) (map fst m)"
proof -
  let ?ks = "map fst m"
  have s: "sorted_wrt (<) ?ks" "sorted_wrt (<) (map fst m')" using assms(1,2) by (simp_all add: map_ok_def)
  have ks: "?ks = take i ?ks @ fst (m ! i) # drop (Suc i) ?ks"
    using assms(3) id_take_nth_drop [of i ?ks] by simp
  have "distinct ?ks" by (rule map_ok_distinct [OF assms(1)])
  then have "set (take i ?ks @ drop (Suc i) ?ks) = set ?ks - {fst (m ! i)}"
    by (subst (3) ks, subst (asm) ks) auto
  moreover have "sorted_wrt (<) (take i ?ks @ drop (Suc i) ?ks)"
    using s(1) by (subst (asm) ks) (simp add: sorted_wrt_append)
  ultimately show ?thesis using s(2) assms(4) by (intro strict_sorted_equal) simp_all
qed

lemma shm_step_ok:
  assumes "vma_ok v" "i < length (VMAs v)" "VMAs v ! i = (k, e)"
  shows "\<exists>i1 v1. (if Resource e = Some r then do {
       (empty, v) \<leftarrow> ListRemove k v;
       v \<leftarrow> (if empty then drop_resource r v else Some v);
       Some (i, erase_vma k v)
     } else Some (Suc i, v)) = Some (i1, v1) \<and> vma_ok v1
    \<and> i1 \<le> length (VMAs v1) \<and> drop i1 (map fst (VMAs v1)) = drop (Suc i) (map fst (VMAs v))
    \<and> cmap v1 = (if Resource e = Some r then (cmap v)(k := None) else cmap v)"
proof (cases "Resource e = Some r")
  case True
  have m: "vma_maps_ok v" using assms(1) by (simp add: vma_ok_def)
  have get: "get_vma k v = Some e" using nth_get_vma [OF m assms(2)] assms(3) by simp
  obtain v1 where v1: "clear_mapping (Base e) (Base e + Length e) None k e v = Some v1" "vma_maps_ok v1" "lists_ok v1"
    "cmap v1 = (cmap v)(k := None)"
    using clear_whole [OF assms(1) get, of "Base e" "Base e + Length e" None] by auto
  have "spans_ok (cmap v1)" using assms(1) unfolding v1(4) by (auto simp: vma_ok_def spans_ok_def)
  then have ok: "vma_ok v1" using v1(2,3) by (simp add: vma_ok_def)
  have "fst ` set (VMAs v1) = fst ` set (VMAs v) - {k}" using v1(4) by (simp flip: cmap_dom)
  then have keys: "map fst (VMAs v1) = take i (map fst (VMAs v)) @ drop (Suc i) (map fst (VMAs v))"
    using keys_erased [of "VMAs v" "VMAs v1" i] m v1(2) assms(2,3) by (simp add: vma_maps_ok_def)
  have "i \<le> length (VMAs v1)" using arg_cong [OF keys, of length] assms(2) by simp
  moreover have "drop i (map fst (VMAs v1)) = drop (Suc i) (map fst (VMAs v))" using assms(2) by (simp add: keys)
  moreover have "do {
       (empty, v) \<leftarrow> ListRemove k v;
       v \<leftarrow> (if empty then drop_resource r v else Some v);
       Some (i, erase_vma k v)
     } = Some (i, v1)"
    using True v1(1) by (auto simp: clear_mapping_def bind_eq_Some_conv split: if_splits)
  ultimately show ?thesis using True ok v1(4) by (intro exI [of _ i] exI [of _ v1]) simp
next
  case False
  then show ?thesis using assms by auto
qed

text \<open>The entries the loop removes from the one at \<open>k0\<close> on.\<close>

definition within :: "u64 \<Rightarrow> u64 \<Rightarrow> VMAEntry \<Rightarrow> bool" where
  "within B S e \<longleftrightarrow> Base e + Length e - B \<le> S"

definition shm_gone :: "u64 \<Rightarrow> u64 \<Rightarrow> MRID \<Rightarrow> u64 \<Rightarrow> (u64 \<rightharpoonup> VMAEntry) \<Rightarrow> u64 \<Rightarrow> bool" where
  "shm_gone B S r k0 m k \<longleftrightarrow>
     (\<exists>e. m k = Some e \<and> Resource e = Some r \<and> k0 \<le> k \<and> (k = k0 \<or> within B S e))"

lemma within_core [simp]: "within B S (core e) = within B S e"
  by (simp add: within_def)

lemma within_mono:
  assumes "spans_ok m" "m k = Some e" "m k' = Some e'" "B \<le> k" "k < k'" "within B S e'"
  shows "within B S e"
proof -
  note d = spansD [OF assms(1,2)] and d' = spansD [OF assms(1,3)]
  have e: "unat (Base e + Length e) = map_end e" "unat (Base e' + Length e') = map_end e'"
    using map_end_word d(3) d'(3) by auto
  have "map_end e \<le> map_end e'"
    using d(4) [OF assms(3,5)] d'(1) by (simp add: map_end_def)
  moreover have "unat B \<le> map_end e"
    using assms(4) d(1) by (simp add: map_end_def word_le_nat_alt)
  ultimately have "Base e + Length e - B \<le> Base e' + Length e' - B"
    by (simp add: word_le_nat_alt unat_minus e)
  then show ?thesis using assms(6) by (simp add: within_def)
qed

text \<open>The loop stops after the entry at \<open>k\<close>, or goes on with the next one, at \<open>k1\<close>.\<close>

abbreviation remove_shm :: "u64 \<Rightarrow> u64 \<Rightarrow> MRID \<Rightarrow> u64 \<Rightarrow> (u64 \<rightharpoonup> VMAEntry) \<Rightarrow> u64 \<rightharpoonup> VMAEntry" where
  "remove_shm B S r k0 m \<equiv> (\<lambda>k. if shm_gone B S r k0 m k then None else m k)"

lemma remove_shm_stop:
  assumes "m k = Some e" "\<And>x e'. k < x \<Longrightarrow> m x = Some e' \<Longrightarrow> \<not> within B S e'"
  shows "(if Resource e = Some r then m(k := None) else m) = remove_shm B S r k m"
  using assms by (auto simp: shm_gone_def fun_eq_iff le_less)

lemma remove_shm_next:
  assumes "m k = Some e" "m k1 = Some e1" "within B S e1" "k < k1" "\<And>x. m x \<noteq> None \<Longrightarrow> k < x \<Longrightarrow> k1 \<le> x"
    "m1 = (if Resource e = Some r then m(k := None) else m)"
  shows "remove_shm B S r k1 m1 = remove_shm B S r k m"
proof
  fix x
  have "shm_gone B S r k m x \<longleftrightarrow> shm_gone B S r k1 m1 x \<or> x = k \<and> Resource e = Some r"
    using assms(1-4,6) assms(5) [of x] by (auto simp: shm_gone_def le_less)
  then show "remove_shm B S r k1 m1 x = remove_shm B S r k m x" using assms(6) by auto
qed

lemma next_key:
  assumes "vma_ok v1" "i1 < length (VMAs v1)" "set (drop i1 (map fst (VMAs v1))) = {x. m x \<noteq> None \<and> k < x}"
  shows "k < fst (VMAs v1 ! i1)" "m x \<noteq> None \<Longrightarrow> k < x \<Longrightarrow> fst (VMAs v1 ! i1) \<le> x"
proof -
  have dr: "drop i1 (map fst (VMAs v1)) = fst (VMAs v1 ! i1) # drop (Suc i1) (map fst (VMAs v1))"
    using assms(2) by (simp add: Cons_nth_drop_Suc [symmetric])
  show "k < fst (VMAs v1 ! i1)" using assms(3) unfolding dr by auto
  have "map_ok (VMAs v1)" using assms(1) by (simp add: vma_ok_def vma_maps_ok_def)
  moreover have "x \<in> set (drop i1 (map fst (VMAs v1)))" if "m x \<noteq> None" "k < x" using assms(3) that by blast
  ultimately show "fst (VMAs v1 ! i1) \<le> x" if "m x \<noteq> None" "k < x"
    using keys_from [OF _ assms(2)] that unfolding dr by auto
qed

lemma shm_loop_ok:
  assumes "vma_ok v" "i < length (VMAs v)" "n = length (VMAs v) - i" "B \<le> fst (VMAs v ! i)"
  shows "\<exists>v'. shm_loop B S r n i v = Some v' \<and> vma_ok v' \<and> cmap v' = remove_shm B S r (fst (VMAs v ! i)) (cmap v)"
  using assms
proof (induction n arbitrary: i v)
  case (Suc n)
  obtain k e where ke: "VMAs v ! i = (k, e)" by (rule prod.exhaust)
  obtain i1 v1 where step: "(if Resource e = Some r then do {
       (empty, v) \<leftarrow> ListRemove k v;
       v \<leftarrow> (if empty then drop_resource r v else Some v);
       Some (i, erase_vma k v)
     } else Some (Suc i, v)) = Some (i1, v1)" and ok: "vma_ok v1"
    and keys: "drop i1 (map fst (VMAs v1)) = drop (Suc i) (map fst (VMAs v))"
    and c1: "cmap v1 = (if Resource e = Some r then (cmap v)(k := None) else cmap v)"
    using shm_step_ok [OF Suc.prems(1,2) ke, of r] by blast
  have ck: "cmap v k = Some (core e)" using nth_cmap(1) [OF Suc.prems(1,2)] ke by simp
  have s: "spans_ok (cmap v)" "map_ok (VMAs v)" using Suc.prems(1) by (simp_all add: vma_ok_def vma_maps_ok_def)
  have after: "set (drop i1 (map fst (VMAs v1))) = {x. cmap v x \<noteq> None \<and> k < x}"
    unfolding keys keys_from [OF s(2) Suc.prems(2)] ke using cmap_dom [of v] by (auto simp: domIff)
  have len: "length (VMAs v1) - i1 = n" using arg_cong [OF keys, of length] Suc.prems(2,3) by simp
  let ?k1 = "fst (VMAs v1 ! i1)" and ?e1 = "snd (VMAs v1 ! i1)"
  let ?more = "i1 < length (VMAs v1) \<and> within B S ?e1"
  have unf: "shm_loop B S r (Suc n) i v = (if ?more then shm_loop B S r n i1 v1 else Some v1)"
    unfolding shm_loop.simps ke Let_def split within_def using step by simp
  have ce: "cmap v ?k1 = Some (core ?e1)" if "i1 < length (VMAs v1)"
    using nth_cmap(1) [OF ok that] c1 next_key(1) [OF ok that after] by (auto split: if_splits)
  have B: "B \<le> k" using Suc.prems(4) ke by simp
  show ?case
  proof (cases ?more)
    case False
    have "\<not> within B S e'" if x: "k < x" "cmap v x = Some e'" for x e'
    proof (cases "i1 < length (VMAs v1)")
      case True
      have "?k1 \<le> x" "k < ?k1" using next_key [OF ok True after] x by auto
      then show ?thesis
        using within_mono [OF s(1) ce [OF True] x(2), of B S] ce [OF True] x(2) False True B by force
    next
      case False
      then have "{x. cmap v x \<noteq> None \<and> k < x} = {}" using after by simp
      then show ?thesis using x by blast
    qed
    then have "cmap v1 = remove_shm B S r k (cmap v)" using remove_shm_stop [where m = "cmap v", OF ck] c1 by simp
    then show ?thesis using unf False ok ke by auto
  next
    case True
    note nk = next_key [OF ok conjunct1 [OF True] after]
    have "B \<le> ?k1" using B nk(1) by simp
    then obtain v' where v': "shm_loop B S r n i1 v1 = Some v'" "vma_ok v'" "cmap v' = remove_shm B S r ?k1 (cmap v1)"
      using Suc.IH [OF ok conjunct1 [OF True] len [symmetric]] by blast
    moreover have "remove_shm B S r ?k1 (cmap v1) = remove_shm B S r k (cmap v)"
      using True nk c1 by (intro remove_shm_next [where m = "cmap v", OF ck ce]) auto
    ultimately show ?thesis using unf True ke by auto
  qed
qed simp

text \<open>The entry the search finds: the first shared memory mapping at or after the address that starts at its offset from it.\<close>

definition shm_start :: "u64 \<Rightarrow> VMAEntry \<Rightarrow> bool" where
  "shm_start B e \<longleftrightarrow> Base e - B = Offset e \<and> (\<exists>r. Resource e = Some r \<and> mr_dev r = SpecialDev_SHM)"

lemma shm_search_eq:
  "\<forall>x \<in> set xs. B \<le> Base (snd x) \<Longrightarrow>
   shm_search B xs = Some (length (takeWhile (\<lambda>x. \<not> shm_start B (snd x)) xs))"
  by (induction B xs rule: shm_search.induct) (auto simp: shm_start_def split: option.splits)

lemma find_takeWhile:
  "List.find Q xs = (let n = length (takeWhile (\<lambda>x. \<not> Q x) xs) in if n < length xs then Some (xs ! n) else None)"
  by (induction xs) (auto simp: Let_def)

lemma find_from_bound:
  assumes "map_ok m" "\<And>x. x \<in> set m \<Longrightarrow> P x \<longleftrightarrow> B \<le> fst x \<and> Q x"
  shows "List.find P m = (let i = map_lower_bound m B + length (takeWhile (\<lambda>x. \<not> Q x) (drop (map_lower_bound m B) m))
    in if i < length m then Some (m ! i) else None)"
  using assms
proof (induction m)
  case (Cons x m)
  show ?case
  proof (cases "fst x < B")
    case True
    then show ?thesis using Cons by (cases x) (auto simp: map_lower_bound_def Let_def)
  next
    case False
    then have "\<forall>y \<in> set (x # m). B \<le> fst y" using Cons.prems(1) by (cases x) (auto simp: not_less intro: less_imp_le order_trans)
    then have "List.find P (x # m) = List.find Q (x # m)" using Cons.prems(2) by (intro find_cong) auto
    then show ?thesis using False find_takeWhile [of Q "x # m"] by (simp add: map_lower_bound_def)
  qed
qed (simp add: map_lower_bound_def)

lemma ClearShmUnsafe_run:
  assumes "vma_ok v"
  shows "\<exists>len v'. ClearShmUnsafe B v = Some (len, v') \<and> vma_ok v'
    \<and> (case List.find (\<lambda>(k, e). B \<le> k \<and> shm_start B e) (VMAs v) of
         None \<Rightarrow> len = 0 \<and> v' = v
       | Some (k0, e0) \<Rightarrow> \<exists>r res. Resource e0 = Some r \<and> get_resource r v = Some res \<and> len = ResourceLength res
           \<and> cmap v' = remove_shm B len r k0 (cmap v))"
proof -
  let ?s = "map_lower_bound (VMAs v) B"
  let ?i = "?s + length (takeWhile (\<lambda>x. \<not> shm_start B (snd x)) (drop ?s (VMAs v)))"
  have m: "map_ok (VMAs v)" "lists_ok v" using assms by (simp_all add: vma_ok_def vma_maps_ok_def)
  have "B \<le> Base (snd x)" if "x \<in> set (drop ?s (VMAs v))" for x
  proof -
    have x: "x \<in> set (VMAs v)" "B \<le> fst x" using that unfolding map_drop_lower [OF m(1)] by auto
    then obtain i where "i < length (VMAs v)" "VMAs v ! i = x" by (auto simp: in_set_conv_nth)
    then show ?thesis using nth_cmap(2) [OF assms] x(2) by auto
  qed
  then have search: "shm_search B (drop ?s (VMAs v)) = Some (?i - ?s)" by (simp add: shm_search_eq)
  have find: "List.find (\<lambda>(k, e). B \<le> k \<and> shm_start B e) (VMAs v) = (if ?i < length (VMAs v) then Some (VMAs v ! ?i) else None)"
    using find_from_bound [OF m(1), of _ B "\<lambda>x. shm_start B (snd x)"] by (auto simp: Let_def split_beta)
  have le: "?i \<le> length (VMAs v)"
    using length_takeWhile_le [of _ "drop ?s (VMAs v)"] map_bounds_length(1) [of "VMAs v" B] by (simp add: le_diff_conv2 add.commute)
  show ?thesis
  proof (cases "?i < length (VMAs v)")
    case False
    then have "?i = length (VMAs v)" using le by linarith
    then show ?thesis using search assms find by (simp add: ClearShmUnsafe_def)
  next
    case True
    obtain k0 e0 where ke: "VMAs v ! ?i = (k0, e0)" by (rule prod.exhaust)
    have found: "List.find (\<lambda>(k, e). B \<le> k \<and> shm_start B e) (VMAs v) = Some (k0, e0)"
      using find True ke by (simp only: if_True)
    obtain r where r: "B \<le> k0" "Resource e0 = Some r"
      using find_SomeD [OF found] by (auto simp: shm_start_def)
    have "get_vma k0 v = Some e0" using nth_get_vma [OF _ True] assms ke by (simp add: vma_ok_def)
    moreover obtain xs where "list_ok v r xs" using m(2) by (auto simp: lists_ok_def)
    ultimately obtain res where res: "get_resource r v = Some res"
      using r(2) by (auto simp: list_ok_def nodes_of_def split: option.splits)
    obtain v' where "shm_loop B (ResourceLength res) r (length (VMAs v) - ?i) ?i v = Some v'" "vma_ok v'"
      "cmap v' = remove_shm B (ResourceLength res) r k0 (cmap v)"
      using shm_loop_ok [OF assms True refl, of B "ResourceLength res" r] ke r(1) by auto
    moreover from this have "ClearShmUnsafe B v = Some (ResourceLength res, v')"
      using search True ke r(2) res by (simp add: ClearShmUnsafe_def)
    ultimately show ?thesis unfolding found using r(2) res by auto
  qed
qed

text \<open>
  C23: \<^verbatim>\<open>ClearShmUnsafe\<close> returns on every well-formed state and keeps it well formed. When no shared memory mapping at
  or after the address starts at its own offset from it, nothing changes and the result is zero. Otherwise the result
  is the length of the segment of the first such mapping, and exactly that mapping and the later mappings of the same
  segment that end within the length from the address are removed; every other mapping keeps its fields.
\<close>

theorem ClearShmUnsafe_correct:
  assumes "vma_ok v"
  shows "\<exists>len v'. ClearShmUnsafe B v = Some (len, v') \<and> vma_ok v'
    \<and> (case List.find (\<lambda>(k, e). B \<le> k \<and> shm_start B e) (VMAs v) of
         None \<Rightarrow> len = 0 \<and> v' = v
       | Some (k0, e0) \<Rightarrow> \<exists>r res. Resource e0 = Some r \<and> get_resource r v = Some res \<and> len = ResourceLength res
           \<and> (\<forall>k. cmap v' k = (if \<exists>e. get_vma k v = Some e \<and> Resource e = Some r \<and> k0 \<le> k
                 \<and> (k = k0 \<or> Base e + Length e - B \<le> len) then None else cmap v k)))"
proof -
  have gone: "shm_gone B S r k0 (cmap v) k \<longleftrightarrow> (\<exists>e. get_vma k v = Some e \<and> Resource e = Some r \<and> k0 \<le> k
      \<and> (k = k0 \<or> Base e + Length e - B \<le> S))" for S r k0 k
    by (auto simp: shm_gone_def within_def cmap_def)
  show ?thesis using ClearShmUnsafe_run [OF assms, of B] unfolding gone fun_eq_iff .
qed

section \<open>Reachable tracking states\<close>

text \<open>
  The calls the system call handlers make on the tracking, with what the kernel guarantees for
  them: ranges inside the address space, non-empty for a new mapping or a change of protection.
  A change of protection is a step unless a mapping that needs it starts below the range and ends inside it
  (\<^const>\<open>short_head\<close>): for such a mapping \<^verbatim>\<open>ChangeUnsafe\<close> gives the part it splits off the length of the whole range,
  and the mappings overlap afterwards.
\<close>

inductive vma_reach :: "'e VMATracking \<Rightarrow> bool" where
  init: "vma_reach empty_tracking"
| resource: "vma_reach v \<Longrightarrow> vma_reach (new_resource r aot len v)"
| clear: "vma_reach v \<Longrightarrow> unat B + unat L < 2 ^ 64 \<Longrightarrow> ClearUnsafe B L P v = Some v' \<Longrightarrow> vma_reach v'"
| set: "vma_reach v \<Longrightarrow> unat B + unat L < 2 ^ 64 \<Longrightarrow> L \<noteq> 0 \<Longrightarrow>
    (\<And>r. R = Some r \<Longrightarrow> get_resource r v \<noteq> None) \<Longrightarrow>
    SetUnsafe R B Off L F Pr v = Some v' \<Longrightarrow> vma_reach v'"
| change: "vma_reach v \<Longrightarrow> unat B + unat L < 2 ^ 64 \<Longrightarrow> L \<noteq> 0 \<Longrightarrow>
    (\<And>k e. get_vma k v = Some e \<Longrightarrow> \<not> short_head B (B + L) Pr e) \<Longrightarrow>
    ChangeUnsafe B L Pr v = Some v' \<Longrightarrow> vma_reach v'"
| shm: "vma_reach v \<Longrightarrow> ClearShmUnsafe B v = Some (len, v') \<Longrightarrow> vma_reach v'"

lemma vma_reach_ok: "vma_reach v \<Longrightarrow> vma_ok v"
proof (induction rule: vma_reach.induct)
  case init
  show ?case by (rule empty_tracking_ok)
next
  case (resource v r aot len)
  then show ?case by (simp add: new_resource_ok)
next
  case (clear v B L P v')
  then show ?case using ClearUnsafe_mapping [of v B L P] by auto
next
  case (set v B L R Off F Pr v')
  then show ?case using SetUnsafe_mapping [of v B L R Off F Pr] by auto
next
  case (change v B L Pr v')
  then show ?case using ChangeUnsafe_mapping [of v B L Pr] by auto
next
  case (shm v B len v')
  then show ?case using ClearShmUnsafe_run [of v B] by auto
qed

text \<open>
  C13: In every tracking state reached by new resources, unmapping, mapping, detaching of shared memory and those
  changes of protection for which no mapping to be changed starts below the range and ends inside it, the VMAs are keyed by their base, non-empty and pairwise
  disjoint, and the intrusive list of every resource is a well-formed doubly linked list that runs
  through exactly the VMAs of the resource, each once.
\<close>

theorem vma_tracking_invariant:
  assumes "vma_reach v"
  shows "(\<forall>k e. get_vma k v = Some e \<longrightarrow> Base e = k \<and> Length e \<noteq> 0
      \<and> (\<forall>k' e'. get_vma k' v = Some e' \<longrightarrow> k < k' \<longrightarrow> unat k + unat (Length e) \<le> unat k'))
    \<and> (\<forall>r. \<exists>xs. list_ok v r xs)"
proof -
  have ok: "vma_ok v" by (rule vma_reach_ok [OF assms])
  then have s: "spans_ok (cmap v)" and l: "lists_ok v" by (simp_all add: vma_ok_def)
  have "Base e = k \<and> Length e \<noteq> 0" if "get_vma k v = Some e" for k e
    using spansD [of "cmap v" k "core e"] s that by (simp add: cmap_def)
  moreover have "unat k + unat (Length e) \<le> unat k'"
    if "get_vma k v = Some e" "get_vma k' v = Some e'" "k < k'" for k e k' e'
    using spansD(4) [OF s, of k "core e" k' "core e'"] spansD(1) [OF s, of k "core e"] that
    by (simp add: cmap_def map_end_def)
  ultimately show ?thesis using l by (simp add: lists_ok_def)
qed

section \<open>Instances\<close>

text \<open>
  A shared memory segment of three pages with a private page mapped over its middle: detaching it removes both of its
  parts and leaves the private page.
\<close>

definition seg :: MRID where "seg = MRID SpecialDev_SHM 7"

definition seg_vma :: "u64 \<Rightarrow> u64 \<Rightarrow> u64 option \<Rightarrow> u64 option \<Rightarrow> VMAEntry" where
  "seg_vma b len p n = (private_vma b len rw)\<lparr>Resource := Some seg, ResourcePrevVMA := p, ResourceNextVMA := n, Offset := b - 0x1000\<rparr>"

definition seg_vmas :: "nat VMATracking" where
  "seg_vmas = \<lparr>VMAs = [(0x1000, seg_vma 0x1000 0x1000 None (Some 0x3000)), (0x2000, private_vma 0x2000 0x1000 rw),
      (0x3000, seg_vma 0x3000 0x1000 (Some 0x1000) None)],
     MappedResources = [(seg, \<lparr>AOTIRCacheEntry = None, FirstVMA = Some 0x1000, ResourceLength = 0x3000\<rparr>)], Unloaded = []\<rparr>"

lemma seg_vmas_reach: "vma_reach seg_vmas"
proof -
  let ?v0 = "new_resource seg None 0x3000 (empty_tracking :: nat VMATracking)"
  have "SetUnsafe (Some seg) 0x1000 0 0x3000 private_flags rw ?v0 \<bind> SetUnsafe None 0x2000 0 0x1000 private_flags rw
      = Some seg_vmas" by code_simp
  then obtain v1 where v1: "SetUnsafe (Some seg) 0x1000 0 0x3000 private_flags rw ?v0 = Some v1"
    "SetUnsafe None 0x2000 0 0x1000 private_flags rw v1 = Some seg_vmas" by (auto simp: bind_eq_Some_conv)
  have "get_resource seg ?v0 \<noteq> None" by code_simp
  then have "vma_reach v1"
    by (intro vma_reach.set [OF vma_reach.resource [OF vma_reach.init] _ _ _ v1(1)]) simp_all
  then show ?thesis by (rule vma_reach.set [OF _ _ _ _ v1(2)]) simp_all
qed

theorem ClearShmUnsafe_correct_witness:
  "\<exists>v'. ClearShmUnsafe 0x1000 seg_vmas = Some (0x3000, v') \<and> cmap v' 0x1000 = None \<and> cmap v' 0x3000 = None
    \<and> cmap v' 0x2000 = Some (private_vma 0x2000 0x1000 rw)"
proof -
  have found: "List.find (\<lambda>(k, e). 0x1000 \<le> k \<and> shm_start 0x1000 e) (VMAs seg_vmas)
      = Some (0x1000, seg_vma 0x1000 0x1000 None (Some 0x3000))"
    by (simp add: seg_vmas_def seg_vma_def shm_start_def private_vma_def seg_def)
  have gets: "get_vma 0x1000 seg_vmas = Some (seg_vma 0x1000 0x1000 None (Some 0x3000))"
    "get_vma 0x2000 seg_vmas = Some (private_vma 0x2000 0x1000 rw)"
    "get_vma 0x3000 seg_vmas = Some (seg_vma 0x3000 0x1000 (Some 0x1000) None)"
    "get_resource seg seg_vmas = Some \<lparr>AOTIRCacheEntry = None, FirstVMA = Some 0x1000, ResourceLength = 0x3000\<rparr>"
    by (simp_all add: seg_vmas_def get_vma_def get_resource_def)
  obtain v' where "ClearShmUnsafe 0x1000 seg_vmas = Some (0x3000, v')" and v': "cmap v' k =
      (if \<exists>e. get_vma k seg_vmas = Some e \<and> Resource e = Some seg \<and> 0x1000 \<le> k
        \<and> (k = 0x1000 \<or> Base e + Length e - 0x1000 \<le> 0x3000) then None else cmap seg_vmas k)" for k
    using ClearShmUnsafe_correct [OF vma_reach_ok [OF seg_vmas_reach], of "0x1000"]
    by (auto simp: found gets seg_vma_def)
  moreover have "cmap seg_vmas 0x2000 = Some (private_vma 0x2000 0x1000 rw)"
    by (simp add: cmap_def gets core_def private_vma_def)
  moreover have "cmap v' 0x1000 = None" "cmap v' 0x3000 = None" "cmap v' 0x2000 = cmap seg_vmas 0x2000"
    unfolding v' gets by (simp_all add: seg_vma_def private_vma_def)
  ultimately show ?thesis by auto
qed

theorem vma_tracking_invariant_witness:
  "get_vma 0x1000 seg_vmas = Some (seg_vma 0x1000 0x1000 None (Some 0x3000))
    \<and> unat (0x1000 :: u64) + unat (Length (seg_vma 0x1000 0x1000 None (Some 0x3000))) \<le> unat (0x3000 :: u64)
    \<and> (\<exists>xs. list_ok seg_vmas seg xs)"
proof -
  have "get_vma 0x1000 seg_vmas = Some (seg_vma 0x1000 0x1000 None (Some 0x3000))"
    "get_vma 0x3000 seg_vmas = Some (seg_vma 0x3000 0x1000 (Some 0x1000) None)"
    by (simp_all add: seg_vmas_def get_vma_def)
  moreover have "(0x1000 :: u64) < 0x3000" by simp
  ultimately show ?thesis using vma_tracking_invariant [OF seg_vmas_reach] by blast
qed

end
