(* ===== verification/SMC_Tracking.thy ===== *)
theory SMC_Tracking
  imports Code_Core VMA_Props
begin

text \<open>
  The memory management side of self-modifying code detection
  (\<^verbatim>\<open>LinuxSyscalls/SyscallsSMCTracking.cpp\<close>): the hooks of the memory syscalls keep the VMA tracking up to
  date and drop the code of the pages they change, \<^verbatim>\<open>MarkGuestExecutableRange\<close> write-protects pages whose
  code was compiled, together with all their mirrors, and \<^verbatim>\<open>HandleSegfault\<close> answers the write fault that
  follows. The host's \<^verbatim>\<open>mprotect\<close> and the file system are arguments. An operation yields \<^const>\<open>None\<close>
  where the program stops at an assertion.
\<close>

unbundle bit_operations_syntax

section \<open>Flag words\<close>

definition PROT_READ :: u32 where "PROT_READ = 1"
definition PROT_WRITE :: u32 where "PROT_WRITE = 2"
definition PROT_EXEC :: u32 where "PROT_EXEC = 4"
definition MAP_SHARED :: u32 where "MAP_SHARED = 1"
definition MAP_ANONYMOUS :: u32 where "MAP_ANONYMOUS = 0x20"
definition MREMAP_DONTUNMAP :: u32 where "MREMAP_DONTUNMAP = 4"
definition SHM_RDONLY :: u32 where "SHM_RDONLY = 0x1000"

lemmas flag_words = PROT_READ_def PROT_WRITE_def PROT_EXEC_def MAP_SHARED_def MAP_ANONYMOUS_def
  MREMAP_DONTUNMAP_def SHM_RDONLY_def

definition FEX_PAGE_SIZE :: u64 where "FEX_PAGE_SIZE = 4096"
definition FEX_PAGE_MASK :: u64 where "FEX_PAGE_MASK = NOT (FEX_PAGE_SIZE - 1)"

definition AlignUp :: "u64 \<Rightarrow> u64 \<Rightarrow> u64" where
  "AlignUp value sz = value + (sz - value mod sz) mod sz"

definition AlignDown :: "u64 \<Rightarrow> u64 \<Rightarrow> u64" where
  "AlignDown value sz = value - value mod sz"

definition fromProt :: "u32 \<Rightarrow> VMAProt" where
  "fromProt prot = \<lparr>Readable = (prot AND PROT_READ) \<noteq> 0, Writable = (prot AND PROT_WRITE) \<noteq> 0,
     Executable = (prot AND PROT_EXEC) \<noteq> 0\<rparr>"

definition fromSHM :: "u32 \<Rightarrow> VMAProt" where
  "fromSHM SHMFlg = \<lparr>Readable = True,
     Writable = (if (SHMFlg AND SHM_RDONLY) \<noteq> 0 then False else True), Executable = False\<rparr>"

definition fromFlags :: "u32 \<Rightarrow> VMAFlags" where
  "fromFlags flags = \<lparr>Shared = (flags AND MAP_SHARED) \<noteq> 0\<rparr>"

section \<open>State\<close>

datatype SMCMode = CONFIG_SMC_NONE | CONFIG_SMC_MTRACK | CONFIG_SMC_FULL | CONFIG_SMC_MMAN

record ('d, 'g, 'b, 'e, 'h) SyscallHandler =
  Tracking :: "'e VMATracking"
  SMCChecks :: SMCMode
  AnonSharedId :: u64
  Threads :: "('d, 'g, 'b) ThreadState list"
  IsMemoryShared :: bool
  TSOAutoMigration :: bool
  Host :: 'h

type_synonym ('d, 'g, 'b, 'e, 'h) handler_op =
  "('d, 'g, 'b, 'e, 'h) SyscallHandler \<Rightarrow> ('d, 'g, 'b, 'e, 'h) SyscallHandler option"

type_synonym 'h mprotect = "u64 \<Rightarrow> u64 \<Rightarrow> u32 \<Rightarrow> 'h \<Rightarrow> int \<times> 'h"

definition on_tracking ::
  "('e VMATracking \<Rightarrow> 'e VMATracking option) \<Rightarrow> ('d, 'g, 'b, 'e, 'h) handler_op" where
  "on_tracking f s = map_option (\<lambda>v. s\<lparr>Tracking := v\<rparr>) (f (Tracking s))"

definition InvalidateGuestCodeRange :: "u64 \<Rightarrow> u64 \<Rightarrow> ('d, 'g, 'b, 'e, 'h) handler_op" where
  "InvalidateGuestCodeRange Start Len s =
     (case InvalidateGuestCodeRangeInternal Start Len (Threads s) of
        Inl _ \<Rightarrow> None
      | Inr Ts \<Rightarrow> Some (s\<lparr>Threads := Ts\<rparr>))"

definition checked_mprotect ::
  "'h mprotect \<Rightarrow> u64 \<Rightarrow> u64 \<Rightarrow> u32 \<Rightarrow> ('d, 'g, 'b, 'e, 'h) handler_op" where
  "checked_mprotect mprotect Start Len prot s =
     (let (rv, h) = mprotect Start Len prot (Host s)
      in do { assert (rv = 0); Some (s\<lparr>Host := h\<rparr>) })"

definition InvalidateGuestCodeRange_CallAfter ::
  "(u64 \<Rightarrow> u64 \<Rightarrow> ('d, 'g, 'b, 'e, 'h) handler_op) \<Rightarrow> u64 \<Rightarrow> u64 \<Rightarrow> ('d, 'g, 'b, 'e, 'h) handler_op" where
  "InvalidateGuestCodeRange_CallAfter CallAfter Start Len s = do {
     s \<leftarrow> InvalidateGuestCodeRange Start Len s;
     CallAfter Start Len s
   }"

definition MarkMemoryShared :: "('d, 'g, 'b, 'e, 'h) handler_op" where
  "MarkMemoryShared s =
     (if IsMemoryShared s then Some s
      else
        let s = s\<lparr>IsMemoryShared := True\<rparr>
        in if TSOAutoMigration s then do {
             assert (length (Threads s) = 1);
             let T = hd (Threads s);
             Some (s\<lparr>Threads := [T\<lparr>ThreadCache := ClearCache (ThreadCache T), DebugStore := []\<rparr>]\<rparr>)
           }
           else Some s)"

section \<open>Write faults\<close>

text \<open>
  The loops over the VMAs of a resource follow the links from \<^verbatim>\<open>FirstVMA\<close>; nothing bounds them but the
  list being well formed, so the loop is a partial function.
\<close>

partial_function (option) mirror_loop ::
  "(VMAEntry \<Rightarrow> 's \<Rightarrow> 's option) \<Rightarrow> 'e VMATracking \<Rightarrow> u64 \<Rightarrow> 's \<Rightarrow> 's option" where
  "mirror_loop f v VMA s = Option.bind (get_vma VMA v) (\<lambda>e. Option.bind (f e s) (\<lambda>s.
     case ResourceNextVMA e of None \<Rightarrow> Some s | Some n \<Rightarrow> mirror_loop f v n s))"

declare mirror_loop.simps [code]

definition make_writable :: "'h mprotect \<Rightarrow> u64 \<Rightarrow> u64 \<Rightarrow> ('d, 'g, 'b, 'e, 'h) handler_op" where
  "make_writable mprotect Start Len = checked_mprotect mprotect Start Len (PROT_READ OR PROT_WRITE)"

definition flush_mirror :: "'h mprotect \<Rightarrow> u64 \<Rightarrow> VMAEntry \<Rightarrow> ('d, 'g, 'b, 'e, 'h) handler_op" where
  "flush_mirror mprotect Off e s =
     (if Offset e \<le> Off \<and> Offset e + Length e > Off then
        let FaultBaseMirrored = Off - Offset e + Base e
        in if Writable (Prot e)
           then InvalidateGuestCodeRange_CallAfter (make_writable mprotect) FaultBaseMirrored FEX_PAGE_SIZE s
           else InvalidateGuestCodeRange FaultBaseMirrored FEX_PAGE_SIZE s
      else Some s)"

definition HandleSegfault ::
  "'h mprotect \<Rightarrow> u64 \<Rightarrow> ('d, 'g, 'b, 'e, 'h) SyscallHandler
   \<Rightarrow> (bool \<times> ('d, 'g, 'b, 'e, 'h) SyscallHandler) option" where
  "HandleSegfault mprotect FaultAddress s =
     (case LookupVMAUnsafe FaultAddress (Tracking s) of
        None \<Rightarrow> Some (False, s)
      | Some (k, e) \<Rightarrow>
          if \<not> Writable (Prot e) then Some (False, s)
          else
            let FaultBase = AlignDown FaultAddress FEX_PAGE_SIZE
            in if Shared (Flags e) then do {
                 r \<leftarrow> Resource e;
                 let Off = FaultBase - k + Offset e;
                 res \<leftarrow> get_resource r (Tracking s);
                 first \<leftarrow> FirstVMA res;
                 s \<leftarrow> mirror_loop (flush_mirror mprotect Off) (Tracking s) first s;
                 Some (True, s)
               }
               else do {
                 s \<leftarrow> InvalidateGuestCodeRange_CallAfter (make_writable mprotect) FaultBase FEX_PAGE_SIZE s;
                 Some (True, s)
               })"

section \<open>Marking compiled pages\<close>

definition mark_mirror :: "'h mprotect \<Rightarrow> u64 \<Rightarrow> u64 \<Rightarrow> VMAEntry \<Rightarrow> ('d, 'g, 'b, 'e, 'h) handler_op" where
  "mark_mirror mprotect OffsetBase OffsetTop e s =
     (let VMAOffsetBase = Offset e; VMAOffsetTop = Offset e + Length e; VMABase = Base e
      in if Writable (Prot e) \<and> VMAOffsetBase < OffsetTop \<and> VMAOffsetTop > OffsetBase then
           let MirroredBase = max VMAOffsetBase OffsetBase;
               MirroredSize = min OffsetTop VMAOffsetTop - MirroredBase
           in checked_mprotect mprotect (MirroredBase - VMAOffsetBase + VMABase) MirroredSize PROT_READ s
         else Some s)"

definition mark_mapping ::
  "'h mprotect \<Rightarrow> u64 \<Rightarrow> u64 \<Rightarrow> u64 \<Rightarrow> VMAEntry \<Rightarrow> ('d, 'g, 'b, 'e, 'h) handler_op" where
  "mark_mapping mprotect RangeBase Top MapBase e s =
     (let MapTop = MapBase + Length e;
          ProtectBase = max MapBase RangeBase; ProtectSize = min MapTop Top - ProtectBase
      in if Shared (Flags e) then do {
           r \<leftarrow> Resource e;
           let OffsetBase = ProtectBase - MapBase + Offset e;
           let OffsetTop = OffsetBase + ProtectSize;
           res \<leftarrow> get_resource r (Tracking s);
           first \<leftarrow> FirstVMA res;
           mirror_loop (mark_mirror mprotect OffsetBase OffsetTop) (Tracking s) first s
         }
         else if Writable (Prot e) then checked_mprotect mprotect ProtectBase ProtectSize PROT_READ s
         else Some s)"

fun mark_loop :: "'h mprotect \<Rightarrow> u64 \<Rightarrow> u64 \<Rightarrow> nat \<Rightarrow> ('d, 'g, 'b, 'e, 'h) handler_op" where
  "mark_loop mprotect RangeBase Top 0 s = Some s"
| "mark_loop mprotect RangeBase Top (Suc Mapping) s =
     (let (MapBase, e) = VMAs (Tracking s) ! Mapping
      in if MapBase + Length e \<le> RangeBase then Some s
         else do {
           s \<leftarrow> mark_mapping mprotect RangeBase Top MapBase e s;
           mark_loop mprotect RangeBase Top Mapping s
         })"

definition MarkGuestExecutableRange :: "'h mprotect \<Rightarrow> u64 \<Rightarrow> u64 \<Rightarrow> ('d, 'g, 'b, 'e, 'h) handler_op" where
  "MarkGuestExecutableRange mprotect Start Len s =
     (let RangeBase = Start AND FEX_PAGE_MASK; Top = AlignUp (Start + Len) FEX_PAGE_SIZE
      in if SMCChecks s \<noteq> CONFIG_SMC_MTRACK then Some s
         else mark_loop mprotect RangeBase Top (map_lower_bound (VMAs (Tracking s)) Top) s)"

text \<open>
  The callback that \<^verbatim>\<open>GenerateIR\<close> passes to the decoder: a block of thread \<open>i\<close> was decoded from a range
  of guest bytes.
\<close>

definition decoded_range ::
  "'h mprotect \<Rightarrow> nat \<Rightarrow> u64 \<Rightarrow> u64 \<Rightarrow> u64 \<Rightarrow> ('d, 'g, 'b, 'e, 'h) handler_op" where
  "decoded_range mprotect i BlockEntry Start Len s =
     (let T = Threads s ! i; (NewPage, c) = AddBlockExecutableRange BlockEntry Start Len (ThreadCache T);
          s = s\<lparr>Threads := (Threads s)[i := T\<lparr>ThreadCache := c\<rparr>]\<rparr>
      in if NewPage then MarkGuestExecutableRange mprotect Start Len s else Some s)"

definition LookupAOTIRCacheEntry ::
  "u64 \<Rightarrow> ('d, 'g, 'b, 'e, 'h) SyscallHandler \<Rightarrow> 'e option \<times> u64" where
  "LookupAOTIRCacheEntry GuestAddr s =
     (case LookupVMAUnsafe GuestAddr (Tracking s) of
        None \<Rightarrow> (None, 0)
      | Some (k, e) \<Rightarrow>
          (Option.bind (Resource e) (\<lambda>r. Option.bind (get_resource r (Tracking s)) AOTIRCacheEntry),
           Base e - Offset e))"

section \<open>Memory syscalls\<close>

definition invalidate_checked :: "u64 \<Rightarrow> u64 \<Rightarrow> ('d, 'g, 'b, 'e, 'h) handler_op" where
  "invalidate_checked Start Len s =
     (if SMCChecks s \<noteq> CONFIG_SMC_NONE then InvalidateGuestCodeRange Start Len s else Some s)"

text \<open>
  The resource of a new mapping: a file is identified by device and inode and entered on its first
  mapping, a shared anonymous mapping gets a new identifier, a private one has none.
\<close>

definition mmap_resource ::
  "(u32 \<Rightarrow> MRID) \<Rightarrow> (u32 \<Rightarrow> string option) \<Rightarrow> (string \<Rightarrow> 'e option) \<Rightarrow> u32 \<Rightarrow> u32
   \<Rightarrow> ('d, 'g, 'b, 'e, 'h) SyscallHandler
   \<Rightarrow> (MRID option \<times> ('d, 'g, 'b, 'e, 'h) SyscallHandler) option" where
  "mmap_resource fstat64 get_fdpath LoadAOTIRCacheEntry flags fd s =
     (if (flags AND MAP_ANONYMOUS) = 0 then
        let mrid = fstat64 fd
        in (case get_fdpath fd of
              Some filename \<Rightarrow>
                Some (Some mrid, s\<lparr>Tracking := new_resource mrid (LoadAOTIRCacheEntry filename) 0 (Tracking s)\<rparr>)
            | None \<Rightarrow> Some (None, s))
      else if (flags AND MAP_SHARED) \<noteq> 0 then
        let mrid = MRID SpecialDev_Anon (AnonSharedId s)
        in do {
             assert (get_resource mrid (Tracking s) = None);
             Some (Some mrid, s\<lparr>AnonSharedId := AnonSharedId s + 1,
                                Tracking := new_resource mrid None 0 (Tracking s)\<rparr>)
           }
      else Some (None, s))"

definition TrackMmap ::
  "(u32 \<Rightarrow> MRID) \<Rightarrow> (u32 \<Rightarrow> string option) \<Rightarrow> (string \<Rightarrow> 'e option) \<Rightarrow>
   u64 \<Rightarrow> u64 \<Rightarrow> u32 \<Rightarrow> u32 \<Rightarrow> u32 \<Rightarrow> u64 \<Rightarrow> ('d, 'g, 'b, 'e, 'h) handler_op" where
  "TrackMmap fstat64 get_fdpath LoadAOTIRCacheEntry MapAddr Size prot flags fd Off s =
     (let Size = AlignUp Size FEX_PAGE_SIZE
      in do {
           s \<leftarrow> (if (flags AND MAP_SHARED) \<noteq> 0 then MarkMemoryShared s else Some s);
           (Res, s) \<leftarrow> mmap_resource fstat64 get_fdpath LoadAOTIRCacheEntry flags fd s;
           s \<leftarrow> on_tracking (SetUnsafe Res MapAddr Off Size (fromFlags flags) (fromProt prot)) s;
           invalidate_checked MapAddr Size s
         })"

definition TrackMunmap :: "u64 \<Rightarrow> u64 \<Rightarrow> ('d, 'g, 'b, 'e, 'h) handler_op" where
  "TrackMunmap MapAddr Size s =
     (let Size = AlignUp Size FEX_PAGE_SIZE
      in do {
           s \<leftarrow> on_tracking (ClearUnsafe MapAddr Size None) s;
           invalidate_checked MapAddr Size s
         })"

definition TrackMprotect :: "u64 \<Rightarrow> u64 \<Rightarrow> u32 \<Rightarrow> ('d, 'g, 'b, 'e, 'h) handler_op" where
  "TrackMprotect MapAddr Size prot s =
     (let Size = AlignUp Size FEX_PAGE_SIZE
      in do {
           s \<leftarrow> on_tracking (ChangeUnsafe MapAddr Size (fromProt prot)) s;
           invalidate_checked MapAddr Size s
         })"

definition TrackMremap :: "u64 \<Rightarrow> u64 \<Rightarrow> u64 \<Rightarrow> u32 \<Rightarrow> u64 \<Rightarrow> ('d, 'g, 'b, 'e, 'h) handler_op" where
  "TrackMremap OldAddress OldSize NewSize flags NewAddress s =
     (let OldSize = AlignUp OldSize FEX_PAGE_SIZE; NewSize = AlignUp NewSize FEX_PAGE_SIZE
      in do {
           (k, e) \<leftarrow> LookupVMAUnsafe OldAddress (Tracking s);
           let OldResource = Resource e;
           let OldOffset = Offset e + OldAddress - k;
           let OldFlags = Flags e;
           let OldProt = Prot e;
           s \<leftarrow> (if OldSize = 0 then do {
                   assert (OldResource \<noteq> None);
                   assert (Shared OldFlags);
                   on_tracking (SetUnsafe OldResource NewAddress OldOffset NewSize OldFlags OldProt) s
                 }
                 else do {
                   s \<leftarrow> (if (flags AND MREMAP_DONTUNMAP) = 0
                         then on_tracking (ClearUnsafe OldAddress OldSize OldResource) s
                         else Some s);
                   on_tracking (SetUnsafe OldResource NewAddress OldOffset NewSize OldFlags OldProt) s
                 });
           if SMCChecks s \<noteq> CONFIG_SMC_NONE then
             if OldAddress \<noteq> NewAddress then
               if OldSize \<noteq> 0 then InvalidateGuestCodeRange OldAddress OldSize s else Some s
             else
               if OldSize > NewSize
               then InvalidateGuestCodeRange (OldAddress + NewSize) (OldSize - NewSize) s
               else Some s
           else Some s
         })"

text \<open>The size of the segment comes from \<^verbatim>\<open>shmctl\<close>; \<^const>\<open>None\<close> is its error.\<close>

definition TrackShmat :: "(u32 \<Rightarrow> u64 option) \<Rightarrow> u32 \<Rightarrow> u64 \<Rightarrow> u32 \<Rightarrow> ('d, 'g, 'b, 'e, 'h) handler_op" where
  "TrackShmat shm_segsz shmid MapAddr shmflg s = do {
     s \<leftarrow> MarkMemoryShared s;
     Len \<leftarrow> shm_segsz shmid;
     let mrid = MRID SpecialDev_SHM (scast shmid);
     let s = s\<lparr>Tracking := new_resource mrid None Len (Tracking s)\<rparr>;
     s \<leftarrow> on_tracking (SetUnsafe (Some mrid) MapAddr 0 Len (fromFlags MAP_SHARED)
            (fromProt (if (shmflg AND SHM_RDONLY) \<noteq> 0 then PROT_READ else PROT_READ OR PROT_WRITE))) s;
     invalidate_checked MapAddr Len s
   }"

definition TrackShmdt :: "u64 \<Rightarrow> ('d, 'g, 'b, 'e, 'h) handler_op" where
  "TrackShmdt MapAddr s = do {
     (Len, v) \<leftarrow> ClearShmUnsafe MapAddr (Tracking s);
     let s = s\<lparr>Tracking := v\<rparr>;
     invalidate_checked MapAddr Len s
   }"

end
