(* ===== verification/SMC_Props.thy ===== *)
theory SMC_Props
  imports SMC_Tracking
begin

text \<open>
  Properties of the self-modifying code detection: pages whose code was compiled are write-protected
  together with their mirrors, a write fault on them drops the code and opens the pages again, and the
  memory syscalls keep tracking and code caches in step.
\<close>

unbundle bit_operations_syntax

section \<open>Pages\<close>

definition aligned :: "u64 \<Rightarrow> bool" where
  "aligned a \<longleftrightarrow> 4096 dvd unat a"

abbreviation page :: "u64 \<Rightarrow> u64" where
  "page a \<equiv> drop_bit 12 a"

lemma aligned_arith [intro]:
  "aligned a \<Longrightarrow> aligned b \<Longrightarrow> aligned (a + b)" "aligned a \<Longrightarrow> aligned b \<Longrightarrow> aligned (a - b)"
proof -
  have w: "4096 dvd (2 ^ 64 :: nat)" by simp
  show "aligned a \<Longrightarrow> aligned b \<Longrightarrow> aligned (a + b)"
    unfolding aligned_def unat_word_ariths by (rule dvd_mod) (use w in auto)
  show "aligned a \<Longrightarrow> aligned b \<Longrightarrow> aligned (a - b)"
    using w by (simp add: aligned_def unat_sub_if_size word_size dvd_diff_nat)
qed

lemma aligned_max_min [intro]:
  "aligned a \<Longrightarrow> aligned b \<Longrightarrow> aligned (max a b)" "aligned a \<Longrightarrow> aligned b \<Longrightarrow> aligned (min a b)"
  by (simp_all add: max_def min_def)

lemma aligned_consts [simp]: "aligned 0" "aligned FEX_PAGE_SIZE"
  by (simp_all add: aligned_def FEX_PAGE_SIZE_def)

lemma unat_page: "unat (page a) = unat a div 4096"
  by (simp add: drop_bit_eq_div unat_div)

lemma page_iff:
  assumes "aligned b"
  shows "page a = page b \<longleftrightarrow> unat b \<le> unat a \<and> unat a < unat b + 4096"
proof -
  obtain q where q: "unat b = 4096 * q" using assms by (auto simp: aligned_def)
  have "page a = page b \<longleftrightarrow> unat a div 4096 = q"
    by (simp add: word_unat_eq_iff unat_page q)
  then show ?thesis unfolding q by (auto simp: div_nat_eqI)
qed

lemma aligned_page_le: "aligned b \<Longrightarrow> unat b \<le> unat a \<Longrightarrow> unat b \<le> 4096 * unat (page a)"
  by (auto simp: aligned_def unat_page elim!: dvdE)

lemma AlignDown_page: "unat (AlignDown a FEX_PAGE_SIZE) = 4096 * unat (page a)" "aligned (AlignDown a FEX_PAGE_SIZE)"
proof -
  have "unat (a mod 4096) = unat a mod 4096" by (simp add: unat_mod)
  moreover have "a mod 4096 \<le> a" by (simp add: word_le_nat_alt unat_mod)
  ultimately have "unat (AlignDown a FEX_PAGE_SIZE) = unat a - unat a mod 4096"
    unfolding AlignDown_def FEX_PAGE_SIZE_def by (simp only: unat_minus)
  then show "unat (AlignDown a FEX_PAGE_SIZE) = 4096 * unat (page a)"
    by (simp add: unat_page minus_mod_eq_mult_div)
  then show "aligned (AlignDown a FEX_PAGE_SIZE)" by (simp add: aligned_def)
qed

lemma page_top: "unat (AlignDown a FEX_PAGE_SIZE) + 4096 \<le> 2 ^ 64"
proof -
  have "unat (page a) < 2 ^ 52" using unsigned_less [of a, where ?'a = nat] by (simp add: unat_page)
  then show ?thesis by (simp add: AlignDown_page)
qed

lemma AlignUp_bounds:
  assumes "unat a + 4095 < 2 ^ 64"
  shows "aligned (AlignUp a FEX_PAGE_SIZE)" "unat a \<le> unat (AlignUp a FEX_PAGE_SIZE)"
    "unat (AlignUp a FEX_PAGE_SIZE) \<le> unat a + 4095"
proof -
  let ?m = "unat a mod 4096"
  have m: "unat (a mod 4096) = ?m" by (simp add: unat_mod)
  have "unat ((4096 - a mod 4096) mod 4096) = (4096 - ?m) mod 4096"
    by (simp add: unat_mod unat_sub_if_size m word_le_nat_alt)
  moreover have "(4096 - ?m) mod 4096 \<le> 4095" by simp
  ultimately have u: "unat (AlignUp a FEX_PAGE_SIZE) = unat a + (4096 - ?m) mod 4096"
    using assms by (simp add: AlignUp_def FEX_PAGE_SIZE_def unat_word_ariths)
  show "unat a \<le> unat (AlignUp a FEX_PAGE_SIZE)" "unat (AlignUp a FEX_PAGE_SIZE) \<le> unat a + 4095"
    using u \<open>_ \<le> 4095\<close> by simp_all
  have "?m \<le> 4096" by simp
  then have "(?m + (4096 - ?m)) mod 4096 = 0" by (simp only: le_add_diff_inverse mod_self)
  then have "(unat a + (4096 - ?m)) mod 4096 = 0" by (simp only: mod_add_left_eq)
  then have "(unat a + (4096 - ?m) mod 4096) mod 4096 = 0" by (simp only: mod_add_right_eq)
  then show "aligned (AlignUp a FEX_PAGE_SIZE)" by (simp add: aligned_def u mod_eq_0_iff_dvd)
qed

lemma page_mask: "unat (a AND FEX_PAGE_MASK) = 4096 * unat (page a)" "aligned (a AND FEX_PAGE_MASK)"
proof -
  have "a AND FEX_PAGE_MASK = push_bit 12 (drop_bit 12 a)"
    unfolding FEX_PAGE_MASK_def FEX_PAGE_SIZE_def
    by (rule bit_word_eqI) (auto simp: bit_simps mask_eq_exp_minus_1 [of 12, where ?'a = "64 word", simplified, symmetric])
  also have "unat (push_bit 12 (drop_bit 12 a)) = 4096 * unat (page a)"
    using unsigned_less [of a, where ?'a = nat] by (simp add: push_bit_eq_mult unat_word_ariths unat_page)
  finally show "unat (a AND FEX_PAGE_MASK) = 4096 * unat (page a)" .
  then show "aligned (a AND FEX_PAGE_MASK)" by (simp add: aligned_def)
qed

section \<open>Code of all threads\<close>

definition threads_ok :: "('d, 'g, 'b) ThreadState list \<Rightarrow> bool" where
  "threads_ok Ts \<longleftrightarrow> (\<forall>T \<in> set Ts. coherent (ThreadCache T) \<and> map_ok (DebugStore T))"

text \<open>Some thread has code recorded for the page.\<close>

definition has_code :: "('d, 'g, 'b) ThreadState list \<Rightarrow> u64 \<Rightarrow> bool" where
  "has_code Ts P \<longleftrightarrow> (\<exists>T \<in> set Ts. page_code P (ThreadCache T) \<noteq> [])"

lemma invalidate_threads:
  assumes "threads_ok Ts" "page Start \<le> page (Start + Len - 1)"
  shows "\<exists>Ts'. InvalidateGuestCodeRangeInternal Start Len Ts = Inr Ts' \<and> threads_ok Ts'
    \<and> length Ts' = length Ts
    \<and> (\<forall>P. has_code Ts' P \<longleftrightarrow> has_code Ts P \<and> P \<notin> set (range_pages Start Len))"
  using assms(1)
proof (induction Ts)
  case Nil
  then show ?case by (simp add: threads_ok_def has_code_def)
next
  case (Cons T Ts)
  have T: "coherent (ThreadCache T)" "map_ok (DebugStore T)" and Ts: "threads_ok Ts"
    using Cons.prems by (simp_all add: threads_ok_def)
  obtain T' where "InvalidateGuestThreadCodeRange Start Len T = Inr T'"
    "coherent (ThreadCache T')" "map_ok (DebugStore T')"
    "\<forall>P. page_code P (ThreadCache T')
        = (if P \<in> set (range_pages Start Len) then [] else page_code P (ThreadCache T))"
    using invalidate_thread [OF T assms(2)] by blast
  with Cons.IH [OF Ts] show ?case by (auto simp: threads_ok_def has_code_def)
qed

lemma single_page:
  assumes "aligned b" "unat b + 4096 < 2 ^ 64"
  shows "page b \<le> page (b + FEX_PAGE_SIZE - 1)" "set (range_pages b FEX_PAGE_SIZE) = {page b}"
proof -
  have "unat (b + FEX_PAGE_SIZE - 1) = unat b + 4095"
    using assms(2) by (simp add: FEX_PAGE_SIZE_def unat_word_ariths unat_sub_if_size word_le_nat_alt)
  then have e: "page (b + FEX_PAGE_SIZE - 1) = page b" by (simp add: page_iff [OF assms(1)])
  then show "page b \<le> page (b + FEX_PAGE_SIZE - 1)" by simp
  show "set (range_pages b FEX_PAGE_SIZE) = {page b}"
    by (auto simp: range_pages_set e)
qed

lemma invalidate_page_range:
  assumes "threads_ok (Threads s)" "aligned b" "unat b + 4096 < 2 ^ 64"
  shows "\<exists>Ts. InvalidateGuestCodeRange b FEX_PAGE_SIZE s = Some (s\<lparr>Threads := Ts\<rparr>) \<and> threads_ok Ts
    \<and> length Ts = length (Threads s)
    \<and> (\<forall>P. has_code Ts P \<longleftrightarrow> has_code (Threads s) P \<and> P \<noteq> page b)"
  using invalidate_threads [OF assms(1) single_page(1) [OF assms(2,3)]] single_page(2) [OF assms(2,3)]
  by (auto simp: InvalidateGuestCodeRange_def)

section \<open>The loop over the mirrors\<close>

fun fold_option :: "('a \<Rightarrow> 's \<Rightarrow> 's option) \<Rightarrow> 'a list \<Rightarrow> 's \<Rightarrow> 's option" where
  "fold_option f [] s = Some s"
| "fold_option f (x # xs) s = Option.bind (f x s) (fold_option f xs)"

lemma mirror_loop_fold:
  assumes "dseg (\<lambda>k. get_vma k v) r p (x # xs) None"
  shows "mirror_loop f v x s = fold_option f (map (\<lambda>k. the (get_vma k v)) (x # xs)) s"
  using assms
proof (induction xs arbitrary: x p s)
  case Nil
  then show ?case
    by (subst mirror_loop.simps) (auto split: option.splits bind_splits)
next
  case (Cons y xs)
  then have rest: "dseg (\<lambda>k. get_vma k v) r (Some x) (y # xs) None" by simp
  obtain e where e: "get_vma x v = Some e" "ResourceNextVMA e = Some y"
    using Cons.prems by (auto split: option.splits)
  show ?case
    using Cons.IH [OF rest] by (subst mirror_loop.simps) (cases "f e s"; simp add: e)
qed

text \<open>The loop as the program runs it, from the first VMA of the resource of a tracked VMA.\<close>

lemma mirror_loop_resource:
  assumes "vma_ok v" "get_vma k v = Some e" "Resource e = Some r"
  obtains res first es where "get_resource r v = Some res" "FirstVMA res = Some first"
    "\<And>f s. mirror_loop f v first s = fold_option f es s" "distinct (map Base es)"
    "\<And>e'. e' \<in> set es \<longleftrightarrow> Resource e' = Some r \<and> get_vma (Base e') v = Some e'"
proof -
  obtain xs where xs: "list_ok v r xs" using assms(1) by (auto simp: vma_ok_def lists_ok_def)
  have k: "k \<in> set xs" using xs assms(2,3) by (auto simp: list_ok_def nodes_of_def)
  obtain x ys where x: "xs = x # ys" using k by (cases xs) auto
  obtain res where res: "get_resource r v = Some res" "FirstVMA res = Some x"
    using xs x by (auto simp: list_ok_def split: option.splits)
  have seg: "dseg (\<lambda>k. get_vma k v) r None (x # ys) None" using xs x by (simp add: list_ok_def)
  have base: "Base e' = k'" if "get_vma k' v = Some e'" for k' e'
    using spansD(1) [of "cmap v" k' "core e'"] assms(1) that by (simp add: vma_ok_def cmap_def)
  let ?es = "map (\<lambda>k. the (get_vma k v)) xs"
  have the_get: "get_vma k' v = Some (the (get_vma k' v)) \<and> Resource (the (get_vma k' v)) = Some r"
    if "k' \<in> set xs" for k'
    using that xs by (auto simp: list_ok_def nodes_of_def)
  have "map Base ?es = xs"
    using base the_get by (intro nth_equalityI) auto
  then have "distinct (map Base ?es)" using xs by (simp add: list_ok_def)
  moreover have "e' \<in> set ?es \<longleftrightarrow> Resource e' = Some r \<and> get_vma (Base e') v = Some e'" for e'
  proof
    assume "e' \<in> set ?es"
    then show "Resource e' = Some r \<and> get_vma (Base e') v = Some e'"
      using the_get base by force
  next
    assume "Resource e' = Some r \<and> get_vma (Base e') v = Some e'"
    then show "e' \<in> set ?es"
      using xs by (auto simp: list_ok_def nodes_of_def intro!: image_eqI [of _ _ "Base e'"])
  qed
  moreover have "mirror_loop f v x s = fold_option f ?es s" for f s
    unfolding x by (rule mirror_loop_fold [OF seg])
  ultimately show thesis using that [OF res(1,2), of ?es] by blast
qed

section \<open>The host\<close>

text \<open>
  What the program relies on of \<^verbatim>\<open>mprotect\<close>: on a page-aligned range of mapped pages it succeeds and
  changes the write permission of exactly the addresses of the range.
\<close>

definition in_span :: "u64 \<Rightarrow> u64 \<Rightarrow> u64 \<Rightarrow> bool" where
  "in_span Start Len a \<longleftrightarrow> unat Start \<le> unat a \<and> unat a < unat Start + unat Len"

definition mprotect_ok :: "'h mprotect \<Rightarrow> ('h \<Rightarrow> u64 \<Rightarrow> bool) \<Rightarrow> ('h \<Rightarrow> u64 \<Rightarrow> bool) \<Rightarrow> bool" where
  "mprotect_ok mprotect mapped writable \<longleftrightarrow> (\<forall>Start Len prot h rv h'.
     aligned Start \<longrightarrow> aligned Len \<longrightarrow> unat Start + unat Len < 2 ^ 64 \<longrightarrow>
     (\<forall>a. in_span Start Len a \<longrightarrow> mapped h a) \<longrightarrow> mprotect Start Len prot h = (rv, h') \<longrightarrow>
     rv = 0 \<and> mapped h' = mapped h
     \<and> (\<forall>a. writable h' a = (if in_span Start Len a then (prot AND PROT_WRITE) \<noteq> 0 else writable h a)))"

lemma checked_mprotect_ok:
  assumes "mprotect_ok mprotect mapped writable" "aligned Start" "aligned Len"
    "unat Start + unat Len < 2 ^ 64" "\<And>a. in_span Start Len a \<Longrightarrow> mapped (Host s) a"
  shows "\<exists>h. checked_mprotect mprotect Start Len prot s = Some (s\<lparr>Host := h\<rparr>)
    \<and> mapped h = mapped (Host s)
    \<and> (\<forall>a. writable h a = (if in_span Start Len a then (prot AND PROT_WRITE) \<noteq> 0 else writable (Host s) a))"
proof -
  obtain rv h where h: "mprotect Start Len prot (Host s) = (rv, h)" by fastforce
  then have "rv = 0 \<and> mapped h = mapped (Host s)
    \<and> (\<forall>a. writable h a = (if in_span Start Len a then (prot AND PROT_WRITE) \<noteq> 0 else writable (Host s) a))"
    using assms unfolding mprotect_ok_def by blast
  then show ?thesis using h by (intro exI [of _ h]) (simp add: checked_mprotect_def)
qed

section \<open>Entries\<close>

definition page_entry :: "VMAEntry \<Rightarrow> bool" where
  "page_entry e \<longleftrightarrow> aligned (Base e) \<and> aligned (Length e) \<and> aligned (Offset e)
     \<and> (Resource e \<noteq> None \<longrightarrow> unat (Offset e) + unat (Length e) < 2 ^ 64)
     \<and> (Shared (Flags e) \<longrightarrow> Resource e \<noteq> None)"

definition vma_at :: "'e VMATracking \<Rightarrow> u64 \<Rightarrow> VMAEntry \<Rightarrow> bool" where
  "vma_at v a e \<longleftrightarrow> get_vma (Base e) v = Some e \<and> covers e a"

definition off :: "VMAEntry \<Rightarrow> u64 \<Rightarrow> u64" where
  "off e a = Offset e + (a - Base e)"

definition pages_tracked :: "'e VMATracking \<Rightarrow> bool" where
  "pages_tracked v \<longleftrightarrow> vma_ok v \<and> (\<forall>k e. get_vma k v = Some e \<longrightarrow> page_entry e)"

lemma pages_trackedD:
  assumes "pages_tracked v" "get_vma k v = Some e"
  shows "vma_ok v" "Base e = k" "Length e \<noteq> 0" "map_end e < 2 ^ 64" "page_entry e"
  using assms spansD [of "cmap v" k "core e"]
  by (simp_all add: pages_tracked_def vma_ok_def cmap_def)

lemma vma_at_unique:
  assumes "pages_tracked v" "vma_at v a e" "vma_at v a e'"
  shows "e = e'"
proof -
  have "spans_ok (cmap v)" using assms(1) by (simp add: pages_tracked_def vma_ok_def)
  moreover have "cmap v (Base e) = Some (core e)" "cmap v (Base e') = Some (core e')"
    using assms(2,3) by (simp_all add: cmap_def vma_at_def)
  moreover have "covers (core e) a" "covers (core e') a" using assms(2,3) by (simp_all add: vma_at_def)
  ultimately have "Base e = Base e'" by (rule spans_unique)
  then show ?thesis using assms(2,3) by (metis vma_at_def option.inject)
qed

lemma mapping_entry:
  assumes "pages_tracked v"
  shows "mapping_at v a = Some d \<longleftrightarrow> (\<exists>e. vma_at v a e \<and> d = (Resource e, off e a, Flags e, Prot e))"
proof -
  have ok: "vma_ok v" using assms by (simp add: pages_tracked_def)
  have "mapping_at v a = Some d
      \<longleftrightarrow> (\<exists>k e. List.find (\<lambda>e. covers (snd e) a) (VMAs v) = Some (k, e) \<and> d = desc e a)"
    unfolding mapping_at_def map_option_eq_Some split_paired_Ex snd_conv by blast
  also have "\<dots> \<longleftrightarrow> (\<exists>k e. get_vma k v = Some e \<and> covers e a \<and> d = desc e a)"
    by (simp add: find_covering [OF ok])
  also have "\<dots> \<longleftrightarrow> (\<exists>e. vma_at v a e \<and> d = desc e a)"
    using pages_trackedD(2) [OF assms] by (auto simp: vma_at_def)
  finally show ?thesis by (simp add: desc_def off_def)
qed

lemma unat_off:
  assumes "unat (Offset e) + unat (Length e) < 2 ^ 64" "covers e a"
  shows "unat (off e a) = unat (Offset e) + (unat a - unat (Base e))"
proof -
  have le: "unat (Base e) \<le> unat a" "unat a - unat (Base e) < unat (Length e)"
    using assms(2) by (auto simp: covers_def map_end_def)
  have "unat (a - Base e) = unat a - unat (Base e)" using le(1) by (simp add: unat_minus word_le_nat_alt)
  then have "unat (off e a) = (unat (Offset e) + (unat a - unat (Base e))) mod 2 ^ 64"
    by (simp add: off_def unat_word_ariths)
  moreover have "unat (Offset e) + (unat a - unat (Base e)) < 2 ^ 64" using le(2) assms(1) by linarith
  ultimately show ?thesis by simp
qed

section \<open>Write-protecting the mirrors of a range of offsets\<close>

definition mirror_hit :: "u64 \<Rightarrow> u64 \<Rightarrow> VMAEntry \<Rightarrow> u64 \<Rightarrow> bool" where
  "mirror_hit OB OT e b \<longleftrightarrow> Writable (Prot e) \<and> covers e b \<and> OB \<le> off e b \<and> off e b < OT"

lemma PROT_READ_no_write [simp]: "(PROT_READ AND PROT_WRITE) = 0" "PROT_WRITE \<noteq> 0"
  "((PROT_READ OR PROT_WRITE) AND PROT_WRITE) \<noteq> 0"
  by (simp_all add: flag_words)

lemma mark_mirror_ok:
  assumes "mprotect_ok mprotect mapped writable" "aligned OB" "aligned OT" "OB < OT"
    "page_entry e" "map_end e < 2 ^ 64" "Length e \<noteq> 0" "Resource e \<noteq> None"
    "\<And>a. covers e a \<Longrightarrow> mapped (Host s) a"
  shows "\<exists>h. mark_mirror mprotect OB OT e s = Some (s\<lparr>Host := h\<rparr>) \<and> mapped h = mapped (Host s)
    \<and> (\<forall>b. writable h b \<longleftrightarrow> writable (Host s) b \<and> \<not> mirror_hit OB OT e b)"
proof -
  let ?o = "Offset e" and ?l = "Length e" and ?b = "Base e"
  have al: "aligned ?b" "aligned ?l" "aligned ?o" and w: "unat ?o + unat ?l < 2 ^ 64"
    using assms(5,8) by (simp_all add: page_entry_def)
  have ot: "unat (?o + ?l) = unat ?o + unat ?l" using w by (simp add: unat_word_ariths)
  have l: "0 < unat ?l" using assms(7) by (simp add: unat_gt_0)
  have BT: "unat OB < unat OT" using assms(4) by (simp add: word_less_nat_alt)
  have cov: "covers e b \<longleftrightarrow> unat ?b \<le> unat b \<and> unat b - unat ?b < unat ?l" for b
    by (auto simp: covers_def map_end_def)
  have hit: "mirror_hit OB OT e b \<longleftrightarrow> Writable (Prot e) \<and> covers e b
      \<and> unat OB \<le> unat ?o + (unat b - unat ?b) \<and> unat ?o + (unat b - unat ?b) < unat OT" for b
    using unat_off [OF w, of b] by (auto simp: mirror_hit_def word_le_nat_alt word_less_nat_alt)
  show ?thesis
  proof (cases "Writable (Prot e) \<and> ?o < OT \<and> ?o + ?l > OB")
    case True
    let ?mb = "max ?o OB" and ?mt = "min OT (?o + ?l)"
    have c: "unat ?o < unat OT" "unat OB < unat ?o + unat ?l"
      using True ot by (auto simp: word_less_nat_alt)
    have mb: "unat ?mb = max (unat ?o) (unat OB)" and mt: "unat ?mt = min (unat OT) (unat ?o + unat ?l)"
      using ot by (auto simp: max_def min_def word_le_nat_alt)
    have le: "unat ?o \<le> unat ?mb" "unat ?mb < unat ?mt" unfolding mb mt using c l BT by auto
    have lt: "unat ?mb < unat ?o + unat ?l" "unat ?mt \<le> unat ?o + unat ?l" using le(2) mt by auto
    have start: "unat (?mb - ?o + ?b) = unat ?mb - unat ?o + unat ?b"
      and size: "unat (?mt - ?mb) = unat ?mt - unat ?mb"
    proof -
      have "unat ?mb - unat ?o + unat ?b < 2 ^ 64"
        using lt assms(6) le(1) unfolding map_end_def by linarith
      then show "unat (?mb - ?o + ?b) = unat ?mb - unat ?o + unat ?b"
        using le(1) by (simp add: unat_word_ariths unat_minus word_le_nat_alt)
      show "unat (?mt - ?mb) = unat ?mt - unat ?mb"
        using le(2) by (simp add: unat_minus word_le_nat_alt)
    qed
    have span: "in_span (?mb - ?o + ?b) (?mt - ?mb) b \<longleftrightarrow> mirror_hit OB OT e b" for b
      unfolding in_span_def start size hit cov using True c l BT unfolding mb mt by auto
    have "unat (?mb - ?o + ?b) + unat (?mt - ?mb) < 2 ^ 64"
      using le lt assms(6) unfolding start size map_end_def by linarith
    moreover have "mapped (Host s) b" if "in_span (?mb - ?o + ?b) (?mt - ?mb) b" for b
      using that span assms(9) by (simp add: mirror_hit_def)
    moreover have "aligned (?mb - ?o + ?b)" "aligned (?mt - ?mb)" using al assms(2,3) by blast+
    ultimately obtain h where "checked_mprotect mprotect (?mb - ?o + ?b) (?mt - ?mb) PROT_READ s = Some (s\<lparr>Host := h\<rparr>)"
      "mapped h = mapped (Host s)"
      "\<forall>a. writable h a = (if in_span (?mb - ?o + ?b) (?mt - ?mb) a then (PROT_READ AND PROT_WRITE) \<noteq> 0 else writable (Host s) a)"
      using checked_mprotect_ok [OF assms(1), of "?mb - ?o + ?b" "?mt - ?mb" s PROT_READ] by blast
    then show ?thesis using True by (intro exI [of _ h]) (simp add: mark_mirror_def Let_def span)
  next
    case False
    then have "\<not> mirror_hit OB OT e b" for b
      unfolding hit cov using ot by (auto simp: word_less_nat_alt)
    then show ?thesis using False by (intro exI [of _ "Host s"]) (auto simp: mark_mirror_def Let_def)
  qed
qed

lemma mark_mirrors_ok:
  assumes "mprotect_ok mprotect mapped writable" "aligned OB" "aligned OT" "OB < OT"
    "\<And>e. e \<in> set es \<Longrightarrow> page_entry e \<and> map_end e < 2 ^ 64 \<and> Length e \<noteq> 0 \<and> Resource e \<noteq> None"
    "\<And>e a. e \<in> set es \<Longrightarrow> covers e a \<Longrightarrow> mapped (Host s) a"
  shows "\<exists>h. fold_option (mark_mirror mprotect OB OT) es s = Some (s\<lparr>Host := h\<rparr>)
    \<and> mapped h = mapped (Host s)
    \<and> (\<forall>b. writable h b \<longleftrightarrow> writable (Host s) b \<and> \<not> (\<exists>e \<in> set es. mirror_hit OB OT e b))"
  using assms(5,6)
proof (induction es arbitrary: s)
  case Nil
  then show ?case by (intro exI [of _ "Host s"]) simp
next
  case (Cons e es)
  obtain h where h: "mark_mirror mprotect OB OT e s = Some (s\<lparr>Host := h\<rparr>)" "mapped h = mapped (Host s)"
    "\<forall>b. writable h b \<longleftrightarrow> writable (Host s) b \<and> \<not> mirror_hit OB OT e b"
    using mark_mirror_ok [OF assms(1-4), of e s] Cons.prems by auto
  obtain h' where "fold_option (mark_mirror mprotect OB OT) es (s\<lparr>Host := h\<rparr>) = Some (s\<lparr>Host := h'\<rparr>)"
    "mapped h' = mapped h"
    "\<forall>b. writable h' b \<longleftrightarrow> writable h b \<and> \<not> (\<exists>e \<in> set es. mirror_hit OB OT e b)"
    using Cons.IH [of "s\<lparr>Host := h\<rparr>"] Cons.prems h(2) by auto
  with h show ?case by (intro exI [of _ h']) auto
qed

text \<open>A write at \<open>b\<close> that the marking of address \<open>a\<close>, which entry \<open>e\<close> covers, has to catch.\<close>

definition caught :: "'e VMATracking \<Rightarrow> VMAEntry \<Rightarrow> u64 \<Rightarrow> u64 \<Rightarrow> bool" where
  "caught v e a b \<longleftrightarrow>
     (if Shared (Flags e)
      then \<exists>e'. vma_at v b e' \<and> Resource e' = Resource e \<and> Writable (Prot e') \<and> off e' b = off e a
      else a = b \<and> Writable (Prot e))"

definition host_tracks :: "('h \<Rightarrow> u64 \<Rightarrow> bool) \<Rightarrow> 'h \<Rightarrow> 'e VMATracking \<Rightarrow> bool" where
  "host_tracks mapped h v \<longleftrightarrow> (\<forall>a e. vma_at v a e \<longrightarrow> mapped h a)"

lemma max_min_unat:
  "unat (max a b :: u64) = max (unat a) (unat b)" "unat (min a b :: u64) = min (unat a) (unat b)"
  by (auto simp: max_def min_def word_le_nat_alt)

text \<open>The part of an entry inside a page-aligned range, and the offsets it has.\<close>

lemma part_of_entry:
  assumes "page_entry e" "map_end e < 2 ^ 64" "Length e \<noteq> 0" "aligned RB" "aligned Top" "RB < Top"
    "Base e < Top" "unat RB < map_end e"
  defines "PB \<equiv> max (Base e) RB" and "PT \<equiv> min (Base e + Length e) Top"
  shows "in_span PB (PT - PB) a \<longleftrightarrow> covers e a \<and> RB \<le> a \<and> a < Top" (is ?S)
    and "unat PB + unat (PT - PB) < 2 ^ 64" "aligned PB" "aligned (PT - PB)"
    and "Resource e \<noteq> None \<Longrightarrow> unat (PB - Base e + Offset e) = unat PB - unat (Base e) + unat (Offset e)"
    and "Resource e \<noteq> None \<Longrightarrow> unat (PB - Base e + Offset e + (PT - PB)) = unat PT - unat (Base e) + unat (Offset e)"
    and "unat PB < unat PT" "unat (Base e) \<le> unat PB" "unat PT \<le> map_end e"
proof -
  have end_word: "unat (Base e + Length e) = map_end e" by (rule map_end_word [OF assms(2)])
  have l: "0 < unat (Length e)" using assms(3) by (simp add: unat_gt_0)
  have pb: "unat PB = max (unat (Base e)) (unat RB)" and pt: "unat PT = min (map_end e) (unat Top)"
    by (simp_all add: PB_def PT_def max_min_unat end_word)
  show lt: "unat PB < unat PT" and le: "unat (Base e) \<le> unat PB" "unat PT \<le> map_end e"
    using assms(6-8) l unfolding pb pt by (auto simp: word_less_nat_alt map_end_def)
  have size: "unat (PT - PB) = unat PT - unat PB" using lt by (simp add: unat_minus word_le_nat_alt)
  show ?S
    unfolding in_span_def size using lt pb pt
    by (auto simp: covers_def word_le_nat_alt word_less_nat_alt)
  show "unat PB + unat (PT - PB) < 2 ^ 64" unfolding size using lt le(2) assms(2) by linarith
  show "aligned PB" "aligned (PT - PB)"
    using assms(1,4,5) unfolding PB_def PT_def page_entry_def by blast+
  assume "Resource e \<noteq> None"
  then have w: "unat (Offset e) + unat (Length e) < 2 ^ 64" using assms(1) by (simp add: page_entry_def)
  have d: "unat (PB - Base e) = unat PB - unat (Base e)" using le(1) by (simp add: unat_minus word_le_nat_alt)
  have b1: "unat PB - unat (Base e) + unat (Offset e) < 2 ^ 64"
    using w lt le unfolding map_end_def by linarith
  then show o: "unat (PB - Base e + Offset e) = unat PB - unat (Base e) + unat (Offset e)"
    by (simp add: unat_word_ariths d)
  have "unat PT - unat (Base e) + unat (Offset e) < 2 ^ 64"
    using w lt le unfolding map_end_def by linarith
  moreover have "unat PB - unat (Base e) + unat (Offset e) + (unat PT - unat PB)
      = unat PT - unat (Base e) + unat (Offset e)" using lt le by linarith
  ultimately show "unat (PB - Base e + Offset e + (PT - PB)) = unat PT - unat (Base e) + unat (Offset e)"
    by (simp only: unat_word_ariths(1) [of "PB - Base e + Offset e"] o size) simp
qed

lemma offsets_of_part:
  assumes "page_entry e" "map_end e < 2 ^ 64" "Length e \<noteq> 0" "aligned RB" "aligned Top" "RB < Top"
    "Base e < Top" "unat RB < map_end e" "Resource e \<noteq> None"
  defines "PB \<equiv> max (Base e) RB" and "PT \<equiv> min (Base e + Length e) Top"
  shows "PB - Base e + Offset e \<le> x \<and> x < PB - Base e + Offset e + (PT - PB)
    \<longleftrightarrow> (\<exists>a. covers e a \<and> RB \<le> a \<and> a < Top \<and> off e a = x)"
proof -
  note part = part_of_entry [OF assms(1-8), folded PB_def PT_def]
  have w: "unat (Offset e) + unat (Length e) < 2 ^ 64" using assms(1,9) by (simp add: page_entry_def)
  have size: "unat (PT - PB) = unat PT - unat PB" using part(7) by (simp add: unat_minus word_le_nat_alt)
  have "PB - Base e + Offset e \<le> x \<and> x < PB - Base e + Offset e + (PT - PB)
      \<longleftrightarrow> (\<exists>a. in_span PB (PT - PB) a \<and> unat x = unat (Offset e) + (unat a - unat (Base e)))"
    (is "?L \<longleftrightarrow> ?R")
  proof
    assume L: ?L
    let ?n = "unat x - unat (Offset e) + unat (Base e)"
    have b: "unat PB - unat (Base e) + unat (Offset e) \<le> unat x"
      "unat x < unat PT - unat (Base e) + unat (Offset e)"
      using L part(5,6) [OF assms(9)] by (simp_all add: word_le_nat_alt word_less_nat_alt)
    have n: "unat PB \<le> ?n" "?n < unat PT" using b part(7,8) by linarith+
    then have "?n < 2 ^ 64" using part(9) assms(2) by linarith
    then have "unat (word_of_nat ?n :: u64) = ?n" by (intro of_nat_inverse [OF refl]) simp
    then obtain a :: u64 where a: "unat a = ?n" by blast
    then show ?R
      using n b part(8) unfolding in_span_def size by (intro exI [of _ a]) auto
  next
    assume ?R
    then obtain a where a: "in_span PB (PT - PB) a" "unat x = unat (Offset e) + (unat a - unat (Base e))"
      by blast
    then have "unat PB \<le> unat a" "unat a < unat PT" using part(7) unfolding in_span_def size by auto
    with a(2) show ?L
      unfolding word_le_nat_alt word_less_nat_alt part(5,6) [OF assms(9)] using part(8) by linarith
  qed
  also have "\<dots> \<longleftrightarrow> (\<exists>a. covers e a \<and> RB \<le> a \<and> a < Top \<and> off e a = x)"
    using part(1) unat_off [OF w] by (metis word_unat_eq_iff)
  finally show ?thesis .
qed

lemma mark_mapping_ok:
  fixes s :: "('d, 'g, 'b, 'e, 'h) SyscallHandler"
  assumes "mprotect_ok mprotect mapped writable" "pages_tracked (Tracking s)"
    "host_tracks mapped (Host s) (Tracking s)" "get_vma k (Tracking s) = Some e"
    "aligned RB" "aligned Top" "RB < Top" "k < Top" "unat RB < map_end e"
  shows "\<exists>h. mark_mapping mprotect RB Top k e s = Some (s\<lparr>Host := h\<rparr>) \<and> mapped h = mapped (Host s)
    \<and> (\<forall>b. writable h b \<longleftrightarrow> writable (Host s) b
         \<and> \<not> (\<exists>a. covers e a \<and> RB \<le> a \<and> a < Top \<and> caught (Tracking s) e a b))"
proof -
  let ?v = "Tracking s" and ?PB = "max k RB" and ?PT = "min (k + Length e) Top"
  note e = pages_trackedD [OF assms(2,4)]
  note part = part_of_entry [OF e(5,4,3) assms(5,6,7), unfolded e(2), OF assms(8,9)]
  have covered: "vma_at ?v a e" if "covers e a" for a
    using that assms(4) e(2) by (simp add: vma_at_def)
  show ?thesis
  proof (cases "Shared (Flags e)")
    case True
    then obtain r where r: "Resource e = Some r" using e(5) by (auto simp: page_entry_def)
    obtain res first es where m: "get_resource r ?v = Some res" "FirstVMA res = Some first"
      "\<And>f (t :: ('d, 'g, 'b, 'e, 'h) SyscallHandler). mirror_loop f ?v first t = fold_option f es t"
      "\<And>e'. e' \<in> set es \<longleftrightarrow> Resource e' = Some r \<and> get_vma (Base e') ?v = Some e'"
      by (rule mirror_loop_resource [OF e(1) assms(4) r]) blast
    let ?OB = "?PB - k + Offset e" and ?OT = "?PB - k + Offset e + (?PT - ?PB)"
    have offs: "?OB \<le> x \<and> x < ?OT \<longleftrightarrow> (\<exists>a. covers e a \<and> RB \<le> a \<and> a < Top \<and> off e a = x)" for x
      using offsets_of_part [OF e(5,4,3) assms(5,6,7), unfolded e(2), OF assms(8,9)] r by simp
    have "aligned ?OB" "aligned ?OT"
      using part(3,4) e(2,5) unfolding page_entry_def by blast+
    moreover have "?OB < ?OT"
      using part(5,6) r part(7,8) unfolding word_less_nat_alt by (metis add_less_cancel_right
          diff_less_mono option.distinct(1))
    moreover have "page_entry e' \<and> map_end e' < 2 ^ 64 \<and> Length e' \<noteq> 0 \<and> Resource e' \<noteq> None" if "e' \<in> set es" for e'
      using that pages_trackedD [OF assms(2), of "Base e'" e'] m(4) by auto
    moreover have "mapped (Host s) a" if "e' \<in> set es" "covers e' a" for e' a
      using that m(4) assms(3) by (auto simp: host_tracks_def vma_at_def)
    ultimately obtain h where h: "fold_option (mark_mirror mprotect ?OB ?OT) es s = Some (s\<lparr>Host := h\<rparr>)"
      "mapped h = mapped (Host s)"
      "\<forall>b. writable h b \<longleftrightarrow> writable (Host s) b \<and> \<not> (\<exists>e \<in> set es. mirror_hit ?OB ?OT e b)"
      using mark_mirrors_ok [OF assms(1), of ?OB ?OT es s] by blast
    have "(\<exists>e' \<in> set es. mirror_hit ?OB ?OT e' b)
        \<longleftrightarrow> (\<exists>a. covers e a \<and> RB \<le> a \<and> a < Top \<and> caught ?v e a b)" for b
      unfolding mirror_hit_def offs caught_def vma_at_def using True m(4) r by auto metis+
    moreover have "mark_mapping mprotect RB Top k e s = fold_option (mark_mirror mprotect ?OB ?OT) es s"
      using True r m(1,2) by (simp add: mark_mapping_def Let_def m(3))
    ultimately show ?thesis using h by (intro exI [of _ h]) (simp only: refl, blast)
  next
    case False
    show ?thesis
    proof (cases "Writable (Prot e)")
      case w: True
      have "mapped (Host s) a" if "in_span ?PB (?PT - ?PB) a" for a
        using that part(1) covered assms(3) by (auto simp: host_tracks_def)
      then obtain h where "checked_mprotect mprotect ?PB (?PT - ?PB) PROT_READ s = Some (s\<lparr>Host := h\<rparr>)"
        "mapped h = mapped (Host s)"
        "\<forall>a. writable h a = (if in_span ?PB (?PT - ?PB) a then (PROT_READ AND PROT_WRITE) \<noteq> 0 else writable (Host s) a)"
        using checked_mprotect_ok [OF assms(1) part(3,4,2), of s PROT_READ] by blast
      then show ?thesis
        using False w part(1) by (intro exI [of _ h]) (auto simp: mark_mapping_def Let_def caught_def)
    next
      case w: False
      then show ?thesis
        using False by (intro exI [of _ "Host s"]) (simp add: mark_mapping_def Let_def caught_def)
    qed
  qed
qed

definition marked :: "'e VMATracking \<Rightarrow> u64 \<Rightarrow> u64 \<Rightarrow> VMAEntry \<Rightarrow> u64 \<Rightarrow> bool" where
  "marked v RB Top e b \<longleftrightarrow> (\<exists>a. covers e a \<and> RB \<le> a \<and> a < Top \<and> caught v e a b)"

lemma entry_before:
  assumes "pages_tracked v" "i < length (VMAs v)" "j < i"
  shows "map_end (snd (VMAs v ! j)) \<le> unat (fst (VMAs v ! i))"
proof -
  have ok: "vma_maps_ok v" "spans_ok (cmap v)" "map_ok (VMAs v)"
    using assms(1) by (simp_all add: pages_tracked_def vma_ok_def vma_maps_ok_def)
  have get: "cmap v (fst (VMAs v ! n)) = Some (core (snd (VMAs v ! n)))" if "n < length (VMAs v)" for n
    using nth_get_vma [OF ok(1) that] by (simp add: cmap_def)
  have "fst (VMAs v ! j) < fst (VMAs v ! i)"
    using ok(3) assms(2,3) by (auto simp: map_ok_def sorted_wrt_iff_nth_less)
  then show ?thesis
    using spansD(4) [OF ok(2) get [of j] get [of i]] assms(2,3) by simp
qed

lemma mark_loop_ok:
  fixes s :: "('d, 'g, 'b, 'e, 'h) SyscallHandler"
  assumes "mprotect_ok mprotect mapped writable" "pages_tracked v" "aligned RB" "aligned Top" "RB < Top"
    "i \<le> length (VMAs v)" "\<And>j. j < i \<Longrightarrow> fst (VMAs v ! j) < Top"
    "Tracking s = v" "host_tracks mapped (Host s) v"
  shows "\<exists>h. mark_loop mprotect RB Top i s = Some (s\<lparr>Host := h\<rparr>) \<and> mapped h = mapped (Host s)
    \<and> (\<forall>b. writable h b \<longleftrightarrow> writable (Host s) b \<and> \<not> (\<exists>j < i. marked v RB Top (snd (VMAs v ! j)) b))"
  using assms(6-9)
proof (induction i arbitrary: s)
  case 0
  then show ?case by (intro exI [of _ "Host s"]) simp
next
  case (Suc i)
  obtain k e where ke: "VMAs v ! i = (k, e)" by fastforce
  have len: "i < length (VMAs v)" using Suc.prems(1) by simp
  have "vma_maps_ok v" using assms(2) by (simp add: pages_tracked_def vma_ok_def)
  then have get: "get_vma k v = Some e" using nth_get_vma [OF _ len] ke by simp
  note e = pages_trackedD [OF assms(2) get]
  have end_word: "unat (k + Length e) = map_end e" using map_end_word [OF e(4)] e(2) by simp
  show ?case
  proof (cases "k + Length e \<le> RB")
    case True
    have "map_end (snd (VMAs v ! j)) \<le> unat RB" if "j < Suc i" for j
    proof (cases "j = i")
      case False
      then have "map_end (snd (VMAs v ! j)) \<le> unat k"
        using entry_before [OF assms(2) len, of j] that ke by simp
      then show ?thesis using True end_word e(2) by (simp add: word_le_nat_alt map_end_def)
    qed (use True end_word ke in \<open>simp add: word_le_nat_alt\<close>)
    then have "\<not> marked v RB Top (snd (VMAs v ! j)) b" if "j < Suc i" for j b
      using that by (force simp: marked_def covers_def word_le_nat_alt)
    then show ?thesis
      using True ke Suc.prems(3) by (intro exI [of _ "Host s"]) (auto simp: Let_def)
  next
    case False
    then have meets: "unat RB < map_end e" using end_word by (simp add: word_le_nat_alt)
    have kT: "k < Top" using Suc.prems(2) [of i] ke by simp
    obtain h where h: "mark_mapping mprotect RB Top k e s = Some (s\<lparr>Host := h\<rparr>)" "mapped h = mapped (Host s)"
      "\<forall>b. writable h b \<longleftrightarrow> writable (Host s) b \<and> \<not> marked v RB Top e b"
      using mark_mapping_ok [OF assms(1), of s k e RB Top] assms(2-5) get kT meets Suc.prems(3,4)
      unfolding marked_def by blast
    have "\<exists>h'. mark_loop mprotect RB Top i (s\<lparr>Host := h\<rparr>) = Some (s\<lparr>Host := h\<rparr>\<lparr>Host := h'\<rparr>)
        \<and> mapped h' = mapped (Host (s\<lparr>Host := h\<rparr>))
        \<and> (\<forall>b. writable h' b \<longleftrightarrow> writable (Host (s\<lparr>Host := h\<rparr>)) b
             \<and> \<not> (\<exists>j < i. marked v RB Top (snd (VMAs v ! j)) b))"
      using Suc.prems h(2) by (intro Suc.IH) (auto simp: host_tracks_def)
    then obtain h' where h': "mark_loop mprotect RB Top i (s\<lparr>Host := h\<rparr>) = Some (s\<lparr>Host := h'\<rparr>)"
      "mapped h' = mapped h"
      "\<forall>b. writable h' b \<longleftrightarrow> writable h b \<and> \<not> (\<exists>j < i. marked v RB Top (snd (VMAs v ! j)) b)"
      by auto
    have "mark_loop mprotect RB Top (Suc i) s = Some (s\<lparr>Host := h'\<rparr>)"
      using False ke Suc.prems(3) h(1) h'(1) by (simp add: Let_def)
    then show ?thesis using h h' ke by (intro exI [of _ h']) (auto simp: less_Suc_eq)
  qed
qed

text \<open>
  \<open>c\<close> shows the same byte as \<open>a\<close>: they are the same address, or \<open>a\<close> lies in a shared mapping and \<open>c\<close>
  maps the same byte of the same resource. A write at such a \<open>c\<close> must not go unnoticed when the code at
  \<open>a\<close> is compiled.
\<close>

definition same_byte :: "'e VMATracking \<Rightarrow> u64 \<Rightarrow> u64 \<Rightarrow> bool" where
  "same_byte v a c \<longleftrightarrow>
     (case (mapping_at v a, mapping_at v c) of
        (Some (r, x, f, _), Some (r', x', _, _)) \<Rightarrow> if Shared f then r' = r \<and> x' = x else a = c
      | _ \<Rightarrow> False)"

definition tracked_writable :: "'e VMATracking \<Rightarrow> u64 \<Rightarrow> bool" where
  "tracked_writable v a \<longleftrightarrow> (case mapping_at v a of Some (_, _, _, p) \<Rightarrow> Writable p | None \<Rightarrow> False)"

definition must_trap :: "'e VMATracking \<Rightarrow> u64 \<Rightarrow> u64 \<Rightarrow> bool" where
  "must_trap v a b \<longleftrightarrow> same_byte v a b \<and> tracked_writable v b"

lemma mapping_at_entry:
  assumes "pages_tracked v" "vma_at v a e"
  shows "mapping_at v a = Some (Resource e, off e a, Flags e, Prot e)"
  using mapping_entry [OF assms(1), of a] assms(2) by blast

lemma entry_exists:
  assumes "pages_tracked v" "mapping_at v a = Some d"
  obtains e where "vma_at v a e" "d = (Resource e, off e a, Flags e, Prot e)"
  using mapping_entry [OF assms(1), of a d] assms(2) by blast

lemma mapping_at_None:
  assumes "pages_tracked v"
  shows "mapping_at v a = None \<longleftrightarrow> \<not> (\<exists>e. vma_at v a e)"
  using mapping_at_entry [OF assms] entry_exists [OF assms] by (metis not_Some_eq)

lemma same_byte_entry:
  assumes "pages_tracked v" "vma_at v a e"
  shows "same_byte v a c \<longleftrightarrow> (\<exists>e'. vma_at v c e'
    \<and> (if Shared (Flags e) then Resource e' = Resource e \<and> off e' c = off e a else a = c))"
proof (cases "\<exists>e'. vma_at v c e'")
  case True
  then obtain e' where e': "vma_at v c e'" by blast
  then have "same_byte v a c \<longleftrightarrow> (if Shared (Flags e) then Resource e' = Resource e \<and> off e' c = off e a else a = c)"
    by (simp add: same_byte_def mapping_at_entry [OF assms] mapping_at_entry [OF assms(1) e'])
  then show ?thesis using e' vma_at_unique [OF assms(1) e'] by metis
next
  case False
  then have "mapping_at v c = None" using mapping_at_None [OF assms(1)] by blast
  then show ?thesis using False by (simp add: same_byte_def mapping_at_entry [OF assms])
qed

lemma same_byteD:
  assumes "pages_tracked v" "same_byte v a c"
  obtains e where "vma_at v a e"
  using assms mapping_at_None [OF assms(1), of a] by (auto simp: same_byte_def split: option.splits)

lemma tracked_writable_entry:
  "pages_tracked v \<Longrightarrow> vma_at v a e \<Longrightarrow> tracked_writable v a = Writable (Prot e)"
  by (simp add: tracked_writable_def mapping_at_entry)

lemma must_trap_caught:
  assumes "pages_tracked v"
  shows "must_trap v a b \<longleftrightarrow> (\<exists>e. vma_at v a e \<and> caught v e a b)"
proof -
  have "must_trap v a b \<longleftrightarrow> caught v e a b" if e: "vma_at v a e" for e
    unfolding must_trap_def same_byte_entry [OF assms e] caught_def
    using e tracked_writable_entry [OF assms] by (auto split: if_splits)
  then show ?thesis using same_byteD [OF assms] unfolding must_trap_def by metis
qed

lemma page_range:
  assumes "Len \<noteq> 0" "unat Start + unat Len + 4095 < 2 ^ 64"
  defines "RB \<equiv> Start AND FEX_PAGE_MASK" and "Top \<equiv> AlignUp (Start + Len) FEX_PAGE_SIZE"
  shows "aligned RB" "aligned Top" "RB < Top" "RB \<le> a \<and> a < Top \<longleftrightarrow> page a \<in> set (range_pages Start Len)"
proof -
  have l: "0 < unat Len" using assms(1) by (simp add: unat_gt_0)
  have sum: "unat (Start + Len) = unat Start + unat Len" using assms(2) by (simp add: unat_word_ariths)
  note up = AlignUp_bounds [of "Start + Len", unfolded sum, OF assms(2), folded Top_def]
  have rb: "unat RB = 4096 * (unat Start div 4096)" by (simp add: RB_def page_mask unat_page)
  show "aligned RB" "aligned Top" using up(1) page_mask(2) by (simp_all add: RB_def)
  show lt: "RB < Top" using rb up(2) l by (simp add: word_less_nat_alt)
  obtain q where q: "unat Top = 4096 * q" using up(1) by (auto simp: aligned_def)
  have last: "unat (Start + Len - 1) = unat Start + unat Len - 1"
    using l sum by (simp add: unat_minus word_le_nat_alt)
  have "(unat Start + unat Len - 1) div 4096 = q - 1"
    using up(2,3) l unfolding q by (intro div_nat_eqI) auto
  then have "unat a < unat Top \<longleftrightarrow> unat a div 4096 \<le> (unat Start + unat Len - 1) div 4096"
    using up(2) l unfolding q by (auto simp: div_less_iff_less_mult)
  moreover have "unat RB \<le> unat a \<longleftrightarrow> unat Start div 4096 \<le> unat a div 4096"
    unfolding rb by (metis div_le_mono le_div_geq mult.commute less_eq_div_iff_mult_less_eq zero_less_numeral)
  ultimately show "RB \<le> a \<and> a < Top \<longleftrightarrow> page a \<in> set (range_pages Start Len)"
    by (auto simp: range_pages_set word_le_nat_alt word_less_nat_alt unat_page last)
qed

lemma MarkGuestExecutableRange_ok:
  fixes s :: "('d, 'g, 'b, 'e, 'h) SyscallHandler"
  assumes "mprotect_ok mprotect mapped writable" "pages_tracked (Tracking s)"
    "host_tracks mapped (Host s) (Tracking s)" "SMCChecks s = CONFIG_SMC_MTRACK"
    "Len \<noteq> 0" "unat Start + unat Len + 4095 < 2 ^ 64"
  shows "\<exists>h. MarkGuestExecutableRange mprotect Start Len s = Some (s\<lparr>Host := h\<rparr>) \<and> mapped h = mapped (Host s)
    \<and> (\<forall>b. writable h b \<longleftrightarrow> writable (Host s) b
         \<and> \<not> (\<exists>a. page a \<in> set (range_pages Start Len) \<and> must_trap (Tracking s) a b))"
proof -
  let ?v = "Tracking s" and ?RB = "Start AND FEX_PAGE_MASK" and ?Top = "AlignUp (Start + Len) FEX_PAGE_SIZE"
  let ?i = "map_lower_bound (VMAs ?v) ?Top"
  note range = page_range [OF assms(5,6)]
  have m: "map_ok (VMAs ?v)" "vma_maps_ok ?v"
    using assms(2) by (simp_all add: pages_tracked_def vma_ok_def vma_maps_ok_def)
  have below: "j < ?i \<Longrightarrow> fst (VMAs ?v ! j) < ?Top" for j
    using below_lower_iff [OF m(1), of j ?Top] map_bounds_length(1) [of "VMAs ?v" ?Top] by auto
  have "(\<exists>j < ?i. marked ?v ?RB ?Top (snd (VMAs ?v ! j)) b)
      \<longleftrightarrow> (\<exists>a. page a \<in> set (range_pages Start Len) \<and> must_trap ?v a b)" (is "?L \<longleftrightarrow> ?R") for b
  proof
    assume ?L
    then obtain j where j: "j < ?i" "marked ?v ?RB ?Top (snd (VMAs ?v ! j)) b" by blast
    then have len: "j < length (VMAs ?v)" using map_bounds_length(1) by (metis less_le_trans)
    have "get_vma (Base (snd (VMAs ?v ! j))) ?v = Some (snd (VMAs ?v ! j))"
      using nth_get_vma [OF m(2) len] pages_trackedD(2) [OF assms(2)] by metis
    then show ?R
      using j(2) range(4) unfolding marked_def must_trap_caught [OF assms(2)] vma_at_def by blast
  next
    assume ?R
    then obtain a e where a: "page a \<in> set (range_pages Start Len)" "vma_at ?v a e" "caught ?v e a b"
      unfolding must_trap_caught [OF assms(2)] by blast
    then have in_range: "?RB \<le> a" "a < ?Top" using range(4) by blast+
    have "(Base e, e) \<in> set (VMAs ?v)"
      using a(2) by (auto simp: vma_at_def get_vma_def dest: map_of_SomeD)
    then obtain j where j: "j < length (VMAs ?v)" "VMAs ?v ! j = (Base e, e)" by (auto simp: in_set_conv_nth)
    have "Base e < ?Top"
      using a(2) in_range(2) by (simp add: vma_at_def covers_def word_less_nat_alt)
    then have "j < ?i" using below_lower_iff [OF m(1) j(1)] j(2) by simp
    moreover have "marked ?v ?RB ?Top (snd (VMAs ?v ! j)) b"
      using a in_range j(2) unfolding marked_def vma_at_def by auto
    ultimately show ?L by blast
  qed
  moreover obtain h where "mark_loop mprotect ?RB ?Top ?i s = Some (s\<lparr>Host := h\<rparr>)" "mapped h = mapped (Host s)"
    "\<forall>b. writable h b \<longleftrightarrow> writable (Host s) b \<and> \<not> (\<exists>j < ?i. marked ?v ?RB ?Top (snd (VMAs ?v ! j)) b)"
    using mark_loop_ok [OF assms(1,2) range(1-3) map_bounds_length(1) below refl assms(3)] by blast
  ultimately show ?thesis
    using assms(4) by (intro exI [of _ h]) (simp add: MarkGuestExecutableRange_def Let_def)
qed

section \<open>Answering a write fault\<close>

lemma aligned_lt: "aligned a \<Longrightarrow> aligned b \<Longrightarrow> unat a < unat b \<Longrightarrow> unat a + 4096 \<le> unat b"
  by (auto simp: aligned_def elim!: dvdE)

text \<open>The addresses of an entry that lie on the page of the resource at an offset.\<close>

definition flushed :: "u64 \<Rightarrow> VMAEntry \<Rightarrow> u64 \<Rightarrow> bool" where
  "flushed Off e a \<longleftrightarrow> covers e a \<and> unat Off \<le> unat (off e a) \<and> unat (off e a) < unat Off + 4096"

lemma flushed_page:
  assumes "page_entry e" "map_end e < 2 ^ 64" "Length e \<noteq> 0" "Resource e \<noteq> None" "aligned Off"
  defines "fb \<equiv> Off - Offset e + Base e"
  shows "Offset e \<le> Off \<and> Offset e + Length e > Off \<Longrightarrow> aligned fb \<and> unat fb + 4096 \<le> map_end e
      \<and> (\<forall>a. flushed Off e a \<longleftrightarrow> page a = page fb)"
    and "\<not> (Offset e \<le> Off \<and> Offset e + Length e > Off) \<Longrightarrow> \<not> flushed Off e a"
proof -
  let ?o = "Offset e" and ?l = "Length e" and ?b = "Base e"
  have al: "aligned ?b" "aligned ?l" "aligned ?o" and w: "unat ?o + unat ?l < 2 ^ 64"
    using assms(1,4) by (simp_all add: page_entry_def)
  have ot: "unat (?o + ?l) = unat ?o + unat ?l" using w by (simp add: unat_word_ariths)
  have fl: "flushed Off e a \<longleftrightarrow> unat ?b \<le> unat a \<and> unat a < unat ?b + unat ?l
      \<and> unat Off \<le> unat ?o + (unat a - unat ?b) \<and> unat ?o + (unat a - unat ?b) < unat Off + 4096" for a
    using unat_off [OF w, of a] by (auto simp: flushed_def covers_def map_end_def)
  show "aligned fb \<and> unat fb + 4096 \<le> map_end e \<and> (\<forall>a. flushed Off e a \<longleftrightarrow> page a = page fb)"
    if hit: "?o \<le> Off \<and> ?o + ?l > Off"
  proof -
    have le: "unat ?o \<le> unat Off" "unat Off < unat ?o + unat ?l"
      using hit ot by (simp_all add: word_le_nat_alt word_less_nat_alt)
    have fb: "unat fb = unat Off - unat ?o + unat ?b"
    proof -
      have "unat Off - unat ?o + unat ?b < 2 ^ 64" using le assms(2) unfolding map_end_def by linarith
      then show ?thesis using hit by (simp add: fb_def unat_word_ariths unat_minus)
    qed
    have "unat Off + 4096 \<le> unat ?o + unat ?l"
      using aligned_lt [of Off "?o + ?l"] le(2) al assms(5) by (auto simp: ot)
    then have room: "unat fb + 4096 \<le> map_end e" using fb le by (simp add: map_end_def)
    have "aligned fb" unfolding fb_def using al assms(5) by blast
    moreover have "flushed Off e a \<longleftrightarrow> page a = page fb" for a
      unfolding fl page_iff [OF calculation] fb using le room fb unfolding map_end_def by auto
    ultimately show ?thesis using room by blast
  qed
  show "\<not> flushed Off e a" if miss: "\<not> (?o \<le> Off \<and> ?o + ?l > Off)"
  proof
    assume f: "flushed Off e a"
    then have off: "unat Off \<le> unat ?o + (unat a - unat ?b)" "unat ?o + (unat a - unat ?b) < unat Off + 4096"
      "unat a < unat ?b + unat ?l" "unat ?b \<le> unat a" unfolding fl by blast+
    then have "unat Off < unat ?o"
      using miss ot by (auto simp: word_le_nat_alt word_less_nat_alt)
    then have "unat Off + 4096 \<le> unat ?o" using aligned_lt al(3) assms(5) by blast
    with off show False by linarith
  qed
qed

lemma flush_mirror_ok:
  fixes s :: "('d, 'g, 'b, 'e, 'h) SyscallHandler"
  assumes "mprotect_ok mprotect mapped writable" "aligned Off" "threads_ok (Threads s)"
    "page_entry e" "map_end e < 2 ^ 64" "Length e \<noteq> 0" "Resource e \<noteq> None"
    "\<And>a. covers e a \<Longrightarrow> mapped (Host s) a"
  shows "\<exists>Ts h. flush_mirror mprotect Off e s = Some (s\<lparr>Threads := Ts, Host := h\<rparr>)
    \<and> threads_ok Ts \<and> length Ts = length (Threads s) \<and> mapped h = mapped (Host s)
    \<and> (\<forall>P. has_code Ts P \<longleftrightarrow> has_code (Threads s) P \<and> \<not> (\<exists>a. flushed Off e a \<and> page a = P))
    \<and> (\<forall>b. writable h b \<longleftrightarrow> writable (Host s) b \<or> Writable (Prot e) \<and> flushed Off e b)"
proof -
  let ?fb = "Off - Offset e + Base e"
  note page = flushed_page [OF assms(4-7,2)]
  show ?thesis
  proof (cases "Offset e \<le> Off \<and> Offset e + Length e > Off")
    case True
    then have fb: "aligned ?fb" "unat ?fb + 4096 \<le> map_end e" "\<And>a. flushed Off e a \<longleftrightarrow> page a = page ?fb"
      using page(1) by blast+
    then have top: "unat ?fb + 4096 < 2 ^ 64" using assms(5) by linarith
    obtain Ts where Ts: "InvalidateGuestCodeRange ?fb FEX_PAGE_SIZE s = Some (s\<lparr>Threads := Ts\<rparr>)"
      "threads_ok Ts" "length Ts = length (Threads s)"
      "\<forall>P. has_code Ts P \<longleftrightarrow> has_code (Threads s) P \<and> P \<noteq> page ?fb"
      using invalidate_page_range [OF assms(3) fb(1) top] by blast
    have code: "has_code Ts P \<longleftrightarrow> has_code (Threads s) P \<and> \<not> (\<exists>a. flushed Off e a \<and> page a = P)" for P
      using Ts(4) by (auto simp: fb(3))
    show ?thesis
    proof (cases "Writable (Prot e)")
      case w: True
      have span: "in_span ?fb FEX_PAGE_SIZE a \<longleftrightarrow> flushed Off e a" for a
        by (simp add: in_span_def fb(3) page_iff [OF fb(1)] FEX_PAGE_SIZE_def)
      then have "mapped (Host (s\<lparr>Threads := Ts\<rparr>)) a" if "in_span ?fb FEX_PAGE_SIZE a" for a
        using that assms(8) by (simp add: flushed_def)
      moreover have "unat ?fb + unat FEX_PAGE_SIZE < 2 ^ 64" using top by (simp add: FEX_PAGE_SIZE_def)
      ultimately obtain h where h: "make_writable mprotect ?fb FEX_PAGE_SIZE (s\<lparr>Threads := Ts\<rparr>)
          = Some (s\<lparr>Threads := Ts, Host := h\<rparr>)" "mapped h = mapped (Host s)"
        "\<forall>a. writable h a = (if in_span ?fb FEX_PAGE_SIZE a then (PROT_READ OR PROT_WRITE) AND PROT_WRITE \<noteq> 0
            else writable (Host s) a)"
        using checked_mprotect_ok [OF assms(1) fb(1) aligned_consts(2), of "s\<lparr>Threads := Ts\<rparr>"
            "PROT_READ OR PROT_WRITE"] unfolding make_writable_def by auto
      have "flush_mirror mprotect Off e s = Some (s\<lparr>Threads := Ts, Host := h\<rparr>)"
        using True w Ts(1) h(1) by (simp add: flush_mirror_def Let_def InvalidateGuestCodeRange_CallAfter_def)
      then show ?thesis using Ts(2,3) h(2,3) w by (intro exI [of _ Ts] exI [of _ h]) (auto simp: code span)
    next
      case w: False
      then have "flush_mirror mprotect Off e s = Some (s\<lparr>Threads := Ts, Host := Host s\<rparr>)"
        using True Ts(1) by (simp add: flush_mirror_def Let_def)
      then show ?thesis using Ts(2,3) w by (intro exI [of _ Ts] exI [of _ "Host s"]) (simp add: code)
    qed
  next
    case False
    then have "flush_mirror mprotect Off e s = Some (s\<lparr>Threads := Threads s, Host := Host s\<rparr>)"
      by (auto simp: flush_mirror_def)
    then show ?thesis
      using page(2) [OF False] assms(3) by (intro exI [of _ "Threads s"] exI [of _ "Host s"]) simp
  qed
qed

lemma flush_mirrors_ok:
  fixes s :: "('d, 'g, 'b, 'e, 'h) SyscallHandler"
  assumes "mprotect_ok mprotect mapped writable" "aligned Off" "threads_ok (Threads s)"
    "\<And>e. e \<in> set es \<Longrightarrow> page_entry e \<and> map_end e < 2 ^ 64 \<and> Length e \<noteq> 0 \<and> Resource e \<noteq> None"
    "\<And>e a. e \<in> set es \<Longrightarrow> covers e a \<Longrightarrow> mapped (Host s) a"
  shows "\<exists>Ts h. fold_option (flush_mirror mprotect Off) es s = Some (s\<lparr>Threads := Ts, Host := h\<rparr>)
    \<and> threads_ok Ts \<and> length Ts = length (Threads s) \<and> mapped h = mapped (Host s)
    \<and> (\<forall>P. has_code Ts P \<longleftrightarrow> has_code (Threads s) P \<and> \<not> (\<exists>e \<in> set es. \<exists>a. flushed Off e a \<and> page a = P))
    \<and> (\<forall>b. writable h b \<longleftrightarrow> writable (Host s) b \<or> (\<exists>e \<in> set es. Writable (Prot e) \<and> flushed Off e b))"
  using assms(3-5)
proof (induction es arbitrary: s)
  case Nil
  then show ?case by (intro exI [of _ "Threads s"] exI [of _ "Host s"]) simp
next
  case (Cons e es)
  obtain Ts h where h: "flush_mirror mprotect Off e s = Some (s\<lparr>Threads := Ts, Host := h\<rparr>)"
    "threads_ok Ts" "length Ts = length (Threads s)" "mapped h = mapped (Host s)"
    "\<forall>P. has_code Ts P \<longleftrightarrow> has_code (Threads s) P \<and> \<not> (\<exists>a. flushed Off e a \<and> page a = P)"
    "\<forall>b. writable h b \<longleftrightarrow> writable (Host s) b \<or> Writable (Prot e) \<and> flushed Off e b"
    using flush_mirror_ok [OF assms(1,2) Cons.prems(1), of e] Cons.prems(2,3) by force
  let ?s = "s\<lparr>Threads := Ts, Host := h\<rparr>"
  obtain Ts' h' where h': "fold_option (flush_mirror mprotect Off) es ?s = Some (s\<lparr>Threads := Ts', Host := h'\<rparr>)"
    "threads_ok Ts'" "length Ts' = length Ts" "mapped h' = mapped h"
    "\<forall>P. has_code Ts' P \<longleftrightarrow> has_code Ts P \<and> \<not> (\<exists>e \<in> set es. \<exists>a. flushed Off e a \<and> page a = P)"
    "\<forall>b. writable h' b \<longleftrightarrow> writable h b \<or> (\<exists>e \<in> set es. Writable (Prot e) \<and> flushed Off e b)"
  proof -
    have "mapped (Host ?s) a" if "e' \<in> set es" "covers e' a" for e' a
      using that Cons.prems(3) [of e' a] h(4) by simp
    then show thesis using Cons.IH [of ?s] Cons.prems(2) h(2) that by auto
  qed
  have "fold_option (flush_mirror mprotect Off) (e # es) s = Some (s\<lparr>Threads := Ts', Host := h'\<rparr>)"
    using h(1) h'(1) by simp
  then show ?case
    using h(2-6) h'(2-6) by (intro exI [of _ Ts'] exI [of _ h']) auto
qed

lemma page_in_entry:
  assumes "pages_tracked v" "vma_at v A e" "page a = page A"
  shows "vma_at v a e"
proof -
  let ?fb = "AlignDown A FEX_PAGE_SIZE"
  have get: "get_vma (Base e) v = Some e" and c: "unat (Base e) \<le> unat A" "unat A < map_end e"
    using assms(2) by (auto simp: vma_at_def covers_def)
  note e = pages_trackedD [OF assms(1) get]
  have al: "aligned (Base e)" "aligned (Length e)" using e(5) by (simp_all add: page_entry_def)
  have a: "4096 * unat (page A) \<le> unat a" "unat a < 4096 * unat (page A) + 4096"
    using assms(3) page_iff [OF AlignDown_page(2), of a A] page_iff [OF AlignDown_page(2), of A A]
      AlignDown_page(1) [of A] unat_page [of A] unat_page [of a] by (auto simp: word_unat_eq_iff)
  have "unat (Base e) \<le> 4096 * unat (page A)" by (rule aligned_page_le [OF al(1) c(1)])
  moreover have "4096 * unat (page A) + 4096 \<le> map_end e"
  proof -
    have "aligned (Base e + Length e)" using al by blast
    then obtain q where q: "map_end e = 4096 * q"
      using map_end_word [OF e(4)] by (auto simp: aligned_def)
    then have "unat A div 4096 < q" using c(2) by (simp add: div_less_iff_less_mult)
    then show ?thesis by (simp add: q unat_page)
  qed
  ultimately show ?thesis using a get by (auto simp: vma_at_def covers_def)
qed

lemma fault_offsets:
  assumes "pages_tracked v" "vma_at v A e" "Resource e \<noteq> None"
  defines "Off \<equiv> AlignDown A FEX_PAGE_SIZE - Base e + Offset e"
  shows "aligned Off"
    "(\<exists>a. page a = page A \<and> off e a = x) \<longleftrightarrow> unat Off \<le> unat x \<and> unat x < unat Off + 4096"
proof -
  let ?fb = "AlignDown A FEX_PAGE_SIZE"
  have get: "get_vma (Base e) v = Some e" using assms(2) by (simp add: vma_at_def)
  note e = pages_trackedD [OF assms(1) get]
  have al: "aligned (Base e)" "aligned (Length e)" "aligned (Offset e)"
    and w: "unat (Offset e) + unat (Length e) < 2 ^ 64"
    using e(5) assms(3) by (simp_all add: page_entry_def)
  show alo: "aligned Off" unfolding Off_def using al AlignDown_page(2) by blast
  have fbA: "page ?fb = page A" by (simp add: word_unat_eq_iff unat_page AlignDown_page)
  have pg: "page a = page A \<longleftrightarrow> unat ?fb \<le> unat a \<and> unat a < unat ?fb + 4096" for a
    using page_iff [OF AlignDown_page(2), of a A] fbA by simp
  have cov: "covers e a" if "page a = page A" for a
    using page_in_entry [OF assms(1,2) that] by (simp add: vma_at_def)
  have base: "unat (Base e) \<le> unat ?fb" using cov [OF fbA] by (simp add: covers_def)
  have Off: "Off = off e ?fb" by (simp add: Off_def off_def)
  have uOff: "unat Off = unat (Offset e) + (unat ?fb - unat (Base e))"
    unfolding Off by (rule unat_off [OF w cov [OF fbA]])
  have u: "unat (off e a) = unat Off + (unat a - unat ?fb)" if "page a = page A" for a
    using unat_off [OF w cov [OF that]] uOff base pg that by auto
  show "(\<exists>a. page a = page A \<and> off e a = x) \<longleftrightarrow> unat Off \<le> unat x \<and> unat x < unat Off + 4096" (is "?L \<longleftrightarrow> ?R")
  proof
    assume ?L
    then show ?R using u pg by auto
  next
    assume R: ?R
    let ?n = "unat ?fb + (unat x - unat Off)"
    have "?n < unat ?fb + 4096" using R by linarith
    then have "?n < 2 ^ 64" using page_top [of A] by linarith
    then have "unat (word_of_nat ?n :: u64) = ?n" by (intro of_nat_inverse [OF refl]) simp
    then obtain a :: u64 where a: "unat a = ?n" by blast
    then have "page a = page A" using R pg by auto
    moreover have "off e a = x"
      using u [OF calculation] a R by (simp add: word_unat_eq_iff)
    ultimately show ?L by blast
  qed
qed

lemma Lookup_entry:
  assumes "pages_tracked v"
  shows "vma_at v a e \<Longrightarrow> LookupVMAUnsafe a v = Some (Base e, e)"
    and "\<not> (\<exists>e. vma_at v a e) \<Longrightarrow> LookupVMAUnsafe a v = None"
proof -
  note iff = LookupVMAUnsafe_iff [of v a] 
  have ok: "vma_ok v" using assms by (simp add: pages_tracked_def)
  show "vma_at v a e \<Longrightarrow> LookupVMAUnsafe a v = Some (Base e, e)"
    using iff [OF ok, of "Base e" e] by (simp add: vma_at_def)
  show "\<not> (\<exists>e. vma_at v a e) \<Longrightarrow> LookupVMAUnsafe a v = None"
    using iff [OF ok] pages_trackedD(2) [OF assms] unfolding vma_at_def by (metis not_Some_eq surj_pair)
qed

lemma HandleSegfault_refused:
  assumes "pages_tracked (Tracking s)" "\<not> tracked_writable (Tracking s) A"
  shows "HandleSegfault mprotect A s = Some (False, s)"
proof (cases "\<exists>e. vma_at (Tracking s) A e")
  case True
  then show ?thesis
    using Lookup_entry(1) [OF assms(1)] tracked_writable_entry [OF assms(1)] assms(2)
    by (auto simp: HandleSegfault_def)
next
  case False
  then show ?thesis using Lookup_entry(2) [OF assms(1)] by (simp add: HandleSegfault_def)
qed

lemma HandleSegfault_private:
  fixes s :: "('d, 'g, 'b, 'e, 'h) SyscallHandler"
  assumes "mprotect_ok mprotect mapped writable" "pages_tracked (Tracking s)"
    "host_tracks mapped (Host s) (Tracking s)" "threads_ok (Threads s)"
    "vma_at (Tracking s) A e" "Writable (Prot e)" "\<not> Shared (Flags e)"
  shows "\<exists>Ts h. HandleSegfault mprotect A s = Some (True, s\<lparr>Threads := Ts, Host := h\<rparr>)
    \<and> threads_ok Ts \<and> length Ts = length (Threads s) \<and> mapped h = mapped (Host s)
    \<and> (\<forall>P. has_code Ts P \<longleftrightarrow> has_code (Threads s) P \<and> P \<noteq> page A)
    \<and> (\<forall>b. writable h b \<longleftrightarrow> writable (Host s) b \<or> page b = page A)"
proof -
  let ?v = "Tracking s" and ?fb = "AlignDown A FEX_PAGE_SIZE"
  have al: "aligned ?fb" and fbA: "page ?fb = page A"
    by (simp_all add: AlignDown_page word_unat_eq_iff unat_page)
  have in_page: "vma_at ?v a e" if "page a = page A" for a
    by (rule page_in_entry [OF assms(2,5) that])
  have get: "get_vma (Base e) ?v = Some e" using assms(5) by (simp add: vma_at_def)
  note e = pages_trackedD [OF assms(2) get]
  have top: "unat ?fb + 4096 < 2 ^ 64"
  proof -
    have "unat ?fb + 4095 < 2 ^ 64" using page_top [of A] by simp
    then have "unat (?fb + 4095) = unat ?fb + 4095" by (simp add: unat_word_ariths)
    then have "page (?fb + 4095) = page A" using page_iff [OF al, of "?fb + 4095"] fbA by simp
    then have "unat ?fb + 4095 < map_end e"
      using in_page [of "?fb + 4095"] \<open>unat (?fb + 4095) = _\<close> by (simp add: vma_at_def covers_def)
    then show ?thesis using e(4) by linarith
  qed
  obtain Ts where Ts: "InvalidateGuestCodeRange ?fb FEX_PAGE_SIZE s = Some (s\<lparr>Threads := Ts\<rparr>)"
    "threads_ok Ts" "length Ts = length (Threads s)"
    "\<forall>P. has_code Ts P \<longleftrightarrow> has_code (Threads s) P \<and> P \<noteq> page ?fb"
    using invalidate_page_range [OF assms(4) al top] by blast
  have span: "in_span ?fb FEX_PAGE_SIZE a \<longleftrightarrow> page a = page A" for a
    using page_iff [OF al, of a] fbA by (simp add: in_span_def FEX_PAGE_SIZE_def)
  have "mapped (Host (s\<lparr>Threads := Ts\<rparr>)) a" if "in_span ?fb FEX_PAGE_SIZE a" for a
    using that in_page assms(3) by (auto simp: span host_tracks_def)
  moreover have "unat ?fb + unat FEX_PAGE_SIZE < 2 ^ 64" using top by (simp add: FEX_PAGE_SIZE_def)
  ultimately obtain h where h: "make_writable mprotect ?fb FEX_PAGE_SIZE (s\<lparr>Threads := Ts\<rparr>)
      = Some (s\<lparr>Threads := Ts, Host := h\<rparr>)" "mapped h = mapped (Host s)"
    "\<forall>a. writable h a = (if in_span ?fb FEX_PAGE_SIZE a then (PROT_READ OR PROT_WRITE) AND PROT_WRITE \<noteq> 0
        else writable (Host s) a)"
    using checked_mprotect_ok [OF assms(1) al aligned_consts(2), of "s\<lparr>Threads := Ts\<rparr>"
        "PROT_READ OR PROT_WRITE"] unfolding make_writable_def by auto
  have "HandleSegfault mprotect A s = Some (True, s\<lparr>Threads := Ts, Host := h\<rparr>)"
    using Lookup_entry(1) [OF assms(2,5)] assms(6,7) Ts(1) h(1)
    by (simp add: HandleSegfault_def Let_def InvalidateGuestCodeRange_CallAfter_def)
  then show ?thesis
    using Ts(2-4) h(2,3) by (intro exI [of _ Ts] exI [of _ h]) (auto simp: fbA span)
qed

lemma HandleSegfault_shared:
  fixes s :: "('d, 'g, 'b, 'e, 'h) SyscallHandler"
  assumes "mprotect_ok mprotect mapped writable" "pages_tracked (Tracking s)"
    "host_tracks mapped (Host s) (Tracking s)" "threads_ok (Threads s)"
    "vma_at (Tracking s) A e" "Writable (Prot e)" "Shared (Flags e)"
  shows "\<exists>Ts h. HandleSegfault mprotect A s = Some (True, s\<lparr>Threads := Ts, Host := h\<rparr>)
    \<and> threads_ok Ts \<and> length Ts = length (Threads s) \<and> mapped h = mapped (Host s)
    \<and> (\<forall>P. has_code Ts P \<longleftrightarrow> has_code (Threads s) P
         \<and> \<not> (\<exists>a c. page a = page A \<and> same_byte (Tracking s) a c \<and> page c = P))
    \<and> (\<forall>b. writable h b \<longleftrightarrow> writable (Host s) b \<or> (\<exists>a. page a = page A \<and> must_trap (Tracking s) a b))"
proof -
  let ?v = "Tracking s" and ?Off = "AlignDown A FEX_PAGE_SIZE - Base e + Offset e"
  have get: "get_vma (Base e) ?v = Some e" using assms(5) by (simp add: vma_at_def)
  note e = pages_trackedD [OF assms(2) get]
  obtain r where r: "Resource e = Some r" using e(5) assms(7) by (auto simp: page_entry_def)
  note off = fault_offsets [OF assms(2,5), unfolded r, OF option.simps(3)]
  obtain res first es where m: "get_resource r ?v = Some res" "FirstVMA res = Some first"
    "\<And>f (t :: ('d, 'g, 'b, 'e, 'h) SyscallHandler). mirror_loop f ?v first t = fold_option f es t"
    "\<And>e'. e' \<in> set es \<longleftrightarrow> Resource e' = Some r \<and> get_vma (Base e') ?v = Some e'"
    by (rule mirror_loop_resource [OF e(1) get r]) blast
  have es: "page_entry e' \<and> map_end e' < 2 ^ 64 \<and> Length e' \<noteq> 0 \<and> Resource e' \<noteq> None" if "e' \<in> set es" for e'
    using that pages_trackedD [OF assms(2), of "Base e'" e'] m(4) by auto
  have "mapped (Host s) a" if "e' \<in> set es" "covers e' a" for e' a
    using that m(4) assms(3) by (auto simp: host_tracks_def vma_at_def)
  with es obtain Ts h where h: "fold_option (flush_mirror mprotect ?Off) es s = Some (s\<lparr>Threads := Ts, Host := h\<rparr>)"
    "threads_ok Ts" "length Ts = length (Threads s)" "mapped h = mapped (Host s)"
    "\<forall>P. has_code Ts P \<longleftrightarrow> has_code (Threads s) P \<and> \<not> (\<exists>e \<in> set es. \<exists>a. flushed ?Off e a \<and> page a = P)"
    "\<forall>b. writable h b \<longleftrightarrow> writable (Host s) b \<or> (\<exists>e \<in> set es. Writable (Prot e) \<and> flushed ?Off e b)"
    using flush_mirrors_ok [OF assms(1) off(1) assms(4), of es] by blast
  have flushed: "e' \<in> set es \<and> flushed ?Off e' c \<longleftrightarrow> vma_at ?v c e' \<and> Resource e' = Resource e
      \<and> (\<exists>a. page a = page A \<and> off e a = off e' c)" for e' c
    unfolding flushed_def off(2) m(4) vma_at_def r by blast
  have same: "(\<exists>a. page a = page A \<and> same_byte ?v a c)
      \<longleftrightarrow> (\<exists>e'. vma_at ?v c e' \<and> Resource e' = Resource e \<and> (\<exists>a. page a = page A \<and> off e a = off e' c))" for c
    using same_byte_entry [OF assms(2) page_in_entry [OF assms(2,5)]] assms(7) by (simp add: eq_commute) blast
  have "(\<exists>e \<in> set es. \<exists>a. flushed ?Off e a \<and> page a = P)
      \<longleftrightarrow> (\<exists>a c. page a = page A \<and> same_byte ?v a c \<and> page c = P)" for P
    using flushed same by blast
  moreover have "(\<exists>e \<in> set es. Writable (Prot e) \<and> flushed ?Off e b)
      \<longleftrightarrow> (\<exists>a. page a = page A \<and> must_trap ?v a b)" for b
    unfolding must_trap_def using flushed same tracked_writable_entry [OF assms(2)] by blast
  moreover have "HandleSegfault mprotect A s = Some (True, s\<lparr>Threads := Ts, Host := h\<rparr>)"
    using Lookup_entry(1) [OF assms(2,5)] assms(6,7) r m(1,2) h(1)
    by (simp add: HandleSegfault_def Let_def m(3))
  ultimately show ?thesis using h(2-6) by (intro exI [of _ Ts] exI [of _ h]) simp
qed

lemma HandleSegfault_ok:
  fixes s :: "('d, 'g, 'b, 'e, 'h) SyscallHandler"
  assumes "mprotect_ok mprotect mapped writable" "pages_tracked (Tracking s)"
    "host_tracks mapped (Host s) (Tracking s)" "threads_ok (Threads s)" "tracked_writable (Tracking s) A"
  shows "\<exists>Ts h. HandleSegfault mprotect A s = Some (True, s\<lparr>Threads := Ts, Host := h\<rparr>)
    \<and> threads_ok Ts \<and> length Ts = length (Threads s) \<and> mapped h = mapped (Host s)
    \<and> (\<forall>P. has_code Ts P \<longleftrightarrow> has_code (Threads s) P
         \<and> \<not> (\<exists>a c. page a = page A \<and> same_byte (Tracking s) a c \<and> page c = P))
    \<and> (\<forall>b. writable h b \<longleftrightarrow> writable (Host s) b \<or> (\<exists>a. page a = page A \<and> must_trap (Tracking s) a b))"
proof -
  let ?v = "Tracking s"
  obtain e where e: "vma_at ?v A e"
    using assms(5) mapping_at_None [OF assms(2), of A] by (auto simp: tracked_writable_def split: option.splits)
  have w: "Writable (Prot e)" using tracked_writable_entry [OF assms(2) e] assms(5) by simp
  show ?thesis
  proof (cases "Shared (Flags e)")
    case True
    then show ?thesis by (rule HandleSegfault_shared [OF assms(1-4) e w])
  next
    case False
    have in_page: "vma_at ?v a e" if "page a = page A" for a by (rule page_in_entry [OF assms(2) e that])
    have "same_byte ?v a c \<longleftrightarrow> a = c" if "page a = page A" for a c
      using same_byte_entry [OF assms(2) in_page [OF that]] in_page that False by auto
    moreover have "must_trap ?v a b \<longleftrightarrow> a = b" if "page a = page A" for a b
      using calculation [OF that] tracked_writable_entry [OF assms(2) in_page [OF that]] w
      by (auto simp: must_trap_def)
    ultimately have code: "(\<exists>a c. page a = page A \<and> same_byte ?v a c \<and> page c = P) \<longleftrightarrow> P = page A"
      and wr: "(\<exists>a. page a = page A \<and> must_trap ?v a b) \<longleftrightarrow> page b = page A" for P b
      by (auto cong: conj_cong)
    show ?thesis unfolding code wr by (rule HandleSegfault_private [OF assms(1-4) e w False])
  qed
qed

section \<open>Decoding a block\<close>

lemma has_code_nth: "has_code Ts P \<longleftrightarrow> (\<exists>j < length Ts. page_code P (ThreadCache (Ts ! j)) \<noteq> [])"
  unfolding has_code_def by (metis in_set_conv_nth)

lemma has_code_update:
  assumes "i < length Ts"
  shows "has_code (Ts[i := T]) P \<longleftrightarrow> page_code P (ThreadCache T) \<noteq> []
    \<or> (\<exists>j < length Ts. j \<noteq> i \<and> page_code P (ThreadCache (Ts ! j)) \<noteq> [])"
  unfolding has_code_nth using assms by (metis length_list_update nth_list_update)

lemma record_block:
  assumes "threads_ok Ts" "i < length Ts" "AddBlockExecutableRange A Start Len (ThreadCache (Ts ! i)) = (rv, c)"
  defines "Ts' \<equiv> Ts[i := (Ts ! i)\<lparr>ThreadCache := c\<rparr>]"
  shows "threads_ok Ts'" "has_code Ts' P \<longleftrightarrow> has_code Ts P \<or> P \<in> set (range_pages Start Len)"
    "\<not> rv \<Longrightarrow> P \<in> set (range_pages Start Len) \<Longrightarrow> has_code Ts P"
proof -
  have T: "coherent (ThreadCache (Ts ! i))" "map_ok (DebugStore (Ts ! i))"
    using assms(1,2) by (simp_all add: threads_ok_def)
  note marks = AddBlockExecutableRange_marks [OF coherent_maps(3) [OF T(1)] assms(3)]
  have "coherent c" using marks(1,4) coherent_links(2) [OF T(1)] by metis
  then show "threads_ok Ts'"
    using assms(1) T unfolding Ts'_def threads_ok_def by (auto dest!: set_update_subset_insert [THEN subsetD])
  show "has_code Ts' P \<longleftrightarrow> has_code Ts P \<or> P \<in> set (range_pages Start Len)"
    unfolding Ts'_def has_code_update [OF assms(2)] using marks(2) [of P] assms(2) by (auto simp: has_code_nth)
  show "has_code Ts P" if "\<not> rv" "P \<in> set (range_pages Start Len)"
    using marks(3) that assms(2) by (auto simp: has_code_def intro!: bexI [of _ "Ts ! i"])
qed

section \<open>Stores never reach compiled code unnoticed\<close>

text \<open>A store through \<open>b\<close> that succeeds changes the byte the guest fetches at \<open>a\<close>.\<close>

definition store_reaches :: "'e VMATracking \<Rightarrow> u64 \<Rightarrow> u64 \<Rightarrow> bool" where
  "store_reaches v b a \<longleftrightarrow> must_trap v a b
     \<and> (a = b \<or> (case mapping_at v b of Some (_, _, f, _) \<Rightarrow> Shared f | None \<Rightarrow> False))"

definition code_protected ::
  "('h \<Rightarrow> u64 \<Rightarrow> bool) \<Rightarrow> ('d, 'g, 'b, 'e, 'h) SyscallHandler \<Rightarrow> bool" where
  "code_protected writable s \<longleftrightarrow>
     (\<forall>a b. has_code (Threads s) (page a) \<longrightarrow> store_reaches (Tracking s) b a \<longrightarrow> \<not> writable (Host s) b)"

definition smc_ok ::
  "('h \<Rightarrow> u64 \<Rightarrow> bool) \<Rightarrow> ('h \<Rightarrow> u64 \<Rightarrow> bool) \<Rightarrow> ('d, 'g, 'b, 'e, 'h) SyscallHandler \<Rightarrow> bool" where
  "smc_ok mapped writable s \<longleftrightarrow> pages_tracked (Tracking s) \<and> host_tracks mapped (Host s) (Tracking s)
     \<and> threads_ok (Threads s) \<and> SMCChecks s = CONFIG_SMC_MTRACK \<and> code_protected writable s"

lemma code_protected_mono:
  assumes "code_protected writable s" "Tracking s' = Tracking s"
    "\<And>P. has_code (Threads s') P \<Longrightarrow> has_code (Threads s) P"
    "\<And>b. writable (Host s') b \<Longrightarrow> writable (Host s) b"
  shows "code_protected writable s'"
  using assms unfolding code_protected_def by metis

lemma decoded_range_ok:
  fixes s :: "('d, 'g, 'b, 'e, 'h) SyscallHandler"
  assumes "mprotect_ok mprotect mapped writable" "smc_ok mapped writable s" "i < length (Threads s)"
    "Len \<noteq> 0" "unat Start + unat Len + 4095 < 2 ^ 64"
  shows "\<exists>s'. decoded_range mprotect i A Start Len s = Some s' \<and> smc_ok mapped writable s'
    \<and> s' = s\<lparr>Threads := Threads s', Host := Host s'\<rparr> \<and> length (Threads s') = length (Threads s)
    \<and> (\<forall>P. has_code (Threads s') P \<longleftrightarrow> has_code (Threads s) P \<or> P \<in> set (range_pages Start Len))"
proof -
  have ok: "pages_tracked (Tracking s)" "host_tracks mapped (Host s) (Tracking s)" "threads_ok (Threads s)"
    "SMCChecks s = CONFIG_SMC_MTRACK" "code_protected writable s"
    using assms(2) by (simp_all add: smc_ok_def)
  obtain rv c where r: "AddBlockExecutableRange A Start Len (ThreadCache (Threads s ! i)) = (rv, c)" by fastforce
  let ?Ts = "(Threads s)[i := (Threads s ! i)\<lparr>ThreadCache := c\<rparr>]" and ?s = "s\<lparr>Threads :=
    (Threads s)[i := (Threads s ! i)\<lparr>ThreadCache := c\<rparr>]\<rparr>"
  note rec = record_block [OF ok(3) assms(3) r]
  show ?thesis
  proof (cases rv)
    case False
    have "code_protected writable ?s"
      by (rule code_protected_mono [OF ok(5)]) (use rec(2,3) False in auto)
    moreover have "decoded_range mprotect i A Start Len s = Some ?s"
      using r False by (simp add: decoded_range_def)
    ultimately show ?thesis
      using ok rec(1,2) by (intro exI [of _ ?s]) (simp add: smc_ok_def)
  next
    case True
    obtain h where h: "MarkGuestExecutableRange mprotect Start Len ?s = Some (?s\<lparr>Host := h\<rparr>)"
      "mapped h = mapped (Host s)"
      "\<forall>b. writable h b \<longleftrightarrow> writable (Host s) b
         \<and> \<not> (\<exists>a. page a \<in> set (range_pages Start Len) \<and> must_trap (Tracking s) a b)"
      using MarkGuestExecutableRange_ok [OF assms(1), of ?s Len Start] ok assms(4,5) by auto
    have "code_protected writable (?s\<lparr>Host := h\<rparr>)"
      using ok(5) h(3) rec(2) unfolding code_protected_def store_reaches_def by auto
    moreover have "decoded_range mprotect i A Start Len s = Some (?s\<lparr>Host := h\<rparr>)"
      using r True h(1) by (simp add: decoded_range_def Let_def)
    ultimately show ?thesis
      using ok rec(1,2) h(2) by (intro exI [of _ "?s\<lparr>Host := h\<rparr>"]) (simp add: smc_ok_def host_tracks_def)
  qed
qed

lemma same_byte_shared:
  assumes "same_byte v a c" "case mapping_at v c of Some (_, _, f, _) \<Rightarrow> Shared f | None \<Rightarrow> False" "a \<noteq> c"
    "same_byte v a' c"
  shows "same_byte v a' a"
  using assms by (auto simp: same_byte_def split: option.splits if_splits)

lemma HandleSegfault_protected:
  fixes s :: "('d, 'g, 'b, 'e, 'h) SyscallHandler"
  assumes "mprotect_ok mprotect mapped writable" "smc_ok mapped writable s"
    "HandleSegfault mprotect A s = Some (handled, s')"
  shows "smc_ok mapped writable s'"
proof (cases "tracked_writable (Tracking s) A")
  case False
  then show ?thesis
    using HandleSegfault_refused [of s A mprotect] assms(2,3) by (simp add: smc_ok_def)
next
  case True
  have ok: "pages_tracked (Tracking s)" "host_tracks mapped (Host s) (Tracking s)" "threads_ok (Threads s)"
    "SMCChecks s = CONFIG_SMC_MTRACK" "code_protected writable s"
    using assms(2) by (simp_all add: smc_ok_def)
  obtain Ts h where h: "s' = s\<lparr>Threads := Ts, Host := h\<rparr>" "threads_ok Ts" "mapped h = mapped (Host s)"
    "\<forall>P. has_code Ts P \<longleftrightarrow> has_code (Threads s) P
         \<and> \<not> (\<exists>a c. page a = page A \<and> same_byte (Tracking s) a c \<and> page c = P)"
    "\<forall>b. writable h b \<longleftrightarrow> writable (Host s) b \<or> (\<exists>a. page a = page A \<and> must_trap (Tracking s) a b)"
    using HandleSegfault_ok [OF assms(1) ok(1-3) True] assms(3) by auto
  have "\<not> writable h b" if code: "has_code Ts (page a)" and st: "store_reaches (Tracking s) b a" for a b
  proof
    assume "writable h b"
    moreover have "\<not> writable (Host s) b"
      using ok(5) h(4) code st unfolding code_protected_def by blast
    ultimately obtain a' where a': "page a' = page A" "same_byte (Tracking s) a' b"
      using h(5) unfolding must_trap_def by blast
    have st': "same_byte (Tracking s) a b"
      "a = b \<or> (case mapping_at (Tracking s) b of Some (_, _, f, _) \<Rightarrow> Shared f | None \<Rightarrow> False)"
      using st unfolding store_reaches_def must_trap_def by blast+
    then have "same_byte (Tracking s) a' a"
      using a'(2) same_byte_shared [OF st'(1) _ _ a'(2)] by (cases "a = b") auto
    then show False using h(4) code a'(1) by blast
  qed
  then have "code_protected writable s'" by (simp add: code_protected_def h(1))
  then show ?thesis using ok h(1-3) by (simp add: smc_ok_def host_tracks_def)
qed

end
