(* ===== verification/SMC_Syscalls.thy ===== *)
theory SMC_Syscalls
  imports SMC_Props
begin

text \<open>
  The hooks of the memory syscalls: they keep the tracked mappings page-aligned, record exactly the change
  of the address space, drop the code of the changed range in every thread, and keep compiled code
  protected, except where the program forgets mirrors or the target of a move. The effect of the system
  call itself on the host is a hypothesis about the host state.
\<close>

unbundle bit_operations_syntax

section \<open>Page alignment of the tracked mappings\<close>

definition entries :: "(VMAEntry \<Rightarrow> bool) \<Rightarrow> (u64 \<rightharpoonup> VMAEntry) \<Rightarrow> bool" where
  "entries Q m \<longleftrightarrow> (\<forall>k e. m k = Some e \<longrightarrow> Q e)"

lemma page_entry_core [simp]: "page_entry (core e) = page_entry e"
  by (simp add: page_entry_def)

lemma pages_tracked_entries: "pages_tracked v \<longleftrightarrow> vma_ok v \<and> entries page_entry (cmap v)"
  unfolding pages_tracked_def entries_def cmap_def map_option_eq_Some
  using page_entry_core by metis

lemma clear_loop_entries:
  assumes "B \<le> T"
    "\<And>m k e. spans_ok m \<Longrightarrow> m k = Some e \<Longrightarrow> k < T \<Longrightarrow> unat B < map_end e \<Longrightarrow> entries Q m
       \<Longrightarrow> entries Q (clear_entry B T k e m)"
    "vma_ok v" "i \<le> length (VMAs v)" "\<And>x. x \<in> set (take i (map fst (VMAs v))) \<Longrightarrow> x < T"
    "entries Q (cmap v)" "clear_loop B T P i v = Some v'"
  shows "entries Q (cmap v')"
  using assms(3-7)
proof (induction i arbitrary: v)
  case (Suc i)
  obtain k e where ke: "VMAs v ! i = (k, e)" by fastforce
  have ok: "vma_maps_ok v" "spans_ok (cmap v)" "map_ok (VMAs v)"
    using Suc.prems(1) by (simp_all add: vma_ok_def vma_maps_ok_def)
  have len: "i < length (VMAs v)" using Suc.prems(2) by simp
  have get: "get_vma k v = Some e" using nth_get_vma [OF ok(1) len] ke by simp
  then have ck: "cmap v k = Some (core e)" by (simp add: cmap_def)
  have keys: "take (Suc i) (map fst (VMAs v)) = take i (map fst (VMAs v)) @ [k]"
    using take_Suc_keys [OF len] ke by simp
  have below: "x < k" if "x \<in> set (take i (map fst (VMAs v)))" for x
    using keys_below [OF ok(3) len that] ke by simp
  have kT: "k < T" using Suc.prems(3) keys by simp
  show ?case
  proof (cases "Base e + Length e \<le> B")
    case True
    then show ?thesis using Suc.prems(4,5) ke by simp
  next
    case False
    then have meets: "unat B < map_end e"
      using map_end_word [of e] spansD(3) [OF ok(2) ck] by (simp add: word_le_nat_alt)
    obtain v1 where v1: "clear_mapping B T P k e v = Some v1" "vma_ok v1"
      "cmap v1 = clear_entry B T k (core e) (cmap v)" "keeps_below k v v1"
      using clear_mapping_ok [OF Suc.prems(1) get kT meets assms(1), of P] by blast
    have keep: "i \<le> length (VMAs v1)" "take i (map fst (VMAs v1)) = take i (map fst (VMAs v))"
      using v1(4) below Suc.prems(2) by (simp_all add: keeps_below_def)
    have "x < T" if "x \<in> set (take i (map fst (VMAs v1)))" for x
      using that below kT unfolding keep(2) by (meson order.strict_trans)
    moreover have "entries Q (cmap v1)"
      using assms(2) [OF ok(2) ck kT _ Suc.prems(4)] meets v1(3) by simp
    moreover have "clear_loop B T P i v1 = Some v'"
      using False ke v1(1) Suc.prems(5) by simp
    ultimately show ?thesis using Suc.IH [OF v1(2) keep(1)] by blast
  qed
qed simp

lemma page_entry_first:
  assumes "page_entry e" "Base e = k" "k < B" "unat B < map_end e" "aligned B"
  shows "page_entry (e\<lparr>Length := B - k\<rparr>)"
proof -
  have "unat (B - k) = unat B - unat k" using assms(3) by (simp add: unat_minus)
  then have "unat (B - k) < unat (Length e)" using assms(2-4) by (simp add: map_end_def word_less_nat_alt)
  then show ?thesis using assms(1,2,5) by (auto simp: page_entry_def)
qed

lemma page_entry_trailing:
  assumes "page_entry e" "Base e = k" "k < T" "map_end e < 2 ^ 64" "T < Base e + Length e" "aligned T"
  shows "page_entry (trailing T e)"
proof -
  have le: "unat k < unat T" "unat T < map_end e"
    using assms(3-5) map_end_word [OF assms(4)] by (simp_all add: word_less_nat_alt)
  have l: "unat (Base e + Length e - T) = map_end e - unat T"
    using assms(5) map_end_word [OF assms(4)] by (simp add: unat_minus)
  have "unat (Offset e - Base e + T) + unat (Base e + Length e - T) < 2 ^ 64"
    if w: "unat (Offset e) + unat (Length e) < 2 ^ 64"
  proof -
    have "Offset e - Base e + T = Offset e + (T - k)" using assms(2) by simp
    moreover have "unat (T - k) = unat T - unat k" using assms(3) by (simp add: unat_minus)
    moreover have "unat (Offset e) + (unat T - unat k) < 2 ^ 64"
      using w le unfolding map_end_def assms(2) by linarith
    ultimately have "unat (Offset e - Base e + T) = unat (Offset e) + (unat T - unat k)"
      by (simp only: unat_word_ariths(1) [of "Offset e"]) simp
    then show ?thesis using w le l unfolding map_end_def assms(2) by linarith
  qed
  moreover have "aligned (Offset e - Base e + T)" "aligned (Base e + Length e - T)"
    using assms(1,6) unfolding page_entry_def by blast+
  ultimately show ?thesis using assms(1,6) by (auto simp: page_entry_def trailing_def)
qed

lemma clear_entry_pages:
  assumes "spans_ok m" "m k = Some e" "k < T" "unat B < map_end e" "entries page_entry m"
    "aligned B" "aligned T"
  shows "entries page_entry (clear_entry B T k e m)"
proof -
  have e: "Base e = k" "map_end e < 2 ^ 64" "page_entry e"
    using spansD [OF assms(1,2)] assms(2,5) by (auto simp: entries_def)
  then show ?thesis
    using page_entry_first [OF e(3,1) _ assms(4,6)] page_entry_trailing [OF e(3,1) assms(3) e(2) _ assms(7)] assms(5)
    by (auto simp: entries_def clear_entry_def Let_def split: if_splits)
qed

lemma ClearUnsafe_pages:
  assumes "pages_tracked v" "unat B + unat L < 2 ^ 64" "aligned B" "aligned L" "ClearUnsafe B L P v = Some v'"
  shows "pages_tracked v'"
proof -
  have ok: "vma_ok v" "entries page_entry (cmap v)" using assms(1) by (simp_all add: pages_tracked_entries)
  have m: "map_ok (VMAs v)" using ok(1) by (simp add: vma_ok_def vma_maps_ok_def)
  have BT: "B \<le> B + L" using assms(2) by (simp add: word_le_nat_alt unat_word_ariths)
  have "vma_ok v'" using ClearUnsafe_mapping [OF ok(1) assms(2), of P] assms(5) by auto
  moreover have "entries page_entry (cmap v')"
    by (rule clear_loop_entries [OF BT clear_entry_pages ok(1) map_bounds_length(1) _ ok(2)
        assms(5) [unfolded ClearUnsafe_def Let_def]])
      (use lower_keys [OF m] assms(3,4) in auto)
  ultimately show ?thesis by (simp add: pages_tracked_entries)
qed

lemma SetUnsafe_pages:
  assumes "pages_tracked v" "unat B + unat L < 2 ^ 64" "L \<noteq> 0" "aligned B" "aligned L" "aligned Off"
    "\<And>r. R = Some r \<Longrightarrow> get_resource r v \<noteq> None \<and> unat Off + unat L < 2 ^ 64" "Shared F \<Longrightarrow> R \<noteq> None"
    "SetUnsafe R B Off L F Pr v = Some v'"
  shows "pages_tracked v'"
proof -
  have ok: "vma_ok v" using assms(1) by (simp add: pages_tracked_def)
  have R: "\<And>r. R = Some r \<Longrightarrow> get_resource r v \<noteq> None" using assms(7) by blast
  obtain u ne where u: "ClearUnsafe B L R v = Some u" "cmap v' = (cmap u)(B \<mapsto> ne)" "vma_ok v'"
    "Base ne = B" "Offset ne = Off" "Length ne = L" "Resource ne = R" "Flags ne = F"
    using SetUnsafe_step [OF ok assms(2,3), where R = R and Off = Off and F = F and Pr = Pr] R assms(9) by auto
  have "pages_tracked u" by (rule ClearUnsafe_pages [OF assms(1,2,4,5) u(1)])
  moreover have "page_entry ne" using u(4-8) assms(4-8) by (auto simp: page_entry_def)
  ultimately show ?thesis using u(2,3) by (auto simp: pages_tracked_entries entries_def)
qed

section \<open>Changing a range\<close>

lemma aligned_range:
  assumes "aligned B" "aligned L" "L \<noteq> 0" "unat B + unat L < 2 ^ 64"
  shows "page B \<le> page (B + L - 1)" "page a \<in> set (range_pages B L) \<longleftrightarrow> B \<le> a \<and> a < B + L"
    "in_span B L a \<longleftrightarrow> B \<le> a \<and> a < B + L"
proof -
  obtain p where p: "unat B = 4096 * p" using assms(1) unfolding aligned_def dvd_def by blast
  obtain q where q': "unat L = 4096 * q" using assms(2) unfolding aligned_def dvd_def by blast
  note pq = p q'
  have top: "unat (B + L) = unat B + unat L" using assms(4) by (simp add: unat_word_ariths)
  have q: "0 < q" using assms(3) pq(2) by (metis gr0I mult_0_right unat_eq_zero)
  have last: "unat (B + L - 1) = unat B + unat L - 1"
    using q top pq by (simp add: unat_minus word_le_nat_alt)
  have "(unat B + unat L - 1) div 4096 = p + q - 1"
    using q unfolding pq by (intro div_nat_eqI) auto
  then have pl: "unat (page (B + L - 1)) = p + q - 1" and pb: "unat (page B) = p"
    unfolding unat_page last using pq(1) by simp_all
  show "page B \<le> page (B + L - 1)" using pl pb q by (simp add: word_le_nat_alt)
  have "p \<le> unat a div 4096 \<longleftrightarrow> 4096 * p \<le> unat a"
    by (metis less_eq_div_iff_mult_less_eq mult.commute zero_less_numeral)
  moreover have "unat a div 4096 \<le> p + q - 1 \<longleftrightarrow> unat a < 4096 * (p + q)"
  proof -
    have "unat a div 4096 < p + q \<longleftrightarrow> unat a < (p + q) * 4096" by (rule div_less_iff_less_mult) simp
    then show ?thesis using q by (auto simp: mult.commute)
  qed
  ultimately show "page a \<in> set (range_pages B L) \<longleftrightarrow> B \<le> a \<and> a < B + L"
    unfolding range_pages_set word_le_nat_alt word_less_nat_alt pl pb
    unfolding unat_page top pq by (simp add: algebra_simps)
  show "in_span B L a \<longleftrightarrow> B \<le> a \<and> a < B + L"
    by (simp add: in_span_def word_le_nat_alt word_less_nat_alt top)
qed

lemma invalidate_checked_ok:
  assumes "threads_ok (Threads s)" "SMCChecks s \<noteq> CONFIG_SMC_NONE" "aligned B" "aligned L" "L \<noteq> 0"
    "unat B + unat L < 2 ^ 64"
  shows "\<exists>Ts. invalidate_checked B L s = Some (s\<lparr>Threads := Ts\<rparr>) \<and> threads_ok Ts
    \<and> length Ts = length (Threads s)
    \<and> (\<forall>a. has_code Ts (page a) \<longleftrightarrow> has_code (Threads s) (page a) \<and> \<not> in_span B L a)"
  using invalidate_threads [OF assms(1) aligned_range(1) [OF assms(3-6)]] assms(2)
    aligned_range(2,3) [OF assms(3-6)]
  by (auto simp: invalidate_checked_def InvalidateGuestCodeRange_def)

text \<open>What a memory system call on a range may do to the host: nothing outside of the range.\<close>

definition host_outside ::
  "('h \<Rightarrow> u64 \<Rightarrow> bool) \<Rightarrow> ('h \<Rightarrow> u64 \<Rightarrow> bool) \<Rightarrow> u64 \<Rightarrow> u64 \<Rightarrow> 'h \<Rightarrow> 'h \<Rightarrow> bool" where
  "host_outside mapped writable B L h h' \<longleftrightarrow>
     (\<forall>a. \<not> in_span B L a \<longrightarrow> mapped h' a = mapped h a \<and> writable h' a = writable h a)"

lemma store_reaches_cong:
  assumes "mapping_at v' a = mapping_at v a" "mapping_at v' b = mapping_at v b"
  shows "store_reaches v' b a = store_reaches v b a"
  using assms by (simp add: store_reaches_def must_trap_def same_byte_def tracked_writable_def)

lemma range_protected:
  assumes "code_protected writable s" "host_outside mapped writable B L (Host s) (Host s')"
    "\<And>a. \<not> in_span B L a \<Longrightarrow> mapping_at (Tracking s') a = mapping_at (Tracking s) a"
    "\<And>a. has_code (Threads s') (page a) \<Longrightarrow> has_code (Threads s) (page a) \<and> \<not> in_span B L a"
    "\<And>a b. in_span B L b \<Longrightarrow> \<not> in_span B L a \<Longrightarrow> has_code (Threads s) (page a)
       \<Longrightarrow> \<not> store_reaches (Tracking s') b a"
  shows "code_protected writable s'"
  unfolding code_protected_def
proof (intro allI impI)
  fix a b assume code: "has_code (Threads s') (page a)" and st: "store_reaches (Tracking s') b a"
  have a: "has_code (Threads s) (page a)" "\<not> in_span B L a" using assms(4) code by blast+
  then have b: "\<not> in_span B L b" using assms(5) st by blast
  then have "store_reaches (Tracking s) b a"
    using st store_reaches_cong [OF assms(3) [OF a(2)] assms(3) [OF b]] by simp
  then have "\<not> writable (Host s) b" using assms(1) a(1) by (simp add: code_protected_def)
  then show "\<not> writable (Host s') b" using assms(2) b by (simp add: host_outside_def)
qed

lemma host_tracks_mapping:
  assumes "pages_tracked v"
  shows "host_tracks mapped h v \<longleftrightarrow> (\<forall>a. mapping_at v a \<noteq> None \<longrightarrow> mapped h a)"
  unfolding host_tracks_def mapping_at_None [OF assms] by blast

section \<open>Unmapping\<close>

lemma TrackMunmap_ok:
  fixes s :: "('d, 'g, 'b, 'e, 'h) SyscallHandler"
  assumes "smc_ok mapped writable s" "aligned B" "Size \<noteq> 0" "unat B + unat Size + 4095 < 2 ^ 64"
    "host_outside mapped writable B (AlignUp Size FEX_PAGE_SIZE) (Host s) h"
  defines "L \<equiv> AlignUp Size FEX_PAGE_SIZE"
  shows "\<exists>s'. TrackMunmap B Size (s\<lparr>Host := h\<rparr>) = Some s' \<and> smc_ok mapped writable s' \<and> Host s' = h
    \<and> (\<forall>a. mapping_at (Tracking s') a = (if in_span B L a then None else mapping_at (Tracking s) a))
    \<and> (\<forall>a. has_code (Threads s') (page a) \<longleftrightarrow> has_code (Threads s) (page a) \<and> \<not> in_span B L a)"
proof -
  let ?s = "s\<lparr>Host := h\<rparr>" and ?v = "Tracking s"
  have ok: "pages_tracked ?v" "host_tracks mapped (Host s) ?v" "threads_ok (Threads s)"
    "SMCChecks s = CONFIG_SMC_MTRACK" "code_protected writable s"
    using assms(1) by (simp_all add: smc_ok_def)
  have up: "aligned L" "unat Size \<le> unat L" "unat L \<le> unat Size + 4095"
    using AlignUp_bounds [of Size] assms(4) by (auto simp: L_def)
  have L: "L \<noteq> 0" "unat B + unat L < 2 ^ 64"
  proof -
    have "0 < unat Size" using assms(3) by (simp add: unat_gt_0)
    then show "L \<noteq> 0" using up(2) by auto
  qed (use up(3) assms(4) in linarith)
  note span = aligned_range(3) [OF assms(2) up(1) L]
  have vok: "vma_ok ?v" using ok(1) by (simp add: pages_tracked_def)
  obtain v where v: "ClearUnsafe B L None ?v = Some v"
    "\<forall>a. mapping_at v a = (if B \<le> a \<and> a < B + L then None else mapping_at ?v a)"
    using ClearUnsafe_mapping [OF vok L(2), of None] by blast
  have pv: "pages_tracked v" by (rule ClearUnsafe_pages [OF ok(1) L(2) assms(2) up(1) v(1)])
  obtain Ts where Ts: "invalidate_checked B L (?s\<lparr>Tracking := v\<rparr>) = Some (?s\<lparr>Tracking := v, Threads := Ts\<rparr>)"
    "threads_ok Ts"
    "\<forall>a. has_code Ts (page a) \<longleftrightarrow> has_code (Threads s) (page a) \<and> \<not> in_span B L a"
    using invalidate_checked_ok [of "?s\<lparr>Tracking := v\<rparr>" B L] ok(3,4) assms(2) up(1) L by auto
  let ?s' = "?s\<lparr>Tracking := v, Threads := Ts\<rparr>"
  have "TrackMunmap B Size ?s = Some ?s'"
    using v(1) Ts(1) by (simp add: TrackMunmap_def Let_def on_tracking_def L_def [symmetric])
  moreover have map: "mapping_at v a = (if in_span B L a then None else mapping_at ?v a)" for a
    using v(2) by (simp add: span)
  moreover have "code_protected writable ?s'"
    by (rule range_protected [OF ok(5), of mapped B L])
      (use assms(5) map Ts(3) in \<open>auto simp: L_def store_reaches_def must_trap_def tracked_writable_def\<close>)
  moreover have "host_tracks mapped h v"
    using ok(2) map assms(5) unfolding host_tracks_mapping [OF pv] host_tracks_mapping [OF ok(1)] host_outside_def
    by (auto simp: L_def)
  ultimately show ?thesis using pv Ts(2,3) ok(4) by (intro exI [of _ ?s']) (simp add: smc_ok_def)
qed

end
