(* ===== verification/SMC_Invariant.thy ===== *)
theory SMC_Invariant
  imports SMC_Syscalls
begin

text \<open>
  The contract of self-modifying code detection: from a start with an empty address space, compiled code
  stays protected through private mappings, unmapping, compilation and write faults. The last section shows
  the two kinds of system call that break it: a move onto compiled code, and a new mirror of it.
\<close>

unbundle bit_operations_syntax

section \<open>Private mappings\<close>

lemma new_resource_pages:
  assumes "pages_tracked v"
  shows "pages_tracked (new_resource r aot len v)" "mapping_at (new_resource r aot len v) = mapping_at v"
    "get_resource r (new_resource r aot len v) \<noteq> None"
proof -
  have get: "get_vma k (new_resource r aot len v) = get_vma k v" for k
    by (simp add: get_vma_def new_resource_def)
  show "pages_tracked (new_resource r aot len v)"
    using assms new_resource_ok by (auto simp: pages_tracked_def get)
  show "mapping_at (new_resource r aot len v) = mapping_at v"
    by (simp add: fun_eq_iff mapping_at_def new_resource_def)
  have "map_ok (MappedResources v)" using assms by (simp add: pages_tracked_def vma_ok_def vma_maps_ok_def)
  then show "get_resource r (new_resource r aot len v) \<noteq> None"
    by (auto simp: get_resource_def new_resource_def std_map_simps split: option.splits)
qed

lemma mmap_resource_private:
  assumes "pages_tracked (Tracking s)" "(flags AND MAP_SHARED) = 0"
  shows "\<exists>R v. mmap_resource fstat64 get_fdpath load flags fd s = Some (R, s\<lparr>Tracking := v\<rparr>)
    \<and> pages_tracked v \<and> mapping_at v = mapping_at (Tracking s)
    \<and> (\<forall>r. R = Some r \<longrightarrow> get_resource r v \<noteq> None)"
proof (cases "(flags AND MAP_ANONYMOUS) = 0 \<and> get_fdpath fd \<noteq> None")
  case True
  then obtain fn where fn: "get_fdpath fd = Some fn" "(flags AND MAP_ANONYMOUS) = 0" by blast
  then show ?thesis
    using new_resource_pages [OF assms(1), of "fstat64 fd" "load fn" 0]
    by (intro exI [of _ "Some (fstat64 fd)"] exI [of _ "new_resource (fstat64 fd) (load fn) 0 (Tracking s)"])
      (simp add: mmap_resource_def Let_def)
next
  case False
  have "s = s\<lparr>Tracking := Tracking s\<rparr>" by simp
  then show ?thesis using assms False
    by (intro exI [of _ None] exI [of _ "Tracking s"]) (auto simp: mmap_resource_def Let_def)
qed

lemma SetUnsafe_outcome:
  assumes "pages_tracked v" "aligned B" "aligned L" "aligned Off" "L \<noteq> 0" "unat B + unat L < 2 ^ 64"
    "unat Off + unat L < 2 ^ 64" "\<forall>r. R = Some r \<longrightarrow> get_resource r v \<noteq> None" "Shared F \<Longrightarrow> R \<noteq> None"
  shows "\<exists>v'. SetUnsafe R B Off L F Pr v = Some v' \<and> pages_tracked v'
    \<and> (\<forall>a. mapping_at v' a = (if in_span B L a then Some (R, Off + (a - B), F, Pr) else mapping_at v a))"
proof -
  have ok: "vma_ok v" using assms(1) by (simp add: pages_tracked_def)
  obtain v' where v': "SetUnsafe R B Off L F Pr v = Some v'"
    "\<forall>a. mapping_at v' a = (if B \<le> a \<and> a < B + L then Some (R, Off + (a - B), F, Pr) else mapping_at v a)"
    using SetUnsafe_step [OF ok assms(6,5), where R = R and Off = Off and F = F and Pr = Pr] assms(8) by auto
  moreover have "pages_tracked v'"
    by (rule SetUnsafe_pages [OF assms(1,6,5,2,3,4) _ _ v'(1)]) (use assms(7-9) in auto)
  ultimately show ?thesis using aligned_range(3) [OF assms(2,3,5,6)] by auto
qed

lemma aligned_size:
  assumes "Size \<noteq> 0" "unat B + unat Size + 4095 < 2 ^ 64"
  defines "L \<equiv> AlignUp Size FEX_PAGE_SIZE"
  shows "aligned L" "L \<noteq> 0" "unat B + unat L < 2 ^ 64"
proof -
  have up: "aligned L" "unat Size \<le> unat L" "unat L \<le> unat Size + 4095"
    using AlignUp_bounds [of Size] assms(2) by (auto simp: L_def)
  moreover have "0 < unat Size" using assms(1) by (simp add: unat_gt_0)
  ultimately show "aligned L" "L \<noteq> 0" "unat B + unat L < 2 ^ 64" using assms(2) by auto
qed

lemma TrackMmap_private:
  fixes s :: "('d, 'g, 'b, 'e, 'h) SyscallHandler"
  assumes "smc_ok mapped writable s" "(flags AND MAP_SHARED) = 0" "aligned B" "aligned Off" "Size \<noteq> 0"
    "unat B + unat Size + 4095 < 2 ^ 64" "unat Off + unat Size + 4095 < 2 ^ 64"
    "host_outside mapped writable B (AlignUp Size FEX_PAGE_SIZE) (Host s) h"
    "\<And>a. in_span B (AlignUp Size FEX_PAGE_SIZE) a \<Longrightarrow> mapped h a"
  defines "L \<equiv> AlignUp Size FEX_PAGE_SIZE"
  shows "\<exists>s' R. TrackMmap fstat64 get_fdpath load B Size prot flags fd Off (s\<lparr>Host := h\<rparr>) = Some s'
    \<and> smc_ok mapped writable s' \<and> Host s' = h \<and> length (Threads s') = length (Threads s)
    \<and> (\<forall>a. mapping_at (Tracking s') a = (if in_span B L a
         then Some (R, Off + (a - B), fromFlags flags, fromProt prot) else mapping_at (Tracking s) a))
    \<and> (\<forall>a. has_code (Threads s') (page a) \<longleftrightarrow> has_code (Threads s) (page a) \<and> \<not> in_span B L a)"
proof -
  let ?s = "s\<lparr>Host := h\<rparr>"
  have ok: "pages_tracked (Tracking s)" "host_tracks mapped (Host s) (Tracking s)" "threads_ok (Threads s)"
    "SMCChecks s = CONFIG_SMC_MTRACK" "code_protected writable s"
    using assms(1) by (simp_all add: smc_ok_def)
  note L = aligned_size [OF assms(5,6), folded L_def] and LO = aligned_size(3) [OF assms(5,7), folded L_def]
  have priv: "\<not> Shared (fromFlags flags)" using assms(2) by (simp add: fromFlags_def)
  obtain R u where u: "mmap_resource fstat64 get_fdpath load flags fd ?s = Some (R, ?s\<lparr>Tracking := u\<rparr>)"
    "pages_tracked u" "mapping_at u = mapping_at (Tracking s)" "\<forall>r. R = Some r \<longrightarrow> get_resource r u \<noteq> None"
    using mmap_resource_private [of ?s flags fstat64 get_fdpath load fd] ok(1) assms(2) by auto
  obtain v where v: "SetUnsafe R B Off L (fromFlags flags) (fromProt prot) u = Some v" "pages_tracked v"
    "\<forall>a. mapping_at v a = (if in_span B L a then Some (R, Off + (a - B), fromFlags flags, fromProt prot)
       else mapping_at (Tracking s) a)"
    using SetUnsafe_outcome [OF u(2) assms(3) L(1) assms(4) L(2,3) LO u(4), where F = "fromFlags flags"
        and Pr = "fromProt prot"] priv u(3) by auto
  obtain Ts where Ts: "invalidate_checked B L (?s\<lparr>Tracking := v\<rparr>) = Some (?s\<lparr>Tracking := v, Threads := Ts\<rparr>)"
    "threads_ok Ts" "length Ts = length (Threads s)"
    "\<forall>a. has_code Ts (page a) \<longleftrightarrow> has_code (Threads s) (page a) \<and> \<not> in_span B L a"
    using invalidate_checked_ok [of "?s\<lparr>Tracking := v\<rparr>" B L] ok(3,4) assms(3) L by auto
  let ?s' = "?s\<lparr>Tracking := v, Threads := Ts\<rparr>"
  have "TrackMmap fstat64 get_fdpath load B Size prot flags fd Off ?s = Some ?s'"
    using u(1) v(1) Ts(1) assms(2) by (simp add: TrackMmap_def Let_def on_tracking_def L_def [symmetric])
  moreover have "code_protected writable ?s'"
    by (rule range_protected [OF ok(5), of mapped B L])
      (use assms(8) v(3) Ts(4) priv in \<open>auto simp: L_def store_reaches_def must_trap_def tracked_writable_def\<close>)
  moreover have "host_tracks mapped h v"
    using ok(2) v(3) assms(8,9)
    unfolding host_tracks_mapping [OF v(2)] host_tracks_mapping [OF ok(1)] host_outside_def
    by (auto simp: L_def)
  ultimately show ?thesis using v(2,3) Ts(2-4) ok(4) by (intro exI [of _ ?s']) (auto simp: smc_ok_def)
qed

section \<open>Moves and new mirrors\<close>

lemma TrackMremap_ok:
  fixes s :: "('d, 'g, 'b, 'e, 'h) SyscallHandler"
  assumes "smc_ok mapped writable s" "vma_at (Tracking s) Old e" "Resource e = None"
    "aligned Old" "aligned New" "Old \<noteq> New" "OldSize \<noteq> 0" "NewSize \<noteq> 0" "unat Old + unat OldSize + 4095 < 2 ^ 64"
    "unat New + unat NewSize + 4095 < 2 ^ 64" "unat (off e Old) + unat NewSize + 4095 < 2 ^ 64"
  shows "\<exists>s'. TrackMremap Old OldSize NewSize flags New s = Some s'
    \<and> (\<forall>a. in_span New (AlignUp NewSize FEX_PAGE_SIZE) a
         \<longrightarrow> mapping_at (Tracking s') a = Some (None, off e Old + (a - New), Flags e, Prot e))
    \<and> (\<forall>a. has_code (Threads s') (page a)
         \<longleftrightarrow> has_code (Threads s) (page a) \<and> \<not> in_span Old (AlignUp OldSize FEX_PAGE_SIZE) a)"
proof -
  let ?v = "Tracking s" and ?O = "AlignUp OldSize FEX_PAGE_SIZE" and ?N = "AlignUp NewSize FEX_PAGE_SIZE"
  have ok: "pages_tracked ?v" "threads_ok (Threads s)" "SMCChecks s = CONFIG_SMC_MTRACK" "vma_ok ?v"
    using assms(1) by (simp_all add: smc_ok_def pages_tracked_def)
  note O = aligned_size [OF assms(7,9)] and N = aligned_size [OF assms(8,10)]
    and NO = aligned_size(3) [OF assms(8,11)]
  have e: "page_entry e" "LookupVMAUnsafe Old ?v = Some (Base e, e)"
    using Lookup_entry(1) [OF ok(1) assms(2)] assms(2) ok(1) by (auto simp: pages_tracked_def vma_at_def)
  have off: "off e Old = Offset e + Old - Base e" "aligned (off e Old)"
    using e(1) assms(4) by (auto simp: off_def page_entry_def)
  obtain u where u: "(if (flags AND MREMAP_DONTUNMAP) = 0 then ClearUnsafe Old ?O None ?v else Some ?v) = Some u"
    "pages_tracked u"
  proof (cases "(flags AND MREMAP_DONTUNMAP) = 0")
    case True
    obtain u where "ClearUnsafe Old ?O None ?v = Some u"
      using ClearUnsafe_mapping [OF ok(4) O(3), of None] by blast
    then show thesis using that ClearUnsafe_pages [OF ok(1) O(3) assms(4) O(1)] True by simp
  qed (use that ok(1) in simp)
  have "\<not> Shared (Flags e)" using e(1) assms(3) by (auto simp: page_entry_def)
  then obtain v where v: "SetUnsafe None New (off e Old) ?N (Flags e) (Prot e) u = Some v"
    "\<forall>a. in_span New ?N a \<longrightarrow> mapping_at v a = Some (None, off e Old + (a - New), Flags e, Prot e)"
    using SetUnsafe_outcome [OF u(2) assms(5) N(1) off(2) N(2,3) NO, where R = None and F = "Flags e"
        and Pr = "Prot e"] by auto
  obtain Ts where Ts: "invalidate_checked Old ?O (s\<lparr>Tracking := v\<rparr>) = Some (s\<lparr>Tracking := v, Threads := Ts\<rparr>)"
    "\<forall>a. has_code Ts (page a) \<longleftrightarrow> has_code (Threads s) (page a) \<and> \<not> in_span Old ?O a"
    using invalidate_checked_ok [of "s\<lparr>Tracking := v\<rparr>" Old ?O] ok(2,3) assms(4) O by auto
  have "InvalidateGuestCodeRange Old ?O (s\<lparr>Tracking := v\<rparr>) = Some (s\<lparr>Tracking := v, Threads := Ts\<rparr>)"
    using Ts(1) ok(3) by (simp add: invalidate_checked_def)
  then have "TrackMremap Old OldSize NewSize flags New s = Some (s\<lparr>Tracking := v, Threads := Ts\<rparr>)"
    using e(2) u(1) v(1) off(1) O(2) assms(3,6) ok(3)
    by (auto simp: TrackMremap_def Let_def on_tracking_def split: if_splits)
  then show ?thesis using v(2) Ts(2) by auto
qed

lemma TrackMmap_shared_file:
  fixes s :: "('d, 'g, 'b, 'e, 'h) SyscallHandler"
  assumes "smc_ok mapped writable s" "IsMemoryShared s" "(flags AND MAP_SHARED) \<noteq> 0"
    "(flags AND MAP_ANONYMOUS) = 0" "get_fdpath fd = Some fn"
    "aligned B" "aligned Off" "Size \<noteq> 0"
    "unat B + unat Size + 4095 < 2 ^ 64" "unat Off + unat Size + 4095 < 2 ^ 64"
  defines "L \<equiv> AlignUp Size FEX_PAGE_SIZE"
  shows "\<exists>s'. TrackMmap fstat64 get_fdpath load B Size prot flags fd Off (s\<lparr>Host := h\<rparr>) = Some s' \<and> Host s' = h
    \<and> (\<forall>a. mapping_at (Tracking s') a = (if in_span B L a
         then Some (Some (fstat64 fd), Off + (a - B), fromFlags flags, fromProt prot) else mapping_at (Tracking s) a))
    \<and> (\<forall>a. has_code (Threads s') (page a) \<longleftrightarrow> has_code (Threads s) (page a) \<and> \<not> in_span B L a)"
proof -
  let ?s = "s\<lparr>Host := h\<rparr>"
  have ok: "pages_tracked (Tracking s)" "threads_ok (Threads s)" "SMCChecks s = CONFIG_SMC_MTRACK"
    using assms(1) by (simp_all add: smc_ok_def)
  note L = aligned_size [OF assms(8,9), folded L_def] and LO = aligned_size(3) [OF assms(8,10), folded L_def]
  let ?R = "Some (fstat64 fd)" and ?u = "new_resource (fstat64 fd) (load fn) 0 (Tracking s)"
  have u: "mmap_resource fstat64 get_fdpath load flags fd ?s = Some (?R, ?s\<lparr>Tracking := ?u\<rparr>)"
    using assms(4,5) by (simp add: mmap_resource_def Let_def)
  note res = new_resource_pages [OF ok(1), of "fstat64 fd" "load fn" 0]
  obtain v where v: "SetUnsafe ?R B Off L (fromFlags flags) (fromProt prot) ?u = Some v"
    "\<forall>a. mapping_at v a = (if in_span B L a then Some (?R, Off + (a - B), fromFlags flags, fromProt prot)
       else mapping_at (Tracking s) a)"
    using SetUnsafe_outcome [OF res(1) assms(6) L(1) assms(7) L(2,3) LO,
        where R = ?R and F = "fromFlags flags" and Pr = "fromProt prot"] res(2,3) by auto
  obtain Ts where Ts: "invalidate_checked B L (?s\<lparr>Tracking := v\<rparr>) = Some (?s\<lparr>Tracking := v, Threads := Ts\<rparr>)"
    "\<forall>a. has_code Ts (page a) \<longleftrightarrow> has_code (Threads s) (page a) \<and> \<not> in_span B L a"
    using invalidate_checked_ok [of "?s\<lparr>Tracking := v\<rparr>" B L] ok(2,3) assms(6) L by auto
  have "TrackMmap fstat64 get_fdpath load B Size prot flags fd Off ?s = Some (?s\<lparr>Tracking := v, Threads := Ts\<rparr>)"
    using u v(1) Ts(1) assms(2,3)
    by (simp add: TrackMmap_def Let_def on_tracking_def MarkMemoryShared_def L_def [symmetric])
  then show ?thesis using v(2) Ts(2) by auto
qed

section \<open>The contract\<close>

text \<open>
  The steps that keep compiled code protected: a block is decoded on some thread, a store faults, a range
  is mapped privately or unmapped. The kernel's own work is the new host state \<open>h\<close> of the last two, which
  may differ from the old one in the range only.
\<close>

inductive smc_reach ::
  "'h mprotect \<Rightarrow> ('h \<Rightarrow> u64 \<Rightarrow> bool) \<Rightarrow> ('h \<Rightarrow> u64 \<Rightarrow> bool) \<Rightarrow> ('d, 'g, 'b, 'e, 'h) SyscallHandler \<Rightarrow> bool"
  for mprotect mapped writable where
  init: "Tracking s = empty_tracking \<Longrightarrow> SMCChecks s = CONFIG_SMC_MTRACK \<Longrightarrow> threads_ok (Threads s)
    \<Longrightarrow> smc_reach mprotect mapped writable s"
| decode: "smc_reach mprotect mapped writable s \<Longrightarrow> i < length (Threads s) \<Longrightarrow> Len \<noteq> 0
    \<Longrightarrow> unat Start + unat Len + 4095 < 2 ^ 64 \<Longrightarrow> decoded_range mprotect i A Start Len s = Some s'
    \<Longrightarrow> smc_reach mprotect mapped writable s'"
| fault: "smc_reach mprotect mapped writable s \<Longrightarrow> HandleSegfault mprotect A s = Some (handled, s')
    \<Longrightarrow> smc_reach mprotect mapped writable s'"
| mmap: "smc_reach mprotect mapped writable s \<Longrightarrow> (flags AND MAP_SHARED) = 0 \<Longrightarrow> aligned B \<Longrightarrow> aligned Off
    \<Longrightarrow> Size \<noteq> 0 \<Longrightarrow> unat B + unat Size + 4095 < 2 ^ 64 \<Longrightarrow> unat Off + unat Size + 4095 < 2 ^ 64
    \<Longrightarrow> host_outside mapped writable B (AlignUp Size FEX_PAGE_SIZE) (Host s) h
    \<Longrightarrow> (\<And>a. in_span B (AlignUp Size FEX_PAGE_SIZE) a \<Longrightarrow> mapped h a)
    \<Longrightarrow> TrackMmap fstat64 get_fdpath load B Size prot flags fd Off (s\<lparr>Host := h\<rparr>) = Some s'
    \<Longrightarrow> smc_reach mprotect mapped writable s'"
| munmap: "smc_reach mprotect mapped writable s \<Longrightarrow> aligned B \<Longrightarrow> Size \<noteq> 0
    \<Longrightarrow> unat B + unat Size + 4095 < 2 ^ 64
    \<Longrightarrow> host_outside mapped writable B (AlignUp Size FEX_PAGE_SIZE) (Host s) h
    \<Longrightarrow> TrackMunmap B Size (s\<lparr>Host := h\<rparr>) = Some s' \<Longrightarrow> smc_reach mprotect mapped writable s'"

lemma empty_tracking_pages:
  "pages_tracked empty_tracking" "mapping_at empty_tracking a = None" "\<not> vma_at empty_tracking a e"
  using empty_tracking_ok
  by (simp_all add: pages_tracked_def empty_tracking_def get_vma_def mapping_at_def vma_at_def)

lemma empty_smc_ok:
  assumes "Tracking s = empty_tracking" "SMCChecks s = CONFIG_SMC_MTRACK" "threads_ok (Threads s)"
  shows "smc_ok mapped writable s"
  using assms
  by (simp add: empty_tracking_pages smc_ok_def host_tracks_def code_protected_def store_reaches_def must_trap_def tracked_writable_def)

lemma smc_reach_ok:
  assumes "mprotect_ok mprotect mapped writable"
  shows "smc_reach mprotect mapped writable s \<Longrightarrow> smc_ok mapped writable s"
proof (induction rule: smc_reach.induct)
  case (init s)
  then show ?case by (rule empty_smc_ok)
next
  case (decode s i Len Start A s')
  then show ?case using decoded_range_ok [OF assms decode.IH, of i Len Start A] by auto
next
  case (fault s A handled s')
  then show ?case using HandleSegfault_protected [OF assms] by blast
next
  case (mmap s flags B Off Size h fstat64 get_fdpath load prot fd s')
  then show ?case
    using TrackMmap_private [OF mmap.IH mmap.hyps(2-8), of fstat64 get_fdpath load prot fd] by auto
next
  case (munmap s B Size h s')
  then show ?case using TrackMunmap_ok [OF munmap.IH munmap.hyps(2-5)] by auto
qed

text \<open>
  C2: Compiled code stays protected: in every state reached by decoding blocks on any thread, by write
  faults, by private mappings and by unmapping, no page from which some thread has compiled a block can be
  changed without a fault, through its own address or through any shared mapping of the same bytes.
\<close>

theorem compiled_code_stays_protected:
  assumes "mprotect_ok mprotect mapped writable" "smc_reach mprotect mapped writable s"
    "has_code (Threads s) (page a)" "store_reaches (Tracking s) b a"
  shows "\<not> writable (Host s) b"
  using smc_reach_ok [OF assms(1,2)] assms(3,4) by (simp add: smc_ok_def code_protected_def)

text \<open>
  C7: \<^verbatim>\<open>MarkGuestExecutableRange\<close> returns and takes write access away from exactly the addresses through which
  a byte of the range's pages can be written: for private memory the pages themselves, for shared memory
  the writable mirrors of every page in the range; all other protections stay.
\<close>

theorem MarkGuestExecutableRange_protects:
  fixes s :: "('d, 'g, 'b, 'e, 'h) SyscallHandler"
  assumes "mprotect_ok mprotect mapped writable" "pages_tracked (Tracking s)"
    "host_tracks mapped (Host s) (Tracking s)" "SMCChecks s = CONFIG_SMC_MTRACK"
    "Len \<noteq> 0" "unat Start + unat Len + 4095 < 2 ^ 64"
  shows "\<exists>h. MarkGuestExecutableRange mprotect Start Len s = Some (s\<lparr>Host := h\<rparr>) \<and> mapped h = mapped (Host s)
    \<and> (\<forall>b. writable h b \<longleftrightarrow> writable (Host s) b
         \<and> \<not> (\<exists>a. page a \<in> set (range_pages Start Len) \<and> must_trap (Tracking s) a b))"
  by (rule MarkGuestExecutableRange_ok [OF assms])

text \<open>
  C9: \<^verbatim>\<open>HandleSegfault\<close> returns. A fault at an address the guest may not write is left to the guest. Otherwise
  the fault is handled: every thread loses the code of the pages that show the faulting page, the pages
  through which it can be written become writable, the faulting store can be retried, and nothing else
  changes.
\<close>

theorem HandleSegfault_correct:
  fixes s :: "('d, 'g, 'b, 'e, 'h) SyscallHandler"
  assumes "mprotect_ok mprotect mapped writable" "pages_tracked (Tracking s)"
    "host_tracks mapped (Host s) (Tracking s)" "threads_ok (Threads s)"
  shows "if tracked_writable (Tracking s) A
    then \<exists>Ts h. HandleSegfault mprotect A s = Some (True, s\<lparr>Threads := Ts, Host := h\<rparr>)
      \<and> threads_ok Ts \<and> mapped h = mapped (Host s) \<and> writable h A \<and> \<not> has_code Ts (page A)
      \<and> (\<forall>P. has_code Ts P \<longleftrightarrow> has_code (Threads s) P
           \<and> \<not> (\<exists>a c. page a = page A \<and> same_byte (Tracking s) a c \<and> page c = P))
      \<and> (\<forall>b. writable h b \<longleftrightarrow> writable (Host s) b \<or> (\<exists>a. page a = page A \<and> must_trap (Tracking s) a b))
    else HandleSegfault mprotect A s = Some (False, s)"
proof (cases "tracked_writable (Tracking s) A")
  case True
  have refl: "same_byte (Tracking s) A A" "must_trap (Tracking s) A A"
    using True by (auto simp: must_trap_def same_byte_def tracked_writable_def split: option.splits)
  obtain Ts h where h: "HandleSegfault mprotect A s = Some (True, s\<lparr>Threads := Ts, Host := h\<rparr>)"
    "threads_ok Ts" "mapped h = mapped (Host s)"
    "\<forall>P. has_code Ts P \<longleftrightarrow> has_code (Threads s) P
         \<and> \<not> (\<exists>a c. page a = page A \<and> same_byte (Tracking s) a c \<and> page c = P)"
    "\<forall>b. writable h b \<longleftrightarrow> writable (Host s) b \<or> (\<exists>a. page a = page A \<and> must_trap (Tracking s) a b)"
    using HandleSegfault_ok [OF assms True] by blast
  then have "writable h A" "\<not> has_code Ts (page A)" using refl by blast+
  with h show ?thesis unfolding if_P [OF True] by (intro exI [of _ Ts] exI [of _ h]) blast
next
  case False
  then show ?thesis using HandleSegfault_refused [OF assms(2)] by simp
qed

text \<open>
  C21: \<^verbatim>\<open>TrackMunmap\<close> returns, removes exactly the range, rounded up to pages, from the tracked mappings, drops
  exactly the code of its pages in every thread, and keeps the remaining code protected.
\<close>

theorem TrackMunmap_correct:
  fixes s :: "('d, 'g, 'b, 'e, 'h) SyscallHandler"
  assumes "smc_ok mapped writable s" "aligned B" "Size \<noteq> 0" "unat B + unat Size + 4095 < 2 ^ 64"
    "host_outside mapped writable B (AlignUp Size FEX_PAGE_SIZE) (Host s) h"
  shows "\<exists>s'. TrackMunmap B Size (s\<lparr>Host := h\<rparr>) = Some s' \<and> smc_ok mapped writable s' \<and> Host s' = h
    \<and> (\<forall>a. mapping_at (Tracking s') a
         = (if in_span B (AlignUp Size FEX_PAGE_SIZE) a then None else mapping_at (Tracking s) a))
    \<and> (\<forall>a. has_code (Threads s') (page a)
         \<longleftrightarrow> has_code (Threads s) (page a) \<and> \<not> in_span B (AlignUp Size FEX_PAGE_SIZE) a)"
  by (rule TrackMunmap_ok [OF assms])

text \<open>
  C36: \<^verbatim>\<open>TrackMremap\<close> does not look at the target of a move: after an anonymous mapping has moved onto a
  disjoint range, that range shows the moved bytes, but every page of it that had compiled code still has
  it, and the program goes on running the code of the bytes that were there before.
\<close>

theorem mremap_keeps_code_of_target:
  fixes s :: "('d, 'g, 'b, 'e, 'h) SyscallHandler"
  assumes "smc_ok mapped writable s" "vma_at (Tracking s) Old e" "Resource e = None"
    "aligned Old" "aligned New" "Old \<noteq> New" "OldSize \<noteq> 0" "NewSize \<noteq> 0" "unat Old + unat OldSize + 4095 < 2 ^ 64"
    "unat New + unat NewSize + 4095 < 2 ^ 64" "unat (off e Old) + unat NewSize + 4095 < 2 ^ 64"
    "in_span New (AlignUp NewSize FEX_PAGE_SIZE) a" "\<not> in_span Old (AlignUp OldSize FEX_PAGE_SIZE) a"
    "has_code (Threads s) (page a)"
  shows "\<exists>s'. TrackMremap Old OldSize NewSize flags New s = Some s'
    \<and> mapping_at (Tracking s') a = Some (None, off e Old + (a - New), Flags e, Prot e)
    \<and> has_code (Threads s') (page a)"
  using TrackMremap_ok [OF assms(1-11), of flags] assms(12-14) by auto

text \<open>
  \<^verbatim>\<open>TrackMmap\<close> does not look for compiled code of the same file: after a shared file page with compiled code
  has been mapped a second time, writable, the code is still there and a store through the new mapping
  reaches its bytes without a fault.
\<close>

theorem new_mirror_unprotected:
  fixes s :: "('d, 'g, 'b, 'e, 'h) SyscallHandler"
  assumes "smc_ok mapped writable s" "IsMemoryShared s" "(flags AND MAP_SHARED) \<noteq> 0"
    "(flags AND MAP_ANONYMOUS) = 0" "get_fdpath fd = Some fn"
    "aligned B" "aligned Off" "Size \<noteq> 0"
    "unat B + unat Size + 4095 < 2 ^ 64" "unat Off + unat Size + 4095 < 2 ^ 64"
    "(prot AND PROT_WRITE) \<noteq> 0" "\<And>b. in_span B (AlignUp Size FEX_PAGE_SIZE) b \<Longrightarrow> writable h b"
    "mapping_at (Tracking s) a = Some (Some (fstat64 fd), Off + (b - B), f, p)" "Shared f"
    "in_span B (AlignUp Size FEX_PAGE_SIZE) b" "\<not> in_span B (AlignUp Size FEX_PAGE_SIZE) a"
    "has_code (Threads s) (page a)"
  shows "\<exists>s'. TrackMmap fstat64 get_fdpath load B Size prot flags fd Off (s\<lparr>Host := h\<rparr>) = Some s'
    \<and> has_code (Threads s') (page a) \<and> store_reaches (Tracking s') b a \<and> writable (Host s') b"
proof -
  obtain s' where s': "TrackMmap fstat64 get_fdpath load B Size prot flags fd Off (s\<lparr>Host := h\<rparr>) = Some s'"
    "Host s' = h"
    "\<forall>a. mapping_at (Tracking s') a = (if in_span B (AlignUp Size FEX_PAGE_SIZE) a
         then Some (Some (fstat64 fd), Off + (a - B), fromFlags flags, fromProt prot) else mapping_at (Tracking s) a)"
    "\<forall>a. has_code (Threads s') (page a)
       \<longleftrightarrow> has_code (Threads s) (page a) \<and> \<not> in_span B (AlignUp Size FEX_PAGE_SIZE) a"
    using TrackMmap_shared_file [where get_fdpath = get_fdpath and fd = fd, OF assms(1-10), of fstat64 load prot h]
    by auto
  have "store_reaches (Tracking s') b a"
    using s'(3) assms(3,11,13-16)
    by (simp add: store_reaches_def must_trap_def same_byte_def tracked_writable_def fromFlags_def fromProt_def)
  then show ?thesis using s' assms(12,15-17) by auto
qed

section \<open>Concrete states\<close>

text \<open>
  A host whose state is the set of writable addresses, everything being mapped; a handler whose guest has
  two private mappings and one thread without code; and one whose guest shows a page of a file.
\<close>

definition sample_mprotect :: "(u64 \<Rightarrow> bool) mprotect" where
  "sample_mprotect Start Len prot h = (0, \<lambda>a. if in_span Start Len a then (prot AND PROT_WRITE) \<noteq> 0 else h a)"

definition sample_thread :: "(nat, nat, nat) ThreadState" where
  "sample_thread = \<lparr>ThreadCache = empty_cache, DebugStore = [], CPUBackend = 0\<rparr>"

definition sample_handler :: "nat VMATracking \<Rightarrow> (nat, nat, nat, nat, u64 \<Rightarrow> bool) SyscallHandler" where
  "sample_handler v = \<lparr>Tracking = v, SMCChecks = CONFIG_SMC_MTRACK, AnonSharedId = 1, Threads = [sample_thread],
     IsMemoryShared = True, TSOAutoMigration = True, Host = (\<lambda>_. True)\<rparr>"

definition file_vma :: "nat VMATracking" where
  "file_vma = the (SetUnsafe (Some (MRID 1 2)) 0x1000 0 0x1000 \<lparr>Shared = True\<rparr> rw
     (new_resource (MRID 1 2) None 0 empty_tracking))"

definition everywhere :: "(u64 \<Rightarrow> bool) \<Rightarrow> u64 \<Rightarrow> bool" where
  "everywhere h a = True"

definition may_write :: "(u64 \<Rightarrow> bool) \<Rightarrow> u64 \<Rightarrow> bool" where
  "may_write h a = h a"

lemma sample_mprotect_ok: "mprotect_ok sample_mprotect everywhere may_write"
  by (auto simp: mprotect_ok_def sample_mprotect_def everywhere_def may_write_def fun_eq_iff)

lemma sample_handler_sel [simp]:
  "Tracking (sample_handler v) = v" "SMCChecks (sample_handler v) = CONFIG_SMC_MTRACK"
  "Threads (sample_handler v) = [sample_thread]" "Host (sample_handler v) = (\<lambda>_. True)"
  "IsMemoryShared (sample_handler v)"
  by (simp_all add: sample_handler_def)

lemma empty_cache_no_code: "page_code P empty_cache = []"
  by (simp add: page_code_def sample_defs)

lemma sample_threads: "threads_ok [sample_thread]" "\<not> has_code [sample_thread] P"
  using empty_coherent by (simp_all add: threads_ok_def has_code_def sample_thread_def empty_cache_no_code)

lemma sample_smc_ok: "pages_tracked v \<Longrightarrow> smc_ok everywhere may_write (sample_handler v)"
  by (simp add: smc_ok_def host_tracks_def code_protected_def sample_threads everywhere_def)

lemma sample_aligned: "aligned 0x1000" "aligned 0x2000" "aligned 0x3000" "aligned 0x4000" "aligned 0x8000"
  by (simp_all add: aligned_def)

lemma two_vmas_pages: "pages_tracked two_vmas"
proof -
  have "page_entry e" if "get_vma k two_vmas = Some e" for k e
    using that by (auto simp: get_vma_def two_vmas_def private_vma_def private_flags_def page_entry_def sample_aligned
        split: if_splits)
  then show ?thesis using two_vmas_ok by (simp add: pages_tracked_def)
qed

lemma file_vma_pages:
  "pages_tracked file_vma"
  "mapping_at file_vma 0x1800 = Some (Some (MRID 1 2), 0x800, \<lparr>Shared = True\<rparr>, rw)"
proof -
  let ?v = "new_resource (MRID 1 2) None 0 (empty_tracking :: nat VMATracking)"
  note res = new_resource_pages [OF empty_tracking_pages(1), of "MRID 1 2" None 0]
  obtain v where v: "SetUnsafe (Some (MRID 1 2)) 0x1000 0 0x1000 \<lparr>Shared = True\<rparr> rw ?v = Some v" "pages_tracked v"
    "\<forall>a. mapping_at v a = (if in_span 0x1000 0x1000 a then Some (Some (MRID 1 2), 0 + (a - 0x1000), \<lparr>Shared = True\<rparr>, rw)
       else mapping_at ?v a)"
    using SetUnsafe_outcome [OF res(1) sample_aligned(1,1) aligned_consts(1), where R = "Some (MRID 1 2)"
        and F = "\<lparr>Shared = True\<rparr>" and Pr = rw] res(3) by auto
  then show "pages_tracked file_vma"
    "mapping_at file_vma 0x1800 = Some (Some (MRID 1 2), 0x800, \<lparr>Shared = True\<rparr>, rw)"
    by (simp_all add: file_vma_def in_span_def)
qed

text \<open>A block of eight bytes at \<open>0x1800\<close> is decoded.\<close>

lemma decoded_sample:
  assumes "pages_tracked v"
  shows "\<exists>s. decoded_range sample_mprotect 0 0x1800 0x1800 8 (sample_handler v) = Some s
    \<and> smc_ok everywhere may_write s \<and> has_code (Threads s) 1 \<and> Tracking s = v \<and> IsMemoryShared s"
proof -
  obtain s where s: "decoded_range sample_mprotect 0 0x1800 0x1800 8 (sample_handler v) = Some s"
    "smc_ok everywhere may_write s" "s = (sample_handler v)\<lparr>Threads := Threads s, Host := Host s\<rparr>"
    "has_code (Threads s) 1"
    using decoded_range_ok [OF sample_mprotect_ok sample_smc_ok [OF assms], of 0 8 "0x1800" "0x1800"]
    by (auto simp: range_pages_set)
  have "Tracking s = v" "IsMemoryShared s"
    using arg_cong [OF s(3), of Tracking] arg_cong [OF s(3), of IsMemoryShared] by simp_all
  then show ?thesis using s by blast
qed

lemma sample_reach: "smc_reach sample_mprotect everywhere may_write (sample_handler empty_tracking)"
  by (rule smc_reach.init) (simp_all add: sample_threads)

lemma sample_size: "AlignUp 0x2000 FEX_PAGE_SIZE = 0x2000" "AlignUp 0x1000 FEX_PAGE_SIZE = 0x1000"
  by (simp_all add: AlignUp_def FEX_PAGE_SIZE_def)

lemma sample_mmap:
  "\<exists>s. TrackMmap (\<lambda>_. MRID 1 2) (\<lambda>_. None) (\<lambda>_. None) 0x1000 0x2000 3 0x22 0 0 (sample_handler empty_tracking) = Some s
    \<and> smc_reach sample_mprotect everywhere may_write s \<and> length (Threads s) = 1
    \<and> (\<exists>R. mapping_at (Tracking s) 0x1900 = Some (R, 0x900, \<lparr>Shared = False\<rparr>, rw))"
proof -
  let ?s = "sample_handler empty_tracking"
  have h: "?s\<lparr>Host := \<lambda>_. True\<rparr> = ?s" by (simp add: sample_handler_def)
  obtain s R where s: "TrackMmap (\<lambda>_. MRID 1 2) (\<lambda>_. None) (\<lambda>_. None) 0x1000 0x2000 3 0x22 0 0 ?s = Some s"
    "length (Threads s) = 1"
    "\<forall>a. mapping_at (Tracking s) a = (if in_span 0x1000 0x2000 a
       then Some (R, 0 + (a - 0x1000), fromFlags 0x22, fromProt 3) else mapping_at (Tracking ?s) a)"
    using TrackMmap_private [OF smc_reach_ok [OF sample_mprotect_ok sample_reach], of "0x22" "0x1000" 0 "0x2000" "\<lambda>_. True"
        "\<lambda>_. MRID 1 2" "\<lambda>_. None" "\<lambda>_. None" 3 0]
    by (auto simp: h sample_size flag_words sample_aligned host_outside_def everywhere_def)
  have "smc_reach sample_mprotect everywhere may_write s"
    by (rule smc_reach.mmap [OF sample_reach, where h = "\<lambda>_. True"])
      (use s(1) in \<open>simp_all add: h flag_words sample_aligned host_outside_def everywhere_def\<close>)
  moreover have "mapping_at (Tracking s) 0x1900 = Some (R, 0x900, \<lparr>Shared = False\<rparr>, rw)"
    using s(3) by (simp add: in_span_def fromFlags_def fromProt_def flag_words rw_def)
  ultimately show ?thesis using s(1,2) by blast
qed

theorem compiled_code_stays_protected_witness:
  "\<exists>s s'. TrackMmap (\<lambda>_. MRID 1 2) (\<lambda>_. None) (\<lambda>_. None) 0x1000 0x2000 3 0x22 0 0 (sample_handler empty_tracking) = Some s
    \<and> decoded_range sample_mprotect 0 0x1800 0x1800 8 s = Some s' \<and> \<not> Host s' 0x1900"
proof -
  obtain s R where s: "TrackMmap (\<lambda>_. MRID 1 2) (\<lambda>_. None) (\<lambda>_. None) 0x1000 0x2000 3 0x22 0 0 (sample_handler empty_tracking) = Some s"
    "smc_reach sample_mprotect everywhere may_write s" "length (Threads s) = 1"
    "mapping_at (Tracking s) 0x1900 = Some (R, 0x900, \<lparr>Shared = False\<rparr>, rw)" using sample_mmap by blast
  obtain s' where s': "decoded_range sample_mprotect 0 0x1800 0x1800 8 s = Some s'"
    "s' = s\<lparr>Threads := Threads s', Host := Host s'\<rparr>" "has_code (Threads s') 1"
    using decoded_range_ok [OF sample_mprotect_ok smc_reach_ok [OF sample_mprotect_ok s(2)], of 0 8 "0x1800" "0x1800"] s(3)
    by (auto simp: range_pages_set)
  have "smc_reach sample_mprotect everywhere may_write s'"
    by (rule smc_reach.decode [OF s(2) _ _ _ s'(1)]) (simp_all add: s(3))
  moreover have "store_reaches (Tracking s') 0x1900 0x1900"
    using s(4) arg_cong [OF s'(2), of Tracking]
    by (simp add: store_reaches_def must_trap_def same_byte_def tracked_writable_def rw_def)
  ultimately have "\<not> may_write (Host s') 0x1900"
    using compiled_code_stays_protected [OF sample_mprotect_ok, of s' "0x1900" "0x1900"] s'(3) by simp
  then show ?thesis using s(1) s'(1) by (auto simp: may_write_def)
qed

theorem MarkGuestExecutableRange_protects_witness:
  "\<exists>h. MarkGuestExecutableRange sample_mprotect 0x2800 16 (sample_handler two_vmas)
      = Some ((sample_handler two_vmas)\<lparr>Host := h\<rparr>) \<and> \<not> h 0x2800"
proof -
  obtain h where h: "MarkGuestExecutableRange sample_mprotect 0x2800 16 (sample_handler two_vmas)
      = Some ((sample_handler two_vmas)\<lparr>Host := h\<rparr>)"
    "\<forall>b. may_write h b \<longleftrightarrow> may_write (Host (sample_handler two_vmas)) b
       \<and> \<not> (\<exists>a. page a \<in> set (range_pages 0x2800 16) \<and> must_trap two_vmas a b)"
    using MarkGuestExecutableRange_protects [OF sample_mprotect_ok, of "sample_handler two_vmas" 16 "0x2800"] two_vmas_pages
    by (auto simp: host_tracks_def everywhere_def)
  have "must_trap two_vmas 0x2800 0x2800"
    using two_vmas_mappings
    by (simp add: must_trap_def same_byte_def tracked_writable_def rw_def private_flags_def)
  moreover have "page 0x2800 \<in> set (range_pages 0x2800 16)" by (simp add: range_pages_set)
  ultimately have "\<not> may_write h 0x2800" using h(2) by blast
  then show ?thesis using h(1) by (auto simp: may_write_def)
qed

theorem HandleSegfault_correct_witness:
  "\<exists>s' . HandleSegfault sample_mprotect 0x2800 (sample_handler two_vmas) = Some (True, s') \<and> Host s' 0x2800"
proof -
  have "tracked_writable two_vmas 0x2800" using two_vmas_mappings by (simp add: tracked_writable_def rw_def)
  then show ?thesis
    using HandleSegfault_correct [OF sample_mprotect_ok, of "sample_handler two_vmas" "0x2800"] two_vmas_pages
    by (auto simp: host_tracks_def everywhere_def sample_threads may_write_def)
qed

theorem TrackMunmap_correct_witness:
  "\<exists>s'. TrackMunmap 0x2000 0x2000 (sample_handler two_vmas) = Some s' \<and> mapping_at (Tracking s') 0x2800 = None"
proof -
  have h: "(sample_handler two_vmas)\<lparr>Host := \<lambda>_. True\<rparr> = sample_handler two_vmas" by (simp add: sample_handler_def)
  show ?thesis
    using TrackMunmap_correct [OF sample_smc_ok [OF two_vmas_pages], of "0x2000" "0x2000" "\<lambda>_. True"]
    by (auto simp: h sample_size sample_aligned host_outside_def in_span_def)
qed

theorem mremap_keeps_code_of_target_witness:
  "\<exists>s s'. decoded_range sample_mprotect 0 0x1800 0x1800 8 (sample_handler two_vmas) = Some s
    \<and> TrackMremap 0x4000 0x1000 0x1000 3 0x1000 s = Some s'
    \<and> mapping_at (Tracking s') 0x1800 = Some (None, 0x1800, private_flags, rw) \<and> has_code (Threads s') 1"
proof -
  let ?e = "private_vma 0x3000 0x4000 rw"
  obtain s where s: "decoded_range sample_mprotect 0 0x1800 0x1800 8 (sample_handler two_vmas) = Some s"
    "smc_ok everywhere may_write s" "has_code (Threads s) 1" "Tracking s = two_vmas"
    using decoded_sample [OF two_vmas_pages] by blast
  have "vma_at two_vmas 0x4000 ?e"
    by (simp add: vma_at_def get_vma_def two_vmas_def private_vma_def covers_def map_end_def)
  then show ?thesis
    using mremap_keeps_code_of_target [OF s(2), of "0x4000" ?e "0x1000" "0x1000" "0x1000" "0x1800" 3] s
    by (auto simp: sample_size sample_aligned in_span_def off_def private_vma_def)
qed

theorem new_mirror_unprotected_witness:
  "\<exists>s s'. decoded_range sample_mprotect 0 0x1800 0x1800 8 (sample_handler file_vma) = Some s
    \<and> TrackMmap (\<lambda>_. MRID 1 2) (\<lambda>_. Some ''/tmp/a'') (\<lambda>_. None) 0x8000 0x1000 3 1 0 0 (s\<lparr>Host := \<lambda>_. True\<rparr>) = Some s'
    \<and> has_code (Threads s') 1 \<and> store_reaches (Tracking s') 0x8800 0x1800 \<and> Host s' 0x8800"
proof -
  obtain s where s: "decoded_range sample_mprotect 0 0x1800 0x1800 8 (sample_handler file_vma) = Some s"
    "smc_ok everywhere may_write s" "has_code (Threads s) 1" "Tracking s = file_vma" "IsMemoryShared s"
    using decoded_sample [OF file_vma_pages(1)] by blast
  show ?thesis
    using new_mirror_unprotected [OF s(2,5), of 1 "\<lambda>_. Some ''/tmp/a''" 0 "''/tmp/a''" "0x8000" 0 "0x1000" 3 "\<lambda>_. True"
        "0x1800" "\<lambda>_. MRID 1 2" "0x8800" "\<lparr>Shared = True\<rparr>" rw "\<lambda>_. None"] s file_vma_pages(2)
    by (auto simp: sample_size sample_aligned in_span_def flag_words may_write_def)
qed

end
