(* ===== verification/Spec2Isabelle.thy ===== *)
theory Spec2Isabelle
  imports Interp_ALU_Props Pass_LongDivide Pass_ConstProp Pass_Validated Host_Alloc_Props X86_Lazy_Flags Code_Core VMA_Shm SMC_Invariant
begin

text \<open>
  FEX runs x86 and x86-64 Linux programs on another host. A guest thread looks up the compiled code of its
  instruction pointer; when there is none, the guest code is decoded, the opcode dispatcher emits intermediate
  code (IR), passes optimise it, and a back end (the interpreter, or a code generator) executes it. A Linux layer
  follows the guest's memory mappings, so that compiled code is dropped when the guest changes it. All sources
  named below are under \<^verbatim>\<open>src/External/FEXCore\<close>, unless they start with \<^verbatim>\<open>src/Source\<close>.

  \<^bold>\<open>Conventions.\<close> Machine integers are words of their width, except in the host allocator, where sizes are natural
  numbers with the wrap-around written out. A handler that the source ends with an error message or undefined
  behaviour returns \<open>Inl\<close> of an error (\<^verbatim>\<open>ir_error\<close>); a failed assertion, a dangling pointer or an aborting check is
  \<open>None\<close>. Pointers into maps are the keys of their nodes; an iterator is a position. A loop that nothing but a data
  structure invariant or the guest program bounds is a partial function into \<open>option\<close>, and what it needs to return
  is proved: for the interpreter with forward branches, for the lists of mappings, for the cache calls. There is no
  fuel. Every other loop is a total function with a termination proof. Locks are not represented: an operation that
  holds one is one step. Host calls (\<^verbatim>\<open>mmap\<close>, \<^verbatim>\<open>munmap\<close>, \<^verbatim>\<open>mprotect\<close>, \<^verbatim>\<open>fstat\<close>), the code generator, and tables that
  the build generates are parameters, with what the code relies on as hypotheses.

  \<^bold>\<open>Shared theories.\<close> \<^verbatim>\<open>FEX_Prelude\<close>: words, partial writes into the 16-byte SSA cells, bit counting, results,
  theorem collections. \<^verbatim>\<open>Std_Map\<close>: the operations of \<^verbatim>\<open>std::map\<close> on ordered association lists, related to finite maps.

  \<^bold>\<open>Code cache.\<close> \<^verbatim>\<open>Lookup_Cache\<close> models \<^verbatim>\<open>Source/Interface/Core/LookupCache.h\<close> and \<^verbatim>\<open>.cpp\<close>: the record \<open>LookupCache\<close> holds
  L1 (a direct-mapped array), L2 (a page table over a bump allocator), the block list, the block links and the code
  pages; one definition per method. The locale \<open>code_cache\<close> states what the context needs of a cache and is
  interpreted on it. \<^verbatim>\<open>Code_Core\<close> models the parts of \<^verbatim>\<open>Core.cpp\<close> that use the cache: compiling on demand, removing,
  clearing and invalidating code. Shown: in every state reached without exhausting L2, \<^verbatim>\<open>FindBlock\<close> refines the block list
  for all guest addresses but zero; in every reachable state indices stay within the page memory and all calls return;
  \<^verbatim>\<open>CompileBlock\<close> compiles exactly on a miss and enters the result; invalidation removes exactly the code of the
  touched pages; and the two places where the cache answers wrongly (L2 exhaustion, address zero after an erase).

  \<^bold>\<open>Memory tracking.\<close> \<^verbatim>\<open>VMA_Tracking\<close> models \<^verbatim>\<open>src/Source/Tests/LinuxSyscalls/SyscallsVMATracking.cpp\<close>: the ordered map of
  mappings and the intrusive lists of their resources. \<^verbatim>\<open>VMA_Lists\<close> has the list invariant,
  \<^verbatim>\<open>VMA_Props\<close> the abstract view, a partial function from addresses to mappings, and the refinement: clearing, setting and
  changing a range act on it address by address. \<^verbatim>\<open>VMA_Shm\<close> shows what detaching shared memory removes, and the invariant of the
  states reachable by all operations, where a change of protection must not meet a mapping that starts below its range
  and ends inside it: such a change makes mappings overlap (\<open>ChangeUnsafe_overlap\<close>). \<^verbatim>\<open>SMC_Tracking\<close> models \<^verbatim>\<open>SyscallsSMCTracking.cpp\<close>: the hooks of the memory
  system calls, write protection of compiled pages with all their mirrors, and the fault handler. \<^verbatim>\<open>SMC_Props\<close>,
  \<^verbatim>\<open>SMC_Syscalls\<close> and \<^verbatim>\<open>SMC_Invariant\<close> show that compiled code stays protected in all reachable states, that modified code is
  compiled again, and the system call that breaks this (a move onto compiled code).

  \<^bold>\<open>Interpreter.\<close> \<^verbatim>\<open>Interp_ALU\<close> has one definition per integer handler of \<^verbatim>\<open>Source/Interface/Core/Interpreter/ALUOps.cpp\<close>, \<^verbatim>\<open>MoveOps.cpp\<close> and
  \<^verbatim>\<open>FlagOps.cpp\<close>; \<^verbatim>\<open>Interp_Machine\<close> has the IR operations, the machine state (\<open>istate\<close>: SSA cells, guest context, memory, pending
  branch, fault) and the memory, atomic and branch handlers; \<^verbatim>\<open>Interp_Loop\<close> has \<^verbatim>\<open>InterpretIR\<close>. \<^verbatim>\<open>Interp_ALU_Props\<close> compares
  handlers with arithmetic specifications.

  \<^bold>\<open>Flags.\<close> \<^verbatim>\<open>IR_Emitter\<close> models the emitter as a state monad over the builder, \<^verbatim>\<open>Emit_Logic\<close> is a program logic for emitters.
  \<^verbatim>\<open>X86_Flags\<close> models \<^verbatim>\<open>Source/Interface/Core/OpcodeDispatcher/Flags.cpp\<close> and the deferral in \<^verbatim>\<open>OpcodeDispatcher.h\<close>; \<^verbatim>\<open>X86_Arch\<close> defines
  the flags of the architecture. \<^verbatim>\<open>X86_Flags_Effect\<close> and \<^verbatim>\<open>X86_Flags_Correct\<close> show that the interpreted code stores these flags
  (for shifts: with all amounts that the handlers' masks leave, and sign-extended operands of the arithmetic shift);
  \<^verbatim>\<open>X86_Deferred\<close> and \<^verbatim>\<open>X86_Lazy_Flags\<close> that deferring them is the same as storing them at once (locale \<open>lazy_flags\<close>), and
  that packing and unpacking the flags register are inverse.

  \<^bold>\<open>Passes.\<close> \<^verbatim>\<open>IR_Graph\<close> has functions with use counts and the contract of a pass (locale \<open>ir_pass\<close>): a run of the original
  that ends without a fault ends in the same guest state afterwards, and the new function ends only if the old one
  does. \<^verbatim>\<open>IR_Values\<close>, \<^verbatim>\<open>IR_Local\<close> and \<^verbatim>\<open>IR_Rewrite\<close> show it for passes that rewrite nodes one by one (locales \<open>local_pass\<close> and \<open>rewriter\<close>,
  each a special case of the one before), for code whose values are used in the block that computes them. \<^verbatim>\<open>Pass_DeadCode\<close>, \<^verbatim>\<open>Pass_LongDivide\<close>,
  \<^verbatim>\<open>Pass_ConstProp\<close> model \<^verbatim>\<open>Source/Interface/IR/Passes/DeadCodeElimination.cpp\<close>, \<^verbatim>\<open>LongDivideRemovalPass.cpp\<close> and \<^verbatim>\<open>ConstProp.cpp\<close>
  and interpret the locales. The rewriting passes are not sound on all code: a guard says when a rewrite is safe, the
  theorems assume that the pass makes only such rewrites on the list at hand, and counterexamples show that the guard is
  needed. \<^verbatim>\<open>IR_Validation\<close> models \<^verbatim>\<open>IRValidation.cpp\<close>: what accepted code cannot do, and how the bits that an earlier run
  leaves behind weaken it. \<^verbatim>\<open>Pass_Validated\<close> shows that dead code elimination keeps accepted code accepted.

  \<^bold>\<open>Host memory.\<close> \<^verbatim>\<open>Host_Regions\<close> models \<^verbatim>\<open>StealMemoryRegion\<close> of \<^verbatim>\<open>Source/Utils/Allocator.cpp\<close>, a parser that claims the gaps of the table of
  mappings; \<^verbatim>\<open>Host_Alloc64\<close> models \<^verbatim>\<open>Source/Utils/Allocator/64BitAllocator.cpp\<close> and \<^verbatim>\<open>FlexBitSet.h\<close>: reserved and live regions, the scans over the
  page bits, \<^verbatim>\<open>Mmap\<close> and \<^verbatim>\<open>Munmap\<close>. \<^verbatim>\<open>Host_Alloc_Props\<close> shows that exactly the gaps are claimed, that the allocator built from them
  is well formed, and that clients which ask for memory anywhere and unmap only what they own never get a page twice,
  on a host that may refuse mappings and only has to honour \<^verbatim>\<open>MAP_FIXED\<close>; and that refused mappings are reported as
  successes and tracking pages are handed out. Requests at an address of the client's choice are in the model; the
  ownership theorem does not cover them.

  \<^bold>\<open>Not modelled.\<close> The frontend decoder and instruction tables, the instruction handlers of the opcode dispatcher other than
  their flag code, vector, x87 and crypto operations (they need the host's floating point and IR that the model
  does not have), the pass manager, register allocation and the store elimination passes, the code generators and signal frames (assembly
  through vendored assemblers), CPUID, the object cache, configuration, the other system calls, thunks and tools (host
  I/O and generated code). Of \<^verbatim>\<open>Core.cpp\<close>, thread creation and the service threads are left out.
\<close>

end
